(* ===== verification/Prelude.thy ===== *)
theory Prelude
  imports
    Main
    "HOL-Library.Word"
    "HOL-Library.Monad_Syntax"
    "HOL-Library.Char_ord"
    "HOL-Library.List_Lexorder"
    "HOL-Library.Sublist"
    "HOL-Library.Code_Target_Nat"
begin

unbundle bit_operations_syntax

text \<open>
  Shared vocabulary of the development: machine words, the panic monad, byte buffers,
  big-endian fields, and the parts of Rust's string library the components use.

  A Rust function that can panic (an index or a subslice out of range) is a function into
  \<open>'a exec\<close>: \<open>None\<close> is the panic, \<open>Some r\<close> is the value returned. A Rust function of
  type \<open>Option<T>\<close> therefore has type \<open>T option exec\<close>: \<open>None\<close> panics, \<open>Some None\<close>
  is an early \<open>return None\<close>. Lengths and offsets (\<open>usize\<close>) are \<open>nat\<close>: they index
  buffers that exist in memory, so they stay far below \<open>2 ^ 64\<close>.

  A Rust \<open>str\<close> on the network side is its UTF-8 byte sequence, a HOL \<open>string\<close>
  (a list of 8-bit \<open>char\<close>s); the operations used there (splitting at an ASCII dot, ASCII
  case folding, comparison) act on bytes in Rust too.
\<close>

section \<open>Types\<close>

type_synonym u8 = "8 word"
type_synonym u16 = "16 word"
type_synonym u32 = "32 word"
type_synonym u64 = "64 word"
type_synonym u128 = "128 word"
type_synonym bytes = "u8 list"
type_synonym 'a exec = "'a option"

named_theorems buf_simps \<open>evaluation of buffer reads under length bounds\<close>
named_theorems label_simps \<open>splitting and joining of dotted names\<close>
named_theorems exec_total \<open>functions of the panic monad that always return\<close>

section \<open>Buffers\<close>

text \<open>\<open>buf[i]\<close>: panics out of range. \<open>buf[a..b]\<close> panics, \<open>buf.get(a..b)\<close> is \<open>None\<close>,
  unless \<open>a \<le> b \<le> buf.len()\<close>; both are \<open>subslice\<close>.\<close>

definition idx :: "'a list \<Rightarrow> nat \<Rightarrow> 'a exec" where
  "idx xs i = (if i < length xs then Some (xs ! i) else None)"

definition subslice :: "'a list \<Rightarrow> nat \<Rightarrow> nat \<Rightarrow> 'a list option" where
  "subslice xs a b = (if a \<le> b \<and> b \<le> length xs then Some (take (b - a) (drop a xs)) else None)"

definition subslice_from :: "'a list \<Rightarrow> nat \<Rightarrow> 'a list option" where
  "subslice_from xs a = (if a \<le> length xs then Some (drop a xs) else None)"

lemma idx_Some [buf_simps]: "i < length xs \<Longrightarrow> idx xs i = Some (xs ! i)"
  by (simp add: idx_def)

lemma idx_None [buf_simps]: "length xs \<le> i \<Longrightarrow> idx xs i = None"
  by (simp add: idx_def)

lemma idx_eq_Some_iff: "idx xs i = Some x \<longleftrightarrow> i < length xs \<and> xs ! i = x"
  by (auto simp: idx_def)

lemma subslice_Some [buf_simps]:
  "a \<le> b \<Longrightarrow> b \<le> length xs \<Longrightarrow> subslice xs a b = Some (take (b - a) (drop a xs))"
  by (simp add: subslice_def)

lemma subslice_eq_Some_iff:
  "subslice xs a b = Some ys \<longleftrightarrow> a \<le> b \<and> b \<le> length xs \<and> ys = take (b - a) (drop a xs)"
  by (auto simp: subslice_def)

lemma length_subslice: "subslice xs a b = Some ys \<Longrightarrow> length ys = b - a"
  by (auto simp: subslice_eq_Some_iff)

lemma subslice_append_right:
  "subslice (xs @ ys) (length xs) (length xs + length ys) = Some ys"
  by (simp add: subslice_def)

lemma subslice_middle:
  "subslice (xs @ ys @ zs) (length xs) (length xs + length ys) = Some ys"
  by (simp add: subslice_def)

text \<open>Writes: \<open>buf[i] = b\<close> and \<open>buf[i..i + n].copy_from_slice(bs)\<close> with \<open>n = bs.len()\<close>.\<close>

definition set_at :: "'a list \<Rightarrow> nat \<Rightarrow> 'a \<Rightarrow> 'a list exec" where
  "set_at xs i x = (if i < length xs then Some (xs[i := x]) else None)"

definition copy_at :: "'a list \<Rightarrow> nat \<Rightarrow> 'a list \<Rightarrow> 'a list exec" where
  "copy_at xs i ys =
     (if i + length ys \<le> length xs then Some (take i xs @ ys @ drop (i + length ys) xs) else None)"

lemma list_update_Cons_numeral [simp]:
  "(x # xs)[numeral v := y] = x # xs[pred_numeral v := y]"
  by (simp add: numeral_eq_Suc)

lemma copy_at_Some:
  "i + length ys \<le> length xs \<Longrightarrow> copy_at xs i ys = Some (take i xs @ ys @ drop (i + length ys) xs)"
  by (simp add: copy_at_def)

section \<open>Big-endian fields\<close>

definition be16 :: "u8 \<Rightarrow> u8 \<Rightarrow> u16" where
  "be16 a b = push_bit 8 (ucast a) OR ucast b"

definition to_be16 :: "u16 \<Rightarrow> bytes" where
  "to_be16 w = [ucast (drop_bit 8 w), ucast w]"

lemma length_to_be16 [simp]: "length (to_be16 w) = 2"
  by (simp add: to_be16_def)

lemma be16_to_be16 [simp]: "be16 (ucast (drop_bit 8 w)) (ucast w) = w"
  unfolding be16_def by (rule bit_eqI) (auto simp: bit_simps)

lemma be16_inverse:
  "ucast (drop_bit 8 (be16 a b)) = a" "ucast (be16 a b) = b"
  unfolding be16_def
  by (rule bit_eqI, auto simp: bit_simps dest: bit_imp_le_length)+

lemma to_be16_be16 [simp]: "to_be16 (be16 a b) = [a, b]"
  by (simp add: to_be16_def be16_inverse)

lemma unat_u8_bound: "unat (a :: u8) < 256"
  using unsigned_less [of a] by simp

lemma unat_u16_bound: "unat (a :: u16) < 65536"
  using unsigned_less [of a] by simp

lemma unat_u32_bound: "unat (a :: u32) < 4294967296"
  using unsigned_less [where ?'a = nat, of a] by simp

lemma unat_not: "unat (NOT a :: 'a::len word) = 2 ^ LENGTH('a) - 1 - unat a"
proof -
  have "NOT a = - 1 - a" by (simp add: not_eq_complement)
  then show ?thesis by (simp add: unat_sub unsigned_minus_1_eq_mask mask_eq_exp_minus_1)
qed

lemma unat_be16: "unat (be16 a b) = unat a * 256 + unat b"
proof -
  have "push_bit 8 (ucast a :: u16) AND ucast b = 0"
    by (rule bit_eqI) (auto simp: bit_simps dest: bit_imp_le_length)
  then have eq: "be16 a b = push_bit 8 (ucast a) + ucast b"
    unfolding be16_def by (simp add: disjunctive_add_eq_or)
  have up: "unat (ucast c :: u16) = unat c" for c :: u8
    using unat_u8_bound [of c] by (simp add: unsigned_ucast_eq take_bit_nat_eq_self)
  have "unat (push_bit 8 (ucast a :: u16)) = unat a * 256"
    using unat_u8_bound [of a] by (simp add: push_bit_eq_mult unat_word_ariths up)
  then show ?thesis
    using unat_u8_bound [of a] unat_u8_bound [of b]
    by (simp add: eq unat_word_ariths up)
qed

lemma be16_zero [simp]: "be16 0 0 = 0"
  by (simp add: be16_def)

end
