(* ===== verification/Btree.thy ===== *)
theory Btree
  imports Prelude "HOL-Library.Product_Lexorder"
begin

text \<open>
  \<open>std::collections::BTreeMap\<close> as the association list its iteration yields: keys strictly
  increasing. The contract of an ordered map is a locale; the association lists interpret it,
  and its lemmas give the components the map a sequence of insertions builds and the order in
  which it is traversed.
\<close>

type_synonym ('k, 'v) btree = "('k \<times> 'v) list"

definition bt_get :: "('k, 'v) btree \<Rightarrow> 'k \<Rightarrow> 'v option" where
  "bt_get m k = map_of m k"

fun bt_insert :: "'k::linorder \<Rightarrow> 'v \<Rightarrow> ('k, 'v) btree \<Rightarrow> ('k, 'v) btree" where
  "bt_insert k v [] = [(k, v)]"
| "bt_insert k v ((k', v') # m) =
     (if k < k' then (k, v) # (k', v') # m
      else if k = k' then (k, v) # m
      else (k', v') # bt_insert k v m)"

text \<open>\<open>entry(k).and_modify(f).or_insert(v)\<close>.\<close>

definition bt_upsert :: "'k::linorder \<Rightarrow> ('v \<Rightarrow> 'v) \<Rightarrow> 'v \<Rightarrow> ('k, 'v) btree \<Rightarrow> ('k, 'v) btree" where
  "bt_upsert k f v m = bt_insert k (case bt_get m k of Some w \<Rightarrow> f w | None \<Rightarrow> v) m"

definition bt_inv :: "('k::linorder, 'v) btree \<Rightarrow> bool" where
  "bt_inv m \<longleftrightarrow> sorted_wrt (<) (map fst m)"

lemma set_bt_insert: "set (bt_insert k v m) \<subseteq> insert (k, v) (set m)"
  by (induction m) (auto split: if_splits)

lemma bt_inv_insert: "bt_inv m \<Longrightarrow> bt_inv (bt_insert k v m)"
proof (induction m)
  case (Cons a m)
  then show ?case
    using set_bt_insert [of k v m] by (cases a) (fastforce simp: bt_inv_def)
qed (simp add: bt_inv_def)

lemma bt_get_insert: "bt_inv m \<Longrightarrow> bt_get (bt_insert k v m) = (bt_get m)(k \<mapsto> v)"
proof (induction m)
  case (Cons a m)
  obtain k' v' where a: "a = (k', v')" by (cases a)
  have "k \<noteq> k'" if "\<not> k < k'" "k \<noteq> k'" using that by simp
  with Cons show ?case by (auto simp: a bt_inv_def bt_get_def fun_eq_iff)
qed (simp add: bt_get_def fun_eq_iff)

locale ordered_map =
  fixes empty :: 'm
    and get :: "'m \<Rightarrow> 'k::linorder \<Rightarrow> 'v option"
    and put :: "'k \<Rightarrow> 'v \<Rightarrow> 'm \<Rightarrow> 'm"
    and items :: "'m \<Rightarrow> ('k \<times> 'v) list"
    and inv :: "'m \<Rightarrow> bool"
  assumes inv_empty: "inv empty"
    and get_empty: "get empty k = None"
    and inv_put: "inv m \<Longrightarrow> inv (put k v m)"
    and get_put: "inv m \<Longrightarrow> get (put k v m) = (get m)(k \<mapsto> v)"
    and items_get: "inv m \<Longrightarrow> map_of (items m) = get m"
    and items_sorted: "inv m \<Longrightarrow> sorted_wrt (<) (map fst (items m))"
begin

lemma fold_put:
  "inv m \<Longrightarrow> inv (foldl (\<lambda>m (k, v). put k v m) m kvs) \<and>
     get (foldl (\<lambda>m (k, v). put k v m) m kvs) = get m ++ map_of (rev kvs)"
proof (induction kvs arbitrary: m)
  case (Cons a kvs)
  obtain k v where a: "a = (k, v)" by (cases a)
  from Cons.IH [OF inv_put [OF Cons.prems]] show ?case
    by (simp add: a get_put [OF Cons.prems] fun_eq_iff map_add_def split: option.splits)
qed simp

lemma get_puts: "get (foldl (\<lambda>m (k, v). put k v m) empty kvs) = map_of (rev kvs)"
proof -
  have "get empty = Map.empty" by (simp add: get_empty fun_eq_iff)
  with fold_put [OF inv_empty] show ?thesis by simp
qed

lemma inv_puts: "inv (foldl (\<lambda>m (k, v). put k v m) empty kvs)"
  using fold_put [OF inv_empty] by blast

lemma keys_items: "inv m \<Longrightarrow> map fst (items m) = sorted_list_of_set (dom (get m))"
proof -
  assume m: "inv m"
  have d: "dom (get m) = set (map fst (items m))"
    using items_get [OF m] by (metis dom_map_of_conv_image_fst list.set_map)
  have s: "sorted (map fst (items m))" "distinct (map fst (items m))"
    using items_sorted [OF m] by (simp_all add: strict_sorted_iff)
  show ?thesis unfolding d by (rule sorted_list_of_set.idem_if_sorted_distinct [symmetric]) (fact s)+
qed

lemma items_determined:
  assumes "inv m"
  shows "items m = map (\<lambda>k. (k, the (get m k))) (sorted_list_of_set (dom (get m)))"
proof -
  have dist: "distinct (map fst (items m))"
    using items_sorted [OF assms] by (simp add: strict_sorted_iff)
  have "(fst kv, the (get m (fst kv))) = kv" if "kv \<in> set (items m)" for kv
  proof -
    from that have "map_of (items m) (fst kv) = Some (snd kv)"
      by (intro map_of_is_SomeI [OF dist]) simp
    then show ?thesis by (simp add: items_get [OF assms])
  qed
  then have "items m = map (\<lambda>k. (k, the (get m k))) (map fst (items m))"
    by (simp add: map_idI comp_def)
  then show ?thesis by (simp only: keys_items [OF assms])
qed

end

interpretation bt: ordered_map "[]" bt_get bt_insert "\<lambda>m. m" bt_inv
  by unfold_locales (simp_all add: bt_inv_insert bt_get_insert, simp_all add: bt_inv_def bt_get_def fun_eq_iff)

lemma bt_get_upsert:
  "bt_inv m \<Longrightarrow> bt_get (bt_upsert k f v m) =
     (bt_get m)(k \<mapsto> (case bt_get m k of Some w \<Rightarrow> f w | None \<Rightarrow> v))"
  by (simp add: bt_upsert_def bt_get_insert)

lemma bt_inv_upsert: "bt_inv m \<Longrightarrow> bt_inv (bt_upsert k f v m)"
  by (simp add: bt_upsert_def bt_inv_insert)

lemma bt_inv_Nil [simp]: "bt_inv []"
  by (simp add: bt_inv_def)

lemma bt_get_Nil [simp]: "bt_get [] = Map.empty"
  by (simp add: bt_get_def fun_eq_iff)

lemma sort_distinct: "distinct xs \<Longrightarrow> sort xs = sorted_list_of_set (set xs)"
  by (simp add: sorted_list_of_set_sort_remdups distinct_remdups_id)

end
