(* ===== verification/Rust_Str.thy ===== *)
theory Rust_Str
  imports Prelude
begin

text \<open>
  The operations of Rust's \<open>str\<close> and \<open>slice\<close> libraries the network components use, on
  UTF-8 byte strings: \<open>split(c)\<close>, \<open>split_once(c)\<close>, \<open>join\<close>, \<open>strip_prefix\<close>,
  \<open>strip_suffix\<close>, \<open>contains\<close>, ASCII case folding and \<open>str::from_utf8\<close>. The lemmas
  make splitting and joining mutually inverse and relate a string's separator positions to
  its labels.
\<close>

section \<open>Splitting and joining\<close>

fun split_on :: "'a \<Rightarrow> 'a list \<Rightarrow> 'a list list" where
  "split_on c [] = [[]]"
| "split_on c (x # xs) =
     (if x = c then [] # split_on c xs
      else (case split_on c xs of [] \<Rightarrow> [[x]] | l # ls \<Rightarrow> (x # l) # ls))"

fun join_with :: "'a \<Rightarrow> 'a list list \<Rightarrow> 'a list" where
  "join_with c [] = []"
| "join_with c [l] = l"
| "join_with c (l # m # ls) = l @ c # join_with c (m # ls)"

fun split_once :: "'a \<Rightarrow> 'a list \<Rightarrow> ('a list \<times> 'a list) option" where
  "split_once c [] = None"
| "split_once c (x # xs) =
     (if x = c then Some ([], xs) else map_option (\<lambda>(a, b). (x # a, b)) (split_once c xs))"

definition strip_prefix :: "'a list \<Rightarrow> 'a list \<Rightarrow> 'a list option" where
  "strip_prefix p s = (if prefix p s then Some (drop (length p) s) else None)"

definition strip_suffix :: "'a list \<Rightarrow> 'a list \<Rightarrow> 'a list option" where
  "strip_suffix p s = (if suffix p s then Some (take (length s - length p) s) else None)"

definition str_contains :: "'a list \<Rightarrow> 'a list \<Rightarrow> bool" where
  "str_contains s p \<longleftrightarrow> (\<exists>t \<in> set (suffixes s). prefix p t)"

lemma split_on_not_Nil [simp]: "split_on c s \<noteq> []"
  by (induction s) (auto split: list.splits)

lemma split_on_no_sep: "l \<in> set (split_on c s) \<Longrightarrow> c \<notin> set l"
  by (induction s arbitrary: l) (auto split: if_splits list.splits)

lemma split_on_id [label_simps]: "c \<notin> set s \<Longrightarrow> split_on c s = [s]"
  by (induction s) auto

lemma split_on_append [label_simps]: "split_on c (a @ c # b) = split_on c a @ split_on c b"
  by (induction a) (auto split: list.splits)

lemma join_with_Cons: "ls \<noteq> [] \<Longrightarrow> join_with c (l # ls) = l @ c # join_with c ls"
  by (cases ls) auto

lemma join_with_append [label_simps]:
  "xs \<noteq> [] \<Longrightarrow> ys \<noteq> [] \<Longrightarrow> join_with c (xs @ ys) = join_with c xs @ c # join_with c ys"
  by (induction xs rule: list_nonempty_induct) (auto simp: join_with_Cons)

lemma join_split [simp]: "join_with c (split_on c s) = s"
proof (induction s)
  case (Cons x s)
  show ?case
  proof (cases "split_on c s")
    case (Cons l ls)
    with Cons.IH show ?thesis
      by (cases ls) (auto simp: join_with_Cons)
  qed simp
qed simp

lemma split_join:
  "ls \<noteq> [] \<Longrightarrow> \<forall>l \<in> set ls. c \<notin> set l \<Longrightarrow> split_on c (join_with c ls) = ls"
  by (induction ls rule: list_nonempty_induct) (auto simp: join_with_Cons label_simps)

lemma split_on_inject: "split_on c s = split_on c t \<longleftrightarrow> s = t"
  by (metis join_split)

lemma join_with_rev_split_inject:
  "join_with c (rev (split_on c s)) = join_with c (rev (split_on c t)) \<longleftrightarrow> s = t"
proof
  assume "join_with c (rev (split_on c s)) = join_with c (rev (split_on c t))"
  then have "split_on c (join_with c (rev (split_on c s)))
      = split_on c (join_with c (rev (split_on c t)))" by simp
  then have "rev (split_on c s) = rev (split_on c t)"
    by (simp add: split_join split_on_no_sep)
  then show "s = t" by (simp add: split_on_inject)
qed simp

lemma length_join_with:
  "ls \<noteq> [] \<Longrightarrow> Suc (length (join_with c ls)) = sum_list (map (\<lambda>l. Suc (length l)) ls)"
  by (induction ls rule: list_nonempty_induct) (auto simp: join_with_Cons)

lemma split_on_map:
  assumes "\<And>x. f x = c \<longleftrightarrow> x = c"
  shows "split_on c (map f s) = map (map f) (split_on c s)"
  by (induction s) (auto simp: assms split: list.splits)

lemma set_join_with:
  "set (join_with c ls) \<subseteq> insert c (\<Union> (set ` set ls))"
  by (induction c ls rule: join_with.induct) auto

lemma split_once_None: "split_once c s = None \<longleftrightarrow> c \<notin> set s"
  by (induction s) auto

lemma split_once_Some:
  "split_once c s = Some (a, b) \<longleftrightarrow> s = a @ c # b \<and> c \<notin> set a"
proof (induction s arbitrary: a)
  case (Cons x s)
  then show ?case by (cases a) auto
qed simp

lemma strip_suffix_Some: "strip_suffix p s = Some r \<longleftrightarrow> s = r @ p"
  by (auto simp: strip_suffix_def suffix_def)

lemma strip_prefix_Some: "strip_prefix p s = Some r \<longleftrightarrow> s = p @ r"
  by (auto simp: strip_prefix_def prefix_def)

lemma str_contains_iff: "str_contains s p \<longleftrightarrow> (\<exists>a b. s = a @ p @ b)"
proof
  assume "str_contains s p"
  then obtain t b where "suffix t s" and "t = p @ b"
    by (auto simp: str_contains_def prefix_def)
  then show "\<exists>a b. s = a @ p @ b"
    by (metis suffix_def)
next
  assume "\<exists>a b. s = a @ p @ b"
  then obtain a b where "suffix (p @ b) s"
    by (auto simp: suffix_def)
  then show "str_contains s p"
    by (auto simp: str_contains_def intro!: bexI [of _ "p @ b"])
qed

section \<open>Label paths and separator positions\<close>

text \<open>The prefixes of \<open>s\<close> that end right before a separator, and \<open>s\<close> itself, are the
  joins of the non-empty prefixes of its label list, in order of length.\<close>

text \<open>A label-suffix is the string itself or what follows one of its separators.\<close>

lemma suffix_split_iff:
  "suffix (split_on c e) (split_on c n) \<longleftrightarrow> n = e \<or> (\<exists>p. n = p @ c # e)"
proof
  assume "suffix (split_on c e) (split_on c n)"
  then obtain ls where ls: "split_on c n = ls @ split_on c e" by (auto simp: suffix_def)
  show "n = e \<or> (\<exists>p. n = p @ c # e)"
  proof (cases "ls = []")
    case True
    with ls show ?thesis by (simp add: split_on_inject)
  next
    case False
    have "n = join_with c (split_on c n)" by simp
    also have "\<dots> = join_with c ls @ c # e" using False by (simp add: ls join_with_append)
    finally show ?thesis by blast
  qed
next
  assume "n = e \<or> (\<exists>p. n = p @ c # e)"
  then show "suffix (split_on c e) (split_on c n)"
    by (auto simp: split_on_append suffix_def)
qed

fun sep_prefixes :: "'a \<Rightarrow> 'a list \<Rightarrow> 'a list list" where
  "sep_prefixes c [] = [[]]"
| "sep_prefixes c (x # xs) =
     (if x = c then [] # map ((#) x) (sep_prefixes c xs) else map ((#) x) (sep_prefixes c xs))"

lemma sep_prefixes_split:
  "sep_prefixes c s = map (\<lambda>k. join_with c (take (Suc k) (split_on c s))) [0..<length (split_on c s)]"
proof (induction s)
  case (Cons x s)
  obtain l ls where ls: "split_on c s = l # ls" by (cases "split_on c s") auto
  show ?case
  proof (cases "x = c")
    case True
    then have "sep_prefixes c (x # s)
        = [] # map (\<lambda>k. c # join_with c (take (Suc k) (split_on c s))) [0..<length (split_on c s)]"
      by (simp add: Cons.IH)
    also have "\<dots> = map (\<lambda>k. join_with c (take (Suc k) ([] # split_on c s))) [0..<Suc (length (split_on c s))]"
      by (subst upt_conv_Cons) (auto simp: map_Suc_upt [symmetric] join_with_Cons simp del: upt_Suc)
    finally show ?thesis using True by simp
  next
    case False
    have "x # join_with c (l # ms) = join_with c ((x # l) # ms)" for ms
      by (cases ms) auto
    then show ?thesis using False Cons.IH ls by simp
  qed
qed simp

lemma set_sep_prefixes:
  "set (sep_prefixes c s) = {join_with c (take k (split_on c s)) | k. 0 < k \<and> k \<le> length (split_on c s)}"
proof -
  have "{join_with c (take k (split_on c s)) | k. 0 < k \<and> k \<le> length (split_on c s)}
    = (\<lambda>k. join_with c (take (Suc k) (split_on c s))) ` {0..<length (split_on c s)}"
    by (auto simp: image_iff intro: exI [of _ "Suc _"]) (metis Suc_le_eq Suc_pred atLeast0LessThan lessThan_iff)
  then show ?thesis by (simp add: sep_prefixes_split)
qed

section \<open>ASCII case folding\<close>

definition ascii_lower :: "char \<Rightarrow> char" where
  "ascii_lower c = (if CHR ''A'' \<le> c \<and> c \<le> CHR ''Z'' then char_of (of_char c + (32 :: nat)) else c)"

definition to_ascii_lowercase :: "string \<Rightarrow> string" where
  "to_ascii_lowercase s = map ascii_lower s"

definition is_ascii_alphabetic :: "char \<Rightarrow> bool" where
  "is_ascii_alphabetic c \<longleftrightarrow>
     (CHR ''a'' \<le> c \<and> c \<le> CHR ''z'') \<or> (CHR ''A'' \<le> c \<and> c \<le> CHR ''Z'')"

definition is_ascii_digit :: "char \<Rightarrow> bool" where
  "is_ascii_digit c \<longleftrightarrow> CHR ''0'' \<le> c \<and> c \<le> CHR ''9''"

definition is_ascii_alphanumeric :: "char \<Rightarrow> bool" where
  "is_ascii_alphanumeric c \<longleftrightarrow> is_ascii_alphabetic c \<or> is_ascii_digit c"

definition eq_ignore_ascii_case :: "string \<Rightarrow> string \<Rightarrow> bool" where
  "eq_ignore_ascii_case s t \<longleftrightarrow> to_ascii_lowercase s = to_ascii_lowercase t"

lemma char_le_iff: "c \<le> d \<longleftrightarrow> (of_char c :: nat) \<le> of_char d"
  by (simp add: less_eq_char_def)

lemma of_char_ascii_lower:
  "of_char (ascii_lower c) =
     (if 65 \<le> (of_char c :: nat) \<and> of_char c \<le> (90 :: nat) then of_char c + 32 else (of_char c :: nat))"
  by (auto simp: ascii_lower_def char_le_iff)

lemma of_char_inject: "(of_char c :: nat) = of_char d \<longleftrightarrow> c = d"
  by simp

lemma ascii_lower_idem [simp]: "ascii_lower (ascii_lower c) = ascii_lower c"
  by (simp only: of_char_inject [symmetric] of_char_ascii_lower) auto

lemma ascii_lower_dot [simp]: "ascii_lower c = CHR ''.'' \<longleftrightarrow> c = CHR ''.''"
  by (simp only: of_char_inject [symmetric] of_char_ascii_lower) auto

lemma to_ascii_lowercase_idem [simp]:
  "to_ascii_lowercase (to_ascii_lowercase s) = to_ascii_lowercase s"
  by (simp add: to_ascii_lowercase_def comp_def)

lemma length_to_ascii_lowercase [simp]: "length (to_ascii_lowercase s) = length s"
  by (simp add: to_ascii_lowercase_def)

lemma split_to_ascii_lowercase:
  "split_on CHR ''.'' (to_ascii_lowercase s) = map to_ascii_lowercase (split_on CHR ''.'' s)"
  unfolding to_ascii_lowercase_def by (rule split_on_map) simp

section \<open>UTF-8 validity\<close>

text \<open>\<open>str::from_utf8\<close>: the well-formed sequences of the Unicode standard (no overlong
  forms, no surrogates, nothing above U+10FFFF).\<close>

definition utf8_cont :: "u8 \<Rightarrow> bool" where
  "utf8_cont b \<longleftrightarrow> 0x80 \<le> b \<and> b \<le> 0xBF"

definition utf8_second_ok :: "u8 \<Rightarrow> u8 \<Rightarrow> bool" where
  "utf8_second_ok b0 b1 \<longleftrightarrow>
     (if b0 = 0xE0 then 0xA0 \<le> b1 \<and> b1 \<le> 0xBF
      else if b0 = 0xED then 0x80 \<le> b1 \<and> b1 \<le> 0x9F
      else if b0 = 0xF0 then 0x90 \<le> b1 \<and> b1 \<le> 0xBF
      else if b0 = 0xF4 then 0x80 \<le> b1 \<and> b1 \<le> 0x8F
      else utf8_cont b1)"

fun utf8_ok :: "bytes \<Rightarrow> bool" where
  "utf8_ok [] = True"
| "utf8_ok (b0 # bs) =
     (if b0 \<le> 0x7F then utf8_ok bs
      else if 0xC2 \<le> b0 \<and> b0 \<le> 0xDF then
        (case bs of b1 # r \<Rightarrow> utf8_cont b1 \<and> utf8_ok r | _ \<Rightarrow> False)
      else if 0xE0 \<le> b0 \<and> b0 \<le> 0xEF then
        (case bs of b1 # b2 # r \<Rightarrow> utf8_second_ok b0 b1 \<and> utf8_cont b2 \<and> utf8_ok r | _ \<Rightarrow> False)
      else if 0xF0 \<le> b0 \<and> b0 \<le> 0xF4 then
        (case bs of b1 # b2 # b3 # r \<Rightarrow>
           utf8_second_ok b0 b1 \<and> utf8_cont b2 \<and> utf8_cont b3 \<and> utf8_ok r | _ \<Rightarrow> False)
      else False)"

definition string_of_bytes :: "bytes \<Rightarrow> string" where
  "string_of_bytes bs = map (\<lambda>b. char_of (unat b)) bs"

definition bytes_of_string :: "string \<Rightarrow> bytes" where
  "bytes_of_string s = map (\<lambda>c. word_of_nat (of_char c)) s"

definition from_utf8 :: "bytes \<Rightarrow> string option" where
  "from_utf8 bs = (if utf8_ok bs then Some (string_of_bytes bs) else None)"

lemma utf8_ok_ascii: "\<forall>b \<in> set bs. b \<le> 0x7F \<Longrightarrow> utf8_ok bs"
  by (induction bs) auto

lemma string_of_bytes_of_string [simp]: "string_of_bytes (bytes_of_string s) = s"
proof -
  have "char_of (unat (word_of_nat (of_char c) :: u8)) = c" for c
    using of_char_mod_256 [of c] by (simp add: unsigned_of_nat take_bit_eq_mod)
  then show ?thesis
    by (simp add: string_of_bytes_def bytes_of_string_def comp_def)
qed

lemma bytes_of_string_of_bytes [simp]: "bytes_of_string (string_of_bytes bs) = bs"
proof -
  have "word_of_nat (of_char (char_of (unat b) :: char)) = b" for b :: u8
    using unat_u8_bound [of b] by simp
  then show ?thesis
    by (simp add: string_of_bytes_def bytes_of_string_def comp_def)
qed

lemma length_string_of_bytes [simp]: "length (string_of_bytes bs) = length bs"
  by (simp add: string_of_bytes_def)

lemma length_bytes_of_string [simp]: "length (bytes_of_string s) = length s"
  by (simp add: bytes_of_string_def)

end
