(* ===== verification/Domain_Normalize.thy ===== *)
theory Domain_Normalize
  imports Rust_Str
begin

text \<open>
  \<open>packages/domain-normalize\<close>: the comparison key both sides of the blocklist use, and the
  scope a rule for a key may have. UTS #46 processing is the \<open>idna\<close> crate, the parameter
  \<open>to_ascii\<close> (\<open>None\<close> is an error); the public suffix list is the parameter
  \<open>psl_domain\<close>.
\<close>

definition MAX_LABEL_BYTES :: nat where "MAX_LABEL_BYTES = 63"
definition MAX_NAME_LEN :: nat where "MAX_NAME_LEN = 253"

datatype normalize_error = EmptyDomain | InvalidIdna | LabelTooLong | NameTooLong

type_synonym to_ascii = "string \<Rightarrow> string option"

text \<open>The loop over the labels of the converted name: the first offending label decides.\<close>

fun check_labels :: "string list \<Rightarrow> normalize_error option" where
  "check_labels [] = None"
| "check_labels (label # ls) =
     (if label = [] then Some InvalidIdna
      else if length label > MAX_LABEL_BYTES then Some LabelTooLong
      else check_labels ls)"

definition normalize :: "to_ascii \<Rightarrow> string \<Rightarrow> normalize_error + string" where
  "normalize to_ascii domain =
     (let trimmed = (case strip_suffix ''.'' domain of Some s \<Rightarrow> s | None \<Rightarrow> domain)
      in if trimmed = [] then Inl EmptyDomain
         else case to_ascii trimmed of
                None \<Rightarrow> Inl InvalidIdna
              | Some ascii \<Rightarrow>
                  if ascii = [] then Inl EmptyDomain
                  else case check_labels (split_on CHR ''.'' ascii) of
                         Some e \<Rightarrow> Inl e
                       | None \<Rightarrow> if length ascii > MAX_NAME_LEN then Inl NameTooLong else Inr ascii)"

datatype rule_scope = Apex | ExactHost

instantiation rule_scope :: linorder
begin

definition less_eq_rule_scope :: "rule_scope \<Rightarrow> rule_scope \<Rightarrow> bool" where
  "less_eq_rule_scope a b \<longleftrightarrow> a = Apex \<or> b = ExactHost"

definition less_rule_scope :: "rule_scope \<Rightarrow> rule_scope \<Rightarrow> bool" where
  "less_rule_scope a b \<longleftrightarrow> a = Apex \<and> b = ExactHost"

instance
proof
  fix x y z :: rule_scope
  show "(x < y) = (x \<le> y \<and> \<not> y \<le> x)"
    by (cases x; cases y) (simp_all add: less_eq_rule_scope_def less_rule_scope_def)
  show "x \<le> x" by (cases x) (simp_all add: less_eq_rule_scope_def)
  show "x \<le> y \<Longrightarrow> y \<le> z \<Longrightarrow> x \<le> z"
    by (cases x; cases y; cases z) (simp_all add: less_eq_rule_scope_def)
  show "x \<le> y \<Longrightarrow> y \<le> x \<Longrightarrow> x = y"
    by (cases x; cases y) (simp_all add: less_eq_rule_scope_def)
  show "x \<le> y \<or> y \<le> x" by (cases x; cases y) (simp_all add: less_eq_rule_scope_def)
qed

end

definition classify_scope :: "(string \<Rightarrow> string option) \<Rightarrow> string \<Rightarrow> string list \<Rightarrow> rule_scope option" where
  "classify_scope psl_domain normalized denylist =
     (if normalized \<in> set denylist then None
      else case psl_domain normalized of
             Some registrable \<Rightarrow> if registrable = normalized then Some Apex else Some ExactHost
           | None \<Rightarrow> Some ExactHost)"

section \<open>The shape of a key\<close>

text \<open>A key is a dotted sequence of labels of 1 to 63 bytes, 253 bytes in all.\<close>

definition key_ok :: "string \<Rightarrow> bool" where
  "key_ok s \<longleftrightarrow> s \<noteq> [] \<and> length s \<le> 253 \<and>
     (\<forall>l \<in> set (split_on CHR ''.'' s). l \<noteq> [] \<and> length l \<le> 63)"

lemma check_labels_None:
  "check_labels ls = None \<longleftrightarrow> (\<forall>l \<in> set ls. l \<noteq> [] \<and> length l \<le> MAX_LABEL_BYTES)"
  by (induction ls) auto

lemma normalize_key_ok: "normalize to_ascii d = Inr k \<Longrightarrow> key_ok k"
  by (auto simp: normalize_def key_ok_def check_labels_None MAX_LABEL_BYTES_def MAX_NAME_LEN_def Let_def
      split: option.splits if_splits)

lemma key_ok_no_trailing_dot: "key_ok k \<Longrightarrow> strip_suffix ''.'' k = None"
proof (rule ccontr)
  assume k: "key_ok k" and "strip_suffix ''.'' k \<noteq> None"
  then obtain r where "k = r @ CHR ''.'' # []" by (auto simp: strip_suffix_Some)
  then have "[] \<in> set (split_on CHR ''.'' k)" by (simp add: split_on_append)
  with k show False by (auto simp: key_ok_def)
qed

definition to_ascii_idem :: "to_ascii \<Rightarrow> bool" where
  "to_ascii_idem to_ascii \<longleftrightarrow> (\<forall>s a. to_ascii s = Some a \<longrightarrow> to_ascii a = Some a)"

lemma normalize_fixed_point:
  assumes "to_ascii_idem to_ascii" and "normalize to_ascii d = Inr k"
  shows "normalize to_ascii k = Inr k"
proof -
  have ok: "key_ok k" by (rule normalize_key_ok [OF assms(2)])
  from assms have "to_ascii k = Some k"
    by (auto simp: normalize_def to_ascii_idem_def Let_def split: option.splits if_splits)
  moreover from ok have "check_labels (split_on CHR ''.'' k) = None"
    by (simp add: key_ok_def check_labels_None MAX_LABEL_BYTES_def)
  ultimately show ?thesis
    using ok key_ok_no_trailing_dot [OF ok] by (simp add: normalize_def MAX_NAME_LEN_def key_ok_def)
qed

text \<open>Every key has nonempty labels of at most 63 bytes and at most 253 bytes in all,
  whatever the conversion does; when UTS #46 conversion leaves its own output alone, a key
  is its own key, and a single trailing dot changes nothing.\<close>

theorem normalize_key:
  assumes "to_ascii_idem to_ascii" and "normalize to_ascii d = Inr k"
  shows "k \<noteq> [] \<and> length k \<le> 253 \<and>
     (\<forall>l \<in> set (split_on CHR ''.'' k). l \<noteq> [] \<and> length l \<le> 63) \<and>
     normalize to_ascii k = Inr k \<and> normalize to_ascii (k @ ''.'') = Inr k"
proof -
  have ok: "key_ok k" by (rule normalize_key_ok [OF assms(2)])
  have fp: "normalize to_ascii k = Inr k" by (rule normalize_fixed_point [OF assms])
  have "strip_suffix ''.'' (k @ ''.'') = Some k" by (simp only: strip_suffix_Some)
  with fp key_ok_no_trailing_dot [OF ok] have "normalize to_ascii (k @ ''.'') = Inr k"
    by (simp add: normalize_def)
  with ok fp show ?thesis by (simp add: key_ok_def)
qed

text \<open>UTS #46 on plain ASCII names: case folding, and refusal of anything else.\<close>

definition ascii_to_ascii :: to_ascii where
  "ascii_to_ascii s =
     (if \<forall>c \<in> set s. is_ascii_alphanumeric c \<or> c = CHR ''.'' \<or> c = CHR ''-''
      then Some (to_ascii_lowercase s) else None)"

lemma ascii_to_ascii_idem: "to_ascii_idem ascii_to_ascii"
proof -
  have "is_ascii_alphanumeric (ascii_lower c)" if "is_ascii_alphanumeric c" for c
    using that by (auto simp: is_ascii_alphanumeric_def is_ascii_alphabetic_def is_ascii_digit_def
      of_char_ascii_lower char_le_iff)
  moreover have "ascii_lower (CHR ''-'') = CHR ''-''" by code_simp
  ultimately show ?thesis
    by (auto simp: to_ascii_idem_def ascii_to_ascii_def to_ascii_lowercase_def comp_def split: if_splits)
qed

theorem normalize_key_witness:
  "normalize ascii_to_ascii ''Example.COM.'' = Inr ''example.com'' \<and>
   normalize ascii_to_ascii ''example.com'' = Inr ''example.com''"
proof -
  have k: "normalize ascii_to_ascii ''Example.COM.'' = Inr ''example.com''" by code_simp
  with normalize_key [OF ascii_to_ascii_idem k] show ?thesis by simp
qed

lemma classify_scope_eq:
  "classify_scope psl_domain n denylist =
     (if n \<in> set denylist then None
      else Some (if psl_domain n = Some n then Apex else ExactHost))"
  by (auto simp: classify_scope_def split: option.splits)

end
