(* ===== verification/Blocklist_Types.thy ===== *)
theory Blocklist_Types
  imports Btree Domain_Normalize
begin

text \<open>
  \<open>packages/domain-blocklist/src/types.rs\<close> and the manifest types of \<open>fst_build.rs\<close>. The
  derived orders of the Rust enums are the orders of their constructors.
\<close>

datatype source_id = StevenBlack | Hagezi | Ut1
datatype category = Adult | Gambling | Dating
datatype scope_hint = NoHint | ApexHint

fun source_rank :: "source_id \<Rightarrow> nat" where
  "source_rank StevenBlack = 0" | "source_rank Hagezi = 1" | "source_rank Ut1 = 2"

fun category_rank :: "category \<Rightarrow> nat" where
  "category_rank Adult = 0" | "category_rank Gambling = 1" | "category_rank Dating = 2"

lemma source_rank_inject [simp]: "source_rank a = source_rank b \<longleftrightarrow> a = b"
  by (cases a; cases b) simp_all

lemma category_rank_inject [simp]: "category_rank a = category_rank b \<longleftrightarrow> a = b"
  by (cases a; cases b) simp_all

instantiation source_id :: linorder
begin

definition less_eq_source_id :: "source_id \<Rightarrow> source_id \<Rightarrow> bool" where
  "less_eq_source_id a b \<longleftrightarrow> source_rank a \<le> source_rank b"

definition less_source_id :: "source_id \<Rightarrow> source_id \<Rightarrow> bool" where
  "less_source_id a b \<longleftrightarrow> source_rank a < source_rank b"

instance
  by standard (auto simp: less_eq_source_id_def less_source_id_def antisym)

end

instantiation category :: linorder
begin

definition less_eq_category :: "category \<Rightarrow> category \<Rightarrow> bool" where
  "less_eq_category a b \<longleftrightarrow> category_rank a \<le> category_rank b"

definition less_category :: "category \<Rightarrow> category \<Rightarrow> bool" where
  "less_category a b \<longleftrightarrow> category_rank a < category_rank b"

instance
  by standard (auto simp: less_eq_category_def less_category_def antisym)

end

record raw_entry =
  re_domain :: string
  re_source :: source_id
  re_category :: category
  re_scope_hint :: scope_hint

record merged_entry =
  me_domain :: string
  me_scope :: rule_scope
  me_sources :: "source_id list"
  me_categories :: "category list"

text \<open>\<open>str::trim\<close> on ASCII whitespace, and the licence comparison. Trimming of non-ASCII
  white space is left out: an SPDX identifier is ASCII.\<close>

datatype license_id = LicenseId (license_text: string)

definition is_ascii_space :: "char \<Rightarrow> bool" where
  "is_ascii_space c \<longleftrightarrow> c \<in> {CHR '' '', CHR 0x09, CHR 0x0A, CHR 0x0B, CHR 0x0C, CHR 0x0D}"

definition trim_ascii :: "string \<Rightarrow> string" where
  "trim_ascii s = rev (dropWhile is_ascii_space (rev (dropWhile is_ascii_space s)))"

definition spdx_matches :: "license_id \<Rightarrow> license_id \<Rightarrow> bool" where
  "spdx_matches a b \<longleftrightarrow>
     eq_ignore_ascii_case (trim_ascii (license_text a)) (trim_ascii (license_text b))"

type_synonym timestamp = u64

record source_snapshot =
  ss_source :: source_id
  ss_revision :: string
  ss_license :: license_id
  ss_fetched_at :: timestamp

record provenance_entry =
  pe_sources :: "source_id list"
  pe_categories :: "category list"
  pe_scope :: rule_scope

text \<open>The derived order of \<open>ProvenanceEntry\<close>: field by field.\<close>

definition prov_key :: "provenance_entry \<Rightarrow> source_id list \<times> category list \<times> rule_scope" where
  "prov_key p = (pe_sources p, pe_categories p, pe_scope p)"

lemma prov_key_inject [simp]: "prov_key p = prov_key q \<longleftrightarrow> p = q"
  by (cases p; cases q) (auto simp: prov_key_def)

type_synonym key_id = string

record signature_entry =
  sig_key_id :: key_id
  sig_bytes :: bytes

record manifest =
  mf_version :: u64
  mf_build_time :: timestamp
  mf_entry_count :: u64
  mf_output_license :: license_id
  mf_sources :: "source_snapshot list"
  mf_provenance_table :: "provenance_entry list"
  mf_fst_digest :: bytes
  mf_signatures :: "signature_entry list"

text \<open>Label reversal of \<open>fst_build.rs\<close>.\<close>

definition reverse_key :: "string \<Rightarrow> string" where
  "reverse_key domain = join_with CHR ''.'' (rev (split_on CHR ''.'' domain))"

lemma split_reverse_key [label_simps]:
  "split_on CHR ''.'' (reverse_key d) = rev (split_on CHR ''.'' d)"
  unfolding reverse_key_def using split_on_no_sep [of _ "CHR ''.''" d] by (intro split_join) auto

lemma reverse_key_inject: "reverse_key d = reverse_key e \<longleftrightarrow> d = e"
  by (metis rev_rev_ident split_on_inject split_reverse_key)

lemma reverse_key_reverse_key [simp]: "reverse_key (reverse_key d) = d"
  by (metis rev_rev_ident split_on_inject split_reverse_key)

end
