(* ===== verification/Ip_Addr.thy ===== *)
theory Ip_Addr
  imports Rust_Str
begin

text \<open>
  The address types of \<open>std::net\<close> and their \<open>FromStr\<close> parser, which \<open>radix.rs\<close> uses for
  rule strings and the blocklist pipeline for dropping IP literals: dotted decimal without
  leading zeros for IPv4; up to eight hexadecimal groups, one \<open>::\<close>, and an embedded
  trailing IPv4 address for IPv6. The parser state is the rest of the input; a failed
  attempt consumes nothing.
\<close>

datatype ipv4_addr = Ipv4Addr u8 u8 u8 u8

datatype ipv6_addr = Ipv6Addr bytes

datatype ip_addr = V4 ipv4_addr | V6 ipv6_addr

fun octets :: "ipv4_addr \<Rightarrow> bytes" where
  "octets (Ipv4Addr a b c d) = [a, b, c, d]"

fun octets6 :: "ipv6_addr \<Rightarrow> bytes" where
  "octets6 (Ipv6Addr bs) = bs"

lemma length_octets [simp]: "length (octets a) = 4"
  by (cases a) simp

definition digit_val :: "char \<Rightarrow> nat option" where
  "digit_val c =
     (let n = of_char c in
      if 48 \<le> n \<and> n \<le> 57 then Some (n - 48)
      else if 97 \<le> n \<and> n \<le> 122 then Some (n - 87)
      else if 65 \<le> n \<and> n \<le> 90 then Some (n - 55)
      else None)"

definition is_digit :: "nat \<Rightarrow> char \<Rightarrow> bool" where
  "is_digit radix c = (case digit_val c of None \<Rightarrow> False | Some v \<Rightarrow> v < radix)"

definition digits_value :: "nat \<Rightarrow> string \<Rightarrow> nat" where
  "digits_value radix ds = foldl (\<lambda>n c. n * radix + the (digit_val c)) 0 ds"

definition read_number :: "nat \<Rightarrow> nat \<Rightarrow> bool \<Rightarrow> nat \<Rightarrow> string \<Rightarrow> (nat \<times> string) option" where
  "read_number radix max_digits allow_zero_prefix max_value s =
     (let ds = takeWhile (is_digit radix) s; n = length ds
      in if n = 0 \<or> max_digits < n then None
         else if \<not> allow_zero_prefix \<and> hd ds = CHR ''0'' \<and> 1 < n then None
         else if max_value < digits_value radix ds then None
         else Some (digits_value radix ds, drop n s))"

definition read_given_char :: "char \<Rightarrow> string \<Rightarrow> string option" where
  "read_given_char c s = (case s of x # r \<Rightarrow> if x = c then Some r else None | [] \<Rightarrow> None)"

definition read_separator ::
  "char \<Rightarrow> nat \<Rightarrow> (string \<Rightarrow> ('a \<times> string) option) \<Rightarrow> string \<Rightarrow> ('a \<times> string) option" where
  "read_separator sep i p s =
     (if i = 0 then p s else Option.bind (read_given_char sep s) p)"

definition read_octet :: "string \<Rightarrow> (nat \<times> string) option" where
  "read_octet = read_number 10 3 False 255"

definition read_ipv4_addr :: "string \<Rightarrow> (ipv4_addr \<times> string) option" where
  "read_ipv4_addr s =
     do {
       (a, s) \<leftarrow> read_separator CHR ''.'' 0 read_octet s;
       (b, s) \<leftarrow> read_separator CHR ''.'' 1 read_octet s;
       (c, s) \<leftarrow> read_separator CHR ''.'' 2 read_octet s;
       (d, s) \<leftarrow> read_separator CHR ''.'' 3 read_octet s;
       Some (Ipv4Addr (word_of_nat a) (word_of_nat b) (word_of_nat c) (word_of_nat d), s)
     }"

text \<open>\<open>read_groups\<close>: reads groups \<open>i, i + 1, \<dots>\<close> up to \<open>limit\<close>; returns the groups read,
  whether the last two came from an embedded IPv4 address, and the rest of the input.\<close>

fun read_groups :: "nat \<Rightarrow> nat \<Rightarrow> string \<Rightarrow> u16 list \<times> bool \<times> string" where
  "read_groups 0 i s = ([], False, s)"
| "read_groups (Suc left) i s =
     (case (if 0 < left then read_separator CHR '':'' i read_ipv4_addr s else None) of
        Some (Ipv4Addr a b c d, s') \<Rightarrow> ([be16 a b, be16 c d], True, s')
      | None \<Rightarrow>
          (case read_separator CHR '':'' i (read_number 16 4 True 65535) s of
             None \<Rightarrow> ([], False, s)
           | Some (g, s') \<Rightarrow>
               (let (gs, v4, r) = read_groups left (Suc i) s' in (word_of_nat g # gs, v4, r))))"

definition ipv6_of_groups :: "u16 list \<Rightarrow> ipv6_addr" where
  "ipv6_of_groups gs = Ipv6Addr (concat (map to_be16 gs))"

definition read_ipv6_addr :: "string \<Rightarrow> (ipv6_addr \<times> string) option" where
  "read_ipv6_addr s =
     (let (head, head_ipv4, s1) = read_groups 8 0 s
      in if length head = 8 then Some (ipv6_of_groups head, s1)
         else if head_ipv4 then None
         else do {
           s2 \<leftarrow> read_given_char CHR '':'' s1;
           s3 \<leftarrow> read_given_char CHR '':'' s2;
           let (tail, _, s4) = read_groups (8 - (length head + 1)) 0 s3;
           Some (ipv6_of_groups
                   (head @ replicate (8 - length head - length tail) 0 @ tail), s4)
         })"

definition read_ip_addr :: "string \<Rightarrow> (ip_addr \<times> string) option" where
  "read_ip_addr s =
     (case read_ipv4_addr s of
        Some (a, r) \<Rightarrow> Some (V4 a, r)
      | None \<Rightarrow> map_option (\<lambda>(a, r). (V6 a, r)) (read_ipv6_addr s))"

definition parse_ip :: "string \<Rightarrow> ip_addr option" where
  "parse_ip s = (case read_ip_addr s of Some (a, []) \<Rightarrow> Some a | _ \<Rightarrow> None)"

text \<open>\<open>str::parse::<u8>\<close>: an optional plus sign, at least one digit, no overflow.\<close>

definition parse_u8 :: "string \<Rightarrow> u8 option" where
  "parse_u8 s =
     (let ds = (case s of CHR ''+'' # r \<Rightarrow> r | _ \<Rightarrow> s)
      in if ds = [] \<or> \<not> list_all (is_digit 10) ds \<or> 255 < digits_value 10 ds then None
         else Some (word_of_nat (digits_value 10 ds)))"

lemma parse_ip_examples:
  "parse_ip ''10.0.0.255'' = Some (V4 (Ipv4Addr 10 0 0 255))"
  "parse_ip ''10.0.0.256'' = None"
  "parse_ip ''10.00.0.1'' = None"
  "parse_ip ''::1'' = Some (V6 (Ipv6Addr [0,0,0,0,0,0,0,0,0,0,0,0,0,0,0,1]))"
  "parse_ip ''::ffff:1.2.3.4'' = Some (V6 (Ipv6Addr [0,0,0,0,0,0,0,0,0,0,255,255,1,2,3,4]))"
  "parse_ip ''example.com'' = None"
  by code_simp+

lemma read_groups_length: "read_groups left i s = (gs, v4, r) \<Longrightarrow> length gs \<le> left"
proof (induction left i s arbitrary: gs v4 r rule: read_groups.induct)
  case (2 left i s)
  then show ?case
    by (fastforce split: option.splits prod.splits ipv4_addr.splits if_splits)
qed simp

lemma length_ipv6_of_groups: "length gs = 8 \<Longrightarrow> length (octets6 (ipv6_of_groups gs)) = 16"
  by (simp add: ipv6_of_groups_def length_concat comp_def sum_list_triv)

lemma parse_ip_V6_length:
  assumes "parse_ip s = Some (V6 a)"
  shows "length (octets6 a) = 16"
proof -
  from assms obtain r where r: "read_ipv6_addr s = Some (a, r)"
    by (auto simp: parse_ip_def read_ip_addr_def split: option.splits list.splits)
  obtain head v4 s1 where h: "read_groups 8 0 s = (head, v4, s1)"
    by (cases "read_groups 8 0 s") auto
  show ?thesis
  proof (cases "length head = 8")
    case True
    with r h show ?thesis by (auto simp: read_ipv6_addr_def length_ipv6_of_groups)
  next
    case False
    with read_groups_length [OF h] have lt: "length head < 8" by simp
    from r h False obtain s3 where
      s3: "(let (tail, _, s4) = read_groups (8 - (length head + 1)) 0 s3 in
         Some (ipv6_of_groups
                 (head @ replicate (8 - length head - length tail) 0 @ tail), s4)) = Some (a, r)"
      by (auto simp: read_ipv6_addr_def bind_eq_Some_conv simp del: Let_def split: if_splits)
    obtain tail v s4 where
      t: "read_groups (8 - (length head + 1)) 0 s3 = (tail, v, s4)"
      by (metis prod_cases3)
    with s3 have a: "a = ipv6_of_groups (head @ replicate (8 - length head - length tail) 0 @ tail)"
      by simp
    from read_groups_length [OF t] lt show ?thesis
      by (simp add: a length_ipv6_of_groups)
  qed
qed

end
