(* ===== verification/Merge.thy ===== *)
theory Merge
  imports Blocklist_Types Ip_Addr
begin

text \<open>
  \<open>packages/domain-blocklist/src/merge.rs\<close>: normalise, scope and union the raw entries of all
  sources. The \<open>BTreeMap\<close> is a sorted association list; the drop counters are \<open>nat\<close>
  (they count list elements, so a \<open>u64\<close> never wraps). Specification: \<open>merged_spec\<close> builds
  the same list from the set of surviving entries, so neither order nor repetition of the
  input can show.
\<close>

definition resolve_scope ::
  "(string \<Rightarrow> string option) \<Rightarrow> string \<Rightarrow> scope_hint \<Rightarrow> string list \<Rightarrow> rule_scope option" where
  "resolve_scope psl_domain normalized hint denylist =
     (case classify_scope psl_domain normalized denylist of
        None \<Rightarrow> None
      | Some Apex \<Rightarrow> if hint = ApexHint then Some Apex else Some ExactHost
      | Some ExactHost \<Rightarrow> Some ExactHost)"

record merge_report =
  dropped_normalization_failed :: nat
  dropped_shared_hosting_denylisted :: nat
  dropped_ip_literal :: nat

record merge_output =
  mo_entries :: "merged_entry list"
  mo_report :: merge_report

definition push_new :: "'a \<Rightarrow> 'a list \<Rightarrow> 'a list" where
  "push_new x xs = (if x \<in> set xs then xs else xs @ [x])"

definition absorb :: "raw_entry \<Rightarrow> rule_scope \<Rightarrow> merged_entry \<Rightarrow> merged_entry" where
  "absorb entry scope merged = merged\<lparr>
     me_sources := push_new (re_source entry) (me_sources merged),
     me_categories := push_new (re_category entry) (me_categories merged),
     me_scope := (if scope = Apex then Apex else me_scope merged)\<rparr>"

definition merge_step ::
  "to_ascii \<Rightarrow> (string \<Rightarrow> string option) \<Rightarrow> string list \<Rightarrow>
   (string, merged_entry) btree \<times> merge_report \<Rightarrow> raw_entry \<Rightarrow>
   (string, merged_entry) btree \<times> merge_report" where
  "merge_step to_ascii psl_domain denylist = (\<lambda>(by_domain, report) entry.
     case normalize to_ascii (re_domain entry) of
       Inl _ \<Rightarrow> (by_domain, report\<lparr>dropped_normalization_failed := dropped_normalization_failed report + 1\<rparr>)
     | Inr normalized \<Rightarrow>
         if parse_ip normalized \<noteq> None then
           (by_domain, report\<lparr>dropped_ip_literal := dropped_ip_literal report + 1\<rparr>)
         else
           (case resolve_scope psl_domain normalized (re_scope_hint entry) denylist of
              None \<Rightarrow> (by_domain,
                report\<lparr>dropped_shared_hosting_denylisted := dropped_shared_hosting_denylisted report + 1\<rparr>)
            | Some scope \<Rightarrow>
                (bt_upsert normalized (absorb entry scope)
                   \<lparr>me_domain = normalized, me_scope = scope, me_sources = [re_source entry],
                    me_categories = [re_category entry]\<rparr> by_domain, report)))"

definition normalized_denylist :: "to_ascii \<Rightarrow> string list \<Rightarrow> string list" where
  "normalized_denylist to_ascii raws =
     List.map_filter (\<lambda>raw. case normalize to_ascii raw of Inr n \<Rightarrow> Some n | Inl _ \<Rightarrow> None) raws"

definition merge ::
  "to_ascii \<Rightarrow> (string \<Rightarrow> string option) \<Rightarrow> raw_entry list \<Rightarrow> string list \<Rightarrow> merge_output" where
  "merge to_ascii psl_domain raw_entries shared_hosting_denylist =
     (let denylist = normalized_denylist to_ascii shared_hosting_denylist;
          (by_domain, report) =
            foldl (merge_step to_ascii psl_domain denylist)
              ([], \<lparr>dropped_normalization_failed = 0, dropped_shared_hosting_denylisted = 0,
                    dropped_ip_literal = 0\<rparr>) raw_entries
      in \<lparr>mo_entries = map (\<lambda>(k, merged). merged\<lparr>me_sources := sort (me_sources merged),
                             me_categories := sort (me_categories merged)\<rparr>) by_domain,
          mo_report = report\<rparr>)"

definition filter_by_category :: "merged_entry list \<Rightarrow> category list \<Rightarrow> merged_entry list" where
  "filter_by_category entries allowed =
     filter (\<lambda>entry. \<exists>c \<in> set (me_categories entry). c \<in> set allowed) entries"

text \<open>\<open>flag_personal_name\<close>: splitting on any of three separators.\<close>

fun split_any :: "char list \<Rightarrow> string \<Rightarrow> string list" where
  "split_any seps [] = [[]]"
| "split_any seps (x # xs) =
     (if x \<in> set seps then [] # split_any seps xs
      else (case split_any seps xs of [] \<Rightarrow> [[x]] | l # ls \<Rightarrow> (x # l) # ls))"

definition flag_personal_name :: "string \<Rightarrow> bool" where
  "flag_personal_name label =
     (if prefix ''xn--'' label then False
      else let toks = filter (\<lambda>t. t \<noteq> []) (split_any ''-._'' label)
           in 2 \<le> length toks \<and> length toks \<le> 4 \<and> (\<forall>t \<in> set toks. \<forall>c \<in> set t. is_ascii_alphabetic c))"

section \<open>Specification\<close>

text \<open>What one raw entry contributes: its key and the scope it is entitled to.\<close>

definition resolved ::
  "to_ascii \<Rightarrow> (string \<Rightarrow> string option) \<Rightarrow> string list \<Rightarrow> raw_entry \<Rightarrow> (string \<times> rule_scope) option" where
  "resolved to_ascii psl_domain denylist entry =
     (case normalize to_ascii (re_domain entry) of
        Inl _ \<Rightarrow> None
      | Inr k \<Rightarrow> if parse_ip k \<noteq> None then None
                 else map_option (Pair k) (resolve_scope psl_domain k (re_scope_hint entry) denylist))"

definition contributors ::
  "(raw_entry \<Rightarrow> (string \<times> rule_scope) option) \<Rightarrow> raw_entry list \<Rightarrow> string \<Rightarrow> raw_entry list" where
  "contributors res raws k = filter (\<lambda>e. \<exists>s. res e = Some (k, s)) raws"

definition merged_spec ::
  "(raw_entry \<Rightarrow> (string \<times> rule_scope) option) \<Rightarrow> raw_entry list \<Rightarrow> merged_entry list" where
  "merged_spec res raws =
     map (\<lambda>k. \<lparr>me_domain = k,
            me_scope = (if \<exists>e \<in> set raws. res e = Some (k, Apex) then Apex else ExactHost),
            me_sources = sorted_list_of_set (re_source ` set (contributors res raws k)),
            me_categories = sorted_list_of_set (re_category ` set (contributors res raws k))\<rparr>)
       (sorted_list_of_set ((\<lambda>e. fst (the (res e))) ` {e \<in> set raws. res e \<noteq> None}))"

text \<open>The invariant of the loop: the entry under each key has seen exactly the contributors.\<close>

definition merge_inv ::
  "(raw_entry \<Rightarrow> (string \<times> rule_scope) option) \<Rightarrow> raw_entry list \<Rightarrow> (string, merged_entry) btree \<Rightarrow> bool" where
  "merge_inv res seen m \<longleftrightarrow> bt_inv m \<and>
     (\<forall>k. case bt_get m k of
        None \<Rightarrow> contributors res seen k = []
      | Some e \<Rightarrow> contributors res seen k \<noteq> [] \<and> me_domain e = k \<and>
          (me_scope e = Apex \<longleftrightarrow> (\<exists>r \<in> set seen. res r = Some (k, Apex))) \<and>
          distinct (me_sources e) \<and> set (me_sources e) = re_source ` set (contributors res seen k) \<and>
          distinct (me_categories e) \<and> set (me_categories e) = re_category ` set (contributors res seen k))"

lemma push_new_set [simp]: "set (push_new x xs) = insert x (set xs)"
  by (auto simp: push_new_def)

lemma push_new_distinct [simp]: "distinct xs \<Longrightarrow> distinct (push_new x xs)"
  by (simp add: push_new_def)

lemma absorb_fields [simp]:
  "me_domain (absorb r s e) = me_domain e"
  "me_sources (absorb r s e) = push_new (re_source r) (me_sources e)"
  "me_categories (absorb r s e) = push_new (re_category r) (me_categories e)"
  "me_scope (absorb r s e) = (if s = Apex then Apex else me_scope e)"
  by (simp_all add: absorb_def)

lemma contributors_snoc:
  "contributors res (seen @ [r]) k = contributors res seen k @ (if \<exists>s. res r = Some (k, s) then [r] else [])"
  by (simp add: contributors_def)

lemma merge_step_btree:
  "fst (merge_step to_ascii psl deny (m, rep) r) =
     (case resolved to_ascii psl deny r of
        None \<Rightarrow> m
      | Some (k, s) \<Rightarrow> bt_upsert k (absorb r s)
          \<lparr>me_domain = k, me_scope = s, me_sources = [re_source r], me_categories = [re_category r]\<rparr> m)"
  by (simp add: merge_step_def resolved_def split: sum.splits option.splits)

lemma merge_inv_step:
  assumes inv: "merge_inv res seen m" and res: "res = resolved to_ascii psl deny"
  shows "merge_inv res (seen @ [r]) (fst (merge_step to_ascii psl deny (m, rep) r))"
proof (cases "res r")
  case None
  then show ?thesis
    using inv by (simp add: merge_step_btree res [symmetric] merge_inv_def contributors_snoc cong: option.case_cong)
next
  case (Some a)
  obtain k s where a: "a = (k, s)" by (cases a)
  from inv have bi: "bt_inv m" by (simp add: merge_inv_def)
  let ?new = "\<lparr>me_domain = k, me_scope = s, me_sources = [re_source r], me_categories = [re_category r]\<rparr>"
  have m': "fst (merge_step to_ascii psl deny (m, rep) r) = bt_upsert k (absorb r s) ?new m"
    using Some by (simp add: merge_step_btree res [symmetric] a)
  have at_k: "case bt_get m k of None \<Rightarrow> contributors res seen k = []
      | Some e \<Rightarrow> contributors res seen k \<noteq> [] \<and> me_domain e = k \<and>
          (me_scope e = Apex \<longleftrightarrow> (\<exists>r \<in> set seen. res r = Some (k, Apex))) \<and>
          distinct (me_sources e) \<and> set (me_sources e) = re_source ` set (contributors res seen k) \<and>
          distinct (me_categories e) \<and> set (me_categories e) = re_category ` set (contributors res seen k)" for k
    using inv unfolding merge_inv_def by blast
  have empty: "contributors res seen k = [] \<Longrightarrow> \<not> (\<exists>r \<in> set seen. res r = Some (k, Apex))"
    by (auto simp: contributors_def filter_empty_conv)
  show ?thesis
    unfolding merge_inv_def m'
  proof (intro conjI allI)
    show "bt_inv (bt_upsert k (absorb r s) ?new m)" by (rule bt_inv_upsert [OF bi])
    fix j
    show "case bt_get (bt_upsert k (absorb r s) ?new m) j of
        None \<Rightarrow> contributors res (seen @ [r]) j = []
      | Some e \<Rightarrow> contributors res (seen @ [r]) j \<noteq> [] \<and> me_domain e = j \<and>
          (me_scope e = Apex \<longleftrightarrow> (\<exists>r \<in> set (seen @ [r]). res r = Some (j, Apex))) \<and>
          distinct (me_sources e) \<and> set (me_sources e) = re_source ` set (contributors res (seen @ [r]) j) \<and>
          distinct (me_categories e) \<and>
          set (me_categories e) = re_category ` set (contributors res (seen @ [r]) j)"
    proof (cases "j = k")
      case False
      with at_k [of j] Some a show ?thesis
        by (simp add: bt_get_upsert [OF bi] contributors_snoc cong: option.case_cong)
    next
      case True
      show ?thesis
      proof (cases "bt_get m k")
        case None
        with at_k [of k] empty Some a True show ?thesis
          by (auto simp: bt_get_upsert [OF bi] contributors_snoc)
      next
        case e: (Some e)
        with at_k [of k] Some a True show ?thesis
          by (auto simp: bt_get_upsert [OF bi] contributors_snoc)
      qed
    qed
  qed
qed

lemma merge_inv_fold:
  assumes "res = resolved to_ascii psl deny" and "merge_inv res seen m"
  shows "merge_inv res (seen @ raws) (fst (foldl (merge_step to_ascii psl deny) (m, rep) raws))"
  using assms(2)
proof (induction raws arbitrary: seen m rep)
  case (Cons r raws)
  obtain m' rep' where st: "merge_step to_ascii psl deny (m, rep) r = (m', rep')"
    by (cases "merge_step to_ascii psl deny (m, rep) r")
  from merge_inv_step [OF Cons.prems assms(1), where r = r and rep = rep] have "merge_inv res (seen @ [r]) m'"
    by (simp add: st)
  from Cons.IH [OF this, of rep'] show ?case by (simp add: st)
qed simp

lemma merge_inv_spec:
  assumes "merge_inv res raws m"
  shows "map (\<lambda>(k, merged). merged\<lparr>me_sources := sort (me_sources merged),
            me_categories := sort (me_categories merged)\<rparr>) m = merged_spec res raws"
proof -
  from assms have bi: "bt_inv m" by (simp add: merge_inv_def)
  have at_k: "case bt_get m k of None \<Rightarrow> contributors res raws k = []
      | Some e \<Rightarrow> contributors res raws k \<noteq> [] \<and> me_domain e = k \<and>
          (me_scope e = Apex \<longleftrightarrow> (\<exists>r \<in> set raws. res r = Some (k, Apex))) \<and>
          distinct (me_sources e) \<and> set (me_sources e) = re_source ` set (contributors res raws k) \<and>
          distinct (me_categories e) \<and> set (me_categories e) = re_category ` set (contributors res raws k)" for k
    using assms unfolding merge_inv_def by blast
  have dom: "dom (bt_get m) = (\<lambda>e. fst (the (res e))) ` {e \<in> set raws. res e \<noteq> None}"
  proof -
    have "k \<in> dom (bt_get m) \<longleftrightarrow> contributors res raws k \<noteq> []" for k
      using at_k [of k] by (auto split: option.splits)
    then show ?thesis
      by (auto simp: set_eq_iff contributors_def filter_empty_conv image_iff) (metis fst_conv option.sel)
  qed
  have fin: "(the (bt_get m k))\<lparr>me_sources := sort (me_sources (the (bt_get m k))),
        me_categories := sort (me_categories (the (bt_get m k)))\<rparr> =
      \<lparr>me_domain = k, me_scope = (if \<exists>e \<in> set raws. res e = Some (k, Apex) then Apex else ExactHost),
       me_sources = sorted_list_of_set (re_source ` set (contributors res raws k)),
       me_categories = sorted_list_of_set (re_category ` set (contributors res raws k))\<rparr>"
    if "k \<in> dom (bt_get m)" for k
  proof -
    from that obtain e where e: "bt_get m k = Some e" by blast
    with at_k [of k] have "me_domain e = k" "me_scope e = Apex \<longleftrightarrow> (\<exists>r \<in> set raws. res r = Some (k, Apex))"
      "sort (me_sources e) = sorted_list_of_set (re_source ` set (contributors res raws k))"
      "sort (me_categories e) = sorted_list_of_set (re_category ` set (contributors res raws k))"
      by (simp_all add: sort_distinct)
    with e show ?thesis by (cases e; cases "me_scope e") auto
  qed
  have "map (\<lambda>(k, merged). merged\<lparr>me_sources := sort (me_sources merged),
            me_categories := sort (me_categories merged)\<rparr>) m =
      map (\<lambda>k. (the (bt_get m k))\<lparr>me_sources := sort (me_sources (the (bt_get m k))),
        me_categories := sort (me_categories (the (bt_get m k)))\<rparr>) (sorted_list_of_set (dom (bt_get m)))"
    by (subst bt.items_determined [OF bi]) (simp add: comp_def)
  also have "\<dots> = merged_spec res raws"
    unfolding merged_spec_def dom [symmetric]
    by (rule map_cong [OF refl], rule fin) (simp add: finite_subset [OF _ finite_imageI] dom)
  finally show ?thesis .
qed

lemma merge_entries_spec:
  "mo_entries (merge to_ascii psl raws deny) =
     merged_spec (resolved to_ascii psl (normalized_denylist to_ascii deny)) raws"
proof -
  let ?res = "resolved to_ascii psl (normalized_denylist to_ascii deny)"
  have "merge_inv ?res [] []" by (simp add: merge_inv_def contributors_def)
  from merge_inv_spec [OF merge_inv_fold [OF refl this, simplified]]
  show ?thesis by (simp add: merge_def Let_def split_beta)
qed

lemma merged_spec_cong: "set raws = set raws' \<Longrightarrow> merged_spec res raws = merged_spec res raws'"
  by (simp add: merged_spec_def contributors_def)

text \<open>What becomes of an entry: the first check that drops it, if any.\<close>

datatype fate = Kept | BadName | IpLiteral | Denied

definition fate_of :: "to_ascii \<Rightarrow> string list \<Rightarrow> raw_entry \<Rightarrow> fate" where
  "fate_of to_ascii deny e =
     (case normalize to_ascii (re_domain e) of
        Inl _ \<Rightarrow> BadName
      | Inr k \<Rightarrow> if parse_ip k \<noteq> None then IpLiteral else if k \<in> set deny then Denied else Kept)"

definition count_fate :: "(raw_entry \<Rightarrow> fate) \<Rightarrow> fate \<Rightarrow> raw_entry list \<Rightarrow> nat" where
  "count_fate f x raws = length (filter (\<lambda>e. f e = x) raws)"

lemma count_fate_simps [simp]:
  "count_fate f x [] = 0" "count_fate f x (e # raws) = (if f e = x then 1 else 0) + count_fate f x raws"
  by (simp_all add: count_fate_def)

lemma resolve_scope_None: "resolve_scope psl k h deny = None \<longleftrightarrow> k \<in> set deny"
  by (simp add: resolve_scope_def classify_scope_def split: option.splits rule_scope.splits)

lemma merge_step_report:
  "snd (merge_step to_ascii psl deny (m, rep) e) =
     rep\<lparr>dropped_normalization_failed := dropped_normalization_failed rep + (if fate_of to_ascii deny e = BadName then 1 else 0),
         dropped_ip_literal := dropped_ip_literal rep + (if fate_of to_ascii deny e = IpLiteral then 1 else 0),
         dropped_shared_hosting_denylisted :=
           dropped_shared_hosting_denylisted rep + (if fate_of to_ascii deny e = Denied then 1 else 0)\<rparr>"
proof (cases "normalize to_ascii (re_domain e)")
  case (Inl a)
  then show ?thesis by (simp add: merge_step_def fate_of_def)
next
  case (Inr k)
  show ?thesis
  proof (cases "parse_ip k")
    case None
    then show ?thesis
      using resolve_scope_None [of psl k "re_scope_hint e" deny]
      by (cases "resolve_scope psl k (re_scope_hint e) deny") (simp_all add: merge_step_def fate_of_def Inr)
  qed (simp add: merge_step_def fate_of_def Inr)
qed

lemma merge_fold_report:
  "dropped_normalization_failed (snd (foldl (merge_step to_ascii psl deny) st raws)) =
     dropped_normalization_failed (snd st) + count_fate (fate_of to_ascii deny) BadName raws"
  "dropped_ip_literal (snd (foldl (merge_step to_ascii psl deny) st raws)) =
     dropped_ip_literal (snd st) + count_fate (fate_of to_ascii deny) IpLiteral raws"
  "dropped_shared_hosting_denylisted (snd (foldl (merge_step to_ascii psl deny) st raws)) =
     dropped_shared_hosting_denylisted (snd st) + count_fate (fate_of to_ascii deny) Denied raws"
  by (induction raws arbitrary: st; simp; case_tac st; simp add: merge_step_report)+

lemma count_fate_total:
  "length raws = count_fate f Kept raws + count_fate f BadName raws + count_fate f IpLiteral raws
     + count_fate f Denied raws"
proof (induction raws)
  case (Cons e raws)
  then show ?case by (cases "f e") simp_all
qed simp

lemma resolved_Kept: "resolved to_ascii psl deny e \<noteq> None \<longleftrightarrow> fate_of to_ascii deny e = Kept"
proof (cases "normalize to_ascii (re_domain e)")
  case (Inr k)
  show ?thesis
    using resolve_scope_None [of psl k "re_scope_hint e" deny]
    by (cases "resolve_scope psl k (re_scope_hint e) deny") (simp_all add: resolved_def fate_of_def Inr)
qed (simp add: resolved_def fate_of_def)

text \<open>C12: the merged list is the specification's: one entry per surviving key, in strict key
  order, with exactly the sources and categories that named it, each once and in order, and
  subdomain scope exactly when some source's wildcard was entitled to it.\<close>

theorem merge_entries_correct:
  "mo_entries (merge to_ascii psl raws deny) =
     merged_spec (resolved to_ascii psl (normalized_denylist to_ascii deny)) raws"
  by (rule merge_entries_spec)

text \<open>Neither the order nor the repetition of the raw entries shows in the merged list.\<close>

theorem merge_order_independent:
  assumes "set raws = set raws'"
  shows "mo_entries (merge to_ascii psl raws deny) = mo_entries (merge to_ascii psl raws' deny)"
  unfolding merge_entries_spec by (rule merged_spec_cong [OF assms])

theorem merge_order_independent_witness:
  "mo_entries (merge ascii_to_ascii (\<lambda>n. Some n)
     [\<lparr>re_domain = ''A.b'', re_source = Ut1, re_category = Adult, re_scope_hint = NoHint\<rparr>,
      \<lparr>re_domain = ''a.B'', re_source = Hagezi, re_category = Dating, re_scope_hint = ApexHint\<rparr>] []) =
   mo_entries (merge ascii_to_ascii (\<lambda>n. Some n)
     [\<lparr>re_domain = ''a.B'', re_source = Hagezi, re_category = Dating, re_scope_hint = ApexHint\<rparr>,
      \<lparr>re_domain = ''A.b'', re_source = Ut1, re_category = Adult, re_scope_hint = NoHint\<rparr>] [])"
  by (rule merge_order_independent) auto

text \<open>Every raw entry is accounted for: the three drop counters and the entries that
  survive add up to the input.\<close>

theorem merge_accounts_for_all:
  "length raws =
     length (filter (\<lambda>e. resolved to_ascii psl (normalized_denylist to_ascii deny) e \<noteq> None) raws) +
     dropped_normalization_failed (mo_report (merge to_ascii psl raws deny)) +
     dropped_ip_literal (mo_report (merge to_ascii psl raws deny)) +
     dropped_shared_hosting_denylisted (mo_report (merge to_ascii psl raws deny))"
proof -
  let ?d = "normalized_denylist to_ascii deny"
  have "length (filter (\<lambda>e. resolved to_ascii psl ?d e \<noteq> None) raws) = count_fate (fate_of to_ascii ?d) Kept raws"
    by (simp only: resolved_Kept count_fate_def)
  then show ?thesis
    using count_fate_total [of raws "fate_of to_ascii ?d"]
    by (simp add: merge_def Let_def split_beta merge_fold_report)
qed

end
