(* ===== verification/Fst_Build.thy ===== *)
theory Fst_Build
  imports Blocklist_Types
begin

text \<open>
  \<open>packages/domain-blocklist/src/fst_build.rs\<close>: the provenance table, the map from reversed
  domains to provenance ids, the signed manifest, and its verification. Third-party code is
  a parameter: \<open>fst_encode\<close> (\<open>fst::MapBuilder\<close>, \<open>None\<close> is its error), \<open>sha256\<close>,
  \<open>serialize\<close> (\<open>bincode\<close>), and Ed25519 signing and verification. Ids are \<open>u32\<close>; the
  theorems bound the number of entries so that they do not wrap.
\<close>

datatype fst_build_error = FstError | SerializeError | NoSigningKeys

definition combo_of :: "merged_entry \<Rightarrow> provenance_entry" where
  "combo_of e = \<lparr>pe_sources = me_sources e, pe_categories = me_categories e, pe_scope = me_scope e\<rparr>"

type_synonym prov_ids = "(source_id list \<times> category list \<times> rule_scope, u32) btree"

definition collect_combo ::
  "provenance_entry list \<times> prov_ids \<Rightarrow> merged_entry \<Rightarrow> provenance_entry list \<times> prov_ids" where
  "collect_combo = (\<lambda>(table, id_of) entry.
     let combo = combo_of entry;
         next_id = of_nat (length id_of) :: u32;
         found = bt_get id_of (prov_key combo);
         uid = (case found of Some i \<Rightarrow> i | None \<Rightarrow> next_id);
         id_of = (case found of Some _ \<Rightarrow> id_of | None \<Rightarrow> bt_insert (prov_key combo) next_id id_of)
     in (if uid = next_id then table @ [combo] else table, id_of))"

definition canonical_ids :: "provenance_entry list \<Rightarrow> prov_ids" where
  "canonical_ids table =
     foldl (\<lambda>m (k, v). bt_insert k v m) []
       (map (\<lambda>(i, combo). (prov_key combo, of_nat i)) (List.enumerate 0 table))"

text \<open>\<open>canonical[&combo]\<close> panics on a missing key.\<close>

fun index_domains ::
  "prov_ids \<Rightarrow> merged_entry list \<Rightarrow> (string, u32) btree \<Rightarrow> (string, u32) btree exec" where
  "index_domains canonical [] by_domain = Some by_domain"
| "index_domains canonical (entry # entries) by_domain = do {
     uid \<leftarrow> bt_get canonical (prov_key (combo_of entry));
     index_domains canonical entries (bt_insert (reverse_key (me_domain entry)) uid by_domain)
   }"

definition assign_provenance ::
  "merged_entry list \<Rightarrow> (provenance_entry list \<times> (string, u32) btree) exec" where
  "assign_provenance entries = do {
     let table = sort_key prov_key (fst (foldl collect_combo ([], []) entries));
     by_domain \<leftarrow> index_domains (canonical_ids table) entries [];
     Some (table, by_domain)
   }"

type_synonym fst_encode = "(string \<times> u64) list \<Rightarrow> bytes option"

definition build_fst :: "fst_encode \<Rightarrow> (string, u32) btree \<Rightarrow> fst_build_error + bytes" where
  "build_fst fst_encode keyed =
     (case fst_encode (map (\<lambda>(key, uid). (key, ucast uid)) keyed) of
        None \<Rightarrow> Inl FstError
      | Some buf \<Rightarrow> Inr buf)"

definition signable_bytes :: "(manifest \<Rightarrow> bytes option) \<Rightarrow> manifest \<Rightarrow> fst_build_error + bytes" where
  "signable_bytes serialize mf =
     (case serialize (mf\<lparr>mf_signatures := []\<rparr>) of None \<Rightarrow> Inl SerializeError | Some b \<Rightarrow> Inr b)"

definition sign_all :: "('sk \<Rightarrow> bytes \<Rightarrow> bytes) \<Rightarrow> bytes \<Rightarrow> (key_id \<times> 'sk) list \<Rightarrow> signature_entry list" where
  "sign_all ed_sign manifest_bytes signing_keys =
     map (\<lambda>(kid, key). \<lparr>sig_key_id = kid, sig_bytes = ed_sign key manifest_bytes\<rparr>) signing_keys"

record fst_artifact =
  fa_fst_bytes :: bytes
  fa_manifest :: manifest
  fa_entry_count :: u64
  fa_fst_len :: u64
  fa_provenance_combos :: nat

text \<open>The report's bytes-per-entry quotient of the last two counts is left out.\<close>

definition build ::
  "fst_encode \<Rightarrow> (bytes \<Rightarrow> bytes) \<Rightarrow> (manifest \<Rightarrow> bytes option) \<Rightarrow> ('sk \<Rightarrow> bytes \<Rightarrow> bytes) \<Rightarrow>
   merged_entry list \<Rightarrow> license_id \<Rightarrow> source_snapshot list \<Rightarrow> u64 \<Rightarrow> timestamp \<Rightarrow>
   (key_id \<times> 'sk) list \<Rightarrow> (fst_build_error + fst_artifact) exec" where
  "build fst_encode sha256 serialize ed_sign entries output_license sources version build_time signing_keys =
     (if signing_keys = [] then Some (Inl NoSigningKeys)
      else do {
        (provenance_table, keyed) \<leftarrow> assign_provenance entries;
        case build_fst fst_encode keyed of
          Inl e \<Rightarrow> Some (Inl e)
        | Inr fst_bytes \<Rightarrow>
            (let mf = \<lparr>mf_version = version, mf_build_time = build_time,
                   mf_entry_count = of_nat (length keyed), mf_output_license = output_license,
                   mf_sources = sources, mf_provenance_table = provenance_table,
                   mf_fst_digest = sha256 fst_bytes, mf_signatures = []\<rparr>
             in case signable_bytes serialize mf of
                  Inl e \<Rightarrow> Some (Inl e)
                | Inr signable \<Rightarrow>
                    Some (Inr \<lparr>fa_fst_bytes = fst_bytes,
                      fa_manifest = mf\<lparr>mf_signatures := sign_all ed_sign signable signing_keys\<rparr>,
                      fa_entry_count = of_nat (length keyed),
                      fa_fst_len = of_nat (length fst_bytes),
                      fa_provenance_combos = length provenance_table\<rparr>))
      })"

text \<open>The loop of \<open>verify_manifest\<close>: the first trusted key of the entry's id decides the entry.\<close>

fun any_signature_verifies ::
  "('vk \<Rightarrow> bytes \<Rightarrow> bytes \<Rightarrow> bool) \<Rightarrow> (key_id \<times> 'vk) list \<Rightarrow> bytes \<Rightarrow> signature_entry list \<Rightarrow> bool" where
  "any_signature_verifies ed_verify trusted signable [] = False"
| "any_signature_verifies ed_verify trusted signable (s # ss) =
     (case map_of trusted (sig_key_id s) of
        None \<Rightarrow> any_signature_verifies ed_verify trusted signable ss
      | Some key \<Rightarrow> if ed_verify key signable (sig_bytes s) then True
                    else any_signature_verifies ed_verify trusted signable ss)"

definition verify_manifest ::
  "(manifest \<Rightarrow> bytes option) \<Rightarrow> ('vk \<Rightarrow> bytes \<Rightarrow> bytes \<Rightarrow> bool) \<Rightarrow> manifest \<Rightarrow> (key_id \<times> 'vk) list \<Rightarrow>
   fst_build_error + bool" where
  "verify_manifest serialize ed_verify mf trusted_keys =
     (case signable_bytes serialize mf of
        Inl e \<Rightarrow> Inl e
      | Inr signable \<Rightarrow> Inr (any_signature_verifies ed_verify trusted_keys signable (mf_signatures mf)))"

section \<open>The provenance table\<close>

definition collect_inv :: "merged_entry list \<Rightarrow> provenance_entry list \<times> prov_ids \<Rightarrow> bool" where
  "collect_inv seen = (\<lambda>(table, id_of). bt_inv id_of \<and> distinct table \<and>
     set table = combo_of ` set seen \<and> length id_of = length table \<and>
     dom (bt_get id_of) = prov_key ` set table \<and>
     (\<forall>k i. bt_get id_of k = Some i \<longrightarrow> unat i < length table))"

lemma length_bt_insert_new: "bt_inv m \<Longrightarrow> bt_get m k = None \<Longrightarrow> length (bt_insert k v m) = Suc (length m)"
  by (induction m) (auto simp: bt_inv_def bt_get_def split: if_splits)

lemma collect_inv_step:
  assumes inv: "collect_inv seen st" and len: "length seen < 2 ^ 32 - 1"
  shows "collect_inv (seen @ [e]) (collect_combo st e)"
proof -
  obtain table id_of where st: "st = (table, id_of)" by (cases st)
  from inv have i: "bt_inv id_of" "distinct table" "set table = combo_of ` set seen"
    "length id_of = length table" "dom (bt_get id_of) = prov_key ` set table"
    "\<And>k i. bt_get id_of k = Some i \<Longrightarrow> unat i < length table"
    by (auto simp: collect_inv_def st)
  have "length table = card (set table)" using i(2) by (simp add: distinct_card)
  also have "\<dots> \<le> length seen" by (simp add: i(3)) (metis card_image_le card_length finite_set order_trans)
  finally have lt: "length table < 2 ^ 32 - 1" using len by simp
  have nx: "unat (of_nat (length table) :: u32) = length table" using lt by (simp add: unat_of_nat)
  show ?thesis
  proof (cases "bt_get id_of (prov_key (combo_of e))")
    case None
    have ne: "combo_of e \<notin> set table" using None i(5) by auto
    have ins: "bt_inv (bt_insert (prov_key (combo_of e)) (of_nat (length table)) id_of)"
      "bt_get (bt_insert (prov_key (combo_of e)) (of_nat (length table)) id_of) =
         (bt_get id_of)(prov_key (combo_of e) \<mapsto> of_nat (length table))"
      by (simp_all add: bt_inv_insert bt_get_insert i(1))
    show ?thesis
      using i ne ins nx length_bt_insert_new [OF i(1) None]
      by (auto simp: collect_inv_def st collect_combo_def None Let_def less_Suc_eq)
  next
    case (Some j)
    have "j \<noteq> of_nat (length table)" using i(6) [OF Some] nx by auto
    moreover have "combo_of e \<in> set table"
      using Some i(5) by (metis domI image_iff prov_key_inject)
    ultimately show ?thesis
      using i Some by (auto simp: collect_inv_def st collect_combo_def Let_def insert_absorb)
  qed
qed

lemma collect_inv_fold:
  "collect_inv seen st \<Longrightarrow> length (seen @ es) < 2 ^ 32 \<Longrightarrow> collect_inv (seen @ es) (foldl collect_combo st es)"
proof (induction es arbitrary: seen st)
  case (Cons e es)
  have "collect_inv (seen @ [e]) (collect_combo st e)"
    using Cons.prems by (intro collect_inv_step) simp_all
  from Cons.IH [OF this] Cons.prems(2) show ?case by simp
qed simp

lemma canonical_ids_get:
  assumes "distinct table" and "length table < 2 ^ 32"
  shows "bt_get (canonical_ids table) (prov_key combo) = Some i \<longleftrightarrow>
     unat i < length table \<and> table ! unat i = combo"
proof -
  let ?kvs = "map (\<lambda>(i, combo). (prov_key combo, of_nat i :: u32)) (List.enumerate 0 table)"
  have "map fst ?kvs = map prov_key (map snd (List.enumerate 0 table))"
    by (simp only: map_map) (simp add: comp_def split_beta)
  then have keys: "map fst ?kvs = map prov_key table" by simp
  have dist: "distinct (map fst ?kvs)"
    unfolding keys using assms(1) by (simp add: distinct_map inj_on_def)
  have "bt_get (canonical_ids table) = map_of (rev ?kvs)"
    unfolding canonical_ids_def by (rule bt.get_puts)
  also have "\<dots> = map_of ?kvs"
    using dist by (subst map_of_inject_set) (simp_all add: rev_map [symmetric])
  finally have get: "bt_get (canonical_ids table) = map_of ?kvs" .
  have se: "set (List.enumerate 0 table) = (\<lambda>j. (j, table ! j)) ` {..<length table}"
    by (auto simp: in_set_enumerate_eq image_iff)
  have "map_of ?kvs (prov_key combo) = Some i \<longleftrightarrow> (prov_key combo, i) \<in> set ?kvs"
    using dist by (rule map_of_eq_Some_iff)
  also have "\<dots> \<longleftrightarrow> (\<exists>j < length table. table ! j = combo \<and> i = of_nat j)"
    by (auto simp: se image_iff)
  also have "\<dots> \<longleftrightarrow> unat i < length table \<and> table ! unat i = combo"
  proof
    assume "\<exists>j < length table. table ! j = combo \<and> i = of_nat j"
    then obtain j where j: "j < length table" "table ! j = combo" "i = of_nat j" by blast
    with assms(2) have "unat i = j" by (simp add: unat_of_nat)
    with j show "unat i < length table \<and> table ! unat i = combo" by simp
  next
    assume "unat i < length table \<and> table ! unat i = combo"
    then show "\<exists>j < length table. table ! j = combo \<and> i = of_nat j"
      by (intro exI [of _ "unat i"]) simp
  qed
  finally show ?thesis by (simp only: get)
qed

section \<open>The key map\<close>

definition last_entry :: "merged_entry list \<Rightarrow> string \<Rightarrow> merged_entry option" where
  "last_entry entries = map_of (rev (map (\<lambda>e. (me_domain e, e)) entries))"

lemma index_domains_fold:
  assumes "\<And>e. e \<in> set es \<Longrightarrow> bt_get canonical (prov_key (combo_of e)) = Some (uid (combo_of e))"
  shows "index_domains canonical es m =
     Some (foldl (\<lambda>m (k, v). bt_insert k v m) m
       (map (\<lambda>e. (reverse_key (me_domain e), uid (combo_of e))) es))"
  using assms by (induction es arbitrary: m) simp_all

lemma map_of_reversed_keys:
  "map_of (rev (map (\<lambda>e. (reverse_key (me_domain e), f e)) es)) (reverse_key d) =
     map_option f (last_entry es d)"
proof -
  have "map_of (map (\<lambda>e. (reverse_key (me_domain e), f e)) xs) (reverse_key d) =
      map_option f (map_of (map (\<lambda>e. (me_domain e, e)) xs) d)" for xs
    by (induction xs) (auto simp: reverse_key_inject)
  from this [of "rev es"] show ?thesis by (simp add: last_entry_def rev_map)
qed

lemma last_entry_in: "last_entry es d = Some e \<Longrightarrow> e \<in> set es \<and> me_domain e = d"
  by (auto simp: last_entry_def dest!: map_of_SomeD)

lemma assign_provenance_correct:
  assumes "length entries < 2 ^ 32"
  shows "\<exists>table keyed. assign_provenance entries = Some (table, keyed) \<and>
     sorted (map prov_key table) \<and> distinct table \<and> set table = combo_of ` set entries \<and> bt_inv keyed \<and>
     (\<forall>d. case last_entry entries d of
        None \<Rightarrow> bt_get keyed (reverse_key d) = None
      | Some e \<Rightarrow> \<exists>uid. bt_get keyed (reverse_key d) = Some uid \<and> unat uid < length table \<and>
          table ! unat uid = combo_of e)"
proof -
  have "collect_inv [] ([], [])" by (simp add: collect_inv_def)
  from collect_inv_fold [OF this, of entries] assms
  have "collect_inv entries (foldl collect_combo ([], []) entries)" by simp
  then have t0: "distinct (fst (foldl collect_combo ([], []) entries))"
    "set (fst (foldl collect_combo ([], []) entries)) = combo_of ` set entries"
    by (auto simp: collect_inv_def split_beta)
  define table where "table = sort_key prov_key (fst (foldl collect_combo ([], []) entries))"
  have t: "distinct table" "set table = combo_of ` set entries" "sorted (map prov_key table)"
    using t0 by (simp_all add: table_def)
  have "length table = card (set table)" using t(1) by (simp add: distinct_card)
  also have "\<dots> \<le> length entries" by (simp add: t(2)) (metis card_image_le card_length finite_set order_trans)
  finally have lt: "length table < 2 ^ 32" using assms by simp
  define uid where "uid c = the (bt_get (canonical_ids table) (prov_key c))" for c
  have got: "bt_get (canonical_ids table) (prov_key c) = Some (uid c) \<and> unat (uid c) < length table \<and>
      table ! unat (uid c) = c" if "c \<in> set table" for c
  proof -
    from that obtain j where j: "j < length table" "table ! j = c" by (auto simp: in_set_conv_nth)
    have "bt_get (canonical_ids table) (prov_key c) = Some (of_nat j)"
      using j lt by (subst canonical_ids_get [OF t(1) lt]) (simp add: unat_of_nat)
    then show ?thesis using j lt by (simp add: uid_def unat_of_nat)
  qed
  let ?kvs = "map (\<lambda>e. (reverse_key (me_domain e), uid (combo_of e))) entries"
  define keyed where "keyed = foldl (\<lambda>m (k, v). bt_insert k v m) [] ?kvs"
  have "index_domains (canonical_ids table) entries [] = Some keyed"
    unfolding keyed_def using got t(2) by (intro index_domains_fold) auto
  then have "assign_provenance entries = Some (table, keyed)"
    by (simp add: assign_provenance_def table_def)
  moreover have "bt_inv keyed" unfolding keyed_def by (rule bt.inv_puts)
  moreover have "bt_get keyed (reverse_key d) = map_option (\<lambda>e. uid (combo_of e)) (last_entry entries d)" for d
    unfolding keyed_def bt.get_puts by (rule map_of_reversed_keys)
  ultimately show ?thesis
    using t got by (intro exI [of _ table] exI [of _ keyed]) (auto split: option.split dest: last_entry_in)
qed

section \<open>Signatures\<close>

lemma any_signature_verifies_iff:
  "any_signature_verifies ed_verify trusted signable ss \<longleftrightarrow>
     (\<exists>s \<in> set ss. \<exists>key. map_of trusted (sig_key_id s) = Some key \<and> ed_verify key signable (sig_bytes s))"
  by (induction ss) (auto split: option.splits)

lemma verify_manifest_iff:
  "verify_manifest serialize ed_verify mf trusted = Inr True \<longleftrightarrow>
     (\<exists>signable s key. serialize (mf\<lparr>mf_signatures := []\<rparr>) = Some signable \<and> s \<in> set (mf_signatures mf) \<and>
        map_of trusted (sig_key_id s) = Some key \<and> ed_verify key signable (sig_bytes s))"
  by (auto simp: verify_manifest_def signable_bytes_def any_signature_verifies_iff split: option.splits)

lemma build_InrD:
  assumes "build fst_encode sha256 serialize ed_sign entries lic sources version time signing_keys = Some (Inr art)"
  obtains table keyed signable where "assign_provenance entries = Some (table, keyed)"
    "fst_encode (map (\<lambda>(key, uid). (key, ucast uid)) keyed) = Some (fa_fst_bytes art)"
    "serialize ((fa_manifest art)\<lparr>mf_signatures := []\<rparr>) = Some signable"
    "mf_signatures (fa_manifest art) = sign_all ed_sign signable signing_keys"
    "mf_provenance_table (fa_manifest art) = table" "mf_version (fa_manifest art) = version"
    "mf_fst_digest (fa_manifest art) = sha256 (fa_fst_bytes art)"
  using assms
  by (auto simp: build_def build_fst_def signable_bytes_def Let_def split: if_splits bind_splits
      option.splits sum.splits)

text \<open>A built artifact verifies for every client that trusts the verifying half of one of
  the signing keys, and adding or removing other signatures does not change that; building
  without a signing key is refused.\<close>

theorem built_manifest_verifies:
  assumes "build fst_encode sha256 serialize ed_sign entries lic sources version time signing_keys = Some (Inr art)"
    and "(kid, sk) \<in> set signing_keys" and "map_of trusted kid = Some vk"
    and "\<And>b. ed_verify vk b (ed_sign sk b)"
  shows "verify_manifest serialize ed_verify (fa_manifest art) trusted = Inr True \<and>
     verify_manifest serialize ed_verify
       ((fa_manifest art)\<lparr>mf_signatures := others @ mf_signatures (fa_manifest art) @ later\<rparr>) trusted = Inr True \<and>
     build fst_encode sha256 serialize ed_sign entries lic sources version time [] = Some (Inl NoSigningKeys)"
proof -
  from assms(1) obtain signable where
    b: "serialize ((fa_manifest art)\<lparr>mf_signatures := []\<rparr>) = Some signable"
      "mf_signatures (fa_manifest art) = sign_all ed_sign signable signing_keys"
    by (rule build_InrD)
  let ?s = "\<lparr>sig_key_id = kid, sig_bytes = ed_sign sk signable\<rparr>"
  have s: "?s \<in> set (mf_signatures (fa_manifest art))"
    using assms(2) by (force simp: b(2) sign_all_def)
  have "verify_manifest serialize ed_verify (fa_manifest art) trusted = Inr True"
    unfolding verify_manifest_iff using b(1) s assms(3,4)
    by (intro exI [of _ signable] exI [of _ ?s] exI [of _ vk]) simp
  moreover have "verify_manifest serialize ed_verify
       ((fa_manifest art)\<lparr>mf_signatures := others @ mf_signatures (fa_manifest art) @ later\<rparr>) trusted = Inr True"
    unfolding verify_manifest_iff using b(1) s assms(3,4)
    by (intro exI [of _ signable] exI [of _ ?s] exI [of _ vk]) simp
  ultimately show ?thesis by (simp add: build_def)
qed

definition toy_entries :: "merged_entry list" where
  "toy_entries = [\<lparr>me_domain = ''a.b'', me_scope = Apex, me_sources = [Ut1], me_categories = [Adult]\<rparr>]"

lemma toy_build:
  "\<exists>art. build (\<lambda>kvs. Some [of_nat (length kvs)]) (\<lambda>b. b) (\<lambda>mf. Some [ucast (mf_version mf)]) (\<lambda>k b. k # b)
     toy_entries (LicenseId ''MIT'') [] 3 0 [(''k'', 5 :: u8)] = Some (Inr art)"
proof -
  have "length toy_entries < 2 ^ 32" by (simp add: toy_entries_def)
  from assign_provenance_correct [OF this] obtain table keyed where
    "assign_provenance toy_entries = Some (table, keyed)" by blast
  then show ?thesis by (simp add: build_def build_fst_def signable_bytes_def)
qed

theorem built_manifest_verifies_witness:
  "\<exists>art. build (\<lambda>kvs. Some [of_nat (length kvs)]) (\<lambda>b. b) (\<lambda>mf. Some [ucast (mf_version mf)]) (\<lambda>k b. k # b)
     toy_entries (LicenseId ''MIT'') [] 3 0 [(''k'', 5 :: u8)] = Some (Inr art) \<and>
     verify_manifest (\<lambda>mf. Some [ucast (mf_version mf)]) (\<lambda>k b s. s = k # b) (fa_manifest art) [(''k'', 5)] = Inr True"
proof -
  from toy_build obtain art where art: "build (\<lambda>kvs. Some [of_nat (length kvs)]) (\<lambda>b. b)
     (\<lambda>mf. Some [ucast (mf_version mf)]) (\<lambda>k b. k # b)
     toy_entries (LicenseId ''MIT'') [] 3 0 [(''k'', 5 :: u8)] = Some (Inr art)" by blast
  from built_manifest_verifies [OF art, of "''k''" 5 "[(''k'', 5)]" "5 :: u8" "\<lambda>k b s. s = k # b"] art
  show ?thesis by simp
qed

end
