(* ===== verification/Radix.thy ===== *)
theory Radix
  imports Ip_Addr
begin

text \<open>
  \<open>packages/net-shield/src/radix.rs\<close>: the label trie \<open>DomainFilter\<close> and the prefix table
  \<open>IpFilter\<close>. The trie stores a domain's labels TLD first; its abstraction is the map from
  label lists to actions, and \<open>rule_for\<close> returns the action of the deepest stored rule on
  the queried name's path. The prefix table keeps its entries by descending prefix length
  and scans them in order.
\<close>

datatype filter_action = Block | Allow | Proxy

section \<open>The domain trie\<close>

datatype trie_node =
  TrieNode (node_children: "string \<Rightarrow> trie_node option") (node_action: "filter_action option")

definition empty_node :: trie_node where
  "empty_node = TrieNode Map.empty None"

record domain_filter =
  root :: trie_node

definition empty_filter :: domain_filter where
  "empty_filter = \<lparr>root = empty_node\<rparr>"

definition labels :: "string \<Rightarrow> string list" where
  "labels d = split_on CHR ''.'' d"

fun insert_path :: "string list \<Rightarrow> filter_action \<Rightarrow> trie_node \<Rightarrow> trie_node" where
  "insert_path [] a (TrieNode m _) = TrieNode m (Some a)"
| "insert_path (l # ls) a (TrieNode m b) =
     TrieNode (m(l \<mapsto> insert_path ls a (case m l of Some t \<Rightarrow> t | None \<Rightarrow> empty_node))) b"

definition insert_rule :: "domain_filter \<Rightarrow> string \<Rightarrow> filter_action \<Rightarrow> domain_filter" where
  "insert_rule f domain action =
     f\<lparr>root := insert_path (rev (labels domain)) action (root f)\<rparr>"

definition domain_from_rules :: "(string \<times> filter_action) list \<Rightarrow> domain_filter" where
  "domain_from_rules rules = foldl (\<lambda>f (d, a). insert_rule f d a) empty_filter rules"

fun walk_path :: "trie_node \<Rightarrow> string list \<Rightarrow> filter_action option \<Rightarrow> filter_action option" where
  "walk_path node [] last_match = last_match"
| "walk_path node (l # ls) last_match =
     (case node_children node l of
        Some child \<Rightarrow>
          walk_path child ls (case node_action child of Some a \<Rightarrow> Some a | None \<Rightarrow> last_match)
      | None \<Rightarrow> last_match)"

definition rule_for :: "domain_filter \<Rightarrow> string \<Rightarrow> filter_action option" where
  "rule_for f domain = walk_path (root f) (rev (labels domain)) None"

definition domain_lookup :: "domain_filter \<Rightarrow> string \<Rightarrow> filter_action" where
  "domain_lookup f domain = (case rule_for f domain of Some a \<Rightarrow> a | None \<Rightarrow> Proxy)"

text \<open>The abstract rule set: the last action given to each label list. \<open>deepest\<close> drops
  labels from the left until a rule is found.\<close>

fun action_at :: "trie_node \<Rightarrow> string list \<Rightarrow> filter_action option" where
  "action_at t [] = node_action t"
| "action_at t (l # ls) =
     (case node_children t l of None \<Rightarrow> None | Some c \<Rightarrow> action_at c ls)"

definition rules_of :: "domain_filter \<Rightarrow> string list \<Rightarrow> filter_action option" where
  "rules_of f ls = (if ls = [] then None else action_at (root f) (rev ls))"

fun deepest :: "('l list \<Rightarrow> 'a option) \<Rightarrow> 'l list \<Rightarrow> 'a option" where
  "deepest m [] = None"
| "deepest m (l # ls) = (case m (l # ls) of Some a \<Rightarrow> Some a | None \<Rightarrow> deepest m ls)"

lemma labels_not_Nil [simp]: "labels d \<noteq> []"
  by (simp add: labels_def)

lemma labels_inject: "labels d = labels e \<longleftrightarrow> d = e"
  by (simp add: labels_def split_on_inject)

lemma deepest_snoc:
  "deepest m (xs @ [l]) =
     (case deepest (\<lambda>p. m (p @ [l])) xs of Some a \<Rightarrow> Some a | None \<Rightarrow> m [l])"
  by (induction xs) (auto split: option.splits)

lemma deepest_const_None [simp]: "deepest (\<lambda>p. None) ls = None"
  by (induction ls) auto

lemma deepest_cong: "(\<And>p. p \<noteq> [] \<Longrightarrow> m p = m' p) \<Longrightarrow> deepest m ls = deepest m' ls"
  by (induction ls) (auto split: option.splits)

lemma deepest_None: "deepest m ls = None \<longleftrightarrow> (\<forall>s. suffix s ls \<and> s \<noteq> [] \<longrightarrow> m s = None)"
  by (induction ls) (auto simp: suffix_Cons split: option.splits)

lemma deepest_Some:
  "deepest m ls = Some a \<longleftrightarrow>
     (\<exists>s. s \<noteq> [] \<and> suffix s ls \<and> m s = Some a \<and>
        (\<forall>t. suffix t ls \<longrightarrow> length s < length t \<longrightarrow> m t = None))"
proof (induction ls)
  case Nil
  then show ?case by auto
next
  case (Cons l ls)
  show ?case
  proof (cases "m (l # ls)")
    case None
    then show ?thesis
      using Cons.IH by (auto simp: suffix_Cons dest: suffix_length_le)
  next
    case (Some b)
    have "deepest m (l # ls) = Some a \<longleftrightarrow> b = a" using Some by simp
    also have "\<dots> \<longleftrightarrow> (\<exists>s. s \<noteq> [] \<and> suffix s (l # ls) \<and> m s = Some a \<and>
        (\<forall>t. suffix t (l # ls) \<longrightarrow> length s < length t \<longrightarrow> m t = None))"
    proof
      assume "b = a"
      with Some show "\<exists>s. s \<noteq> [] \<and> suffix s (l # ls) \<and> m s = Some a \<and>
        (\<forall>t. suffix t (l # ls) \<longrightarrow> length s < length t \<longrightarrow> m t = None)"
        by (intro exI [of _ "l # ls"]) (auto dest: suffix_length_le)
    next
      assume "\<exists>s. s \<noteq> [] \<and> suffix s (l # ls) \<and> m s = Some a \<and>
        (\<forall>t. suffix t (l # ls) \<longrightarrow> length s < length t \<longrightarrow> m t = None)"
      then obtain s where s: "suffix s (l # ls)" "m s = Some a"
        and max: "length s < length (l # ls) \<longrightarrow> m (l # ls) = None" by auto
      with Some have "\<not> length s < length (l # ls)" by auto
      with s(1) have "s = l # ls"
        by (metis suffix_length_le suffix_order.antisym suffix_length_suffix suffix_order.refl not_less)
      with s(2) Some show "b = a" by simp
    qed
    finally show ?thesis .
  qed
qed

lemma action_at_empty [simp]: "action_at empty_node p = None"
  by (cases p) (auto simp: empty_node_def)

lemma action_at_insert:
  "action_at (insert_path p a t) q = (if q = p then Some a else action_at t q)"
proof (induction p a t arbitrary: q rule: insert_path.induct)
  case (1 a m b)
  then show ?case by (cases q) auto
next
  case (2 l ls a m b)
  then show ?case by (cases q) (auto split: option.splits)
qed

lemma walk_path_deepest:
  "walk_path t ls r =
     (case deepest (\<lambda>p. action_at t (rev p)) (rev ls) of Some a \<Rightarrow> Some a | None \<Rightarrow> r)"
proof (induction ls arbitrary: t r)
  case (Cons l ls)
  show ?case
  proof (cases "node_children t l")
    case None
    then show ?thesis by (simp add: deepest_snoc)
  next
    case (Some c)
    then show ?thesis by (simp add: deepest_snoc Cons.IH split: option.splits)
  qed
qed simp

text \<open>The contract of a rule store: what its lookup sees of the rules inserted into it.\<close>

locale rule_store =
  fixes empty :: 'f
    and insert :: "'f \<Rightarrow> string \<Rightarrow> 'a \<Rightarrow> 'f"
    and query :: "'f \<Rightarrow> string \<Rightarrow> 'a option"
    and abs :: "'f \<Rightarrow> string list \<Rightarrow> 'a option"
  assumes abs_empty: "abs empty ls = None"
    and abs_insert: "abs (insert f d a) = (abs f)(labels d \<mapsto> a)"
    and query_abs: "query f d = deepest (abs f) (labels d)"
begin

lemma abs_foldl:
  "abs (foldl (\<lambda>f (d, a). insert f d a) f rules) =
     abs f ++ map_of (rev (map (\<lambda>(d, a). (labels d, a)) rules))"
proof (induction rules arbitrary: f)
  case (Cons r rules)
  then show ?case
    by (cases r) (simp add: abs_insert fun_eq_iff map_add_def split: option.splits)
qed simp

lemma query_rules:
  "query (foldl (\<lambda>f (d, a). insert f d a) empty rules) d =
     deepest (map_of (rev (map (\<lambda>(d, a). (labels d, a)) rules))) (labels d)"
proof -
  have "abs empty = Map.empty" by (simp add: abs_empty fun_eq_iff)
  then show ?thesis by (simp add: query_abs abs_foldl)
qed

lemma query_subtree:
  assumes "query f d = Some a" and "suffix (labels d) (labels e)"
    and "\<And>s. suffix s (labels e) \<Longrightarrow> length (labels d) < length s \<Longrightarrow> abs f s = None"
  shows "query f e = Some a"
proof -
  from assms(1) obtain s where s: "s \<noteq> []" "suffix s (labels d)" "abs f s = Some a"
    and max: "\<And>t. suffix t (labels d) \<Longrightarrow> length s < length t \<Longrightarrow> abs f t = None"
    by (auto simp: query_abs deepest_Some)
  have "abs f t = None" if "suffix t (labels e)" "length s < length t" for t
    using that assms(2,3) max
    by (cases "length (labels d) < length t") (auto dest: suffix_length_suffix)
  with s assms(2) show ?thesis
    by (auto simp: query_abs deepest_Some intro: suffix_order.trans)
qed

end

interpretation df: rule_store empty_filter insert_rule rule_for rules_of
proof unfold_locales
  fix ls show "rules_of empty_filter ls = None"
    by (simp add: rules_of_def empty_filter_def)
next
  fix f d a show "rules_of (insert_rule f d a) = (rules_of f)(labels d \<mapsto> a)"
    by (auto simp: rules_of_def insert_rule_def action_at_insert fun_eq_iff rev_swap)
next
  fix f d
  have "deepest (\<lambda>p. action_at (root f) (rev p)) (labels d) = deepest (rules_of f) (labels d)"
    by (rule deepest_cong) (simp add: rules_of_def)
  then show "rule_for f d = deepest (rules_of f) (labels d)"
    by (simp add: rule_for_def walk_path_deepest split: option.splits)
qed

text \<open>C35: the filter built from a rule list answers a name with the action of the deepest
  rule on its label path, the last rule winning among equal domains.\<close>

theorem domain_filter_deepest_rule:
  "rule_for (domain_from_rules rules) d =
     deepest (map_of (rev (map (\<lambda>(r, a). (labels r, a)) rules))) (labels d)"
  unfolding domain_from_rules_def by (rule df.query_rules)

text \<open>A name answered by the filter passes its answer to all its subdomains that have
  no deeper rule of their own.\<close>

theorem domain_filter_subtree:
  assumes "rule_for f d = Some a" and "suffix (labels d) (labels e)"
    and "\<And>s. suffix s (labels e) \<Longrightarrow> length (labels d) < length s \<Longrightarrow> rules_of f s = None"
  shows "domain_lookup f e = a"
  using df.query_subtree [OF assms] by (simp add: domain_lookup_def)

theorem domain_filter_subtree_witness:
  "domain_lookup (domain_from_rules [(''b.c'', Block)]) ''a.b.c'' = Block"
proof -
  let ?f = "domain_from_rules [(''b.c'', Block)]"
  have r: "rule_for ?f ''b.c'' = Some Block" by code_simp
  have l: "labels ''b.c'' = [''b'', ''c'']" "labels ''a.b.c'' = [''a'', ''b'', ''c'']" by code_simp+
  have n: "rules_of ?f [''a'', ''b'', ''c''] = None" by code_simp
  show ?thesis
    by (rule domain_filter_subtree [OF r]) (auto simp: l suffix_Cons n dest: suffix_length_le)
qed

end
