(* ===== verification/Keyword.thy ===== *)
theory Keyword
  imports Rust_Str
begin

text \<open>
  \<open>packages/net-shield/src/keyword.rs\<close>: confirmed keyword tokens. The public suffix list
  is the \<open>psl\<close> crate, a parameter: \<open>psl_suffix\<close> returns the public suffix of a name with
  its section, \<open>psl_domain\<close> the registrable domain (the suffix and one more label).
\<close>

definition MIN_TOKEN_LEN :: nat where "MIN_TOKEN_LEN = 5"

definition STOPLIST :: "string list" where
  "STOPLIST = [''browser'', ''calculator'', ''calendar'', ''camera'', ''chat'', ''clock'', ''cloud'',
     ''drive'', ''email'', ''files'', ''games'', ''line'', ''mail'', ''maps'', ''media'', ''meta'',
     ''mobile'', ''music'', ''news'', ''notes'', ''phone'', ''photo'', ''photos'', ''search'',
     ''settings'', ''shop'', ''store'', ''translate'', ''video'', ''videos'', ''weather'', ''world'']"

datatype keyword_match = Exact | Contains

text \<open>\<open>char::is_ascii_alphanumeric\<close> drops every byte of a non-ASCII character, so filtering
  bytes and filtering characters agree.\<close>

definition reduce_token :: "string \<Rightarrow> string" where
  "reduce_token raw = map ascii_lower (filter is_ascii_alphanumeric raw)"

definition normalize_token :: "string \<Rightarrow> string option" where
  "normalize_token raw =
     (let token = reduce_token raw
      in if MIN_TOKEN_LEN \<le> length token \<and> token \<notin> set STOPLIST then Some token else None)"

record keyword_rules =
  tokens :: "string list"

definition keyword_rules_new :: "string list \<Rightarrow> keyword_rules" where
  "keyword_rules_new ts =
     \<lparr>tokens = remdups_adj (sort (List.map_filter normalize_token ts))\<rparr>"

definition keywords_is_empty :: "keyword_rules \<Rightarrow> bool" where
  "keywords_is_empty rules \<longleftrightarrow> tokens rules = []"

datatype psl_type = Icann | Private

type_synonym psl_domain = "string \<Rightarrow> string option"
type_synonym psl_suffix = "string \<Rightarrow> (string \<times> psl_type option) option"

definition under_private_suffix :: "psl_suffix \<Rightarrow> string \<Rightarrow> bool" where
  "under_private_suffix psl_suffix normalized =
     (case psl_suffix normalized of None \<Rightarrow> False | Some (_, typ) \<Rightarrow> typ = Some Private)"

definition keyword_matches ::
  "psl_suffix \<Rightarrow> psl_domain \<Rightarrow> keyword_rules \<Rightarrow> string \<Rightarrow> keyword_match option" where
  "keyword_matches psl_suffix psl_domain rules normalized =
     (if tokens rules = [] \<or> under_private_suffix psl_suffix normalized then None
      else do {
        registrable \<leftarrow> psl_domain normalized;
        (own_label, sfx) \<leftarrow> split_once CHR ''.'' registrable;
        rest \<leftarrow> strip_suffix sfx normalized;
        below_suffix \<leftarrow> strip_suffix ''.'' rest;
        if \<exists>t \<in> set (tokens rules). t = own_label then Some Exact
        else if \<exists>label \<in> set (split_on CHR ''.'' below_suffix).
            \<exists>t \<in> set (tokens rules). str_contains label t
        then Some Contains
        else None
      })"

section \<open>Tokens\<close>

lemma distinct_remdups_adj: "sorted xs \<Longrightarrow> distinct (remdups_adj xs)"
  by (induction xs rule: remdups_adj.induct) (auto dest: antisym)

lemma sorted_STOPLIST: "sorted STOPLIST" "distinct STOPLIST"
  by code_simp+

lemma is_ascii_alphanumeric_lower: "is_ascii_alphanumeric c \<Longrightarrow> is_ascii_alphanumeric (ascii_lower c)"
  by (auto simp: is_ascii_alphanumeric_def is_ascii_alphabetic_def is_ascii_digit_def
      of_char_ascii_lower char_le_iff)

text \<open>The tokens kept are those that reduce to a usable form, each once and in order; every
  one is at least five lower-case ASCII letters or digits and off the stoplist.\<close>

theorem keyword_tokens_wf:
  "set (tokens (keyword_rules_new ts)) = {t. \<exists>raw \<in> set ts. normalize_token raw = Some t} \<and>
   sorted (tokens (keyword_rules_new ts)) \<and> distinct (tokens (keyword_rules_new ts)) \<and>
   list_all (\<lambda>t. 5 \<le> length t \<and> t \<notin> set STOPLIST \<and> normalize_token t = Some t \<and>
      list_all (\<lambda>c. is_ascii_alphanumeric c \<and> ascii_lower c = c) t) (tokens (keyword_rules_new ts))"
proof -
  have idem: "reduce_token (reduce_token raw) = reduce_token raw" for raw
    by (auto simp: reduce_token_def filter_map comp_def
        intro!: arg_cong [where f = "map ascii_lower"] filter_cong dest: is_ascii_alphanumeric_lower)
  have ok: "5 \<le> length t \<and> t \<notin> set STOPLIST \<and> normalize_token t = Some t \<and>
      (\<forall>c \<in> set t. is_ascii_alphanumeric c \<and> ascii_lower c = c)"
    if "normalize_token raw = Some t" for raw t
  proof -
    from that have t: "t = reduce_token raw" "5 \<le> length t" "t \<notin> set STOPLIST"
      by (auto simp: normalize_token_def Let_def MIN_TOKEN_LEN_def split: if_splits)
    moreover from t have "normalize_token t = Some t"
      by (simp add: normalize_token_def idem MIN_TOKEN_LEN_def)
    moreover have "\<forall>c \<in> set t. is_ascii_alphanumeric c \<and> ascii_lower c = c"
      by (auto simp: t(1) reduce_token_def is_ascii_alphanumeric_lower)
    ultimately show ?thesis by blast
  qed
  have s: "set (tokens (keyword_rules_new ts)) = {t. \<exists>raw \<in> set ts. normalize_token raw = Some t}"
    by (auto simp: keyword_rules_new_def List.map_filter_def) (force intro: rev_image_eqI)
  with ok show ?thesis
    by (auto simp: list_all_iff keyword_rules_new_def sorted_remdups_adj intro!: distinct_remdups_adj)
qed

section \<open>Matching\<close>

definition psl_domain_ok :: "psl_domain \<Rightarrow> bool" where
  "psl_domain_ok psl_domain \<longleftrightarrow>
     (\<forall>n r. psl_domain n = Some r \<longrightarrow>
        suffix (split_on CHR ''.'' r) (split_on CHR ''.'' n) \<and> 2 \<le> length (split_on CHR ''.'' r))"

text \<open>The label view of a match: the registrable domain's own label, and the labels left of
  the public suffix.\<close>

definition below_labels :: "string \<Rightarrow> string \<Rightarrow> string list" where
  "below_labels n r =
     take (length (split_on CHR ''.'' n) - length (split_on CHR ''.'' r) + 1) (split_on CHR ''.'' n)"

lemma keyword_matches_labels:
  assumes psl: "psl_domain_ok psl_domain" and r: "psl_domain n = Some r"
    and pub: "\<not> under_private_suffix psl_suffix n"
  shows "keyword_matches psl_suffix psl_domain rules n =
     (if hd (split_on CHR ''.'' r) \<in> set (tokens rules) then Some Exact
      else if \<exists>l \<in> set (below_labels n r). \<exists>t \<in> set (tokens rules). str_contains l t then Some Contains
      else None)"
proof -
  from psl r have sfx: "suffix (split_on CHR ''.'' r) (split_on CHR ''.'' n)"
    and two: "2 \<le> length (split_on CHR ''.'' r)" by (auto simp: psl_domain_ok_def)
  obtain own ls where rl: "split_on CHR ''.'' r = own # ls" and ls: "ls \<noteq> []"
    using two by (cases "split_on CHR ''.'' r"; cases "tl (split_on CHR ''.'' r)") auto
  from sfx obtain pre where nl: "split_on CHR ''.'' n = pre @ own # ls" by (auto simp: rl suffix_def)
  let ?sfx = "join_with CHR ''.'' ls" and ?below = "join_with CHR ''.'' (pre @ [own])"
  have dot: "\<forall>l \<in> set (pre @ own # ls). CHR ''.'' \<notin> set l"
    using split_on_no_sep [of _ "CHR ''.''" n] by (simp add: nl)
  have req: "r = own @ CHR ''.'' # ?sfx"
    using join_split [of "CHR ''.''" r] ls by (simp add: rl join_with_Cons)
  have neq: "n = (?below @ ''.'') @ ?sfx"
    using join_split [of "CHR ''.''" n] join_with_append [of "pre @ [own]" ls "CHR ''.''"] ls
    by (simp add: nl)
  have so: "split_once CHR ''.'' r = Some (own, ?sfx)" using dot by (simp add: req split_once_Some)
  have s1: "strip_suffix ?sfx n = Some (?below @ ''.'')" by (subst neq) (simp only: strip_suffix_Some)
  have s2: "strip_suffix ''.'' (?below @ ''.'') = Some ?below" by (simp only: strip_suffix_Some)
  have sb: "split_on CHR ''.'' ?below = pre @ [own]" using dot by (intro split_join) auto
  have bl: "below_labels n r = pre @ [own]" by (simp add: below_labels_def nl rl)
  show ?thesis
    unfolding keyword_matches_def using pub
    by (simp add: r so s1 s2 sb bl rl)
qed

text \<open>What a name matches, everything below it matches the same way, as long as both sit
  under the same registrable domain and neither under a private suffix.\<close>

theorem keyword_covers_subdomains:
  assumes psl: "psl_domain_ok psl_domain" and m: "keyword_matches psl_suffix psl_domain rules n = Some k"
    and same: "psl_domain (p @ CHR ''.'' # n) = psl_domain n"
    and pub: "\<not> under_private_suffix psl_suffix (p @ CHR ''.'' # n)"
  shows "keyword_matches psl_suffix psl_domain rules (p @ CHR ''.'' # n) \<noteq> None \<and>
     (k = Exact \<longrightarrow> keyword_matches psl_suffix psl_domain rules (p @ CHR ''.'' # n) = Some Exact)"
proof -
  from m obtain r where r: "psl_domain n = Some r" and pub_n: "\<not> under_private_suffix psl_suffix n"
    by (auto simp: keyword_matches_def split: if_splits bind_splits)
  from psl r have "length (split_on CHR ''.'' r) \<le> length (split_on CHR ''.'' n)"
    by (auto simp: psl_domain_ok_def dest: suffix_length_le)
  then have "below_labels (p @ CHR ''.'' # n) r = split_on CHR ''.'' p @ below_labels n r"
    by (simp add: below_labels_def split_on_append Suc_diff_le)
  then show ?thesis
    using m keyword_matches_labels [OF psl r pub_n, of rules]
      keyword_matches_labels [OF psl same [unfolded r] pub, of rules]
    by (auto split: if_splits)
qed

text \<open>A public suffix list in which every top-level label is the only kind of suffix.\<close>

definition tld_psl_domain :: psl_domain where
  "tld_psl_domain n =
     (case rev (split_on CHR ''.'' n) of t # l # _ \<Rightarrow> Some (l @ CHR ''.'' # t) | _ \<Rightarrow> None)"

definition tld_psl_suffix :: psl_suffix where
  "tld_psl_suffix n = Some (last (split_on CHR ''.'' n), Some Icann)"

lemma tld_psl_domain_ok: "psl_domain_ok tld_psl_domain"
proof -
  have "suffix (split_on CHR ''.'' r) (split_on CHR ''.'' n) \<and> 2 \<le> length (split_on CHR ''.'' r)"
    if "tld_psl_domain n = Some r" for n r
  proof -
    from that obtain t l ls where rv: "rev (split_on CHR ''.'' n) = t # l # ls" and r: "r = l @ CHR ''.'' # t"
      by (auto simp: tld_psl_domain_def split: list.splits)
    then have n: "split_on CHR ''.'' n = rev ls @ [l, t]" by (simp add: rev_swap)
    then have "CHR ''.'' \<notin> set l" "CHR ''.'' \<notin> set t"
      using split_on_no_sep [of _ "CHR ''.''" n] by auto
    then show ?thesis by (simp add: r n split_on_append split_on_id suffix_def)
  qed
  then show ?thesis by (simp add: psl_domain_ok_def)
qed

theorem keyword_covers_subdomains_witness:
  "keyword_matches tld_psl_suffix tld_psl_domain (keyword_rules_new [''Insta-gram''])
     (''cdn'' @ CHR ''.'' # ''instagram.com'') = Some Exact"
proof -
  have m: "keyword_matches tld_psl_suffix tld_psl_domain (keyword_rules_new [''Insta-gram''])
     ''instagram.com'' = Some Exact" by code_simp
  have same: "tld_psl_domain (''cdn'' @ CHR ''.'' # ''instagram.com'') = tld_psl_domain ''instagram.com''"
    by code_simp
  have pub: "\<not> under_private_suffix tld_psl_suffix (''cdn'' @ CHR ''.'' # ''instagram.com'')"
    by code_simp
  from keyword_covers_subdomains [OF tld_psl_domain_ok m same pub] show ?thesis by simp
qed

end
