(* ===== verification/Artifact.thy ===== *)
theory Artifact
  imports Fst_Build Radix Keyword
begin

text \<open>
  The first half of \<open>packages/net-shield/src/blocklist.rs\<close>: the cold-start loader of the
  two-slot artifact, the label-boundary lookup, the device allowlist and the precedence
  table. The file system is a parameter: what reading each file of a slot yields.
  \<open>fst_open\<close> is \<open>fst::Map::new\<close> with its \<open>get\<close>.
\<close>

datatype slot_dir = Current | Previous

datatype file_read = NotFound | ReadError | Contents bytes

record slot_files =
  sf_artifact :: file_read
  sf_manifest :: file_read

datatype artifact_error =
  SlotMissing | IoError | ManifestError | BadSignature | DigestMismatch | BadFst | VerifyError

record artifact =
  ba_map :: "string \<Rightarrow> u64 option"
  ba_provenance :: "provenance_entry list"
  ba_version :: u64

type_synonym fst_open = "bytes \<Rightarrow> (string \<Rightarrow> u64 option) option"

text \<open>The third-party operations the loader uses, with the trusted keys.\<close>

record 'vk loader =
  ld_deserialize :: "bytes \<Rightarrow> manifest option"
  ld_serialize :: "manifest \<Rightarrow> bytes option"
  ld_verify :: "'vk \<Rightarrow> bytes \<Rightarrow> bytes \<Rightarrow> bool"
  ld_sha256 :: "bytes \<Rightarrow> bytes"
  ld_fst_open :: fst_open
  ld_trusted :: "(key_id \<times> 'vk) list"

definition load_slot :: "'vk loader \<Rightarrow> slot_files \<Rightarrow> artifact_error + artifact" where
  "load_slot ld files =
     (case sf_artifact files of
        NotFound \<Rightarrow> Inl SlotMissing
      | ReadError \<Rightarrow> Inl IoError
      | Contents fst_bytes \<Rightarrow>
          (case sf_manifest files of
             Contents manifest_bytes \<Rightarrow>
               (case ld_deserialize ld manifest_bytes of
                  None \<Rightarrow> Inl ManifestError
                | Some mf \<Rightarrow>
                    (case verify_manifest (ld_serialize ld) (ld_verify ld) mf (ld_trusted ld) of
                       Inl _ \<Rightarrow> Inl VerifyError
                     | Inr verified \<Rightarrow>
                         if \<not> verified then Inl BadSignature
                         else if ld_sha256 ld fst_bytes \<noteq> mf_fst_digest mf then Inl DigestMismatch
                         else (case ld_fst_open ld fst_bytes of
                                 None \<Rightarrow> Inl BadFst
                               | Some m \<Rightarrow> Inr \<lparr>ba_map = m, ba_provenance = mf_provenance_table mf,
                                                ba_version = mf_version mf\<rparr>)))
           | _ \<Rightarrow> Inl IoError))"

fun load_first :: "(slot_files \<Rightarrow> artifact_error + artifact) \<Rightarrow> slot_files list \<Rightarrow> artifact_error option \<Rightarrow>
    artifact_error + artifact" where
  "load_first ls [] first_failure = Inl (case first_failure of Some e \<Rightarrow> e | None \<Rightarrow> SlotMissing)"
| "load_first ls (f # fs) first_failure =
     (case ls f of
        Inr artifact \<Rightarrow> Inr artifact
      | Inl SlotMissing \<Rightarrow> load_first ls fs first_failure
      | Inl e \<Rightarrow> load_first ls fs (case first_failure of None \<Rightarrow> Some e | Some e' \<Rightarrow> Some e'))"

definition load :: "'vk loader \<Rightarrow> (slot_dir \<Rightarrow> slot_files) \<Rightarrow> artifact_error + artifact" where
  "load ld path = load_first (load_slot ld) (map path [Current, Previous]) None"

definition provenance_get :: "artifact \<Rightarrow> u64 \<Rightarrow> provenance_entry option" where
  "provenance_get art uid =
     (if unat uid < length (ba_provenance art) then Some (ba_provenance art ! unat uid) else None)"

definition provenance_for :: "artifact \<Rightarrow> string \<Rightarrow> provenance_entry option" where
  "provenance_for art reversed_key = Option.bind (ba_map art reversed_key) (provenance_get art)"

definition boundaries :: "string \<Rightarrow> nat list" where
  "boundaries q = filter (\<lambda>i. q ! i = CHR ''.'') [0..<length q] @ [length q]"

fun scan_boundaries :: "artifact \<Rightarrow> string \<Rightarrow> nat list \<Rightarrow> filter_action option" where
  "scan_boundaries art q [] = None"
| "scan_boundaries art q (i # js) =
     (case ba_map art (take i q) of
        None \<Rightarrow> scan_boundaries art q js
      | Some uid \<Rightarrow>
          (case provenance_get art uid of
             None \<Rightarrow> scan_boundaries art q js
           | Some prov \<Rightarrow>
               if pe_scope prov = Apex then Some Block
               else if i = length q \<and> pe_scope prov = ExactHost then Some Block
               else scan_boundaries art q js))"

definition artifact_lookup :: "artifact \<Rightarrow> string \<Rightarrow> filter_action option" where
  "artifact_lookup art reversed_query = scan_boundaries art reversed_query (boundaries reversed_query)"

record allowlist =
  al_entries :: "string set"

definition allowlist_insert :: "to_ascii \<Rightarrow> allowlist \<Rightarrow> string \<Rightarrow> allowlist" where
  "allowlist_insert to_ascii al domain =
     (case normalize to_ascii domain of
        Inr n \<Rightarrow> al\<lparr>al_entries := insert n (al_entries al)\<rparr>
      | Inl _ \<Rightarrow> al)"

definition allowlist_from_entries :: "to_ascii \<Rightarrow> string list \<Rightarrow> allowlist" where
  "allowlist_from_entries to_ascii es = foldl (allowlist_insert to_ascii) \<lparr>al_entries = {}\<rparr> es"

fun suffix_after_dot :: "string set \<Rightarrow> string \<Rightarrow> bool" where
  "suffix_after_dot es [] \<longleftrightarrow> False"
| "suffix_after_dot es (b # bs) \<longleftrightarrow> b = CHR ''.'' \<and> bs \<in> es \<or> suffix_after_dot es bs"

definition allowlist_contains :: "allowlist \<Rightarrow> string \<Rightarrow> bool" where
  "allowlist_contains al normalized \<longleftrightarrow>
     normalized \<in> al_entries al \<or> suffix_after_dot (al_entries al) normalized"

definition resolve_action ::
  "psl_suffix \<Rightarrow> psl_domain \<Rightarrow> string \<Rightarrow> allowlist \<Rightarrow> domain_filter \<Rightarrow> keyword_rules \<Rightarrow> artifact option \<Rightarrow>
   filter_action option" where
  "resolve_action psl_suffix psl_domain normalized al explicit keywords art =
     (if allowlist_contains al normalized then Some Allow
      else case rule_for explicit normalized of
             Some action \<Rightarrow> Some action
           | None \<Rightarrow>
               if keyword_matches psl_suffix psl_domain keywords normalized \<noteq> None then Some Block
               else (case art of
                       None \<Rightarrow> None
                     | Some artifact \<Rightarrow> artifact_lookup artifact (reverse_key normalized)))"

section \<open>Loading\<close>

definition slot_verified :: "'vk loader \<Rightarrow> slot_files \<Rightarrow> artifact \<Rightarrow> bool" where
  "slot_verified ld files art \<longleftrightarrow>
     (\<exists>fst_bytes manifest_bytes mf m signable s key.
        sf_artifact files = Contents fst_bytes \<and> sf_manifest files = Contents manifest_bytes \<and>
        ld_deserialize ld manifest_bytes = Some mf \<and>
        ld_serialize ld (mf\<lparr>mf_signatures := []\<rparr>) = Some signable \<and> s \<in> set (mf_signatures mf) \<and>
        map_of (ld_trusted ld) (sig_key_id s) = Some key \<and> ld_verify ld key signable (sig_bytes s) \<and>
        ld_sha256 ld fst_bytes = mf_fst_digest mf \<and> ld_fst_open ld fst_bytes = Some m \<and>
        art = \<lparr>ba_map = m, ba_provenance = mf_provenance_table mf, ba_version = mf_version mf\<rparr>)"

lemma load_slot_Inr: "load_slot ld files = Inr art \<Longrightarrow> slot_verified ld files art"
  using verify_manifest_iff [of "ld_serialize ld" "ld_verify ld" _ "ld_trusted ld"]
  by (auto simp: load_slot_def slot_verified_def split: file_read.splits option.splits sum.splits if_splits)

text \<open>C17: nothing unverified is ever loaded. The loader returns the current slot's artifact when
  it verifies, else the previous slot's, and an error only when neither loads.\<close>

theorem load_verified_or_error:
  "case load ld path of
     Inr art \<Rightarrow> slot_verified ld (path Current) art \<and> load_slot ld (path Current) = Inr art \<or>
        slot_verified ld (path Previous) art \<and> load_slot ld (path Previous) = Inr art \<and>
        isl (load_slot ld (path Current))
   | Inl e \<Rightarrow> isl (load_slot ld (path Current)) \<and> isl (load_slot ld (path Previous)) \<and>
        e = (if load_slot ld (path Current) = Inl SlotMissing
             then projl (load_slot ld (path Previous)) else projl (load_slot ld (path Current)))"
proof (cases "load_slot ld (path Current)")
  case (Inr a)
  then show ?thesis by (simp add: load_def load_slot_Inr)
next
  case (Inl e)
  show ?thesis
  proof (cases "load_slot ld (path Previous)")
    case (Inr a)
    with Inl show ?thesis by (cases e) (simp_all add: load_def load_slot_Inr)
  next
    case prev: (Inl e')
    with Inl show ?thesis by (cases e; cases e') (simp_all add: load_def)
  qed
qed

section \<open>Lookup\<close>

lemma map_take_boundaries: "map (\<lambda>i. take i q) (boundaries q) = sep_prefixes CHR ''.'' q"
proof (induction q)
  case (Cons x q)
  have "boundaries (x # q) = (if x = CHR ''.'' then [0] else []) @ map Suc (boundaries q)"
    by (simp add: boundaries_def upt_conv_Cons map_Suc_upt [symmetric] filter_map comp_def del: upt_Suc)
  moreover have "map (\<lambda>i. take i (x # q)) (map Suc (boundaries q)) = map ((#) x) (map (\<lambda>i. take i q) (boundaries q))"
    by simp
  ultimately show ?case by (simp add: Cons.IH del: map_map)
qed (simp add: boundaries_def)

definition covering :: "artifact \<Rightarrow> string \<Rightarrow> string \<Rightarrow> bool" where
  "covering art q p \<longleftrightarrow>
     (\<exists>uid prov. ba_map art p = Some uid \<and> provenance_get art uid = Some prov \<and>
        (pe_scope prov = Apex \<or> p = q))"

lemma scan_boundaries_iff:
  "set js \<subseteq> {..length q} \<Longrightarrow>
     scan_boundaries art q js = (if \<exists>i \<in> set js. covering art q (take i q) then Some Block else None)"
proof (induction js)
  case (Cons i js)
  have iq: "length q \<le> i \<longleftrightarrow> i = length q" using Cons.prems by auto
  have ap: "pe_scope p = ExactHost \<longleftrightarrow> pe_scope p \<noteq> Apex" for p by (cases "pe_scope p") simp_all
  have "scan_boundaries art q (i # js) =
      (if covering art q (take i q) then Some Block else scan_boundaries art q js)"
  proof (cases "ba_map art (take i q)")
    case (Some uid)
    then show ?thesis
      by (cases "provenance_get art uid") (simp_all add: covering_def iq ap)
  qed (simp add: covering_def)
  with Cons show ?case by simp
qed simp

lemma artifact_lookup_iff:
  "artifact_lookup art q =
     (if \<exists>p \<in> set (sep_prefixes CHR ''.'' q). covering art q p then Some Block else None)"
proof -
  have sub: "set (boundaries q) \<subseteq> {..length q}" by (auto simp: boundaries_def)
  have "(\<exists>i \<in> set (boundaries q). covering art q (take i q)) \<longleftrightarrow>
      (\<exists>p \<in> set (sep_prefixes CHR ''.'' q). covering art q p)"
    unfolding map_take_boundaries [symmetric] by auto
  then show ?thesis by (simp add: artifact_lookup_def scan_boundaries_iff [OF sub])
qed

text \<open>A label-boundary prefix of a reversed name is the reversal of a label-suffix of the name.\<close>

lemma sep_prefixes_reverse_key:
  "p \<in> set (sep_prefixes CHR ''.'' (reverse_key q)) \<longleftrightarrow>
     (\<exists>d. p = reverse_key d \<and> suffix (split_on CHR ''.'' d) (split_on CHR ''.'' q))"
proof
  assume "p \<in> set (sep_prefixes CHR ''.'' (reverse_key q))"
  then obtain k where k: "0 < k" "k \<le> length (split_on CHR ''.'' q)"
    and p: "p = join_with CHR ''.'' (take k (rev (split_on CHR ''.'' q)))"
    by (auto simp: set_sep_prefixes split_reverse_key)
  let ?ls = "take k (rev (split_on CHR ''.'' q))"
  have "?ls \<noteq> []" using k by auto
  moreover have "\<forall>l \<in> set ?ls. CHR ''.'' \<notin> set l"
    using split_on_no_sep [of _ "CHR ''.''" q] by (auto dest: in_set_takeD)
  ultimately have sp: "split_on CHR ''.'' p = ?ls" unfolding p by (intro split_join) auto
  have "suffix (split_on CHR ''.'' (reverse_key p)) (split_on CHR ''.'' q)"
    by (simp add: split_reverse_key sp suffix_def rev_take) (metis append_take_drop_id)
  then show "\<exists>d. p = reverse_key d \<and> suffix (split_on CHR ''.'' d) (split_on CHR ''.'' q)"
    by (intro exI [of _ "reverse_key p"]) simp
next
  assume "\<exists>d. p = reverse_key d \<and> suffix (split_on CHR ''.'' d) (split_on CHR ''.'' q)"
  then obtain d ls where p: "p = reverse_key d" and ls: "split_on CHR ''.'' q = ls @ split_on CHR ''.'' d"
    by (auto simp: suffix_def)
  let ?k = "length (split_on CHR ''.'' d)"
  have "p = join_with CHR ''.'' (take ?k (split_on CHR ''.'' (reverse_key q)))"
    by (simp add: p split_reverse_key ls) (simp add: reverse_key_def)
  moreover have "?k \<le> length (split_on CHR ''.'' (reverse_key q))" by (simp add: split_reverse_key ls)
  ultimately show "p \<in> set (sep_prefixes CHR ''.'' (reverse_key q))"
    by (auto simp: set_sep_prefixes intro!: exI [of _ ?k])
qed

lemma artifact_lookup_reverse:
  "artifact_lookup art (reverse_key q) =
     (if \<exists>d. suffix (split_on CHR ''.'' d) (split_on CHR ''.'' q) \<and> covering art (reverse_key q) (reverse_key d)
      then Some Block else None)"
proof -
  have "(\<exists>p \<in> set (sep_prefixes CHR ''.'' (reverse_key q)). covering art (reverse_key q) p) \<longleftrightarrow>
      (\<exists>d. suffix (split_on CHR ''.'' d) (split_on CHR ''.'' q) \<and> covering art (reverse_key q) (reverse_key d))"
    unfolding Bex_def sep_prefixes_reverse_key by blast
  then show ?thesis unfolding artifact_lookup_iff by (rule if_cong) (rule refl)+
qed

section \<open>From the build to the lookup\<close>

text \<open>What \<open>fst\<close> promises: a map built from strictly increasing keys opens to that map.\<close>

definition fst_contract :: "fst_encode \<Rightarrow> fst_open \<Rightarrow> bool" where
  "fst_contract fst_encode fst_open \<longleftrightarrow>
     (\<forall>kvs b. sorted_wrt (<) (map fst kvs) \<longrightarrow> fst_encode kvs = Some b \<longrightarrow> fst_open b = Some (map_of kvs))"

definition blocks :: "merged_entry list \<Rightarrow> string \<Rightarrow> bool" where
  "blocks entries q \<longleftrightarrow>
     (\<exists>d e. last_entry entries d = Some e \<and>
        (if me_scope e = Apex then suffix (split_on CHR ''.'' d) (split_on CHR ''.'' q) else d = q))"

lemma built_lookup:
  assumes b: "build fst_encode sha256 serialize ed_sign entries lic sources version time sks = Some (Inr art)"
    and fst: "fst_contract fst_encode fst_open" and m: "fst_open (fa_fst_bytes art) = Some m"
    and n: "length entries < 2 ^ 32"
    and ba: "ba_map ba = m" "ba_provenance ba = mf_provenance_table (fa_manifest art)"
  shows "artifact_lookup ba (reverse_key q) = (if blocks entries q then Some Block else None)"
proof -
  from b obtain table keyed where
    ap: "assign_provenance entries = Some (table, keyed)" and
    enc: "fst_encode (map (\<lambda>(key, uid). (key, ucast uid)) keyed) = Some (fa_fst_bytes art)" and
    tab: "mf_provenance_table (fa_manifest art) = table" by (rule build_InrD)
  from assign_provenance_correct [OF n] ap
  have inv: "bt_inv keyed" and get: "\<And>d. case last_entry entries d of
        None \<Rightarrow> bt_get keyed (reverse_key d) = None
      | Some e \<Rightarrow> \<exists>uid. bt_get keyed (reverse_key d) = Some uid \<and> unat uid < length table \<and>
          table ! unat uid = combo_of e" by auto
  have keys: "map fst (map (\<lambda>(key, uid). (key, ucast uid :: u64)) keyed) = map fst keyed"
    by (simp add: comp_def split_beta)
  have "fst_open (fa_fst_bytes art) = Some (map_of (map (\<lambda>(key, uid). (key, ucast uid)) keyed))"
    using fst enc inv keys unfolding fst_contract_def bt_inv_def by metis
  with m have m': "m = map_of (map (\<lambda>(key, uid). (key, ucast uid)) keyed)" by simp
  have mk: "m k = map_option ucast (bt_get keyed k)" for k
    unfolding m' bt_get_def by (induction keyed) auto
  have uc: "unat (ucast uid :: u64) = unat uid" for uid :: u32
    using unat_u32_bound [of uid] by (simp add: unsigned_ucast_eq take_bit_nat_eq_self)
  have cov: "covering ba (reverse_key q) (reverse_key d) \<longleftrightarrow>
      (\<exists>e. last_entry entries d = Some e \<and> (me_scope e = Apex \<or> d = q))" for d
  proof (cases "last_entry entries d")
    case None
    with get [of d] show ?thesis by (simp add: covering_def ba mk)
  next
    case (Some e)
    with get [of d] obtain uid where "bt_get keyed (reverse_key d) = Some uid" "unat uid < length table"
      "table ! unat uid = combo_of e" by auto
    then show ?thesis
      by (simp add: covering_def ba mk provenance_get_def tab uc combo_of_def Some reverse_key_inject)
  qed
  have "(\<exists>d. suffix (split_on CHR ''.'' d) (split_on CHR ''.'' q) \<and> covering ba (reverse_key q) (reverse_key d))
      \<longleftrightarrow> blocks entries q"
    unfolding cov blocks_def by auto
  then show ?thesis unfolding artifact_lookup_reverse by (rule if_cong) (rule refl)+
qed

text \<open>C32: looking a name up in the artifact a build produced answers \<open>Block\<close> exactly when
  the entries it was built from cover the name: an \<open>Apex\<close> entry covers every name its
  labels end, an exact entry only itself.\<close>

theorem built_artifact_lookup:
  assumes "build fst_encode sha256 serialize ed_sign entries lic sources version time sks = Some (Inr art)"
    and "fst_contract fst_encode fst_open" and "fst_open (fa_fst_bytes art) = Some m"
    and "length entries < 2 ^ 32"
  shows "artifact_lookup \<lparr>ba_map = m, ba_provenance = mf_provenance_table (fa_manifest art),
       ba_version = version\<rparr> (reverse_key q) = (if blocks entries q then Some Block else None)"
  by (rule built_lookup [OF assms]) simp_all

definition one_key_encode :: fst_encode where
  "one_key_encode kvs = (if kvs = [(''b.a'', 0)] then Some [1] else None)"

definition one_key_open :: fst_open where
  "one_key_open b = (if b = [1] then Some (map_of [(''b.a'', 0)]) else None)"

lemma one_key_contract: "fst_contract one_key_encode one_key_open"
  by (auto simp: fst_contract_def one_key_encode_def one_key_open_def split: if_splits)

abbreviation toy_serialize :: "manifest \<Rightarrow> bytes option" where
  "toy_serialize \<equiv> \<lambda>mf. Some [ucast (mf_version mf)]"

abbreviation toy_table :: "provenance_entry list" where
  "toy_table \<equiv> [\<lparr>pe_sources = [Ut1], pe_categories = [Adult], pe_scope = Apex\<rparr>]"

lemma toy_artifact:
  "\<exists>art. build one_key_encode (\<lambda>b. b) toy_serialize (\<lambda>k b. k # b) toy_entries (LicenseId ''MIT'') [] 3 0
      [(''k'', 5 :: u8)] = Some (Inr art) \<and>
    one_key_open (fa_fst_bytes art) = Some (map_of [(''b.a'', 0)]) \<and>
    mf_provenance_table (fa_manifest art) = toy_table"
proof -
  have "assign_provenance toy_entries = Some (toy_table, [(''b.a'', 0)])"
    by (simp add: assign_provenance_def toy_entries_def collect_combo_def canonical_ids_def combo_of_def
        prov_key_def bt_get_def reverse_key_def Let_def)
  then show ?thesis
    by (simp add: build_def build_fst_def signable_bytes_def one_key_encode_def one_key_open_def)
qed

lemma toy_blocks: "blocks toy_entries ''x.a.b''"
  unfolding blocks_def
  by (intro exI [of _ "''a.b''"]) (simp add: toy_entries_def last_entry_def suffix_def)

theorem built_artifact_lookup_witness:
  "artifact_lookup \<lparr>ba_map = map_of [(''b.a'', 0)], ba_provenance = toy_table, ba_version = 3\<rparr>
     (reverse_key ''x.a.b'') = Some Block"
proof -
  from toy_artifact obtain art where art: "build one_key_encode (\<lambda>b. b) toy_serialize (\<lambda>k b. k # b) toy_entries
      (LicenseId ''MIT'') [] 3 0 [(''k'', 5 :: u8)] = Some (Inr art)"
    and m: "one_key_open (fa_fst_bytes art) = Some (map_of [(''b.a'', 0)])"
    and t: "mf_provenance_table (fa_manifest art) = toy_table" by blast
  have n: "length toy_entries < 2 ^ 32" by (simp add: toy_entries_def)
  show ?thesis
    using built_artifact_lookup [OF art one_key_contract m n, of "''x.a.b''"] toy_blocks
    unfolding t by (simp only: if_True)
qed

section \<open>The allowlist\<close>

lemma suffix_after_dot_iff: "suffix_after_dot es n \<longleftrightarrow> (\<exists>p. \<exists>e \<in> es. n = p @ CHR ''.'' # e)"
proof (induction n)
  case (Cons b n)
  show ?case
  proof
    assume "suffix_after_dot es (b # n)"
    with Cons.IH show "\<exists>p. \<exists>e \<in> es. b # n = p @ CHR ''.'' # e"
      by (auto intro: exI [of _ "[]"]) (metis append_Cons)
  next
    assume "\<exists>p. \<exists>e \<in> es. b # n = p @ CHR ''.'' # e"
    then obtain p e where "e \<in> es" "b # n = p @ CHR ''.'' # e" by blast
    with Cons.IH show "suffix_after_dot es (b # n)" by (cases p) auto
  qed
qed simp

lemma allowlist_contains_iff:
  "allowlist_contains al n \<longleftrightarrow>
     (\<exists>e \<in> al_entries al. suffix (split_on CHR ''.'' e) (split_on CHR ''.'' n))"
  by (auto simp: allowlist_contains_def suffix_after_dot_iff suffix_split_iff)

lemma allowlist_from_entries_set:
  "al_entries (allowlist_from_entries to_ascii raws) =
     {k. \<exists>raw \<in> set raws. normalize to_ascii raw = Inr k}"
proof -
  have "al_entries (foldl (allowlist_insert to_ascii) al raws) =
      al_entries al \<union> {k. \<exists>raw \<in> set raws. normalize to_ascii raw = Inr k}" for al
    by (induction raws arbitrary: al) (auto simp: allowlist_insert_def split: sum.splits)
  then show ?thesis by (simp add: allowlist_from_entries_def)
qed

text \<open>A name is allowed by a list built from raw entries exactly when its labels end with
  the labels of some entry's key; an allowed name is allowed whatever the rules, keywords and
  artifact say, and otherwise they decide in that order.\<close>

theorem allowlist_precedence:
  "allowlist_contains (allowlist_from_entries to_ascii raws) n =
     (\<exists>raw \<in> set raws. \<exists>k. normalize to_ascii raw = Inr k \<and>
        suffix (split_on CHR ''.'' k) (split_on CHR ''.'' n)) \<and>
   resolve_action psls psld n al explicit keywords art =
     (if \<exists>e \<in> al_entries al. suffix (split_on CHR ''.'' e) (split_on CHR ''.'' n) then Some Allow
      else if rule_for explicit n \<noteq> None then rule_for explicit n
      else if keyword_matches psls psld keywords n \<noteq> None then Some Block
      else Option.bind art (\<lambda>a. artifact_lookup a (reverse_key n)))"
proof
  show "allowlist_contains (allowlist_from_entries to_ascii raws) n =
     (\<exists>raw \<in> set raws. \<exists>k. normalize to_ascii raw = Inr k \<and>
        suffix (split_on CHR ''.'' k) (split_on CHR ''.'' n))"
    by (auto simp: allowlist_contains_iff allowlist_from_entries_set)
  show "resolve_action psls psld n al explicit keywords art =
     (if \<exists>e \<in> al_entries al. suffix (split_on CHR ''.'' e) (split_on CHR ''.'' n) then Some Allow
      else if rule_for explicit n \<noteq> None then rule_for explicit n
      else if keyword_matches psls psld keywords n \<noteq> None then Some Block
      else Option.bind art (\<lambda>a. artifact_lookup a (reverse_key n)))"
    unfolding resolve_action_def allowlist_contains_iff by (simp split: option.split)
qed

end
