(* ===== verification/Decision_Cache.thy ===== *)
theory Decision_Cache
  imports Radix "HOL-Library.AList"
begin

text \<open>
  The fixed-capacity LRU of \<open>packages/net-shield/src/blocklist.rs\<close>. The \<open>HashMap\<close> is an
  association list with distinct keys, the \<open>VecDeque\<close> a list whose head is the least
  recently used key. Its specification is one list of entries in order of use.
\<close>

type_synonym decision = "filter_action option"

record lru_cache =
  lru_cap :: nat
  lru_map :: "(string \<times> decision) list"
  lru_order :: "string list"

definition lru_new :: "nat \<Rightarrow> lru_cache" where
  "lru_new cap = \<lparr>lru_cap = max cap 1, lru_map = [], lru_order = []\<rparr>"

definition lru_touch :: "lru_cache \<Rightarrow> string \<Rightarrow> lru_cache" where
  "lru_touch c key =
     (if key \<in> set (lru_order c) then c\<lparr>lru_order := remove1 key (lru_order c) @ [key]\<rparr> else c)"

definition lru_get :: "lru_cache \<Rightarrow> string \<Rightarrow> decision option \<times> lru_cache" where
  "lru_get c key =
     (case map_of (lru_map c) key of
        None \<Rightarrow> (None, c)
      | Some v \<Rightarrow> (Some v, lru_touch c key))"

definition lru_evict :: "lru_cache \<Rightarrow> lru_cache" where
  "lru_evict c =
     (if length (lru_map c) = lru_cap c then
        (case lru_order c of
           [] \<Rightarrow> c
         | oldest # order \<Rightarrow> c\<lparr>lru_order := order, lru_map := AList.delete oldest (lru_map c)\<rparr>)
      else c)"

definition lru_put :: "lru_cache \<Rightarrow> string \<Rightarrow> decision \<Rightarrow> lru_cache" where
  "lru_put c key v =
     (let c = (if map_of (lru_map c) key = None
               then (let c = lru_evict c in c\<lparr>lru_order := lru_order c @ [key]\<rparr>) else c);
          c = c\<lparr>lru_map := AList.update key v (lru_map c)\<rparr>
      in lru_touch c key)"

section \<open>Invariant and specification\<close>

definition lru_inv :: "lru_cache \<Rightarrow> bool" where
  "lru_inv c \<longleftrightarrow> 0 < lru_cap c \<and> distinct (map fst (lru_map c)) \<and> distinct (lru_order c) \<and>
     set (lru_order c) = fst ` set (lru_map c) \<and> length (lru_map c) \<le> lru_cap c"

definition lru_abs :: "lru_cache \<Rightarrow> (string \<times> decision) list" where
  "lru_abs c = map (\<lambda>k. (k, the (map_of (lru_map c) k))) (lru_order c)"

definition without :: "string \<Rightarrow> (string \<times> 'v) list \<Rightarrow> (string \<times> 'v) list" where
  "without k xs = filter (\<lambda>e. fst e \<noteq> k) xs"

text \<open>Using an entry moves it to the end; a new entry pushes out the first of a full list.\<close>

definition spec_use :: "string \<Rightarrow> (string \<times> 'v) list \<Rightarrow> (string \<times> 'v) list" where
  "spec_use k xs = (case map_of xs k of None \<Rightarrow> xs | Some v \<Rightarrow> without k xs @ [(k, v)])"

definition spec_put :: "nat \<Rightarrow> string \<Rightarrow> 'v \<Rightarrow> (string \<times> 'v) list \<Rightarrow> (string \<times> 'v) list" where
  "spec_put cap k v xs =
     (if map_of xs k = None \<and> length xs = cap then tl xs @ [(k, v)] else without k xs @ [(k, v)])"

lemma lru_lengths: "lru_inv c \<Longrightarrow> length (lru_order c) = length (lru_map c)"
  by (metis distinct_card length_map list.set_map lru_inv_def)

lemma lru_dom: "map_of (lru_map c) k = None \<longleftrightarrow> k \<notin> fst ` set (lru_map c)"
  by (simp add: map_of_eq_None_iff)

lemma map_of_lru_abs: "lru_inv c \<Longrightarrow> map_of (lru_abs c) k = map_of (lru_map c) k"
proof -
  assume inv: "lru_inv c"
  have "map_of (map (\<lambda>k. (k, f k)) ks) k = (if k \<in> set ks then Some (f k) else None)" for ks and f :: "string \<Rightarrow> decision"
    by (induction ks) auto
  with inv lru_dom [of c k] show ?thesis by (auto simp: lru_abs_def lru_inv_def)
qed

lemma distinct_remove1_filter: "distinct xs \<Longrightarrow> remove1 k xs = filter (\<lambda>x. x \<noteq> k) xs"
  by (simp add: distinct_remove1_removeAll removeAll_filter_not_eq) (rule filter_cong, auto)

lemma lru_inv_new: "lru_inv (lru_new cap)"
  by (simp add: lru_inv_def lru_new_def)

lemma lru_inv_touch: "lru_inv c \<Longrightarrow> lru_inv (lru_touch c k)"
  by (auto simp: lru_inv_def lru_touch_def)

lemma lru_abs_touch: "lru_inv c \<Longrightarrow> lru_abs (lru_touch c k) = spec_use k (lru_abs c)"
proof (cases "k \<in> set (lru_order c)")
  case True
  assume inv: "lru_inv c"
  with True obtain v where "map_of (lru_map c) k = Some v"
    using lru_dom [of c k] by (auto simp: lru_inv_def)
  with True inv show ?thesis
    by (simp add: spec_use_def map_of_lru_abs)
       (simp add: lru_abs_def lru_touch_def without_def distinct_remove1_filter lru_inv_def filter_map comp_def)
next
  case False
  assume inv: "lru_inv c"
  with False have "map_of (lru_map c) k = None" using lru_dom [of c k] by (auto simp: lru_inv_def)
  with False inv show ?thesis by (simp add: spec_use_def map_of_lru_abs lru_touch_def)
qed

lemma lru_get_spec:
  "lru_inv c \<Longrightarrow> fst (lru_get c k) = map_of (lru_abs c) k \<and>
     lru_abs (snd (lru_get c k)) = spec_use k (lru_abs c) \<and> lru_inv (snd (lru_get c k))"
  by (auto simp: lru_get_def map_of_lru_abs lru_abs_touch lru_inv_touch spec_use_def split: option.split)

lemma lru_get_cap [simp]: "lru_cap (snd (lru_get c k)) = lru_cap c"
  by (simp add: lru_get_def lru_touch_def split: option.split)

lemma length_update_old: "k \<in> fst ` set xs \<Longrightarrow> length (AList.update k v xs) = length xs"
  by (induction xs) auto

lemma length_update_new: "k \<notin> fst ` set xs \<Longrightarrow> AList.update k v xs = xs @ [(k, v)]"
  by (induction xs) auto

lemma lru_put_old:
  assumes inv: "lru_inv c" and some: "map_of (lru_map c) k \<noteq> None"
  shows "lru_inv (lru_put c k v) \<and> lru_abs (lru_put c k v) = spec_put (lru_cap c) k v (lru_abs c)"
proof -
  let ?c = "c\<lparr>lru_map := AList.update k v (lru_map c)\<rparr>"
  have k: "k \<in> set (lru_order c)" using some inv lru_dom [of c k] by (auto simp: lru_inv_def)
  have "length (AList.update k v (lru_map c)) = length (lru_map c)"
    using some by (intro length_update_old) (simp add: map_of_eq_None_iff)
  then have inv': "lru_inv ?c"
    using inv k by (auto simp: lru_inv_def dom_update distinct_update insert_absorb)
  have put: "lru_put c k v = lru_touch ?c k" using some by (auto simp: lru_put_def Let_def)
  have ab: "lru_abs ?c = map (\<lambda>(j, w). (j, if j = k then v else w)) (lru_abs c)"
    by (auto simp: lru_abs_def update_conv')
  have "without k (lru_abs ?c) = without k (lru_abs c)"
  proof -
    have "filter (\<lambda>e. fst e \<noteq> k) (map (\<lambda>(j, w). (j, if j = k then v else w)) xs) =
        filter (\<lambda>e. fst e \<noteq> k) xs" for xs :: "(string \<times> decision) list"
      by (induction xs) auto
    then show ?thesis by (simp add: ab without_def)
  qed
  moreover have "map_of (lru_abs ?c) k = Some v"
    by (simp add: map_of_lru_abs [OF inv'] update_conv')
  ultimately have "lru_abs (lru_touch ?c k) = without k (lru_abs c) @ [(k, v)]"
    by (simp add: lru_abs_touch [OF inv'] spec_use_def)
  then show ?thesis
    using some inv by (auto simp: put lru_inv_touch [OF inv'] spec_put_def map_of_lru_abs)
qed

lemma lru_evict_inv:
  assumes inv: "lru_inv c"
  shows "lru_inv (lru_evict c)" and "length (lru_map (lru_evict c)) < lru_cap c"
    and "lru_abs (lru_evict c) = (if length (lru_abs c) = lru_cap c then tl (lru_abs c) else lru_abs c)"
    and "lru_cap (lru_evict c) = lru_cap c"
    and "map_of (lru_map c) k = None \<Longrightarrow> map_of (lru_map (lru_evict c)) k = None"
proof -
  have len: "length (lru_abs c) = length (lru_map c)" by (simp add: lru_abs_def lru_lengths [OF inv])
  show "lru_cap (lru_evict c) = lru_cap c" by (simp add: lru_evict_def split: list.split)
  show "map_of (lru_map c) k = None \<Longrightarrow> map_of (lru_map (lru_evict c)) k = None"
    by (auto simp: lru_evict_def delete_conv' split: list.split)
  have "lru_inv (lru_evict c) \<and> length (lru_map (lru_evict c)) < lru_cap c \<and>
      lru_abs (lru_evict c) = (if length (lru_abs c) = lru_cap c then tl (lru_abs c) else lru_abs c)"
  proof (cases "length (lru_map c) = lru_cap c")
    case False
    with inv len show ?thesis by (simp add: lru_evict_def lru_inv_def)
  next
    case True
    with inv obtain old rest where o: "lru_order c = old # rest"
      using lru_lengths [OF inv] by (cases "lru_order c") (auto simp: lru_inv_def)
    let ?m = "AList.delete old (lru_map c)"
    have ev: "lru_evict c = c\<lparr>lru_order := rest, lru_map := ?m\<rparr>" by (simp add: lru_evict_def True o)
    have old: "old \<in> fst ` set (lru_map c)" using inv o by (auto simp: lru_inv_def)
    have "length ?m < length (lru_map c)"
    proof -
      have "length (AList.delete old xs) < length xs" if "old \<in> fst ` set xs" for xs :: "(string \<times> decision) list"
        using that
      proof (induction xs)
        case (Cons p ps)
        have le: "length (AList.delete old ps) \<le> length ps" by (rule length_delete_le)
        show ?case
        proof (cases "fst p = old")
          case True with le show ?thesis by (cases p) (simp add: less_Suc_eq_le)
        next
          case False
          with Cons.prems have "old \<in> fst ` set ps" by auto
          from Cons.IH [OF this] False show ?thesis by (cases p) simp
        qed
      qed simp
      then show ?thesis using old .
    qed
    moreover have ev_keys: "fst ` set ?m = fst ` set (lru_map c) - {old}"
      using delete_keys [of old "lru_map c"] by (metis list.set_map set_removeAll)
    moreover have "lru_abs (lru_evict c) = tl (lru_abs c)"
      using inv o by (auto simp: lru_abs_def ev lru_inv_def delete_conv')
    moreover have "set rest = fst ` set ?m"
      using inv o by (auto simp: lru_inv_def ev_keys)
    ultimately show ?thesis
      using inv o True len by (simp add: ev lru_inv_def distinct_delete)
  qed
  then show "lru_inv (lru_evict c)" "length (lru_map (lru_evict c)) < lru_cap c"
    "lru_abs (lru_evict c) = (if length (lru_abs c) = lru_cap c then tl (lru_abs c) else lru_abs c)" by blast+
qed

lemma lru_put_new:
  assumes inv: "lru_inv c" and none: "map_of (lru_map c) k = None"
  shows "lru_inv (lru_put c k v) \<and> lru_abs (lru_put c k v) = spec_put (lru_cap c) k v (lru_abs c)"
proof -
  note ev = lru_evict_inv [OF inv]
  let ?e = "lru_evict c"
  have fresh: "k \<notin> fst ` set (lru_map ?e)" using ev(5) [OF none] lru_dom [of ?e k] by blast
  have ord: "k \<notin> set (lru_order ?e)" using fresh ev(1) by (simp add: lru_inv_def)
  have upd: "AList.update k v (lru_map ?e) = lru_map ?e @ [(k, v)]" by (rule length_update_new [OF fresh])
  have "lru_put c k v = ?e\<lparr>lru_order := lru_order ?e @ [k], lru_map := lru_map ?e @ [(k, v)]\<rparr>"
    using none ord by (simp add: lru_put_def Let_def upd lru_touch_def remove1_append)
  moreover have "lru_inv (?e\<lparr>lru_order := lru_order ?e @ [k], lru_map := lru_map ?e @ [(k, v)]\<rparr>)"
    using ev(1,2,4) fresh ord by (auto simp: lru_inv_def)
  moreover have "lru_abs (?e\<lparr>lru_order := lru_order ?e @ [k], lru_map := lru_map ?e @ [(k, v)]\<rparr>) =
      lru_abs ?e @ [(k, v)]"
    using ord lru_dom [of ?e k] fresh by (auto simp: lru_abs_def map_add_def split: option.split)
  moreover have "without k (lru_abs c) = lru_abs c"
    using none inv lru_dom [of c k] by (auto simp: without_def lru_abs_def lru_inv_def filter_id_conv)
  ultimately show ?thesis using none ev(3) by (simp add: spec_put_def map_of_lru_abs [OF inv])
qed

lemma lru_put_spec:
  "lru_inv c \<Longrightarrow> lru_inv (lru_put c k v) \<and> lru_abs (lru_put c k v) = spec_put (lru_cap c) k v (lru_abs c)"
  using lru_put_old lru_put_new by blast

lemma lru_put_cap [simp]: "lru_cap (lru_put c k v) = lru_cap c"
  by (simp add: lru_put_def lru_touch_def lru_evict_def Let_def split: list.split)

section \<open>What a client relies on\<close>

text \<open>A bounded cache may forget entries, but it never makes one up: whatever holds of all its
  entries and of a decision put into it keeps holding, and is true of every decision returned.\<close>

locale decision_cache =
  fixes inv :: "'c \<Rightarrow> bool" and entries :: "'c \<Rightarrow> (string \<times> 'v) set"
    and get :: "'c \<Rightarrow> string \<Rightarrow> 'v option \<times> 'c" and put :: "'c \<Rightarrow> string \<Rightarrow> 'v \<Rightarrow> 'c"
  assumes put_inv: "inv c \<Longrightarrow> inv (put c k v)"
    and put_entries: "inv c \<Longrightarrow> entries (put c k v) \<subseteq> insert (k, v) (entries c)"
    and get_inv: "inv c \<Longrightarrow> inv (snd (get c k))"
    and get_entries: "inv c \<Longrightarrow> entries (snd (get c k)) \<subseteq> entries c"
    and get_found: "inv c \<Longrightarrow> fst (get c k) = Some v \<Longrightarrow> (k, v) \<in> entries c"
begin

lemma put_keeps:
  assumes "inv c" "\<And>j w. (j, w) \<in> entries c \<Longrightarrow> P j w" "P k v" "(j, w) \<in> entries (put c k v)"
  shows "P j w"
  using assms put_entries [OF assms(1), of k v] by auto

lemma get_keeps:
  assumes "inv c" "\<And>j w. (j, w) \<in> entries c \<Longrightarrow> P j w" "(j, w) \<in> entries (snd (get c k))"
  shows "P j w"
  using assms get_entries [OF assms(1), of k] by auto

lemma get_sound:
  assumes "inv c" "\<And>j w. (j, w) \<in> entries c \<Longrightarrow> P j w" "fst (get c k) = Some v"
  shows "P k v"
  using assms get_found by blast

end

lemma set_tl: "set (tl xs) \<subseteq> set xs"
  by (cases xs) auto

lemma set_without: "set (without k xs) \<subseteq> set xs"
  by (auto simp: without_def)

interpretation lru: decision_cache lru_inv "\<lambda>c. set (lru_abs c)" lru_get lru_put
proof (unfold_locales, goal_cases)
  case (1 c k v) then show ?case using lru_put_spec by blast
next
  case (2 c k v)
  have "set (spec_put (lru_cap c) k v (lru_abs c)) \<subseteq> insert (k, v) (set (lru_abs c))"
    using set_without [of k "lru_abs c"] set_tl [of "lru_abs c"] by (auto simp: spec_put_def)
  then show ?case using lru_put_spec [OF 2, of k v] by simp
next
  case (3 c k) then show ?case using lru_get_spec by blast
next
  case (4 c k)
  have "set (spec_use k (lru_abs c)) \<subseteq> set (lru_abs c)"
    using set_without [of k "lru_abs c"] by (auto simp: spec_use_def dest: map_of_SomeD split: option.splits)
  then show ?case using lru_get_spec [OF 4, of k] by simp
next
  case (5 c k v) then show ?case using lru_get_spec [OF 5(1), of k] by (simp add: map_of_SomeD)
qed

text \<open>C39: the cache implements the list of its entries in order of use: both operations keep
  the invariant, return and move what the list does, evict its first entry when a new key
  meets a full cache, and never hold more than the capacity.\<close>

theorem lru_refines:
  assumes "lru_inv c"
  shows "lru_inv (lru_put c k v) \<and> lru_inv (snd (lru_get c k)) \<and>
     lru_abs (lru_put c k v) = spec_put (lru_cap c) k v (lru_abs c) \<and>
     fst (lru_get c k) = map_of (lru_abs c) k \<and>
     lru_abs (snd (lru_get c k)) = spec_use k (lru_abs c) \<and> length (lru_abs c) \<le> lru_cap c"
  using assms lru_put_spec [OF assms] lru_get_spec [OF assms] lru_lengths [OF assms]
  by (auto simp: lru_abs_def lru_inv_def)

theorem lru_refines_witness:
  "lru_abs (lru_put (lru_put (lru_new 1) ''a'' None) ''b'' (Some Block)) = [(''b'', Some Block)]"
proof -
  let ?c = "lru_put (lru_new 1) ''a'' None"
  have inv: "lru_inv ?c" using lru_put_spec [OF lru_inv_new] by blast
  have "lru_abs ?c = [(''a'', None)]" "lru_cap ?c = 1" by code_simp+
  with lru_refines [OF inv, of "''b''" "Some Block"] show ?thesis by (simp add: spec_put_def)
qed

end
