(* ===== verification/Lookup_Worker.thy ===== *)
theory Lookup_Worker
  imports Artifact Decision_Cache
begin

text \<open>
  The bounded-latency lookup (\<open>BlocklistLookup\<close> and its \<open>Worker\<close>, \<open>net-shield/src/blocklist.rs\<close>):
  caller threads and one worker thread over a shared cache, an in-flight table and a bounded
  channel.  Every event below is one atomic region of the code: a locked block, a channel
  operation, or the counter update next to it.  \<open>exec_event\<close> runs one event and is \<open>None\<close>
  when the event cannot happen in that state; any interleaving is a list of events.
\<close>

section \<open>State\<close>

definition CHANNEL_CAPACITY :: nat where "CHANNEL_CAPACITY = 1024"

text \<open>Where the worker stands inside \<open>handle_lookup\<close>: it has a decision, has cached it, has counted
  it, or is sending it to the waiters it drained.\<close>

datatype worker_phase =
  Idle
| Decided string decision
| Stored string decision
| Counted string decision
| Sending decision "nat list"

text \<open>Where a caller stands inside \<open>lookup\<close>, with the normalized name it asks about.\<close>

datatype caller_phase =
  Checking string
| Missed string
| Enqueuing string
| Refused string
| Waiting string
| Expired string
| Returned string filter_action

primrec asked :: "caller_phase \<Rightarrow> string" where
  "asked (Checking d) = d"
| "asked (Missed d) = d"
| "asked (Enqueuing d) = d"
| "asked (Refused d) = d"
| "asked (Waiting d) = d"
| "asked (Expired d) = d"
| "asked (Returned d a) = d"

record lookup_state =
  channel :: "string list"
  inflight :: "string \<rightharpoonup> nat list"
  cache :: lru_cache
  worker :: worker_phase
  callers :: "nat \<rightharpoonup> caller_phase"
  inbox :: "nat \<rightharpoonup> decision"
  fallback_count :: u64
  worker_requests :: u64
  panics :: u64

definition spawn :: "nat \<Rightarrow> lookup_state" where
  "spawn cache_capacity =
     \<lparr>channel = [], inflight = Map.empty, cache = lru_new cache_capacity, worker = Idle,
      callers = Map.empty, inbox = Map.empty, fallback_count = 0, worker_requests = 0, panics = 0\<rparr>"

datatype event =
  Call nat string
| CheckCache nat
| Register nat
| TrySend nat
| Undo nat
| Receive nat
| Expire nat
| Fallback nat
| WorkerTake bool
| WorkerStore
| WorkerCount
| WorkerDrain
| WorkerSend

section \<open>Events\<close>

definition to_action :: "decision \<Rightarrow> filter_action" where
  "to_action d = (case d of None \<Rightarrow> Proxy | Some a \<Rightarrow> a)"

definition goto :: "nat \<Rightarrow> caller_phase \<Rightarrow> lookup_state \<Rightarrow> lookup_state" where
  "goto c p s = s\<lparr>callers := (callers s)(c \<mapsto> p)\<rparr>"

definition note_fallback :: "lookup_state \<Rightarrow> lookup_state" where
  "note_fallback s = s\<lparr>fallback_count := fallback_count s + 1\<rparr>"

text \<open>The caller's side.\<close>

definition check_cache :: "nat \<Rightarrow> string \<Rightarrow> lookup_state \<Rightarrow> lookup_state" where
  "check_cache c d s =
     (let (hit, cache') = lru_get (cache s) d; s = s\<lparr>cache := cache'\<rparr>
      in case hit of Some dec \<Rightarrow> goto c (Returned d (to_action dec)) s | None \<Rightarrow> goto c (Missed d) s)"

definition register :: "nat \<Rightarrow> string \<Rightarrow> lookup_state \<Rightarrow> lookup_state" where
  "register c d s =
     (case inflight s d of
        Some waiters \<Rightarrow> goto c (Waiting d) (s\<lparr>inflight := (inflight s)(d \<mapsto> waiters @ [c])\<rparr>)
      | None \<Rightarrow> goto c (Enqueuing d) (s\<lparr>inflight := (inflight s)(d \<mapsto> [c])\<rparr>))"

definition try_send :: "nat \<Rightarrow> string \<Rightarrow> lookup_state \<Rightarrow> lookup_state" where
  "try_send c d s =
     (if length (channel s) < CHANNEL_CAPACITY
      then goto c (Waiting d) (s\<lparr>channel := channel s @ [d]\<rparr>) else goto c (Refused d) s)"

definition undo :: "nat \<Rightarrow> string \<Rightarrow> lookup_state \<Rightarrow> lookup_state" where
  "undo c d s = goto c (Returned d Proxy) (note_fallback (s\<lparr>inflight := (inflight s)(d := None)\<rparr>))"

definition fall_back :: "nat \<Rightarrow> string \<Rightarrow> lookup_state \<Rightarrow> lookup_state" where
  "fall_back c d s =
     (let (hit, cache') = lru_get (cache s) d; s = s\<lparr>cache := cache'\<rparr>
      in goto c (Returned d (case hit of Some dec \<Rightarrow> to_action dec | None \<Rightarrow> Proxy)) s)"

text \<open>The worker's side: one message of \<open>run\<close>, \<open>handle_lookup\<close> in its order.\<close>

definition decide :: "artifact \<Rightarrow> bool \<Rightarrow> string \<Rightarrow> lookup_state \<Rightarrow> lookup_state" where
  "decide a panicked d s =
     (if panicked then s\<lparr>panics := panics s + 1, worker := Decided d None\<rparr>
      else s\<lparr>worker := Decided d (artifact_lookup a (reverse_key d))\<rparr>)"

definition drain :: "string \<Rightarrow> decision \<Rightarrow> lookup_state \<Rightarrow> lookup_state" where
  "drain d dec s =
     s\<lparr>worker := Sending dec (case inflight s d of None \<Rightarrow> [] | Some ws \<Rightarrow> ws),
       inflight := (inflight s)(d := None)\<rparr>"

definition exec_event :: "artifact \<Rightarrow> event \<Rightarrow> lookup_state \<Rightarrow> lookup_state option" where
  "exec_event a e s =
     (case e of
        Call c d \<Rightarrow> (case callers s c of None \<Rightarrow> Some (goto c (Checking d) s) | _ \<Rightarrow> None)
      | CheckCache c \<Rightarrow> (case callers s c of Some (Checking d) \<Rightarrow> Some (check_cache c d s) | _ \<Rightarrow> None)
      | Register c \<Rightarrow> (case callers s c of Some (Missed d) \<Rightarrow> Some (register c d s) | _ \<Rightarrow> None)
      | TrySend c \<Rightarrow> (case callers s c of Some (Enqueuing d) \<Rightarrow> Some (try_send c d s) | _ \<Rightarrow> None)
      | Undo c \<Rightarrow> (case callers s c of Some (Refused d) \<Rightarrow> Some (undo c d s) | _ \<Rightarrow> None)
      | Receive c \<Rightarrow>
          (case (callers s c, inbox s c) of
             (Some (Waiting d), Some dec) \<Rightarrow> Some (goto c (Returned d (to_action dec)) s) | _ \<Rightarrow> None)
      | Expire c \<Rightarrow>
          (case (callers s c, inbox s c) of
             (Some (Waiting d), None) \<Rightarrow> Some (goto c (Expired d) (note_fallback s)) | _ \<Rightarrow> None)
      | Fallback c \<Rightarrow> (case callers s c of Some (Expired d) \<Rightarrow> Some (fall_back c d s) | _ \<Rightarrow> None)
      | WorkerTake panicked \<Rightarrow>
          (case (worker s, channel s) of
             (Idle, d # rest) \<Rightarrow> Some (decide a panicked d (s\<lparr>channel := rest\<rparr>)) | _ \<Rightarrow> None)
      | WorkerStore \<Rightarrow>
          (case worker s of
             Decided d dec \<Rightarrow> Some (s\<lparr>cache := lru_put (cache s) d dec, worker := Stored d dec\<rparr>) | _ \<Rightarrow> None)
      | WorkerCount \<Rightarrow>
          (case worker s of
             Stored d dec \<Rightarrow> Some (s\<lparr>worker_requests := worker_requests s + 1, worker := Counted d dec\<rparr>)
           | _ \<Rightarrow> None)
      | WorkerDrain \<Rightarrow> (case worker s of Counted d dec \<Rightarrow> Some (drain d dec s) | _ \<Rightarrow> None)
      | WorkerSend \<Rightarrow>
          (case worker s of
             Sending dec (c # ws) \<Rightarrow> Some (s\<lparr>inbox := (inbox s)(c \<mapsto> dec), worker := Sending dec ws\<rparr>)
           | Sending dec [] \<Rightarrow> Some (s\<lparr>worker := Idle\<rparr>)
           | _ \<Rightarrow> None))"

fun exec_events :: "artifact \<Rightarrow> event list \<Rightarrow> lookup_state \<Rightarrow> lookup_state option" where
  "exec_events a [] s = Some s"
| "exec_events a (e # es) s = (case exec_event a e s of None \<Rightarrow> None | Some t \<Rightarrow> exec_events a es t)"

inductive reachable :: "artifact \<Rightarrow> nat \<Rightarrow> lookup_state \<Rightarrow> bool" for a n where
  start: "reachable a n (spawn n)"
| step: "reachable a n s \<Longrightarrow> exec_event a e s = Some t \<Longrightarrow> reachable a n t"

text \<open>What an event that happens does, one case per branch of the code.\<close>

lemma exec_event_cases [consumes 1, case_names Call Hit Miss Attach Insert Sent Full Undo Receive Expire Fallback
    Panic Decide Store Count Drain Send Finish]:
  assumes "exec_event a e s = Some t"
  obtains c d where "e = Call c d" "callers s c = None" "t = goto c (Checking d) s"
  | c d dec where "e = CheckCache c" "callers s c = Some (Checking d)" "fst (lru_get (cache s) d) = Some dec"
      "t = goto c (Returned d (to_action dec)) (s\<lparr>cache := snd (lru_get (cache s) d)\<rparr>)"
  | c d where "e = CheckCache c" "callers s c = Some (Checking d)" "fst (lru_get (cache s) d) = None"
      "t = goto c (Missed d) (s\<lparr>cache := snd (lru_get (cache s) d)\<rparr>)"
  | c d ws where "e = Register c" "callers s c = Some (Missed d)" "inflight s d = Some ws"
      "t = goto c (Waiting d) (s\<lparr>inflight := (inflight s)(d \<mapsto> ws @ [c])\<rparr>)"
  | c d where "e = Register c" "callers s c = Some (Missed d)" "inflight s d = None"
      "t = goto c (Enqueuing d) (s\<lparr>inflight := (inflight s)(d \<mapsto> [c])\<rparr>)"
  | c d where "e = TrySend c" "callers s c = Some (Enqueuing d)" "length (channel s) < CHANNEL_CAPACITY"
      "t = goto c (Waiting d) (s\<lparr>channel := channel s @ [d]\<rparr>)"
  | c d where "e = TrySend c" "callers s c = Some (Enqueuing d)" "\<not> length (channel s) < CHANNEL_CAPACITY"
      "t = goto c (Refused d) s"
  | c d where "e = Undo c" "callers s c = Some (Refused d)" "t = undo c d s"
  | c d dec where "e = Receive c" "callers s c = Some (Waiting d)" "inbox s c = Some dec"
      "t = goto c (Returned d (to_action dec)) s"
  | c d where "e = Expire c" "callers s c = Some (Waiting d)" "inbox s c = None"
      "t = goto c (Expired d) (note_fallback s)"
  | c d x where "e = Fallback c" "callers s c = Some (Expired d)"
      "x = (case fst (lru_get (cache s) d) of Some dec \<Rightarrow> to_action dec | None \<Rightarrow> Proxy)"
      "t = goto c (Returned d x) (s\<lparr>cache := snd (lru_get (cache s) d)\<rparr>)"
  | d rest where "e = WorkerTake True" "worker s = Idle" "channel s = d # rest"
      "t = s\<lparr>channel := rest, panics := panics s + 1, worker := Decided d None\<rparr>"
  | d rest where "e = WorkerTake False" "worker s = Idle" "channel s = d # rest"
      "t = s\<lparr>channel := rest, worker := Decided d (artifact_lookup a (reverse_key d))\<rparr>"
  | d dec where "e = WorkerStore" "worker s = Decided d dec"
      "t = s\<lparr>cache := lru_put (cache s) d dec, worker := Stored d dec\<rparr>"
  | d dec where "e = WorkerCount" "worker s = Stored d dec"
      "t = s\<lparr>worker_requests := worker_requests s + 1, worker := Counted d dec\<rparr>"
  | d dec where "e = WorkerDrain" "worker s = Counted d dec" "t = drain d dec s"
  | dec c ws where "e = WorkerSend" "worker s = Sending dec (c # ws)"
      "t = s\<lparr>inbox := (inbox s)(c \<mapsto> dec), worker := Sending dec ws\<rparr>"
  | dec where "e = WorkerSend" "worker s = Sending dec []" "t = s\<lparr>worker := Idle\<rparr>"
proof (cases e)
  case (Call c d) with assms that(1) show ?thesis by (simp add: exec_event_def split: option.splits)
next
  case (CheckCache c)
  with assms that(2,3) show ?thesis
    by (auto simp: exec_event_def check_cache_def Let_def case_prod_beta split: option.splits caller_phase.splits)
next
  case (Register c)
  with assms that(4,5) show ?thesis
    by (auto simp: exec_event_def register_def split: option.splits caller_phase.splits)
next
  case (TrySend c)
  with assms that(6,7) show ?thesis
    by (auto simp: exec_event_def try_send_def split: option.splits caller_phase.splits if_splits)
next
  case (Undo c) with assms that(8) show ?thesis by (auto simp: exec_event_def split: option.splits caller_phase.splits)
next
  case (Receive c)
  with assms that(9) show ?thesis by (auto simp: exec_event_def split: option.splits caller_phase.splits)
next
  case (Expire c)
  with assms that(10) show ?thesis by (auto simp: exec_event_def split: option.splits caller_phase.splits)
next
  case (Fallback c)
  with assms that(11) show ?thesis
    by (auto simp: exec_event_def fall_back_def Let_def case_prod_beta split: option.splits caller_phase.splits)
next
  case (WorkerTake p)
  with assms that(12,13) show ?thesis
    by (cases p) (auto simp: exec_event_def decide_def split: worker_phase.splits list.splits)
next
  case WorkerStore with assms that(14) show ?thesis by (auto simp: exec_event_def split: worker_phase.splits)
next
  case WorkerCount with assms that(15) show ?thesis by (auto simp: exec_event_def split: worker_phase.splits)
next
  case WorkerDrain with assms that(16) show ?thesis by (auto simp: exec_event_def split: worker_phase.splits)
next
  case WorkerSend
  with assms that(17,18) show ?thesis by (auto simp: exec_event_def split: worker_phase.splits list.splits)
qed

section \<open>Answers are sound\<close>

text \<open>A decision is right for a name when it is the artifact's, or no decision at all.\<close>

definition right :: "artifact \<Rightarrow> string \<Rightarrow> decision \<Rightarrow> bool" where
  "right a d v \<longleftrightarrow> v = None \<or> v = artifact_lookup a (reverse_key d)"

definition name_of :: "lookup_state \<Rightarrow> nat \<rightharpoonup> string" where
  "name_of s = (\<lambda>c. map_option asked (callers s c))"

text \<open>The invariant, for any relation \<open>P\<close> between a name and what may be decided of it: every decision
  in the cache, at the worker or delivered to a caller is one for its own name.\<close>

primrec worker_right :: "(string \<Rightarrow> decision \<Rightarrow> bool) \<Rightarrow> (nat \<rightharpoonup> string) \<Rightarrow> worker_phase \<Rightarrow> bool" where
  "worker_right P names Idle \<longleftrightarrow> True"
| "worker_right P names (Decided d v) \<longleftrightarrow> P d v"
| "worker_right P names (Stored d v) \<longleftrightarrow> P d v"
| "worker_right P names (Counted d v) \<longleftrightarrow> P d v"
| "worker_right P names (Sending v ws) \<longleftrightarrow> (\<forall>c\<in>set ws. \<exists>d. names c = Some d \<and> P d v)"

definition decisions_right :: "(string \<Rightarrow> decision \<Rightarrow> bool) \<Rightarrow> lookup_state \<Rightarrow> bool" where
  "decisions_right P s \<longleftrightarrow>
     lru_inv (cache s) \<and> (\<forall>d v. (d, v) \<in> set (lru_abs (cache s)) \<longrightarrow> P d v) \<and>
     worker_right P (name_of s) (worker s) \<and>
     (\<forall>d ws c. inflight s d = Some ws \<longrightarrow> c \<in> set ws \<longrightarrow> name_of s c = Some d) \<and>
     (\<forall>c v. inbox s c = Some v \<longrightarrow> (\<exists>d. name_of s c = Some d \<and> P d v))"

text \<open>What the worker decides in a step is in \<open>P\<close>: the artifact's answer, or nothing after a panic.\<close>

definition decides_in :: "artifact \<Rightarrow> (string \<Rightarrow> decision \<Rightarrow> bool) \<Rightarrow> event \<Rightarrow> bool" where
  "decides_in a P e \<longleftrightarrow> (\<forall>d. P d (artifact_lookup a (reverse_key d))) \<and> (e = WorkerTake True \<longrightarrow> (\<forall>d. P d None))"

definition answers_right :: "artifact \<Rightarrow> lookup_state \<Rightarrow> bool" where
  "answers_right a s \<longleftrightarrow> decisions_right (right a) s \<and>
     (\<forall>c d x. callers s c = Some (Returned d x) \<longrightarrow> x = Proxy \<or> artifact_lookup a (reverse_key d) = Some x)"

lemma name_of_goto [simp]: "name_of (goto c p s) = (name_of s)(c \<mapsto> asked p)"
  by (auto simp: name_of_def goto_def)

lemma name_of_cong: "callers t = callers s \<Longrightarrow> name_of t = name_of s"
  by (simp add: name_of_def)

lemma goto_sel [simp]:
  "callers (goto c p s) = (callers s)(c \<mapsto> p)" "cache (goto c p s) = cache s" "worker (goto c p s) = worker s"
  "inflight (goto c p s) = inflight s" "inbox (goto c p s) = inbox s" "channel (goto c p s) = channel s"
  by (simp_all add: goto_def)

lemma note_fallback_sel [simp]:
  "callers (note_fallback s) = callers s" "cache (note_fallback s) = cache s" "worker (note_fallback s) = worker s"
  "inflight (note_fallback s) = inflight s" "inbox (note_fallback s) = inbox s" "channel (note_fallback s) = channel s"
  by (simp_all add: note_fallback_def)

lemma right_None [simp]: "right a d None"
  by (simp add: right_def)

lemma right_lookup [simp]: "right a d (artifact_lookup a (reverse_key d))"
  by (simp add: right_def)

lemma right_action: "right a d v \<Longrightarrow> to_action v = Proxy \<or> artifact_lookup a (reverse_key d) = Some (to_action v)"
  by (auto simp: right_def to_action_def split: option.splits)

text \<open>A step never renames a caller.\<close>

lemma name_of_mono:
  assumes "exec_event a e s = Some t" shows "name_of s \<subseteq>\<^sub>m name_of t"
  using assms by (cases rule: exec_event_cases) (auto simp: name_of_def goto_def note_fallback_def undo_def drain_def map_le_def)

lemma worker_right_mono: "worker_right P m w \<Longrightarrow> m \<subseteq>\<^sub>m m' \<Longrightarrow> worker_right P m' w"
  by (cases w) (fastforce simp: map_le_def dom_def)+

lemma cache_right_step:
  assumes "exec_event a e s = Some t" "decisions_right P s"
  shows "lru_inv (cache t) \<and> (\<forall>d v. (d, v) \<in> set (lru_abs (cache t)) \<longrightarrow> P d v)"
proof -
  have inv: "lru_inv (cache s)" and r: "\<And>d v. (d, v) \<in> set (lru_abs (cache s)) \<Longrightarrow> P d v"
    and w: "worker_right P (name_of s) (worker s)"
    using assms(2) by (auto simp: decisions_right_def)
  note got = lru.get_inv [OF inv] lru.get_keeps [OF inv r]
  from assms(1) show ?thesis
  proof (cases rule: exec_event_cases)
    case (Store d dec)
    with w have "P d dec" by simp
    with Store inv r show ?thesis using lru.put_inv [OF inv] lru.put_keeps [OF inv, of P] by auto
  qed (use inv r got in \<open>auto simp: undo_def drain_def\<close>)
qed

lemma worker_right_step:
  assumes "exec_event a e s = Some t" "decisions_right P s" "decides_in a P e"
  shows "worker_right P (name_of t) (worker t)"
proof -
  have old: "worker_right P (name_of t) (worker s)"
    using assms name_of_mono by (auto simp: decisions_right_def intro: worker_right_mono)
  from assms(1) show ?thesis
  proof (cases rule: exec_event_cases)
    case (Drain d dec)
    then have "name_of t = name_of s" by (simp add: drain_def name_of_def)
    with Drain old assms(2) have "P d dec" "\<And>c ws. inflight s d = Some ws \<Longrightarrow> c \<in> set ws \<Longrightarrow> name_of t c = Some d"
      by (auto simp: decisions_right_def)
    with Drain show ?thesis by (cases "inflight s d") (auto simp: drain_def)
  qed (use old assms(3) in \<open>auto simp: undo_def decides_in_def\<close>)
qed

lemma waiters_named_step:
  assumes "exec_event a e s = Some t" "decisions_right P s" "inflight t d = Some ws" "c \<in> set ws"
  shows "name_of t c = Some d"
proof -
  have old: "name_of t c = Some d" if "inflight s d = Some vs" "c \<in> set vs" for vs
    using that name_of_mono [OF assms(1)] assms(2) by (auto simp: decisions_right_def map_le_def dom_def)
  from assms(1) show ?thesis
  proof (cases rule: exec_event_cases)
    case (Attach c' d' ws')
    with assms(3,4) old show ?thesis by (cases "d = d'"; cases "c = c'") auto
  next
    case (Insert c' d')
    with assms(3,4) old show ?thesis by (cases "d = d'"; cases "c = c'") auto
  qed (use assms(3,4) old in \<open>auto simp: undo_def drain_def split: if_splits\<close>)
qed

lemma inbox_right_step:
  assumes "exec_event a e s = Some t" "decisions_right P s" "inbox t c = Some v"
  shows "\<exists>d. name_of t c = Some d \<and> P d v"
proof -
  have old: "\<exists>d. name_of t c = Some d \<and> P d u" if u: "inbox s c = Some u" for u
  proof -
    from assms(2) u obtain d where d: "name_of s c = Some d" "P d u"
      unfolding decisions_right_def by blast
    with name_of_mono [OF assms(1)] have "name_of t c = Some d" by (force simp: map_le_def)
    with d show ?thesis by blast
  qed
  from assms(1) show ?thesis
  proof (cases rule: exec_event_cases)
    case (Send dec c' ws)
    then have same: "name_of t = name_of s" by (simp add: name_of_def)
    from assms(2) Send(2) have "\<exists>d. name_of s c' = Some d \<and> P d dec" by (simp add: decisions_right_def)
    with Send(3) assms(3) old same show ?thesis by (cases "c = c'") simp_all
  qed (use assms(3) old in \<open>simp_all add: undo_def drain_def\<close>)
qed

lemma decisions_right_step:
  assumes "exec_event a e s = Some t" "decisions_right P s" "decides_in a P e" shows "decisions_right P t"
  unfolding decisions_right_def [of P t]
  using cache_right_step [OF assms(1,2)] worker_right_step [OF assms] waiters_named_step [OF assms(1,2)]
    inbox_right_step [OF assms(1,2)] by blast

text \<open>Where a call's answer comes from: a decision for its name, or a caller that gave up, because the
  queue was full or its budget was over.\<close>

lemma returned_step:
  assumes "exec_event a e s = Some t" "decisions_right P s" "callers t c = Some (Returned d x)"
  shows "callers s c = Some (Returned d x) \<or> (\<exists>v. P d v \<and> x = to_action v) \<or>
    e = Undo c \<and> x = Proxy \<or> callers s c = Some (Expired d) \<and> x = Proxy"
proof -
  have inv: "lru_inv (cache s)" and r: "\<And>d v. (d, v) \<in> set (lru_abs (cache s)) \<Longrightarrow> P d v"
    and box: "\<And>c v. inbox s c = Some v \<Longrightarrow> \<exists>d. name_of s c = Some d \<and> P d v"
    using assms(2) by (auto simp: decisions_right_def)
  have got: "fst (lru_get (cache s) k) = Some v \<Longrightarrow> P k v" for k v
    using lru.get_sound [OF inv, where P = P] r by blast
  from assms(1) show ?thesis
  proof (cases rule: exec_event_cases)
    case (Hit c' d' dec)
    with got [OF Hit(3)] assms(3) show ?thesis by (cases "c = c'") auto
  next
    case (Receive c' d' dec)
    with box have "P d' dec" by (fastforce simp: name_of_def)
    with Receive assms(3) show ?thesis by (cases "c = c'") auto
  next
    case (Fallback c' d' y)
    show ?thesis
    proof (cases "c = c'")
      case True
      with Fallback assms(3) have "d' = d" "y = x" by auto
      with True Fallback(2,3) got [of d'] show ?thesis by (cases "fst (lru_get (cache s) d')") auto
    qed (use Fallback assms(3) in simp)
  qed (use assms(3) in \<open>auto simp: undo_def drain_def split: if_splits\<close>)
qed

lemma answers_right_step:
  assumes "exec_event a e s = Some t" "answers_right a s" shows "answers_right a t"
proof -
  have r: "decisions_right (right a) s"
    and old: "\<And>c d x. callers s c = Some (Returned d x) \<Longrightarrow> x = Proxy \<or> artifact_lookup a (reverse_key d) = Some x"
    using assms(2) by (auto simp: answers_right_def)
  have "decides_in a (right a) e" by (simp add: decides_in_def)
  with assms(1) r have "decisions_right (right a) t" by (rule decisions_right_step)
  moreover have "x = Proxy \<or> artifact_lookup a (reverse_key d) = Some x"
    if "callers t c = Some (Returned d x)" for c d x
    using returned_step [OF assms(1) r that] old right_action by blast
  ultimately show ?thesis by (simp add: answers_right_def)
qed

lemma decisions_right_spawn: "decisions_right P (spawn n)"
  using lru_inv_new [of n] by (auto simp: decisions_right_def spawn_def lru_abs_def lru_new_def)

lemma reachable_right: "reachable a n s \<Longrightarrow> answers_right a s"
proof (induction rule: reachable.induct)
  case start
  show ?case using decisions_right_spawn by (simp add: answers_right_def spawn_def)
qed (rule answers_right_step)

text \<open>Without a panic of the worker every decision is the artifact's own answer, so that a call that was
  not refused by a full queue and did not run out of its budget returns exactly that.\<close>

definition exact :: "artifact \<Rightarrow> string \<Rightarrow> decision \<Rightarrow> bool" where
  "exact a d v \<longleftrightarrow> v = artifact_lookup a (reverse_key d)"

definition exact_for :: "artifact \<Rightarrow> nat \<Rightarrow> lookup_state \<Rightarrow> bool" where
  "exact_for a c s \<longleftrightarrow> decisions_right (exact a) s \<and>
     (case callers s c of
        Some (Expired d) \<Rightarrow> False
      | Some (Returned d x) \<Rightarrow> x = to_action (artifact_lookup a (reverse_key d))
      | _ \<Rightarrow> True)"

lemma exact_for_step:
  assumes "exec_event a e s = Some t" "exact_for a c s" "e \<noteq> WorkerTake True" "e \<noteq> Undo c" "e \<noteq> Expire c"
  shows "exact_for a c t"
proof -
  have r: "decisions_right (exact a) s" using assms(2) by (simp add: exact_for_def)
  have "decides_in a (exact a) e" using assms(3) by (simp add: decides_in_def exact_def)
  with assms(1) r have "decisions_right (exact a) t" by (rule decisions_right_step)
  moreover have "x = to_action (artifact_lookup a (reverse_key d))" if "callers t c = Some (Returned d x)" for d x
    using returned_step [OF assms(1) r that] assms(2,4) by (auto simp: exact_for_def exact_def)
  moreover have "callers t c \<noteq> Some (Expired d)" for d
    using assms(1)
  proof (cases rule: exec_event_cases)
    case (Expire c' d') with assms(2,5) show ?thesis by (cases "c = c'") (auto simp: exact_for_def)
  qed (use assms(2) in \<open>auto simp: exact_for_def undo_def drain_def\<close>)
  ultimately show ?thesis by (auto simp: exact_for_def split: option.split caller_phase.split)
qed

lemma exact_answer:
  assumes "exec_events a es (spawn n) = Some s" "callers s c = Some (Returned d x)"
    and "WorkerTake True \<notin> set es" "Undo c \<notin> set es" "Expire c \<notin> set es"
  shows "x = to_action (artifact_lookup a (reverse_key d))"
proof -
  have "exact_for a c s" if "exact_for a c s0" "exec_events a es s0 = Some s" for s0
    using that assms(3-5) by (induction es arbitrary: s0) (auto split: option.splits intro: exact_for_step)
  moreover have "exact_for a c (spawn n)"
    using decisions_right_spawn by (simp add: exact_for_def spawn_def)
  ultimately show ?thesis using assms(1,2) by (auto simp: exact_for_def)
qed

lemma reachable_run:
  "reachable a n s \<Longrightarrow> exec_events a es s = Some t \<Longrightarrow> reachable a n t"
  by (induction es arbitrary: s) (auto split: option.splits intro: reachable.step)

lemma sound_answer:
  "reachable a n s \<Longrightarrow> callers s c = Some (Returned d x) \<Longrightarrow> x = Proxy \<or> artifact_lookup a (reverse_key d) = Some x"
  using reachable_right [of a n s] unfolding answers_right_def by blast

text \<open>C14: whatever the interleaving of callers and worker, of panics, full queues and expired
  budgets, an answer is either the default \<open>Proxy\<close> or exactly what the artifact says of
  the name that was asked; a cached or delivered decision never belongs to another name.\<close>

theorem lookup_answers_sound:
  assumes "reachable a n s" and "callers s c = Some (Returned d x)"
  shows "x = Proxy \<or> artifact_lookup a (reverse_key d) = Some x"
  by (rule sound_answer [OF assms])

section \<open>One request per name\<close>

text \<open>Who is responsible for answering the waiters of a name: its place in the channel, the
  worker, or a caller between its registration and its send.\<close>

definition busy_with :: "worker_phase \<Rightarrow> string option" where
  "busy_with w = (case w of Decided d v \<Rightarrow> Some d | Stored d v \<Rightarrow> Some d | Counted d v \<Rightarrow> Some d | _ \<Rightarrow> None)"

definition sending :: "caller_phase option \<Rightarrow> string option" where
  "sending p = (case p of Some (Enqueuing d) \<Rightarrow> Some d | Some (Refused d) \<Rightarrow> Some d | _ \<Rightarrow> None)"

datatype holder = Channel nat | Worker | Caller nat

definition holders :: "lookup_state \<Rightarrow> string \<Rightarrow> holder set" where
  "holders s d =
     Channel ` {i. i < length (channel s) \<and> channel s ! i = d} \<union>
     (if busy_with (worker s) = Some d then {Worker} else {}) \<union>
     Caller ` {c. sending (callers s c) = Some d}"

definition one_holder :: "lookup_state \<Rightarrow> bool" where
  "one_holder s \<longleftrightarrow> (\<forall>d. case inflight s d of None \<Rightarrow> holders s d = {} | Some ws \<Rightarrow> \<exists>h. holders s d = {h})"

lemma busy_with_simps [simp]:
  "busy_with Idle = None" "busy_with (Decided d v) = Some d" "busy_with (Stored d v) = Some d"
  "busy_with (Counted d v) = Some d" "busy_with (Sending v ws) = None"
  by (simp_all add: busy_with_def)

lemma sending_simps [simp]:
  "sending None = None" "sending (Some (Checking d)) = None" "sending (Some (Missed d)) = None"
  "sending (Some (Enqueuing d)) = Some d" "sending (Some (Refused d)) = Some d" "sending (Some (Waiting d)) = None"
  "sending (Some (Expired d)) = None" "sending (Some (Returned d x)) = None"
  by (simp_all add: sending_def)

text \<open>Equality of holders up to the moves a step makes.\<close>

lemma holders_cong:
  "channel t = channel s \<Longrightarrow> busy_with (worker t) = busy_with (worker s) \<Longrightarrow>
   (\<And>c. sending (callers t c) = sending (callers s c)) \<Longrightarrow> holders t d = holders s d"
  by (simp add: holders_def)

lemma indices_snoc:
  "{i. i < length (xs @ [x]) \<and> (xs @ [x]) ! i = d} =
     {i. i < length xs \<and> xs ! i = d} \<union> (if x = d then {length xs} else {})"
  by (auto simp: nth_append less_Suc_eq)

lemma indices_Cons:
  "{i. i < length (x # xs) \<and> (x # xs) ! i = d} =
     (if x = d then {0} else {}) \<union> Suc ` {i. i < length xs \<and> xs ! i = d}"
proof (rule set_eqI)
  fix i
  show "i \<in> {i. i < length (x # xs) \<and> (x # xs) ! i = d} \<longleftrightarrow>
      i \<in> (if x = d then {0} else {}) \<union> Suc ` {i. i < length xs \<and> xs ! i = d}"
    by (cases i) auto
qed

lemma one_holderI:
  assumes "\<And>d. inflight s d = None \<Longrightarrow> holders s d = {}" "\<And>d. inflight s d \<noteq> None \<Longrightarrow> \<exists>h. holders s d = {h}"
  shows "one_holder s"
  using assms by (auto simp: one_holder_def split: option.split)

lemma one_holderD:
  assumes "one_holder s"
  shows "inflight s d = None \<Longrightarrow> holders s d = {}" and "h \<in> holders s d \<Longrightarrow> holders s d = {h}"
    and "h \<in> holders s d \<Longrightarrow> inflight s d \<noteq> None" and "inflight s d \<noteq> None \<Longrightarrow> \<exists>h. holders s d = {h}"
proof -
  have *: "case inflight s d of None \<Rightarrow> holders s d = {} | Some ws \<Rightarrow> \<exists>h. holders s d = {h}"
    using assms by (simp add: one_holder_def)
  from * show "inflight s d = None \<Longrightarrow> holders s d = {}" by simp
  from * show "h \<in> holders s d \<Longrightarrow> holders s d = {h}" by (auto split: option.splits)
  from * show "h \<in> holders s d \<Longrightarrow> inflight s d \<noteq> None" by (auto split: option.splits)
  from * show "inflight s d \<noteq> None \<Longrightarrow> \<exists>h. holders s d = {h}" by auto
qed

lemma one_holder_cong:
  assumes one: "one_holder s" and "channel t = channel s" "busy_with (worker t) = busy_with (worker s)"
    and "\<And>c. sending (callers t c) = sending (callers s c)"
    and inf: "\<And>d. inflight t d = None \<longleftrightarrow> inflight s d = None"
  shows "one_holder t"
proof -
  have same: "holders t d = holders s d" for d using assms by (intro holders_cong)
  show ?thesis
  proof (rule one_holderI)
    fix d
    show "inflight t d = None \<Longrightarrow> holders t d = {}"
      using one_holderD(1) [OF one, of d] same [of d] inf [of d] by simp
    show "inflight t d \<noteq> None \<Longrightarrow> \<exists>h. holders t d = {h}"
      using one_holderD(4) [OF one, of d] same [of d] inf [of d] by simp
  qed
qed

lemma one_holder_change:
  assumes one: "one_holder s"
    and others: "\<And>e. e \<noteq> d \<Longrightarrow> holders t e = f ` holders s e" "\<And>e. e \<noteq> d \<Longrightarrow> inflight t e = inflight s e"
    and here: "if inflight t d = None then holders t d = {} else \<exists>h. holders t d = {h}"
  shows "one_holder t"
proof (rule one_holderI)
  fix e
  show "inflight t e = None \<Longrightarrow> holders t e = {}"
    using one_holderD(1) [OF one, of e] others [of e] here by (cases "e = d") auto
  show "inflight t e \<noteq> None \<Longrightarrow> \<exists>h. holders t e = {h}"
    using one_holderD(4) [OF one, of e] others [of e] here by (cases "e = d") auto
qed

lemma holders_Caller: "Caller c \<in> holders s d \<longleftrightarrow> sending (callers s c) = Some d"
  by (auto simp: holders_def)

lemma holders_Worker: "Worker \<in> holders s d \<longleftrightarrow> busy_with (worker s) = Some d"
  by (auto simp: holders_def)

text \<open>The steps that hand a request over.\<close>

lemma one_holder_insert:
  assumes one: "one_holder s" and c: "callers s c = Some (Missed d)" and none: "inflight s d = None"
  shows "one_holder (goto c (Enqueuing d) (s\<lparr>inflight := (inflight s)(d \<mapsto> [c])\<rparr>))" (is "one_holder ?t")
proof -
  have "{x. sending (((callers s)(c \<mapsto> Enqueuing d)) x) = Some e} =
      {x. sending (callers s x) = Some e} \<union> (if e = d then {c} else {})" for e
    using c by auto
  then have h: "holders ?t e = holders s e \<union> (if e = d then {Caller c} else {})" for e
    by (simp add: holders_def image_Un)
  have "holders s d = {}" using one none by (rule one_holderD(1))
  then show ?thesis by (intro one_holder_change [OF one, where d = d and f = id]) (simp_all add: h)
qed

lemma one_holder_sent:
  assumes one: "one_holder s" and c: "callers s c = Some (Enqueuing d)"
  shows "one_holder (goto c (Waiting d) (s\<lparr>channel := channel s @ [d]\<rparr>))" (is "one_holder ?t")
proof -
  have "{x. sending (((callers s)(c \<mapsto> Waiting d)) x) = Some e} = {x. sending (callers s x) = Some e} - {c}" for e
    using c by auto
  then have h: "holders ?t e = (holders s e - {Caller c}) \<union> (if d = e then {Channel (length (channel s))} else {})" for e
    by (auto simp: holders_def indices_snoc simp del: length_append)
  have mem: "Caller c \<in> holders s e \<longleftrightarrow> e = d" for e using c by (auto simp: holders_Caller)
  then have "holders s d = {Caller c}" "inflight s d \<noteq> None" using one_holderD(2,3) [OF one, of "Caller c" d] by auto
  then show ?thesis
    by (intro one_holder_change [OF one, where d = d and f = id]) (simp_all add: h mem)
qed

lemma one_holder_undo:
  assumes one: "one_holder s" and c: "callers s c = Some (Refused d)"
  shows "one_holder (undo c d s)"
proof -
  have "{x. sending (((callers s)(c \<mapsto> Returned d Proxy)) x) = Some e} = {x. sending (callers s x) = Some e} - {c}" for e
    using c by auto
  then have h: "holders (undo c d s) e = holders s e - {Caller c}" for e
    by (auto simp: holders_def undo_def)
  have inf: "inflight (undo c d s) = (inflight s)(d := None)" by (simp add: undo_def)
  have mem: "Caller c \<in> holders s e \<longleftrightarrow> e = d" for e using c by (auto simp: holders_Caller)
  then have "holders s d = {Caller c}" using one_holderD(2) [OF one, of "Caller c" d] by auto
  then show ?thesis
    by (intro one_holder_change [OF one, where d = d and f = id]) (simp_all add: h mem inf)
qed

lemma one_holder_drain:
  assumes one: "one_holder s" and w: "busy_with (worker s) = Some d"
  shows "one_holder (drain d v s)"
proof -
  have h: "holders (drain d v s) e = holders s e - {Worker}" for e
    by (auto simp: holders_def drain_def)
  have inf: "inflight (drain d v s) = (inflight s)(d := None)" by (simp add: drain_def)
  have mem: "Worker \<in> holders s e \<longleftrightarrow> e = d" for e using w by (auto simp: holders_Worker)
  then have "holders s d = {Worker}" using one_holderD(2) [OF one, of Worker d] by auto
  then show ?thesis
    by (intro one_holder_change [OF one, where d = d and f = id]) (simp_all add: h mem inf)
qed

lemma one_holder_take:
  assumes one: "one_holder s" and w: "worker s = Idle" and q: "channel s = d # rest"
    and t: "channel t = rest" "worker t = Decided d v" "callers t = callers s" "inflight t = inflight s"
  shows "one_holder t"
proof -
  let ?f = "\<lambda>h. case h of Channel i \<Rightarrow> Channel (i - 1) | _ \<Rightarrow> h"
  have "Channel 0 \<in> holders s d" using q by (simp add: holders_def)
  then have only: "holders s d = {Channel 0}" and inf: "inflight s d \<noteq> None" using one_holderD(2,3) [OF one] by blast+
  have hs: "holders s e = Channel ` ((if d = e then {0} else {}) \<union> Suc ` {i. i < length rest \<and> rest ! i = e}) \<union>
      Caller ` {c. sending (callers s c) = Some e}" for e
    using w by (simp only: holders_def q indices_Cons) simp
  have ht: "holders t e = Channel ` {i. i < length rest \<and> rest ! i = e} \<union> (if d = e then {Worker} else {}) \<union>
      Caller ` {c. sending (callers s c) = Some e}" for e
    by (simp add: holders_def t)
  have none: "{i. i < length rest \<and> rest ! i = d} = {}" "{c. sending (callers s c) = Some d} = {}"
    using only hs [of d] by auto
  have "holders t e = ?f ` holders s e" if "e \<noteq> d" for e
    using that by (simp add: hs ht image_Un image_image)
  moreover have "holders t d = {Worker}" by (simp add: ht none)
  ultimately show ?thesis using inf t(4) by (intro one_holder_change [OF one, where d = d and f = ?f]) auto
qed

lemma one_holder_step:
  assumes "exec_event a e s = Some t" "one_holder s" shows "one_holder t"
  using assms(1)
proof (cases rule: exec_event_cases)
  case (Insert c d) with one_holder_insert [OF assms(2)] show ?thesis by simp
next
  case (Sent c d) with one_holder_sent [OF assms(2)] show ?thesis by simp
next
  case (Undo c d) with one_holder_undo [OF assms(2)] show ?thesis by simp
next
  case (Drain d v) with one_holder_drain [OF assms(2)] show ?thesis by simp
next
  case (Panic d rest) then show ?thesis by (intro one_holder_take [OF assms(2), where d = d and rest = rest]) auto
next
  case (Decide d rest) then show ?thesis by (intro one_holder_take [OF assms(2), where d = d and rest = rest]) auto
qed (rule one_holder_cong [OF assms(2)]; simp; fail)+

lemma reachable_one_holder: "reachable a n s \<Longrightarrow> one_holder s"
proof (induction rule: reachable.induct)
  case start then show ?case by (simp add: one_holder_def holders_def spawn_def)
qed (rule one_holder_step)

text \<open>C31: requests are not duplicated and waiters are not forgotten.  At every moment a name
  with registered waiters has exactly one place responsible for answering them - one position
  of the channel, the worker, or one caller between its registration and its send - and a name
  without waiters has none.\<close>

theorem one_request_per_name:
  assumes "reachable a n s"
  shows "case inflight s d of None \<Rightarrow> holders s d = {} | Some waiters \<Rightarrow> \<exists>h. holders s d = {h}"
  using reachable_one_holder [OF assms] by (simp add: one_holder_def)

section \<open>Concrete runs\<close>

text \<open>An artifact that blocks \<open>a.b\<close> and everything below it.\<close>

definition one_rule :: artifact where
  "one_rule = \<lparr>ba_map = (\<lambda>k. if k = ''b.a'' then Some 0 else None),
     ba_provenance = [\<lparr>pe_sources = [], pe_categories = [], pe_scope = Apex\<rparr>], ba_version = 1\<rparr>"

definition first_call :: "event list" where
  "first_call = [Call 1 ''a.b'', CheckCache 1, Register 1, TrySend 1, WorkerTake False, WorkerStore, WorkerCount,
     WorkerDrain, WorkerSend, WorkerSend, Receive 1]"

lemma first_call_returns:
  "map_option (\<lambda>t. callers t 1) (exec_events one_rule first_call (spawn 8)) = Some (Some (Returned ''a.b'' Block))"
  by code_simp

theorem lookup_answers_sound_witness:
  "\<exists>t. reachable one_rule 8 t \<and> callers t 1 = Some (Returned ''a.b'' Block) \<and>
     artifact_lookup one_rule (reverse_key ''a.b'') = Some Block"
proof -
  from first_call_returns obtain t where t: "exec_events one_rule first_call (spawn 8) = Some t"
    and c: "callers t 1 = Some (Returned ''a.b'' Block)" by auto
  have r: "reachable one_rule 8 t" by (rule reachable_run [OF reachable.start t])
  show ?thesis using lookup_answers_sound [OF r c] r c by auto
qed

definition half_call :: "event list" where
  "half_call = [Call 1 ''a.b'', Call 2 ''a.b'', CheckCache 1, CheckCache 2, Register 1, TrySend 1, Register 2]"

lemma half_call_state:
  "map_option (\<lambda>t. (channel t, inflight t ''a.b'', callers t 2)) (exec_events one_rule half_call (spawn 8)) =
     Some ([''a.b''], Some [1, 2], Some (Waiting ''a.b''))"
  by code_simp

theorem one_request_per_name_witness:
  "\<exists>t. reachable one_rule 8 t \<and> inflight t ''a.b'' = Some [1, 2] \<and> holders t ''a.b'' = {Channel 0}"
proof -
  from half_call_state obtain t where t: "exec_events one_rule half_call (spawn 8) = Some t"
    and q: "channel t = [''a.b'']" "inflight t ''a.b'' = Some [1, 2]" by auto
  have r: "reachable one_rule 8 t" by (rule reachable_run [OF reachable.start t])
  have "Channel 0 \<in> holders t ''a.b''" using q by (simp add: holders_def)
  with one_request_per_name [OF r, of "''a.b''"] q r show ?thesis by auto
qed

text \<open>Storing the decision before draining the waiters does not rule out a second request for a name
  that was just resolved: a call that missed the cache before the store and takes the in-flight
  lock after the drain registers again, and the worker decides the same name twice.\<close>

definition overlapping_calls :: "event list" where
  "overlapping_calls = [Call 1 ''a.b'', Call 2 ''a.b'', CheckCache 1, CheckCache 2, Register 1, TrySend 1,
     WorkerTake False, WorkerStore, WorkerCount, WorkerDrain, WorkerSend, WorkerSend, Receive 1,
     Register 2, TrySend 2, WorkerTake False, WorkerStore, WorkerCount, WorkerDrain, WorkerSend, WorkerSend, Receive 2]"

lemma duplicate_request_race:
  "map_option (\<lambda>t. (worker_requests t, fallback_count t, callers t 1, callers t 2))
     (exec_events one_rule overlapping_calls (spawn 8)) =
   Some (2, 0, Some (Returned ''a.b'' Block), Some (Returned ''a.b'' Block))"
  by code_simp

end
