(* ===== verification/Dns.thy ===== *)
theory Dns
  imports Rust_Str
begin

text \<open>
  \<open>packages/net-shield/src/dns.rs\<close>: the question of a DNS query and the synthesised
  NXDOMAIN response. Names are read label by label; compression pointers are refused, so the
  loop advances on every turn.
\<close>

definition PORT_DNS :: u16 where "PORT_DNS = 53"
definition HEADER_LEN :: nat where "HEADER_LEN = 12"
definition LABEL_KIND_MASK :: u8 where "LABEL_KIND_MASK = 0xc0"
definition MAX_LABEL_LEN :: nat where "MAX_LABEL_LEN = 63"
definition MAX_NAME_WIRE_LEN :: nat where "MAX_NAME_WIRE_LEN = 255"
definition FLAG_QR :: u16 where "FLAG_QR = 0x8000"
definition FLAG_RD :: u16 where "FLAG_RD = 0x0100"
definition FLAG_RA :: u16 where "FLAG_RA = 0x0080"
definition OPCODE_MASK :: u16 where "OPCODE_MASK = 0x7800"
definition OPCODE_QUERY :: u16 where "OPCODE_QUERY = 0x0000"
definition RCODE_MASK :: u16 where "RCODE_MASK = 0x000f"
definition RCODE_NXDOMAIN :: u16 where "RCODE_NXDOMAIN = 3"

lemmas dns_consts = HEADER_LEN_def LABEL_KIND_MASK_def MAX_LABEL_LEN_def MAX_NAME_WIRE_LEN_def
  FLAG_QR_def FLAG_RD_def FLAG_RA_def OPCODE_MASK_def OPCODE_QUERY_def RCODE_MASK_def
  RCODE_NXDOMAIN_def

record dns_question =
  dq_id :: u16
  dq_name :: string
  dq_qtype :: u16
  dq_qclass :: u16

text \<open>The \<open>loop\<close> of \<open>read_name\<close>; a read past the end is \<open>None\<close> (\<open>get\<close>), not a panic.\<close>

function read_labels :: "bytes \<Rightarrow> nat \<Rightarrow> string list \<Rightarrow> nat \<Rightarrow> (string list \<times> nat) option" where
  "read_labels msg pos labels wire_len =
     (if length msg \<le> pos then None
      else
        let len_byte = msg ! pos; len = unat len_byte in
        if len_byte AND LABEL_KIND_MASK \<noteq> 0 then None
        else if len_byte = 0 then Some (labels, pos + 1)
        else if len > MAX_LABEL_LEN then None
        else if wire_len + 1 + len > MAX_NAME_WIRE_LEN then None
        else case subslice msg (pos + 1) (pos + 1 + len) of
               None \<Rightarrow> None
             | Some label \<Rightarrow>
                 (case from_utf8 label of
                    None \<Rightarrow> None
                  | Some l \<Rightarrow> read_labels msg (pos + 1 + len) (labels @ [l]) (wire_len + 1 + len)))"
  by pat_completeness auto
termination
  by (relation "measure (\<lambda>(msg, pos, labels, wire_len). length msg - pos)") auto

declare read_labels.simps [simp del]

definition read_name :: "bytes \<Rightarrow> nat \<Rightarrow> (string \<times> nat) option" where
  "read_name msg pos =
     (case read_labels msg pos [] 0 of
        None \<Rightarrow> None
      | Some (ls, end_pos) \<Rightarrow> Some (to_ascii_lowercase (join_with CHR ''.'' ls), end_pos))"

definition parse_query_with_end :: "bytes \<Rightarrow> (dns_question \<times> nat) option exec" where
  "parse_query_with_end msg =
     (if length msg < HEADER_LEN then Some None
      else do {
        i0 \<leftarrow> idx msg 0; i1 \<leftarrow> idx msg 1;
        f0 \<leftarrow> idx msg 2; f1 \<leftarrow> idx msg 3;
        let flags = be16 f0 f1;
        if flags AND FLAG_QR \<noteq> 0 then Some None
        else if flags AND OPCODE_MASK \<noteq> OPCODE_QUERY then Some None
        else do {
          c0 \<leftarrow> idx msg 4; c1 \<leftarrow> idx msg 5;
          if be16 c0 c1 \<noteq> 1 then Some None
          else case read_name msg HEADER_LEN of
                 None \<Rightarrow> Some None
               | Some (name, after_name) \<Rightarrow>
                   if length msg < after_name + 4 then Some None
                   else do {
                     t0 \<leftarrow> idx msg after_name; t1 \<leftarrow> idx msg (after_name + 1);
                     k0 \<leftarrow> idx msg (after_name + 2); k1 \<leftarrow> idx msg (after_name + 3);
                     Some (Some (\<lparr>dq_id = be16 i0 i1, dq_name = name, dq_qtype = be16 t0 t1,
                       dq_qclass = be16 k0 k1\<rparr>, after_name + 4))
                   }
        }
      })"

definition parse_query :: "bytes \<Rightarrow> dns_question option exec" where
  "parse_query msg = map_option (map_option fst) (parse_query_with_end msg)"

definition nxdomain_response :: "bytes \<Rightarrow> bytes option exec" where
  "nxdomain_response query = do {
     r \<leftarrow> parse_query_with_end query;
     case r of
       None \<Rightarrow> Some None
     | Some (_, question_end) \<Rightarrow> do {
         out \<leftarrow> subslice query 0 question_end;
         f0 \<leftarrow> idx out 2; f1 \<leftarrow> idx out 3;
         let flags = be16 f0 f1;
         let response_flags = FLAG_QR OR (flags AND OPCODE_MASK) OR (flags AND FLAG_RD) OR FLAG_RA
           OR (RCODE_NXDOMAIN AND RCODE_MASK);
         out \<leftarrow> copy_at out 2 (to_be16 response_flags);
         out \<leftarrow> copy_at out 6 (to_be16 0);
         out \<leftarrow> copy_at out 8 (to_be16 0);
         out \<leftarrow> copy_at out 10 (to_be16 0);
         Some (Some out)
       }
   }"

section \<open>Reading names\<close>

text \<open>The wire form of a label list and the labels it can carry.\<close>

definition label_ok :: "string \<Rightarrow> bool" where
  "label_ok l \<longleftrightarrow> l \<noteq> [] \<and> length l \<le> 63 \<and> from_utf8 (bytes_of_string l) = Some l"

definition encode_labels :: "string list \<Rightarrow> bytes" where
  "encode_labels ls = concat (map (\<lambda>l. of_nat (length l) # bytes_of_string l) ls)"

lemma encode_labels_simps [simp]:
  "encode_labels [] = []"
  "encode_labels (l # ls) = of_nat (length l) # bytes_of_string l @ encode_labels ls"
  by (simp_all add: encode_labels_def)

lemma label_byte:
  assumes "0 < n" "n \<le> 63"
  shows "(of_nat n :: u8) AND LABEL_KIND_MASK = 0" and "(of_nat n :: u8) \<noteq> 0" and "unat (of_nat n :: u8) = n"
proof -
  show u: "unat (of_nat n :: u8) = n" using assms by (simp add: unat_of_nat)
  then show "(of_nat n :: u8) \<noteq> 0" using assms by (metis less_numeral_extra(3) unat_0)
  have "(of_nat n :: u8) = of_nat (take_bit 6 n)" using assms by (simp add: take_bit_nat_eq_self)
  also have "\<dots> = take_bit 6 (of_nat n)" by (simp add: take_bit_of_nat)
  finally have "(of_nat n :: u8) AND 0xc0 = take_bit 6 (of_nat n) AND 0xc0" by simp
  also have "\<dots> = 0"
  proof -
    have "(0xc0 :: u8) = push_bit 6 3" by simp
    then show ?thesis by (intro bit_word_eqI) (simp only: bit_simps, simp)
  qed
  finally show "(of_nat n :: u8) AND LABEL_KIND_MASK = 0" by (simp add: LABEL_KIND_MASK_def)
qed

lemma read_labels_encode:
  assumes "\<forall>l \<in> set ls. label_ok l" and "w + length (encode_labels ls) \<le> 255"
    and "msg = pre @ encode_labels ls @ 0 # rest"
  shows "read_labels msg (length pre) acc w = Some (acc @ ls, length pre + length (encode_labels ls) + 1)"
  using assms
proof (induction ls arbitrary: pre acc w)
  case Nil
  then show ?case by (subst read_labels.simps) simp
next
  case (Cons l ls)
  let ?pre = "pre @ of_nat (length l) # bytes_of_string l"
  have l: "0 < length l" "length l \<le> 63" "from_utf8 (bytes_of_string l) = Some l"
    using Cons.prems(1) by (auto simp: label_ok_def)
  have msg: "msg = ?pre @ encode_labels ls @ 0 # rest" using Cons.prems(3) by simp
  have sub: "subslice msg (length pre + 1) (length pre + 1 + length l) = Some (bytes_of_string l)"
    by (simp add: msg subslice_def)
  have "read_labels msg (length ?pre) (acc @ [l]) (w + 1 + length l) =
      Some ((acc @ [l]) @ ls, length ?pre + length (encode_labels ls) + 1)"
    using Cons.prems(1,2) by (intro Cons.IH [OF _ _ msg]) auto
  moreover have "msg ! length pre = of_nat (length l)" by (simp add: msg)
  moreover have "length pre < length msg" by (simp add: msg)
  ultimately show ?case
    using label_byte [OF l(1,2)] l(2,3) sub Cons.prems(2)
    by (subst read_labels.simps) (simp add: Let_def dns_consts)
qed

lemma read_labels_long:
  assumes "\<forall>l \<in> set ls. label_ok l" and "w \<le> 255" and "255 < w + length (encode_labels ls)"
    and "msg = pre @ encode_labels ls @ 0 # rest"
  shows "read_labels msg (length pre) acc w = None"
  using assms
proof (induction ls arbitrary: pre acc w)
  case (Cons l ls)
  let ?pre = "pre @ of_nat (length l) # bytes_of_string l"
  have l: "0 < length l" "length l \<le> 63" "from_utf8 (bytes_of_string l) = Some l"
    using Cons.prems(1) by (auto simp: label_ok_def)
  have msg: "msg = ?pre @ encode_labels ls @ 0 # rest" using Cons.prems(4) by simp
  have sub: "subslice msg (length pre + 1) (length pre + 1 + length l) = Some (bytes_of_string l)"
    by (simp add: msg subslice_def)
  have "read_labels msg (length ?pre) (acc @ [l]) (w + 1 + length l) = None" if "w + 1 + length l \<le> 255"
    using Cons.prems(1,3) that by (intro Cons.IH [OF _ _ _ msg]) auto
  moreover have "msg ! length pre = of_nat (length l)" by (simp add: msg)
  moreover have "length pre < length msg" by (simp add: msg)
  ultimately show ?case
    using label_byte [OF l(1,2)] l(2,3) sub
    by (subst read_labels.simps) (simp add: Let_def dns_consts)
qed simp

lemma read_labels_bounds:
  "read_labels msg pos acc w = Some (ls, p) \<Longrightarrow>
     pos < p \<and> p \<le> length msg \<and> w + (p - pos) \<le> max 256 (w + 1)"
proof (induction msg pos acc w rule: read_labels.induct)
  case (1 msg pos acc w)
  from "1.prems" show ?case
    by (subst (asm) read_labels.simps)
       (auto simp: Let_def dns_consts split: if_splits option.splits dest!: "1.IH"
         dest: subslice_eq_Some_iff [THEN iffD1])
qed

section \<open>The query parser\<close>

lemma parse_query_with_end_eq:
  "parse_query_with_end msg =
     Some (if length msg < 12 \<or> be16 (msg ! 2) (msg ! 3) AND FLAG_QR \<noteq> 0 \<or>
         be16 (msg ! 2) (msg ! 3) AND OPCODE_MASK \<noteq> OPCODE_QUERY \<or> be16 (msg ! 4) (msg ! 5) \<noteq> 1
       then None
       else case read_name msg 12 of
         None \<Rightarrow> None
       | Some (name, p) \<Rightarrow>
           if length msg < p + 4 then None
           else Some (\<lparr>dq_id = be16 (msg ! 0) (msg ! 1), dq_name = name,
             dq_qtype = be16 (msg ! p) (msg ! (p + 1)),
             dq_qclass = be16 (msg ! (p + 2)) (msg ! (p + 3))\<rparr>, p + 4))"
  by (auto simp: parse_query_with_end_def idx_def HEADER_LEN_def Let_def split: option.splits)

lemma parse_query_eq:
  "parse_query msg = Some (map_option fst (the (parse_query_with_end msg)))"
  by (simp add: parse_query_def parse_query_with_end_eq)

lemma read_name_bounds: "read_name msg pos = Some (n, p) \<Longrightarrow> pos < p \<and> p \<le> length msg \<and> p \<le> pos + 256"
  by (auto simp: read_name_def split: option.splits dest!: read_labels_bounds)

text \<open>The wire form of a standard query.\<close>

definition query_bytes :: "u16 \<Rightarrow> u16 \<Rightarrow> bytes \<Rightarrow> string list \<Rightarrow> u16 \<Rightarrow> u16 \<Rightarrow> bytes" where
  "query_bytes qid flags counts ls qtype qclass =
     to_be16 qid @ to_be16 flags @ to_be16 1 @ counts @ encode_labels ls @ 0 # to_be16 qtype @ to_be16 qclass"

lemma query_bytes_parses:
  assumes "\<forall>l \<in> set ls. label_ok l" and "length (encode_labels ls) \<le> 255" and "length counts = 6"
    and "flags AND FLAG_QR = 0" and "flags AND OPCODE_MASK = 0"
  shows "parse_query_with_end (query_bytes qid flags counts ls qtype qclass @ rest) =
    Some (Some (\<lparr>dq_id = qid, dq_name = to_ascii_lowercase (join_with CHR ''.'' ls),
      dq_qtype = qtype, dq_qclass = qclass\<rparr>, length (query_bytes qid flags counts ls qtype qclass)))"
proof -
  let ?pre = "to_be16 qid @ to_be16 flags @ to_be16 1 @ counts"
  let ?q = "query_bytes qid flags counts ls qtype qclass @ rest"
  let ?p = "length ?pre + length (encode_labels ls) + 1"
  have q: "?q = ?pre @ encode_labels ls @ 0 # (to_be16 qtype @ to_be16 qclass @ rest)"
    by (simp add: query_bytes_def)
  have len: "length ?pre = 12" using assms(3) by simp
  have "read_labels ?q (length ?pre) [] 0 = Some ([] @ ls, ?p)"
    using assms(1,2) q by (intro read_labels_encode) auto
  then have rd: "read_name ?q 12 = Some (to_ascii_lowercase (join_with CHR ''.'' ls), ?p)"
    by (simp only: read_name_def len) simp
  have tail: "?q ! (?p + k) = (to_be16 qtype @ to_be16 qclass @ rest) ! k" for k
    unfolding q by (simp add: nth_append)
  have t: "?q ! ?p = ucast (drop_bit 8 qtype)" "?q ! (?p + 1) = ucast qtype"
    "?q ! (?p + 2) = ucast (drop_bit 8 qclass)" "?q ! (?p + 3) = ucast qclass"
    using tail [of 0] tail [of 1] tail [of 2] tail [of 3] by (simp_all add: to_be16_def)
  have h: "?q ! 0 = ucast (drop_bit 8 qid)" "?q ! 1 = ucast qid"
    "?q ! 2 = ucast (drop_bit 8 flags)" "?q ! 3 = ucast flags" "?q ! 4 = 0" "?q ! 5 = 1"
    by (simp_all add: query_bytes_def to_be16_def)
  have one: "be16 0 1 = 1" by (simp add: be16_def)
  have l: "length ?q = ?p + 4 + length rest" "length (query_bytes qid flags counts ls qtype qclass) = ?p + 4"
    by (simp_all add: query_bytes_def)
  have "12 \<le> length ?q" using l(1) len by linarith
  then show ?thesis
    unfolding parse_query_with_end_eq rd
    using assms(3-5) l
    by (simp only: h t one be16_to_be16 OPCODE_QUERY_def option.case prod.case) simp
qed

lemma query_bytes_too_long:
  assumes "\<forall>l \<in> set ls. label_ok l" and "255 < length (encode_labels ls)" and "length counts = 6"
    and "flags AND FLAG_QR = 0" and "flags AND OPCODE_MASK = 0"
  shows "parse_query (query_bytes qid flags counts ls qtype qclass @ rest) = Some None"
proof -
  let ?pre = "to_be16 qid @ to_be16 flags @ to_be16 1 @ counts"
  let ?q = "query_bytes qid flags counts ls qtype qclass @ rest"
  have q: "?q = ?pre @ encode_labels ls @ 0 # (to_be16 qtype @ to_be16 qclass @ rest)"
    by (simp add: query_bytes_def)
  have len: "length ?pre = 12" using assms(3) by simp
  have "read_labels ?q (length ?pre) [] 0 = None"
    using assms(1,2) q by (intro read_labels_long) auto
  then have "read_name ?q 12 = None" by (simp only: read_name_def len) simp
  then show ?thesis unfolding parse_query_eq parse_query_with_end_eq by simp
qed

text \<open>C37: a standard query with one question parses to its id, its name in lower case and
  dotted form, its type and its class, whatever follows the question, exactly when its labels with their length
  octets take at most 255 octets; a longer name is refused.  The limit of the code does not count the root
  terminator, although it is documented to, so a name of 256 octets on the wire parses.\<close>

theorem dns_query_round_trip:
  assumes "\<forall>l \<in> set ls. label_ok l" and "length counts = 6"
    and "flags AND FLAG_QR = 0" and "flags AND OPCODE_MASK = 0"
  shows "parse_query (query_bytes qid flags counts ls qtype qclass @ rest) =
    Some (if length (encode_labels ls) \<le> 255
      then Some \<lparr>dq_id = qid, dq_name = to_ascii_lowercase (join_with CHR ''.'' ls), dq_qtype = qtype, dq_qclass = qclass\<rparr>
      else None)"
  using query_bytes_parses [OF assms(1) _ assms(2-4)] query_bytes_too_long [OF assms(1) _ assms(2-4)]
  by (simp add: parse_query_def not_le)

text \<open>A name of 256 octets: three labels of 63 letters, one of 62, and the terminator.\<close>

lemma name_of_256_octets:
  "length (encode_labels (replicate 3 (replicate 63 CHR ''a'') @ [replicate 62 CHR ''a'']) @ [0]) = 256"
  "case parse_query (query_bytes 7 0x0100 [0,0,0,0,0,0] (replicate 3 (replicate 63 CHR ''a'') @ [replicate 62 CHR ''a'']) 1 1)
     of Some (Some q) \<Rightarrow> True | _ \<Rightarrow> False"
proof -
  let ?ls = "replicate 3 (replicate 63 CHR ''a'') @ [replicate 62 CHR ''a'']"
  show len: "length (encode_labels ?ls @ [0]) = 256" by code_simp
  have "\<forall>l \<in> set ?ls. label_ok l" by code_simp
  from query_bytes_parses [OF this, of "[0,0,0,0,0,0]" "0x0100" 7 1 1 "[]"] len
  show "case parse_query (query_bytes 7 0x0100 [0,0,0,0,0,0] ?ls 1 1) of Some (Some q) \<Rightarrow> True | _ \<Rightarrow> False"
    by (simp add: parse_query_def FLAG_QR_def OPCODE_MASK_def)
qed

theorem dns_query_round_trip_witness:
  "parse_query (query_bytes 7 0x0100 [0,0,0,0,0,0] [''Ex'', ''com''] 1 1 @ [9]) =
     Some (Some \<lparr>dq_id = 7, dq_name = ''ex.com'', dq_qtype = 1, dq_qclass = 1\<rparr>)"
proof -
  have ok: "\<forall>l \<in> set [''Ex'', ''com'']. label_ok l" by code_simp
  have n: "to_ascii_lowercase (join_with CHR ''.'' [''Ex'', ''com'']) = ''ex.com''" by code_simp
  have "parse_query (query_bytes 7 0x0100 [0,0,0,0,0,0] [''Ex'', ''com''] 1 1 @ [9]) =
     Some (Some \<lparr>dq_id = 7, dq_name = to_ascii_lowercase (join_with CHR ''.'' [''Ex'', ''com'']),
       dq_qtype = 1, dq_qclass = 1\<rparr>)"
    by (subst dns_query_round_trip [OF ok]) (simp_all add: dns_consts)
  then show ?thesis by (simp only: n)
qed

text \<open>Parsing never panics and the question it reports ends inside the message; the
  encoded name spans at most 256 octets, a bound that is attained, one more than the 255 of
  RFC 1035 because the terminating octet is not counted.\<close>

theorem dns_query_bounds:
  "(\<exists>r. parse_query_with_end msg = Some r \<and>
      (case r of None \<Rightarrow> True
       | Some (q, question_end) \<Rightarrow> 17 \<le> question_end \<and> question_end \<le> length msg \<and> question_end \<le> 12 + 256 + 4)) \<and>
   (\<exists>long q. parse_query_with_end long = Some (Some (q, 12 + 256 + 4)))"
proof
  show "\<exists>r. parse_query_with_end msg = Some r \<and>
      (case r of None \<Rightarrow> True
       | Some (q, question_end) \<Rightarrow> 17 \<le> question_end \<and> question_end \<le> length msg \<and> question_end \<le> 12 + 256 + 4)"
    by (auto simp: parse_query_with_end_eq split: option.splits dest!: read_name_bounds)
next
  define l where "l n = replicate n CHR ''a''" for n
  let ?ls = "[l 63, l 63, l 63, l 62]"
  have "bytes_of_string (l n) = replicate n 97" for n
    by (simp add: bytes_of_string_def l_def of_char_Char)
  then have "utf8_ok (bytes_of_string (l n))" for n by (simp add: utf8_ok_ascii)
  then have b: "from_utf8 (bytes_of_string (l n)) = Some (l n)" for n by (simp add: from_utf8_def)
  have len: "length (l n) = n" "l n = [] \<longleftrightarrow> n = 0" for n by (simp_all add: l_def)
  have ok: "\<forall>l \<in> set ?ls. label_ok l" by (simp add: label_ok_def b len)
  have "length (query_bytes 0 0 [0,0,0,0,0,0] ?ls 1 1) = 12 + 256 + 4"
    by (simp add: query_bytes_def len)
  with query_bytes_parses [OF ok, of "[0,0,0,0,0,0]" 0 0 1 1 "[]"]
  show "\<exists>long q. parse_query_with_end long = Some (Some (q, 12 + 256 + 4))" by (auto simp: len)
qed

section \<open>The NXDOMAIN response\<close>

lemma flag_rd_cases: "(flags :: u16) AND 0x0100 = 0 \<or> flags AND 0x0100 = 0x0100"
proof (cases "bit flags 8")
  case True
  have "flags AND push_bit 8 1 = push_bit 8 1"
    using True by (intro bit_word_eqI) (simp only: bit_simps, auto)
  then show ?thesis by simp
next
  case False
  have "flags AND push_bit 8 1 = 0"
    using False by (intro bit_word_eqI) (simp only: bit_simps, auto)
  then show ?thesis by simp
qed

lemma take_12:
  "12 \<le> length xs \<Longrightarrow> take 12 xs = [xs ! 0, xs ! 1, xs ! 2, xs ! 3, xs ! 4, xs ! 5, xs ! 6, xs ! 7,
     xs ! 8, xs ! 9, xs ! 10, xs ! 11]"
proof -
  assume h: "12 \<le> length xs"
  then have "xs \<noteq> []" by auto
  with h show ?thesis by (simp add: numeral_eq_Suc take_Suc_conv_app_nth)
qed

text \<open>The response as bytes: the header rewritten, the question verbatim.\<close>

definition nx_flags :: "u16 \<Rightarrow> u16" where
  "nx_flags flags = (if flags AND FLAG_RD = 0 then 0x8083 else 0x8183)"

definition nx_bytes :: "bytes \<Rightarrow> nat \<Rightarrow> bytes" where
  "nx_bytes query e =
     [query ! 0, query ! 1] @ to_be16 (nx_flags (be16 (query ! 2) (query ! 3))) @
     [query ! 4, query ! 5, 0, 0, 0, 0, 0, 0] @ take (e - 12) (drop 12 query)"

lemma parse_query_SomeD:
  assumes "parse_query_with_end query = Some (Some (q, e))"
  shows "12 < e" "e \<le> length query" "be16 (query ! 4) (query ! 5) = 1"
    "be16 (query ! 2) (query ! 3) AND OPCODE_MASK = 0"
  using assms
  by (auto simp: parse_query_with_end_eq OPCODE_QUERY_def split: if_splits option.splits
      dest!: read_name_bounds)

lemma nxdomain_response_eq:
  assumes p: "parse_query_with_end query = Some (Some (q, e))"
  shows "nxdomain_response query = Some (Some (nx_bytes query e))"
proof -
  note e = parse_query_SomeD(1,2) [OF p] and op = parse_query_SomeD(4) [OF p]
  let ?q = "\<lambda>i. query ! i" and ?t = "take (e - 12) (drop 12 query)"
  have out: "subslice query 0 e = Some ([?q 0, ?q 1, ?q 2, ?q 3, ?q 4, ?q 5, ?q 6, ?q 7, ?q 8, ?q 9,
      ?q 10, ?q 11] @ ?t)"
  proof -
    have "take e query = take 12 query @ ?t"
      using e take_add [of 12 "e - 12" query] by simp
    then show ?thesis using e by (simp add: subslice_def take_12)
  qed
  have flags: "FLAG_QR OR (f AND OPCODE_MASK) OR (f AND FLAG_RD) OR FLAG_RA OR
      (RCODE_NXDOMAIN AND RCODE_MASK) = nx_flags f" if "f AND OPCODE_MASK = 0" for f
    using flag_rd_cases [of f] that by (auto simp: nx_flags_def dns_consts)
  have b0: "to_be16 0 = [0, 0]" by (simp add: to_be16_def)
  let ?f = "be16 (query ! 2) (query ! 3)"
  have bf: "to_be16 (nx_flags ?f) = [ucast (drop_bit 8 (nx_flags ?f)), ucast (nx_flags ?f)]"
    by (simp add: to_be16_def)
  show ?thesis
    by (simp add: nxdomain_response_def p out idx_def Let_def flags [OF op] copy_at_def nx_bytes_def
        b0 bf)
qed

text \<open>A response is synthesised exactly for the queries that parse. It never panics, keeps
  the id, the question and the RD bit, says NXDOMAIN with no records, adds nothing after the
  question and is itself never taken for a query.\<close>

theorem nxdomain_response_correct:
  "case parse_query_with_end query of
     None \<Rightarrow> False
   | Some None \<Rightarrow> nxdomain_response query = Some None
   | Some (Some (q, question_end)) \<Rightarrow>
       \<exists>r. nxdomain_response query = Some (Some r) \<and> length r = question_end \<and>
         take 2 r = take 2 query \<and>
         be16 (r ! 2) (r ! 3) = (if be16 (query ! 2) (query ! 3) AND FLAG_RD = 0 then 0x8083 else 0x8183) \<and>
         take 8 (drop 4 r) = [0, 1, 0, 0, 0, 0, 0, 0] \<and>
         drop 12 r = take (question_end - 12) (drop 12 query) \<and>
         parse_query r = Some None"
proof (cases "parse_query_with_end query")
  case None
  then show ?thesis by (simp add: parse_query_with_end_eq)
next
  case (Some a)
  show ?thesis
  proof (cases a)
    case None
    with Some show ?thesis by (simp add: nxdomain_response_def)
  next
    case s: (Some b)
    then obtain q e where p: "parse_query_with_end query = Some (Some (q, e))"
      using Some by (cases b) simp
    note e = parse_query_SomeD(1,2) [OF p]
    let ?r = "nx_bytes query e"
    have cnt: "[query ! 4, query ! 5] = [0, 1]"
      using to_be16_be16 [of "query ! 4" "query ! 5"]
      by (simp only: parse_query_SomeD(3) [OF p]) (simp add: to_be16_def)
    have t2: "take 2 query = [query ! 0, query ! 1]"
      using e take_take [of 2 12 query] by (simp add: take_12)
    have f: "be16 (?r ! 2) (?r ! 3) = nx_flags (be16 (query ! 2) (query ! 3))"
      by (simp add: nx_bytes_def to_be16_def)
    have "nx_flags g AND FLAG_QR \<noteq> 0" for g by (simp add: nx_flags_def FLAG_QR_def)
    then have "parse_query ?r = Some None"
      by (simp add: parse_query_def parse_query_with_end_eq f)
    moreover have "length ?r = e" using e by (simp add: nx_bytes_def)
    moreover have "take 8 (drop 4 ?r) = [0, 1, 0, 0, 0, 0, 0, 0]" "take 2 ?r = take 2 query"
      "drop 12 ?r = take (e - 12) (drop 12 query)"
      using cnt t2 by (simp_all add: nx_bytes_def to_be16_def)
    ultimately show ?thesis
      using nxdomain_response_eq [OF p] f by (simp add: p nx_flags_def)
  qed
qed

end
