(* ===== verification/Ip_Filter.thy ===== *)
theory Ip_Filter
  imports Radix
begin

text \<open>
  The second half of \<open>packages/net-shield/src/radix.rs\<close>: \<open>IpFilter\<close>, the prefix table
  over IPv4 and IPv6 addresses mapped into one 128-bit space. An IPv4 address is placed at
  \<open>::ffff:0:0/96\<close>. Rules are parsed from CIDR text, kept by descending prefix length (a
  stable sort) and scanned in order.
\<close>

datatype cidr_error = BadPrefixLength | BadAddress | PrefixLengthOutOfRange

record cidr_entry =
  ce_prefix :: u128
  ce_mask :: u128
  ce_action :: filter_action
  ce_prefix_len :: u8

record ip_filter =
  entries :: "cidr_entry list"

definition from_be_bytes :: "bytes \<Rightarrow> 'a::len word" where
  "from_be_bytes bs = foldl (\<lambda>w b. push_bit 8 w OR ucast b) 0 bs"

fun ip_to_u128 :: "ip_addr \<Rightarrow> u128" where
  "ip_to_u128 (V4 v4) = 0xffff00000000 OR ucast (from_be_bytes (octets v4) :: u32)"
| "ip_to_u128 (V6 v6) = from_be_bytes (octets6 v6)"

fun max_prefix_len :: "ip_addr \<Rightarrow> u8" where
  "max_prefix_len (V4 _) = 32"
| "max_prefix_len (V6 _) = 128"

fun mask_shift :: "ip_addr \<Rightarrow> nat" where
  "mask_shift (V4 _) = 128 - 32"
| "mask_shift (V6 _) = 0"

definition cidr_mask :: "ip_addr \<Rightarrow> u8 \<Rightarrow> u128" where
  "cidr_mask addr len =
     (if len = 0 then 0 else push_bit (128 - (unat len + mask_shift addr)) (- 1))"

function parse_cidr :: "string \<Rightarrow> filter_action \<Rightarrow> cidr_error + cidr_entry" where
  "parse_cidr cidr action =
     (case split_once CHR ''/'' cidr of
        Some (addr_str, len_str) \<Rightarrow>
          (case parse_u8 len_str of
             None \<Rightarrow> Inl BadPrefixLength
           | Some prefix_len \<Rightarrow>
               (case parse_ip addr_str of
                  None \<Rightarrow> Inl BadAddress
                | Some addr \<Rightarrow>
                    if \<not> prefix_len \<le> max_prefix_len addr then Inl PrefixLengthOutOfRange
                    else
                      (let mask = cidr_mask addr prefix_len
                       in Inr \<lparr>ce_prefix = ip_to_u128 addr AND mask, ce_mask = mask,
                               ce_action = action, ce_prefix_len = prefix_len\<rparr>)))
      | None \<Rightarrow>
          (case parse_ip cidr of
             None \<Rightarrow> Inl BadAddress
           | Some addr \<Rightarrow>
               parse_cidr (cidr @ (case addr of V4 _ \<Rightarrow> ''/32'' | V6 _ \<Rightarrow> ''/128'')) action))"
  by pat_completeness auto
termination
  by (relation "measure (\<lambda>(c, a). if CHR ''/'' \<in> set c then 0 else 1)")
     (auto simp: split_once_None split: ip_addr.splits)

declare parse_cidr.simps [simp del]

fun parse_rules :: "(string \<times> filter_action) list \<Rightarrow> cidr_error + cidr_entry list" where
  "parse_rules [] = Inr []"
| "parse_rules ((cidr, action) # rules) =
     (case parse_cidr cidr action of
        Inl e \<Rightarrow> Inl e
      | Inr entry \<Rightarrow>
          (case parse_rules rules of Inl e \<Rightarrow> Inl e | Inr es \<Rightarrow> Inr (entry # es)))"

definition ip_from_rules :: "(string \<times> filter_action) list \<Rightarrow> cidr_error + ip_filter" where
  "ip_from_rules rules =
     (case parse_rules rules of
        Inl e \<Rightarrow> Inl e
      | Inr es \<Rightarrow> Inr \<lparr>entries = sort_key (\<lambda>e. - int (unat (ce_prefix_len e))) es\<rparr>)"

definition entry_matches :: "cidr_entry \<Rightarrow> u128 \<Rightarrow> bool" where
  "entry_matches e bits \<longleftrightarrow> bits AND ce_mask e = ce_prefix e"

fun scan_entries :: "cidr_entry list \<Rightarrow> u128 \<Rightarrow> filter_action" where
  "scan_entries [] bits = Proxy"
| "scan_entries (e # es) bits =
     (if entry_matches e bits then ce_action e else scan_entries es bits)"

definition ip_lookup :: "ip_filter \<Rightarrow> ip_addr \<Rightarrow> filter_action" where
  "ip_lookup f addr = scan_entries (entries f) (ip_to_u128 addr)"

section \<open>Masks\<close>

lemma and_mask_eq_iff:
  fixes v w :: "'a::len word"
  shows "v AND push_bit k (- 1) = w AND push_bit k (- 1) \<longleftrightarrow> drop_bit k v = drop_bit k w"
proof
  assume h: "v AND push_bit k (- 1) = w AND push_bit k (- 1)"
  show "drop_bit k v = drop_bit k w"
  proof (rule bit_word_eqI)
    fix n assume "n < LENGTH('a)"
    have "bit (v AND push_bit k (- 1)) (k + n) = bit (w AND push_bit k (- 1)) (k + n)"
      by (simp only: h)
    then show "bit (drop_bit k v) n = bit (drop_bit k w) n"
      by (auto simp: bit_simps dest: bit_imp_le_length)
  qed
next
  assume h: "drop_bit k v = drop_bit k w"
  show "v AND push_bit k (- 1) = w AND push_bit k (- 1)"
  proof (rule bit_word_eqI)
    fix n assume n: "n < LENGTH('a)"
    have "bit (drop_bit k v) (n - k) = bit (drop_bit k w) (n - k)"
      by (simp only: h)
    with n show "bit (v AND push_bit k (- 1)) n = bit (w AND push_bit k (- 1)) n"
      by (auto simp: bit_simps)
  qed
qed

text \<open>What a parsed rule matches: the top \<open>len\<close> bits of the family's address space,
  counted from the top of the 128-bit word for IPv6 and from bit 31 for IPv4.\<close>

definition host_bits :: "ip_addr \<Rightarrow> u8 \<Rightarrow> nat" where
  "host_bits addr len = 128 - (unat len + mask_shift addr)"

lemma parse_cidr_slash:
  assumes "parse_ip a = Some addr" and "parse_u8 l = Some len" and "len \<le> max_prefix_len addr"
    and "CHR ''/'' \<notin> set a"
  shows "parse_cidr (a @ CHR ''/'' # l) act =
    Inr \<lparr>ce_prefix = ip_to_u128 addr AND cidr_mask addr len, ce_mask = cidr_mask addr len,
         ce_action = act, ce_prefix_len = len\<rparr>"
proof -
  have "split_once CHR ''/'' (a @ CHR ''/'' # l) = Some (a, l)"
    using assms(4) by (simp add: split_once_Some)
  with assms(1-3) show ?thesis
    by (subst parse_cidr.simps) (simp add: Let_def)
qed

lemma entry_matches_iff:
  assumes "ce_prefix e = ip_to_u128 addr AND cidr_mask addr len" and "ce_mask e = cidr_mask addr len"
    and "len \<noteq> 0"
  shows "entry_matches e x \<longleftrightarrow>
     drop_bit (host_bits addr len) x = drop_bit (host_bits addr len) (ip_to_u128 addr)"
  using assms and_mask_eq_iff [of x "host_bits addr len" "ip_to_u128 addr"]
  by (simp add: entry_matches_def cidr_mask_def host_bits_def)

section \<open>Scan order\<close>

lemma scan_entries_Proxy_or_match:
  "(scan_entries es x = Proxy \<and> (\<forall>e \<in> set es. \<not> entry_matches e x)) \<or>
   (\<exists>pre e post. es = pre @ e # post \<and> entry_matches e x \<and> scan_entries es x = ce_action e \<and>
      (\<forall>e' \<in> set pre. \<not> entry_matches e' x))"
proof (induction es)
  case (Cons a es)
  show ?case
  proof (cases "entry_matches a x")
    case True
    then show ?thesis by (intro disjI2 exI [of _ "[]"]) auto
  next
    case False
    with Cons.IH show ?thesis by simp (metis append_Cons set_ConsD)
  qed
qed simp

lemma scan_sorted_longest:
  assumes "sorted (map (\<lambda>e. - int (unat (ce_prefix_len e))) es)"
    and "\<exists>e \<in> set es. entry_matches e x"
  shows "\<exists>e \<in> set es. entry_matches e x \<and> scan_entries es x = ce_action e \<and>
     (\<forall>e' \<in> set es. entry_matches e' x \<longrightarrow> ce_prefix_len e' \<le> ce_prefix_len e)"
proof -
  from assms(2) scan_entries_Proxy_or_match [of es x] obtain pre e post where
    es: "es = pre @ e # post" and e: "entry_matches e x" "scan_entries es x = ce_action e"
    and pre: "\<forall>e' \<in> set pre. \<not> entry_matches e' x" by blast
  have "ce_prefix_len e' \<le> ce_prefix_len e" if "e' \<in> set es" "entry_matches e' x" for e'
  proof -
    from that es pre have "e' = e \<or> e' \<in> set post" by auto
    with assms(1) es show ?thesis
      by (auto simp: sorted_append word_le_def)
  qed
  with es e show ?thesis by auto
qed

lemma ip_from_rules_entries:
  assumes "ip_from_rules rules = Inr f"
  shows "\<exists>es. parse_rules rules = Inr es \<and> set (entries f) = set es \<and>
     sorted (map (\<lambda>e. - int (unat (ce_prefix_len e))) (entries f))"
  using assms by (auto simp: ip_from_rules_def split: sum.splits)

section \<open>What a rule covers\<close>

definition v4_bits :: "ipv4_addr \<Rightarrow> u32" where
  "v4_bits a = from_be_bytes (octets a)"

definition v6_bits :: "ipv6_addr \<Rightarrow> u128" where
  "v6_bits a = from_be_bytes (octets6 a)"

fun covers :: "ip_addr \<Rightarrow> u8 \<Rightarrow> ip_addr \<Rightarrow> bool" where
  "covers (V4 a) n (V4 x) \<longleftrightarrow> drop_bit (32 - unat n) (v4_bits a) = drop_bit (32 - unat n) (v4_bits x)"
| "covers (V6 a) n (V6 x) \<longleftrightarrow> drop_bit (128 - unat n) (v6_bits a) = drop_bit (128 - unat n) (v6_bits x)"
| "covers _ _ _ \<longleftrightarrow> False"

fun same_family :: "ip_addr \<Rightarrow> ip_addr \<Rightarrow> bool" where
  "same_family (V4 _) (V4 _) \<longleftrightarrow> True"
| "same_family (V6 _) (V6 _) \<longleftrightarrow> True"
| "same_family _ _ \<longleftrightarrow> False"

lemma drop_bit_full: "drop_bit LENGTH('a) (w :: 'a::len word) = 0"
  by (rule bit_eqI) (auto simp: bit_simps dest: bit_imp_le_length)

lemma drop_bit_mapped:
  fixes x y :: u32
  assumes "k \<le> 32"
  shows "drop_bit k (0xffff00000000 OR ucast x :: u128) = drop_bit k (0xffff00000000 OR ucast y)
     \<longleftrightarrow> drop_bit k x = drop_bit k y"
proof
  have low: "\<not> bit (0xffff00000000 :: u128) n" if "n < 32" for n
  proof -
    have "0xffff00000000 = push_bit 32 (0xffff :: u128)" by simp
    with that show ?thesis by (simp only: bit_simps) simp
  qed
  assume h: "drop_bit k (0xffff00000000 OR ucast x :: u128) = drop_bit k (0xffff00000000 OR ucast y)"
  show "drop_bit k x = drop_bit k y"
  proof (rule bit_word_eqI)
    fix n assume "n < LENGTH(32)"
    have "bit (drop_bit k (0xffff00000000 OR ucast x :: u128)) n
        = bit (drop_bit k (0xffff00000000 OR ucast y :: u128)) n" by (simp only: h)
    then show "bit (drop_bit k x) n = bit (drop_bit k y) n"
      using low [of "k + n"] by (cases "k + n < 32") (auto simp: bit_simps dest: bit_imp_le_length)
  qed
next
  assume h: "drop_bit k x = drop_bit k y"
  show "drop_bit k (0xffff00000000 OR ucast x :: u128) = drop_bit k (0xffff00000000 OR ucast y)"
  proof (rule bit_word_eqI)
    fix n assume "n < LENGTH(128)"
    have "bit (drop_bit k x) n = bit (drop_bit k y) n" by (simp only: h)
    then show "bit (drop_bit k (0xffff00000000 OR ucast x :: u128)) n
        = bit (drop_bit k (0xffff00000000 OR ucast y :: u128)) n"
      by (auto simp: bit_simps)
  qed
qed

lemma matches_covers:
  assumes "ce_prefix e = ip_to_u128 addr AND cidr_mask addr len" and "ce_mask e = cidr_mask addr len"
    and le: "len \<le> max_prefix_len addr" and fam: "same_family addr x"
  shows "entry_matches e (ip_to_u128 x) \<longleftrightarrow> covers addr len x"
proof (cases "len = 0")
  case True
  with assms show ?thesis
    using drop_bit_full [where 'a = 32] drop_bit_full [where 'a = 128]
    by (cases addr; cases x) (auto simp: entry_matches_def cidr_mask_def)
next
  case False
  note iff = entry_matches_iff [OF assms(1,2) False, of "ip_to_u128 x"]
  show ?thesis
  proof (cases addr)
    case (V4 a)
    with fam obtain y where x: "x = V4 y" by (cases x) auto
    have "host_bits addr len = 32 - unat len" by (simp add: host_bits_def V4)
    with iff drop_bit_mapped [of "32 - unat len" "v4_bits y" "v4_bits a"] show ?thesis
      by (auto simp: V4 x v4_bits_def)
  next
    case (V6 a)
    with fam obtain y where x: "x = V6 y" by (cases x) auto
    with iff show ?thesis by (auto simp: V6 host_bits_def v6_bits_def)
  qed
qed

text \<open>A CIDR rule that parses matches an address of its own family exactly when the
  address and the rule agree on the rule's leading bits; an over-long prefix is refused.\<close>

theorem cidr_rule_covers:
  assumes "parse_ip a = Some addr" and "parse_u8 l = Some len" and "CHR ''/'' \<notin> set a"
  shows "if len \<le> max_prefix_len addr
     then (\<exists>e. parse_cidr (a @ CHR ''/'' # l) act = Inr e \<and> ce_action e = act \<and>
            ce_prefix_len e = len \<and>
            (\<forall>x. same_family addr x \<longrightarrow> entry_matches e (ip_to_u128 x) = covers addr len x))
     else parse_cidr (a @ CHR ''/'' # l) act = Inl PrefixLengthOutOfRange"
proof (cases "len \<le> max_prefix_len addr")
  case True
  with parse_cidr_slash [OF assms(1,2) True assms(3), of act] show ?thesis
    by (auto simp: matches_covers [OF _ _ True])
next
  case False
  have "split_once CHR ''/'' (a @ CHR ''/'' # l) = Some (a, l)"
    using assms(3) by (simp add: split_once_Some)
  with assms False show ?thesis
    by (subst parse_cidr.simps) simp
qed

theorem cidr_rule_covers_witness:
  "\<exists>e. parse_cidr (''10.1.0.0'' @ CHR ''/'' # ''16'') Block = Inr e \<and>
      entry_matches e (ip_to_u128 (V4 (Ipv4Addr 10 1 77 3))) \<and>
      \<not> entry_matches e (ip_to_u128 (V4 (Ipv4Addr 10 2 77 3)))"
proof -
  have ip: "parse_ip ''10.1.0.0'' = Some (V4 (Ipv4Addr 10 1 0 0))" by code_simp
  have len: "parse_u8 ''16'' = Some 16" by code_simp
  have sep: "CHR ''/'' \<notin> set ''10.1.0.0''" by simp
  have in1: "covers (V4 (Ipv4Addr 10 1 0 0)) 16 (V4 (Ipv4Addr 10 1 77 3))" by code_simp
  have out2: "\<not> covers (V4 (Ipv4Addr 10 1 0 0)) 16 (V4 (Ipv4Addr 10 2 77 3))" by code_simp
  have max: "(16 :: u8) \<le> max_prefix_len (V4 (Ipv4Addr 10 1 0 0))" by simp
  from cidr_rule_covers [OF ip len sep, of Block, unfolded if_P [OF max]]
  obtain e where e: "parse_cidr (''10.1.0.0'' @ CHR ''/'' # ''16'') Block = Inr e"
    and m: "\<And>x. same_family (V4 (Ipv4Addr 10 1 0 0)) x \<Longrightarrow>
        entry_matches e (ip_to_u128 x) = covers (V4 (Ipv4Addr 10 1 0 0)) 16 x" by blast
  show ?thesis
    by (rule exI [of _ e], intro conjI, rule e) (simp_all only: m same_family.simps in1 out2 not_False_eq_True)
qed

text \<open>C36: a lookup returns the action of a matching rule of greatest prefix length, and
  \<open>Proxy\<close> when no rule matches.\<close>

theorem ip_lookup_longest_prefix:
  assumes "ip_from_rules rules = Inr f" and "parse_rules rules = Inr es"
  shows "if \<exists>e \<in> set es. entry_matches e (ip_to_u128 a)
     then (\<exists>e \<in> set es. entry_matches e (ip_to_u128 a) \<and> ip_lookup f a = ce_action e \<and>
            (\<forall>e' \<in> set es. entry_matches e' (ip_to_u128 a) \<longrightarrow> ce_prefix_len e' \<le> ce_prefix_len e))
     else ip_lookup f a = Proxy"
proof -
  from ip_from_rules_entries [OF assms(1)] assms(2)
  have set: "set es = set (entries f)"
    and srt: "sorted (map (\<lambda>e. - int (unat (ce_prefix_len e))) (entries f))" by auto
  show ?thesis
  proof (cases "\<exists>e \<in> set es. entry_matches e (ip_to_u128 a)")
    case True
    with scan_sorted_longest [OF srt, of "ip_to_u128 a"] show ?thesis
      by (simp add: set ip_lookup_def)
  next
    case False
    with scan_entries_Proxy_or_match [of "entries f" "ip_to_u128 a"] show ?thesis
      by (auto simp: set ip_lookup_def)
  qed
qed

lemma parse_cidr_samples:
  "parse_cidr ''10.0.0.0/8'' Block = Inr \<lparr>ce_prefix = 0xffff0a000000,
      ce_mask = NOT (mask 24), ce_action = Block, ce_prefix_len = 8\<rparr>"
  "parse_cidr ''10.1.0.0/16'' Allow = Inr \<lparr>ce_prefix = 0xffff0a010000,
      ce_mask = NOT (mask 16), ce_action = Allow, ce_prefix_len = 16\<rparr>"
  "parse_cidr ''1.2.3.4/32'' Block = Inr \<lparr>ce_prefix = 0xffff01020304,
      ce_mask = NOT 0, ce_action = Block, ce_prefix_len = 32\<rparr>"
  "parse_cidr ''::ffff:0:0/96'' Allow = Inr \<lparr>ce_prefix = 0xffff00000000,
      ce_mask = NOT (mask 32), ce_action = Allow, ce_prefix_len = 96\<rparr>"
proof -
  have ip: "parse_ip ''10.0.0.0'' = Some (V4 (Ipv4Addr 10 0 0 0))"
    "parse_ip ''10.1.0.0'' = Some (V4 (Ipv4Addr 10 1 0 0))"
    "parse_ip ''1.2.3.4'' = Some (V4 (Ipv4Addr 1 2 3 4))"
    "parse_ip ''::ffff:0:0'' = Some (V6 (Ipv6Addr [0,0,0,0,0,0,0,0,0,0,0xff,0xff,0,0,0,0]))" by code_simp+
  have len: "parse_u8 ''8'' = Some 8" "parse_u8 ''16'' = Some 16" "parse_u8 ''32'' = Some 32"
    "parse_u8 ''96'' = Some 96" by code_simp+
  have msk: "0xffff0a000000 AND NOT (mask 24) = (0xffff0a000000 :: u128)"
    "0xffff0a010000 AND NOT (mask 16) = (0xffff0a010000 :: u128)"
    "0xffff00000000 AND NOT (mask 32) = (0xffff00000000 :: u128)"
    by (simp_all add: mask_eq_exp_minus_1)
  show "parse_cidr ''10.0.0.0/8'' Block = Inr \<lparr>ce_prefix = 0xffff0a000000,
      ce_mask = NOT (mask 24), ce_action = Block, ce_prefix_len = 8\<rparr>"
    using parse_cidr_slash [OF ip(1) len(1), of Block]
    by (simp add: cidr_mask_def from_be_bytes_def msk)
  show "parse_cidr ''10.1.0.0/16'' Allow = Inr \<lparr>ce_prefix = 0xffff0a010000,
      ce_mask = NOT (mask 16), ce_action = Allow, ce_prefix_len = 16\<rparr>"
    using parse_cidr_slash [OF ip(2) len(2), of Allow]
    by (simp add: cidr_mask_def from_be_bytes_def msk)
  show "parse_cidr ''1.2.3.4/32'' Block = Inr \<lparr>ce_prefix = 0xffff01020304,
      ce_mask = NOT 0, ce_action = Block, ce_prefix_len = 32\<rparr>"
    using parse_cidr_slash [OF ip(3) len(3), of Block]
    by (simp add: cidr_mask_def from_be_bytes_def msk)
  show "parse_cidr ''::ffff:0:0/96'' Allow = Inr \<lparr>ce_prefix = 0xffff00000000,
      ce_mask = NOT (mask 32), ce_action = Allow, ce_prefix_len = 96\<rparr>"
    using parse_cidr_slash [OF ip(4) len(4), of Allow]
    by (simp add: cidr_mask_def from_be_bytes_def msk)
qed

theorem ip_lookup_longest_prefix_witness:
  "\<exists>f. ip_from_rules [(''10.0.0.0/8'', Block), (''10.1.0.0/16'', Allow)] = Inr f \<and>
     ip_lookup f (V4 (Ipv4Addr 10 1 2 3)) = Allow"
proof -
  let ?rules = "[(''10.0.0.0/8'', Block), (''10.1.0.0/16'', Allow)]"
  let ?bits = "ip_to_u128 (V4 (Ipv4Addr 10 1 2 3))"
  let ?e8 = "\<lparr>ce_prefix = 0xffff0a000000, ce_mask = NOT (mask 24), ce_action = Block,
      ce_prefix_len = 8\<rparr>"
  let ?e16 = "\<lparr>ce_prefix = 0xffff0a010000, ce_mask = NOT (mask 16), ce_action = Allow,
      ce_prefix_len = 16\<rparr>"
  have es: "parse_rules ?rules = Inr [?e8, ?e16]" by (simp add: parse_cidr_samples)
  then obtain f where f: "ip_from_rules ?rules = Inr f" by (simp add: ip_from_rules_def)
  have m: "entry_matches ?e8 ?bits" "entry_matches ?e16 ?bits" by code_simp+
  have "\<not> (16 :: u8) \<le> 8" by simp
  with ip_lookup_longest_prefix [OF f es, of "V4 (Ipv4Addr 10 1 2 3)"] m have "ip_lookup f (V4 (Ipv4Addr 10 1 2 3)) = Allow"
    by (simp del: ip_to_u128.simps)
  with f show ?thesis by blast
qed

text \<open>The families share one table: the rule \<open>0.0.0.0/0\<close> decides every address of
  both, and an IPv4 host rule is shadowed by the shorter IPv6 rule \<open>::ffff:0:0/96\<close>,
  whose numeric length is larger.\<close>

theorem ip_filter_families_mix:
  "(\<exists>f. ip_from_rules [(''0.0.0.0/0'', Block)] = Inr f \<and> (\<forall>x. ip_lookup f x = Block)) \<and>
   (\<exists>f. ip_from_rules [(''1.2.3.4/32'', Block), (''::ffff:0:0/96'', Allow)] = Inr f \<and>
      ip_lookup f (V4 (Ipv4Addr 1 2 3 4)) = Allow)"
proof
  have len: "parse_u8 ''0'' = Some 0" by code_simp
  have ip: "parse_ip ''0.0.0.0'' = Some (V4 (Ipv4Addr 0 0 0 0))" by code_simp
  have "parse_cidr ''0.0.0.0/0'' Block =
      Inr \<lparr>ce_prefix = 0, ce_mask = 0, ce_action = Block, ce_prefix_len = 0\<rparr>"
    using parse_cidr_slash [OF ip len, of Block] by (simp add: cidr_mask_def)
  then show "\<exists>f. ip_from_rules [(''0.0.0.0/0'', Block)] = Inr f \<and> (\<forall>x. ip_lookup f x = Block)"
    by (simp add: ip_from_rules_def ip_lookup_def entry_matches_def)
next
  let ?e96 = "\<lparr>ce_prefix = 0xffff00000000, ce_mask = NOT (mask 32), ce_action = Allow,
      ce_prefix_len = 96\<rparr>"
  have "entry_matches ?e96 (ip_to_u128 (V4 (Ipv4Addr 1 2 3 4)))" by code_simp
  then show "\<exists>f. ip_from_rules [(''1.2.3.4/32'', Block), (''::ffff:0:0/96'', Allow)] = Inr f \<and>
      ip_lookup f (V4 (Ipv4Addr 1 2 3 4)) = Allow"
    by (simp add: ip_from_rules_def parse_cidr_samples ip_lookup_def del: ip_to_u128.simps)
qed

end
