(* ===== verification/Tun.thy ===== *)
theory Tun
  imports Ip_Filter
begin

text \<open>
  \<open>packages/net-shield/src/tun.rs\<close>: the parsed 5-tuple of a raw IP datagram, the two
  header parsers, and the dispatch of a verdict to the packet sink. The sink is a trait
  object with three methods; its state is the list of the calls made on it, oldest first.
\<close>

definition PROTO_TCP :: u8 where "PROTO_TCP = 6"
definition PROTO_UDP :: u8 where "PROTO_UDP = 17"
definition PORT_HTTP :: u16 where "PORT_HTTP = 80"
definition PORT_HTTPS :: u16 where "PORT_HTTPS = 443"

record raw_packet =
  rp_bytes :: bytes
  rp_src_ip :: ip_addr
  rp_dst_ip :: ip_addr
  rp_src_port :: u16
  rp_dst_port :: u16
  rp_protocol :: u8

datatype sink_call =
  DropPacket raw_packet
| PassPacket raw_packet
| RedirectToProxy raw_packet u16

text \<open>The low nibble of the first byte, in 32-bit units.\<close>

definition header_len :: "u8 \<Rightarrow> nat" where
  "header_len b = unat (b AND 0x0f) * 4"

definition parse_ipv4_packet :: "bytes \<Rightarrow> raw_packet option exec" where
  "parse_ipv4_packet buf =
     (if length buf < 20 then Some None
      else do {
        b0 \<leftarrow> idx buf 0;
        if drop_bit 4 b0 \<noteq> 4 then Some None
        else do {
          let ihl = header_len b0;
          if length buf < ihl + 4 then Some None
          else do {
            protocol \<leftarrow> idx buf 9;
            s0 \<leftarrow> idx buf 12; s1 \<leftarrow> idx buf 13; s2 \<leftarrow> idx buf 14; s3 \<leftarrow> idx buf 15;
            d0 \<leftarrow> idx buf 16; d1 \<leftarrow> idx buf 17; d2 \<leftarrow> idx buf 18; d3 \<leftarrow> idx buf 19;
            ports \<leftarrow>
              (if protocol = PROTO_TCP \<or> protocol = PROTO_UDP then
                 (if length buf < ihl + 4 then Some None
                  else do {
                    p0 \<leftarrow> idx buf ihl; p1 \<leftarrow> idx buf (ihl + 1);
                    q0 \<leftarrow> idx buf (ihl + 2); q1 \<leftarrow> idx buf (ihl + 3);
                    Some (Some (be16 p0 p1, be16 q0 q1))
                  })
               else Some (Some (0, 0)));
            case ports of
              None \<Rightarrow> Some None
            | Some (sp, dp) \<Rightarrow>
                Some (Some \<lparr>rp_bytes = buf, rp_src_ip = V4 (Ipv4Addr s0 s1 s2 s3),
                  rp_dst_ip = V4 (Ipv4Addr d0 d1 d2 d3), rp_src_port = sp, rp_dst_port = dp,
                  rp_protocol = protocol\<rparr>)
          }
        }
      })"

text \<open>\<open><[u8; 16]>::try_from\<close>: succeeds on exactly 16 bytes.\<close>

definition ipv6_try_from :: "bytes \<Rightarrow> ipv6_addr option" where
  "ipv6_try_from bs = (if length bs = 16 then Some (Ipv6Addr bs) else None)"

definition parse_ipv6_packet :: "bytes \<Rightarrow> raw_packet option exec" where
  "parse_ipv6_packet buf =
     (if length buf < 40 then Some None
      else do {
        b0 \<leftarrow> idx buf 0;
        if drop_bit 4 b0 \<noteq> 6 then Some None
        else do {
          next_header \<leftarrow> idx buf 6;
          sb \<leftarrow> subslice buf 8 24;
          db \<leftarrow> subslice buf 24 40;
          case (ipv6_try_from sb, ipv6_try_from db) of
            (Some src, Some dst) \<Rightarrow>
              do {
                ports \<leftarrow>
                  (if next_header = PROTO_TCP \<or> next_header = PROTO_UDP then
                     (if length buf < 44 then Some None
                      else do {
                        p0 \<leftarrow> idx buf 40; p1 \<leftarrow> idx buf 41;
                        q0 \<leftarrow> idx buf 42; q1 \<leftarrow> idx buf 43;
                        Some (Some (be16 p0 p1, be16 q0 q1))
                      })
                   else Some (Some (0, 0)));
                case ports of
                  None \<Rightarrow> Some None
                | Some (sp, dp) \<Rightarrow>
                    Some (Some \<lparr>rp_bytes = buf, rp_src_ip = V6 src, rp_dst_ip = V6 dst,
                      rp_src_port = sp, rp_dst_port = dp, rp_protocol = next_header\<rparr>)
              }
          | _ \<Rightarrow> Some None
        }
      })"

definition dispatch :: "sink_call list \<Rightarrow> raw_packet \<Rightarrow> filter_action \<Rightarrow> u16 \<Rightarrow> sink_call list" where
  "dispatch sink pkt action proxy_port =
     sink @ [case action of
               Block \<Rightarrow> DropPacket pkt
             | Allow \<Rightarrow> PassPacket pkt
             | Proxy \<Rightarrow> RedirectToProxy pkt proxy_port]"

section \<open>The parsers return on every buffer\<close>

lemma header_len_le: "header_len b \<le> 60"
proof -
  have "b AND 0x0f \<le> 0x0f" by (rule word_and_le1)
  then have "unat (b AND 0x0f) \<le> 15" by (simp add: word_le_nat_alt)
  then show ?thesis by (simp add: header_len_def)
qed

text \<open>The ports a packet of this protocol carries at offset \<open>o\<close>.\<close>

definition ports_at :: "bytes \<Rightarrow> u8 \<Rightarrow> nat \<Rightarrow> u16 \<times> u16" where
  "ports_at buf protocol off =
     (if protocol = PROTO_TCP \<or> protocol = PROTO_UDP
      then (be16 (buf ! off) (buf ! (off + 1)), be16 (buf ! (off + 2)) (buf ! (off + 3)))
      else (0, 0))"

lemma parse_ipv4_packet_eq [exec_total]:
  "parse_ipv4_packet buf =
     Some (if length buf < 20 \<or> drop_bit 4 (buf ! 0) \<noteq> 4 \<or> length buf < header_len (buf ! 0) + 4
       then None
       else Some \<lparr>rp_bytes = buf,
         rp_src_ip = V4 (Ipv4Addr (buf ! 12) (buf ! 13) (buf ! 14) (buf ! 15)),
         rp_dst_ip = V4 (Ipv4Addr (buf ! 16) (buf ! 17) (buf ! 18) (buf ! 19)),
         rp_src_port = fst (ports_at buf (buf ! 9) (header_len (buf ! 0))),
         rp_dst_port = snd (ports_at buf (buf ! 9) (header_len (buf ! 0))),
         rp_protocol = buf ! 9\<rparr>)"
  by (simp add: parse_ipv4_packet_def ports_at_def idx_def Let_def)

lemma parse_ipv6_packet_eq [exec_total]:
  "parse_ipv6_packet buf =
     Some (if length buf < 40 \<or> drop_bit 4 (buf ! 0) \<noteq> 6 \<or>
         ((buf ! 6 = PROTO_TCP \<or> buf ! 6 = PROTO_UDP) \<and> length buf < 44)
       then None
       else Some \<lparr>rp_bytes = buf,
         rp_src_ip = V6 (Ipv6Addr (take 16 (drop 8 buf))),
         rp_dst_ip = V6 (Ipv6Addr (take 16 (drop 24 buf))),
         rp_src_port = fst (ports_at buf (buf ! 6) 40),
         rp_dst_port = snd (ports_at buf (buf ! 6) 40),
         rp_protocol = buf ! 6\<rparr>)"
  by (auto simp: parse_ipv6_packet_def ports_at_def idx_def subslice_def ipv6_try_from_def)

lemma dispatch_extends: "\<exists>c. dispatch sink pkt a p = sink @ [c]"
  by (simp add: dispatch_def)

end
