(* ===== verification/Udp.thy ===== *)
theory Udp
  imports Tun
begin

text \<open>
  \<open>packages/net-shield/src/udp.rs\<close>: IPv4/UDP framing for a TUN device. Builders allocate a
  zeroed buffer and write fields into it (\<open>copy_from_slice\<close> panics when the ranges differ in
  length or leave the buffer, so every write is in the panic monad). The checksum is the
  one's-complement sum of RFC 1071 over \<open>u32\<close> with end-around carry.
\<close>

definition IPV4_MIN_HEADER_LEN :: nat where "IPV4_MIN_HEADER_LEN = 20"
definition UDP_HEADER_LEN :: nat where "UDP_HEADER_LEN = 8"
definition IPV4_MAX_TOTAL_LEN :: nat where "IPV4_MAX_TOTAL_LEN = 65535"
definition IPV4_FLAG_MORE_FRAGMENTS :: u16 where "IPV4_FLAG_MORE_FRAGMENTS = 0x2000"
definition IPV4_FRAGMENT_OFFSET_MASK :: u16 where "IPV4_FRAGMENT_OFFSET_MASK = 0x1fff"
definition DEFAULT_TTL :: u8 where "DEFAULT_TTL = 64"

lemmas udp_consts = IPV4_MIN_HEADER_LEN_def UDP_HEADER_LEN_def IPV4_MAX_TOTAL_LEN_def
  IPV4_FLAG_MORE_FRAGMENTS_def IPV4_FRAGMENT_OFFSET_MASK_def DEFAULT_TTL_def PROTO_UDP_def

record ipv4_udp_datagram =
  dg_src_ip :: ipv4_addr
  dg_dst_ip :: ipv4_addr
  dg_src_port :: u16
  dg_dst_port :: u16
  dg_payload :: bytes

section \<open>Parsing\<close>

definition parse_ipv4_udp :: "bytes \<Rightarrow> ipv4_udp_datagram option exec" where
  "parse_ipv4_udp packet =
     (if length packet < IPV4_MIN_HEADER_LEN then Some None
      else do {
        b0 \<leftarrow> idx packet 0;
        if drop_bit 4 b0 \<noteq> 4 then Some None
        else if header_len b0 < IPV4_MIN_HEADER_LEN then Some None
        else do {
          let ihl = header_len b0;
          t0 \<leftarrow> idx packet 2; t1 \<leftarrow> idx packet 3;
          let total_len = unat (be16 t0 t1);
          if total_len < ihl \<or> length packet < total_len then Some None
          else do {
            f0 \<leftarrow> idx packet 6; f1 \<leftarrow> idx packet 7;
            let frag = be16 f0 f1;
            if frag AND IPV4_FLAG_MORE_FRAGMENTS \<noteq> 0 \<or> frag AND IPV4_FRAGMENT_OFFSET_MASK \<noteq> 0
            then Some None
            else do {
              protocol \<leftarrow> idx packet 9;
              if protocol \<noteq> PROTO_UDP then Some None
              else do {
                s0 \<leftarrow> idx packet 12; s1 \<leftarrow> idx packet 13; s2 \<leftarrow> idx packet 14; s3 \<leftarrow> idx packet 15;
                d0 \<leftarrow> idx packet 16; d1 \<leftarrow> idx packet 17; d2 \<leftarrow> idx packet 18; d3 \<leftarrow> idx packet 19;
                case subslice packet ihl total_len of
                  None \<Rightarrow> Some None
                | Some udp \<Rightarrow>
                    if length udp < UDP_HEADER_LEN then Some None
                    else do {
                      p0 \<leftarrow> idx udp 0; p1 \<leftarrow> idx udp 1;
                      q0 \<leftarrow> idx udp 2; q1 \<leftarrow> idx udp 3;
                      l0 \<leftarrow> idx udp 4; l1 \<leftarrow> idx udp 5;
                      let udp_len = unat (be16 l0 l1);
                      if udp_len < UDP_HEADER_LEN \<or> udp_len > length udp then Some None
                      else do {
                        payload \<leftarrow> subslice udp UDP_HEADER_LEN udp_len;
                        Some (Some \<lparr>dg_src_ip = Ipv4Addr s0 s1 s2 s3,
                          dg_dst_ip = Ipv4Addr d0 d1 d2 d3,
                          dg_src_port = be16 p0 p1, dg_dst_port = be16 q0 q1,
                          dg_payload = payload\<rparr>)
                      }
                    }
              }
            }
          }
        }
      })"

section \<open>The checksum\<close>

text \<open>The inner loop over one run, then \<open>while sum >> 16 != 0\<close>.\<close>

fun add_words :: "bytes \<Rightarrow> u32 \<Rightarrow> u32" where
  "add_words (a # b # run) s = add_words run (s + ucast (be16 a b))"
| "add_words [a] s = s + push_bit 8 (ucast a)"
| "add_words [] s = s"

lemma unat_drop_bit_16: "unat (drop_bit 16 s :: u32) = unat s div 65536"
  unfolding unsigned_drop_bit_eq using unat_u32_bound [of s]
  by (simp add: drop_bit_eq_div take_bit_nat_eq_self)

lemma unat_fold_step:
  "unat ((s AND 0xffff) + drop_bit 16 s :: u32) = unat s mod 65536 + unat s div 65536"
proof -
  have a: "unat (s AND 0xffff) = unat s mod 65536"
  proof -
    have "s AND 0xffff = s AND mask 16" by (simp add: mask_eq_exp_minus_1)
    then show ?thesis by (simp only: take_bit_eq_mask [symmetric] unsigned_take_bit_eq) (simp add: take_bit_eq_mod)
  qed
  have "unat s div 65536 < 65536"
    using unat_u32_bound [of s] by (simp add: less_mult_imp_div_less)
  then have "unat s mod 65536 + unat s div 65536 < 2 ^ 32"
    using mod_less_divisor [of 65536 "unat s"] by simp
  then show ?thesis by (simp only: unat_word_ariths a unat_drop_bit_16) simp
qed

function fold_carry :: "u32 \<Rightarrow> u32" where
  "fold_carry s = (if drop_bit 16 s \<noteq> 0 then fold_carry ((s AND 0xffff) + drop_bit 16 s) else s)"
  by pat_completeness auto
termination
proof (relation "measure unat")
  fix s :: u32
  assume "drop_bit 16 s \<noteq> 0"
  then have "unat (drop_bit 16 s) \<noteq> 0" by (simp only: unat_eq_0) simp
  then have "unat s div 65536 \<noteq> 0" by (simp only: unat_drop_bit_16) simp
  moreover have "unat s = unat s div 65536 * 65536 + unat s mod 65536" by simp
  ultimately have "unat s mod 65536 + unat s div 65536 < unat s" by linarith
  then show "((s AND 0xffff) + drop_bit 16 s, s) \<in> measure unat"
    by (simp only: in_measure unat_fold_step)
qed simp

declare fold_carry.simps [simp del]

definition ones_complement_checksum :: "bytes list \<Rightarrow> u16" where
  "ones_complement_checksum runs =
     NOT (ucast (foldl (\<lambda>sum run. fold_carry (add_words run sum)) (0 :: u32) runs))"

definition udp_checksum :: "ipv4_addr \<Rightarrow> ipv4_addr \<Rightarrow> bytes \<Rightarrow> u16 exec" where
  "udp_checksum src_ip dst_ip udp = do {
     pseudo \<leftarrow> copy_at (replicate 12 0) 0 (octets src_ip);
     pseudo \<leftarrow> copy_at pseudo 4 (octets dst_ip);
     pseudo \<leftarrow> set_at pseudo 8 0;
     pseudo \<leftarrow> set_at pseudo 9 PROTO_UDP;
     pseudo \<leftarrow> copy_at pseudo 10 (to_be16 (of_nat (length udp)));
     let sum = ones_complement_checksum [pseudo, udp];
     Some (if sum = 0 then 0xffff else sum)
   }"

section \<open>Building\<close>

definition build_ipv4_udp ::
  "ipv4_addr \<Rightarrow> ipv4_addr \<Rightarrow> u16 \<Rightarrow> u16 \<Rightarrow> bytes \<Rightarrow> bytes option exec" where
  "build_ipv4_udp src_ip dst_ip src_port dst_port payload =
     (let udp_len = UDP_HEADER_LEN + length payload;
          total_len = IPV4_MIN_HEADER_LEN + udp_len
      in if total_len > IPV4_MAX_TOTAL_LEN then Some None
         else do {
           packet \<leftarrow> set_at (replicate total_len 0) 0 0x45;
           packet \<leftarrow> set_at packet 1 0;
           packet \<leftarrow> copy_at packet 2 (to_be16 (of_nat total_len));
           packet \<leftarrow> copy_at packet 4 (to_be16 0);
           packet \<leftarrow> copy_at packet 6 (to_be16 0);
           packet \<leftarrow> set_at packet 8 DEFAULT_TTL;
           packet \<leftarrow> set_at packet 9 PROTO_UDP;
           packet \<leftarrow> copy_at packet 12 (octets src_ip);
           packet \<leftarrow> copy_at packet 16 (octets dst_ip);
           header \<leftarrow> subslice packet 0 IPV4_MIN_HEADER_LEN;
           packet \<leftarrow> copy_at packet 10 (to_be16 (ones_complement_checksum [header]));
           packet \<leftarrow> copy_at packet (IPV4_MIN_HEADER_LEN + 0) (to_be16 src_port);
           packet \<leftarrow> copy_at packet (IPV4_MIN_HEADER_LEN + 2) (to_be16 dst_port);
           packet \<leftarrow> copy_at packet (IPV4_MIN_HEADER_LEN + 4) (to_be16 (of_nat udp_len));
           packet \<leftarrow> copy_at packet (IPV4_MIN_HEADER_LEN + UDP_HEADER_LEN) payload;
           udp \<leftarrow> subslice_from packet IPV4_MIN_HEADER_LEN;
           checksum \<leftarrow> udp_checksum src_ip dst_ip udp;
           packet \<leftarrow> copy_at packet (IPV4_MIN_HEADER_LEN + 6) (to_be16 checksum);
           Some (Some packet)
         })"

definition reply_to :: "ipv4_udp_datagram \<Rightarrow> bytes \<Rightarrow> bytes option exec" where
  "reply_to request payload =
     build_ipv4_udp (dg_dst_ip request) (dg_src_ip request) (dg_dst_port request)
       (dg_src_port request) payload"

section \<open>Sums of words\<close>

text \<open>The sum of the run's big-endian words in unbounded arithmetic, and what the folding
  computes of it: a representative modulo 65535 that is zero only for a zero sum.\<close>

fun word_sum :: "bytes \<Rightarrow> nat" where
  "word_sum (a # b # run) = unat (be16 a b) + word_sum run"
| "word_sum [a] = 256 * unat a"
| "word_sum [] = 0"

lemma word_sum_bound: "word_sum run \<le> 65535 * length run"
proof (induction run rule: word_sum.induct)
  case (1 a b run)
  then show ?case using unat_u16_bound [of "be16 a b"] by simp
next
  case (2 a)
  then show ?case using unat_u8_bound [of a] by simp
qed simp

lemma word_sum_append: "even (length xs) \<Longrightarrow> word_sum (xs @ ys) = word_sum xs + word_sum ys"
  by (induction xs rule: word_sum.induct) auto

lemma add_words_unat:
  "unat s + word_sum run < 2 ^ 32 \<Longrightarrow> unat (add_words run s) = unat s + word_sum run"
proof (induction run s rule: add_words.induct)
  case (1 a b run s)
  have u: "unat (ucast (be16 a b) :: u32) = unat (be16 a b)"
    using unat_u16_bound [of "be16 a b"] by (simp add: unsigned_ucast_eq take_bit_nat_eq_self)
  from 1(2) have "unat (s + ucast (be16 a b)) = unat s + unat (be16 a b)"
    by (simp add: unat_word_ariths u)
  with 1 show ?case by simp
next
  case (2 a s)
  have u: "unat (ucast a :: u32) = unat a"
    using unat_u8_bound [of a] by (simp add: unsigned_ucast_eq take_bit_nat_eq_self)
  have "unat (push_bit 8 (ucast a :: u32)) = 256 * unat a"
    using unat_u8_bound [of a] by (simp add: push_bit_eq_mult unat_word_ariths u)
  with 2 show ?case by (simp only: add_words.simps word_sum.simps unat_word_ariths) simp
qed simp

text \<open>The folded value as a function of the sum.\<close>

definition folded :: "nat \<Rightarrow> nat" where
  "folded n = (if n = 0 then 0 else (n - 1) mod 65535 + 1)"

lemma folded_step: "65536 \<le> n \<Longrightarrow> folded (n mod 65536 + n div 65536) = folded n"
proof -
  assume n: "65536 \<le> n"
  let ?m = "n mod 65536 + n div 65536"
  have eq: "n = 65535 * (n div 65536) + ?m" using mult_div_mod_eq [of 65536 n] by linarith
  from n have pos: "0 < ?m" using div_le_mono [of 65536 n 65536] by simp
  have "n - 1 = 65535 * (n div 65536) + (?m - 1)" using eq pos by linarith
  then have "(n - 1) mod 65535 = (?m - 1) mod 65535" by (metis mod_mult_self4)
  then show ?thesis using pos n by (simp only: folded_def) auto
qed

lemma folded_id: "n < 65536 \<Longrightarrow> folded n = n"
  by (cases n) (auto simp: folded_def)

lemma folded_lt: "folded n < 65536"
  by (simp add: folded_def)

lemma folded_add: "folded (folded m + n) = folded (m + n)"
proof (cases "m = 0")
  case False
  have "m = 65535 * ((m - 1) div 65535) + folded m"
    using False mult_div_mod_eq [of 65535 "m - 1"] by (simp add: folded_def)
  then have "m + n - 1 = 65535 * ((m - 1) div 65535) + (folded m + n - 1)"
    using False by (simp add: folded_def)
  then have "(m + n - 1) mod 65535 = (folded m + n - 1) mod 65535"
    by (metis mod_mult_self4)
  then show ?thesis using False by (simp add: folded_def)
qed (simp add: folded_def)

lemma fold_carry_unat: "unat (fold_carry s) = folded (unat s)"
proof (induction s rule: fold_carry.induct)
  case (1 s)
  have "drop_bit 16 s = 0 \<longleftrightarrow> unat (drop_bit 16 s) = 0" by (simp only: unat_eq_0)
  also have "\<dots> \<longleftrightarrow> unat s < 65536"
    by (simp only: unat_drop_bit_16) (simp add: div_eq_0_iff)
  finally have dz: "drop_bit 16 s = 0 \<longleftrightarrow> unat s < 65536" .
  show ?case
  proof (cases "drop_bit 16 s = 0")
    case True
    with dz show ?thesis by (subst fold_carry.simps) (simp add: folded_id)
  next
    case False
    with 1 dz show ?thesis
      by (subst fold_carry.simps) (simp add: unat_fold_step folded_step)
  qed
qed

text \<open>The checksum of a list of runs is the complement of the folded sum of their words, as
  long as no run is long enough to overflow the 32-bit accumulator.\<close>

lemma unat_checksum:
  assumes "\<forall>run \<in> set runs. length run \<le> 65535"
  shows "unat (ones_complement_checksum runs) = 65535 - folded (\<Sum>run\<leftarrow>runs. word_sum run)"
proof -
  let ?f = "\<lambda>s run. fold_carry (add_words run s)"
  have "unat (foldl ?f s runs) = folded (unat s + (\<Sum>run\<leftarrow>runs. word_sum run))"
    if "unat s < 65536" for s
    using assms that
  proof (induction runs arbitrary: s)
    case Nil
    then show ?case by (simp add: folded_id)
  next
    case (Cons run runs)
    have "unat s + word_sum run < 2 ^ 32"
      using Cons.prems word_sum_bound [of run] by simp
    then have "unat (?f s run) = folded (unat s + word_sum run)"
      by (simp add: fold_carry_unat add_words_unat)
    with Cons show ?case by (simp add: folded_lt folded_add add.assoc)
  qed
  from this [of 0] have u: "unat (foldl ?f 0 runs) = folded (\<Sum>run\<leftarrow>runs. word_sum run)" by simp
  have "unat (ucast (foldl ?f 0 runs) :: u16) = folded (\<Sum>run\<leftarrow>runs. word_sum run)"
    using folded_lt by (simp add: unsigned_ucast_eq u take_bit_nat_eq_self)
  then show ?thesis
    by (simp add: ones_complement_checksum_def unat_not)
qed

text \<open>A receiver sums all words, the checksum included, and accepts on all ones: the field
  holding the complement of a non-zero sum makes the total fold to all ones.\<close>

lemma folded_with_checksum:
  assumes "0 < n"
  shows "folded (n + (65535 - folded n)) = 65535"
proof -
  have f: "0 < folded n" "folded n \<le> 65535" using assms by (simp_all add: folded_def Suc_leI)
  have "folded (n + (65535 - folded n)) = folded (folded n + (65535 - folded n))"
    by (simp add: folded_add)
  also have "\<dots> = 65535" using f by (simp add: folded_id)
  finally show ?thesis .
qed

section \<open>What the builder writes\<close>

definition ip_header :: "ipv4_addr \<Rightarrow> ipv4_addr \<Rightarrow> nat \<Rightarrow> u16 \<Rightarrow> bytes" where
  "ip_header src dst n ck =
     [0x45, 0] @ to_be16 (of_nat n) @ [0, 0, 0, 0, 64, 17] @ to_be16 ck @ octets src @ octets dst"

definition udp_segment :: "u16 \<Rightarrow> u16 \<Rightarrow> nat \<Rightarrow> u16 \<Rightarrow> bytes \<Rightarrow> bytes" where
  "udp_segment sp dp n ck payload = to_be16 sp @ to_be16 dp @ to_be16 (of_nat n) @ to_be16 ck @ payload"

definition pseudo_header :: "ipv4_addr \<Rightarrow> ipv4_addr \<Rightarrow> nat \<Rightarrow> bytes" where
  "pseudo_header src dst n = octets src @ octets dst @ [0, 17] @ to_be16 (of_nat n)"

definition nonzero_checksum :: "u16 \<Rightarrow> u16" where
  "nonzero_checksum c = (if c = 0 then 0xffff else c)"

lemma udp_checksum_eq:
  "udp_checksum src dst udp =
     Some (nonzero_checksum (ones_complement_checksum [pseudo_header src dst (length udp), udp]))"
proof -
  have "replicate 12 (0 :: u8) = [0,0,0,0,0,0,0,0,0,0,0,0]" by (simp add: numeral_eq_Suc)
  then show ?thesis
  by (cases src; cases dst)
     (simp add: udp_checksum_def copy_at_def set_at_def pseudo_header_def nonzero_checksum_def
        PROTO_UDP_def to_be16_def Let_def)
qed

definition built :: "ipv4_addr \<Rightarrow> ipv4_addr \<Rightarrow> u16 \<Rightarrow> u16 \<Rightarrow> bytes \<Rightarrow> bytes" where
  "built src dst sp dp payload =
     ip_header src dst (28 + length payload)
       (ones_complement_checksum [ip_header src dst (28 + length payload) 0]) @
     udp_segment sp dp (8 + length payload)
       (nonzero_checksum (ones_complement_checksum
          [pseudo_header src dst (8 + length payload),
           udp_segment sp dp (8 + length payload) 0 payload]))
       payload"

lemma build_ipv4_udp_eq:
  "build_ipv4_udp src dst sp dp payload =
     Some (if 28 + length payload > 65535 then None else Some (built src dst sp dp payload))"
proof (cases "28 + length payload > 65535")
  case True
  then show ?thesis by (simp add: build_ipv4_udp_def Let_def udp_consts)
next
  case False
  obtain a b c d e f g h where sd: "src = Ipv4Addr a b c d" "dst = Ipv4Addr e f g h"
    by (metis ipv4_addr.exhaust)
  have zeros: "replicate (28 + length payload) (0 :: u8) =
      [0,0,0,0,0,0,0,0,0,0,0,0,0,0,0,0,0,0,0,0,0,0,0,0,0,0,0,0] @ replicate (length payload) 0"
    by (simp only: replicate_add) (simp add: numeral_eq_Suc)
  have suc8: "Suc (Suc (Suc (Suc (Suc (Suc (Suc (Suc (length payload)))))))) = 8 + length payload"
    by simp
  show ?thesis
    using False
    by (simp add: build_ipv4_udp_def Let_def udp_consts zeros set_at_def copy_at_def sd
        subslice_def subslice_from_def udp_checksum_eq built_def ip_header_def udp_segment_def
        to_be16_def del: replicate_add) (simp only: suc8 simp_thms)
qed

lemma unat_of_nat_u16: "n < 65536 \<Longrightarrow> unat (of_nat n :: u16) = n"
  by (simp add: unat_of_nat)

lemma take_8_plus:
  "take (8 + n) (a # b # c # d # e # f # g # h # xs) = a # b # c # d # e # f # g # h # take n xs"
  by (simp add: eval_nat_numeral)

lemma built_parses:
  assumes "build_ipv4_udp src dst sp dp payload = Some (Some p)"
  shows "parse_ipv4_udp (p @ rest) =
     Some (Some \<lparr>dg_src_ip = src, dg_dst_ip = dst, dg_src_port = sp, dg_dst_port = dp,
       dg_payload = payload\<rparr>)"
proof -
  obtain a b c d e f g h where sd: "src = Ipv4Addr a b c d" "dst = Ipv4Addr e f g h"
    by (metis ipv4_addr.exhaust)
  from assms have n: "28 + length payload \<le> 65535" and p: "p = built src dst sp dp payload"
    by (auto simp: build_ipv4_udp_eq split: if_splits)
  have tl: "unat (of_nat (28 + length payload) :: u16) = 28 + length payload"
    and ul: "unat (of_nat (8 + length payload) :: u16) = 8 + length payload"
    using n by (simp_all only: unat_of_nat_u16)
  have hl: "header_len 0x45 = 20" by (simp add: header_len_def)
  show ?thesis
    using n tl ul
    by (simp add: p built_def ip_header_def udp_segment_def sd to_be16_def parse_ipv4_udp_def
        idx_def hl udp_consts subslice_def Let_def take_8_plus)
qed

text \<open>A datagram that was built parses back, also inside a longer read, to the endpoints
  and payload it was built from.\<close>

theorem udp_build_parse:
  assumes "build_ipv4_udp src dst sp dp payload = Some (Some p)"
  shows "parse_ipv4_udp (p @ rest) =
     Some (Some \<lparr>dg_src_ip = src, dg_dst_ip = dst, dg_src_port = sp, dg_dst_port = dp,
       dg_payload = payload\<rparr>)"
  by (rule built_parses [OF assms])

text \<open>A receiver's check succeeds on a built datagram: the header sums to all ones, and
  so does the UDP segment under its pseudo-header, whose checksum field is never zero.\<close>

theorem udp_build_checksums:
  assumes "build_ipv4_udp src dst sp dp payload = Some (Some p)"
  shows "ones_complement_checksum [take 20 p] = 0 \<and>
     ones_complement_checksum [pseudo_header src dst (length payload + 8), drop 20 p] = 0 \<and>
     take 2 (drop 26 p) \<noteq> [0, 0]"
proof -
  obtain a b c d e f g h where sd: "src = Ipv4Addr a b c d" "dst = Ipv4Addr e f g h"
    by (metis ipv4_addr.exhaust)
  let ?n = "length payload"
  from assms have n: "28 + ?n \<le> 65535" and p: "p = built src dst sp dp payload"
    by (auto simp: build_ipv4_udp_eq split: if_splits)
  let ?hck = "ones_complement_checksum [ip_header src dst (28 + ?n) 0]"
  let ?seg = "udp_segment sp dp (8 + ?n)"
  let ?ps = "pseudo_header src dst (8 + ?n)"
  let ?raw = "ones_complement_checksum [?ps, ?seg 0 payload]"
  have len: "length (ip_header src dst (28 + ?n) ck) = 20" "length ?ps = 12"
    "length (?seg ck payload) = 8 + ?n" for ck
    by (simp_all add: ip_header_def pseudo_header_def udp_segment_def sd)
  have sum_h: "word_sum (ip_header src dst (28 + ?n) ck) =
      word_sum (ip_header src dst (28 + ?n) 0) + unat ck" for ck
    by (simp add: ip_header_def sd to_be16_def)
  have sum_u: "word_sum (?seg ck payload) = word_sum (?seg 0 payload) + unat ck" for ck
    by (simp add: udp_segment_def to_be16_def)
  have pos_h: "0 < word_sum (ip_header src dst (28 + ?n) 0)"
    by (simp add: ip_header_def sd to_be16_def unat_be16)
  have pos_u: "0 < word_sum ?ps"
    by (simp add: pseudo_header_def sd to_be16_def unat_be16)
  let ?h = "word_sum (ip_header src dst (28 + ?n) 0)"
  have chk_h: "unat (ones_complement_checksum [ip_header src dst (28 + ?n) ck]) =
      65535 - folded (?h + unat ck)" for ck
    by (subst unat_checksum) (simp_all add: len sum_h [of ck])
  have "unat (ones_complement_checksum [ip_header src dst (28 + ?n) ?hck]) = 0"
    using folded_with_checksum [OF pos_h] by (simp only: chk_h) simp
  moreover have "unat (ones_complement_checksum [?ps, ?seg (nonzero_checksum ?raw) payload]) = 0"
  proof -
    let ?w = "word_sum ?ps + word_sum (?seg 0 payload)"
    have chk_u: "unat (ones_complement_checksum [?ps, ?seg ck payload]) = 65535 - folded (?w + unat ck)" for ck
      using n by (subst unat_checksum) (simp_all add: len sum_u [of ck] add.assoc)
    then have raw: "unat ?raw = 65535 - folded ?w" by simp
    have "unat (nonzero_checksum ?raw) = 65535 - folded ?w \<or>
        unat (nonzero_checksum ?raw) = 65535 \<and> folded ?w = 65535"
      using raw folded_lt [of ?w] by (auto simp: nonzero_checksum_def)
    then have "folded (?w + unat (nonzero_checksum ?raw)) = 65535"
    proof
      assume "unat (nonzero_checksum ?raw) = 65535 - folded ?w"
      then show ?thesis using folded_with_checksum [of ?w] pos_u by simp
    next
      assume h: "unat (nonzero_checksum ?raw) = 65535 \<and> folded ?w = 65535"
      have "folded (?w + 65535) = folded (65535 + 65535)"
        using h folded_add [of ?w 65535] by simp
      then show ?thesis using h by (simp add: folded_def)
    qed
    then show ?thesis by (simp add: chk_u)
  qed
  moreover have "to_be16 (nonzero_checksum w) \<noteq> [0, 0]" for w
  proof
    assume "to_be16 (nonzero_checksum w) = [0, 0]"
    then have "nonzero_checksum w = be16 0 0" by (metis be16_to_be16 list.inject to_be16_def)
    then show False by (simp add: nonzero_checksum_def split: if_splits)
  qed
  moreover have "take 2 (drop 6 (?seg ck payload)) = to_be16 ck" for ck
    by (simp add: udp_segment_def to_be16_def)
  ultimately show ?thesis
    using len(1) by (simp add: p built_def add.commute unat_eq_0)
qed

text \<open>A minimal datagram: no payload.\<close>

lemma build_sample:
  "build_ipv4_udp (Ipv4Addr 10 0 0 1) (Ipv4Addr 10 0 0 2) 53 4000 [7] =
     Some (Some (built (Ipv4Addr 10 0 0 1) (Ipv4Addr 10 0 0 2) 53 4000 [7]))"
  by (simp add: build_ipv4_udp_eq)

theorem udp_build_parse_witness:
  "\<exists>p. build_ipv4_udp (Ipv4Addr 10 0 0 1) (Ipv4Addr 10 0 0 2) 53 4000 [7] = Some (Some p) \<and>
     parse_ipv4_udp (p @ [1, 2]) = Some (Some \<lparr>dg_src_ip = Ipv4Addr 10 0 0 1,
       dg_dst_ip = Ipv4Addr 10 0 0 2, dg_src_port = 53, dg_dst_port = 4000, dg_payload = [7]\<rparr>)"
  using build_sample udp_build_parse [OF build_sample] by blast

theorem udp_build_checksums_witness:
  "\<exists>p. build_ipv4_udp (Ipv4Addr 10 0 0 1) (Ipv4Addr 10 0 0 2) 53 4000 [7] = Some (Some p) \<and>
     ones_complement_checksum [take 20 p] = 0"
  using build_sample udp_build_checksums [OF build_sample] by blast

section \<open>Totality and the reply\<close>

lemma parse_ipv4_udp_total [exec_total]: "parse_ipv4_udp packet \<noteq> None"
  by (auto simp: parse_ipv4_udp_def idx_def subslice_def udp_consts Let_def)

lemma take_drop_window:
  "n \<le> m \<Longrightarrow> take (n - k) (drop k (take m (drop h xs))) = take (n - k) (drop (h + k) xs)"
  by (simp add: drop_take add.commute)

lemma parse_ipv4_udp_SomeD:
  assumes "parse_ipv4_udp packet = Some (Some d)"
  shows "20 \<le> length packet"
    and "20 \<le> header_len (packet ! 0)"
    and "header_len (packet ! 0) + 8 \<le> unat (be16 (packet ! 2) (packet ! 3))"
    and "unat (be16 (packet ! 2) (packet ! 3)) \<le> length packet"
    and "be16 (packet ! 6) (packet ! 7) AND 0x2000 = 0"
    and "be16 (packet ! 6) (packet ! 7) AND 0x1fff = 0"
    and "\<exists>udp_len. 8 \<le> udp_len \<and> header_len (packet ! 0) + udp_len \<le> unat (be16 (packet ! 2) (packet ! 3)) \<and>
      dg_payload d = take (udp_len - 8) (drop (header_len (packet ! 0) + 8) packet)"
proof -
  let ?tl = "unat (be16 (packet ! 2) (packet ! 3))" and ?hl = "header_len (packet ! 0)"
  let ?udp = "take (?tl - ?hl) (drop ?hl packet)"
  let ?n = "unat (be16 (?udp ! 4) (?udp ! 5))"
  from assms have *: "20 \<le> length packet" "20 \<le> ?hl" "?hl \<le> ?tl" "?tl \<le> length packet"
    "8 \<le> length ?udp" "8 \<le> ?n" "?n \<le> length ?udp"
    "be16 (packet ! 6) (packet ! 7) AND 0x2000 = 0" "be16 (packet ! 6) (packet ! 7) AND 0x1fff = 0"
    "dg_payload d = take (?n - 8) (drop 8 ?udp)"
    unfolding parse_ipv4_udp_def udp_consts Let_def
    by (simp_all add: idx_def subslice_def split: if_split_asm bind_splits) auto
  from * show "20 \<le> length packet" "20 \<le> ?hl" "?hl + 8 \<le> ?tl" "?tl \<le> length packet"
    "be16 (packet ! 6) (packet ! 7) AND 0x2000 = 0" "be16 (packet ! 6) (packet ! 7) AND 0x1fff = 0"
    by simp_all
  from * show "\<exists>udp_len. 8 \<le> udp_len \<and> ?hl + udp_len \<le> ?tl \<and>
      dg_payload d = take (udp_len - 8) (drop (?hl + 8) packet)"
  proof (intro exI [of _ ?n] conjI)
    from * have m: "?n \<le> ?tl - ?hl" by (simp only: length_take length_drop) linarith
    then show "dg_payload d = take (?n - 8) (drop (?hl + 8) packet)"
      by (simp only: *(10) take_drop_window)
    from *(3) m show "?hl + ?n \<le> ?tl" by linarith
  qed (rule *(6))
qed

text \<open>Parsing never panics; what it accepts is an unfragmented datagram inside the buffer,
  whose payload is a contiguous part of the first \<open>total_len\<close> bytes.\<close>

theorem udp_parse_safe:
  "\<exists>r. parse_ipv4_udp packet = Some r \<and>
     (case r of None \<Rightarrow> True
      | Some d \<Rightarrow>
          28 \<le> length packet \<and> be16 (packet ! 6) (packet ! 7) AND 0x3fff = 0 \<and>
          (\<exists>off n. off + n \<le> unat (be16 (packet ! 2) (packet ! 3)) \<and>
             unat (be16 (packet ! 2) (packet ! 3)) \<le> length packet \<and>
             dg_payload d = take n (drop off packet)))"
proof -
  have frag: "f AND 0x3fff = 0" if "f AND 0x2000 = 0" "f AND 0x1fff = 0" for f :: u16
  proof -
    have "f AND 0x3fff = (f AND 0x2000) OR (f AND 0x1fff)"
      by (simp add: bit.conj_disj_distrib [symmetric])
    with that show ?thesis by simp
  qed
  from parse_ipv4_udp_total [of packet] obtain r where r: "parse_ipv4_udp packet = Some r" by blast
  show ?thesis
  proof (cases r)
    case None
    with r show ?thesis by simp
  next
    case (Some d)
    note * = parse_ipv4_udp_SomeD [OF r [unfolded Some]]
    from *(7) obtain n where n: "8 \<le> n" "header_len (packet ! 0) + n \<le> unat (be16 (packet ! 2) (packet ! 3))"
      "dg_payload d = take (n - 8) (drop (header_len (packet ! 0) + 8) packet)" by blast
    then have "(header_len (packet ! 0) + 8) + (n - 8) \<le> unat (be16 (packet ! 2) (packet ! 3))" by simp
    with n(3) *(4) have "\<exists>off n. off + n \<le> unat (be16 (packet ! 2) (packet ! 3)) \<and>
        unat (be16 (packet ! 2) (packet ! 3)) \<le> length packet \<and> dg_payload d = take n (drop off packet)"
      by blast
    moreover have "28 \<le> length packet" using *(1-4) by simp
    ultimately show ?thesis using r Some frag [OF *(5,6)] by simp
  qed
qed

lemma reply_to_cases:
  "if 28 + length payload > 65535 then reply_to d payload = Some None
   else (\<exists>r. reply_to d payload = Some (Some r) \<and> length r = 28 + length payload \<and>
       parse_ipv4_udp r = Some (Some \<lparr>dg_src_ip = dg_dst_ip d, dg_dst_ip = dg_src_ip d,
         dg_src_port = dg_dst_port d, dg_dst_port = dg_src_port d, dg_payload = payload\<rparr>))"
proof (cases "28 + length payload > 65535")
  case True
  then show ?thesis by (simp add: reply_to_def build_ipv4_udp_eq)
next
  case False
  let ?r = "built (dg_dst_ip d) (dg_src_ip d) (dg_dst_port d) (dg_src_port d) payload"
  from False have b: "build_ipv4_udp (dg_dst_ip d) (dg_src_ip d) (dg_dst_port d) (dg_src_port d) payload
      = Some (Some ?r)" by (simp add: build_ipv4_udp_eq)
  have "length ?r = 28 + length payload"
    by (cases "dg_src_ip d"; cases "dg_dst_ip d") (simp add: built_def ip_header_def udp_segment_def)
  with b built_parses [OF b, of "[]"] False show ?thesis by (simp add: reply_to_def)
qed

text \<open>The reply to a request, when it fits, is a datagram that parses to the exchanged
  endpoints and the given payload; it is refused only above the IPv4 size limit.\<close>

theorem udp_reply_swaps:
  "if 28 + length payload > 65535 then reply_to d payload = Some None
   else (\<exists>r. reply_to d payload = Some (Some r) \<and> length r = 28 + length payload \<and>
       parse_ipv4_udp r = Some (Some \<lparr>dg_src_ip = dg_dst_ip d, dg_dst_ip = dg_src_ip d,
         dg_src_port = dg_dst_port d, dg_dst_port = dg_src_port d, dg_payload = payload\<rparr>))"
  by (rule reply_to_cases)

end
