(* ===== verification/Dns_Shield.thy ===== *)
theory Dns_Shield
  imports Artifact Lookup_Worker Dns Udp
begin

text \<open>
  The DNS filter over one TUN packet (\<open>net-shield/src/dns_shield.rs\<close>): a pure decision that
  ignores, refuses or forwards a query.  The blocklist handle is represented by the action its
  \<open>lookup\<close> returns for each name in this round; \<open>Lookup_Worker\<close> shows which answers those can be.
\<close>

datatype dns_verdict =
  Ignore
| Blocked string bytes
| Forward string bytes

record dns_shield =
  ds_explicit :: domain_filter
  ds_allowlist :: allowlist
  ds_keywords :: keyword_rules
  ds_blocklist :: "(string \<Rightarrow> filter_action) option"

definition dns_shield_new :: "domain_filter \<Rightarrow> dns_shield" where
  "dns_shield_new domains =
     \<lparr>ds_explicit = domains, ds_allowlist = \<lparr>al_entries = {}\<rparr>, ds_keywords = \<lparr>tokens = []\<rparr>, ds_blocklist = None\<rparr>"

definition with_policy :: "domain_filter \<Rightarrow> allowlist \<Rightarrow> (string \<Rightarrow> filter_action) option \<Rightarrow> dns_shield" where
  "with_policy explicit al bl =
     \<lparr>ds_explicit = explicit, ds_allowlist = al, ds_keywords = \<lparr>tokens = []\<rparr>, ds_blocklist = bl\<rparr>"

definition set_keywords :: "dns_shield \<Rightarrow> string list \<Rightarrow> dns_shield" where
  "set_keywords s ts = s\<lparr>ds_keywords := keyword_rules_new ts\<rparr>"

definition resolve :: "to_ascii \<Rightarrow> psl_suffix \<Rightarrow> psl_domain \<Rightarrow> dns_shield \<Rightarrow> string \<Rightarrow> filter_action" where
  "resolve to_ascii psl_suffix psl_domain s name =
     (case normalize to_ascii name of
        Inl e \<Rightarrow> Proxy
      | Inr normalized \<Rightarrow>
          (case resolve_action psl_suffix psl_domain normalized (ds_allowlist s) (ds_explicit s) (ds_keywords s) None of
             Some action \<Rightarrow> action
           | None \<Rightarrow> (case ds_blocklist s of Some lookup \<Rightarrow> lookup normalized | None \<Rightarrow> Proxy)))"

definition blocked_reply :: "ipv4_udp_datagram \<Rightarrow> bytes option exec" where
  "blocked_reply datagram = do {
     refusal \<leftarrow> nxdomain_response (dg_payload datagram);
     case refusal of None \<Rightarrow> Some None | Some r \<Rightarrow> reply_to datagram r
   }"

definition inspect :: "to_ascii \<Rightarrow> psl_suffix \<Rightarrow> psl_domain \<Rightarrow> dns_shield \<Rightarrow> bytes \<Rightarrow> dns_verdict exec" where
  "inspect to_ascii psl_suffix psl_domain s packet = do {
     parsed \<leftarrow> parse_ipv4_udp packet;
     case parsed of
       None \<Rightarrow> Some Ignore
     | Some datagram \<Rightarrow>
         if dg_dst_port datagram \<noteq> PORT_DNS then Some Ignore
         else do {
           question \<leftarrow> parse_query (dg_payload datagram);
           case question of
             None \<Rightarrow> Some Ignore
           | Some q \<Rightarrow>
               (case resolve to_ascii psl_suffix psl_domain s (dq_name q) of
                  Allow \<Rightarrow> Some (Forward (dq_name q) (dg_payload datagram))
                | Proxy \<Rightarrow> Some (Forward (dq_name q) (dg_payload datagram))
                | Block \<Rightarrow> do {
                    reply \<leftarrow> blocked_reply datagram;
                    case reply of
                      Some r \<Rightarrow> Some (Blocked (dq_name q) r)
                    | None \<Rightarrow> Some Ignore
                  })
         }
   }"

definition wrap_response :: "bytes \<Rightarrow> bytes \<Rightarrow> bytes option exec" where
  "wrap_response request_packet response = do {
     parsed \<leftarrow> parse_ipv4_udp request_packet;
     case parsed of None \<Rightarrow> Some None | Some datagram \<Rightarrow> reply_to datagram response
   }"

section \<open>Replies\<close>

text \<open>The datagram a reply to \<open>d\<close> carries.\<close>

definition answer_to :: "ipv4_udp_datagram \<Rightarrow> bytes \<Rightarrow> ipv4_udp_datagram" where
  "answer_to d payload = \<lparr>dg_src_ip = dg_dst_ip d, dg_dst_ip = dg_src_ip d,
     dg_src_port = dg_dst_port d, dg_dst_port = dg_src_port d, dg_payload = payload\<rparr>"

lemma reply_to_fits:
  assumes "28 + length payload \<le> 65535"
  shows "\<exists>r. reply_to d payload = Some (Some r) \<and> parse_ipv4_udp r = Some (Some (answer_to d payload))"
  using reply_to_cases [of payload d] assms by (auto simp: answer_to_def)

lemma parsed_payload_length:
  assumes "parse_ipv4_udp packet = Some (Some d)"
  shows "28 + length (dg_payload d) \<le> 65535"
proof -
  let ?tl = "unat (be16 (packet ! 2) (packet ! 3))"
  note p = parse_ipv4_udp_SomeD [OF assms]
  from p(7) obtain n where n: "8 \<le> n" "header_len (packet ! 0) + n \<le> ?tl"
    "dg_payload d = take (n - 8) (drop (header_len (packet ! 0) + 8) packet)" by blast
  have "length (dg_payload d) \<le> n - 8" by (simp add: n(3))
  moreover have "?tl < 2 ^ 16" using unsigned_less [of "be16 (packet ! 2) (packet ! 3)"] by simp
  ultimately show ?thesis using n(1,2) p(2) by simp
qed

lemma parse_query_iff:
  "parse_query m = Some (Some q) \<longleftrightarrow> (\<exists>e. parse_query_with_end m = Some (Some (q, e)))"
  by (auto simp: parse_query_def)

lemma parse_query_total: "\<exists>r. parse_query m = Some r"
  by (simp add: parse_query_def parse_query_with_end_eq split: option.split)

text \<open>A query that parsed can always be refused.\<close>

lemma blocked_reply_ok:
  assumes d: "parse_ipv4_udp packet = Some (Some d)" and q: "parse_query (dg_payload d) = Some (Some q)"
  shows "\<exists>r refusal. blocked_reply d = Some (Some r) \<and> nxdomain_response (dg_payload d) = Some (Some refusal) \<and>
    parse_ipv4_udp r = Some (Some (answer_to d refusal))"
proof -
  from q obtain e where e: "parse_query_with_end (dg_payload d) = Some (Some (q, e))" by (auto simp: parse_query_iff)
  let ?r = "nx_bytes (dg_payload d) e"
  have "length ?r \<le> length (dg_payload d)"
    using parse_query_SomeD(1,2) [OF e] by (simp add: nx_bytes_def to_be16_def)
  then have "28 + length ?r \<le> 65535" using parsed_payload_length [OF d] by linarith
  from reply_to_fits [OF this, of d] nxdomain_response_eq [OF e] show ?thesis
    by (auto simp: blocked_reply_def)
qed

section \<open>The decision\<close>

text \<open>C18: inspecting a packet never panics, and the verdict is exactly the policy's.  A packet is
  ignored only when it is not a whole UDP datagram for a resolver carrying a query; a blocked query is
  always answered, by a datagram to its sender that refuses exactly its question; any other
  query is forwarded unchanged.  A message to a resolver that the query parser refuses is ignored too, and the
  edge discards what is ignored, although a comment of \<open>parse_query\<close> says that the caller forwards it.\<close>

theorem inspect_correct:
  "\<exists>v. inspect to_ascii psls psld s packet = Some v \<and>
     (case v of
        Ignore \<Rightarrow> (case parse_ipv4_udp packet of
            Some (Some d) \<Rightarrow> (if dg_dst_port d = PORT_DNS then parse_query (dg_payload d) = Some None else True)
          | _ \<Rightarrow> True)
      | Blocked name reply \<Rightarrow> \<exists>d q refusal. parse_ipv4_udp packet = Some (Some d) \<and> dg_dst_port d = PORT_DNS \<and>
          parse_query (dg_payload d) = Some (Some q) \<and> name = dq_name q \<and>
          resolve to_ascii psls psld s name = Block \<and> nxdomain_response (dg_payload d) = Some (Some refusal) \<and>
          parse_ipv4_udp reply = Some (Some (answer_to d refusal))
      | Forward name query \<Rightarrow> \<exists>d q. parse_ipv4_udp packet = Some (Some d) \<and> dg_dst_port d = PORT_DNS \<and>
          parse_query (dg_payload d) = Some (Some q) \<and> name = dq_name q \<and>
          resolve to_ascii psls psld s name \<noteq> Block \<and> query = dg_payload d)"
proof -
  from parse_ipv4_udp_total [of packet] obtain r where r: "parse_ipv4_udp packet = Some r" by blast
  show ?thesis
  proof (cases r)
    case None then show ?thesis by (simp add: inspect_def r)
  next
    case (Some d)
    note d = r [unfolded Some]
    from parse_query_total obtain pq where pq: "parse_query (dg_payload d) = Some pq" by blast
    show ?thesis
    proof (cases "dg_dst_port d \<noteq> PORT_DNS \<or> pq = None")
      case True then show ?thesis by (cases "dg_dst_port d = PORT_DNS") (simp_all add: inspect_def d pq)
    next
      case False
      then obtain q where port: "dg_dst_port d = PORT_DNS" and q: "pq = Some q" by auto
      note query = pq [unfolded q]
      show ?thesis
      proof (cases "resolve to_ascii psls psld s (dq_name q)")
        case Block
        from blocked_reply_ok [OF d query] obtain reply refusal where
          "blocked_reply d = Some (Some reply)" "nxdomain_response (dg_payload d) = Some (Some refusal)"
          "parse_ipv4_udp reply = Some (Some (answer_to d refusal))" by blast
        then show ?thesis by (simp add: inspect_def d port query Block)
      qed (simp_all add: inspect_def d port query)
    qed
  qed
qed

end
