(* ===== verification/Pipeline.thy ===== *)
theory Pipeline
  imports Merge Dns_Shield
begin

text \<open>
  The components together: what a feed line means for a query on the device, through
  normalization, merging, the artifact build, the label-boundary lookup and the DNS decision.
\<close>

text \<open>A raw entry covers a key when it names it, or names one of its parents and is entitled
  to cover subdomains.\<close>

definition raw_covers :: "(raw_entry \<Rightarrow> (string \<times> rule_scope) option) \<Rightarrow> string \<Rightarrow> raw_entry \<Rightarrow> bool" where
  "raw_covers res k raw =
     (case res raw of
        None \<Rightarrow> False
      | Some (d, scope) \<Rightarrow> d = k \<or> scope = Apex \<and> suffix (split_on CHR ''.'' d) (split_on CHR ''.'' k))"

lemma last_entry_merged:
  "last_entry (merged_spec res raws) d =
     (if \<exists>raw \<in> set raws. \<exists>sc. res raw = Some (d, sc)
      then Some \<lparr>me_domain = d, me_scope = (if \<exists>e \<in> set raws. res e = Some (d, Apex) then Apex else ExactHost),
        me_sources = sorted_list_of_set (re_source ` set (contributors res raws d)),
        me_categories = sorted_list_of_set (re_category ` set (contributors res raws d))\<rparr>
      else None)"
proof -
  let ?K = "sorted_list_of_set ((\<lambda>e. fst (the (res e))) ` {e \<in> set raws. res e \<noteq> None})"
  have map_rev: "map_of (rev (map (\<lambda>k. (k, f k)) ks)) d = (if d \<in> set ks then Some (f d) else None)"
    for f :: "string \<Rightarrow> merged_entry" and ks
  proof -
    have "map_of (map (\<lambda>k. (k, f k)) xs) d = (if d \<in> set xs then Some (f d) else None)" for xs
      by (induction xs) auto
    from this [of "rev ks"] show ?thesis by (simp add: rev_map)
  qed
  have "set ?K = (\<lambda>e. fst (the (res e))) ` {e \<in> set raws. res e \<noteq> None}" by (rule set_sorted_list_of_set) simp
  then have "d \<in> set ?K \<longleftrightarrow> (\<exists>raw \<in> set raws. \<exists>sc. res raw = Some (d, sc))" by force
  then show ?thesis by (simp add: last_entry_def merged_spec_def comp_def map_rev)
qed

lemma blocks_merged:
  "blocks (merged_spec res raws) k \<longleftrightarrow> (\<exists>raw \<in> set raws. raw_covers res k raw)"
proof
  assume "blocks (merged_spec res raws) k"
  then obtain d e where e: "last_entry (merged_spec res raws) d = Some e"
    and c: "if me_scope e = Apex then suffix (split_on CHR ''.'' d) (split_on CHR ''.'' k) else d = k"
    unfolding blocks_def by blast
  show "\<exists>raw \<in> set raws. raw_covers res k raw"
  proof (cases "\<exists>x \<in> set raws. res x = Some (d, Apex)")
    case True
    with e c have "suffix (split_on CHR ''.'' d) (split_on CHR ''.'' k)" by (auto simp: last_entry_merged split: if_splits)
    with True show ?thesis by (force simp: raw_covers_def)
  next
    case False
    with e c have "d = k" "\<exists>raw \<in> set raws. \<exists>sc. res raw = Some (d, sc)"
      by (auto simp: last_entry_merged split: if_splits)
    then show ?thesis by (force simp: raw_covers_def)
  qed
next
  assume "\<exists>raw \<in> set raws. raw_covers res k raw"
  then obtain raw d sc where r: "raw \<in> set raws" "res raw = Some (d, sc)"
    and c: "d = k \<or> sc = Apex \<and> suffix (split_on CHR ''.'' d) (split_on CHR ''.'' k)"
    by (auto simp: raw_covers_def split: option.splits)
  from r have "last_entry (merged_spec res raws) d \<noteq> None" by (auto simp: last_entry_merged)
  then obtain e where e: "last_entry (merged_spec res raws) d = Some e" by blast
  have "if me_scope e = Apex then suffix (split_on CHR ''.'' d) (split_on CHR ''.'' k) else d = k"
    using e r c by (auto simp: last_entry_merged split: if_splits)
  with e show "blocks (merged_spec res raws) k" unfolding blocks_def by blast
qed

text \<open>C2: end to end, the device refuses what the feeds say.  For an artifact built from the merged
  raw entries, a query the allowlist, the explicit rules and the keywords leave open, and an answer of
  the budgeted lookup worker over that artifact, after any interleaving of callers and worker: the decision is
  \<open>Block\<close> or \<open>Proxy\<close>, and it is \<open>Block\<close> only when some raw entry that survives normalization, the
  IP-literal and shared-hosting filters covers the query's key.  When moreover the call was neither refused by
  a full queue nor ran out of its budget, and no lookup of the worker panicked, it is \<open>Block\<close> exactly in
  that case; otherwise the code falls back to a cached decision or to \<open>Proxy\<close>.\<close>

theorem device_blocks_what_feeds_say:
  assumes "build fst_encode sha256 serialize ed_sign (mo_entries (merge to_ascii psl raws deny)) lic sources version
      time sks = Some (Inr art)"
    and "fst_contract fst_encode fst_open" and "fst_open (fa_fst_bytes art) = Some m"
    and "length (mo_entries (merge to_ascii psl raws deny)) < 2 ^ 32"
    and "ba = \<lparr>ba_map = m, ba_provenance = mf_provenance_table (fa_manifest art), ba_version = version\<rparr>"
    and "normalize to_ascii name = Inr k"
    and "resolve_action psls psld k (ds_allowlist s) (ds_explicit s) (ds_keywords s) None = None"
    and "exec_events ba es (spawn capacity) = Some st"
    and "ds_blocklist s = Some lookup" and "callers st c = Some (Returned k (lookup k))"
  shows "resolve to_ascii psls psld s name \<in> {Block, Proxy} \<and>
    (resolve to_ascii psls psld s name = Block \<longrightarrow>
       (\<exists>raw \<in> set raws. raw_covers (resolved to_ascii psl (normalized_denylist to_ascii deny)) k raw)) \<and>
    (WorkerTake True \<notin> set es \<and> Undo c \<notin> set es \<and> Expire c \<notin> set es \<longrightarrow>
       resolve to_ascii psls psld s name =
         (if \<exists>raw \<in> set raws. raw_covers (resolved to_ascii psl (normalized_denylist to_ascii deny)) k raw
          then Block else Proxy))"
proof -
  have l: "artifact_lookup ba (reverse_key k) =
      (if \<exists>raw \<in> set raws. raw_covers (resolved to_ascii psl (normalized_denylist to_ascii deny)) k raw
       then Some Block else None)"
    unfolding blocks_merged [symmetric] merge_entries_spec [symmetric]
    by (rule built_lookup [OF assms(1-4)]) (simp_all add: assms(5))
  have r: "resolve to_ascii psls psld s name = lookup k" using assms(6,7,9) by (simp add: resolve_def)
  have "reachable ba capacity st" by (rule reachable_run [OF reachable.start assms(8)])
  from sound_answer [OF this assms(10)] l have "lookup k = Proxy \<or> lookup k = Block \<and>
      (\<exists>raw \<in> set raws. raw_covers (resolved to_ascii psl (normalized_denylist to_ascii deny)) k raw)"
    by (auto split: if_splits)
  moreover have "lookup k = (if \<exists>raw \<in> set raws. raw_covers (resolved to_ascii psl (normalized_denylist to_ascii deny)) k raw
      then Block else Proxy)"
    if "WorkerTake True \<notin> set es" "Undo c \<notin> set es" "Expire c \<notin> set es"
    using exact_answer [OF assms(8,10) that] l by (simp add: to_action_def)
  ultimately show ?thesis unfolding r by auto
qed

definition toy_raws :: "raw_entry list" where
  "toy_raws = [\<lparr>re_domain = ''A.b'', re_source = Ut1, re_category = Adult, re_scope_hint = ApexHint\<rparr>]"

lemma toy_merged: "mo_entries (merge ascii_to_ascii (\<lambda>n. Some n) toy_raws []) = toy_entries"
  by code_simp

text \<open>A call that the worker answers in time, and one whose budget ends first: the name is covered
  both times.\<close>

definition answered_call :: "event list" where
  "answered_call = [Call 1 ''x.a.b'', CheckCache 1, Register 1, TrySend 1, WorkerTake False, WorkerStore, WorkerCount,
     WorkerDrain, WorkerSend, WorkerSend, Receive 1]"

definition expired_call :: "event list" where
  "expired_call = [Call 1 ''x.a.b'', CheckCache 1, Register 1, TrySend 1, Expire 1, Fallback 1]"

definition toy_loaded :: artifact where
  "toy_loaded = \<lparr>ba_map = map_of [(''b.a'', 0)], ba_provenance = toy_table, ba_version = 3\<rparr>"

lemma toy_calls:
  "map_option (\<lambda>t. callers t 1) (exec_events toy_loaded answered_call (spawn 8)) = Some (Some (Returned ''x.a.b'' Block))"
  "map_option (\<lambda>t. callers t 1) (exec_events toy_loaded expired_call (spawn 8)) = Some (Some (Returned ''x.a.b'' Proxy))"
  by code_simp+

theorem device_blocks_what_feeds_say_witness:
  "resolve ascii_to_ascii (\<lambda>d. None) (\<lambda>d. None)
     (with_policy (domain_from_rules []) \<lparr>al_entries = {}\<rparr> (Some (\<lambda>q. Block))) ''X.a.B.'' = Block \<and>
   (\<exists>raw \<in> set toy_raws. raw_covers (resolved ascii_to_ascii (\<lambda>n. Some n)
      (normalized_denylist ascii_to_ascii [])) ''x.a.b'' raw) \<and>
   resolve ascii_to_ascii (\<lambda>d. None) (\<lambda>d. None)
     (with_policy (domain_from_rules []) \<lparr>al_entries = {}\<rparr> (Some (\<lambda>q. Proxy))) ''X.a.B.'' \<in> {Block, Proxy}"
proof -
  from toy_artifact [folded toy_merged] obtain art where
    art: "build one_key_encode (\<lambda>b. b) toy_serialize (\<lambda>k b. k # b)
        (mo_entries (merge ascii_to_ascii (\<lambda>n. Some n) toy_raws [])) (LicenseId ''MIT'') [] 3 0
        [(''k'', 5 :: u8)] = Some (Inr art)"
    and m: "one_key_open (fa_fst_bytes art) = Some (map_of [(''b.a'', 0)])"
    and t: "mf_provenance_table (fa_manifest art) = toy_table" by blast
  have n: "length (mo_entries (merge ascii_to_ascii (\<lambda>n. Some n) toy_raws [])) < 2 ^ 32"
    by (simp add: toy_merged toy_entries_def)
  have k: "normalize ascii_to_ascii ''X.a.B.'' = Inr ''x.a.b''" by code_simp
  have ba: "toy_loaded = \<lparr>ba_map = map_of [(''b.a'', 0)], ba_provenance = mf_provenance_table (fa_manifest art),
      ba_version = 3\<rparr>" by (simp add: toy_loaded_def t)
  let ?s = "\<lambda>lookup. with_policy (domain_from_rules []) \<lparr>al_entries = {}\<rparr> (Some lookup)"
  have policy: "resolve_action (\<lambda>d. None) (\<lambda>d. None) ''x.a.b'' (ds_allowlist (?s lookup)) (ds_explicit (?s lookup))
      (ds_keywords (?s lookup)) None = None" for lookup
    unfolding with_policy_def dns_shield.simps by code_simp
  have bl: "ds_blocklist (?s lookup) = Some lookup" for lookup by (simp add: with_policy_def)
  obtain st st' where st: "exec_events toy_loaded answered_call (spawn 8) = Some st"
      "callers st 1 = Some (Returned ''x.a.b'' Block)"
    and st': "exec_events toy_loaded expired_call (spawn 8) = Some st'"
      "callers st' 1 = Some (Returned ''x.a.b'' Proxy)"
    using toy_calls by auto
  have es: "WorkerTake True \<notin> set answered_call" "Undo 1 \<notin> set answered_call" "Expire 1 \<notin> set answered_call"
    by (simp_all add: answered_call_def)
  note ok = device_blocks_what_feeds_say [OF art one_key_contract m n ba k policy st(1) bl st(2)]
  have covered: "\<exists>raw \<in> set toy_raws. raw_covers (resolved ascii_to_ascii (\<lambda>n. Some n)
      (normalized_denylist ascii_to_ascii [])) ''x.a.b'' raw"
    by code_simp
  with ok es have "resolve ascii_to_ascii (\<lambda>d. None) (\<lambda>d. None) (?s (\<lambda>q. Block)) ''X.a.B.'' = Block"
    by simp
  moreover note device_blocks_what_feeds_say [OF art one_key_contract m n ba k policy st'(1) bl st'(2)]
  ultimately show ?thesis using covered by blast
qed

end
