(* ===== verification/Sni.thy ===== *)
theory Sni
  imports Rust_Str
begin

text \<open>
  \<open>packages/net-shield/src/sni.rs\<close>: the server name of a TLS ClientHello, read from the raw
  record. Every offset is checked against the end of the enclosing structure before it is
  read; the model keeps each read in the panic monad, so that the checks are what the
  totality theorem is about.
\<close>

definition u24_to_usize :: "bytes \<Rightarrow> nat exec" where
  "u24_to_usize b = do {
     b0 \<leftarrow> idx b 0; b1 \<leftarrow> idx b 1; b2 \<leftarrow> idx b 2;
     Some ((push_bit 16 (unat b0) OR push_bit 8 (unat b1)) OR unat b2)
   }"

text \<open>The body of the \<open>server_name\<close> branch, then the extension loop.\<close>

definition server_name_at :: "bytes \<Rightarrow> nat \<Rightarrow> nat \<Rightarrow> nat \<Rightarrow> string option exec" where
  "server_name_at buf pos ext_len ext_end =
     (if ext_len < 5 then Some None
      else do {
        l0 \<leftarrow> idx buf pos; l1 \<leftarrow> idx buf (pos + 1);
        let list_len = unat (be16 l0 l1);
        if list_len < 3 \<or> pos + 2 + list_len > ext_end then Some None
        else do {
          name_type \<leftarrow> idx buf (pos + 2);
          if name_type \<noteq> 0 then Some None
          else do {
            n0 \<leftarrow> idx buf (pos + 3); n1 \<leftarrow> idx buf (pos + 4);
            let name_len = unat (be16 n0 n1);
            let name_start = pos + 5;
            if name_start + name_len > ext_end then Some None
            else do {
              name \<leftarrow> subslice buf name_start (name_start + name_len);
              Some (from_utf8 name)
            }
          }
        }
      })"

function ext_loop :: "bytes \<Rightarrow> nat \<Rightarrow> nat \<Rightarrow> string option exec" where
  "ext_loop buf pos ext_end =
     (if pos + 4 \<le> ext_end then do {
        t0 \<leftarrow> idx buf pos; t1 \<leftarrow> idx buf (pos + 1);
        l0 \<leftarrow> idx buf (pos + 2); l1 \<leftarrow> idx buf (pos + 3);
        let ext_len = unat (be16 l0 l1);
        if pos + 4 + ext_len > ext_end then Some None
        else if be16 t0 t1 = 0 then server_name_at buf (pos + 4) ext_len ext_end
        else ext_loop buf (pos + 4 + ext_len) ext_end
      }
      else Some None)"
  by pat_completeness auto
termination
  by (relation "measure (\<lambda>(buf, pos, ext_end). ext_end - pos)") auto

declare ext_loop.simps [simp del]

text \<open>The variable-length fields between the random and the extensions.\<close>

definition skip_to_extensions :: "bytes \<Rightarrow> nat \<Rightarrow> nat \<Rightarrow> nat option exec" where
  "skip_to_extensions buf pos hs_end =
     (if pos + 34 > hs_end then Some None
      else do {
        let pos = pos + 34;
        if pos + 1 > hs_end then Some None
        else do {
          sid \<leftarrow> idx buf pos;
          let pos = pos + 1 + unat sid;
          if pos + 2 > hs_end then Some None
          else do {
            c0 \<leftarrow> idx buf pos; c1 \<leftarrow> idx buf (pos + 1);
            let pos = pos + 2 + unat (be16 c0 c1);
            if pos + 1 > hs_end then Some None
            else do {
              comp \<leftarrow> idx buf pos;
              Some (Some (pos + 1 + unat comp))
            }
          }
        }
      })"

definition extract_sni :: "bytes \<Rightarrow> string option exec" where
  "extract_sni buf =
     (if length buf < 5 then Some None
      else do {
        content_type \<leftarrow> idx buf 0;
        if content_type \<noteq> 0x16 then Some None
        else do {
          r0 \<leftarrow> idx buf 3; r1 \<leftarrow> idx buf 4;
          let record_len = unat (be16 r0 r1);
          if length buf < 5 + record_len then Some None
          else do {
            let record_end = 5 + record_len;
            if 5 + 4 > record_end then Some None
            else do {
              msg_type \<leftarrow> idx buf 5;
              if msg_type \<noteq> 0x01 then Some None
              else do {
                h \<leftarrow> subslice buf 6 (6 + 3);
                hs_len \<leftarrow> u24_to_usize h;
                if 9 + hs_len > record_end then Some None
                else do {
                  let hs_end = 9 + hs_len;
                  skipped \<leftarrow> skip_to_extensions buf 9 hs_end;
                  case skipped of
                    None \<Rightarrow> Some None
                  | Some pos \<Rightarrow>
                      if pos + 2 > hs_end then Some None
                      else do {
                        e0 \<leftarrow> idx buf pos; e1 \<leftarrow> idx buf (pos + 1);
                        let ext_total = unat (be16 e0 e1);
                        if pos + 2 + ext_total > hs_end then Some None
                        else ext_loop buf (pos + 2) (pos + 2 + ext_total)
                      }
                }
              }
            }
          }
        }
      })"

section \<open>Bounds\<close>

lemma server_name_at_safe:
  assumes "pos + ext_len \<le> ext_end" and "ext_end \<le> length buf"
  shows "\<exists>r. server_name_at buf pos ext_len ext_end = Some r \<and>
     (\<forall>s. r = Some s \<longrightarrow> (\<exists>i. pos \<le> i \<and> i + length s \<le> ext_end \<and>
        bytes_of_string s = take (length s) (drop i buf)))"
proof (cases "server_name_at buf pos ext_len ext_end")
  case None
  with assms show ?thesis
    by (auto simp: server_name_at_def idx_def subslice_def Let_def split: if_splits)
next
  case (Some r)
  have "\<exists>i. pos \<le> i \<and> i + length s \<le> ext_end \<and> bytes_of_string s = take (length s) (drop i buf)"
    if "r = Some s" for s
  proof -
    let ?n = "unat (be16 (buf ! (pos + 3)) (buf ! (pos + 4)))"
    from Some that assms have n: "pos + 5 + ?n \<le> ext_end"
      and s: "from_utf8 (take ?n (drop (pos + 5) buf)) = Some s"
      by (simp_all add: server_name_at_def idx_def subslice_def Let_def split: if_splits)
    from s have s': "s = string_of_bytes (take ?n (drop (pos + 5) buf))"
      by (simp add: from_utf8_def split: if_splits)
    then have "length s = ?n" using n assms(2) by simp
    with n s' show ?thesis by (intro exI [of _ "pos + 5"]) simp
  qed
  with Some show ?thesis by blast
qed

lemma ext_loop_safe:
  assumes "ext_end \<le> length buf"
  shows "\<exists>r. ext_loop buf pos ext_end = Some r \<and>
     (\<forall>s. r = Some s \<longrightarrow> (\<exists>i. pos \<le> i \<and> i + length s \<le> ext_end \<and>
        bytes_of_string s = take (length s) (drop i buf)))"
  using assms
proof (induction buf pos ext_end rule: ext_loop.induct)
  case (1 buf pos ext_end)
  let ?len = "unat (be16 (buf ! (pos + 2)) (buf ! (pos + 3)))"
  consider (stop) "\<not> pos + 4 \<le> ext_end" | (long) "pos + 4 \<le> ext_end" "pos + 4 + ?len > ext_end"
    | (sni) "pos + 4 + ?len \<le> ext_end" "be16 (buf ! pos) (buf ! (pos + 1)) = 0"
    | (skip) "pos + 4 + ?len \<le> ext_end" "be16 (buf ! pos) (buf ! (pos + 1)) \<noteq> 0"
    by linarith
  then show ?case
  proof cases
    case sni
    from server_name_at_safe [OF sni(1) "1.prems"] obtain r where
      r: "server_name_at buf (pos + 4) ?len ext_end = Some r"
      and i: "\<And>s. r = Some s \<Longrightarrow> \<exists>i \<ge> pos + 4. i + length s \<le> ext_end \<and>
        bytes_of_string s = take (length s) (drop i buf)" by blast
    from r sni "1.prems" have "ext_loop buf pos ext_end = Some r"
      by (subst ext_loop.simps) (simp add: idx_def Let_def)
    with i show ?thesis by (metis add_leD1)
  next
    case skip
    with "1.prems" have eq: "ext_loop buf pos ext_end = ext_loop buf (pos + 4 + ?len) ext_end"
      by (subst ext_loop.simps) (simp add: idx_def Let_def)
    from skip "1.prems" have "\<exists>r. ext_loop buf (pos + 4 + ?len) ext_end = Some r \<and>
     (\<forall>s. r = Some s \<longrightarrow> (\<exists>i. pos + 4 + ?len \<le> i \<and> i + length s \<le> ext_end \<and>
        bytes_of_string s = take (length s) (drop i buf)))"
      by (intro "1.IH" [of "buf ! pos" "buf ! (pos + 1)" "buf ! (pos + 2)" "buf ! (pos + 3)"])
         (simp_all add: idx_def)
    with eq show ?thesis by (metis add_leD1)
  qed (use "1.prems" in \<open>subst ext_loop.simps, simp add: idx_def Let_def\<close>)+
qed

lemma skip_to_extensions_safe:
  assumes "hs_end \<le> length buf"
  shows "\<exists>r. skip_to_extensions buf pos hs_end = Some r \<and> (\<forall>p. r = Some p \<longrightarrow> pos + 38 \<le> p)"
  using assms by (auto simp: skip_to_extensions_def idx_def Let_def)

lemma u24_total: "length b = 3 \<Longrightarrow> \<exists>n. u24_to_usize b = Some n"
  by (simp add: u24_to_usize_def idx_def)

lemma extract_sni_cases:
  obtains (refused) "extract_sni buf = Some None"
  | (loop) pos ext_end where "extract_sni buf = ext_loop buf pos ext_end"
      "49 \<le> pos" "buf ! 0 = 0x16" "buf ! 5 = 0x01"
      "ext_end \<le> 5 + unat (be16 (buf ! 3) (buf ! 4))"
      "5 + unat (be16 (buf ! 3) (buf ! 4)) \<le> length buf"
proof (cases "length buf < 9 \<or> buf ! 0 \<noteq> 0x16 \<or> 5 + unat (be16 (buf ! 3) (buf ! 4)) < 9 \<or>
    length buf < 5 + unat (be16 (buf ! 3) (buf ! 4)) \<or> buf ! 5 \<noteq> 0x01")
  case True
  have "extract_sni buf = Some None"
    using True by (simp add: extract_sni_def idx_def Let_def) linarith
  with refused show thesis by blast
next
  case False
  let ?fin = "5 + unat (be16 (buf ! 3) (buf ! 4))"
  obtain n where n: "u24_to_usize (take 3 (drop 6 buf)) = Some n"
    using u24_total [of "take 3 (drop 6 buf)"] False by auto
  show thesis
  proof (cases "9 + n \<le> ?fin")
    case True
    then have "9 + n \<le> length buf" using False by linarith
    from skip_to_extensions_safe [OF this, of 9] obtain r where
      r: "skip_to_extensions buf 9 (9 + n) = Some r" and r38: "\<And>p. r = Some p \<Longrightarrow> 47 \<le> p" by auto
    have eq: "extract_sni buf = (case r of None \<Rightarrow> Some None | Some pos \<Rightarrow>
        if pos + 2 > 9 + n then Some None
        else do {
          e0 \<leftarrow> idx buf pos; e1 \<leftarrow> idx buf (pos + 1);
          let ext_total = unat (be16 e0 e1);
          if pos + 2 + ext_total > 9 + n then Some None
          else ext_loop buf (pos + 2) (pos + 2 + ext_total)
        })"
      using False True n r by (auto simp: extract_sni_def idx_def subslice_def Let_def split: option.split)
    show thesis
    proof (cases r)
      case None
      with eq refused show thesis by simp
    next
      case (Some pos)
      let ?total = "unat (be16 (buf ! pos) (buf ! (pos + 1)))"
      show thesis
      proof (cases "pos + 2 \<le> 9 + n \<and> pos + 2 + ?total \<le> 9 + n")
        case t: True
        with Some eq \<open>9 + n \<le> length buf\<close>
        have "extract_sni buf = ext_loop buf (pos + 2) (pos + 2 + ?total)"
          by (simp add: idx_def Let_def)
        moreover have "49 \<le> pos + 2" using r38 [OF Some] by simp
        moreover have "pos + 2 + ?total \<le> ?fin" using t True by linarith
        ultimately show thesis using False by (intro loop) auto
      next
        case f: False
        have "extract_sni buf = Some None"
        proof (cases "pos + 2 \<le> 9 + n")
          case True
          with f Some eq \<open>9 + n \<le> length buf\<close> show ?thesis by (simp add: idx_def Let_def)
        next
          case False
          with Some eq show ?thesis by simp
        qed
        with refused show thesis by blast
      qed
    qed
  next
    case f: False
    have "extract_sni buf = Some None"
      using False f n by (auto simp: extract_sni_def idx_def subslice_def Let_def)
    with refused show thesis by blast
  qed
qed

text \<open>Extraction returns on every buffer, and a name it returns is a run of bytes of the
  record, valid UTF-8, that lies after the fixed ClientHello fields.\<close>

theorem extract_sni_safe:
  "\<exists>r. extract_sni buf = Some r \<and>
     (case r of None \<Rightarrow> True | Some s \<Rightarrow> buf ! 0 = 0x16 \<and> buf ! 5 = 0x01 \<and>
        (\<exists>i. 49 \<le> i \<and> i + length s \<le> 5 + unat (be16 (buf ! 3) (buf ! 4)) \<and>
           5 + unat (be16 (buf ! 3) (buf ! 4)) \<le> length buf \<and>
           bytes_of_string s = take (length s) (drop i buf)))"
proof (cases rule: extract_sni_cases [of buf])
  case refused
  then show ?thesis by simp
next
  case (loop pos ext_end)
  from loop have "ext_end \<le> length buf" by linarith
  from ext_loop_safe [OF this, of pos] obtain r where
    r: "ext_loop buf pos ext_end = Some r"
    and i: "\<And>s. r = Some s \<Longrightarrow> \<exists>i. pos \<le> i \<and> i + length s \<le> ext_end \<and>
      bytes_of_string s = take (length s) (drop i buf)" by blast
  have "\<exists>i. 49 \<le> i \<and> i + length s \<le> 5 + unat (be16 (buf ! 3) (buf ! 4)) \<and>
      bytes_of_string s = take (length s) (drop i buf)" if "r = Some s" for s
    using i [OF that] loop(2,5) by (meson le_trans)
  with r loop show ?thesis by (intro exI [of _ r]) (simp split: option.split)
qed

section \<open>Round trip\<close>

text \<open>A ClientHello as a sender lays it out, in one record.\<close>

definition to_be24 :: "nat \<Rightarrow> bytes" where
  "to_be24 n = [of_nat (n div 65536), of_nat (n div 256), of_nat n]"

definition len16 :: "bytes \<Rightarrow> bytes" where
  "len16 bs = to_be16 (of_nat (length bs)) @ bs"

definition len8 :: "bytes \<Rightarrow> bytes" where
  "len8 bs = of_nat (length bs) # bs"

definition extension :: "u16 \<times> bytes \<Rightarrow> bytes" where
  "extension e = to_be16 (fst e) @ len16 (snd e)"

definition sni_data :: "bytes \<Rightarrow> bytes" where
  "sni_data name = len16 (0 # len16 name)"

definition hello_body :: "bytes \<Rightarrow> bytes \<Rightarrow> bytes \<Rightarrow> bytes \<Rightarrow> bytes \<Rightarrow> bytes" where
  "hello_body version_random sid ciphers compr exts =
     version_random @ len8 sid @ len16 ciphers @ len8 compr @ len16 exts"

definition client_hello :: "bytes \<Rightarrow> bytes \<Rightarrow> bytes" where
  "client_hello version body = 0x16 # version @ len16 (0x01 # to_be24 (length body) @ body)"

lemma be16_len16: "length bs < 65536 \<Longrightarrow>
    unat (be16 (ucast (drop_bit 8 (of_nat (length bs) :: u16))) (ucast (of_nat (length bs) :: u16))) = length bs"
  by (simp add: unat_of_nat)

lemma ext_loop_skip:
  assumes "\<forall>e \<in> set es. fst e \<noteq> 0 \<and> length (snd e) < 65536"
    and "buf = pre @ concat (map extension es) @ rest" and "length pre + length (concat (map extension es)) \<le> ext_end"
    and "ext_end \<le> length buf"
  shows "ext_loop buf (length pre) ext_end =
     ext_loop buf (length pre + length (concat (map extension es))) ext_end"
  using assms
proof (induction es arbitrary: pre)
  case (Cons e es)
  obtain t d where e: "e = (t, d)" by (cases e)
  have d: "length d < 65536" "t \<noteq> 0" using Cons.prems(1) by (auto simp: e)
  have x: "extension e = to_be16 t @ to_be16 (of_nat (length d)) @ d"
    by (simp add: e extension_def len16_def)
  let ?pre = "pre @ extension e"
  have buf: "buf = ?pre @ concat (map extension es) @ rest" using Cons.prems(2) by simp
  have at: "buf ! (length pre + k) = (extension e @ concat (map extension es) @ rest) ! k" for k
    using Cons.prems(2) by (simp add: nth_append)
  have b: "buf ! length pre = ucast (drop_bit 8 t)" "buf ! (length pre + 1) = ucast t"
    "buf ! (length pre + 2) = ucast (drop_bit 8 (of_nat (length d) :: u16))"
    "buf ! (length pre + 3) = ucast (of_nat (length d) :: u16)"
    using at [of 0] at [of 1] at [of 2] at [of 3] by (simp_all add: x to_be16_def)
  have le: "length pre + 4 + length d \<le> ext_end" using Cons.prems(3) by (simp add: x)
  have lp: "length ?pre = length pre + 4 + length d" by (simp add: x)
  have u: "unat (word_of_nat (length d) :: u16) = length d" using d(1) by (simp add: unat_of_nat)
  have "ext_loop buf (length pre) ext_end = ext_loop buf (length ?pre) ext_end"
    unfolding lp using le Cons.prems(4) d
    by (subst ext_loop.simps) (simp only: idx_def Let_def b be16_to_be16, simp add: u)
  also have "\<dots> = ext_loop buf (length ?pre + length (concat (map extension es))) ext_end"
    using Cons.prems(1,3,4) by (intro Cons.IH [OF _ buf]) auto
  finally show ?case by (simp add: add.assoc)
qed simp

lemma server_name_at_encoded:
  assumes "buf = pre @ sni_data name @ rest" and "length (sni_data name) < 65536"
    and "length pre + length (sni_data name) \<le> ext_end" and "ext_end \<le> length buf"
  shows "server_name_at buf (length pre) (length (sni_data name)) ext_end = Some (from_utf8 name)"
proof -
  obtain n m :: u16 where nm: "n = of_nat (length name)" "m = of_nat (length name + 3)" by blast
  have x: "sni_data name = to_be16 m @ 0 # to_be16 n @ name"
    by (simp add: nm sni_data_def len16_def add.commute)
  have at: "buf ! (length pre + k) = (sni_data name @ rest) ! k" for k
    using assms(1) by (simp add: nth_append)
  have b: "buf ! length pre = ucast (drop_bit 8 m)" "buf ! (length pre + 1) = ucast m"
    "buf ! (length pre + 2) = 0"
    "buf ! (length pre + 3) = ucast (drop_bit 8 n)" "buf ! (length pre + 4) = ucast n"
    using at [of 0] at [of 1] at [of 2] at [of 3] at [of 4] by (simp_all only: x) (simp_all add: to_be16_def)
  have len: "length (sni_data name) = length name + 5" by (simp add: x)
  have u: "unat n = length name" "unat m = length name + 3"
    using assms(2) len by (simp_all only: nm unat_of_nat) simp_all
  have sub: "subslice buf (length pre + 5) (length pre + 5 + length name) = Some name"
    using assms(1) by (simp add: x subslice_def)
  show ?thesis
    using assms(3,4) len
    by (simp only: server_name_at_def idx_def Let_def b) (simp add: sub u)
qed

lemma u24_to_be24:
  assumes "n < 16777216"
  shows "u24_to_usize (to_be24 n) = Some n"
proof -
  have "unat (of_nat (n div 65536) :: u8) = n div 65536" using assms
    by (simp add: unat_of_nat less_mult_imp_div_less)
  moreover have "unat (of_nat (n div 256) :: u8) = n div 256 mod 256" by (simp add: unat_of_nat)
  moreover have "unat (of_nat n :: u8) = n mod 256" by (simp add: unat_of_nat)
  moreover have "push_bit 16 (n div 65536) OR push_bit 8 (n div 256 mod 256) OR n mod 256 = n"
  proof (rule bit_eqI)
    fix k
    have e: "n div 65536 = drop_bit 16 n" "n div 256 mod 256 = take_bit 8 (drop_bit 8 n)"
      "n mod 256 = take_bit 8 n" by (simp_all add: drop_bit_eq_div take_bit_eq_mod)
    show "bit (push_bit 16 (n div 65536) OR push_bit 8 (n div 256 mod 256) OR n mod 256) k = bit n k"
      unfolding e by (cases "k < 8"; cases "k < 16") (auto simp: bit_simps)
  qed
  ultimately show ?thesis by (simp add: u24_to_usize_def to_be24_def idx_def or.assoc)
qed

lemma skip_to_extensions_encoded:
  assumes buf: "buf = pre @ vr @ len8 sid @ len16 ciphers @ len8 compr @ rest"
    and len: "length vr = 34" "length sid < 256" "length ciphers < 65536" "length compr < 256"
    and e: "length pre + 34 + (1 + length sid) + (2 + length ciphers) + (1 + length compr) \<le> hs_end"
  shows "skip_to_extensions buf (length pre) hs_end =
     Some (Some (length pre + 34 + (1 + length sid) + (2 + length ciphers) + (1 + length compr)))"
proof -
  obtain s c :: u8 and w :: u16 where scw: "s = of_nat (length sid)" "c = of_nat (length compr)"
    "w = of_nat (length ciphers)" by blast
  have u: "unat s = length sid" "unat c = length compr" "unat w = length ciphers"
    using len by (simp_all add: scw unat_of_nat)
  have buf': "buf = (pre @ vr) @ s # sid @ to_be16 w @ ciphers @ c # compr @ rest"
    using buf by (simp add: len8_def len16_def scw)
  let ?p1 = "length pre + 34" let ?p2 = "?p1 + 1 + length sid" let ?p3 = "?p2 + 2 + length ciphers"
  have b1: "idx buf ?p1 = Some s"
    unfolding buf' using len(1) by (simp add: idx_def nth_append)
  have b2: "idx buf ?p2 = Some (ucast (drop_bit 8 w))" "idx buf (?p2 + 1) = Some (ucast w)"
    unfolding buf' using len(1) by (simp_all add: idx_def nth_append to_be16_def)
  have b3: "idx buf ?p3 = Some c"
    unfolding buf' using len(1) by (simp add: idx_def nth_append)
  show ?thesis
    using e by (simp only: skip_to_extensions_def Let_def b1 Option.bind.simps u b2 be16_to_be16 b3)
      (simp add: b1 b2 b3 u)
qed

lemma extract_sni_frame:
  assumes "idx buf 0 = Some 0x16" "idx buf 3 = Some r0" "idx buf 4 = Some r1" "idx buf 5 = Some 0x01"
    and "subslice buf 6 (6 + 3) = Some h" and "u24_to_usize h = Some n"
    and "unat (be16 r0 r1) = n + 4" and "9 + n \<le> length buf"
    and "skip_to_extensions buf 9 (9 + n) = Some (Some p)"
    and "idx buf p = Some e0" "idx buf (p + 1) = Some e1"
    and "p + 2 + unat (be16 e0 e1) \<le> 9 + n"
  shows "extract_sni buf = ext_loop buf (p + 2) (p + 2 + unat (be16 e0 e1))"
  unfolding extract_sni_def Let_def using assms by simp

text \<open>At the server name extension the loop stops with the name it carries, and it skips any
  extensions before it.\<close>

lemma ext_loop_server_name:
  assumes buf: "buf = q @ extension (0, sni_data name) @ rest"
    and len: "length name + 5 < 65536"
    and fin: "length q + (9 + length name) \<le> fin" "fin \<le> length buf"
    and host: "from_utf8 name = Some host"
  shows "ext_loop buf (length q) fin = Some (Some host)"
proof -
  define n :: u16 where "n = of_nat (length (sni_data name))"
  have sl: "length (sni_data name) = length name + 5" by (simp add: sni_data_def len16_def)
  have un: "unat n = length (sni_data name)" using len sl by (simp only: n_def unat_of_nat) simp
  let ?h = "[0, 0, ucast (drop_bit 8 n), ucast n]"
  have buf2: "buf = q @ ?h @ sni_data name @ rest"
    unfolding buf by (simp add: extension_def len16_def n_def to_be16_def)
  have at: "idx buf (length q + k) = Some ((?h @ sni_data name @ rest) ! k)" if "k < 4" for k
    unfolding buf2 using that by (simp add: idx_def nth_append)
  have b: "idx buf (length q) = Some 0" "idx buf (length q + 1) = Some 0"
    "idx buf (length q + 2) = Some (ucast (drop_bit 8 n))" "idx buf (length q + 3) = Some (ucast n)"
    using at [of 0] at [of 1] at [of 2] at [of 3] by simp_all
  have buf3: "buf = (q @ ?h) @ sni_data name @ rest" unfolding buf2 by simp
  have lt: "length (sni_data name) < 65536" using len sl by linarith
  have le: "length (q @ ?h) + length (sni_data name) \<le> fin" using fin sl by simp
  have l4: "length (q @ ?h) = length q + 4" by simp
  have "server_name_at buf (length q + 4) (length (sni_data name)) fin = Some (from_utf8 name)"
    using server_name_at_encoded [OF buf3 lt le fin(2)] by (simp only: l4)
  moreover have "length q + 4 + length (sni_data name) \<le> fin" using fin sl by linarith
  ultimately show ?thesis
    using host by (subst ext_loop.simps) (simp add: b [simplified] un)
qed

lemma ext_loop_extensions:
  assumes exts: "exts = concat (map extension es) @ extension (0, sni_data name) @ more"
    and es: "\<forall>e \<in> set es. fst e \<noteq> 0 \<and> length (snd e) < 65536"
    and buf: "buf = q @ exts @ rest" and len: "length exts < 65536" and host: "from_utf8 name = Some host"
  shows "ext_loop buf (length q) (length q + length exts) = Some (Some host)"
proof -
  let ?skip = "concat (map extension es)" and ?fin = "length q + length exts"
  have lx: "length exts = length ?skip + (9 + length name) + length more"
    by (simp add: exts extension_def len16_def sni_data_def)
  have bufs: "buf = q @ ?skip @ (extension (0, sni_data name) @ more @ rest)" by (simp add: buf exts)
  have "ext_loop buf (length q) ?fin = ext_loop buf (length q + length ?skip) ?fin"
    using lx by (intro ext_loop_skip [OF es bufs]) (simp_all add: buf)
  also have "\<dots> = Some (Some host)"
  proof -
    have "buf = (q @ ?skip) @ extension (0, sni_data name) @ (more @ rest)" by (simp add: bufs)
    moreover have "?fin \<le> length buf" by (simp add: buf)
    ultimately have "ext_loop buf (length (q @ ?skip)) ?fin = Some (Some host)"
      using lx len host by (intro ext_loop_server_name) simp_all
    then show ?thesis by simp
  qed
  finally show ?thesis .
qed

text \<open>The record and handshake headers of a ClientHello, as the indexing operations see them.\<close>

lemma client_hello_header:
  assumes "length version = 2" and "length body + 4 < 65536"
  obtains pre r0 r1 h where "client_hello version body @ rest = pre @ body @ rest" "length pre = 9"
    "idx (client_hello version body @ rest) 0 = Some 0x16" "idx (client_hello version body @ rest) 3 = Some r0"
    "idx (client_hello version body @ rest) 4 = Some r1" "idx (client_hello version body @ rest) 5 = Some 0x01"
    "subslice (client_hello version body @ rest) 6 (6 + 3) = Some h" "u24_to_usize h = Some (length body)"
    "unat (be16 r0 r1) = length body + 4"
proof -
  obtain v0 v1 where v: "version = [v0, v1]"
    using assms(1) by (auto simp: length_Suc_conv numeral_2_eq_2)
  define r :: u16 where "r = of_nat (length body + 4)"
  obtain b0 b1 b2 where b: "to_be24 (length body) = [b0, b1, b2]" by (simp add: to_be24_def)
  let ?pre = "[0x16, v0, v1, ucast (drop_bit 8 r), ucast r, 0x01, b0, b1, b2]"
  have buf: "client_hello version body @ rest = ?pre @ body @ rest"
    by (simp add: client_hello_def len16_def v b r_def to_be16_def add.commute)
  show ?thesis
  proof (rule that [OF buf, of "ucast (drop_bit 8 r)" "ucast r" "[b0, b1, b2]"])
    show "u24_to_usize [b0, b1, b2] = Some (length body)"
      using u24_to_be24 [of "length body"] assms(2) b by simp
    show "unat (be16 (ucast (drop_bit 8 r)) (ucast r)) = length body + 4"
      using assms(2) by (simp only: be16_to_be16) (simp only: r_def unat_of_nat, simp)
  qed (simp_all add: buf idx_def subslice_def)
qed

text \<open>C38: the server name a ClientHello carries is the one extracted, after any number of
  other extensions and whatever follows it in the record or the buffer.\<close>

theorem extract_sni_round_trip:
  assumes "length version = 2" and "length vr = 34" and "length sid < 256"
    and "length ciphers < 65536" and "length compr < 256"
    and "\<forall>e \<in> set es. fst e \<noteq> 0 \<and> length (snd e) < 65536"
    and "exts = concat (map extension es) @ extension (0, sni_data name) @ more"
    and "length (hello_body vr sid ciphers compr exts) + 4 < 65536"
    and "from_utf8 name = Some host"
  shows "extract_sni (client_hello version (hello_body vr sid ciphers compr exts) @ rest) = Some (Some host)"
proof -
  let ?body = "hello_body vr sid ciphers compr exts"
  let ?buf = "client_hello version ?body @ rest"
  let ?p = "9 + 34 + (1 + length sid) + (2 + length ciphers) + (1 + length compr)"
  obtain pre r0 r1 h where buf: "?buf = pre @ ?body @ rest" and pl: "length pre = 9"
    and h: "idx ?buf 0 = Some 0x16" "idx ?buf 3 = Some r0" "idx ?buf 4 = Some r1" "idx ?buf 5 = Some 0x01"
      "subslice ?buf 6 (6 + 3) = Some h" "u24_to_usize h = Some (length ?body)" "unat (be16 r0 r1) = length ?body + 4"
    by (rule client_hello_header [OF assms(1,8)])
  have buf': "?buf = pre @ vr @ len8 sid @ len16 ciphers @ len8 compr @ len16 exts @ rest"
    unfolding buf by (simp add: hello_body_def)
  have lb: "length ?body = 34 + (1 + length sid) + (2 + length ciphers) + (1 + length compr) + 2 + length exts"
    by (simp add: hello_body_def len8_def len16_def assms(2))
  have skip: "skip_to_extensions ?buf 9 (9 + length ?body) = Some (Some ?p)"
    using skip_to_extensions_encoded [OF buf' assms(2-5), of "9 + length ?body"] lb pl by simp
  have le: "length exts < 65536" using assms(8) lb by linarith
  let ?n = "of_nat (length exts) :: u16"
  let ?q = "pre @ vr @ len8 sid @ len16 ciphers @ len8 compr @ to_be16 ?n"
  have ql: "length ?q = ?p + 2" by (simp add: pl len8_def len16_def assms(2))
  have bufq: "?buf = ?q @ exts @ rest" unfolding buf' len16_def append_assoc ..
  have e: "idx ?buf ?p = Some (ucast (drop_bit 8 ?n))" "idx ?buf (?p + 1) = Some (ucast ?n)"
    unfolding bufq by (simp_all add: idx_def nth_append to_be16_def pl len8_def len16_def assms(2))
  have ue: "unat (be16 (ucast (drop_bit 8 ?n)) (ucast ?n)) = length exts"
    using le by (simp only: be16_to_be16) (simp add: unat_of_nat)
  have "extract_sni ?buf = ext_loop ?buf (?p + 2) (?p + 2 + length exts)"
    using extract_sni_frame [OF h _ skip e] lb ue by (simp add: buf pl)
  with ext_loop_extensions [OF assms(7,6) bufq le assms(9)] show ?thesis by (simp only: ql)
qed

theorem extract_sni_round_trip_witness:
  "extract_sni (client_hello [3, 1] (hello_body (replicate 34 7) [] [0, 1] [0]
     (concat (map extension [(10, [1, 2])]) @ extension (0, sni_data [97, 46, 98]) @ [])) @ [5]) =
     Some (Some ''a.b'')"
proof -
  have "from_utf8 [97, 46, 98] = Some ''a.b''" by code_simp
  then show ?thesis
    by (intro extract_sni_round_trip [where es = "[(10, [1, 2])]" and more = "[]" and name = "[97, 46, 98]"])
       (simp_all add: hello_body_def len8_def len16_def extension_def sni_data_def)
qed

end
