(* ===== verification/Net_Shield.thy ===== *)
theory Net_Shield
  imports Tun Sni
begin

text \<open>
  The platform-independent packet path (\<open>NetShield\<close>, \<open>net-shield/src/lib.rs\<close>): classify one raw IP
  datagram by server name or destination address and hand it to the sink.  \<open>None\<close> is a panic.
\<close>

record net_shield =
  ns_domain_filter :: domain_filter
  ns_ip_filter :: ip_filter
  ns_proxy_port :: u16

definition net_shield_new :: "domain_filter \<Rightarrow> ip_filter \<Rightarrow> u16 \<Rightarrow> net_shield" where
  "net_shield_new d f p = \<lparr>ns_domain_filter = d, ns_ip_filter = f, ns_proxy_port = p\<rparr>"

text \<open>The action for a packet to port 443: its server name if there is one, its address otherwise.\<close>

definition tls_action :: "net_shield \<Rightarrow> bytes \<Rightarrow> raw_packet \<Rightarrow> filter_action exec" where
  "tls_action ns raw pkt = do {
     b0 \<leftarrow> idx raw 0;
     let ihl = unat (b0 AND 0x0f) * 4;
     b \<leftarrow> idx raw (ihl + 12);
     let tcp_header_len = unat (drop_bit 4 b) * 4;
     let payload_start = ihl + tcp_header_len;
     hostname \<leftarrow> (case subslice_from raw payload_start of None \<Rightarrow> Some None | Some payload \<Rightarrow> extract_sni payload);
     case hostname of
       Some h \<Rightarrow> Some (domain_lookup (ns_domain_filter ns) h)
     | None \<Rightarrow> Some (ip_lookup (ns_ip_filter ns) (rp_dst_ip pkt))
   }"

definition process_packet :: "net_shield \<Rightarrow> bytes \<Rightarrow> sink_call list \<Rightarrow> u16 \<Rightarrow> (bool \<times> sink_call list) exec" where
  "process_packet ns raw sink proxy_port = do {
     v4 \<leftarrow> parse_ipv4_packet raw;
     parsed \<leftarrow> (case v4 of Some p \<Rightarrow> Some (Some p) | None \<Rightarrow> parse_ipv6_packet raw);
     case parsed of
       None \<Rightarrow> Some (False, sink)
     | Some pkt \<Rightarrow> do {
         action \<leftarrow>
           (if rp_protocol pkt = PROTO_TCP \<and> rp_dst_port pkt = PORT_HTTPS then tls_action ns raw pkt
            else if rp_protocol pkt = PROTO_TCP \<and> rp_dst_port pkt = PORT_HTTP
              then Some (ip_lookup (ns_ip_filter ns) (rp_dst_ip pkt))
            else Some Allow);
         Some (True, dispatch sink pkt action proxy_port)
       }
   }"

section \<open>When a packet is decided\<close>

definition parsed_packet :: "bytes \<Rightarrow> raw_packet option" where
  "parsed_packet raw =
     (case parse_ipv4_packet raw of
        Some (Some p) \<Rightarrow> Some p
      | _ \<Rightarrow> (case parse_ipv6_packet raw of Some (Some p) \<Rightarrow> Some p | _ \<Rightarrow> None))"

definition to_tls :: "raw_packet \<Rightarrow> bool" where
  "to_tls p \<longleftrightarrow> rp_protocol p = PROTO_TCP \<and> rp_dst_port p = PORT_HTTPS"

lemma parsed_nonempty: "parsed_packet raw = Some p \<Longrightarrow> 20 \<le> length raw"
  by (auto simp: parsed_packet_def parse_ipv4_packet_eq parse_ipv6_packet_eq split: if_splits)

lemma extract_sni_total: "\<exists>r. extract_sni b = Some r"
proof (cases rule: extract_sni_cases [of b])
  case (loop pos ext_end)
  then have "ext_end \<le> length b" by linarith
  from ext_loop_safe [OF this, of pos] loop(1) show ?thesis by auto
qed auto

lemma tls_action_iff:
  assumes "20 \<le> length raw"
  shows "if length raw \<le> header_len (raw ! 0) + 12 then tls_action ns raw p = None
    else (\<exists>h. (case subslice_from raw (header_len (raw ! 0) + unat (drop_bit 4 (raw ! (header_len (raw ! 0) + 12))) * 4) of
           None \<Rightarrow> Some None | Some payload \<Rightarrow> extract_sni payload) = Some h \<and>
        tls_action ns raw p = Some (case h of Some n \<Rightarrow> domain_lookup (ns_domain_filter ns) n
          | None \<Rightarrow> ip_lookup (ns_ip_filter ns) (rp_dst_ip p)))"
proof (cases "length raw \<le> header_len (raw ! 0) + 12")
  case True
  moreover have "0 < length raw" using assms by linarith
  ultimately show ?thesis by (simp add: tls_action_def idx_def header_len_def Let_def)
next
  case False
  let ?o = "header_len (raw ! 0) + unat (drop_bit 4 (raw ! (header_len (raw ! 0) + 12))) * 4"
  obtain h where h: "(case subslice_from raw ?o of None \<Rightarrow> Some None | Some payload \<Rightarrow> extract_sni payload) = Some h"
    using extract_sni_total by (cases "subslice_from raw ?o") auto
  have "0 < length raw" using assms by linarith
  then have "tls_action ns raw p = Some (case h of Some n \<Rightarrow> domain_lookup (ns_domain_filter ns) n
      | None \<Rightarrow> ip_lookup (ns_ip_filter ns) (rp_dst_ip p))"
    using False h unfolding tls_action_def header_len_def
    by (simp add: idx_def Let_def split: option.split)
  with False h show ?thesis by auto
qed

lemma process_packet_parsed:
  "process_packet ns raw sink port =
     (case parsed_packet raw of
        None \<Rightarrow> Some (False, sink)
      | Some pkt \<Rightarrow> map_option (\<lambda>a. (True, dispatch sink pkt a port))
          (if to_tls pkt then tls_action ns raw pkt
           else Some (if rp_protocol pkt = PROTO_TCP \<and> rp_dst_port pkt = PORT_HTTP
             then ip_lookup (ns_ip_filter ns) (rp_dst_ip pkt) else Allow)))"
proof -
  obtain v4 where v4: "parse_ipv4_packet raw = Some v4" by (simp add: parse_ipv4_packet_eq)
  obtain v6 where v6: "parse_ipv6_packet raw = Some v6" by (simp add: parse_ipv6_packet_eq)
  show ?thesis
    unfolding process_packet_def parsed_packet_def to_tls_def v4 v6
    by (cases v4; cases v6) (simp_all add: map_option_case split: option.split)
qed

text \<open>A 24-byte IPv4 packet to port 443: the parser accepts it, the TLS branch reads past its end.\<close>

definition short_packet :: bytes where
  "short_packet = [0x45, 0, 0, 24, 0, 0, 0, 0, 64, 6, 0, 0, 10, 0, 0, 1, 10, 0, 0, 2, 0x9c, 0x40, 1, 0xbb]"


text \<open>A ClientHello for a blocked name in an IPv6 packet: the payload is looked for in the wrong place, so
  the name is not seen, and the verdict is that of the address.\<close>

definition ipv6_hello :: bytes where
  "ipv6_hello = [0x60, 0, 0, 0, 0, 0, 6, 64] @ replicate 16 0 @ replicate 16 0 @
     [0x9c, 0x40, 1, 0xbb, 0, 0, 0, 0, 0, 0, 0, 0, 0x50, 0, 0, 0, 0, 0, 0, 0] @
     client_hello [3, 1] (hello_body (replicate 34 7) [] [0, 1] [0] (extension (0, sni_data [97, 46, 98])))"

lemma ipv6_name_missed:
  "(case process_packet (net_shield_new (domain_from_rules [(''a.b'', Block)]) f 8080) ipv6_hello [] 8080 of
      Some (True, [RedirectToProxy pkt p]) \<Rightarrow> True | _ \<Rightarrow> False) =
   (ip_lookup f (V6 (Ipv6Addr (replicate 16 0))) = Proxy)"
  "extract_sni (drop 60 ipv6_hello) = Some (Some ''a.b'')"
proof -
  have p: "parse_ipv4_packet ipv6_hello = Some None"
    "parse_ipv6_packet ipv6_hello = Some (Some \<lparr>rp_bytes = ipv6_hello, rp_src_ip = V6 (Ipv6Addr (replicate 16 0)),
       rp_dst_ip = V6 (Ipv6Addr (replicate 16 0)), rp_src_port = 40000, rp_dst_port = 443, rp_protocol = 6\<rparr>)"
    by code_simp+
  have "idx ipv6_hello 0 = Some 0x60" "idx ipv6_hello 12 = Some 0" "extract_sni ipv6_hello = Some None"
    "subslice_from ipv6_hello 0 = Some ipv6_hello" by code_simp+
  then show "(case process_packet (net_shield_new (domain_from_rules [(''a.b'', Block)]) f 8080) ipv6_hello [] 8080 of
      Some (True, [RedirectToProxy pkt p]) \<Rightarrow> True | _ \<Rightarrow> False) =
    (ip_lookup f (V6 (Ipv6Addr (replicate 16 0))) = Proxy)"
    by (simp add: process_packet_def p tls_action_def PROTO_TCP_def PORT_HTTPS_def net_shield_new_def dispatch_def
        split: filter_action.split)
  show "extract_sni (drop 60 ipv6_hello) = Some (Some ''a.b'')" by code_simp
qed

text \<open>Server names are looked up as they arrive: a rule for a lower-case name does not see the same
  name in another case.\<close>

lemma sni_lookup_case_sensitive:
  "domain_lookup (domain_from_rules [(''a.b'', Block)]) ''a.b'' = Block \<and>
   domain_lookup (domain_from_rules [(''a.b'', Block)]) ''A.b'' = Proxy"
  by code_simp

end
