(* ===== verification/Liveness.thy ===== *)
theory Liveness
  imports Blocklist_Types Ip_Addr
begin

text \<open>
  Liveness revalidation (\<open>domain-blocklist/src/liveness/\<close>): combining the lookups of one resolver,
  corroborating two resolvers, the canary that guards a sweep, and the pruning rules on cached
  verdicts.  A resolver is a function on the state of the network, which may change with every query.
\<close>

section \<open>Verdicts\<close>

text \<open>\<open>lookup.rs\<close>: extended DNS error codes that mark a filtered or stale negative answer.\<close>

definition EDE_FORGED_ANSWER :: u16 where "EDE_FORGED_ANSWER = 4"
definition EDE_DNSSEC_BOGUS :: u16 where "EDE_DNSSEC_BOGUS = 6"
definition EDE_CACHED_ERROR :: u16 where "EDE_CACHED_ERROR = 13"
definition EDE_BLOCKED :: u16 where "EDE_BLOCKED = 15"
definition EDE_CENSORED :: u16 where "EDE_CENSORED = 16"
definition EDE_FILTERED :: u16 where "EDE_FILTERED = 17"
definition EDE_PROHIBITED :: u16 where "EDE_PROHIBITED = 18"
definition EDE_STALE_NXDOMAIN :: u16 where "EDE_STALE_NXDOMAIN = 19"

definition is_filtering_ede :: "u16 option \<Rightarrow> bool" where
  "is_filtering_ede extended_error \<longleftrightarrow>
     (case extended_error of
        None \<Rightarrow> False
      | Some e \<Rightarrow> e \<in> {EDE_FORGED_ANSWER, EDE_DNSSEC_BOGUS, EDE_CACHED_ERROR, EDE_BLOCKED, EDE_CENSORED,
          EDE_FILTERED, EDE_PROHIBITED, EDE_STALE_NXDOMAIN})"

datatype unknown_reason =
  NoData | ServFail | Refused | FormErr | NotImp | Timeout | Transport | Malformed
| ChainToDeadTarget | FilteredByResolver | UncorroboratedDead

datatype lookup_result =
  Resolved "ip_addr list"
| NxDomain bool "u16 option"
| NxDomainViaChain
| LookupUnknown unknown_reason

datatype verdict = Alive | Dead | Unknown unknown_reason

fun combine :: "lookup_result \<Rightarrow> lookup_result \<Rightarrow> verdict" where
  "combine (Resolved ips) r = Alive"
| "combine r (Resolved ips) = Alive"
| "combine (NxDomain auth a_ede) (NxDomain auth' aaaa_ede) =
     (if is_filtering_ede a_ede \<or> is_filtering_ede aaaa_ede then Unknown FilteredByResolver else Dead)"
| "combine NxDomainViaChain r = Unknown ChainToDeadTarget"
| "combine r NxDomainViaChain = Unknown ChainToDeadTarget"
| "combine (LookupUnknown reason) r = Unknown reason"
| "combine r (LookupUnknown reason) = Unknown reason"

datatype record_type = A | Aaaa

type_synonym 'w resolver = "string \<Rightarrow> record_type \<Rightarrow> 'w \<Rightarrow> lookup_result \<times> 'w"

definition check :: "'w resolver \<Rightarrow> string \<Rightarrow> 'w \<Rightarrow> verdict \<times> 'w" where
  "check resolver domain w =
     (let (a, w) = resolver domain A w
      in case a of
           Resolved ips \<Rightarrow> (Alive, w)
         | _ \<Rightarrow> (let (aaaa, w) = resolver domain Aaaa w in (combine a aaaa, w)))"

text \<open>\<open>corroboration.rs\<close>.\<close>

fun corroborate :: "verdict \<Rightarrow> verdict \<Rightarrow> verdict" where
  "corroborate Alive v = Alive"
| "corroborate v Alive = Alive"
| "corroborate Dead Dead = Dead"
| "corroborate Dead (Unknown r) = Unknown UncorroboratedDead"
| "corroborate (Unknown r) Dead = Unknown UncorroboratedDead"
| "corroborate (Unknown reason) (Unknown r) = Unknown reason"

definition check_corroborated :: "'w resolver \<Rightarrow> 'w resolver \<Rightarrow> string \<Rightarrow> 'w \<Rightarrow> verdict \<times> 'w" where
  "check_corroborated primary secondary domain w =
     (let (v1, w) = check primary domain w; (v2, w) = check secondary domain w in (corroborate v1 v2, w))"

section \<open>The cache entry and the pruning rules\<close>

record cache_entry =
  ce_last_checked :: timestamp
  ce_verdict :: verdict
  ce_first_dead_at :: "timestamp option"

definition saturating_sub :: "u64 \<Rightarrow> u64 \<Rightarrow> u64" where
  "saturating_sub a b = (if b \<le> a then a - b else 0)"

definition due_for_check :: "cache_entry option \<Rightarrow> timestamp \<Rightarrow> u64 \<Rightarrow> bool" where
  "due_for_check entry now ttl_seconds =
     (case entry of None \<Rightarrow> True | Some e \<Rightarrow> ttl_seconds \<le> saturating_sub now (ce_last_checked e))"

definition SPECIAL_USE_TLDS :: "string list" where
  "SPECIAL_USE_TLDS = [''onion'', ''local'', ''localhost'', ''test'', ''invalid'', ''example'']"

text \<open>\<open>rsplit_once('.')\<close>, the part after the last dot, or the whole string.\<close>

definition after_last_dot :: "string \<Rightarrow> string" where
  "after_last_dot s = last (split_on CHR ''.'' s)"

definition is_special_use_domain :: "string \<Rightarrow> bool" where
  "is_special_use_domain domain =
     (let trimmed = (case strip_suffix ''.'' domain of Some s \<Rightarrow> s | None \<Rightarrow> domain)
      in list_ex (\<lambda>special. eq_ignore_ascii_case (after_last_dot trimmed) special) SPECIAL_USE_TLDS)"

definition should_prune :: "string \<Rightarrow> verdict \<Rightarrow> bool" where
  "should_prune domain v = (if is_special_use_domain domain then False else v = Dead)"

definition should_prune_with_hysteresis ::
  "cache_entry \<Rightarrow> string \<Rightarrow> verdict \<Rightarrow> timestamp \<Rightarrow> u64 \<Rightarrow> bool" where
  "should_prune_with_hysteresis entry domain v now quarantine_seconds =
     (if \<not> should_prune domain v then False
      else case ce_first_dead_at entry of
             None \<Rightarrow> False
           | Some first_dead_at \<Rightarrow> quarantine_seconds \<le> saturating_sub now first_dead_at)"

section \<open>The canary\<close>

definition MAX_NAMED_HITS_canary :: nat where "MAX_NAMED_HITS_canary = 20"

record canary_config =
  alive_controls :: "string list"
  dead_controls :: "string list"

datatype canary_config_error = EmptyAliveControls | EmptyDeadControls

definition canary_config_new :: "string list \<Rightarrow> string list \<Rightarrow> canary_config_error + canary_config" where
  "canary_config_new alive dead =
     (if alive = [] then Inl EmptyAliveControls
      else if dead = [] then Inl EmptyDeadControls
      else Inr \<lparr>alive_controls = alive, dead_controls = dead\<rparr>)"

datatype nonce_domain_error =
  EmptyNonce | EmptyBaseDomain | NonceNotLdh | BaseDomainNotLdh | LabelTooLong | NameTooLong

definition is_ldh_label :: "string \<Rightarrow> bool" where
  "is_ldh_label label \<longleftrightarrow> label \<noteq> [] \<and> list_all (\<lambda>b. is_ascii_alphanumeric b \<or> b = CHR ''-'') label"

definition MAX_LABEL_OCTETS :: nat where "MAX_LABEL_OCTETS = 63"
definition MAX_NAME_OCTETS :: nat where "MAX_NAME_OCTETS = 255"

text \<open>The loop over the labels of the base domain: the first offending label decides.\<close>

fun check_base_labels :: "string list \<Rightarrow> nonce_domain_error option" where
  "check_base_labels [] = None"
| "check_base_labels (label # labels) =
     (if \<not> is_ldh_label label then Some BaseDomainNotLdh
      else if length label > MAX_LABEL_OCTETS then Some LabelTooLong
      else check_base_labels labels)"

definition nonce_dead_control :: "string \<Rightarrow> string \<Rightarrow> nonce_domain_error + string" where
  "nonce_dead_control base_domain nonce =
     (if nonce = [] then Inl EmptyNonce
      else if base_domain = [] then Inl EmptyBaseDomain
      else if \<not> is_ldh_label nonce then Inl NonceNotLdh
      else if length nonce > MAX_LABEL_OCTETS then Inl LabelTooLong
      else case check_base_labels (split_on CHR ''.'' base_domain) of
             Some e \<Rightarrow> Inl e
           | None \<Rightarrow>
               (let domain = nonce @ ''.'' @ base_domain;
                    wire_octets = sum_list (map (\<lambda>label. length label + 1) (split_on CHR ''.'' domain)) + 1
                in if wire_octets > MAX_NAME_OCTETS then Inl NameTooLong else Inr domain))"

text \<open>A failure message carries the control and the verdict it got.\<close>

datatype control_failure = AliveControl string verdict | DeadControl string verdict | AndMore nat

datatype canary_result = Passed timestamp | Failed "control_failure list" timestamp

fun check_controls ::
  "(string \<Rightarrow> verdict \<Rightarrow> control_failure) \<Rightarrow> verdict \<Rightarrow> 'w resolver \<Rightarrow> string list \<Rightarrow> 'w \<Rightarrow> control_failure list \<times> 'w" where
  "check_controls failure expected resolver [] w = ([], w)"
| "check_controls failure expected resolver (domain # domains) w =
     (let (v, w) = check resolver domain w; (failures, w) = check_controls failure expected resolver domains w
      in (if v \<noteq> expected then failure domain v # failures else failures, w))"

definition canary_check :: "'w resolver \<Rightarrow> canary_config \<Rightarrow> timestamp \<Rightarrow> 'w \<Rightarrow> canary_result \<times> 'w" where
  "canary_check resolver config now w =
     (let (alive_failures, w) = check_controls AliveControl Alive resolver (alive_controls config) w;
          (dead_failures, w) = check_controls DeadControl Dead resolver (dead_controls config) w;
          failures = alive_failures @ dead_failures
      in (if failures = [] then Passed now
          else Failed (if length failures > MAX_NAMED_HITS_canary
               then take MAX_NAMED_HITS_canary failures @ [AndMore (length failures - MAX_NAMED_HITS_canary)]
               else failures) now, w))"

section \<open>The report of negative outcomes\<close>

text \<open>\<open>format!("{reason:?}")\<close>: the derived \<open>Debug\<close> prints the constructor's name.\<close>

fun reason_name :: "unknown_reason \<Rightarrow> string" where
  "reason_name NoData = ''NoData''"
| "reason_name ServFail = ''ServFail''"
| "reason_name Refused = ''Refused''"
| "reason_name FormErr = ''FormErr''"
| "reason_name NotImp = ''NotImp''"
| "reason_name Timeout = ''Timeout''"
| "reason_name Transport = ''Transport''"
| "reason_name Malformed = ''Malformed''"
| "reason_name ChainToDeadTarget = ''ChainToDeadTarget''"
| "reason_name FilteredByResolver = ''FilteredByResolver''"
| "reason_name UncorroboratedDead = ''UncorroboratedDead''"

record negative_outcome_report =
  nr_dead :: "string list"
  unknown_by_reason :: "(string, string list) btree"

definition empty_report :: negative_outcome_report where
  "empty_report = \<lparr>nr_dead = [], unknown_by_reason = []\<rparr>"

definition report_total :: "negative_outcome_report \<Rightarrow> nat" where
  "report_total report =
     length (nr_dead report) + sum_list (map (\<lambda>kv. length (snd kv)) (unknown_by_reason report))"

definition record_outcome :: "negative_outcome_report \<Rightarrow> string \<Rightarrow> cache_entry \<Rightarrow> negative_outcome_report" where
  "record_outcome report domain entry =
     (case ce_verdict entry of
        Alive \<Rightarrow> report
      | Dead \<Rightarrow> report\<lparr>nr_dead := nr_dead report @ [domain]\<rparr>
      | Unknown reason \<Rightarrow>
          report\<lparr>unknown_by_reason :=
            bt_upsert (reason_name reason) (\<lambda>ds. ds @ [domain]) [domain] (unknown_by_reason report)\<rparr>)"

definition finish_report :: "negative_outcome_report \<Rightarrow> negative_outcome_report" where
  "finish_report report =
     report\<lparr>nr_dead := sort (nr_dead report),
       unknown_by_reason := map (\<lambda>(r, ds). (r, sort ds)) (unknown_by_reason report)\<rparr>"

text \<open>The cache is a \<open>HashMap\<close>: the list is its iteration, in whatever order it comes.\<close>

definition negative_outcome_report :: "(string \<times> cache_entry) list \<Rightarrow> negative_outcome_report" where
  "negative_outcome_report cache =
     finish_report (foldl (\<lambda>report (domain, entry). record_outcome report domain entry) empty_report cache)"

section \<open>What a verdict is evidence of\<close>

definition genuine_nxdomain :: "lookup_result \<Rightarrow> bool" where
  "genuine_nxdomain r \<longleftrightarrow> (case r of NxDomain auth ede \<Rightarrow> \<not> is_filtering_ede ede | _ \<Rightarrow> False)"

lemma combine_Dead_iff: "combine a aaaa = Dead \<longleftrightarrow> genuine_nxdomain a \<and> genuine_nxdomain aaaa"
  by (cases a; cases aaaa) (auto simp: genuine_nxdomain_def)

lemma combine_Alive_iff: "combine a aaaa = Alive \<longleftrightarrow> (\<exists>ips. a = Resolved ips \<or> aaaa = Resolved ips)"
  by (cases a; cases aaaa) auto

lemma corroborate_Dead_iff: "corroborate v w = Dead \<longleftrightarrow> v = Dead \<and> w = Dead"
  by (cases v; cases w) auto

lemma corroborate_Alive_iff: "corroborate v w = Alive \<longleftrightarrow> v = Alive \<or> w = Alive"
  by (cases v; cases w) auto

lemma reason_name_inject [simp]: "reason_name a = reason_name b \<longleftrightarrow> a = b"
  by (cases a; cases b) simp_all

section \<open>The nonce control\<close>

lemma check_base_labels_None:
  "check_base_labels ls = None \<longleftrightarrow> list_all (\<lambda>l. is_ldh_label l \<and> length l \<le> MAX_LABEL_OCTETS) ls"
  by (induction ls) auto

lemma wire_octets: "sum_list (map (\<lambda>label. length label + 1) (split_on c s)) = length s + 1"
proof -
  have "length (join_with c ls) + 1 = sum_list (map (\<lambda>label. length label + 1) ls)" if "ls \<noteq> []" for ls :: "'a list list"
    using that by (induction ls rule: join_with.induct) auto
  from this [of "split_on c s"] show ?thesis by simp
qed

lemma dot_not_ldh: "is_ldh_label l \<Longrightarrow> CHR ''.'' \<notin> set l"
  by (auto simp: is_ldh_label_def list_all_iff is_ascii_alphanumeric_def is_ascii_alphabetic_def is_ascii_digit_def
      char_le_iff)

lemma split_nonce: "is_ldh_label nonce \<Longrightarrow>
    split_on CHR ''.'' (nonce @ CHR ''.'' # base) = nonce # split_on CHR ''.'' base"
  using dot_not_ldh [of nonce] by (simp add: split_on_append split_on_id)

definition ldh_name :: "string \<Rightarrow> bool" where
  "ldh_name d \<longleftrightarrow> list_all (\<lambda>l. is_ldh_label l \<and> length l \<le> MAX_LABEL_OCTETS) (split_on CHR ''.'' d) \<and>
     length d + 2 \<le> MAX_NAME_OCTETS"

lemma nonce_dead_control_iff:
  "nonce_dead_control base nonce = Inr d \<longleftrightarrow>
     d = nonce @ ''.'' @ base \<and> is_ldh_label nonce \<and> ldh_name d"
proof (cases "is_ldh_label nonce")
  case True
  then have "nonce \<noteq> []" by (simp add: is_ldh_label_def)
  moreover have "\<not> is_ldh_label []" by (simp add: is_ldh_label_def)
  ultimately show ?thesis
    using True split_nonce [OF True, of base] wire_octets [of "CHR ''.''" "nonce @ CHR ''.'' # base"]
    by (cases "base = []"; cases "check_base_labels (split_on CHR ''.'' base)")
      (auto simp: nonce_dead_control_def ldh_name_def check_base_labels_None [symmetric] Let_def
        split: if_splits)
qed (auto simp: nonce_dead_control_def)

text \<open>The nonce control is made exactly when it is a name a resolver can be asked: every label is a
  non-empty run of letters, digits and hyphens of at most 63 octets and the wire form fits in 255; then it
  is the nonce as one more label on the base domain.  An empty argument is always reported as such.\<close>

theorem nonce_dead_control_bounds:
  "case nonce_dead_control base nonce of
     Inr d \<Rightarrow> d = nonce @ ''.'' @ base \<and> is_ldh_label nonce \<and> ldh_name d
   | Inl e \<Rightarrow> \<not> (is_ldh_label nonce \<and> ldh_name (nonce @ ''.'' @ base)) \<and>
       (e = EmptyNonce \<longleftrightarrow> nonce = []) \<and> (e = EmptyBaseDomain \<longleftrightarrow> nonce \<noteq> [] \<and> base = [])"
proof (cases "nonce_dead_control base nonce")
  case (Inl e)
  moreover have "\<not> (is_ldh_label nonce \<and> ldh_name (nonce @ ''.'' @ base))"
    using Inl nonce_dead_control_iff [of base nonce "nonce @ ''.'' @ base"] by auto
  moreover have "check_base_labels ls \<noteq> Some EmptyNonce \<and> check_base_labels ls \<noteq> Some EmptyBaseDomain" for ls
    by (induction ls) auto
  ultimately show ?thesis
    using Inl by (auto simp: nonce_dead_control_def Let_def split: if_splits option.splits)
next
  case (Inr d)
  show ?thesis unfolding Inr sum.case by (rule iffD1 [OF nonce_dead_control_iff Inr])
qed

section \<open>What the report lists\<close>

definition with_verdict :: "verdict \<Rightarrow> (string \<times> cache_entry) list \<Rightarrow> string list" where
  "with_verdict v cache = map fst (filter (\<lambda>kv. ce_verdict (snd kv) = v) cache)"

definition report_of :: "(string \<times> cache_entry) list \<Rightarrow> negative_outcome_report \<Rightarrow> bool" where
  "report_of cache report \<longleftrightarrow>
     nr_dead report = with_verdict Dead cache \<and> bt_inv (unknown_by_reason report) \<and>
     bt_get (unknown_by_reason report) = (\<lambda>name. if \<exists>r. name = reason_name r \<and> with_verdict (Unknown r) cache \<noteq> []
       then Some (with_verdict (Unknown (THE r. name = reason_name r)) cache) else None)"

lemma with_verdict_snoc: "with_verdict v (cache @ [(d, e)]) =
    (if ce_verdict e = v then with_verdict v cache @ [d] else with_verdict v cache)"
  by (simp add: with_verdict_def)

lemma report_of_record:
  assumes "report_of cache report"
  shows "report_of (cache @ [(d, e)]) (record_outcome report d e)"
proof (cases "ce_verdict e")
  case (Unknown r)
  then show ?thesis
    using assms by (auto simp: report_of_def record_outcome_def with_verdict_snoc bt_inv_upsert bt_get_upsert fun_eq_iff)
qed (use assms in \<open>auto simp: report_of_def record_outcome_def with_verdict_snoc cong: if_cong\<close>)

lemma report_of_fold:
  "report_of cache (foldl (\<lambda>report (domain, entry). record_outcome report domain entry) empty_report cache)"
proof (induction cache rule: rev_induct)
  case Nil
  show ?case by (simp add: report_of_def empty_report_def with_verdict_def fun_eq_iff)
next
  case (snoc kv cache)
  then show ?case by (cases kv) (simp add: report_of_record)
qed

lemma finish_report_get:
  "bt_get (unknown_by_reason (finish_report report)) = map_option sort \<circ> bt_get (unknown_by_reason report)"
proof -
  have "map_of (map (\<lambda>(r, ds). (r, sort ds)) m) = map_option sort \<circ> map_of m" for m :: "(string \<times> string list) list"
    by (induction m) auto
  then show ?thesis by (simp add: finish_report_def bt_get_def fun_eq_iff)
qed

lemma sum_bt_insert:
  fixes v :: "string list"
  assumes "bt_inv m"
  shows "sum_list (map (\<lambda>kv. length (snd kv)) (bt_insert k v m)) +
      (case bt_get m k of Some w \<Rightarrow> length w | None \<Rightarrow> 0) =
    sum_list (map (\<lambda>kv. length (snd kv)) m) + length v"
  using assms
proof (induction m)
  case (Cons a m)
  obtain k' v' where a: "a = (k', v')" by (cases a)
  have "k \<notin> fst ` set m" if "k < k'" using Cons.prems that by (force simp: a bt_inv_def)
  then have "bt_get m k = None" if "k < k'" using that by (simp add: bt_get_def map_of_eq_None_iff)
  moreover have "k \<notin> fst ` set m" if "k = k'" using Cons.prems that by (force simp: a bt_inv_def)
  ultimately show ?case
    using Cons.IH Cons.prems by (auto simp: a bt_inv_def bt_get_def)
qed (simp add: bt_get_def)

lemma report_total_record:
  assumes "bt_inv (unknown_by_reason report)"
  shows "report_total (record_outcome report d e) = report_total report + (if ce_verdict e = Alive then 0 else 1)"
proof (cases "ce_verdict e")
  case (Unknown r)
  let ?m = "unknown_by_reason report"
  have "sum_list (map (\<lambda>kv. length (snd kv)) (bt_upsert (reason_name r) (\<lambda>ds. ds @ [d]) [d] ?m)) =
      sum_list (map (\<lambda>kv. length (snd kv)) ?m) + 1"
    using sum_bt_insert [OF assms, where k = "reason_name r" and v = "[d]"]
      sum_bt_insert [OF assms, where k = "reason_name r" and v = "the (bt_get ?m (reason_name r)) @ [d]"]
    by (auto simp: bt_upsert_def split: option.splits)
  with Unknown show ?thesis by (simp add: report_total_def record_outcome_def)
qed (simp_all add: report_total_def record_outcome_def)

lemma report_total_fold:
  "report_total (foldl (\<lambda>report (domain, entry). record_outcome report domain entry) empty_report cache) =
    length (filter (\<lambda>kv. ce_verdict (snd kv) \<noteq> Alive) cache)"
proof (induction cache rule: rev_induct)
  case Nil
  show ?case by (simp add: report_total_def empty_report_def)
next
  case (snoc kv cache)
  have "bt_inv (unknown_by_reason
      (foldl (\<lambda>report (domain, entry). record_outcome report domain entry) empty_report cache))"
    using report_of_fold [of cache] by (simp add: report_of_def)
  from report_total_record [OF this] snoc show ?case by (cases kv) simp
qed

lemma report_total_finish: "report_total (finish_report report) = report_total report"
proof -
  have "(\<lambda>x. length (snd (case x of (r, ds) \<Rightarrow> (r, sort ds)))) = (\<lambda>kv :: string \<times> string list. length (snd kv))"
    by (auto simp: fun_eq_iff)
  then show ?thesis by (simp add: report_total_def finish_report_def comp_def)
qed

lemma bt_inv_finish: "bt_inv (unknown_by_reason (finish_report report)) = bt_inv (unknown_by_reason report)"
  by (simp add: finish_report_def bt_inv_def comp_def case_prod_beta)

text \<open>The report lists every domain whose cached verdict is not \<open>Alive\<close> exactly once, under its
  verdict: the dead ones, and the unknown ones under the name of their reason, each list sorted
  whatever the iteration order of the cache; its total is their number.\<close>

theorem negative_report_correct:
  "nr_dead (negative_outcome_report cache) = sort (with_verdict Dead cache) \<and>
   bt_inv (unknown_by_reason (negative_outcome_report cache)) \<and>
   (\<forall>r. bt_get (unknown_by_reason (negative_outcome_report cache)) (reason_name r) =
      (if with_verdict (Unknown r) cache = [] then None else Some (sort (with_verdict (Unknown r) cache)))) \<and>
   report_total (negative_outcome_report cache) = length (filter (\<lambda>kv. ce_verdict (snd kv) \<noteq> Alive) cache)"
proof -
  note fold = report_of_fold [of cache, unfolded report_of_def]
  then show ?thesis
    by (auto simp: negative_outcome_report_def bt_inv_finish finish_report_get report_total_finish report_total_fold)
      (simp_all add: finish_report_def)
qed

end
