(* ===== verification/Cache_Store.thy ===== *)
theory Cache_Store
  imports Liveness
begin

text \<open>
  The persistent liveness cache (\<open>domain-blocklist/src/cache_store.rs\<close>): the conversions to the
  stored form, the interface the sweep uses (a locale), the in-memory map and the store that buffers
  writes in front of a database.  \<open>bincode\<close> and \<open>redb\<close> are parameters.
\<close>

section \<open>The stored form\<close>

datatype unknown_reason_dto =
  NoDataDto | ServFailDto | RefusedDto | FormErrDto | NotImpDto | TimeoutDto | MalformedDto
| ChainToDeadTargetDto | FilteredByResolverDto | UncorroboratedDeadDto | TransportDto

fun reason_to_dto :: "unknown_reason \<Rightarrow> unknown_reason_dto" where
  "reason_to_dto NoData = NoDataDto"
| "reason_to_dto ServFail = ServFailDto"
| "reason_to_dto Refused = RefusedDto"
| "reason_to_dto FormErr = FormErrDto"
| "reason_to_dto NotImp = NotImpDto"
| "reason_to_dto Timeout = TimeoutDto"
| "reason_to_dto Malformed = MalformedDto"
| "reason_to_dto ChainToDeadTarget = ChainToDeadTargetDto"
| "reason_to_dto FilteredByResolver = FilteredByResolverDto"
| "reason_to_dto UncorroboratedDead = UncorroboratedDeadDto"
| "reason_to_dto Transport = TransportDto"

fun reason_from_dto :: "unknown_reason_dto \<Rightarrow> unknown_reason" where
  "reason_from_dto NoDataDto = NoData"
| "reason_from_dto ServFailDto = ServFail"
| "reason_from_dto RefusedDto = Refused"
| "reason_from_dto FormErrDto = FormErr"
| "reason_from_dto NotImpDto = NotImp"
| "reason_from_dto TimeoutDto = Timeout"
| "reason_from_dto MalformedDto = Malformed"
| "reason_from_dto ChainToDeadTargetDto = ChainToDeadTarget"
| "reason_from_dto FilteredByResolverDto = FilteredByResolver"
| "reason_from_dto UncorroboratedDeadDto = UncorroboratedDead"
| "reason_from_dto TransportDto = Transport"

datatype verdict_dto = AliveDto | DeadDto | UnknownDto unknown_reason_dto

fun verdict_to_dto :: "verdict \<Rightarrow> verdict_dto" where
  "verdict_to_dto Alive = AliveDto"
| "verdict_to_dto Dead = DeadDto"
| "verdict_to_dto (Unknown r) = UnknownDto (reason_to_dto r)"

fun verdict_from_dto :: "verdict_dto \<Rightarrow> verdict" where
  "verdict_from_dto AliveDto = Alive"
| "verdict_from_dto DeadDto = Dead"
| "verdict_from_dto (UnknownDto r) = Unknown (reason_from_dto r)"

record cache_entry_dto =
  dto_last_checked :: u64
  dto_verdict :: verdict_dto
  dto_first_dead_at :: "u64 option"

definition entry_to_dto :: "cache_entry \<Rightarrow> cache_entry_dto" where
  "entry_to_dto e = \<lparr>dto_last_checked = ce_last_checked e, dto_verdict = verdict_to_dto (ce_verdict e),
     dto_first_dead_at = ce_first_dead_at e\<rparr>"

definition entry_from_dto :: "cache_entry_dto \<Rightarrow> cache_entry" where
  "entry_from_dto e = \<lparr>ce_last_checked = dto_last_checked e, ce_verdict = verdict_from_dto (dto_verdict e),
     ce_first_dead_at = dto_first_dead_at e\<rparr>"

lemma reason_dto [simp]: "reason_from_dto (reason_to_dto r) = r" "reason_to_dto (reason_from_dto d) = d"
  by (cases r; simp) (cases d; simp)

lemma verdict_dto [simp]: "verdict_from_dto (verdict_to_dto v) = v" "verdict_to_dto (verdict_from_dto d) = d"
  by (cases v; simp) (cases d; simp)

lemma entry_dto [simp]: "entry_from_dto (entry_to_dto e) = e" "entry_to_dto (entry_from_dto d) = d"
  by (simp_all add: entry_from_dto_def entry_to_dto_def)

section \<open>The interface of a cache\<close>

type_synonym cache = "string \<Rightarrow> cache_entry option"

text \<open>\<open>get\<close> takes \<open>&self\<close>, but may count an error, so it returns the backend too;
  \<open>flush\<close> returns the backend it leaves behind with its error.\<close>

record 'c cache_backend =
  cb_get :: "string \<Rightarrow> 'c \<Rightarrow> cache_entry option \<times> 'c"
  cb_set :: "string \<Rightarrow> cache_entry \<Rightarrow> 'c \<Rightarrow> 'c"
  cb_flush :: "'c \<Rightarrow> bool \<times> 'c"

text \<open>What the sweep relies on: reads see the last write, and flushing keeps what is seen.\<close>

locale lawful_cache =
  fixes backend :: "'c cache_backend" and view :: "'c \<Rightarrow> cache" and ok :: "'c \<Rightarrow> bool"
  assumes get_view: "ok c \<Longrightarrow> fst (cb_get backend d c) = view c d"
    and get_keeps: "ok c \<Longrightarrow> ok (snd (cb_get backend d c)) \<and> view (snd (cb_get backend d c)) = view c"
    and set_view: "ok c \<Longrightarrow> ok (cb_set backend d e c) \<and> view (cb_set backend d e c) = (view c)(d \<mapsto> e)"
    and flush_view: "ok c \<Longrightarrow> fst (cb_flush backend c) \<Longrightarrow>
      ok (snd (cb_flush backend c)) \<and> view (snd (cb_flush backend c)) = view c"

datatype cache_op = GetOp string | SetOp string cache_entry | FlushOp

text \<open>A client's sequence of operations: the values it read, whether every flush succeeded, and the
  backend it leaves.\<close>

fun run_cache_ops :: "'c cache_backend \<Rightarrow> cache_op list \<Rightarrow> 'c \<Rightarrow> cache_entry option list \<times> bool \<times> 'c" where
  "run_cache_ops b [] c = ([], True, c)"
| "run_cache_ops b (GetOp d # ops) c =
     (let (v, c) = cb_get b d c; (outs, fine, c) = run_cache_ops b ops c in (v # outs, fine, c))"
| "run_cache_ops b (SetOp d e # ops) c = run_cache_ops b ops (cb_set b d e c)"
| "run_cache_ops b (FlushOp # ops) c =
     (let (flushed, c) = cb_flush b c; (outs, fine, c) = run_cache_ops b ops c in (outs, flushed \<and> fine, c))"

definition hash_map_backend :: "cache cache_backend" where
  "hash_map_backend = \<lparr>cb_get = (\<lambda>d c. (c d, c)), cb_set = (\<lambda>d e c. c(d \<mapsto> e)), cb_flush = (\<lambda>c. (True, c))\<rparr>"

text \<open>A backend whose writes do not fail.\<close>

locale reliable_cache = lawful_cache backend view ok
  for backend :: "'c cache_backend" and view :: "'c \<Rightarrow> cache" and ok :: "'c \<Rightarrow> bool" +
  assumes flush_succeeds: "ok c \<Longrightarrow> fst (cb_flush backend c)"

lemma hash_map_ops [simp]:
  "cb_get hash_map_backend d c = (c d, c)" "cb_set hash_map_backend d e c = c(d \<mapsto> e)"
  "cb_flush hash_map_backend c = (True, c)"
  by (simp_all add: hash_map_backend_def)

context lawful_cache
begin

lemma run_refines:
  assumes "ok c" "run_cache_ops backend ops c = (outs, True, c')"
  shows "run_cache_ops hash_map_backend ops (view c) = (outs, True, view c') \<and> ok c'"
  using assms
proof (induction ops arbitrary: c outs)
  case (Cons op ops)
  show ?case
  proof (cases op)
    case (GetOp d)
    obtain v c1 where g: "cb_get backend d c = (v, c1)" by (cases "cb_get backend d c")
    have c1: "v = view c d" "ok c1" "view c1 = view c"
      using get_view [OF Cons.prems(1), of d] get_keeps [OF Cons.prems(1), of d] by (simp_all add: g)
    from Cons.prems(2) GetOp g obtain outs' where "run_cache_ops backend ops c1 = (outs', True, c')" "outs = v # outs'"
      by (auto split: prod.splits)
    with Cons.IH [OF c1(2)] c1 GetOp show ?thesis by simp
  next
    case (SetOp d e)
    note set = set_view [OF Cons.prems(1), of d e]
    from Cons.IH [OF conjunct1 [OF set]] Cons.prems(2) SetOp
    have "run_cache_ops hash_map_backend ops (view (cb_set backend d e c)) = (outs, True, view c') \<and> ok c'" by simp
    then show ?thesis by (simp only: SetOp conjunct2 [OF set] run_cache_ops.simps hash_map_ops)
  next
    case FlushOp
    obtain f c1 where g: "cb_flush backend c = (f, c1)" by (cases "cb_flush backend c")
    from Cons.prems(2) FlushOp g have r: "f" "run_cache_ops backend ops c1 = (outs, True, c')"
      by (auto split: prod.splits)
    have "ok c1" "view c1 = view c" using flush_view [OF Cons.prems(1)] r(1) by (simp_all add: g)
    with Cons.IH [OF this(1) r(2)] FlushOp show ?thesis by simp
  qed
qed simp

end

interpretation hash_map: reliable_cache hash_map_backend "\<lambda>c. c" "\<lambda>c. True"
  by unfold_locales simp_all

section \<open>The store in front of the database\<close>

text \<open>\<open>redb\<close>, as the store uses it: whether a read or write transaction and the table open, one row, the
  rows in key order, and a commit of staged rows (\<open>None\<close> is an error; a dropped transaction leaves
  the database as it was).  Creating and opening take the path and the size of the page cache.\<close>

datatype table_open = TableOk | TableDoesNotExist | TableError

record 'db redb_ops =
  rd_create :: "string \<Rightarrow> nat \<Rightarrow> 'db option"
  rd_open :: "string \<Rightarrow> nat \<Rightarrow> 'db option"
  rd_begin_read :: "'db \<Rightarrow> bool"
  rd_open_table :: "'db \<Rightarrow> table_open"
  rd_get :: "'db \<Rightarrow> string \<Rightarrow> unit + bytes option"
  rd_rows :: "'db \<Rightarrow> unit + (unit + string \<times> bytes) list"
  rd_begin_write :: "'db \<Rightarrow> bool"
  rd_open_for_write :: "'db \<Rightarrow> bool"
  rd_insert_ok :: "'db \<Rightarrow> string \<Rightarrow> bytes \<Rightarrow> bool"
  rd_commit :: "'db \<Rightarrow> (string \<times> bytes) list \<Rightarrow> 'db option"

record 'db cache_store =
  cs_db :: 'db
  cs_pending :: "(string, cache_entry) btree"
  cs_error_count :: u64

record codec =
  cd_serialize :: "cache_entry_dto \<Rightarrow> bytes option"
  cd_deserialize :: "bytes \<Rightarrow> cache_entry_dto option"

definition DEFAULT_CACHE_SIZE_BYTES :: nat where "DEFAULT_CACHE_SIZE_BYTES = 128 * 1024 * 1024"

definition open_with_cache_size :: "'db redb_ops \<Rightarrow> string \<Rightarrow> nat \<Rightarrow> 'db cache_store option" where
  "open_with_cache_size rd path cache_size_bytes =
     (case rd_create rd path cache_size_bytes of
        None \<Rightarrow> None
      | Some db \<Rightarrow>
          if \<not> rd_begin_write rd db then None
          else if \<not> rd_open_for_write rd db then None
          else (case rd_commit rd db [] of
                  None \<Rightarrow> None
                | Some db \<Rightarrow> Some \<lparr>cs_db = db, cs_pending = [], cs_error_count = 0\<rparr>))"

definition store_open :: "'db redb_ops \<Rightarrow> string \<Rightarrow> 'db cache_store option" where
  "store_open rd path = open_with_cache_size rd path DEFAULT_CACHE_SIZE_BYTES"

definition count_error :: "'db cache_store \<Rightarrow> cache_entry option \<times> 'db cache_store" where
  "count_error s = (None, s\<lparr>cs_error_count := cs_error_count s + 1\<rparr>)"

definition store_get ::
  "'db redb_ops \<Rightarrow> codec \<Rightarrow> string \<Rightarrow> 'db cache_store \<Rightarrow> cache_entry option \<times> 'db cache_store" where
  "store_get rd cd domain s =
     (case bt_get (cs_pending s) domain of
        Some entry \<Rightarrow> (Some entry, s)
      | None \<Rightarrow>
          if \<not> rd_begin_read rd (cs_db s) then count_error s
          else if rd_open_table rd (cs_db s) \<noteq> TableOk then count_error s
          else (case rd_get rd (cs_db s) domain of
                  Inl e \<Rightarrow> count_error s
                | Inr None \<Rightarrow> (None, s)
                | Inr (Some bs) \<Rightarrow>
                    (case cd_deserialize cd bs of
                       None \<Rightarrow> count_error s
                     | Some dto \<Rightarrow> (Some (entry_from_dto dto), s))))"

definition store_set :: "string \<Rightarrow> cache_entry \<Rightarrow> 'db cache_store \<Rightarrow> 'db cache_store" where
  "store_set domain entry s = s\<lparr>cs_pending := bt_insert domain entry (cs_pending s)\<rparr>"

text \<open>The loop of \<open>flush\<close> over the drained entries in key order, up to the first failure.\<close>

fun stage_rows ::
  "'db redb_ops \<Rightarrow> codec \<Rightarrow> 'db \<Rightarrow> (string \<times> cache_entry) list \<Rightarrow> (string \<times> bytes) list option" where
  "stage_rows rd cd db [] = Some []"
| "stage_rows rd cd db ((domain, entry) # items) =
     (case cd_serialize cd (entry_to_dto entry) of
        None \<Rightarrow> None
      | Some bs \<Rightarrow>
          if \<not> rd_insert_ok rd db domain bs then None
          else (case stage_rows rd cd db items of None \<Rightarrow> None | Some rows \<Rightarrow> Some ((domain, bs) # rows)))"

definition store_flush :: "'db redb_ops \<Rightarrow> codec \<Rightarrow> 'db cache_store \<Rightarrow> bool \<times> 'db cache_store" where
  "store_flush rd cd s =
     (if cs_pending s = [] then (True, s)
      else
        let items = cs_pending s; s = s\<lparr>cs_pending := []\<rparr>
        in if \<not> rd_begin_write rd (cs_db s) then (False, s)
           else if \<not> rd_open_for_write rd (cs_db s) then (False, s)
           else (case stage_rows rd cd (cs_db s) items of
                   None \<Rightarrow> (False, s)
                 | Some rows \<Rightarrow>
                     (case rd_commit rd (cs_db s) rows of
                        None \<Rightarrow> (False, s)
                      | Some db \<Rightarrow> (True, s\<lparr>cs_db := db\<rparr>))))"

text \<open>The row loop of \<open>for_each\<close> and \<open>read_snapshot\<close>: the rows decoded, up to the first failure.\<close>

fun decode_rows :: "codec \<Rightarrow> (unit + string \<times> bytes) list \<Rightarrow> (string \<times> cache_entry) list option" where
  "decode_rows cd [] = Some []"
| "decode_rows cd (Inl e # rows) = None"
| "decode_rows cd (Inr (key, value) # rows) =
     (case cd_deserialize cd value of
        None \<Rightarrow> None
      | Some dto \<Rightarrow>
          (case decode_rows cd rows of None \<Rightarrow> None | Some es \<Rightarrow> Some ((key, entry_from_dto dto) # es)))"

definition store_for_each ::
  "'db redb_ops \<Rightarrow> codec \<Rightarrow> 'db cache_store \<Rightarrow> (string \<times> cache_entry) list option \<times> 'db cache_store" where
  "store_for_each rd cd s =
     (let (flushed, s) = store_flush rd cd s
      in if \<not> flushed then (None, s)
         else if \<not> rd_begin_read rd (cs_db s) then (None, s)
         else if rd_open_table rd (cs_db s) \<noteq> TableOk then (None, s)
         else (case rd_rows rd (cs_db s) of Inl e \<Rightarrow> (None, s) | Inr rows \<Rightarrow> (decode_rows cd rows, s)))"

text \<open>\<open>read_snapshot\<close>: the dry run's cache.  It only opens the file for reading, so it returns no
  database; \<open>exists\<close> is \<open>path.exists()\<close>.\<close>

definition read_snapshot :: "'db redb_ops \<Rightarrow> codec \<Rightarrow> bool \<Rightarrow> string \<Rightarrow> cache option" where
  "read_snapshot rd cd exists path =
     (if \<not> exists then Some Map.empty
      else case rd_open rd path DEFAULT_CACHE_SIZE_BYTES of
             None \<Rightarrow> None
           | Some db \<Rightarrow>
               if \<not> rd_begin_read rd db then None
               else (case rd_open_table rd db of
                       TableDoesNotExist \<Rightarrow> Some Map.empty
                     | TableError \<Rightarrow> None
                     | TableOk \<Rightarrow>
                         (case rd_rows rd db of
                            Inl e \<Rightarrow> None
                          | Inr rows \<Rightarrow> map_option (\<lambda>es. map_of (rev es)) (decode_rows cd rows))))"

definition store_backend :: "'db redb_ops \<Rightarrow> codec \<Rightarrow> 'db cache_store cache_backend" where
  "store_backend rd cd = \<lparr>cb_get = store_get rd cd, cb_set = store_set, cb_flush = store_flush rd cd\<rparr>"

section \<open>The store implements a map\<close>

text \<open>What \<open>redb\<close> documents: a database has rows, a read that succeeds returns the row, and a commit
  that succeeds has inserted the staged rows in order.  What the codec promises: it reads back what it
  writes.\<close>

definition redb_contract :: "'db redb_ops \<Rightarrow> ('db \<Rightarrow> string \<Rightarrow> bytes option) \<Rightarrow> bool" where
  "redb_contract rd rows \<longleftrightarrow>
     (\<forall>db d r. rd_get rd db d = Inr r \<longrightarrow> r = rows db d) \<and>
     (\<forall>db staged db'. rd_commit rd db staged = Some db' \<longrightarrow> rows db' = rows db ++ map_of (rev staged))"

definition reads_succeed :: "'db redb_ops \<Rightarrow> bool" where
  "reads_succeed rd \<longleftrightarrow>
     (\<forall>db. rd_begin_read rd db \<and> rd_open_table rd db = TableOk \<and> (\<forall>d. \<exists>r. rd_get rd db d = Inr r))"

definition codec_reads_back :: "codec \<Rightarrow> bool" where
  "codec_reads_back cd \<longleftrightarrow> (\<forall>e bs. cd_serialize cd e = Some bs \<longrightarrow> cd_deserialize cd bs = Some e)"

definition durable_view :: "codec \<Rightarrow> ('db \<Rightarrow> string \<Rightarrow> bytes option) \<Rightarrow> 'db \<Rightarrow> cache" where
  "durable_view cd rows db d =
     (case rows db d of None \<Rightarrow> None | Some bs \<Rightarrow> map_option entry_from_dto (cd_deserialize cd bs))"

definition store_view :: "codec \<Rightarrow> ('db \<Rightarrow> string \<Rightarrow> bytes option) \<Rightarrow> 'db cache_store \<Rightarrow> cache" where
  "store_view cd rows s = durable_view cd rows (cs_db s) ++ bt_get (cs_pending s)"

definition store_ok :: "codec \<Rightarrow> ('db \<Rightarrow> string \<Rightarrow> bytes option) \<Rightarrow> 'db cache_store \<Rightarrow> bool" where
  "store_ok cd rows s \<longleftrightarrow>
     bt_inv (cs_pending s) \<and> (\<forall>d bs. rows (cs_db s) d = Some bs \<longrightarrow> cd_deserialize cd bs \<noteq> None)"

text \<open>A read returns the row or counts an error and reads as a miss.\<close>

lemma store_get_cases:
  assumes "redb_contract rd rows"
  shows "store_get rd cd d s = (store_view cd rows s d, s) \<or> store_get rd cd d s = count_error s"
proof (cases "bt_get (cs_pending s) d")
  case None
  show ?thesis
  proof (cases "rd_get rd (cs_db s) d")
    case (Inr r)
    with assms have "rows (cs_db s) d = r" by (auto simp: redb_contract_def)
    with None Inr show ?thesis
      by (auto simp: store_get_def store_view_def durable_view_def map_add_def split: option.split)
  qed (use None in \<open>simp add: store_get_def\<close>)
qed (simp add: store_get_def store_view_def)

lemma store_get_view:
  assumes "redb_contract rd rows" "reads_succeed rd" "store_ok cd rows s"
  shows "store_get rd cd d s = (store_view cd rows s d, s)"
proof (cases "bt_get (cs_pending s) d")
  case None
  from assms(2) obtain r where r: "rd_get rd (cs_db s) d = Inr r" by (auto simp: reads_succeed_def)
  with assms(1) have row: "rows (cs_db s) d = r" by (auto simp: redb_contract_def)
  show ?thesis
  proof (cases r)
    case (Some bs)
    with row assms(3) obtain dto where "cd_deserialize cd bs = Some dto" by (auto simp: store_ok_def)
    with r row None Some assms(2) show ?thesis
      by (simp add: store_get_def store_view_def durable_view_def map_add_def reads_succeed_def)
  qed (use r row None assms(2) in
      \<open>simp add: store_get_def store_view_def durable_view_def map_add_def reads_succeed_def\<close>)
qed (simp add: store_get_def store_view_def)

lemma stage_rows_map:
  assumes "codec_reads_back cd" "stage_rows rd cd db items = Some staged"
  shows "map fst staged = map fst items \<and>
    (\<forall>d. map_option (\<lambda>bs. cd_deserialize cd bs) (map_of staged d) = map_option (\<lambda>e. Some (entry_to_dto e)) (map_of items d))"
  using assms(2)
proof (induction items arbitrary: staged)
  case (Cons a items)
  obtain k e where a: "a = (k, e)" by (cases a)
  with Cons.prems obtain bs rest where bs: "cd_serialize cd (entry_to_dto e) = Some bs"
    "stage_rows rd cd db items = Some rest" "staged = (k, bs) # rest"
    by (auto split: option.splits if_splits)
  from assms(1) bs(1) have "cd_deserialize cd bs = Some (entry_to_dto e)" by (auto simp: codec_reads_back_def)
  with Cons.IH [OF bs(2)] bs(3) a show ?case by simp
qed simp

lemma flush_db:
  assumes "store_flush rd cd s = (True, s')" "cs_pending s \<noteq> []"
  obtains staged db where "stage_rows rd cd (cs_db s) (cs_pending s) = Some staged"
    "rd_commit rd (cs_db s) staged = Some db" "s' = s\<lparr>cs_pending := [], cs_db := db\<rparr>"
  using assms by (auto simp: store_flush_def Let_def split: if_splits option.splits)

lemma durable_view_commit:
  assumes "redb_contract rd rows" "codec_reads_back cd" "bt_inv items"
    and "stage_rows rd cd db items = Some staged" "rd_commit rd db staged = Some db'"
  shows "durable_view cd rows db' = durable_view cd rows db ++ bt_get items"
    "\<forall>d bs. rows db d = Some bs \<longrightarrow> cd_deserialize cd bs \<noteq> None \<Longrightarrow>
     rows db' d = Some bs \<Longrightarrow> cd_deserialize cd bs \<noteq> None"
proof -
  note staged = stage_rows_map [OF assms(2,4)]
  have "distinct (map fst staged)" using staged assms(3) by (simp add: bt_inv_def strict_sorted_iff)
  then have "map_of (rev staged) = map_of staged"
    by (intro map_of_inject_set [THEN iffD2]) (simp_all add: rev_map [symmetric])
  with assms(1,5) have rows': "rows db' = rows db ++ map_of staged" by (auto simp: redb_contract_def)
  show "durable_view cd rows db' = durable_view cd rows db ++ bt_get items"
  proof
    fix d
    from staged have "map_option (\<lambda>bs. cd_deserialize cd bs) (map_of staged d) =
        map_option (\<lambda>e. Some (entry_to_dto e)) (map_of items d)" by blast
    then show "durable_view cd rows db' d = (durable_view cd rows db ++ bt_get items) d"
      by (auto simp: durable_view_def rows' map_add_def bt_get_def split: option.splits)
  qed
  assume "\<forall>d bs. rows db d = Some bs \<longrightarrow> cd_deserialize cd bs \<noteq> None" and "rows db' d = Some bs"
  moreover from staged have "map_option (\<lambda>bs. cd_deserialize cd bs) (map_of staged d) =
      map_option (\<lambda>e. Some (entry_to_dto e)) (map_of items d)" by blast
  ultimately show "cd_deserialize cd bs \<noteq> None"
    by (cases "map_of staged d"; cases "map_of items d") (auto simp: rows' map_add_def)
qed

lemma store_flush_view:
  assumes "redb_contract rd rows" "codec_reads_back cd" "store_ok cd rows s" "fst (store_flush rd cd s)"
  shows "store_ok cd rows (snd (store_flush rd cd s))"
    "store_view cd rows (snd (store_flush rd cd s)) = store_view cd rows s"
    "durable_view cd rows (cs_db (snd (store_flush rd cd s))) = store_view cd rows s"
proof (atomize (full), cases "cs_pending s = []")
  case True
  then show "store_ok cd rows (snd (store_flush rd cd s)) \<and>
      store_view cd rows (snd (store_flush rd cd s)) = store_view cd rows s \<and>
      durable_view cd rows (cs_db (snd (store_flush rd cd s))) = store_view cd rows s"
    using assms(3) by (simp add: store_flush_def store_view_def)
next
  case False
  obtain s' where s': "store_flush rd cd s = (True, s')" using assms(4) by (cases "store_flush rd cd s") simp
  obtain staged db where f: "stage_rows rd cd (cs_db s) (cs_pending s) = Some staged"
    "rd_commit rd (cs_db s) staged = Some db" "s' = s\<lparr>cs_pending := [], cs_db := db\<rparr>"
    using s' False by (rule flush_db)
  have inv: "bt_inv (cs_pending s)" using assms(3) by (simp add: store_ok_def)
  show "store_ok cd rows (snd (store_flush rd cd s)) \<and>
      store_view cd rows (snd (store_flush rd cd s)) = store_view cd rows s \<and>
      durable_view cd rows (cs_db (snd (store_flush rd cd s))) = store_view cd rows s"
    using durable_view_commit [OF assms(1,2) inv f(1,2)] assms(3)
    by (simp add: s' f(3) store_view_def store_ok_def)
qed

lemma store_lawful:
  assumes "redb_contract rd rows" "reads_succeed rd" "codec_reads_back cd"
  shows "lawful_cache (store_backend rd cd) (store_view cd rows) (store_ok cd rows)"
proof
  fix s :: "'a cache_store" and d e
  assume ok: "store_ok cd rows s"
  show "fst (cb_get (store_backend rd cd) d s) = store_view cd rows s d"
    and "store_ok cd rows (snd (cb_get (store_backend rd cd) d s)) \<and>
      store_view cd rows (snd (cb_get (store_backend rd cd) d s)) = store_view cd rows s"
    using ok by (simp_all add: store_backend_def store_get_view [OF assms(1,2)])
  show "store_ok cd rows (cb_set (store_backend rd cd) d e s) \<and>
      store_view cd rows (cb_set (store_backend rd cd) d e s) = (store_view cd rows s)(d \<mapsto> e)"
    using ok by (simp add: store_backend_def store_set_def store_ok_def store_view_def bt_inv_insert bt_get_insert)
  assume "fst (cb_flush (store_backend rd cd) s)"
  then show "store_ok cd rows (snd (cb_flush (store_backend rd cd) s)) \<and>
      store_view cd rows (snd (cb_flush (store_backend rd cd) s)) = store_view cd rows s"
    using store_flush_view [OF assms(1,3) ok] by (simp add: store_backend_def)
qed

section \<open>Reads and flushes that fail\<close>

text \<open>What the store promises when the database may fail at any time, over the rows on disk and the writes
  still buffered: a read is exact, or it fails, which reads as a miss and is counted; a flush moves the
  buffer to disk, or it fails, and then the buffered writes are lost and the disk is as it was.\<close>

inductive faulty_map ::
  "cache_op list \<Rightarrow> cache \<times> cache \<Rightarrow> cache_entry option list \<Rightarrow> bool \<Rightarrow> u64 \<Rightarrow> cache \<times> cache \<Rightarrow> bool" where
  nil: "faulty_map [] (disk, buffer) [] True 0 (disk, buffer)"
| read: "faulty_map ops (disk, buffer) outs fine n st \<Longrightarrow>
    faulty_map (GetOp d # ops) (disk, buffer) ((disk ++ buffer) d # outs) fine n st"
| misread: "buffer d = None \<Longrightarrow> faulty_map ops (disk, buffer) outs fine n st \<Longrightarrow>
    faulty_map (GetOp d # ops) (disk, buffer) (None # outs) fine (n + 1) st"
| stored: "faulty_map ops (disk, buffer(d \<mapsto> e)) outs fine n st \<Longrightarrow>
    faulty_map (SetOp d e # ops) (disk, buffer) outs fine n st"
| flushed: "faulty_map ops (disk ++ buffer, Map.empty) outs fine n st \<Longrightarrow>
    faulty_map (FlushOp # ops) (disk, buffer) outs fine n st"
| lost: "buffer \<noteq> Map.empty \<Longrightarrow> faulty_map ops (disk, Map.empty) outs fine n st \<Longrightarrow>
    faulty_map (FlushOp # ops) (disk, buffer) outs False n st"

fun reads_of :: "cache_op list \<Rightarrow> string list" where
  "reads_of [] = []"
| "reads_of (GetOp d # ops) = d # reads_of ops"
| "reads_of (_ # ops) = reads_of ops"

text \<open>Whatever fails, an entry that is read was stored for the name that is read.\<close>

lemma faulty_map_reads_stored:
  assumes "faulty_map ops dm outs fine n st"
  shows "length outs = length (reads_of ops) \<and>
    ((d, Some e) \<in> set (zip (reads_of ops) outs) \<longrightarrow>
       fst dm d = Some e \<or> snd dm d = Some e \<or> SetOp d e \<in> set ops)"
  using assms
proof (induction rule: faulty_map.induct)
  case (read ops disk buffer outs fine n st d')
  then show ?case by (auto simp: map_add_def split: option.splits)
next
  case (stored ops disk buffer d' e' outs fine n st)
  then show ?case by (cases "d = d'") auto
next
  case (flushed ops disk buffer outs fine n st)
  then show ?case by (auto simp: map_add_def split: option.splits)
qed auto

lemma store_flush_fails:
  "store_flush rd cd s = (False, s') \<Longrightarrow> cs_pending s \<noteq> [] \<and> s' = s\<lparr>cs_pending := []\<rparr>"
  by (auto simp: store_flush_def Let_def split: if_splits option.splits)

lemma store_get_faulty:
  assumes "redb_contract rd rows"
  shows "store_get rd cd d s = (store_view cd rows s d, s) \<or>
    bt_get (cs_pending s) d = None \<and> store_get rd cd d s = count_error s"
  using store_get_cases [OF assms, of cd d s]
  by (cases "bt_get (cs_pending s) d") (auto simp: store_get_def store_view_def)

lemma bt_get_empty_iff: "bt_get m = Map.empty \<longleftrightarrow> m = []"
  by (cases m) (auto simp: bt_get_def fun_eq_iff)

lemma store_run_faulty:
  assumes "redb_contract rd rows" "codec_reads_back cd"
  shows "store_ok cd rows s \<Longrightarrow> run_cache_ops (store_backend rd cd) ops s = (outs, fine, s') \<Longrightarrow>
    \<exists>n. faulty_map ops (durable_view cd rows (cs_db s), bt_get (cs_pending s)) outs fine n
        (durable_view cd rows (cs_db s'), bt_get (cs_pending s')) \<and>
      cs_error_count s' = cs_error_count s + n \<and> store_ok cd rows s'"
proof (induction ops arbitrary: s outs fine)
  case Nil
  then show ?case by (auto intro: faulty_map.nil)
next
  case (Cons op ops)
  show ?case
  proof (cases op)
    case (GetOp d)
    obtain v s1 where g: "store_get rd cd d s = (v, s1)" by (cases "store_get rd cd d s")
    from Cons.prems(2) GetOp g obtain outs' where r: "run_cache_ops (store_backend rd cd) ops s1 = (outs', fine, s')"
      "outs = v # outs'" by (auto simp: store_backend_def split: prod.splits)
    from store_get_faulty [OF assms(1), of cd d s] show ?thesis
    proof
      assume "store_get rd cd d s = (store_view cd rows s d, s)"
      with g have "s1 = s" "v = (durable_view cd rows (cs_db s) ++ bt_get (cs_pending s)) d"
        unfolding store_view_def by (metis prod.inject)+
      with Cons.IH [OF Cons.prems(1)] r GetOp show ?thesis by (auto intro: faulty_map.read)
    next
      assume f: "bt_get (cs_pending s) d = None \<and> store_get rd cd d s = count_error s"
      with g have s1: "s1 = s\<lparr>cs_error_count := cs_error_count s + 1\<rparr>" "v = None" by (simp_all add: count_error_def)
      have "store_ok cd rows s1" using Cons.prems(1) by (simp add: s1 store_ok_def)
      from Cons.IH [OF this r(1)] obtain n where n: "faulty_map ops (durable_view cd rows (cs_db s), bt_get (cs_pending s))
          outs' fine n (durable_view cd rows (cs_db s'), bt_get (cs_pending s'))"
        "cs_error_count s' = cs_error_count s + 1 + n" "store_ok cd rows s'" by (auto simp: s1)
      from faulty_map.misread [OF _ n(1), of d] f n(2,3) show ?thesis
        unfolding GetOp r(2) s1(2) by (intro exI [of _ "n + 1"]) (simp add: algebra_simps)
    qed
  next
    case (SetOp d e)
    let ?s = "store_set d e s"
    have ok: "store_ok cd rows ?s" and v: "bt_get (cs_pending ?s) = (bt_get (cs_pending s))(d \<mapsto> e)" "cs_db ?s = cs_db s"
      "cs_error_count ?s = cs_error_count s"
      using Cons.prems(1) by (simp_all add: store_set_def store_ok_def bt_inv_insert bt_get_insert)
    from Cons.prems(2) SetOp have "run_cache_ops (store_backend rd cd) ops ?s = (outs, fine, s')"
      by (simp add: store_backend_def)
    from Cons.IH [OF ok this] show ?thesis unfolding v SetOp by (blast intro: faulty_map.stored)
  next
    case FlushOp
    obtain f s1 where g: "store_flush rd cd s = (f, s1)" by (cases "store_flush rd cd s")
    from Cons.prems(2) FlushOp g obtain fine' where r: "run_cache_ops (store_backend rd cd) ops s1 = (outs, fine', s')"
      "fine = (f \<and> fine')" by (auto simp: store_backend_def split: prod.splits)
    show ?thesis
    proof (cases f)
      case True
      have v: "store_ok cd rows s1" "durable_view cd rows (cs_db s1) = store_view cd rows s"
        using store_flush_view [OF assms Cons.prems(1)] True by (simp_all add: g)
      have "cs_pending s1 = [] \<and> cs_error_count s1 = cs_error_count s"
        using g True by (auto simp: store_flush_def Let_def split: if_splits option.splits)
      then have p: "bt_get (cs_pending s1) = Map.empty" "cs_error_count s1 = cs_error_count s"
        by (simp_all add: bt_get_empty_iff)
      from Cons.IH [OF v(1) r(1)] True r(2) show ?thesis
        unfolding v(2) p FlushOp by (auto simp: store_view_def intro: faulty_map.flushed)
    next
      case False
      then have s1: "cs_pending s \<noteq> []" "s1 = s\<lparr>cs_pending := []\<rparr>" using g store_flush_fails [of rd cd s s1] by simp_all
      have "store_ok cd rows s1" using Cons.prems(1) by (simp add: s1 store_ok_def bt_inv_def)
      from Cons.IH [OF this r(1)] obtain n where n: "faulty_map ops (durable_view cd rows (cs_db s), Map.empty) outs fine' n
          (durable_view cd rows (cs_db s'), bt_get (cs_pending s'))"
        "cs_error_count s' = cs_error_count s + n" "store_ok cd rows s'" by (auto simp: s1 bt_get_empty_iff [THEN iffD2])
      have "bt_get (cs_pending s) \<noteq> Map.empty" using s1(1) by (simp add: bt_get_empty_iff)
      from faulty_map.lost [OF this n(1)] n(2,3) show ?thesis unfolding FlushOp using r(2) False by auto
    qed
  qed
qed

text \<open>C16: over a database whose successful reads and commits do what \<open>redb\<close> documents, and which may
  fail at any time, the buffered store runs any sequence of reads, writes and flushes as a map that loses
  only what is said here: every read is exact or is a miss that is counted, and a failed flush loses the
  buffered writes and nothing that is on disk; an entry that is read was stored for that name.  When
  the reads succeed and no flush of the sequence fails, it reads exactly what the in-memory map would,
  starting from the rows of the file; and a flush that succeeds leaves exactly the current map on disk, so the
  next run that opens the file sees it.\<close>

theorem cache_store_refines:
  assumes "redb_contract rd rows" and "codec_reads_back cd"
    and "store_ok cd rows s" and "run_cache_ops (store_backend rd cd) ops s = (outs, fine, s')"
  shows "(\<exists>n. faulty_map ops (durable_view cd rows (cs_db s), bt_get (cs_pending s)) outs fine n
        (durable_view cd rows (cs_db s'), bt_get (cs_pending s')) \<and>
      cs_error_count s' = cs_error_count s + n) \<and>
    (\<forall>d e. (d, Some e) \<in> set (zip (reads_of ops) outs) \<longrightarrow> store_view cd rows s d = Some e \<or>
      durable_view cd rows (cs_db s) d = Some e \<or> SetOp d e \<in> set ops) \<and>
    (reads_succeed rd \<and> fine \<longrightarrow>
      run_cache_ops hash_map_backend ops (store_view cd rows s) = (outs, True, store_view cd rows s')) \<and>
    (fst (store_flush rd cd s') \<longrightarrow>
      durable_view cd rows (cs_db (snd (store_flush rd cd s'))) = store_view cd rows s')"
proof -
  from store_run_faulty [OF assms] obtain n where n:
    "faulty_map ops (durable_view cd rows (cs_db s), bt_get (cs_pending s)) outs fine n
      (durable_view cd rows (cs_db s'), bt_get (cs_pending s'))"
    "cs_error_count s' = cs_error_count s + n" "store_ok cd rows s'" by blast
  have "store_view cd rows s d = Some e \<or> durable_view cd rows (cs_db s) d = Some e \<or> SetOp d e \<in> set ops"
    if "(d, Some e) \<in> set (zip (reads_of ops) outs)" for d e
    using faulty_map_reads_stored [OF n(1), of d e] that by (auto simp: store_view_def)
  moreover have "run_cache_ops hash_map_backend ops (store_view cd rows s) = (outs, True, store_view cd rows s')"
    if "reads_succeed rd" "fine"
    using lawful_cache.run_refines [OF store_lawful [OF assms(1) that(1) assms(2)] assms(3)] assms(4) that(2) by simp
  ultimately show ?thesis using n store_flush_view(3) [OF assms(1,2) n(3)] by blast
qed

text \<open>A database that is the list of its rows.\<close>

definition toy_redb :: "(string, bytes) btree redb_ops" where
  "toy_redb = \<lparr>rd_create = (\<lambda>p n. Some []), rd_open = (\<lambda>p n. Some []), rd_begin_read = (\<lambda>db. True),
     rd_open_table = (\<lambda>db. TableOk), rd_get = (\<lambda>db d. Inr (map_of db d)), rd_rows = (\<lambda>db. Inr (map Inr db)),
     rd_begin_write = (\<lambda>db. True), rd_open_for_write = (\<lambda>db. True), rd_insert_ok = (\<lambda>db d bs. True),
     rd_commit = (\<lambda>db staged. Some (rev staged @ db))\<rparr>"

definition toy_codec :: codec where
  "toy_codec = \<lparr>cd_serialize = (\<lambda>e. if e = \<lparr>dto_last_checked = 5, dto_verdict = DeadDto, dto_first_dead_at = Some 5\<rparr>
       then Some [1] else None),
     cd_deserialize = (\<lambda>bs. Some \<lparr>dto_last_checked = 5, dto_verdict = DeadDto, dto_first_dead_at = Some 5\<rparr>)\<rparr>"

lemma toy_redb_contract: "redb_contract toy_redb map_of" "reads_succeed toy_redb"
  by (simp_all add: redb_contract_def reads_succeed_def toy_redb_def)

lemma toy_codec_reads_back: "codec_reads_back toy_codec"
  by (simp add: codec_reads_back_def toy_codec_def)

text \<open>The same database, except that no write transaction opens.\<close>

definition read_only_redb :: "(string, bytes) btree redb_ops" where
  "read_only_redb = toy_redb\<lparr>rd_begin_write := (\<lambda>db. False)\<rparr>"

lemma read_only_contract: "redb_contract read_only_redb map_of"
  by (simp add: redb_contract_def read_only_redb_def toy_redb_def)

theorem cache_store_refines_witness:
  "\<exists>s s'. store_open toy_redb ''cache'' = Some s \<and>
     run_cache_ops (store_backend toy_redb toy_codec)
       [SetOp ''a.b'' \<lparr>ce_last_checked = 5, ce_verdict = Dead, ce_first_dead_at = Some 5\<rparr>, FlushOp, GetOp ''a.b'']
       s = ([Some \<lparr>ce_last_checked = 5, ce_verdict = Dead, ce_first_dead_at = Some 5\<rparr>], True, s') \<and>
     store_view toy_codec map_of s' ''a.b'' \<noteq> None \<and>
     faulty_map
       [SetOp ''a.b'' \<lparr>ce_last_checked = 5, ce_verdict = Dead, ce_first_dead_at = Some 5\<rparr>, FlushOp, GetOp ''a.b'']
       (Map.empty, Map.empty) [None] False 0 (Map.empty, Map.empty)"
proof -
  let ?s = "\<lparr>cs_db = [], cs_pending = [], cs_error_count = 0\<rparr> :: (string, bytes) btree cache_store"
  let ?s' = "\<lparr>cs_db = [(''a.b'', [1])], cs_pending = [], cs_error_count = 0\<rparr> :: (string, bytes) btree cache_store"
  let ?ops = "[SetOp ''a.b'' \<lparr>ce_last_checked = 5, ce_verdict = Dead, ce_first_dead_at = Some 5\<rparr>, FlushOp, GetOp ''a.b'']"
  have o: "store_open toy_redb ''cache'' = Some ?s"
    by (simp add: store_open_def open_with_cache_size_def toy_redb_def)
  have ok: "store_ok toy_codec map_of ?s" by (simp add: store_ok_def)
  have empty: "durable_view toy_codec map_of [] = Map.empty" "bt_get [] = Map.empty"
    by (simp_all add: durable_view_def bt_get_def fun_eq_iff)
  have run: "run_cache_ops (store_backend toy_redb toy_codec) ?ops ?s =
      ([Some \<lparr>ce_last_checked = 5, ce_verdict = Dead, ce_first_dead_at = Some 5\<rparr>], True, ?s')"
    by (simp add: store_backend_def store_set_def store_flush_def store_get_def toy_redb_def toy_codec_def
        entry_to_dto_def entry_from_dto_def bt_get_def)
  have failing: "run_cache_ops (store_backend read_only_redb toy_codec) ?ops ?s = ([None], False, ?s)"
    by (simp add: store_backend_def store_set_def store_flush_def store_get_def read_only_redb_def toy_redb_def bt_get_def)
  note r = cache_store_refines [OF toy_redb_contract(1) toy_codec_reads_back ok run]
  have "run_cache_ops hash_map_backend ?ops (store_view toy_codec map_of ?s) =
      ([Some \<lparr>ce_last_checked = 5, ce_verdict = Dead, ce_first_dead_at = Some 5\<rparr>], True, store_view toy_codec map_of ?s')"
    using r toy_redb_contract(2) by blast
  then have "store_view toy_codec map_of ?s' = (store_view toy_codec map_of ?s)(''a.b'' \<mapsto>
      \<lparr>ce_last_checked = 5, ce_verdict = Dead, ce_first_dead_at = Some 5\<rparr>)" by simp
  then have "store_view toy_codec map_of ?s' ''a.b'' \<noteq> None" by (simp only: fun_upd_same) simp
  moreover have "faulty_map ?ops (Map.empty, Map.empty) [None] False 0 (Map.empty, Map.empty)"
    using cache_store_refines [OF read_only_contract toy_codec_reads_back ok failing] by (auto simp: empty)
  ultimately show ?thesis using o run by blast
qed

end
