(* ===== verification/Entries_Store.thy ===== *)
theory Entries_Store
  imports Blocklist_Types Prelude
begin

text \<open>
  The scratch file of merged entries (\<open>domain-blocklist/src/entries_store.rs\<close>): length-prefixed
  records written in order and read back sequentially.  The record codec (\<open>bincode\<close> on the DTO, which has
  the entry's own fields) is a parameter.
\<close>

section \<open>Little-endian lengths\<close>

fun le_bytes :: "nat \<Rightarrow> nat \<Rightarrow> bytes" where
  "le_bytes 0 n = []"
| "le_bytes (Suc k) n = of_nat (n mod 256) # le_bytes k (n div 256)"

fun le_val :: "bytes \<Rightarrow> nat" where
  "le_val [] = 0"
| "le_val (b # bs) = unat b + 256 * le_val bs"

definition to_le_bytes :: "u64 \<Rightarrow> bytes" where
  "to_le_bytes w = le_bytes 8 (unat w)"

definition from_le_bytes :: "bytes \<Rightarrow> u64" where
  "from_le_bytes bs = of_nat (le_val bs)"

lemma length_le_bytes [simp]: "length (le_bytes k n) = k"
  by (induction k arbitrary: n) auto

lemma le_val_le_bytes: "n < 256 ^ k \<Longrightarrow> le_val (le_bytes k n) = n"
proof (induction k arbitrary: n)
  case (Suc k)
  then have "n div 256 < 256 ^ k" by (simp add: div_less_iff_less_mult mult.commute)
  moreover have "unat (of_nat (n mod 256) :: u8) = n mod 256" by (simp add: unat_of_nat)
  ultimately show ?case using Suc.IH by (simp add: algebra_simps)
qed simp

lemma from_to_le_bytes [simp]: "from_le_bytes (to_le_bytes w) = w"
proof -
  have "unat w < 2 ^ 64" using unsigned_less [of w] by simp
  then have "le_val (le_bytes 8 (unat w)) = unat w" by (intro le_val_le_bytes) simp
  then show ?thesis by (simp add: from_le_bytes_def to_le_bytes_def)
qed

lemma length_to_le_bytes [simp]: "length (to_le_bytes w) = 8"
  by (simp add: to_le_bytes_def)

section \<open>Writing and reading\<close>

datatype store_error = SerializeFailed | Truncated | DeserializeFailed

text \<open>\<open>write\<close>: one record after another; the file so far is thrown away with an error.\<close>

fun write_entries :: "(merged_entry \<Rightarrow> bytes option) \<Rightarrow> merged_entry list \<Rightarrow> store_error + bytes" where
  "write_entries serialize [] = Inr []"
| "write_entries serialize (entry # entries) =
     (case serialize entry of
        None \<Rightarrow> Inl SerializeFailed
      | Some bs \<Rightarrow>
          (case write_entries serialize entries of
             Inl e \<Rightarrow> Inl e
           | Inr rest \<Rightarrow> Inr (to_le_bytes (of_nat (length bs)) @ bs @ rest)))"

text \<open>\<open>read_exact\<close> on the bytes left: the read and the rest, or end of file.\<close>

definition read_exact :: "nat \<Rightarrow> bytes \<Rightarrow> (bytes \<times> bytes) option" where
  "read_exact n buf = (if n \<le> length buf then Some (take n buf, drop n buf) else None)"

text \<open>\<open>EntryReader::next\<close>: end of file inside the length counts as the end of the entries.\<close>

definition next_entry :: "(bytes \<Rightarrow> merged_entry option) \<Rightarrow> bytes \<Rightarrow> store_error + (merged_entry \<times> bytes) option" where
  "next_entry deserialize buf =
     (case read_exact 8 buf of
        None \<Rightarrow> Inr None
      | Some (len_bytes, rest) \<Rightarrow>
          (case read_exact (unat (from_le_bytes len_bytes)) rest of
             None \<Rightarrow> Inl Truncated
           | Some (record, rest) \<Rightarrow>
               (case deserialize record of
                  None \<Rightarrow> Inl DeserializeFailed
                | Some entry \<Rightarrow> Inr (Some (entry, rest)))))"

text \<open>A full pass over the reader, as the sweep makes it.\<close>

function read_entries :: "(bytes \<Rightarrow> merged_entry option) \<Rightarrow> bytes \<Rightarrow> store_error + merged_entry list" where
  "read_entries deserialize buf =
     (case next_entry deserialize buf of
        Inl e \<Rightarrow> Inl e
      | Inr None \<Rightarrow> Inr []
      | Inr (Some (entry, rest)) \<Rightarrow>
          (case read_entries deserialize rest of Inl e \<Rightarrow> Inl e | Inr entries \<Rightarrow> Inr (entry # entries)))"
  by pat_completeness auto
termination
  by (relation "measure (\<lambda>(d, buf). length buf)")
    (auto simp: next_entry_def read_exact_def split: if_splits option.splits)

declare read_entries.simps [simp del]

section \<open>What a file reads as\<close>

lemma next_entry_record:
  assumes "length bs < 2 ^ 64" "deserialize bs = Some entry"
  shows "next_entry deserialize (to_le_bytes (of_nat (length bs)) @ bs @ rest) = Inr (Some (entry, rest))"
  using assms by (simp add: next_entry_def read_exact_def unat_of_nat)

lemma read_record:
  assumes "length bs < 2 ^ 64" "deserialize bs = Some entry"
  shows "read_entries deserialize (to_le_bytes (of_nat (length bs)) @ bs @ rest) =
    map_sum (\<lambda>e. e) ((#) entry) (read_entries deserialize rest)"
  by (subst read_entries.simps) (simp add: next_entry_record [where deserialize = deserialize, OF assms] split: sum.split)

text \<open>The codec reads back every entry it writes, and no record reaches the size of the length field.\<close>

definition codec_ok :: "(merged_entry \<Rightarrow> bytes option) \<Rightarrow> (bytes \<Rightarrow> merged_entry option) \<Rightarrow> bool" where
  "codec_ok serialize deserialize \<longleftrightarrow>
     (\<forall>e bs. serialize e = Some bs \<longrightarrow> deserialize bs = Some e \<and> length bs < 2 ^ 64)"

lemma read_written:
  assumes "codec_ok serialize deserialize" "write_entries serialize entries = Inr out"
  shows "read_entries deserialize (out @ rest) = map_sum (\<lambda>e. e) ((@) entries) (read_entries deserialize rest)"
  using assms(2)
proof (induction entries arbitrary: out)
  case Nil
  then show ?case by (simp add: sum.map_ident split: sum.split)
next
  case (Cons e es)
  then obtain bs out2 where bs: "serialize e = Some bs" "write_entries serialize es = Inr out2"
    "out = to_le_bytes (of_nat (length bs)) @ bs @ out2"
    by (auto split: option.splits sum.splits)
  from assms(1) bs(1) have "length bs < 2 ^ 64" "deserialize bs = Some e" by (auto simp: codec_ok_def)
  with Cons.IH [OF bs(2)] show ?case
    by (simp add: bs(3) read_record [where deserialize = deserialize] sum.map_comp comp_def)
qed

lemma write_append:
  assumes "write_entries serialize (pre @ post) = Inr out"
  shows "\<exists>a b. write_entries serialize pre = Inr a \<and> write_entries serialize post = Inr b \<and> out = a @ b"
  using assms by (induction pre arbitrary: out) (fastforce split: option.splits sum.splits)+

lemma read_end: "length buf < 8 \<Longrightarrow> read_entries deserialize buf = Inr []"
  by (subst read_entries.simps) (simp add: next_entry_def read_exact_def)

lemma read_cut_record:
  assumes "length bs < 2 ^ 64" "8 \<le> j" "j < 8 + length bs"
  shows "read_entries deserialize (take j (to_le_bytes (of_nat (length bs)) @ bs @ rest)) = Inl Truncated"
proof -
  have "take j (to_le_bytes (of_nat (length bs)) @ bs @ rest) = to_le_bytes (of_nat (length bs)) @ take (j - 8) bs"
    using assms(2,3) by simp
  moreover have "\<not> length bs \<le> j - 8" using assms(2,3) by linarith
  ultimately show ?thesis
    using assms by (subst read_entries.simps) (simp add: next_entry_def read_exact_def unat_of_nat)
qed

text \<open>A complete file reads back as the entries written, in order.  A file cut inside a record's body is
  refused, but one cut inside a record's eight length bytes reads as if only the entries before it had been
  written.\<close>

theorem entries_store_truncation:
  assumes "codec_ok serialize deserialize" and "write_entries serialize (pre @ e # post) = Inr out"
    and "write_entries serialize pre = Inr before" and "serialize e = Some bs" and "j < 8 + length bs"
  shows "read_entries deserialize out = Inr (pre @ e # post) \<and>
    read_entries deserialize (take (length before + j) out) = (if j < 8 then Inr pre else Inl Truncated)"
proof
  have nil: "read_entries deserialize [] = Inr []" by (rule read_end) simp
  from read_written [OF assms(1,2), of "[]"] nil show "read_entries deserialize out = Inr (pre @ e # post)" by simp
  from write_append [OF assms(2)] assms(3,4) obtain rest where
    out: "out = before @ to_le_bytes (of_nat (length bs)) @ bs @ rest" by (auto split: sum.splits)
  let ?tail = "to_le_bytes (of_nat (length bs)) @ bs @ rest"
  have "read_entries deserialize (take (length before + j) out) =
      map_sum (\<lambda>e. e) ((@) pre) (read_entries deserialize (take j ?tail))"
    using read_written [OF assms(1,3), of "take j ?tail"] by (simp add: out)
  also have "\<dots> = (if j < 8 then Inr pre else Inl Truncated)"
  proof (cases "j < 8")
    case True
    then have "length (take j ?tail) < 8" by simp
    from read_end [OF this, of deserialize] True show ?thesis by (simp only: map_sum.simps if_True append_Nil2)
  next
    case False
    from assms(1,4) have n: "length bs < 2 ^ 64" by (simp add: codec_ok_def)
    have "8 \<le> j" using False by simp
    from read_cut_record [OF n this assms(5), of deserialize rest] False show ?thesis by (simp only: map_sum.simps if_False)
  qed
  finally show "read_entries deserialize (take (length before + j) out) = (if j < 8 then Inr pre else Inl Truncated)" .
qed

text \<open>A codec for entries that differ in their one-letter domain only.\<close>

definition letter_entry :: "char \<Rightarrow> merged_entry" where
  "letter_entry c = \<lparr>me_domain = [c], me_scope = Apex, me_sources = [Ut1], me_categories = [Adult]\<rparr>"

definition letter_encode :: "merged_entry \<Rightarrow> bytes option" where
  "letter_encode e = (case me_domain e of [c] \<Rightarrow> if e = letter_entry c then Some [of_nat (of_char c)] else None | _ \<Rightarrow> None)"

definition letter_decode :: "bytes \<Rightarrow> merged_entry option" where
  "letter_decode bs = (case bs of [b] \<Rightarrow> Some (letter_entry (char_of (unat b))) | _ \<Rightarrow> None)"

theorem entries_store_truncation_witness:
  "\<exists>out. write_entries letter_encode [letter_entry CHR ''a'', letter_entry CHR ''b''] = Inr out \<and>
     read_entries letter_decode (take 12 out) = Inr [letter_entry CHR ''a'']"
proof -
  have "unat (of_nat (of_char c :: nat) :: u8) = of_char c" for c :: char
    using nat_of_char_less_256 [of c] by (simp add: unat_of_nat)
  then have ok: "codec_ok letter_encode letter_decode"
    by (auto simp: codec_ok_def letter_encode_def letter_decode_def split: list.splits if_splits)
  have enc: "letter_encode (letter_entry c) = Some [of_nat (of_char c)]" for c
    by (simp add: letter_encode_def letter_entry_def)
  obtain out where out: "write_entries letter_encode ([letter_entry CHR ''a''] @ letter_entry CHR ''b'' # []) = Inr out"
    by (simp add: enc)
  obtain before where b: "write_entries letter_encode [letter_entry CHR ''a''] = Inr before" and n: "length before = 9"
    by (simp add: enc)
  have j: "(3::nat) < 8 + length [of_nat (of_char CHR ''b'') :: u8]" by simp
  from entries_store_truncation [OF ok out b enc j] n out show ?thesis by auto
qed

end
