(* ===== verification/Sweep.thy ===== *)
theory Sweep
  imports Cache_Store Entries_Store "HOL-Library.Multiset"
begin

text \<open>
  The liveness sweep (\<open>domain-blocklist/src/sweep.rs\<close>): corroborated checks of a batch of domains in any
  interleaving the runtime may choose, the canary that guards each chunk, the resident sweep and the
  streaming sweep over the scratch file.

  The network is a function of the queries answered so far, so it may answer the same query
  differently each time; the order in which the runtime drives the lookups in flight is a scheduler.  Pacing
  (\<open>qps\<close>, the deadlines and the retry gap) only delays lookups and is left out.
\<close>

section \<open>Lookups and checks\<close>

datatype resolver_side = PrimarySide | SecondarySide

type_synonym query = "resolver_side \<times> string \<times> record_type"
type_synonym wire_log = "(query \<times> lookup_result) list"
type_synonym network = "wire_log \<Rightarrow> query \<Rightarrow> lookup_result"
type_synonym scheduler = "wire_log \<Rightarrow> nat"

definition lookup_async :: "network \<Rightarrow> resolver_side \<Rightarrow> wire_log resolver" where
  "lookup_async net side domain rt log =
     (let r = net log (side, domain, rt) in (r, ((side, domain, rt), r) # log))"

definition check_async :: "network \<Rightarrow> resolver_side \<Rightarrow> string \<Rightarrow> wire_log \<Rightarrow> verdict \<times> wire_log" where
  "check_async net side domain log =
     (let (a, log) = lookup_async net side domain A log
      in case a of
           Resolved ips \<Rightarrow> (Alive, log)
         | _ \<Rightarrow> (let (aaaa, log) = lookup_async net side domain Aaaa log in (combine a aaaa, log)))"

text \<open>\<open>check_async\<close> between its suspension points, for the lookups that run concurrently.\<close>

datatype check_state = NeedA | NeedAaaa lookup_result | Checked verdict

fun check_step :: "network \<Rightarrow> resolver_side \<Rightarrow> string \<Rightarrow> check_state \<Rightarrow> wire_log \<Rightarrow> check_state \<times> wire_log" where
  "check_step net side domain NeedA log =
     (let (a, log) = lookup_async net side domain A log
      in case a of Resolved ips \<Rightarrow> (Checked Alive, log) | _ \<Rightarrow> (NeedAaaa a, log))"
| "check_step net side domain (NeedAaaa a) log =
     (let (aaaa, log) = lookup_async net side domain Aaaa log in (Checked (combine a aaaa), log))"
| "check_step net side domain (Checked v) log = (Checked v, log)"

text \<open>\<open>check_corroborated_async\<close>: the two checks joined, each making progress on its own.\<close>

record task =
  tk_domain :: string
  tk_primary :: check_state
  tk_secondary :: check_state

definition start_task :: "string \<Rightarrow> task" where
  "start_task domain = \<lparr>tk_domain = domain, tk_primary = NeedA, tk_secondary = NeedA\<rparr>"

fun task_step :: "network \<Rightarrow> resolver_side \<Rightarrow> task \<Rightarrow> wire_log \<Rightarrow> task \<times> wire_log" where
  "task_step net PrimarySide t log =
     (let (s, log) = check_step net PrimarySide (tk_domain t) (tk_primary t) log in (t\<lparr>tk_primary := s\<rparr>, log))"
| "task_step net SecondarySide t log =
     (let (s, log) = check_step net SecondarySide (tk_domain t) (tk_secondary t) log in (t\<lparr>tk_secondary := s\<rparr>, log))"

definition task_verdict :: "task \<Rightarrow> verdict option" where
  "task_verdict t =
     (case (tk_primary t, tk_secondary t) of
        (Checked v1, Checked v2) \<Rightarrow> Some (corroborate v1 v2)
      | _ \<Rightarrow> None)"

section \<open>The canary\<close>

definition CANARY_RETRY_ATTEMPTS :: nat where "CANARY_RETRY_ATTEMPTS = 3"

definition is_transient_no_answer :: "verdict \<Rightarrow> bool" where
  "is_transient_no_answer v \<longleftrightarrow> v = Unknown Timeout \<or> v = Unknown Transport"

function retry_loop ::
  "network \<Rightarrow> resolver_side \<Rightarrow> string \<Rightarrow> verdict \<Rightarrow> nat \<Rightarrow> verdict \<Rightarrow> wire_log \<Rightarrow> verdict \<times> wire_log" where
  "retry_loop net side domain expected attempt v log =
     (if v \<noteq> expected \<and> is_transient_no_answer v \<and> attempt < CANARY_RETRY_ATTEMPTS
      then let (v, log) = check_async net side domain log
           in retry_loop net side domain expected (attempt + 1) v log
      else (v, log))"
  by pat_completeness auto
termination by (relation "measure (\<lambda>(net, side, domain, expected, attempt, v, log). CANARY_RETRY_ATTEMPTS - attempt)") auto

declare retry_loop.simps [simp del]

definition check_control_with_retry ::
  "network \<Rightarrow> resolver_side \<Rightarrow> string \<Rightarrow> verdict \<Rightarrow> wire_log \<Rightarrow> verdict \<times> wire_log" where
  "check_control_with_retry net side domain expected log =
     (let (v, log) = check_async net side domain log in retry_loop net side domain expected 1 v log)"

fun control_failures ::
  "network \<Rightarrow> resolver_side \<Rightarrow> verdict \<Rightarrow> (string \<Rightarrow> verdict \<Rightarrow> control_failure) \<Rightarrow> string list \<Rightarrow> wire_log \<Rightarrow>
   control_failure list \<times> wire_log" where
  "control_failures net side expected failure [] log = ([], log)"
| "control_failures net side expected failure (domain # domains) log =
     (let (v, log) = check_control_with_retry net side domain expected log;
          (failures, log) = control_failures net side expected failure domains log
      in (if v \<noteq> expected then failure domain v # failures else failures, log))"

definition canary_pass_async ::
  "network \<Rightarrow> resolver_side \<Rightarrow> canary_config \<Rightarrow> wire_log \<Rightarrow> (control_failure list + unit) \<times> wire_log" where
  "canary_pass_async net side canary log =
     (let (alive_failures, log) = control_failures net side Alive AliveControl (alive_controls canary) log;
          (dead_failures, log) = control_failures net side Dead DeadControl (dead_controls canary) log;
          failures = alive_failures @ dead_failures
      in (if failures = [] then Inr () else Inl failures, log))"

definition canary_pass_both ::
  "network \<Rightarrow> canary_config \<Rightarrow> wire_log \<Rightarrow> (resolver_side \<times> control_failure list + unit) \<times> wire_log" where
  "canary_pass_both net canary log =
     (let (r, log) = canary_pass_async net PrimarySide canary log
      in case r of
           Inl d \<Rightarrow> (Inl (PrimarySide, d), log)
         | Inr u \<Rightarrow>
             (let (r, log) = canary_pass_async net SecondarySide canary log
              in case r of Inl d \<Rightarrow> (Inl (SecondarySide, d), log) | Inr u \<Rightarrow> (Inr (), log)))"

section \<open>A batch\<close>

record batch_state =
  bs_waiting :: "string list"
  bs_running :: "task list"
  bs_results :: "(string \<times> verdict) list"
  bs_log :: wire_log

fun is_checked :: "check_state \<Rightarrow> bool" where
  "is_checked (Checked v) = True" | "is_checked NeedA = False" | "is_checked (NeedAaaa a) = False"

text \<open>The lookups in flight: for each running task, the sides that have not finished.\<close>

definition task_pending :: "nat \<times> task \<Rightarrow> (nat \<times> resolver_side) list" where
  "task_pending = (\<lambda>(i, t).
     (if is_checked (tk_primary t) then [] else [(i, PrimarySide)]) @
     (if is_checked (tk_secondary t) then [] else [(i, SecondarySide)]))"

definition pending_lookups :: "task list \<Rightarrow> (nat \<times> resolver_side) list" where
  "pending_lookups ts = concat (map task_pending (enumerate 0 ts))"

text \<open>\<open>buffer_unordered(n)\<close> keeps up to \<open>n\<close> tasks running and yields results as they complete.\<close>

definition refill :: "nat \<Rightarrow> batch_state \<Rightarrow> batch_state" where
  "refill n s =
     (let k = n - length (bs_running s)
      in s\<lparr>bs_running := bs_running s @ map start_task (take k (bs_waiting s)), bs_waiting := drop k (bs_waiting s)\<rparr>)"

definition batch_step :: "network \<Rightarrow> scheduler \<Rightarrow> nat \<Rightarrow> batch_state \<Rightarrow> batch_state" where
  "batch_step net sched n s =
     (let ps = pending_lookups (bs_running s);
          (i, side) = ps ! (sched (bs_log s) mod length ps);
          (t, log) = task_step net side (bs_running s ! i) (bs_log s)
      in if ps = [] then s else case task_verdict t of
           None \<Rightarrow> s\<lparr>bs_running := (bs_running s)[i := t], bs_log := log\<rparr>
         | Some v \<Rightarrow> refill n (s\<lparr>bs_running := take i (bs_running s) @ drop (Suc i) (bs_running s),
             bs_results := bs_results s @ [(tk_domain t, v)], bs_log := log\<rparr>))"

fun lookups_left :: "check_state \<Rightarrow> nat" where
  "lookups_left NeedA = 2" | "lookups_left (NeedAaaa a) = 1" | "lookups_left (Checked v) = 0"

definition batch_work :: "batch_state \<Rightarrow> nat" where
  "batch_work s = 4 * length (bs_waiting s) +
     sum_list (map (\<lambda>t. lookups_left (tk_primary t) + lookups_left (tk_secondary t)) (bs_running s))"


text \<open>Every step of the runtime answers one lookup, so a batch comes to its end.\<close>

fun side_state :: "resolver_side \<Rightarrow> task \<Rightarrow> check_state" where
  "side_state PrimarySide t = tk_primary t" | "side_state SecondarySide t = tk_secondary t"

abbreviation task_left :: "task \<Rightarrow> nat" where
  "task_left t \<equiv> lookups_left (tk_primary t) + lookups_left (tk_secondary t)"

lemma pending_mem:
  "(i, side) \<in> set (pending_lookups ts) \<longleftrightarrow> i < length ts \<and> \<not> is_checked (side_state side (ts ! i))"
proof -
  have "set (pending_lookups ts) = (\<Union>p \<in> set (enumerate 0 ts). set (task_pending p))"
    by (simp add: pending_lookups_def)
  moreover have "(i, side) \<in> set (task_pending (j, t)) \<longleftrightarrow> j = i \<and> \<not> is_checked (side_state side t)" for j t
    by (cases side) (auto simp: task_pending_def)
  moreover have "(\<exists>p \<in> set (enumerate 0 ts). P p) \<longleftrightarrow> (\<exists>j < length ts. P (j, ts ! j))" for P
    by (auto simp: in_set_enumerate_eq)
  ultimately show ?thesis by auto
qed

lemma check_step_left:
  "\<not> is_checked s \<Longrightarrow> check_step net side d s log = (s', log') \<Longrightarrow> lookups_left s' < lookups_left s"
  by (cases s) (auto simp: lookup_async_def Let_def split: lookup_result.splits)

lemma task_step_left:
  assumes "\<not> is_checked (side_state side t)" "task_step net side t log = (t', log')"
  shows "task_left t' < task_left t"
  using assms by (cases side) (auto dest: check_step_left split: prod.splits)

lemma sum_remove:
  fixes g :: "'a \<Rightarrow> nat"
  assumes "i < length ts"
  shows "sum_list (map g (take i ts @ drop (Suc i) ts)) + g (ts ! i) = sum_list (map g ts)"
  by (subst (3) id_take_nth_drop [OF assms]) simp

lemma sum_replace:
  fixes g :: "'a \<Rightarrow> nat"
  assumes "i < length ts" "g t < g (ts ! i)"
  shows "sum_list (map g (ts[i := t])) < sum_list (map g ts)"
  using assms sum_remove [OF assms(1), of g] by (simp add: upd_conv_take_nth_drop)

lemma batch_work_refill [simp]: "batch_work (refill n s) = batch_work s"
proof -
  let ?k = "n - length (bs_running s)"
  have "length (bs_waiting s) = length (take ?k (bs_waiting s)) + length (drop ?k (bs_waiting s))" by simp
  moreover have "sum_list (map (\<lambda>t. task_left t) (map start_task ds)) = 4 * length ds" for ds
    by (induction ds) (simp_all add: start_task_def)
  ultimately show ?thesis by (simp add: batch_work_def refill_def Let_def)
qed

lemma batch_step_cases:
  assumes "pending_lookups (bs_running s) \<noteq> []"
  obtains i side t log where "i < length (bs_running s)" "\<not> is_checked (side_state side (bs_running s ! i))"
    "task_step net side (bs_running s ! i) (bs_log s) = (t, log)"
    "batch_step net sched n s = (case task_verdict t of
       None \<Rightarrow> s\<lparr>bs_running := (bs_running s)[i := t], bs_log := log\<rparr>
     | Some v \<Rightarrow> refill n (s\<lparr>bs_running := take i (bs_running s) @ drop (Suc i) (bs_running s),
         bs_results := bs_results s @ [(tk_domain t, v)], bs_log := log\<rparr>))"
proof -
  let ?ps = "pending_lookups (bs_running s)"
  obtain i side where p: "?ps ! (sched (bs_log s) mod length ?ps) = (i, side)" by fastforce
  have "(i, side) \<in> set ?ps" using assms nth_mem [of "sched (bs_log s) mod length ?ps" ?ps] by (simp add: p)
  moreover obtain t log where t: "task_step net side (bs_running s ! i) (bs_log s) = (t, log)" by fastforce
  ultimately show thesis using p by (intro that [of i side t log]) (simp_all add: pending_mem batch_step_def assms)
qed

lemma batch_step_work:
  assumes "pending_lookups (bs_running s) \<noteq> []"
  shows "batch_work (batch_step net sched n s) < batch_work s"
proof -
  obtain i side t log where st: "i < length (bs_running s)" "\<not> is_checked (side_state side (bs_running s ! i))"
    "task_step net side (bs_running s ! i) (bs_log s) = (t, log)"
    "batch_step net sched n s = (case task_verdict t of
       None \<Rightarrow> s\<lparr>bs_running := (bs_running s)[i := t], bs_log := log\<rparr>
     | Some v \<Rightarrow> refill n (s\<lparr>bs_running := take i (bs_running s) @ drop (Suc i) (bs_running s),
         bs_results := bs_results s @ [(tk_domain t, v)], bs_log := log\<rparr>))"
    using assms by (rule batch_step_cases)
  have less: "task_left t < task_left (bs_running s ! i)" by (rule task_step_left [OF st(2,3)])
  show ?thesis
  proof (cases "task_verdict t")
    case None
    with st(4) sum_replace [OF st(1), of task_left t] less show ?thesis by (simp add: batch_work_def)
  next
    case (Some v)
    let ?s' = "s\<lparr>bs_running := take i (bs_running s) @ drop (Suc i) (bs_running s),
      bs_results := bs_results s @ [(tk_domain t, v)], bs_log := log\<rparr>"
    have "batch_work ?s' < batch_work s"
      using sum_remove [OF st(1), of task_left] less by (simp add: batch_work_def)
    with st(4) Some show ?thesis by simp
  qed
qed

function run_batch :: "network \<Rightarrow> scheduler \<Rightarrow> nat \<Rightarrow> batch_state \<Rightarrow> batch_state" where
  "run_batch net sched n s =
     (if pending_lookups (bs_running s) = [] then s else run_batch net sched n (batch_step net sched n s))"
  by pat_completeness auto
termination
  by (relation "measure (\<lambda>(net, sched, n, s). batch_work s)") (simp_all add: batch_step_work)

declare run_batch.simps [simp del]

section \<open>The sweep\<close>

record sweep_config =
  sc_concurrency :: nat
  sc_canary_every :: nat
  sc_ttl_seconds :: u64
  sc_quarantine_seconds :: u64
  sc_checkpoint_every :: nat

definition record_verdict :: "'c cache_backend \<Rightarrow> timestamp \<Rightarrow> 'c \<Rightarrow> string \<times> verdict \<Rightarrow> 'c" where
  "record_verdict backend now cache = (\<lambda>(domain, v).
     (let (got, cache) = cb_get backend domain cache;
          entry_before = (case got of Some e \<Rightarrow> e
            | None \<Rightarrow> \<lparr>ce_last_checked = 0, ce_verdict = Unknown NoData, ce_first_dead_at = None\<rparr>);
          first_dead_at = (case v of
              Dead \<Rightarrow> Some (case ce_first_dead_at entry_before of Some t \<Rightarrow> t | None \<Rightarrow> now)
            | _ \<Rightarrow> None)
      in cb_set backend domain \<lparr>ce_last_checked = now, ce_verdict = v, ce_first_dead_at = first_dead_at\<rparr> cache))"

definition process_batch ::
  "network \<Rightarrow> scheduler \<Rightarrow> 'c cache_backend \<Rightarrow> sweep_config \<Rightarrow> timestamp \<Rightarrow> string list \<Rightarrow> 'c \<Rightarrow> wire_log \<Rightarrow>
   nat \<times> 'c \<times> wire_log" where
  "process_batch net sched backend config now batch cache log =
     (let n = max 1 (sc_concurrency config);
          s = run_batch net sched n (refill n \<lparr>bs_waiting = batch, bs_running = [], bs_results = [], bs_log = log\<rparr>)
      in (length (bs_results s), foldl (record_verdict backend now) cache (bs_results s), bs_log s))"

datatype sweep_error =
  InitialCanaryFailed resolver_side "control_failure list"
| MidSweepCanaryFailed resolver_side nat "control_failure list"
| CheckpointFailed nat
| EntriesReadFailed "store_error option"

record 'c sweep_outcome =
  so_cache :: 'c
  so_pruned_domains :: "string set"
  so_checked_count :: nat

text \<open>\<open>slice::chunks\<close>; the sweep passes at least 1.\<close>

function chunks :: "nat \<Rightarrow> 'a list \<Rightarrow> 'a list list" where
  "chunks n xs = (if n = 0 \<or> xs = [] then [] else take n xs # chunks n (drop n xs))"
  by pat_completeness auto
termination by (relation "measure (\<lambda>(n, xs). length xs)") auto

declare chunks.simps [simp del]

definition due_indices :: "merged_entry list \<Rightarrow> cache \<Rightarrow> timestamp \<Rightarrow> u64 \<Rightarrow> nat list" where
  "due_indices entries cache now ttl_seconds =
     map fst (filter (\<lambda>(i, e). due_for_check (cache (me_domain e)) now ttl_seconds) (enumerate 0 entries))"

text \<open>\<open>CheckpointSink\<close>: whether the checkpoint succeeded, and the sink afterwards.\<close>

type_synonym 's checkpoint_sink = "cache \<Rightarrow> 's \<Rightarrow> bool \<times> 's"

definition no_checkpoint :: "'s checkpoint_sink" where
  "no_checkpoint cache st = (True, st)"

fun sweep_chunks ::
  "network \<Rightarrow> scheduler \<Rightarrow> 's checkpoint_sink \<Rightarrow> canary_config \<Rightarrow> sweep_config \<Rightarrow> timestamp \<Rightarrow> merged_entry list \<Rightarrow>
   nat list list \<Rightarrow> nat \<Rightarrow> nat \<Rightarrow> cache \<Rightarrow> wire_log \<Rightarrow> 's \<Rightarrow> (sweep_error + cache \<times> nat) \<times> wire_log \<times> 's" where
  "sweep_chunks net sched checkpoint canary config now entries [] checked since cache log st =
     (Inr (cache, checked), log, st)"
| "sweep_chunks net sched checkpoint canary config now entries (chunk # rest) checked since cache log st =
     (let batch = map (\<lambda>idx. me_domain (entries ! idx)) chunk;
          (batch_checked, cache, log) = process_batch net sched hash_map_backend config now batch cache log;
          checked = checked + batch_checked;
          since = since + batch_checked;
          (canary_result, log) = canary_pass_both net canary log
      in case canary_result of
           Inl (side, detail) \<Rightarrow> (Inl (MidSweepCanaryFailed side checked detail), log, st)
         | Inr u \<Rightarrow>
             if sc_checkpoint_every config > 0 \<and> since \<ge> sc_checkpoint_every config
             then (let (saved, st) = checkpoint cache st
                   in if \<not> saved then (Inl (CheckpointFailed checked), log, st)
                      else sweep_chunks net sched checkpoint canary config now entries rest checked 0 cache log st)
             else sweep_chunks net sched checkpoint canary config now entries rest checked since cache log st)"

definition prune_entry :: "cache_entry option \<Rightarrow> sweep_config \<Rightarrow> timestamp \<Rightarrow> string \<Rightarrow> bool" where
  "prune_entry got config now domain =
     (case got of
        None \<Rightarrow> False
      | Some cached \<Rightarrow>
          should_prune_with_hysteresis cached domain (ce_verdict cached) now (sc_quarantine_seconds config))"

definition run_sweep_with_resolvers ::
  "network \<Rightarrow> scheduler \<Rightarrow> 's checkpoint_sink \<Rightarrow> merged_entry list \<Rightarrow> cache \<Rightarrow> canary_config \<Rightarrow> sweep_config \<Rightarrow>
   timestamp \<Rightarrow> wire_log \<Rightarrow> 's \<Rightarrow> (sweep_error + cache sweep_outcome) \<times> wire_log \<times> 's" where
  "run_sweep_with_resolvers net sched checkpoint entries cache canary config now log st =
     (let (canary_result, log) = canary_pass_both net canary log
      in case canary_result of
           Inl (side, detail) \<Rightarrow> (Inl (InitialCanaryFailed side detail), log, st)
         | Inr u \<Rightarrow>
             (let due = due_indices entries cache now (sc_ttl_seconds config);
                  (r, log, st) = sweep_chunks net sched checkpoint canary config now entries
                    (chunks (max 1 (sc_canary_every config)) due) 0 0 cache log st
              in case r of
                   Inl e \<Rightarrow> (Inl e, log, st)
                 | Inr (cache, checked) \<Rightarrow>
                     (Inr \<lparr>so_cache = cache,
                        so_pruned_domains = set (map me_domain
                          (filter (\<lambda>e. prune_entry (cache (me_domain e)) config now (me_domain e)) entries)),
                        so_checked_count = checked\<rparr>, log, st)))"

text \<open>\<open>run_sweep_streaming\<close>.  The inner loop reads the scratch file until the batch is full or the file
  ends; the flag says which.\<close>

lemma next_entry_shorter:
  "next_entry deserialize buf = Inr (Some (entry, rest)) \<Longrightarrow> length rest < length buf"
  by (auto simp: next_entry_def read_exact_def split: if_splits option.splits)

function fill_batch ::
  "(bytes \<Rightarrow> merged_entry option) \<Rightarrow> 'c cache_backend \<Rightarrow> timestamp \<Rightarrow> u64 \<Rightarrow> nat \<Rightarrow> string list \<Rightarrow> bytes \<Rightarrow> 'c \<Rightarrow>
   store_error + string list \<times> bool \<times> bytes \<times> 'c" where
  "fill_batch deserialize backend now ttl_seconds n batch buf cache =
     (if length batch < n then
        (case next_entry deserialize buf of
           Inl e \<Rightarrow> Inl e
         | Inr None \<Rightarrow> Inr (batch, True, buf, cache)
         | Inr (Some (entry, rest)) \<Rightarrow>
             (let (got, cache) = cb_get backend (me_domain entry) cache
              in fill_batch deserialize backend now ttl_seconds n
                   (if due_for_check got now ttl_seconds then batch @ [me_domain entry] else batch) rest cache))
      else Inr (batch, False, buf, cache))"
  by pat_completeness auto
termination
  by (relation "measure (\<lambda>(d, b, now, ttl, n, batch, buf, c). length buf)") (auto dest: next_entry_shorter)

declare fill_batch.simps [simp del]

lemma fill_batch_reads:
  assumes "fill_batch deserialize backend now ttl_seconds n batch buf cache = Inr (batch', False, rest, cache')"
  shows "length rest + length batch' \<le> length buf + length batch \<and> n \<le> length batch'"
  using assms
proof (induction deserialize backend now ttl_seconds n batch buf cache rule: fill_batch.induct)
  case (1 d b now ttl n batch buf c)
  show ?case
  proof (cases "length batch < n")
    case True
    show ?thesis
    proof (cases "next_entry d buf")
      case (Inr r)
      with True "1.prems" obtain entry rest1 where r: "r = Some (entry, rest1)"
        by (cases r) (auto simp: fill_batch.simps [of d b now ttl n batch])
      obtain got c1 where g: "cb_get b (me_domain entry) c = (got, c1)" by fastforce
      let ?batch = "if due_for_check got now ttl then batch @ [me_domain entry] else batch"
      have "fill_batch d b now ttl n ?batch rest1 c1 = Inr (batch', False, rest, cache')"
        using "1.prems" True Inr r g by (simp add: fill_batch.simps [of d b now ttl n batch])
      from "1.IH" [OF True Inr r refl g [symmetric] refl this] show ?thesis
        using next_entry_shorter [of d buf entry rest1] Inr r by (auto split: if_splits)
    qed (use True "1.prems" in \<open>simp add: fill_batch.simps [of d b now ttl n batch]\<close>)
  qed (use "1.prems" in \<open>simp add: fill_batch.simps [of d b now ttl n batch]\<close>)
qed

text \<open>The outer loop: one batch, its canary and its checkpoint, until the file has ended.  The result
  comes with the backend left behind, also on an error.\<close>

function stream_loop ::
  "network \<Rightarrow> scheduler \<Rightarrow> (bytes \<Rightarrow> merged_entry option) \<Rightarrow> 'c cache_backend \<Rightarrow> canary_config \<Rightarrow> sweep_config \<Rightarrow>
   timestamp \<Rightarrow> nat \<Rightarrow> nat \<Rightarrow> bytes \<Rightarrow> 'c \<Rightarrow> wire_log \<Rightarrow> (sweep_error + nat) \<times> 'c \<times> wire_log" where
  "stream_loop net sched deserialize backend canary config now checked since buf cache log =
     (case fill_batch deserialize backend now (sc_ttl_seconds config) (max 1 (sc_canary_every config)) [] buf cache of
        Inl e \<Rightarrow> (Inl (EntriesReadFailed (Some e)), cache, log)
      | Inr (batch, eof, rest, cache) \<Rightarrow>
          if batch = [] then
            (if eof then (Inr checked, cache, log)
             else stream_loop net sched deserialize backend canary config now checked since rest cache log)
          else
            (let (batch_checked, cache, log) = process_batch net sched backend config now batch cache log;
                 checked = checked + batch_checked;
                 since = since + batch_checked;
                 (canary_result, log) = canary_pass_both net canary log
             in case canary_result of
                  Inl (side, detail) \<Rightarrow> (Inl (MidSweepCanaryFailed side checked detail), cache, log)
                | Inr u \<Rightarrow>
                    if sc_checkpoint_every config > 0 \<and> since \<ge> sc_checkpoint_every config
                    then (let (flushed, cache) = cb_flush backend cache
                          in if \<not> flushed then (Inl (CheckpointFailed checked), cache, log)
                             else if eof then (Inr checked, cache, log)
                             else stream_loop net sched deserialize backend canary config now checked 0 rest cache log)
                    else if eof then (Inr checked, cache, log)
                    else stream_loop net sched deserialize backend canary config now checked since rest cache log))"
  by pat_completeness auto
termination
proof (relation "measure (\<lambda>(net, sched, d, b, canary, cfg, now, checked, since, buf, c, log). length buf)", simp)
qed (auto dest!: fill_batch_reads)

declare stream_loop.simps [simp del]

function prune_scan ::
  "(bytes \<Rightarrow> merged_entry option) \<Rightarrow> 'c cache_backend \<Rightarrow> sweep_config \<Rightarrow> timestamp \<Rightarrow> bytes \<Rightarrow> 'c \<Rightarrow> string set \<Rightarrow>
   (store_error + string set) \<times> 'c" where
  "prune_scan deserialize backend config now buf cache pruned =
     (case next_entry deserialize buf of
        Inl e \<Rightarrow> (Inl e, cache)
      | Inr None \<Rightarrow> (Inr pruned, cache)
      | Inr (Some (entry, rest)) \<Rightarrow>
          (let (got, cache) = cb_get backend (me_domain entry) cache
           in prune_scan deserialize backend config now rest cache
                (if prune_entry got config now (me_domain entry) then insert (me_domain entry) pruned else pruned)))"
  by pat_completeness auto
termination
  by (relation "measure (\<lambda>(d, b, cfg, now, buf, c, pruned). length buf)") (auto dest: next_entry_shorter)

declare prune_scan.simps [simp del]

definition run_sweep_streaming ::
  "network \<Rightarrow> scheduler \<Rightarrow> (bytes \<Rightarrow> merged_entry option) \<Rightarrow> 'c cache_backend \<Rightarrow> bytes option \<Rightarrow> 'c \<Rightarrow> canary_config \<Rightarrow>
   sweep_config \<Rightarrow> timestamp \<Rightarrow> wire_log \<Rightarrow> (sweep_error + 'c sweep_outcome) \<times> 'c \<times> wire_log" where
  "run_sweep_streaming net sched deserialize backend entries_file cache canary config now log =
     (let (canary_result, log) = canary_pass_both net canary log
      in case canary_result of
           Inl (side, detail) \<Rightarrow> (Inl (InitialCanaryFailed side detail), cache, log)
         | Inr u \<Rightarrow>
             (case entries_file of
                None \<Rightarrow> (Inl (EntriesReadFailed None), cache, log)
              | Some buf \<Rightarrow>
                  (let (r, cache, log) = stream_loop net sched deserialize backend canary config now 0 0 buf cache log
                   in case r of
                        Inl e \<Rightarrow> (Inl e, cache, log)
                      | Inr checked \<Rightarrow>
                          (let (flushed, cache) = cb_flush backend cache
                           in if \<not> flushed then (Inl (CheckpointFailed checked), cache, log)
                              else
                                let (r, cache) = prune_scan deserialize backend config now buf cache {}
                                in case r of
                                     Inl e \<Rightarrow> (Inl (EntriesReadFailed (Some e)), cache, log)
                                   | Inr pruned \<Rightarrow>
                                       (Inr \<lparr>so_cache = cache, so_pruned_domains = pruned,
                                          so_checked_count = checked\<rparr>, cache, log)))))"

section \<open>What a batch finds out\<close>

text \<open>The queries of a verdict, as they were answered.\<close>

definition answered :: "wire_log \<Rightarrow> resolver_side \<Rightarrow> string \<Rightarrow> verdict \<Rightarrow> bool" where
  "answered log side domain v \<longleftrightarrow>
     (\<exists>a. ((side, domain, A), a) \<in> set log \<and>
        (if \<exists>ips. a = Resolved ips then v = Alive
         else \<exists>aaaa. ((side, domain, Aaaa), aaaa) \<in> set log \<and> v = combine a aaaa))"

definition corroborated :: "wire_log \<Rightarrow> string \<Rightarrow> verdict \<Rightarrow> bool" where
  "corroborated log domain v \<longleftrightarrow>
     (\<exists>v1 v2. answered log PrimarySide domain v1 \<and> answered log SecondarySide domain v2 \<and> v = corroborate v1 v2)"

definition later :: "wire_log \<Rightarrow> wire_log \<Rightarrow> bool" where
  "later log log' \<longleftrightarrow> suffix log log'"

lemma later_refl [simp]: "later log log"
  by (simp add: later_def)

lemma later_trans [trans]: "later a b \<Longrightarrow> later b c \<Longrightarrow> later a c"
  unfolding later_def by (rule suffix_order.trans)

lemma later_set: "later log log' \<Longrightarrow> set log \<subseteq> set log'"
  by (auto simp: later_def suffix_def)

lemma answered_later: "answered log side d v \<Longrightarrow> later log log' \<Longrightarrow> answered log' side d v"
  unfolding answered_def by (metis (no_types, lifting) later_set subset_iff)

lemma corroborated_later: "corroborated log d v \<Longrightarrow> later log log' \<Longrightarrow> corroborated log' d v"
  unfolding corroborated_def by (blast intro: answered_later)

fun state_ok :: "wire_log \<Rightarrow> resolver_side \<Rightarrow> string \<Rightarrow> check_state \<Rightarrow> bool" where
  "state_ok log side d NeedA \<longleftrightarrow> True"
| "state_ok log side d (NeedAaaa a) \<longleftrightarrow> ((side, d, A), a) \<in> set log \<and> \<not> (\<exists>ips. a = Resolved ips)"
| "state_ok log side d (Checked v) \<longleftrightarrow> answered log side d v"

lemma state_ok_later: "state_ok log side d s \<Longrightarrow> later log log' \<Longrightarrow> state_ok log' side d s"
  by (cases s) (auto intro: answered_later dest: later_set)

lemma answered_resolved: "((side, d, A), Resolved ips) \<in> set log \<Longrightarrow> answered log side d Alive"
  unfolding answered_def by (rule exI [of _ "Resolved ips"]) simp

lemma answered_combined:
  "((side, d, A), a) \<in> set log \<Longrightarrow> \<not> (\<exists>ips. a = Resolved ips) \<Longrightarrow> ((side, d, Aaaa), aaaa) \<in> set log \<Longrightarrow>
   answered log side d (combine a aaaa)"
  unfolding answered_def by (rule exI [of _ a]) auto

lemma check_step_ok:
  assumes "state_ok log side d s" "check_step net side d s log = (s', log')"
  shows "state_ok log' side d s' \<and> later log log'"
proof (cases s)
  case NeedA
  let ?a = "net log (side, d, A)"
  from NeedA assms(2) have log': "log' = ((side, d, A), ?a) # log"
    "s' = (case ?a of Resolved ips \<Rightarrow> Checked Alive | _ \<Rightarrow> NeedAaaa ?a)"
    by (auto simp: lookup_async_def Let_def split: lookup_result.splits)
  then show ?thesis
    by (cases ?a) (auto simp: later_def suffix_def intro: answered_resolved)
next
  case (NeedAaaa a)
  let ?aaaa = "net log (side, d, Aaaa)"
  from NeedAaaa assms(2) have log': "log' = ((side, d, Aaaa), ?aaaa) # log" "s' = Checked (combine a ?aaaa)"
    by (auto simp: lookup_async_def Let_def)
  have "answered log' side d (combine a ?aaaa)"
    using NeedAaaa assms(1) by (intro answered_combined) (simp_all add: log')
  then show ?thesis by (simp add: log' later_def suffix_def)
qed (use assms in auto)

definition task_ok :: "wire_log \<Rightarrow> task \<Rightarrow> bool" where
  "task_ok log t \<longleftrightarrow> state_ok log PrimarySide (tk_domain t) (tk_primary t) \<and>
     state_ok log SecondarySide (tk_domain t) (tk_secondary t)"

lemma task_step_ok:
  assumes "task_ok log t" "task_step net side t log = (t', log')"
  shows "task_ok log' t' \<and> later log log' \<and> tk_domain t' = tk_domain t"
  using assms
  by (cases side) (auto simp: task_ok_def split: prod.splits dest: check_step_ok intro: state_ok_later)

lemma task_verdict_ok: "task_ok log t \<Longrightarrow> task_verdict t = Some v \<Longrightarrow> corroborated log (tk_domain t) v"
  by (auto simp: task_ok_def task_verdict_def corroborated_def split: check_state.splits)

text \<open>Every domain of the batch is waiting, running or has its verdict, once per occurrence; the tasks
  in flight never exceed the concurrency; verdicts rest on the answers of this batch.\<close>

definition batch_inv :: "nat \<Rightarrow> string list \<Rightarrow> wire_log \<Rightarrow> batch_state \<Rightarrow> bool" where
  "batch_inv n batch log0 s \<longleftrightarrow>
     mset (bs_waiting s) + mset (map tk_domain (bs_running s)) + mset (map fst (bs_results s)) = mset batch \<and>
     length (bs_running s) \<le> n \<and> (bs_running s = [] \<longrightarrow> bs_waiting s = []) \<and>
     later log0 (bs_log s) \<and>
     (\<forall>t \<in> set (bs_running s). task_ok (bs_log s) t \<and> task_verdict t = None) \<and>
     (\<forall>(d, v) \<in> set (bs_results s). corroborated (bs_log s) d v)"

lemma start_task_ok [simp]: "task_ok log (start_task d)" "task_verdict (start_task d) = None"
    "tk_domain (start_task d) = d"
  by (simp_all add: task_ok_def task_verdict_def start_task_def)

lemma task_ok_later: "task_ok log t \<Longrightarrow> later log log' \<Longrightarrow> task_ok log' t"
  by (auto simp: task_ok_def intro: state_ok_later)

lemma batch_inv_refill:
  assumes "0 < n" and "mset (bs_waiting s) + mset (map tk_domain (bs_running s)) + mset (map fst (bs_results s)) = mset batch"
    and "length (bs_running s) \<le> n" and "later log0 (bs_log s)"
    and "\<forall>t \<in> set (bs_running s). task_ok (bs_log s) t \<and> task_verdict t = None"
    and "\<forall>(d, v) \<in> set (bs_results s). corroborated (bs_log s) d v"
  shows "batch_inv n batch log0 (refill n s)"
proof -
  let ?k = "n - length (bs_running s)"
  have "mset (drop ?k (bs_waiting s)) + mset (take ?k (bs_waiting s)) = mset (bs_waiting s)"
    by (metis append_take_drop_id mset_append union_commute)
  then have "mset (drop ?k (bs_waiting s)) + (mset (map tk_domain (bs_running s)) + mset (take ?k (bs_waiting s))) +
      mset (map fst (bs_results s)) = mset batch"
    using assms(2) by (simp add: ac_simps)
  moreover have "map (tk_domain \<circ> start_task) ds = ds" for ds by (simp add: comp_def)
  ultimately show ?thesis
    using assms(1,3-) by (auto simp: batch_inv_def refill_def Let_def dest: in_set_takeD)
qed

lemma batch_inv_step:
  assumes "0 < n" "batch_inv n batch log0 s" "pending_lookups (bs_running s) \<noteq> []"
  shows "batch_inv n batch log0 (batch_step net sched n s)"
proof -
  obtain i side t log where st: "i < length (bs_running s)" "\<not> is_checked (side_state side (bs_running s ! i))"
    "task_step net side (bs_running s ! i) (bs_log s) = (t, log)"
    "batch_step net sched n s = (case task_verdict t of
       None \<Rightarrow> s\<lparr>bs_running := (bs_running s)[i := t], bs_log := log\<rparr>
     | Some v \<Rightarrow> refill n (s\<lparr>bs_running := take i (bs_running s) @ drop (Suc i) (bs_running s),
         bs_results := bs_results s @ [(tk_domain t, v)], bs_log := log\<rparr>))"
    using assms(3) by (rule batch_step_cases)
  let ?ts = "bs_running s"
  have i: "?ts ! i \<in> set ?ts" using st(1) by simp
  with assms(2) have "task_ok (bs_log s) (?ts ! i)" by (auto simp: batch_inv_def)
  from task_step_ok [OF this st(3)] have t: "task_ok log t" "later (bs_log s) log" "tk_domain t = tk_domain (?ts ! i)"
    by blast+
  have ts: "?ts = take i ?ts @ ?ts ! i # drop (Suc i) ?ts" by (rule id_take_nth_drop [OF st(1)])
  have split: "image_mset tk_domain (mset ?ts) = add_mset (tk_domain t)
      (image_mset tk_domain (mset (take i ?ts)) + image_mset tk_domain (mset (drop (Suc i) ?ts)))"
    by (subst ts) (simp add: t(3))
  have old: "task_ok log u \<and> task_verdict u = None" if "u \<in> set ?ts" for u
    using assms(2) that t(2) by (auto simp: batch_inv_def intro: task_ok_later)
  have res: "corroborated log d v" if "(d, v) \<in> set (bs_results s)" for d v
    using assms(2) that t(2) by (auto simp: batch_inv_def intro: corroborated_later)
  have "later log0 log" using assms(2) t(2) by (auto simp: batch_inv_def intro: later_trans)
  show ?thesis
  proof (cases "task_verdict t")
    case None
    have "map tk_domain (?ts[i := t]) = map tk_domain ?ts" by (simp add: map_update t(3) list_update_same_conv st(1))
    with None assms(2) st(1,4) old t(1) res \<open>later log0 log\<close> show ?thesis
      by (auto simp: batch_inv_def dest: set_update_subset_insert [THEN subsetD])
  next
    case (Some v)
    have "corroborated log (tk_domain t) v" by (rule task_verdict_ok [OF t(1) Some])
    let ?rest = "take i ?ts @ drop (Suc i) ?ts"
    have "mset (bs_waiting s) + mset (map tk_domain ?ts) + mset (map fst (bs_results s)) = mset batch"
      "length ?ts \<le> n" using assms(2) by (simp_all add: batch_inv_def)
    then have "batch_inv n batch log0 (refill n (s\<lparr>bs_running := ?rest,
        bs_results := bs_results s @ [(tk_domain t, v)], bs_log := log\<rparr>))"
      using \<open>corroborated log (tk_domain t) v\<close> \<open>later log0 log\<close> old res
      by (intro batch_inv_refill [OF assms(1)]) (auto simp: split dest: in_set_takeD in_set_dropD)
    with Some st(4) show ?thesis by simp
  qed
qed

lemma run_batch_inv:
  assumes "0 < n" "batch_inv n batch log0 s"
  shows "batch_inv n batch log0 (run_batch net sched n s) \<and> bs_running (run_batch net sched n s) = []"
  using assms
proof (induction net sched n s rule: run_batch.induct)
  case (1 net sched n s)
  show ?case
  proof (cases "pending_lookups (bs_running s) = []")
    case True
    have "task_verdict t \<noteq> None" if "t \<in> set (bs_running s)" for t
    proof -
      from that obtain i where i: "i < length (bs_running s)" "bs_running s ! i = t" by (auto simp: in_set_conv_nth)
      have "is_checked (side_state side t)" for side
        using True pending_mem [of i side "bs_running s"] i by auto
      from this [of PrimarySide] this [of SecondarySide] show ?thesis
        by (cases "tk_primary t"; cases "tk_secondary t") (simp_all add: task_verdict_def)
    qed
    with 1(3) have "bs_running s = []" by (cases "bs_running s") (auto simp: batch_inv_def)
    with True 1(3) show ?thesis by (simp add: run_batch.simps [of net])
  next
    case False
    then show ?thesis using 1 batch_inv_step [OF 1(2,3) False] by (simp add: run_batch.simps [of net sched n s])
  qed
qed

text \<open>The batch a sweep runs, in the terms of \<open>process_batch\<close>.\<close>

abbreviation start_batch :: "nat \<Rightarrow> string list \<Rightarrow> wire_log \<Rightarrow> batch_state" where
  "start_batch n batch log \<equiv>
     refill n \<lparr>bs_waiting = batch, bs_running = [], bs_results = [], bs_log = log\<rparr>"

lemma start_batch_inv: "0 < n \<Longrightarrow> batch_inv n batch log (start_batch n batch log)"
  by (rule batch_inv_refill) simp_all

lemma batch_done:
  assumes "0 < n" "s = run_batch net sched n (start_batch n batch log)"
  shows "mset (map fst (bs_results s)) = mset batch" "later log (bs_log s)"
    "\<forall>(d, v) \<in> set (bs_results s). corroborated (bs_log s) d v" "length (bs_results s) = length batch"
    "bs_running s = []" "bs_waiting s = []"
proof -
  have inv: "batch_inv n batch log s" and fin: "bs_running s = []"
    unfolding assms(2) using run_batch_inv [OF assms(1) start_batch_inv [OF assms(1)]] by blast+
  then show m: "mset (map fst (bs_results s)) = mset batch" and "later log (bs_log s)"
    and "\<forall>(d, v) \<in> set (bs_results s). corroborated (bs_log s) d v" and "bs_running s = []"
    and "bs_waiting s = []"
    by (auto simp: batch_inv_def)
  from m have "size (mset (map fst (bs_results s))) = size (mset batch)" by simp
  then show "length (bs_results s) = length batch" by simp
qed

lemma batch_step_idle: "pending_lookups (bs_running s) = [] \<Longrightarrow> batch_step net sched n s = s"
  by (simp add: batch_step_def Let_def split: prod.split)

lemma batch_inv_steps:
  assumes "0 < n" "batch_inv n batch log s"
  shows "batch_inv n batch log ((batch_step net sched n ^^ k) s)"
proof (induction k)
  case (Suc k)
  then show ?case
    using batch_inv_step [OF assms(1) Suc] batch_step_idle [of "(batch_step net sched n ^^ k) s"]
    by (cases "pending_lookups (bs_running ((batch_step net sched n ^^ k) s)) = []") simp_all
qed (simp add: assms(2))

text \<open>C19: whatever order the runtime drives the lookups in and whatever the resolvers answer, a batch comes
  to its end with every domain checked exactly once; at every moment at most \<open>concurrency\<close> domains are in
  flight, and each verdict is the corroboration of the two resolvers' own answers in this batch.\<close>

theorem batch_terminates_complete:
  "let n = max 1 (sc_concurrency config); s = run_batch net sched n (start_batch n batch log)
   in bs_running s = [] \<and> bs_waiting s = [] \<and> mset (map fst (bs_results s)) = mset batch \<and>
      list_all (\<lambda>(d, v). corroborated (bs_log s) d v) (bs_results s) \<and>
      length (bs_running ((batch_step net sched n ^^ k) (start_batch n batch log))) \<le> n \<and>
      fst (process_batch net sched backend config now batch cache log) = length batch"
proof -
  let ?n = "max 1 (sc_concurrency config)"
  have n: "0 < ?n" by simp
  note fin = batch_done [OF n refl, where net = net and sched = sched and batch = batch and log = log]
  have "length (bs_running ((batch_step net sched ?n ^^ k) (start_batch ?n batch log))) \<le> ?n"
    using batch_inv_steps [OF n start_batch_inv [OF n], where net = net and sched = sched and k = k and batch = batch and log = log] by (simp add: batch_inv_def)
  with fin show ?thesis by (simp add: Let_def process_batch_def list_all_iff case_prod_beta)
qed

section \<open>What a sweep leaves in the cache\<close>

definition checked_entry :: "timestamp \<Rightarrow> cache_entry option \<Rightarrow> verdict \<Rightarrow> cache_entry" where
  "checked_entry now before v = \<lparr>ce_last_checked = now, ce_verdict = v,
     ce_first_dead_at = (if v = Dead
       then Some (case before of None \<Rightarrow> now
                  | Some e \<Rightarrow> (case ce_first_dead_at e of Some t \<Rightarrow> t | None \<Rightarrow> now))
       else None)\<rparr>"

lemma record_verdict_hash_map:
  "record_verdict hash_map_backend now c (d, v) = c(d \<mapsto> checked_entry now (c d) v)"
  by (cases v; cases "c d") (auto simp: record_verdict_def checked_entry_def Let_def)

definition record_all :: "timestamp \<Rightarrow> (string \<times> verdict) list \<Rightarrow> cache \<Rightarrow> cache" where
  "record_all now results c = foldl (record_verdict hash_map_backend now) c results"

lemma record_all_simps [simp]:
  "record_all now [] c = c"
  "record_all now ((d, v) # results) c = record_all now results (c(d \<mapsto> checked_entry now (c d) v))"
  by (simp_all add: record_all_def record_verdict_hash_map)

lemma record_all_outside: "d \<notin> fst ` set results \<Longrightarrow> record_all now results c d = c d"
  by (induction results arbitrary: c) (auto split: prod.splits)

lemma record_all_inside:
  "d \<in> fst ` set results \<Longrightarrow> \<exists>e v. record_all now results c d = Some e \<and> (d, v) \<in> set results \<and>
     ce_last_checked e = now \<and> ce_verdict e = v \<and>
     (\<forall>f. ce_first_dead_at e = Some f \<longrightarrow> f = now \<or> (\<exists>e0. c d = Some e0 \<and> ce_first_dead_at e0 = Some f)) \<and>
     (v = Dead \<longleftrightarrow> ce_first_dead_at e \<noteq> None)"
proof (induction results arbitrary: c)
  case (Cons r results)
  obtain d1 v1 where r: "r = (d1, v1)" by (cases r)
  let ?c = "c(d1 \<mapsto> checked_entry now (c d1) v1)"
  show ?case
  proof (cases "d \<in> fst ` set results")
    case True
    from Cons.IH [OF this, of ?c] obtain e v where e: "record_all now results ?c d = Some e" "(d, v) \<in> set results"
      "ce_last_checked e = now" "ce_verdict e = v"
      "\<forall>f. ce_first_dead_at e = Some f \<longrightarrow> f = now \<or> (\<exists>e0. ?c d = Some e0 \<and> ce_first_dead_at e0 = Some f)"
      "v = Dead \<longleftrightarrow> ce_first_dead_at e \<noteq> None" by blast
    have "f = now \<or> (\<exists>e0. c d = Some e0 \<and> ce_first_dead_at e0 = Some f)" if "ce_first_dead_at e = Some f" for f
      using e(5) that by (auto simp: checked_entry_def split: if_splits option.splits)
    with e r show ?thesis by auto
  next
    case False
    with Cons.prems r have d: "d = d1" by simp
    from False have "record_all now results ?c d = ?c d" by (rule record_all_outside)
    then have "record_all now (r # results) c d = Some (checked_entry now (c d) v1)" by (simp add: r d)
    then show ?thesis using r d by (auto simp: checked_entry_def split: if_splits option.splits)
  qed
qed simp

context lawful_cache
begin

lemma record_verdict_view:
  assumes "ok c"
  shows "ok (record_verdict backend now c r) \<and>
    view (record_verdict backend now c r) = record_verdict hash_map_backend now (view c) r"
proof -
  obtain d v where r: "r = (d, v)" by (cases r)
  obtain got c1 where g: "cb_get backend d c = (got, c1)" by fastforce
  have c1: "got = view c d" "ok c1" "view c1 = view c"
    using get_view [OF assms, of d] get_keeps [OF assms, of d] by (simp_all add: g)
  show ?thesis using set_view [OF c1(2)] c1(1,3) by (simp add: r record_verdict_def g Let_def)
qed

lemma record_fold_view:
  assumes "ok c"
  shows "ok (foldl (record_verdict backend now) c results) \<and>
    view (foldl (record_verdict backend now) c results) = record_all now results (view c)"
  using assms
proof (induction results arbitrary: c)
  case (Cons r results)
  note step = record_verdict_view [OF Cons.prems, of now r]
  with Cons.IH [OF conjunct1 [OF step]] show ?case by (simp add: record_all_def)
qed (simp add: record_all_def)

lemma process_batch_view:
  assumes "ok c"
  shows "ok (fst (snd (process_batch net sched backend config now batch c log))) \<and>
    process_batch net sched hash_map_backend config now batch (view c) log =
      (fst (process_batch net sched backend config now batch c log),
       view (fst (snd (process_batch net sched backend config now batch c log))),
       snd (snd (process_batch net sched backend config now batch c log)))"
  using record_fold_view [OF assms] by (simp add: process_batch_def Let_def record_all_def)

end

end
