(* ===== verification/Sweep_Streaming.thy ===== *)
theory Sweep_Streaming
  imports Sweep
begin

text \<open>
  The two drivers of the liveness sweep against each other: the streaming sweep over any cache that
  behaves as a map computes what the resident sweep computes (\<open>run_sweep_streaming\<close> and
  \<open>run_sweep_with_resolvers\<close> of \<open>domain-blocklist/src/sweep.rs\<close>).
\<close>

section \<open>The streaming sweep follows the resident one\<close>

text \<open>The chunk loop on the chunks' domains, and the reads of one batch on the entries of the file.\<close>

fun sweep_batches ::
  "network \<Rightarrow> scheduler \<Rightarrow> 's checkpoint_sink \<Rightarrow> canary_config \<Rightarrow> sweep_config \<Rightarrow> timestamp \<Rightarrow>
   string list list \<Rightarrow> nat \<Rightarrow> nat \<Rightarrow> cache \<Rightarrow> wire_log \<Rightarrow> 's \<Rightarrow> (sweep_error + cache \<times> nat) \<times> wire_log \<times> 's" where
  "sweep_batches net sched checkpoint canary config now [] checked since cache log st = (Inr (cache, checked), log, st)"
| "sweep_batches net sched checkpoint canary config now (batch # rest) checked since cache log st =
     (case process_batch net sched hash_map_backend config now batch cache log of
        (k, cache, log) \<Rightarrow>
          case canary_pass_both net canary log of
            (Inl (side, detail), log) \<Rightarrow> (Inl (MidSweepCanaryFailed side (checked + k) detail), log, st)
          | (Inr u, log) \<Rightarrow>
              if sc_checkpoint_every config > 0 \<and> since + k \<ge> sc_checkpoint_every config
              then (case checkpoint cache st of (saved, st) \<Rightarrow>
                     if \<not> saved then (Inl (CheckpointFailed (checked + k)), log, st)
                     else sweep_batches net sched checkpoint canary config now rest (checked + k) 0 cache log st)
              else sweep_batches net sched checkpoint canary config now rest (checked + k) (since + k) cache log st)"

lemma sweep_chunks_batches:
  "sweep_chunks net sched checkpoint canary config now entries chs checked since cache log st =
   sweep_batches net sched checkpoint canary config now (map (map (\<lambda>idx. me_domain (entries ! idx))) chs)
     checked since cache log st"
  by (induction chs arbitrary: checked since cache log st)
    (auto simp: Let_def split: prod.split sum.split)

lemma chunks_map: "map (map f) (chunks n xs) = chunks n (map f xs)"
proof (induction n xs rule: chunks.induct)
  case (1 n xs)
  then show ?case by (auto simp: chunks.simps [of n xs] chunks.simps [of n "map f xs"] take_map drop_map)
qed

lemma filter_enumerate: "map snd (filter (\<lambda>(i, e). P e) (enumerate k es)) = filter P es"
  by (induction es arbitrary: k) auto

lemma due_domains:
  "map (\<lambda>idx. me_domain (entries ! idx)) (due_indices entries cache now ttl_seconds) =
   filter (\<lambda>d. due_for_check (cache d) now ttl_seconds) (map me_domain entries)"
proof -
  let ?P = "\<lambda>e. due_for_check (cache (me_domain e)) now ttl_seconds"
  let ?ps = "filter (\<lambda>(i, e). ?P e) (enumerate 0 entries)"
  have "map (\<lambda>p. me_domain (entries ! fst p)) ?ps = map (\<lambda>p. me_domain (snd p)) ?ps"
    by (rule map_cong [OF refl]) (auto simp: in_set_enumerate_eq)
  also have "\<dots> = map me_domain (map snd ?ps)" by simp
  also have "\<dots> = map me_domain (filter ?P entries)" by (simp only: filter_enumerate)
  finally show ?thesis by (simp add: due_indices_def comp_def filter_map)
qed

fun fill_es :: "(string \<Rightarrow> bool) \<Rightarrow> nat \<Rightarrow> string list \<Rightarrow> merged_entry list \<Rightarrow> string list \<times> bool \<times> merged_entry list" where
  "fill_es due n batch [] = (batch, length batch < n, [])"
| "fill_es due n batch (e # es) =
     (if length batch < n then fill_es due n (if due (me_domain e) then batch @ [me_domain e] else batch) es
      else (batch, False, e # es))"

lemma fill_es_correct:
  assumes "fill_es due n batch es = (batch', eof, es')" "length batch \<le> n"
  shows "batch' = batch @ take (n - length batch) (filter due (map me_domain es)) \<and>
    filter due (map me_domain es') = drop (n - length batch) (filter due (map me_domain es)) \<and>
    (eof \<longleftrightarrow> length batch' < n) \<and> (eof \<longrightarrow> es' = []) \<and>
    (\<exists>pre. es = pre @ es' \<and> set batch' \<subseteq> set batch \<union> me_domain ` set pre)"
  using assms
proof (induction es arbitrary: batch)
  case (Cons e es)
  show ?case
  proof (cases "length batch < n")
    case True
    let ?b = "if due (me_domain e) then batch @ [me_domain e] else batch"
    have "fill_es due n ?b es = (batch', eof, es')" "length ?b \<le> n" using True Cons.prems by simp_all
    note ih = Cons.IH [OF this]
    then obtain pre where pre: "es = pre @ es'" "set batch' \<subseteq> set ?b \<union> me_domain ` set pre" by blast
    have "\<exists>pre. e # es = pre @ es' \<and> set batch' \<subseteq> set batch \<union> me_domain ` set pre"
      using pre by (intro exI [of _ "e # pre"]) (auto split: if_splits)
    moreover obtain m where "n - length batch = Suc m" using True by (metis Suc_diff_Suc)
    moreover from this have "n - Suc (length batch) = m" by simp
    ultimately show ?thesis using ih by auto
  qed (use Cons.prems in auto)
qed auto

lemma fill_es_batch:
  assumes "fill_es due n [] es = (batch, eof, es')"
  shows "batch = take n (filter due (map me_domain es))"
    "filter due (map me_domain es') = drop n (filter due (map me_domain es))"
    "eof \<longleftrightarrow> length batch < n" "eof \<Longrightarrow> es' = []"
    "\<exists>pre. es = pre @ es' \<and> set batch \<subseteq> me_domain ` set pre"
  using fill_es_correct [OF assms] by (simp, simp, simp, simp, auto)

context reliable_cache
begin

lemma fill_batch_view:
  assumes "codec_ok serialize deserialize" "write_entries serialize es = Inr out" "ok c"
    and "fill_es (\<lambda>d. due_for_check (view c d) now ttl) n batch es = (batch', eof, es')"
  obtains c' out' where "fill_batch deserialize backend now ttl n batch out c = Inr (batch', eof, out', c')"
    "write_entries serialize es' = Inr out'" "ok c'" "view c' = view c"
  using assms(2-)
proof (induction es arbitrary: batch out c thesis)
  case Nil
  have "next_entry deserialize [] = Inr None" by (simp add: next_entry_def read_exact_def)
  with Nil show ?case by (auto simp: fill_batch.simps [of deserialize backend now ttl n])
next
  case (Cons e es)
  obtain bs out2 where bs: "serialize e = Some bs" "write_entries serialize es = Inr out2"
    "out = to_le_bytes (of_nat (length bs)) @ bs @ out2"
    using Cons.prems(2) by (auto split: option.splits sum.splits)
  from assms(1) bs(1) have "length bs < 2 ^ 64" "deserialize bs = Some e" by (auto simp: codec_ok_def)
  then have next_eq: "next_entry deserialize out = Inr (Some (e, out2))"
    unfolding bs(3) by (rule next_entry_record)
  obtain got c1 where g: "cb_get backend (me_domain e) c = (got, c1)" by fastforce
  have c1: "got = view c (me_domain e)" "ok c1" "view c1 = view c"
    using get_view [OF Cons.prems(3), of "me_domain e"] get_keeps [OF Cons.prems(3), of "me_domain e"]
    by (simp_all add: g)
  show ?case
  proof (cases "length batch < n")
    case True
    let ?b = "if due_for_check got now ttl then batch @ [me_domain e] else batch"
    have fe: "fill_es (\<lambda>d. due_for_check (view c1 d) now ttl) n ?b es = (batch', eof, es')"
      using Cons.prems(4) True c1(1,3) by simp
    obtain c' out' where r: "fill_batch deserialize backend now ttl n ?b out2 c1 = Inr (batch', eof, out', c')"
      "write_entries serialize es' = Inr out'" "ok c'" "view c' = view c1"
      by (rule Cons.IH [OF _ bs(2) c1(2) fe])
    show ?thesis
    proof (rule Cons.prems(1) [OF _ r(2,3)])
      show "fill_batch deserialize backend now ttl n batch out c = Inr (batch', eof, out', c')"
        using True r(1) by (simp add: fill_batch.simps [of deserialize backend now ttl n batch] next_eq g)
    qed (simp add: r(4) c1(3))
  next
    case False
    then have "fill_batch deserialize backend now ttl n batch out c = Inr (batch, False, out, c)"
      by (simp add: fill_batch.simps [of deserialize backend now ttl n batch])
    moreover have "batch' = batch" "\<not> eof" "es' = e # es" using False Cons.prems(4) by auto
    ultimately show ?thesis using Cons.prems(2,3) by (intro Cons.prems(1) [of out c]) simp_all
  qed
qed

lemma prune_scan_view:
  assumes "codec_ok serialize deserialize" "write_entries serialize es = Inr out" "ok c"
  shows "\<exists>c'. prune_scan deserialize backend config now out c pruned =
      (Inr (pruned \<union> set (map me_domain (filter (\<lambda>e. prune_entry (view c (me_domain e)) config now (me_domain e)) es))), c') \<and>
    ok c' \<and> view c' = view c"
  using assms(2-)
proof (induction es arbitrary: out c pruned)
  case Nil
  have "next_entry deserialize [] = Inr None" by (simp add: next_entry_def read_exact_def)
  with Nil show ?case by (auto simp: prune_scan.simps [of deserialize backend config now])
next
  case (Cons e es)
  obtain bs out2 where bs: "serialize e = Some bs" "write_entries serialize es = Inr out2"
    "out = to_le_bytes (of_nat (length bs)) @ bs @ out2"
    using Cons.prems(1) by (auto split: option.splits sum.splits)
  from assms(1) bs(1) have "length bs < 2 ^ 64" "deserialize bs = Some e" by (auto simp: codec_ok_def)
  then have next_eq: "next_entry deserialize out = Inr (Some (e, out2))"
    unfolding bs(3) by (rule next_entry_record)
  obtain got c1 where g: "cb_get backend (me_domain e) c = (got, c1)" by fastforce
  have c1: "got = view c (me_domain e)" "ok c1" "view c1 = view c"
    using get_view [OF Cons.prems(2), of "me_domain e"] get_keeps [OF Cons.prems(2), of "me_domain e"]
    by (simp_all add: g)
  from Cons.IH [OF bs(2) c1(2), of "if prune_entry got config now (me_domain e) then insert (me_domain e) pruned else pruned"]
  show ?case
    by (auto simp: prune_scan.simps [of deserialize backend config now out] next_eq g c1(1,3))
qed

lemma process_batch_outside:
  assumes "process_batch net sched hash_map_backend config now batch c log = (k, c', log')" "d \<notin> set batch"
  shows "c' d = c d"
proof -
  let ?n = "max 1 (sc_concurrency config)"
  let ?s = "run_batch net sched ?n (start_batch ?n batch log)"
  have "mset (map fst (bs_results ?s)) = mset batch" by (rule batch_done(1)) simp_all
  then have "set (map fst (bs_results ?s)) = set batch" by (rule mset_eq_setD)
  then have "d \<notin> fst ` set (bs_results ?s)" using assms(2) by simp
  then show ?thesis using assms(1) record_all_outside
    by (auto simp: process_batch_def Let_def record_all_def [symmetric])
qed

lemma stream_loop_view:
  fixes st :: 's
  assumes "codec_ok serialize deserialize" "write_entries serialize es = Inr out" "ok c"
    and "distinct (map me_domain es)"
    and "sweep_batches net sched no_checkpoint canary config now
      (chunks (max 1 (sc_canary_every config))
        (filter (\<lambda>d. due_for_check (view c d) now (sc_ttl_seconds config)) (map me_domain es)))
      checked since (view c) log st = (r, log', st')"
  obtains c' where "stream_loop net sched deserialize backend canary config now checked since out c log =
      (map_sum (\<lambda>e. e) snd r, c', log')" "ok c'" "st' = st"
    "case r of Inl e \<Rightarrow> True | Inr (cache, k) \<Rightarrow> view c' = cache"
  using assms(2-)
proof (induction "length es" arbitrary: es out c checked since log thesis rule: less_induct)
  case less
  let ?n = "max 1 (sc_canary_every config)"
  let ?due = "\<lambda>c d. due_for_check (view c d) now (sc_ttl_seconds config)"
  let ?D = "filter (?due c) (map me_domain es)"
  let ?loop = "stream_loop net sched deserialize backend canary config now"
  obtain batch eof es' where fe: "fill_es (?due c) ?n [] es = (batch, eof, es')" by (metis prod_cases3)
  obtain c1 out' where fb: "fill_batch deserialize backend now (sc_ttl_seconds config) ?n [] out c =
      Inr (batch, eof, out', c1)"
    "write_entries serialize es' = Inr out'" "ok c1" "view c1 = view c"
    by (rule fill_batch_view [OF assms(1) less.prems(2,3) fe])
  note batch = fill_es_batch(1) [OF fe] and rest = fill_es_batch(2) [OF fe] and eof = fill_es_batch(3,4) [OF fe]
  from fill_es_batch(5) [OF fe] obtain pre where pre: "es = pre @ es'" "set batch \<subseteq> me_domain ` set pre" by blast
  show ?case
  proof (cases "batch = []")
    case True
    then have "eof" by (simp add: eof(1))
    moreover have "?D = []" using True by (simp add: batch)
    ultimately show ?thesis
      using less.prems(5) True fb by (intro less.prems(1) [of c1]) (auto simp: chunks.simps stream_loop.simps [of net])
  next
    case False
    then have "?D \<noteq> []" by (auto simp: batch)
    then have chunk: "chunks ?n ?D = batch # chunks ?n (drop ?n ?D)"
      by (subst chunks.simps) (simp add: batch del: filter_map)
    obtain k c2 log2 where pb: "process_batch net sched backend config now batch c1 log = (k, c2, log2)"
      by (metis prod_cases3)
    have pbv: "process_batch net sched hash_map_backend config now batch (view c) log = (k, view c2, log2)"
      and ok2: "ok c2"
      using process_batch_view [OF fb(3), of net sched config now batch log] by (simp_all add: pb fb(4))
    obtain cr log3 where cp: "canary_pass_both net canary log2 = (cr, log3)" by fastforce
    show ?thesis
    proof (cases cr)
      case (Inl f)
      obtain side detail where "f = (side, detail)" by fastforce
      with Inl show ?thesis
        using less.prems(5) False fb(1) pb pbv cp chunk ok2
        by (intro less.prems(1) [of c2]) (auto simp: stream_loop.simps [of net] Let_def)
    next
      case (Inr u)
      let ?due_now = "sc_checkpoint_every config > 0 \<and> since + k \<ge> sc_checkpoint_every config"
      obtain cf where flush: "cb_flush backend c2 = (True, cf)"
        using flush_succeeds [OF ok2] by (cases "cb_flush backend c2") simp
      define c3 where "c3 = (if ?due_now then cf else c2)"
      define since' where "since' = (if ?due_now then 0 else since + k)"
      have c3: "ok c3" "view c3 = view c2"
        using flush_view [OF ok2 flush_succeeds [OF ok2]] ok2 by (auto simp: c3_def flush)
      have loop: "?loop checked since out c log =
          (if eof then (Inr (checked + k), c3, log3) else ?loop (checked + k) since' out' c3 log3)"
        using fb(1) by (subst stream_loop.simps)
          (simp add: False pb cp Inr flush c3_def since'_def Let_def)
      have batches: "sweep_batches net sched no_checkpoint canary config now (chunks ?n (drop ?n ?D)) (checked + k)
          since' (view c3) log3 st = (r, log', st')"
        using less.prems(5) unfolding chunk sweep_batches.simps
        by (auto simp: pbv cp Inr c3(2) no_checkpoint_def since'_def split: if_splits)
      show ?thesis
      proof (cases eof)
        case True
        with eof(2) rest have "drop ?n ?D = []" by simp
        with batches have "r = Inr (view c3, checked + k) \<and> log' = log3 \<and> st' = st" by (simp add: chunks.simps)
        with loop True c3 show ?thesis by (intro less.prems(1) [of c3]) simp_all
      next
        case False
        have "pre \<noteq> []" using pre(2) \<open>batch \<noteq> []\<close> by auto
        then have "length es' < length es" by (simp add: pre(1))
        moreover have "distinct (map me_domain es')" using less.prems(4) by (simp add: pre(1))
        moreover have "filter (?due c3) (map me_domain es') = drop ?n ?D"
        proof -
          have "view c3 d = view c d" if "d \<in> me_domain ` set es'" for d
            using process_batch_outside [OF pbv, of d] that pre less.prems(4) by (auto simp: c3(2))
          then have "filter (?due c3) (map me_domain es') = filter (?due c) (map me_domain es')"
            by (intro filter_cong) auto
          with rest show ?thesis by simp
        qed
        ultimately obtain c' where "?loop (checked + k) since' out' c3 log3 = (map_sum (\<lambda>e. e) snd r, c', log')"
          "ok c'" "st' = st" "case r of Inl e \<Rightarrow> True | Inr (cache, k) \<Rightarrow> view c' = cache"
          using less.hyps [OF _ _ fb(2) c3(1)] batches by metis
        with loop False show ?thesis by (intro less.prems(1) [of c']) simp_all
      qed
    qed
  qed
qed

lemma streaming_view:
  fixes st :: 's
  assumes "codec_ok serialize deserialize" "write_entries serialize entries = Inr out"
    and "distinct (map me_domain entries)" "ok c"
    and "run_sweep_streaming net sched deserialize backend (Some out) c canary config now log = (r, c', log')"
    and "run_sweep_with_resolvers net sched no_checkpoint entries (view c) canary config now log st = (r2, log2, st2)"
  shows "log' = log2 \<and> st2 = st \<and>
    map_sum (\<lambda>e. e) (\<lambda>s. (view (so_cache s), so_pruned_domains s, so_checked_count s)) r =
    map_sum (\<lambda>e. e) (\<lambda>s. (so_cache s, so_pruned_domains s, so_checked_count s)) r2"
proof -
  obtain cr log1 where cp: "canary_pass_both net canary log = (cr, log1)" by fastforce
  show ?thesis
  proof (cases cr)
    case (Inl f)
    with assms(5,6) cp show ?thesis
      by (auto simp: run_sweep_streaming_def run_sweep_with_resolvers_def split: prod.splits)
  next
    case (Inr u)
    let ?D = "filter (\<lambda>d. due_for_check (view c d) now (sc_ttl_seconds config)) (map me_domain entries)"
    let ?chs = "chunks (max 1 (sc_canary_every config)) ?D"
    obtain rb logb stb where sb: "sweep_batches net sched no_checkpoint canary config now ?chs 0 0 (view c) log1 st =
        (rb, logb, stb)" by (metis prod_cases3)
    obtain cl where sl: "stream_loop net sched deserialize backend canary config now 0 0 out c log1 =
        (map_sum (\<lambda>e. e) snd rb, cl, logb)" "ok cl" "stb = st"
      "case rb of Inl e \<Rightarrow> True | Inr (cache, k) \<Rightarrow> view cl = cache"
      by (rule stream_loop_view [OF assms(1,2,4,3) sb])
    have res: "run_sweep_with_resolvers net sched no_checkpoint entries (view c) canary config now log st =
        (case rb of Inl e \<Rightarrow> (Inl e, logb, st)
         | Inr (cache, checked) \<Rightarrow> (Inr \<lparr>so_cache = cache, so_pruned_domains = set (map me_domain
             (filter (\<lambda>e. prune_entry (cache (me_domain e)) config now (me_domain e)) entries)),
             so_checked_count = checked\<rparr>, logb, st))"
      using sb sl(3)
      by (simp add: run_sweep_with_resolvers_def cp Inr sweep_chunks_batches chunks_map due_domains split: sum.split prod.split)
    show ?thesis
    proof (cases rb)
      case e: (Inl e)
      with res sl(1) assms(5,6) show ?thesis by (auto simp: run_sweep_streaming_def cp Inr)
    next
      case p: (Inr p)
      obtain cache checked where pc: "p = (cache, checked)" by fastforce
      obtain cf where flush: "cb_flush backend cl = (True, cf)"
        using flush_succeeds [OF sl(2)] by (cases "cb_flush backend cl") simp
      have cf: "ok cf" "view cf = cache" using flush_view [OF sl(2)] sl(4) p pc by (simp_all add: flush)
      obtain ce where ps: "prune_scan deserialize backend config now out cf {} =
          (Inr (set (map me_domain (filter (\<lambda>e. prune_entry (cache (me_domain e)) config now (me_domain e)) entries))), ce)"
        "view ce = cache"
        using prune_scan_view [OF assms(1,2) cf(1), of config now "{}"] cf(2) by auto
      from res p pc assms(6) have r2: "r2 = Inr \<lparr>so_cache = cache, so_pruned_domains = set (map me_domain
             (filter (\<lambda>e. prune_entry (cache (me_domain e)) config now (me_domain e)) entries)),
             so_checked_count = checked\<rparr>" "log2 = logb" "st2 = st" by simp_all
      have "r = Inr \<lparr>so_cache = ce, so_pruned_domains = set (map me_domain
             (filter (\<lambda>e. prune_entry (cache (me_domain e)) config now (me_domain e)) entries)),
             so_checked_count = checked\<rparr> \<and> log' = logb"
        using assms(5) sl(1) p pc by (auto simp: run_sweep_streaming_def cp Inr flush ps(1))
      with r2 ps(2) show ?thesis by simp
    qed
  qed
qed

end

text \<open>C6: the streaming sweep computes what the resident sweep computes.  For a scratch file written from
  entries with distinct domains and a cache that behaves as a map and does not fail to write, in memory or in
  the database, both send the same queries in the same order, abort with the same error, and otherwise
  agree on the number of checks, on the pruned domains and on the cache.\<close>

theorem streaming_equals_resident:
  assumes "reliable_cache backend view ok" and "codec_ok serialize deserialize"
    and "write_entries serialize entries = Inr out" and "distinct (map me_domain entries)" and "ok c"
  shows "case (run_sweep_streaming net sched deserialize backend (Some out) c canary config now log,
        run_sweep_with_resolvers net sched no_checkpoint entries (view c) canary config now log st) of
      ((r, c', log'), (r2, log2, st2)) \<Rightarrow>
        log' = log2 \<and>
        map_sum (\<lambda>e. e) (\<lambda>s. (view (so_cache s), so_pruned_domains s, so_checked_count s)) r =
        map_sum (\<lambda>e. e) (\<lambda>s. (so_cache s, so_pruned_domains s, so_checked_count s)) r2"
proof -
  obtain r c' log' where s: "run_sweep_streaming net sched deserialize backend (Some out) c canary config now log =
      (r, c', log')" by (metis prod_cases3)
  obtain r2 log2 st2 where t: "run_sweep_with_resolvers net sched no_checkpoint entries (view c) canary config now log st =
      (r2, log2, st2)" by (metis prod_cases3)
  from reliable_cache.streaming_view [OF assms s t] show ?thesis by (simp add: s t)
qed

text \<open>Two resolvers that know \<open>a.ok\<close> and nothing else.\<close>

definition toy_net :: network where
  "toy_net log q = (if fst (snd q) = ''a.ok'' then Resolved [] else NxDomain False None)"

definition toy_canary :: canary_config where
  "toy_canary = \<lparr>alive_controls = [''a.ok''], dead_controls = [''b.bad'']\<rparr>"

definition toy_config :: sweep_config where
  "toy_config = \<lparr>sc_concurrency = 2, sc_canary_every = 1, sc_ttl_seconds = 10, sc_quarantine_seconds = 20,
     sc_checkpoint_every = 1\<rparr>"

definition toy_entry :: "string \<Rightarrow> merged_entry" where
  "toy_entry d = \<lparr>me_domain = d, me_scope = Apex, me_sources = [Ut1], me_categories = [Adult]\<rparr>"

definition toy_cache :: cache where
  "toy_cache = [''x.y'' \<mapsto> \<lparr>ce_last_checked = 60, ce_verdict = Dead, ce_first_dead_at = Some 50\<rparr>]"

definition toy_write :: "merged_entry \<Rightarrow> bytes option" where
  "toy_write e = (if e = toy_entry ''x.y'' then Some [1] else if e = toy_entry ''z.y'' then Some [2] else None)"

definition toy_read :: "bytes \<Rightarrow> merged_entry option" where
  "toy_read bs = Some (toy_entry (if bs = [1] then ''x.y'' else ''z.y''))"

lemma toy_codec_ok: "codec_ok toy_write toy_read"
  by (auto simp: codec_ok_def toy_write_def toy_read_def split: if_splits)

lemma toy_resident:
  "(case run_sweep_with_resolvers toy_net (\<lambda>log. length log) no_checkpoint [toy_entry ''x.y'', toy_entry ''z.y'']
      toy_cache toy_canary toy_config 100 [] () of
     (r, log, st) \<Rightarrow> (case r of Inr s \<Rightarrow> (sorted_list_of_set (so_pruned_domains s), so_checked_count s) | Inl e \<Rightarrow> ([], 0))) =
   ([''x.y''], 2)"
  by code_simp

lemma hash_map_reliable: "reliable_cache hash_map_backend (\<lambda>c. c) (\<lambda>c. True)"
  by unfold_locales

theorem streaming_equals_resident_witness:
  "case run_sweep_streaming toy_net (\<lambda>log. length log) toy_read hash_map_backend
      (Some (to_le_bytes 1 @ [1] @ to_le_bytes 1 @ [2])) toy_cache toy_canary toy_config 100 [] of
     (r, c, log) \<Rightarrow> (case r of Inr s \<Rightarrow> so_pruned_domains s = {''x.y''} \<and> so_checked_count s = 2 | Inl e \<Rightarrow> False)"
proof -
  let ?es = "[toy_entry ''x.y'', toy_entry ''z.y'']"
  have w: "write_entries toy_write ?es = Inr (to_le_bytes 1 @ [1] @ to_le_bytes 1 @ [2])"
    by (simp add: toy_write_def toy_entry_def)
  have d: "distinct (map me_domain ?es)" by (simp add: toy_entry_def)
  obtain r c log where s: "run_sweep_streaming toy_net (\<lambda>log. length log) toy_read hash_map_backend
      (Some (to_le_bytes 1 @ [1] @ to_le_bytes 1 @ [2])) toy_cache toy_canary toy_config 100 [] = (r, c, log)"
    by (metis prod_cases3)
  obtain r2 log2 st2 where t: "run_sweep_with_resolvers toy_net (\<lambda>log. length log) no_checkpoint ?es
      toy_cache toy_canary toy_config 100 [] () = (r2, log2, st2)" by (metis prod_cases3)
  obtain s2 where s2: "r2 = Inr s2" "sorted_list_of_set (so_pruned_domains s2) = [''x.y'']" "so_checked_count s2 = 2"
    using toy_resident by (auto simp: t split: sum.splits)
  from s2(2) have "so_pruned_domains s2 = {''x.y''}"
    by (metis sorted_list_of_set.fold_insort_key.infinite set_sorted_list_of_set list.distinct(1) list.simps(15) empty_set)
  moreover from streaming_equals_resident [OF hash_map_reliable toy_codec_ok w d TrueI,
      where net = toy_net and sched = "\<lambda>log. length log" and c = toy_cache and canary = toy_canary and
        config = toy_config and now = 100 and log = "[]" and st = "()"]
  have "map_sum (\<lambda>e. e) (\<lambda>s. (so_cache s, so_pruned_domains s, so_checked_count s)) r = Inr (so_cache s2,
      so_pruned_domains s2, so_checked_count s2)"
    by (simp add: s [simplified] t [simplified] s2(1))
  ultimately show ?thesis using s2(3) by (cases r) (simp_all add: s [simplified])
qed

end
