(* ===== verification/Sweep_Safety.thy ===== *)
theory Sweep_Safety
  imports Sweep_Streaming
begin

text \<open>
  What the liveness sweep guarantees: a control is retried a bounded number of times, the outcome does
  not depend on the interleaving when the resolvers answer consistently, and a domain is pruned only
  on the evidence of both resolvers.
\<close>

section \<open>Retrying a control\<close>

text \<open>The \<open>k\<close>-th of consecutive checks of a domain.\<close>

definition nth_check :: "network \<Rightarrow> resolver_side \<Rightarrow> string \<Rightarrow> wire_log \<Rightarrow> nat \<Rightarrow> verdict \<times> wire_log" where
  "nth_check net side domain log k =
     ((\<lambda>(v, log). check_async net side domain log) ^^ k) (check_async net side domain log)"

lemma check_async_log:
  "length (snd (check_async net side d log)) \<le> length log + 2 \<and> later log (snd (check_async net side d log))"
  by (auto simp: check_async_def lookup_async_def Let_def later_def suffix_def split: lookup_result.split)

lemma retry_log:
  "length (snd (retry_loop net side d expected attempt v log)) \<le>
     length log + 2 * (CANARY_RETRY_ATTEMPTS - attempt) \<and>
   later log (snd (retry_loop net side d expected attempt v log))"
proof (induction net side d expected attempt v log rule: retry_loop.induct)
  case (1 net side d expected attempt v log)
  show ?case
  proof (cases "v \<noteq> expected \<and> is_transient_no_answer v \<and> attempt < CANARY_RETRY_ATTEMPTS")
    case True
    obtain v1 log1 where c: "check_async net side d log = (v1, log1)" by fastforce
    have "later log log1" "length log1 \<le> length log + 2" using check_async_log [of net side d log] by (simp_all add: c)
    moreover note "1.IH" [OF True c [symmetric] refl]
    moreover have "CANARY_RETRY_ATTEMPTS - attempt = Suc (CANARY_RETRY_ATTEMPTS - (attempt + 1))" using True by (simp add: Suc_diff_Suc)
    ultimately show ?thesis using True
      by (auto simp: retry_loop.simps [of net side d expected attempt v log] c intro: later_trans)
  next
    case False
    then have "retry_loop net side d expected attempt v log = (v, log)"
      by (subst retry_loop.simps) (simp only: if_False)
    then show ?thesis by simp
  qed
qed

text \<open>Checking a control ends after at most three checks of two lookups each.  Its result is the first
  check that is as expected or an actual answer, and otherwise the third one, so a resolver that answers
  wrongly is caught at once and only silence is asked again.\<close>

theorem control_retry_terminates:
  "let result = check_control_with_retry net side domain expected log;
       settled = (\<lambda>k. if is_transient_no_answer (fst (nth_check net side domain log k))
         then fst (nth_check net side domain log k) = expected else True)
   in length (snd result) \<le> length log + 6 \<and>
      result = (if settled 0 then nth_check net side domain log 0
        else if settled 1 then nth_check net side domain log 1 else nth_check net side domain log 2)"
proof -
  obtain v0 l0 where c0: "check_async net side domain log = (v0, l0)" by fastforce
  obtain v1 l1 where c1: "check_async net side domain l0 = (v1, l1)" by fastforce
  obtain v2 l2 where c2: "check_async net side domain l1 = (v2, l2)" by fastforce
  have n: "nth_check net side domain log 0 = (v0, l0)" "nth_check net side domain log (Suc 0) = (v1, l1)"
    "nth_check net side domain log 2 = (v2, l2)"
    by (simp_all add: nth_check_def c0 c1 c2 numeral_2_eq_2)
  have "check_control_with_retry net side domain expected log =
      (if v0 = expected \<or> \<not> is_transient_no_answer v0 then (v0, l0)
       else if v1 = expected \<or> \<not> is_transient_no_answer v1 then (v1, l1) else (v2, l2))"
    by (auto simp: check_control_with_retry_def c0 c1 c2 CANARY_RETRY_ATTEMPTS_def
        retry_loop.simps [of net side domain expected "Suc 0" v0 l0]
        retry_loop.simps [of net side domain expected "Suc (Suc 0)" v1 l1]
        retry_loop.simps [of net side domain expected "Suc (Suc (Suc 0))" v2 l2])
  moreover have "length (snd (check_control_with_retry net side domain expected log)) \<le> length log + 6"
    using check_async_log [of net side domain log] retry_log [of net side domain expected 1 v0 l0]
    by (simp add: check_control_with_retry_def c0 CANARY_RETRY_ATTEMPTS_def)
  ultimately show ?thesis by (auto simp: n Let_def)
qed

section \<open>Logs only grow\<close>

lemma control_failures_later:
  "later log (snd (control_failures net side expected failure ds log))"
proof (induction ds arbitrary: log)
  case (Cons d ds)
  obtain v0 l0 where c0: "check_async net side d log = (v0, l0)" by fastforce
  obtain v l where r: "retry_loop net side d expected (Suc 0) v0 l0 = (v, l)" by fastforce
  have "later log l0" using check_async_log [of net side d log] by (simp add: c0)
  also have "later l0 l" using retry_log [of net side d expected "Suc 0" v0 l0] by (simp add: r)
  also have "later l (snd (control_failures net side expected failure ds l))" by (rule Cons)
  finally show ?case
    by (cases "control_failures net side expected failure ds l") (simp add: check_control_with_retry_def c0 r)
qed simp

lemma canary_later: "canary_pass_both net canary log = (r, log') \<Longrightarrow> later log log'"
proof -
  have one: "later log (snd (canary_pass_async net side canary log))" for side log
  proof -
    obtain a l1 where a: "control_failures net side Alive AliveControl (alive_controls canary) log = (a, l1)" by fastforce
    obtain d l2 where d: "control_failures net side Dead DeadControl (dead_controls canary) l1 = (d, l2)" by fastforce
    have "later log l1" using control_failures_later [of log net side Alive AliveControl] a by (metis snd_conv)
    also have "later l1 l2" using control_failures_later [of l1 net side Dead DeadControl] d by (metis snd_conv)
    finally show ?thesis by (simp add: canary_pass_async_def a d)
  qed
  assume "canary_pass_both net canary log = (r, log')"
  moreover obtain r1 l1 where p: "canary_pass_async net PrimarySide canary log = (r1, l1)" by fastforce
  moreover obtain r2 l2 where "canary_pass_async net SecondarySide canary l1 = (r2, l2)" by fastforce
  moreover have "later log l1" "later l1 l2"
    using one [of log PrimarySide] one [of l1 SecondarySide] calculation by simp_all
  ultimately show ?thesis
    by (auto simp: canary_pass_both_def split: sum.splits intro: later_trans)
qed

section \<open>Interleavings do not matter\<close>

text \<open>A log in which every query was answered as \<open>f\<close> says.\<close>

definition agrees :: "(query \<Rightarrow> lookup_result) \<Rightarrow> wire_log \<Rightarrow> bool" where
  "agrees f log \<longleftrightarrow> (\<forall>(q, r) \<in> set log. r = f q)"

abbreviation steady :: "(query \<Rightarrow> lookup_result) \<Rightarrow> network" where
  "steady f \<equiv> (\<lambda>log. f)"

definition stable_check :: "(query \<Rightarrow> lookup_result) \<Rightarrow> resolver_side \<Rightarrow> string \<Rightarrow> verdict" where
  "stable_check f side d =
     (case f (side, d, A) of Resolved ips \<Rightarrow> Alive | a \<Rightarrow> combine a (f (side, d, Aaaa)))"

lemma agrees_simps [simp]: "agrees f []" "agrees f ((q, r) # log) \<longleftrightarrow> r = f q \<and> agrees f log"
  by (auto simp: agrees_def)

lemma agreesD: "(q, r) \<in> set log \<Longrightarrow> agrees f log \<Longrightarrow> r = f q"
  by (auto simp: agrees_def)

lemma check_async_stable:
  "fst (check_async (steady f) side d log) = stable_check f side d \<and>
   (agrees f log \<longrightarrow> agrees f (snd (check_async (steady f) side d log)))"
  by (auto simp: check_async_def lookup_async_def stable_check_def Let_def split: lookup_result.split)

lemma retry_stable:
  assumes "agrees f log"
  shows "fst (retry_loop (steady f) side d expected attempt (stable_check f side d) log) = stable_check f side d \<and>
    agrees f (snd (retry_loop (steady f) side d expected attempt (stable_check f side d) log))"
  using assms
proof (induction "CANARY_RETRY_ATTEMPTS - attempt" arbitrary: attempt log)
  case 0
  then have "retry_loop (steady f) side d expected attempt (stable_check f side d) log = (stable_check f side d, log)"
    by (subst retry_loop.simps) simp
  with 0 show ?case by simp
next
  case (Suc n)
  obtain v l where c: "check_async (steady f) side d log = (v, l)" by fastforce
  with check_async_stable [of f side d log] Suc.prems have v: "v = stable_check f side d" "agrees f l" by simp_all
  have "n = CANARY_RETRY_ATTEMPTS - (attempt + 1)" using Suc.hyps(2) by simp
  note ih = Suc.hyps(1) [OF this v(2)]
  show ?case
    using ih Suc.prems by (subst (1 2) retry_loop.simps) (simp add: c v(1))
qed

lemma control_stable:
  assumes "agrees f log"
  shows "fst (check_control_with_retry (steady f) side d expected log) = stable_check f side d \<and>
    agrees f (snd (check_control_with_retry (steady f) side d expected log))"
proof -
  obtain v l where c: "check_async (steady f) side d log = (v, l)" by fastforce
  with check_async_stable [of f side d log] assms have "v = stable_check f side d" "agrees f l" by simp_all
  with retry_stable [of f l side d expected 1] show ?thesis by (simp add: check_control_with_retry_def c)
qed

lemma control_failures_stable:
  assumes "agrees f log" "agrees f log2"
  shows "fst (control_failures (steady f) side expected failure ds log) =
      fst (control_failures (steady f) side expected failure ds log2) \<and>
    agrees f (snd (control_failures (steady f) side expected failure ds log))"
  using assms
proof (induction ds arbitrary: log log2)
  case (Cons d ds)
  obtain v l where c: "check_control_with_retry (steady f) side d expected log = (v, l)" by fastforce
  obtain v2 l2 where c2: "check_control_with_retry (steady f) side d expected log2 = (v2, l2)" by fastforce
  have "v = v2" "agrees f l" "agrees f l2"
    using control_stable [of f log side d expected] control_stable [of f log2 side d expected] Cons.prems
    by (simp_all add: c c2)
  with Cons.IH [of l l2] show ?case
    by (cases "control_failures (steady f) side expected failure ds l";
        cases "control_failures (steady f) side expected failure ds l2") (simp add: c c2)
qed simp

lemma canary_stable:
  assumes "agrees f log" "agrees f log2"
  shows "fst (canary_pass_both (steady f) canary log) = fst (canary_pass_both (steady f) canary log2) \<and>
    agrees f (snd (canary_pass_both (steady f) canary log))"
proof -
  have one: "fst (canary_pass_async (steady f) side canary l) = fst (canary_pass_async (steady f) side canary l2) \<and>
      agrees f (snd (canary_pass_async (steady f) side canary l))"
    if "agrees f l" "agrees f l2" for side l l2
  proof -
    obtain a l1 where a: "control_failures (steady f) side Alive AliveControl (alive_controls canary) l = (a, l1)"
      by fastforce
    obtain a2 l12 where a2: "control_failures (steady f) side Alive AliveControl (alive_controls canary) l2 = (a2, l12)"
      by fastforce
    have "a = a2" "agrees f l1" "agrees f l12"
      using control_failures_stable [OF that, of side Alive AliveControl "alive_controls canary"]
        control_failures_stable [OF that(2,1), of side Alive AliveControl "alive_controls canary"]
      by (simp_all add: a a2)
    with control_failures_stable [of f l1 l12 side Dead DeadControl "dead_controls canary"] show ?thesis
      by (auto simp: canary_pass_async_def a a2 split: prod.split)
  qed
  obtain r1 l1 where p: "canary_pass_async (steady f) PrimarySide canary log = (r1, l1)" by fastforce
  obtain r2 l2 where p2: "canary_pass_async (steady f) PrimarySide canary log2 = (r2, l2)" by fastforce
  have "r1 = r2" "agrees f l1" "agrees f l2"
    using one [OF assms, of PrimarySide] one [OF assms(2,1), of PrimarySide] by (simp_all add: p p2)
  with one [of l1 l2 SecondarySide] show ?thesis
    by (auto simp: canary_pass_both_def p p2 split: prod.split sum.split)
qed

lemma batch_step_agrees:
  assumes "agrees f (bs_log s)"
  shows "agrees f (bs_log (batch_step (steady f) sched n s))"
proof (cases "pending_lookups (bs_running s) = []")
  case False
  then obtain i side t log where st: "task_step (steady f) side (bs_running s ! i) (bs_log s) = (t, log)"
    "batch_step (steady f) sched n s = (case task_verdict t of
       None \<Rightarrow> s\<lparr>bs_running := (bs_running s)[i := t], bs_log := log\<rparr>
     | Some v \<Rightarrow> refill n (s\<lparr>bs_running := take i (bs_running s) @ drop (Suc i) (bs_running s),
         bs_results := bs_results s @ [(tk_domain t, v)], bs_log := log\<rparr>))"
    by (rule batch_step_cases)
  have step: "agrees f l \<Longrightarrow> agrees f (snd (check_step (steady f) side d cs l))" for side d cs l
    by (cases cs) (auto simp: lookup_async_def Let_def split: lookup_result.split)
  have "agrees f log"
  proof (cases side)
    case PrimarySide
    with st(1) have "log = snd (check_step (steady f) PrimarySide (tk_domain (bs_running s ! i))
        (tk_primary (bs_running s ! i)) (bs_log s))" by (auto simp: case_prod_beta)
    with step [OF assms] show ?thesis by simp
  next
    case SecondarySide
    with st(1) have "log = snd (check_step (steady f) SecondarySide (tk_domain (bs_running s ! i))
        (tk_secondary (bs_running s ! i)) (bs_log s))" by (auto simp: case_prod_beta)
    with step [OF assms] show ?thesis by simp
  qed
  with st(2) show ?thesis by (simp add: refill_def Let_def split: option.split)
qed (simp add: batch_step_idle assms)

lemma run_batch_agrees: "agrees f (bs_log s) \<Longrightarrow> agrees f (bs_log (run_batch (steady f) sched n s))"
proof (induction "steady f" sched n s rule: run_batch.induct)
  case (1 sched n s)
  then show ?case by (subst run_batch.simps) (simp add: batch_step_agrees)
qed

definition stable_verdict :: "(query \<Rightarrow> lookup_result) \<Rightarrow> string \<Rightarrow> verdict" where
  "stable_verdict f d = corroborate (stable_check f PrimarySide d) (stable_check f SecondarySide d)"

lemma answered_stable: "agrees f log \<Longrightarrow> answered log side d v \<Longrightarrow> v = stable_check f side d"
  by (auto simp: answered_def stable_check_def dest!: agreesD split: if_splits lookup_result.split)

lemma corroborated_stable: "agrees f log \<Longrightarrow> corroborated log d v \<Longrightarrow> v = stable_verdict f d"
  by (auto simp: corroborated_def stable_verdict_def dest: answered_stable)

lemma record_all_stable:
  assumes "\<forall>(d, v) \<in> set results. v = V d"
  shows "record_all now results c d = (if d \<in> fst ` set results then Some (checked_entry now (c d) (V d)) else c d)"
  using assms
proof (induction results arbitrary: c)
  case (Cons r results)
  obtain d1 v1 where r: "r = (d1, v1)" by (cases r)
  have twice: "checked_entry now (Some (checked_entry now b v)) v = checked_entry now b v" for b v
    by (simp add: checked_entry_def)
  have ih: "record_all now results c' d = (if d \<in> fst ` set results then Some (checked_entry now (c' d) (V d)) else c' d)"
    for c' using Cons by simp
  have v1: "v1 = V d1" using Cons.prems by (simp add: r)
  show ?case by (simp only: r record_all_simps ih v1) (auto simp: twice)
qed simp

lemma process_batch_stable:
  assumes "agrees f log"
  shows "fst (process_batch (steady f) sched hash_map_backend config now batch c log) = length batch \<and>
    fst (snd (process_batch (steady f) sched hash_map_backend config now batch c log)) =
      (\<lambda>d. if d \<in> set batch then Some (checked_entry now (c d) (stable_verdict f d)) else c d) \<and>
    agrees f (snd (snd (process_batch (steady f) sched hash_map_backend config now batch c log)))"
proof -
  let ?n = "max 1 (sc_concurrency config)"
  let ?s = "run_batch (steady f) sched ?n (start_batch ?n batch log)"
  have n: "0 < ?n" by simp
  note fin = batch_done [OF n refl, where net = "steady f" and sched = sched and batch = batch and log = log]
  have ag: "agrees f (bs_log ?s)"
    by (rule run_batch_agrees) (simp add: refill_def Let_def assms)
  with fin(3) have "\<forall>(d, v) \<in> set (bs_results ?s). v = stable_verdict f d"
    by (auto dest: corroborated_stable)
  moreover have "fst ` set (bs_results ?s) = set batch"
    using mset_eq_setD [OF fin(1)] by simp
  ultimately have "record_all now (bs_results ?s) c =
      (\<lambda>d. if d \<in> set batch then Some (checked_entry now (c d) (stable_verdict f d)) else c d)"
    using record_all_stable [of "bs_results ?s" "stable_verdict f" now c] by (simp add: fun_eq_iff)
  with ag fin(4) show ?thesis by (simp add: process_batch_def Let_def record_all_def)
qed

lemma sweep_batches_stable:
  assumes "agrees f log" "agrees f log2"
  shows "fst (sweep_batches (steady f) sched no_checkpoint canary config now batches checked since c log st) =
    fst (sweep_batches (steady f) sched2 no_checkpoint canary (config\<lparr>sc_concurrency := k\<rparr>) now batches checked since c log2 st2)"
  using assms
proof (induction batches arbitrary: checked since c log log2)
  case (Cons batch batches)
  obtain l1 where p1: "process_batch (steady f) sched hash_map_backend config now batch c log =
      (length batch, \<lambda>d. if d \<in> set batch then Some (checked_entry now (c d) (stable_verdict f d)) else c d, l1)" "agrees f l1"
    using process_batch_stable [OF Cons.prems(1), of sched config now batch c]
    by (cases "process_batch (steady f) sched hash_map_backend config now batch c log") auto
  obtain l2 where p2: "process_batch (steady f) sched2 hash_map_backend (config\<lparr>sc_concurrency := k\<rparr>) now batch c log2 =
      (length batch, \<lambda>d. if d \<in> set batch then Some (checked_entry now (c d) (stable_verdict f d)) else c d, l2)" "agrees f l2"
    using process_batch_stable [OF Cons.prems(2), of sched2 "config\<lparr>sc_concurrency := k\<rparr>" now batch c]
    by (cases "process_batch (steady f) sched2 hash_map_backend (config\<lparr>sc_concurrency := k\<rparr>) now batch c log2") auto
  obtain r m1 where c1: "canary_pass_both (steady f) canary l1 = (r, m1)" by fastforce
  obtain r2 m2 where c2: "canary_pass_both (steady f) canary l2 = (r2, m2)" by fastforce
  have "r = r2" "agrees f m1" "agrees f m2"
    using canary_stable [OF p1(2) p2(2), of canary] canary_stable [OF p2(2) p1(2), of canary] by (simp_all add: c1 c2)
  note ih = Cons.IH [OF this(2,3)] and r = \<open>r = r2\<close>
  show ?case
  proof (cases r)
    case (Inl p)
    then show ?thesis by (cases p) (simp add: p1(1) p2(1) c1 c2 r [symmetric])
  next
    case (Inr u)
    show ?thesis using ih by (simp add: p1(1) p2(1) c1 c2 r [symmetric] Inr no_checkpoint_def)
  qed
qed simp

text \<open>C21: when the resolvers answer every query the same way each time, the sweep's outcome does not depend
  on the order in which the runtime drives the lookups, nor on how many it keeps in flight.\<close>

theorem sweep_schedule_independent:
  "fst (run_sweep_with_resolvers (steady f) sched no_checkpoint entries cache canary config now [] st) =
   fst (run_sweep_with_resolvers (steady f) sched2 no_checkpoint entries cache canary (config\<lparr>sc_concurrency := k\<rparr>) now [] st)"
proof -
  obtain r l where c: "canary_pass_both (steady f) canary [] = (r, l)" by fastforce
  then have ag: "agrees f l" using canary_stable [of f "[]" "[]" canary] by simp
  have pe: "prune_entry got (config\<lparr>sc_concurrency := k\<rparr>) now d = prune_entry got config now d" for got d
    by (simp add: prune_entry_def split: option.split)
  let ?chs = "map (map (\<lambda>idx. me_domain (entries ! idx)))
    (chunks (max 1 (sc_canary_every config)) (due_indices entries cache now (sc_ttl_seconds config)))"
  obtain rb l1 st1 where b1: "sweep_batches (steady f) sched no_checkpoint canary config now ?chs 0 0 cache l st =
      (rb, l1, st1)" by (metis prod_cases3)
  obtain rb2 l2 st2 where b2: "sweep_batches (steady f) sched2 no_checkpoint canary (config\<lparr>sc_concurrency := k\<rparr>) now
      ?chs 0 0 cache l st = (rb2, l2, st2)" by (metis prod_cases3)
  have "rb = rb2"
    using sweep_batches_stable [OF ag ag, of sched canary config now ?chs 0 0 cache st sched2 k st] by (simp only: b1 b2 fst_conv)
  with b2 have b2': "sweep_batches (steady f) sched2 no_checkpoint canary (config\<lparr>sc_concurrency := k\<rparr>) now
      ?chs 0 0 cache l st = (rb, l2, st2)" by simp
  show ?thesis
  proof (cases r)
    case (Inl p)
    then show ?thesis by (cases p) (simp add: run_sweep_with_resolvers_def c)
  next
    case (Inr u)
    then show ?thesis
      using b1 b2' by (cases rb) (auto simp: run_sweep_with_resolvers_def c sweep_chunks_batches pe)
  qed
qed

section \<open>Pruning rests on evidence\<close>

text \<open>Both resolvers answered NXDOMAIN to both queries, with no code that marks the answer as filtered.\<close>

definition nxdomain_seen :: "wire_log \<Rightarrow> resolver_side \<Rightarrow> string \<Rightarrow> record_type \<Rightarrow> bool" where
  "nxdomain_seen log side d rt \<longleftrightarrow> (\<exists>r. ((side, d, rt), r) \<in> set log \<and> genuine_nxdomain r)"

definition nxdomain_evidence :: "wire_log \<Rightarrow> string \<Rightarrow> bool" where
  "nxdomain_evidence log d \<longleftrightarrow>
     nxdomain_seen log PrimarySide d A \<and> nxdomain_seen log PrimarySide d Aaaa \<and>
     nxdomain_seen log SecondarySide d A \<and> nxdomain_seen log SecondarySide d Aaaa"

lemma corroborated_Dead: "corroborated log d Dead \<Longrightarrow> nxdomain_evidence log d"
proof -
  have "nxdomain_seen log side d A \<and> nxdomain_seen log side d Aaaa" if "answered log side d Dead" for side
  proof -
    from that obtain a aaaa where "((side, d, A), a) \<in> set log" "((side, d, Aaaa), aaaa) \<in> set log" "combine a aaaa = Dead"
      by (auto simp: answered_def split: if_splits)
    then show ?thesis by (auto simp: combine_Dead_iff nxdomain_seen_def)
  qed
  moreover assume "corroborated log d Dead"
  then have "answered log PrimarySide d Dead" "answered log SecondarySide d Dead"
    by (auto simp: corroborated_def dest!: sym [of Dead] simp: corroborate_Dead_iff)
  ultimately show ?thesis by (auto simp: nxdomain_evidence_def)
qed

text \<open>An entry written by this sweep, and a cache in which exactly the domains of \<open>done\<close> are such entries.\<close>

definition fresh_entry :: "timestamp \<Rightarrow> wire_log \<Rightarrow> cache \<Rightarrow> string \<Rightarrow> cache_entry \<Rightarrow> bool" where
  "fresh_entry now log cache0 d e \<longleftrightarrow>
     ce_last_checked e = now \<and> corroborated log d (ce_verdict e) \<and>
     (ce_verdict e = Dead \<longleftrightarrow> ce_first_dead_at e \<noteq> None) \<and>
     (\<forall>f. ce_first_dead_at e = Some f \<longrightarrow> f = now \<or> (\<exists>e0. cache0 d = Some e0 \<and> ce_first_dead_at e0 = Some f))"

definition swept :: "timestamp \<Rightarrow> wire_log \<Rightarrow> cache \<Rightarrow> string set \<Rightarrow> cache \<Rightarrow> bool" where
  "swept now log cache0 finished cache \<longleftrightarrow>
     (\<forall>d. if d \<in> finished then \<exists>e. cache d = Some e \<and> fresh_entry now log cache0 d e else cache d = cache0 d)"

lemma fresh_entry_later: "fresh_entry now log cache0 d e \<Longrightarrow> later log log' \<Longrightarrow> fresh_entry now log' cache0 d e"
  by (auto simp: fresh_entry_def intro: corroborated_later)

lemma swept_later: "swept now log cache0 finished c \<Longrightarrow> later log log' \<Longrightarrow> swept now log' cache0 finished c"
  unfolding swept_def using fresh_entry_later [of now log cache0 _ _ log'] by metis

lemma process_batch_swept:
  assumes "process_batch net sched hash_map_backend config now batch c log = (k, c', log')"
    and "swept now log cache0 finished c"
  shows "swept now log' cache0 (finished \<union> set batch) c' \<and> later log log' \<and> k = length batch"
proof -
  let ?n = "max 1 (sc_concurrency config)"
  let ?s = "run_batch net sched ?n (start_batch ?n batch log)"
  have n: "0 < ?n" by simp
  note fin = batch_done [OF n refl, where net = net and sched = sched and batch = batch and log = log]
  from assms(1) have pb: "k = length (bs_results ?s)" "c' = record_all now (bs_results ?s) c" "log' = bs_log ?s"
    by (auto simp: process_batch_def Let_def record_all_def)
  have keys: "fst ` set (bs_results ?s) = set batch" using mset_eq_setD [OF fin(1)] by simp
  have sw: "swept now log' cache0 finished c" using assms(2) fin(2) by (simp add: pb(3) swept_later)
  have "if d \<in> finished \<union> set batch then \<exists>e. c' d = Some e \<and> fresh_entry now log' cache0 d e else c' d = cache0 d" for d
  proof (cases "d \<in> set batch")
    case True
    then have "d \<in> fst ` set (bs_results ?s)" by (simp only: keys)
    from record_all_inside [OF this, of now c] obtain e v where e: "c' d = Some e" "(d, v) \<in> set (bs_results ?s)"
      "ce_last_checked e = now" "ce_verdict e = v"
      "\<forall>f. ce_first_dead_at e = Some f \<longrightarrow> f = now \<or> (\<exists>e0. c d = Some e0 \<and> ce_first_dead_at e0 = Some f)"
      "v = Dead \<longleftrightarrow> ce_first_dead_at e \<noteq> None" by (auto simp: pb(2))
    have "corroborated log' d v" using fin(3) e(2) by (auto simp: pb(3))
    moreover have "f = now \<or> (\<exists>e0. cache0 d = Some e0 \<and> ce_first_dead_at e0 = Some f)" if fd: "ce_first_dead_at e = Some f" for f
    proof -
      consider "f = now" | e1 where "c d = Some e1" "ce_first_dead_at e1 = Some f" using e(5) fd by blast
      then show ?thesis
      proof cases
        case (2 e1)
        with sw show ?thesis
          by (cases "d \<in> finished") (auto simp: swept_def fresh_entry_def dest!: spec [of _ d])
      qed simp
    qed
    ultimately show ?thesis using e True by (auto simp: fresh_entry_def)
  next
    case False
    then have "c' d = c d" unfolding pb(2) by (intro record_all_outside) (simp only: keys not_False_eq_True)
    with sw False show ?thesis by (auto simp: swept_def)
  qed
  then have "swept now log' cache0 (finished \<union> set batch) c'" unfolding swept_def by blast
  moreover have "later log log'" "k = length batch" unfolding pb(1,3) by (rule fin(2), rule fin(4))
  ultimately show ?thesis by blast
qed

lemma concat_chunks: "0 < n \<Longrightarrow> concat (chunks n xs) = xs"
proof (induction n xs rule: chunks.induct)
  case (1 n xs)
  then show ?case by (cases "xs = []") (simp_all add: chunks.simps [of n xs] chunks.simps [of n "[]"])
qed

lemma sweep_batches_swept:
  assumes "swept now log cache0 finished c"
    and "sweep_batches net sched checkpoint canary config now batches checked since c log st = (Inr (c', k), log', st')"
  shows "swept now log' cache0 (finished \<union> set (concat batches)) c' \<and> k = checked + length (concat batches)"
  using assms
proof (induction batches arbitrary: finished checked since c log st)
  case (Cons batch batches)
  obtain n c1 l1 where pb: "process_batch net sched hash_map_backend config now batch c log = (n, c1, l1)"
    by (metis prod_cases3)
  obtain r l2 where cp: "canary_pass_both net canary l1 = (r, l2)" by fastforce
  have "swept now l1 cache0 (finished \<union> set batch) c1" "n = length batch"
    using process_batch_swept [OF pb Cons.prems(1)] by simp_all
  then have sw: "swept now l2 cache0 (finished \<union> set batch) c1" using canary_later [OF cp] by (blast intro: swept_later)
  obtain saved st1 where ck: "checkpoint c1 st = (saved, st1)" by fastforce
  from Cons.prems(2) obtain since2 st2 where "sweep_batches net sched checkpoint canary config now batches
      (checked + n) since2 c1 l2 st2 = (Inr (c', k), log', st')"
    by (cases r) (auto simp: pb cp ck split: if_splits)
  from Cons.IH [OF sw this] show ?case using \<open>n = length batch\<close> by (simp add: Un_assoc)
qed auto

lemma sweep_outcome_swept:
  assumes "run_sweep_with_resolvers net sched checkpoint entries cache0 canary config now [] st = (Inr out, log, st')"
  defines "D \<equiv> filter (\<lambda>d. due_for_check (cache0 d) now (sc_ttl_seconds config)) (map me_domain entries)"
  shows "swept now log cache0 (set D) (so_cache out) \<and>
    so_pruned_domains out = set (map me_domain
      (filter (\<lambda>e. prune_entry (so_cache out (me_domain e)) config now (me_domain e)) entries))"
proof -
  let ?n = "max 1 (sc_canary_every config)"
  obtain u l0 where cp: "canary_pass_both net canary [] = (Inr u, l0)"
    using assms(1) by (auto simp: run_sweep_with_resolvers_def split: prod.splits sum.splits)
  obtain c k where sb: "sweep_batches net sched checkpoint canary config now (chunks ?n D) 0 0 cache0 l0 st =
      (Inr (c, k), log, st')"
    and out: "out = \<lparr>so_cache = c, so_pruned_domains = set (map me_domain
       (filter (\<lambda>e. prune_entry (c (me_domain e)) config now (me_domain e)) entries)), so_checked_count = k\<rparr>"
    using assms(1) by (auto simp: run_sweep_with_resolvers_def cp sweep_chunks_batches chunks_map due_domains D_def
        split: prod.splits sum.splits)
  have "swept now l0 cache0 {} cache0" by (simp add: swept_def)
  from sweep_batches_swept [OF this sb] show ?thesis by (simp add: concat_chunks out)
qed

lemma sweep_pruned:
  assumes "run_sweep_with_resolvers net sched checkpoint entries cache0 canary config now [] st = (Inr out, log, st')"
    and "d \<in> so_pruned_domains out"
  shows "d \<in> me_domain ` set entries \<and> \<not> is_special_use_domain d \<and>
    (\<exists>e first. so_cache out d = Some e \<and> ce_verdict e = Dead \<and> ce_first_dead_at e = Some first \<and>
       sc_quarantine_seconds config \<le> saturating_sub now first \<and>
       (cache0 d = Some e \<and> saturating_sub now (ce_last_checked e) < sc_ttl_seconds config \<or>
        ce_last_checked e = now \<and> nxdomain_evidence log d \<and>
        (first = now \<or> (\<exists>e0. cache0 d = Some e0 \<and> ce_first_dead_at e0 = Some first))))"
proof -
  let ?D = "filter (\<lambda>d. due_for_check (cache0 d) now (sc_ttl_seconds config)) (map me_domain entries)"
  note sw = sweep_outcome_swept [OF assms(1)]
  then have d: "d \<in> me_domain ` set entries" "prune_entry (so_cache out d) config now d" using assms(2) by auto
  then obtain e first where e: "so_cache out d = Some e" "ce_verdict e = Dead" "ce_first_dead_at e = Some first"
    "sc_quarantine_seconds config \<le> saturating_sub now first" "\<not> is_special_use_domain d"
    by (auto simp: prune_entry_def should_prune_with_hysteresis_def should_prune_def split: option.splits if_splits)
  show ?thesis
  proof (cases "due_for_check (cache0 d) now (sc_ttl_seconds config)")
    case True
    with d(1) have "d \<in> set ?D" by auto
    with sw e(1) have "fresh_entry now log cache0 d e" by (auto simp: swept_def dest!: spec [of _ d])
    with e d(1) show ?thesis by (auto simp: fresh_entry_def dest: corroborated_Dead)
  next
    case False
    then have "so_cache out d = cache0 d" using sw by (auto simp: swept_def dest!: spec [of _ d])
    with False e d(1) show ?thesis by (auto simp: due_for_check_def not_le split: option.splits)
  qed
qed

text \<open>C4: a sweep prunes a listed domain only when its cached verdict is \<open>Dead\<close>, it is not a special-use name
  and it has been dead for the whole quarantine; and that verdict is either younger than the time to live and
  was there before, or was made in this sweep from four NXDOMAIN answers, one per resolver and address
  family, none of them marked as filtered; the streak it extends was in the cache or starts now.\<close>

theorem pruned_on_evidence:
  "case run_sweep_with_resolvers net sched checkpoint entries cache0 canary config now [] st of
     (Inl e, _) \<Rightarrow> True
   | (Inr out, log, _) \<Rightarrow>
       so_pruned_domains out \<subseteq> {d. d \<in> me_domain ` set entries \<and> \<not> is_special_use_domain d \<and>
         (\<exists>e first. so_cache out d = Some e \<and> ce_verdict e = Dead \<and> ce_first_dead_at e = Some first \<and>
            sc_quarantine_seconds config \<le> saturating_sub now first \<and>
            (cache0 d = Some e \<and> saturating_sub now (ce_last_checked e) < sc_ttl_seconds config \<or>
             ce_last_checked e = now \<and> nxdomain_evidence log d \<and>
             (first = now \<or> (\<exists>e0. cache0 d = Some e0 \<and> ce_first_dead_at e0 = Some first))))}"
proof -
  obtain r log st' where run: "run_sweep_with_resolvers net sched checkpoint entries cache0 canary config now [] st =
      (r, log, st')" by (metis prod_cases3)
  show ?thesis
  proof (cases r)
    case (Inr out)
    show ?thesis unfolding run Inr prod.case sum.case
      by (intro subsetI CollectI) (rule sweep_pruned [OF run [unfolded Inr]])
  qed (simp add: run)
qed

section \<open>The entries of the cache\<close>

text \<open>What a cache entry means: the start of the streak is set exactly when the verdict is \<open>Dead\<close>, and the
  times are ordered up to now.\<close>

definition entry_well_formed :: "timestamp \<Rightarrow> cache_entry \<Rightarrow> bool" where
  "entry_well_formed now e \<longleftrightarrow> ce_last_checked e \<le> now \<and>
     (case ce_first_dead_at e of None \<Rightarrow> ce_verdict e \<noteq> Dead | Some f \<Rightarrow> ce_verdict e = Dead \<and> f \<le> ce_last_checked e)"

lemma fresh_well_formed:
  assumes "fresh_entry now log cache0 d e" "case cache0 d of None \<Rightarrow> True | Some e0 \<Rightarrow> entry_well_formed now e0"
  shows "entry_well_formed now e"
  using assms by (auto simp: fresh_entry_def entry_well_formed_def split: option.splits)

lemma well_formed_later: "entry_well_formed now0 e \<Longrightarrow> now0 \<le> now \<Longrightarrow> entry_well_formed now e"
  by (auto simp: entry_well_formed_def)

text \<open>C26: the entries stay well formed: when every entry of the cache was well formed at some earlier time,
  such as the end of the run that wrote it, then after a sweep that completes, from the canary to the last chunk,
  every entry of the cache is well formed at the time of the sweep - checked no later than now, with the start
  of a streak exactly when the verdict is \<open>Dead\<close>, no later than the check.  A sweep whose clock is behind the
  start of a streak keeps that start, so the invariant needs a clock that does not go back.\<close>

theorem sweep_keeps_entries_well_formed:
  assumes "\<forall>d e. cache0 d = Some e \<longrightarrow> entry_well_formed now0 e" and "now0 \<le> now"
  shows "case run_sweep_with_resolvers net sched checkpoint entries cache0 canary config now [] st of
     (Inl e, _) \<Rightarrow> True
   | (Inr out, _) \<Rightarrow> \<forall>d e. so_cache out d = Some e \<longrightarrow> entry_well_formed now e"
proof -
  obtain r log st' where run: "run_sweep_with_resolvers net sched checkpoint entries cache0 canary config now [] st =
      (r, log, st')" by (metis prod_cases3)
  show ?thesis
  proof (cases r)
    case (Inr out)
    note sw = conjunct1 [OF sweep_outcome_swept [OF run [unfolded Inr]]]
    have old: "case cache0 d of None \<Rightarrow> True | Some e0 \<Rightarrow> entry_well_formed now e0" for d
      using well_formed_later [OF _ assms(2)] assms(1) by (cases "cache0 d") auto
    have "entry_well_formed now e" if "so_cache out d = Some e" for d e
      using sw [unfolded swept_def, rule_format, of d] fresh_well_formed [of now log cache0 d e] that old [of d]
      by (auto split: if_splits)
    then show ?thesis by (simp add: run Inr)
  qed (simp add: run)
qed

text \<open>A cached streak that starts after now, because the clock went back.\<close>

lemma future_streak_kept:
  "(case run_sweep_with_resolvers toy_net (\<lambda>log. length log) no_checkpoint [toy_entry ''x.y'']
      [''x.y'' \<mapsto> \<lparr>ce_last_checked = 0, ce_verdict = Dead, ce_first_dead_at = Some 200\<rparr>] toy_canary toy_config 100 [] () of
     (Inr out, _) \<Rightarrow> so_cache out ''x.y'' = Some \<lparr>ce_last_checked = 100, ce_verdict = Dead, ce_first_dead_at = Some 200\<rparr>
   | _ \<Rightarrow> False)"
  by code_simp

lemma toy_sweep_completes:
  "(case run_sweep_with_resolvers toy_net (\<lambda>log. length log) no_checkpoint [toy_entry ''x.y'', toy_entry ''z.y'']
      toy_cache toy_canary toy_config 100 [] () of
     (Inr out, _) \<Rightarrow> so_cache out ''z.y'' = Some \<lparr>ce_last_checked = 100, ce_verdict = Dead, ce_first_dead_at = Some 100\<rparr>
   | _ \<Rightarrow> False)"
  by code_simp

theorem sweep_keeps_entries_well_formed_witness:
  "case run_sweep_with_resolvers toy_net (\<lambda>log. length log) no_checkpoint [toy_entry ''x.y'', toy_entry ''z.y'']
      toy_cache toy_canary toy_config 100 [] () of
     (Inr out, _) \<Rightarrow> so_cache out ''z.y'' \<noteq> None \<and>
       (\<forall>d e. so_cache out d = Some e \<longrightarrow> entry_well_formed 100 e)
   | _ \<Rightarrow> False"
proof -
  have "\<forall>d e. toy_cache d = Some e \<longrightarrow> entry_well_formed 60 e"
    by (simp add: toy_cache_def entry_well_formed_def)
  from sweep_keeps_entries_well_formed [OF this, of 100 toy_net "\<lambda>log. length log" no_checkpoint
      "[toy_entry ''x.y'', toy_entry ''z.y'']" toy_canary toy_config "()"] toy_sweep_completes
  show ?thesis by (auto split: prod.splits sum.splits)
qed

end
