(* ===== verification/Slots.thy ===== *)
theory Slots
  imports Artifact
begin

text \<open>
  The pipeline's two-slot store (\<open>domain-blocklist/src/slots.rs\<close>): loading the previous build,
  and publishing a new one as a sequence of file-system operations.  A program here is a function
  from the file system it starts in to the operations it performs; an interruption is any prefix of
  them, with the last write or recursive removal possibly half done.
\<close>

section \<open>The file system\<close>

datatype slot_name = CurrentSlot | PreviousSlot | PreviousTmpSlot

text \<open>\<open>atomic_write\<close> uses the sibling with extension \<open>tmp\<close>.\<close>

datatype file_name = ArtifactFile | ManifestFile | ArtifactTmp | ManifestTmp

type_synonym path = "slot_name \<times> file_name"

record file_system =
  fs_dirs :: "slot_name set"
  fs_files :: "path \<Rightarrow> bytes option"

datatype fs_op =
  RemoveAll slot_name
| CreateDir slot_name
| RenameFile path path
| RenameDir slot_name slot_name
| WriteFile path bytes

primrec exec_op :: "fs_op \<Rightarrow> file_system \<Rightarrow> file_system" where
  "exec_op (RemoveAll d) s =
     s\<lparr>fs_dirs := fs_dirs s - {d}, fs_files := (\<lambda>p. if fst p = d then None else fs_files s p)\<rparr>"
| "exec_op (CreateDir d) s = s\<lparr>fs_dirs := insert d (fs_dirs s)\<rparr>"
| "exec_op (RenameFile p q) s = s\<lparr>fs_files := (fs_files s)(q := fs_files s p, p := None)\<rparr>"
| "exec_op (RenameDir d e) s =
     s\<lparr>fs_dirs := insert e (fs_dirs s - {d}),
       fs_files := (\<lambda>p. if fst p = e then fs_files s (d, snd p) else if fst p = d then None else fs_files s p)\<rparr>"
| "exec_op (WriteFile p bs) s = s\<lparr>fs_files := (fs_files s)(p := Some bs)\<rparr>"

definition exec_ops :: "fs_op list \<Rightarrow> file_system \<Rightarrow> file_system" where
  "exec_ops ops s = foldl (\<lambda>s op. exec_op op s) s ops"

type_synonym prog = "file_system \<Rightarrow> fs_op list"

definition and_then :: "prog \<Rightarrow> prog \<Rightarrow> prog" where
  "and_then p q s = p s @ q (exec_ops (p s) s)"

section \<open>Publishing\<close>

definition clear_dir :: "slot_name \<Rightarrow> prog" where
  "clear_dir d s = [RemoveAll d]"

definition rotate_file :: "path \<Rightarrow> path \<Rightarrow> prog" where
  "rotate_file p q s = (if fs_files s p = None then [] else [RenameFile p q])"

definition atomic_write :: "slot_name \<Rightarrow> file_name \<Rightarrow> file_name \<Rightarrow> bytes \<Rightarrow> prog" where
  "atomic_write d file tmp bs s = [WriteFile (d, tmp) bs, RenameFile (d, tmp) (d, file)]"

definition rotate_current_into_previous :: prog where
  "rotate_current_into_previous s =
     (if fs_files s (CurrentSlot, ArtifactFile) = None \<and> fs_files s (CurrentSlot, ManifestFile) = None then []
      else and_then (clear_dir PreviousTmpSlot)
          (and_then (\<lambda>s. [CreateDir PreviousTmpSlot])
          (and_then (rotate_file (CurrentSlot, ArtifactFile) (PreviousTmpSlot, ArtifactFile))
          (and_then (rotate_file (CurrentSlot, ManifestFile) (PreviousTmpSlot, ManifestFile))
          (and_then (clear_dir PreviousSlot)
            (\<lambda>s. [RenameDir PreviousTmpSlot PreviousSlot]))))) s)"

definition publish :: "(manifest \<Rightarrow> bytes option) \<Rightarrow> fst_artifact \<Rightarrow> prog" where
  "publish serialize art =
     and_then rotate_current_into_previous
       (and_then (\<lambda>s. [CreateDir CurrentSlot])
         (case serialize (fa_manifest art) of
            None \<Rightarrow> (\<lambda>s. [])
          | Some manifest_bytes \<Rightarrow>
              and_then (atomic_write CurrentSlot ArtifactFile ArtifactTmp (fa_fst_bytes art))
                (atomic_write CurrentSlot ManifestFile ManifestTmp manifest_bytes)))"

section \<open>Loading the previous build\<close>

datatype load_error = Unreadable | BadManifest | VerifyErrored | NotVerified | NotMatching | NotAnFst

datatype previous_load = NoPreviousBuild | Existing_build manifest "string list"

text \<open>\<open>fst_keys\<close> is \<open>fst::Map::new\<close> followed by its stream: the keys in order.\<close>

definition load_previous ::
  "'vk loader \<Rightarrow> (bytes \<Rightarrow> string list option) \<Rightarrow> file_system \<Rightarrow> load_error + previous_load" where
  "load_previous ld fst_keys s =
     (case (fs_files s (CurrentSlot, ArtifactFile), fs_files s (CurrentSlot, ManifestFile)) of
        (None, None) \<Rightarrow> Inr NoPreviousBuild
      | (Some fst_bytes, Some manifest_bytes) \<Rightarrow>
          (case ld_deserialize ld manifest_bytes of
             None \<Rightarrow> Inl BadManifest
           | Some mf \<Rightarrow>
               (case verify_manifest (ld_serialize ld) (ld_verify ld) mf (ld_trusted ld) of
                  Inl _ \<Rightarrow> Inl VerifyErrored
                | Inr verified \<Rightarrow>
                    if \<not> verified then Inl NotVerified
                    else if ld_sha256 ld fst_bytes \<noteq> mf_fst_digest mf then Inl NotMatching
                    else (case fst_keys fst_bytes of
                            None \<Rightarrow> Inl NotAnFst
                          | Some ks \<Rightarrow> Inr (Existing_build mf (remdups_adj (sort (map reverse_key ks)))))))
      | _ \<Rightarrow> Inl Unreadable)"

section \<open>Interruptions\<close>

inductive crashed :: "fs_op list \<Rightarrow> file_system \<Rightarrow> file_system \<Rightarrow> bool" where
  stop: "crashed ops s s"
| go: "crashed ops (exec_op op s) t \<Longrightarrow> crashed (op # ops) s t"
| torn_write: "crashed (WriteFile p bs # ops) s (exec_op (WriteFile p (take n bs)) s)"
| torn_remove: "crashed (RemoveAll d # ops) s
    (s\<lparr>fs_files := (\<lambda>p. if fst p = d \<and> p \<in> gone then None else fs_files s p)\<rparr>)"

declare crashed.intros [intro]

declare exec_op.simps [simp del]

inductive_simps crashed_Nil: "crashed [] s t"
inductive_simps crashed_Remove: "crashed (RemoveAll d # ops) s t"
inductive_simps crashed_Create: "crashed (CreateDir d # ops) s t"
inductive_simps crashed_Rename: "crashed (RenameFile p q # ops) s t"
inductive_simps crashed_RenameDir: "crashed (RenameDir d e # ops) s t"
inductive_simps crashed_Write: "crashed (WriteFile p bs # ops) s t"

declare exec_op.simps [simp]

lemmas crashed_simps = crashed_Nil crashed_Remove crashed_Create crashed_Rename crashed_RenameDir crashed_Write

lemma exec_ops_simps [simp]: "exec_ops [] s = s" "exec_ops (op # ops) s = exec_ops ops (exec_op op s)"
  by (simp_all add: exec_ops_def)

lemma exec_ops_append [simp]: "exec_ops (ops @ ops') s = exec_ops ops' (exec_ops ops s)"
  by (simp add: exec_ops_def)

lemma crashed_append:
  "crashed (ops @ ops') s t \<longleftrightarrow> crashed ops s t \<or> crashed ops' (exec_ops ops s) t"
proof (induction ops arbitrary: s)
  case (Cons op ops)
  show ?case
    by (cases op) (auto simp: crashed_simps Cons.IH)
qed (auto simp: crashed_simps)

lemma crashed_exec: "crashed ops s (exec_ops ops s)"
  by (induction ops arbitrary: s) auto

text \<open>The files a slot holds, when it holds both.\<close>

definition pair :: "file_system \<Rightarrow> slot_name \<Rightarrow> (bytes \<times> bytes) option" where
  "pair s d = (case (fs_files s (d, ArtifactFile), fs_files s (d, ManifestFile)) of
     (Some a, Some m) \<Rightarrow> Some (a, m) | _ \<Rightarrow> None)"

lemma pair_eq_Some: "pair s d = Some (a, m) \<longleftrightarrow> fs_files s (d, ArtifactFile) = Some a \<and> fs_files s (d, ManifestFile) = Some m"
  by (simp add: pair_def split: option.split)

lemma pair_None: "pair s d = None \<longleftrightarrow> fs_files s (d, ArtifactFile) = None \<or> fs_files s (d, ManifestFile) = None"
  by (simp add: pair_def split: option.split)

section \<open>Crash safety\<close>

text \<open>The rotation in two halves: filling the temporary slot, then swapping it in.\<close>

definition fill_ops :: prog where
  "fill_ops s = [RemoveAll PreviousTmpSlot, CreateDir PreviousTmpSlot] @
     (if fs_files s (CurrentSlot, ArtifactFile) = None then []
      else [RenameFile (CurrentSlot, ArtifactFile) (PreviousTmpSlot, ArtifactFile)]) @
     (if fs_files s (CurrentSlot, ManifestFile) = None then []
      else [RenameFile (CurrentSlot, ManifestFile) (PreviousTmpSlot, ManifestFile)])"

abbreviation swap_ops :: "fs_op list" where
  "swap_ops \<equiv> [RemoveAll PreviousSlot, RenameDir PreviousTmpSlot PreviousSlot]"

lemma rotate_ops:
  "rotate_current_into_previous s =
     (if fs_files s (CurrentSlot, ArtifactFile) = None \<and> fs_files s (CurrentSlot, ManifestFile) = None then []
      else fill_ops s @ swap_ops)"
  by (simp add: rotate_current_into_previous_def and_then_def clear_dir_def rotate_file_def fill_ops_def)

lemma fill_crashed:
  assumes "crashed (fill_ops s) s t"
  shows "pair t CurrentSlot \<in> {None, pair s CurrentSlot} \<and> pair t PreviousSlot = pair s PreviousSlot"
  using assms
  by (cases "fs_files s (CurrentSlot, ArtifactFile)"; cases "fs_files s (CurrentSlot, ManifestFile)")
    (auto simp: fill_ops_def crashed_simps pair_def cong: option.case_cong if_cong)

lemma fill_done:
  "fs_files (exec_ops (fill_ops s) s) (CurrentSlot, ArtifactFile) = None"
  "fs_files (exec_ops (fill_ops s) s) (CurrentSlot, ManifestFile) = None"
  "fs_files (exec_ops (fill_ops s) s) (PreviousTmpSlot, ArtifactFile) = fs_files s (CurrentSlot, ArtifactFile)"
  "fs_files (exec_ops (fill_ops s) s) (PreviousTmpSlot, ManifestFile) = fs_files s (CurrentSlot, ManifestFile)"
  "fs_files (exec_ops (fill_ops s) s) (PreviousSlot, f) = fs_files s (PreviousSlot, f)"
  by (auto simp: fill_ops_def)

lemma pair_torn: "pair (s\<lparr>fs_files := (\<lambda>p. if fst p = d \<and> p \<in> gone then None else fs_files s p)\<rparr>) e \<in> {None, pair s e}"
proof -
  let ?t = "s\<lparr>fs_files := (\<lambda>p. if fst p = d \<and> p \<in> gone then None else fs_files s p)\<rparr>"
  show ?thesis
  proof (cases "pair ?t e")
    case (Some p)
    then have "pair s e = Some p" by (cases p) (auto simp: pair_eq_Some split: if_splits)
    with Some show ?thesis by simp
  qed simp
qed

lemma swap_pairs:
  "pair (exec_op (RemoveAll PreviousSlot) s) PreviousSlot = None"
  "d \<noteq> PreviousSlot \<Longrightarrow> pair (exec_op (RemoveAll PreviousSlot) s) d = pair s d"
  "pair (exec_op (RenameDir PreviousTmpSlot PreviousSlot) s) PreviousSlot = pair s PreviousTmpSlot"
  "pair (exec_op (RenameDir PreviousTmpSlot PreviousSlot) s) CurrentSlot = pair s CurrentSlot"
  by (simp_all add: pair_def)

lemma swap_crashed:
  assumes "crashed swap_ops s t"
  shows "pair t CurrentSlot \<in> {None, pair s CurrentSlot} \<and>
    pair t PreviousSlot \<in> {None, pair s PreviousSlot, pair s PreviousTmpSlot}"
proof -
  let ?u = "exec_op (RemoveAll PreviousSlot) s"
  from assms consider "t = s" | "t = ?u" | "t = exec_op (RenameDir PreviousTmpSlot PreviousSlot) ?u"
    | gone where "t = s\<lparr>fs_files := (\<lambda>p. if fst p = PreviousSlot \<and> p \<in> gone then None else fs_files s p)\<rparr>"
    unfolding crashed_simps by blast
  then show ?thesis
  proof cases
    case (4 gone)
    with pair_torn [where s = s and d = PreviousSlot and gone = gone and e = CurrentSlot]
      pair_torn [where s = s and d = PreviousSlot and gone = gone and e = PreviousSlot]
    show ?thesis by auto
  qed (simp_all add: swap_pairs del: exec_op.simps)
qed

lemma rotate_crashed:
  assumes "crashed (rotate_current_into_previous s) s t"
  shows "pair t CurrentSlot \<in> {None, pair s CurrentSlot} \<and>
    pair t PreviousSlot \<in> {None, pair s PreviousSlot, pair s CurrentSlot}"
proof -
  let ?f = "exec_ops (fill_ops s) s"
  have f: "pair ?f CurrentSlot = None" "pair ?f PreviousSlot = pair s PreviousSlot"
    "pair ?f PreviousTmpSlot = pair s CurrentSlot"
    by (simp_all add: pair_def fill_done)
  from assms consider "t = s" | "crashed (fill_ops s) s t" | "crashed swap_ops ?f t"
    by (auto simp: rotate_ops crashed_append crashed_Nil split: if_splits)
  then show ?thesis
  proof cases
    case 2 from fill_crashed [OF this] show ?thesis by auto
  next
    case 3 from swap_crashed [OF this] f show ?thesis by auto
  qed auto
qed

lemma rotate_done:
  fixes s defines "t \<equiv> exec_ops (rotate_current_into_previous s) s"
  shows "fs_files t (CurrentSlot, ArtifactFile) = None" "fs_files t (CurrentSlot, ManifestFile) = None"
    and "pair t PreviousSlot =
      (if fs_files s (CurrentSlot, ArtifactFile) = None \<and> fs_files s (CurrentSlot, ManifestFile) = None
       then pair s PreviousSlot else pair s CurrentSlot)"
proof -
  show "fs_files t (CurrentSlot, ArtifactFile) = None" "fs_files t (CurrentSlot, ManifestFile) = None"
    unfolding t_def by (auto simp: rotate_ops fill_done)
  show "pair t PreviousSlot =
      (if fs_files s (CurrentSlot, ArtifactFile) = None \<and> fs_files s (CurrentSlot, ManifestFile) = None
       then pair s PreviousSlot else pair s CurrentSlot)"
    unfolding t_def by (simp add: rotate_ops pair_def fill_done cong: option.case_cong)
qed

definition write_ops :: "bytes \<Rightarrow> bytes option \<Rightarrow> fs_op list" where
  "write_ops a m = [CreateDir CurrentSlot] @
     (case m of None \<Rightarrow> [] | Some mb \<Rightarrow>
        [WriteFile (CurrentSlot, ArtifactTmp) a, RenameFile (CurrentSlot, ArtifactTmp) (CurrentSlot, ArtifactFile),
         WriteFile (CurrentSlot, ManifestTmp) mb, RenameFile (CurrentSlot, ManifestTmp) (CurrentSlot, ManifestFile)])"

lemma publish_ops:
  "publish serialize art s =
     rotate_current_into_previous s @ write_ops (fa_fst_bytes art) (serialize (fa_manifest art))"
  by (simp add: publish_def and_then_def atomic_write_def write_ops_def split: option.split)

lemma write_crashed:
  assumes "crashed (write_ops a m) s t"
    and "fs_files s (CurrentSlot, ArtifactFile) = None" "fs_files s (CurrentSlot, ManifestFile) = None"
  shows "pair t CurrentSlot \<in> {None, map_option (Pair a) m} \<and> pair t PreviousSlot = pair s PreviousSlot"
  using assms by (cases m) (auto simp: write_ops_def crashed_simps pair_def cong: option.case_cong)

lemma publish_crashed_pairs:
  assumes "crashed (publish serialize art s) s t"
  shows "pair t CurrentSlot \<in> {None, pair s CurrentSlot, map_option (Pair (fa_fst_bytes art)) (serialize (fa_manifest art))} \<and>
    pair t PreviousSlot \<in> {None, pair s PreviousSlot, pair s CurrentSlot}"
proof -
  let ?r = "exec_ops (rotate_current_into_previous s) s"
  from assms consider "crashed (rotate_current_into_previous s) s t"
    | "crashed (write_ops (fa_fst_bytes art) (serialize (fa_manifest art))) ?r t"
    unfolding publish_ops crashed_append by blast
  then show ?thesis
  proof cases
    case 1 then show ?thesis using rotate_crashed by blast
  next
    case 2
    from write_crashed [OF 2 rotate_done(1,2)] rotate_done(3) [of s] show ?thesis by (auto split: if_splits)
  qed
qed

text \<open>What the device's loader reads in a slot.\<close>

definition read_file :: "file_system \<Rightarrow> path \<Rightarrow> file_read" where
  "read_file s p = (case fs_files s p of None \<Rightarrow> NotFound | Some b \<Rightarrow> Contents b)"

definition device_view :: "file_system \<Rightarrow> slot_dir \<Rightarrow> slot_files" where
  "device_view s d = (let n = (case d of Current \<Rightarrow> CurrentSlot | Previous \<Rightarrow> PreviousSlot) in
     \<lparr>sf_artifact = read_file s (n, ArtifactFile), sf_manifest = read_file s (n, ManifestFile)\<rparr>)"

definition files_of :: "bytes \<times> bytes \<Rightarrow> slot_files" where
  "files_of p = \<lparr>sf_artifact = Contents (fst p), sf_manifest = Contents (snd p)\<rparr>"

lemma load_slot_pair:
  assumes "load_slot ld (device_view s d) = Inr x"
  shows "\<exists>p. pair s (case d of Current \<Rightarrow> CurrentSlot | Previous \<Rightarrow> PreviousSlot) = Some p \<and>
    device_view s d = files_of p"
  using assms
  by (cases d) (auto simp: load_slot_def device_view_def files_of_def read_file_def pair_def Let_def
      split: file_read.splits option.splits)

lemma load_InrD:
  assumes "load ld path = Inr x"
  shows "load_slot ld (path Current) = Inr x \<or> load_slot ld (path Previous) = Inr x"
proof (cases "load_slot ld (path Current)")
  case (Inl e)
  with assms show ?thesis
    by (cases "load_slot ld (path Previous)"; cases e) (auto simp: load_def split: artifact_error.splits)
qed (use assms in \<open>simp add: load_def\<close>)

text \<open>C13: an interrupted publication never makes the device load a mixture.  Whatever prefix of
  the publication happened, with its last write or removal half done, an artifact the device then
  loads is the one of the old current slot, of the old previous slot, or the new one.\<close>

theorem publish_crash_safe:
  assumes "crashed (publish serialize art s) s t"
    and "load ld (device_view t) = Inr x"
  shows "load_slot ld (device_view s Current) = Inr x \<or> load_slot ld (device_view s Previous) = Inr x \<or>
    (\<exists>manifest_bytes. serialize (fa_manifest art) = Some manifest_bytes \<and>
       load_slot ld (files_of (fa_fst_bytes art, manifest_bytes)) = Inr x)"
proof -
  have view: "device_view s Current = files_of p" if "pair s CurrentSlot = Some p" for p
    using that by (cases p) (simp add: pair_eq_Some device_view_def files_of_def read_file_def)
  have view': "device_view s Previous = files_of p" if "pair s PreviousSlot = Some p" for p
    using that by (cases p) (simp add: pair_eq_Some device_view_def files_of_def read_file_def)
  note pairs = publish_crashed_pairs [OF assms(1)]
  from load_InrD [OF assms(2)] obtain d where d: "load_slot ld (device_view t d) = Inr x" by blast
  from load_slot_pair [OF d] obtain p where
    p: "pair t (case d of Current \<Rightarrow> CurrentSlot | Previous \<Rightarrow> PreviousSlot) = Some p" "device_view t d = files_of p"
    by blast
  have "pair s CurrentSlot = Some p \<or> pair s PreviousSlot = Some p \<or>
      map_option (Pair (fa_fst_bytes art)) (serialize (fa_manifest art)) = Some p"
  proof -
    have "pair t CurrentSlot = Some p \<or> pair t PreviousSlot = Some p" using p(1) by (cases d) simp_all
    with pairs show ?thesis by (metis (no_types, lifting) insert_iff option.distinct(1) empty_iff)
  qed
  then consider "pair s CurrentSlot = Some p" | "pair s PreviousSlot = Some p"
    | mb where "serialize (fa_manifest art) = Some mb" "p = (fa_fst_bytes art, mb)" by auto
  then show ?thesis
  proof cases
    case 1 from d p(2) view [OF 1] show ?thesis by simp
  next
    case 2 from d p(2) view' [OF 2] show ?thesis by simp
  next
    case 3 from d p(2) 3 show ?thesis by auto
  qed
qed

section \<open>Publishing and loading back\<close>

lemma write_done:
  "fs_files (exec_ops (write_ops a (Some mb)) s) (CurrentSlot, ArtifactFile) = Some a"
  "fs_files (exec_ops (write_ops a (Some mb)) s) (CurrentSlot, ManifestFile) = Some mb"
  "pair (exec_ops (write_ops a (Some mb)) s) PreviousSlot = pair s PreviousSlot"
  by (simp_all add: write_ops_def pair_def cong: option.case_cong)

lemma sorted_remdups_adj_sort:
  "sorted (remdups_adj (sort xs)) \<and> distinct (remdups_adj (sort xs)) \<and> set (remdups_adj (sort xs)) = set xs"
  for xs :: "'a :: linorder list"
proof -
  have "sorted (sort xs)" by simp
  then show ?thesis by (simp add: sorted_remdups_adj distinct_remdups_adj)
qed

text \<open>C27: after a complete publication the old current build is the fallback and the next run reads the
  new one back: its manifest, and as its key set exactly the domains the artifact was built from.\<close>

theorem publish_then_load:
  assumes "build fst_encode (ld_sha256 ld) (ld_serialize ld) ed_sign entries lic sources version time sks = Some (Inr art)"
    and "length entries < 2 ^ 32"
    and "\<And>kvs b. sorted_wrt (<) (map fst kvs) \<Longrightarrow> fst_encode kvs = Some b \<Longrightarrow> fst_keys b = Some (map fst kvs)"
    and "ld_serialize ld (fa_manifest art) = Some mb" and "ld_deserialize ld mb = Some (fa_manifest art)"
    and "verify_manifest (ld_serialize ld) (ld_verify ld) (fa_manifest art) (ld_trusted ld) = Inr True"
    and "pair s CurrentSlot = Some old"
  shows "pair (exec_ops (publish (ld_serialize ld) art s) s) PreviousSlot = Some old \<and>
    load_previous ld fst_keys (exec_ops (publish (ld_serialize ld) art s) s) =
      Inr (Existing_build (fa_manifest art) (sorted_list_of_set (me_domain ` set entries)))"
proof
  let ?t = "exec_ops (publish (ld_serialize ld) art s) s"
  let ?r = "exec_ops (rotate_current_into_previous s) s"
  have t: "?t = exec_ops (write_ops (fa_fst_bytes art) (Some mb)) ?r" by (simp add: publish_ops assms(4))
  show "pair ?t PreviousSlot = Some old"
    using assms(7) rotate_done(3) [of s] by (cases old) (auto simp: t write_done pair_eq_Some)
  from assms(1) obtain table keyed where
    ap: "assign_provenance entries = Some (table, keyed)" and
    enc: "fst_encode (map (\<lambda>(key, uid). (key, ucast uid)) keyed) = Some (fa_fst_bytes art)" by (rule build_InrD)
  from assign_provenance_correct [OF assms(2)] ap
  have inv: "bt_inv keyed" and get: "\<And>d. case last_entry entries d of
        None \<Rightarrow> bt_get keyed (reverse_key d) = None
      | Some e \<Rightarrow> \<exists>uid. bt_get keyed (reverse_key d) = Some uid \<and> unat uid < length table \<and>
          table ! unat uid = combo_of e" by auto
  have keys: "map fst (map (\<lambda>(key, uid). (key, ucast uid :: u64)) keyed) = map fst keyed"
    by (simp add: comp_def split_beta)
  have ks: "fst_keys (fa_fst_bytes art) = Some (map fst keyed)"
    using assms(3) [OF _ enc] inv unfolding keys bt_inv_def by blast
  have dom_get: "k \<in> set (map fst keyed) \<longleftrightarrow> bt_get keyed k \<noteq> None" for k
    by (simp add: bt_get_def map_of_eq_None_iff)
  have "reverse_key ` set (map fst keyed) = me_domain ` set entries"
  proof (intro set_eqI)
    fix d
    have "d \<in> reverse_key ` set (map fst keyed) \<longleftrightarrow> reverse_key d \<in> set (map fst keyed)"
      by (metis (no_types, lifting) image_iff reverse_key_reverse_key)
    also have "\<dots> \<longleftrightarrow> last_entry entries d \<noteq> None"
      unfolding dom_get using get [of d] by (cases "last_entry entries d") auto
    also have "\<dots> \<longleftrightarrow> d \<in> me_domain ` set entries"
      by (force simp: last_entry_def map_of_eq_None_iff image_image)
    finally show "d \<in> reverse_key ` set (map fst keyed) \<longleftrightarrow> d \<in> me_domain ` set entries" .
  qed
  then have "remdups_adj (sort (map reverse_key (map fst keyed))) = sorted_list_of_set (me_domain ` set entries)"
    using sorted_remdups_adj_sort [of "map reverse_key (map fst keyed)"]
    by (intro sorted_distinct_set_unique) (simp_all add: image_image)
  moreover have "ld_sha256 ld (fa_fst_bytes art) = mf_fst_digest (fa_manifest art)"
    by (rule build_InrD [OF assms(1)]) simp
  ultimately show "load_previous ld fst_keys ?t =
      Inr (Existing_build (fa_manifest art) (sorted_list_of_set (me_domain ` set entries)))"
    by (simp add: load_previous_def t write_done assms(5,6) ks)
qed

section \<open>A gap in the recovery\<close>

text \<open>An interruption between the two file moves leaves the current slot with its manifest only.  The next
  run then refuses to start: the loader takes the lone manifest for a damaged previous build, although
  \<open>rotate_file\<close> means to tolerate exactly this leftover; and if the publication were run
  again from there, it would replace a complete fallback by the lone manifest.\<close>

theorem interrupted_rotation_blocks_next_run:
  assumes "pair s CurrentSlot = Some cur"
  shows "\<exists>t. crashed (publish serialize art s) s t \<and> load_previous ld fst_keys t = Inl Unreadable \<and>
    pair t PreviousSlot = pair s PreviousSlot \<and> pair (exec_ops (publish serialize art t) t) PreviousSlot = None"
proof -
  obtain a m where c: "fs_files s (CurrentSlot, ArtifactFile) = Some a" "fs_files s (CurrentSlot, ManifestFile) = Some m"
    using assms by (cases cur) (auto simp: pair_eq_Some)
  let ?ops = "[RemoveAll PreviousTmpSlot, CreateDir PreviousTmpSlot,
      RenameFile (CurrentSlot, ArtifactFile) (PreviousTmpSlot, ArtifactFile)]"
  let ?t = "exec_ops ?ops s"
  have "crashed (publish serialize art s) s ?t"
    using c crashed_exec [of ?ops s]
    by (auto simp: publish_ops rotate_ops fill_ops_def crashed_simps)
  moreover have "load_previous ld fst_keys ?t = Inl Unreadable" using c by (simp add: load_previous_def)
  moreover have "pair ?t PreviousSlot = pair s PreviousSlot" by (simp add: pair_def cong: option.case_cong)
  moreover have "pair (exec_ops (publish serialize art ?t) ?t) PreviousSlot = None"
  proof -
    have "pair (exec_ops (rotate_current_into_previous ?t) ?t) PreviousSlot = None"
      using c rotate_done(3) [of ?t] by (simp add: pair_def)
    moreover have "pair (exec_ops (write_ops x y) r) PreviousSlot = pair r PreviousSlot" for x y r
      by (cases y) (simp_all add: write_ops_def pair_def cong: option.case_cong)
    ultimately show ?thesis by (simp add: publish_ops)
  qed
  ultimately show ?thesis by blast
qed

section \<open>Concrete stores\<close>

definition toy_store :: file_system where
  "toy_store = \<lparr>fs_dirs = {CurrentSlot}, fs_files =
     [(CurrentSlot, ArtifactFile) \<mapsto> [1], (CurrentSlot, ManifestFile) \<mapsto> [2]]\<rparr>"

definition toy_loader :: "manifest \<Rightarrow> unit loader" where
  "toy_loader mf = \<lparr>ld_deserialize = (\<lambda>b. Some mf), ld_serialize = toy_serialize, ld_verify = (\<lambda>vk m sig. True),
     ld_sha256 = (\<lambda>b. b), ld_fst_open = one_key_open, ld_trusted = [(''k'', ())]\<rparr>"

text \<open>The artifact of \<open>toy_entries\<close> and its manifest, which the loader above accepts.\<close>

lemma toy_verified:
  obtains art where
    "build one_key_encode (\<lambda>b. b) toy_serialize (\<lambda>k b. k # b) toy_entries (LicenseId ''MIT'') [] 3 0
      [(''k'', 5 :: u8)] = Some (Inr art)"
    "verify_manifest toy_serialize (\<lambda>vk m sig. True) (fa_manifest art) [(''k'', ())] = Inr True"
    "mf_fst_digest (fa_manifest art) = [1]" "fa_fst_bytes art = [1]"
proof -
  from toy_artifact obtain art where
    art: "build one_key_encode (\<lambda>b. b) toy_serialize (\<lambda>k b. k # b) toy_entries (LicenseId ''MIT'') [] 3 0
      [(''k'', 5 :: u8)] = Some (Inr art)" and o: "one_key_open (fa_fst_bytes art) = Some (map_of [(''b.a'', 0)])"
    by blast
  from o have b: "fa_fst_bytes art = [1]" by (simp add: one_key_open_def split: if_splits)
  from art obtain signable where sigs: "mf_signatures (fa_manifest art) = sign_all (\<lambda>k b. k # b) signable [(''k'', 5 :: u8)]"
    and d: "mf_fst_digest (fa_manifest art) = fa_fst_bytes art" by (rule build_InrD)
  have "verify_manifest toy_serialize (\<lambda>vk m sig. True) (fa_manifest art) [(''k'', ())] = Inr True"
    by (simp add: verify_manifest_def signable_bytes_def sigs sign_all_def)
  with that art b d show thesis by simp
qed

theorem publish_crash_safe_witness:
  "\<exists>mf x. load (toy_loader mf) (device_view toy_store) = Inr x \<and>
     (load_slot (toy_loader mf) (device_view toy_store Current) = Inr x \<or>
      load_slot (toy_loader mf) (device_view toy_store Previous) = Inr x \<or>
      load_slot (toy_loader mf) (files_of ([1], [3])) = Inr x)"
proof -
  obtain art where b: "build one_key_encode (\<lambda>b. b) toy_serialize (\<lambda>k b. k # b) toy_entries (LicenseId ''MIT'') [] 3 0
      [(''k'', 5 :: u8)] = Some (Inr art)"
    and art: "verify_manifest toy_serialize (\<lambda>vk m sig. True) (fa_manifest art) [(''k'', ())] = Inr True"
    "mf_fst_digest (fa_manifest art) = [1]" "fa_fst_bytes art = [1]" by (rule toy_verified)
  let ?ld = "toy_loader (fa_manifest art)"
  have "load_slot ?ld (device_view toy_store Current) \<noteq> Inl e" for e
    using art by (simp add: toy_loader_def toy_store_def device_view_def read_file_def load_slot_def one_key_open_def)
  then obtain x where "load_slot ?ld (device_view toy_store Current) = Inr x"
    by (cases "load_slot ?ld (device_view toy_store Current)") auto
  then have x: "load ?ld (device_view toy_store) = Inr x" by (simp add: load_def)
  let ?s = "\<lambda>mf. Some [3] :: bytes option"
  from publish_crash_safe [OF crashed.stop x, of ?s art] x art(3) show ?thesis by auto
qed

theorem publish_then_load_witness:
  "\<exists>mf t. pair t PreviousSlot = Some ([1], [2]) \<and>
     load_previous (toy_loader mf) (\<lambda>b. Some [''b.a'']) t = Inr (Existing_build mf [''a.b''])"
proof -
  obtain art where art:
    "build one_key_encode (\<lambda>b. b) toy_serialize (\<lambda>k b. k # b) toy_entries (LicenseId ''MIT'') [] 3 0
      [(''k'', 5 :: u8)] = Some (Inr art)"
    "verify_manifest toy_serialize (\<lambda>vk m sig. True) (fa_manifest art) [(''k'', ())] = Inr True"
    "mf_fst_digest (fa_manifest art) = [1]" "fa_fst_bytes art = [1]" by (rule toy_verified)
  let ?ld = "toy_loader (fa_manifest art)" and ?mb = "[ucast (mf_version (fa_manifest art))] :: bytes"
  let ?t = "exec_ops (publish (ld_serialize ?ld) art toy_store) toy_store"
  have b: "build one_key_encode (ld_sha256 ?ld) (ld_serialize ?ld) (\<lambda>k b. k # b) toy_entries (LicenseId ''MIT'') [] 3 0
      [(''k'', 5 :: u8)] = Some (Inr art)" using art(1) by (simp add: toy_loader_def)
  have n: "length toy_entries < 2 ^ 32" by (simp add: toy_entries_def)
  have keys: "Some [''b.a''] = Some (map fst kvs)" if "one_key_encode kvs = Some b" for kvs b
    using that by (simp add: one_key_encode_def split: if_splits)
  have s: "ld_serialize ?ld (fa_manifest art) = Some ?mb" "ld_deserialize ?ld ?mb = Some (fa_manifest art)"
    "verify_manifest (ld_serialize ?ld) (ld_verify ?ld) (fa_manifest art) (ld_trusted ?ld) = Inr True"
    using art(2) by (simp_all add: toy_loader_def)
  have p: "pair toy_store CurrentSlot = Some ([1], [2])" by (simp add: pair_def toy_store_def)
  have "sorted_list_of_set (me_domain ` set toy_entries) = [''a.b'']" by (simp add: toy_entries_def)
  with publish_then_load [OF b n keys s p] show ?thesis
    by (intro exI [of _ "fa_manifest art"] exI [of _ ?t]) simp
qed

end
