(* ===== verification/Ieee_Float.thy ===== *)
theory Ieee_Float
  imports Complex_Main "HOL-Library.Log_Nat" Prelude
begin

text \<open>
  Rust's \<open>f64\<close> and \<open>f32\<close> as far as the components use them: values are infinities, \<open>NaN\<close>
  or rationals, an arithmetic result is the exact rational rounded to the precision
  (53 or 24 bits) with ties to even. Overflow and subnormals do not occur in the ranges the
  components compute in (counts and products of fractions), so the exponent is unbounded.
\<close>

datatype fp = Fin rat | NaN | PInf | NInf

definition pow2 :: "int \<Rightarrow> rat" where
  "pow2 e = (if 0 \<le> e then 2 ^ nat e else 1 / 2 ^ nat (- e))"

definition ilog2 :: "rat \<Rightarrow> int" where
  "ilog2 q =
     (let (n, d) = quotient_of q; t = bitlen n - bitlen d
      in if pow2 t \<le> q then t else t - 1)"

definition round_half_even :: "rat \<Rightarrow> int" where
  "round_half_even x =
     (let f = \<lfloor>x\<rfloor>; r = x - of_int f
      in if r < 1 / 2 then f else if 1 / 2 < r then f + 1 else if even f then f else f + 1)"

definition rnd_pos :: "nat \<Rightarrow> rat \<Rightarrow> rat" where
  "rnd_pos p q = (let e = ilog2 q - int p + 1 in of_int (round_half_even (q / pow2 e)) * pow2 e)"

definition rnd :: "nat \<Rightarrow> rat \<Rightarrow> rat" where
  "rnd p q = (if q = 0 then 0 else if q < 0 then - rnd_pos p (- q) else rnd_pos p q)"

definition fp_of_nat :: "nat \<Rightarrow> nat \<Rightarrow> fp" where
  "fp_of_nat p n = Fin (rnd p (of_nat n))"

fun fp_div :: "nat \<Rightarrow> fp \<Rightarrow> fp \<Rightarrow> fp" where
  "fp_div p (Fin a) (Fin b) =
     (if b = 0 then (if a = 0 then NaN else if 0 < a then PInf else NInf) else Fin (rnd p (a / b)))"
| "fp_div p (Fin a) PInf = Fin 0"
| "fp_div p (Fin a) NInf = Fin 0"
| "fp_div p PInf (Fin b) = (if b < 0 then NInf else PInf)"
| "fp_div p NInf (Fin b) = (if b < 0 then PInf else NInf)"
| "fp_div p _ _ = NaN"

fun fp_less :: "fp \<Rightarrow> fp \<Rightarrow> bool" where
  "fp_less (Fin a) (Fin b) \<longleftrightarrow> a < b"
| "fp_less (Fin a) PInf \<longleftrightarrow> True"
| "fp_less NInf (Fin b) \<longleftrightarrow> True"
| "fp_less NInf PInf \<longleftrightarrow> True"
| "fp_less _ _ \<longleftrightarrow> False"

fun fp_le :: "fp \<Rightarrow> fp \<Rightarrow> bool" where
  "fp_le (Fin a) (Fin b) \<longleftrightarrow> a \<le> b"
| "fp_le NaN _ \<longleftrightarrow> False"
| "fp_le _ NaN \<longleftrightarrow> False"
| "fp_le NInf _ \<longleftrightarrow> True"
| "fp_le _ PInf \<longleftrightarrow> True"
| "fp_le _ _ \<longleftrightarrow> False"

fun fp_is_finite :: "fp \<Rightarrow> bool" where
  "fp_is_finite (Fin _) \<longleftrightarrow> True"
| "fp_is_finite _ \<longleftrightarrow> False"

section \<open>Powers of two and the binary logarithm\<close>

lemma pow2_powi: "pow2 e = 2 powi e"
  by (auto simp: pow2_def power_int_def field_simps)

lemma pow2_pos [simp]: "0 < pow2 e"
  by (simp add: pow2_def)

lemma pow2_add: "pow2 (a + b) = pow2 a * pow2 b"
  by (simp add: pow2_powi power_int_add)

lemma pow2_mono: "a \<le> b \<Longrightarrow> pow2 a \<le> pow2 b"
  by (simp add: pow2_powi power_int_increasing)

lemma ilog2_bounds:
  assumes "0 < q"
  shows "pow2 (ilog2 q) \<le> q \<and> q < pow2 (ilog2 q + 1)"
proof -
  obtain n d where nd: "quotient_of q = (n, d)" by (cases "quotient_of q")
  have d: "0 < d" by (rule quotient_of_denom_pos [OF nd])
  have q: "q = of_int n / of_int d" by (rule quotient_of_div [OF nd])
  have n: "0 < n" using assms d by (simp add: q zero_less_divide_iff)
  have nat_pow: "(2 :: rat) ^ nat (bitlen x - 1) = pow2 (bitlen x - 1) \<and> 2 ^ nat (bitlen x) = pow2 (bitlen x)"
    if "0 < x" for x
  proof -
    have "0 < bitlen x" using that bitlen_eq_zero_iff [of x] bitlen_nonneg [of x] by linarith
    then show ?thesis by (simp add: pow2_def)
  qed
  have b: "pow2 (bitlen x - 1) \<le> of_int x \<and> (of_int x :: rat) < pow2 (bitlen x)" if "0 < x" for x
  proof -
    from bitlen_bounds [OF that]
    have "(of_int (2 ^ nat (bitlen x - 1)) :: rat) \<le> of_int x" "(of_int x :: rat) < of_int (2 ^ nat (bitlen x))"
      by (simp_all only: of_int_le_iff of_int_less_iff)
    with nat_pow [OF that] show ?thesis by simp
  qed
  let ?t = "bitlen n - bitlen d"
  have "q < pow2 (?t + 1)"
  proof -
    have "q < pow2 (bitlen n) / pow2 (bitlen d - 1)"
      unfolding q using b [OF n] b [OF d] n by (intro frac_less) auto
    also have "\<dots> = pow2 (?t + 1)" by (simp add: pow2_powi power_int_diff power_int_add)
    finally show ?thesis .
  qed
  moreover have "pow2 (?t - 1) \<le> q"
  proof -
    have "pow2 (?t - 1) = pow2 (bitlen n - 1) / pow2 (bitlen d)" by (simp add: pow2_powi power_int_diff power_int_add)
    also have "\<dots> \<le> q" unfolding q using b [OF n] b [OF d] d n by (intro frac_le) auto
    finally show ?thesis .
  qed
  ultimately show ?thesis by (auto simp: ilog2_def nd Let_def)
qed

lemma ilog2_mono: "0 < x \<Longrightarrow> x \<le> y \<Longrightarrow> ilog2 x \<le> ilog2 y"
proof (rule ccontr)
  assume x: "0 < x" "x \<le> y" and "\<not> ilog2 x \<le> ilog2 y"
  then have "pow2 (ilog2 y + 1) \<le> pow2 (ilog2 x)" by (intro pow2_mono) simp
  with ilog2_bounds [of x] ilog2_bounds [of y] x show False by linarith
qed

section \<open>Rounding\<close>

lemma round_half_even_ge: "of_int n \<le> x \<Longrightarrow> n \<le> round_half_even x"
proof -
  assume "of_int n \<le> x"
  then have "n \<le> \<lfloor>x\<rfloor>" by (simp add: le_floor_iff)
  then show ?thesis by (simp add: round_half_even_def Let_def)
qed

lemma round_half_even_le: "x \<le> of_int n \<Longrightarrow> round_half_even x \<le> n"
proof (cases "x = of_int \<lfloor>x\<rfloor>")
  case True
  assume h: "x \<le> of_int n"
  from True have "round_half_even x = \<lfloor>x\<rfloor>" by (simp add: round_half_even_def Let_def)
  with h True show ?thesis by (metis of_int_le_iff)
next
  case False
  assume h: "x \<le> of_int n"
  have "of_int \<lfloor>x\<rfloor> < x" using False of_int_floor_le [of x] by (metis less_le)
  with h have "\<lfloor>x\<rfloor> < n" by (metis less_le_trans of_int_less_iff)
  then show ?thesis by (simp add: round_half_even_def Let_def)
qed

lemma round_half_even_of_int [simp]: "round_half_even (of_int n) = n"
  by (simp add: round_half_even_def)

lemma round_half_even_mono: "x \<le> y \<Longrightarrow> round_half_even x \<le> round_half_even y"
proof (cases "\<lfloor>x\<rfloor> = \<lfloor>y\<rfloor>")
  case True
  assume "x \<le> y"
  with True show ?thesis by (simp add: round_half_even_def Let_def)
next
  case False
  assume "x \<le> y"
  then have "\<lfloor>x\<rfloor> + 1 \<le> \<lfloor>y\<rfloor>" using False floor_mono [of x y] by linarith
  moreover have "round_half_even x \<le> \<lfloor>x\<rfloor> + 1" by (simp add: round_half_even_def Let_def)
  moreover have "\<lfloor>y\<rfloor> \<le> round_half_even y" by (simp add: round_half_even_def Let_def)
  ultimately show ?thesis by linarith
qed

lemma rnd_pos_bounds:
  assumes "0 < q" and "0 < p"
  shows "pow2 (ilog2 q) \<le> rnd_pos p q \<and> rnd_pos p q \<le> pow2 (ilog2 q + 1)"
proof -
  let ?e = "ilog2 q - int p + 1"
  have e: "pow2 (ilog2 q) = of_int (2 ^ (p - 1)) * pow2 ?e" "pow2 (ilog2 q + 1) = of_int (2 ^ p) * pow2 ?e"
  proof -
    have "(of_int (2 ^ (p - 1)) :: rat) = pow2 (int p - 1)" "(of_int (2 ^ p) :: rat) = pow2 (int p)"
      using assms(2) by (auto simp: pow2_def nat_diff_distrib)
    then show "pow2 (ilog2 q) = of_int (2 ^ (p - 1)) * pow2 ?e" "pow2 (ilog2 q + 1) = of_int (2 ^ p) * pow2 ?e"
      by (simp_all only: pow2_add [symmetric]) simp_all
  qed
  have "of_int (2 ^ (p - 1)) \<le> q / pow2 ?e" "q / pow2 ?e \<le> of_int (2 ^ p)"
    using ilog2_bounds [OF assms(1)] by (simp_all only: e pos_le_divide_eq [OF pow2_pos] pos_divide_le_eq [OF pow2_pos]) simp_all
  then have "2 ^ (p - 1) \<le> round_half_even (q / pow2 ?e)" "round_half_even (q / pow2 ?e) \<le> 2 ^ p"
    by (simp_all only: round_half_even_ge round_half_even_le)
  then have "(of_int (2 ^ (p - 1)) :: rat) \<le> of_int (round_half_even (q / pow2 ?e))"
    "(of_int (round_half_even (q / pow2 ?e)) :: rat) \<le> of_int (2 ^ p)"
    by (simp_all only: of_int_le_iff)
  then show ?thesis
    by (simp add: rnd_pos_def Let_def e mult_right_mono less_imp_le)
qed

lemma rnd_pos_mono:
  assumes "0 < x" and "x \<le> y" and "0 < p"
  shows "rnd_pos p x \<le> rnd_pos p y"
proof (cases "ilog2 x = ilog2 y")
  case True
  have "x / pow2 e \<le> y / pow2 e" for e using assms(2) by (simp add: divide_right_mono less_imp_le)
  then have "round_half_even (x / pow2 e) \<le> round_half_even (y / pow2 e)" for e
    by (rule round_half_even_mono)
  then show ?thesis by (simp add: rnd_pos_def Let_def True mult_right_mono less_imp_le)
next
  case False
  then have "ilog2 x + 1 \<le> ilog2 y" using ilog2_mono [OF assms(1,2)] by linarith
  then have "pow2 (ilog2 x + 1) \<le> pow2 (ilog2 y)" by (rule pow2_mono)
  with rnd_pos_bounds [OF assms(1,3)] rnd_pos_bounds [of y p] assms show ?thesis by linarith
qed

lemma rnd_mono: "0 \<le> x \<Longrightarrow> x \<le> y \<Longrightarrow> 0 < p \<Longrightarrow> rnd p x \<le> rnd p y"
proof (cases "x = 0")
  case True
  assume "x \<le> y" "0 < p"
  show ?thesis
  proof (cases "y = 0")
    case False
    with \<open>x \<le> y\<close> True have y: "0 < y" by simp
    have "0 < pow2 (ilog2 y)" by simp
    also have "\<dots> \<le> rnd_pos p y" using rnd_pos_bounds [OF y \<open>0 < p\<close>] by blast
    finally show ?thesis using y True by (simp add: rnd_def)
  qed (simp add: True)
next
  case False
  assume "0 \<le> x" "x \<le> y" "0 < p"
  with False rnd_pos_mono [of x y p] show ?thesis by (simp add: rnd_def)
qed

lemma rnd_0 [simp]: "rnd p 0 = 0"
  by (simp add: rnd_def)

lemma rnd_nonneg: "0 \<le> q \<Longrightarrow> 0 < p \<Longrightarrow> 0 \<le> rnd p q"
  using rnd_mono [of 0 q p] by simp

text \<open>Numbers with at most \<open>p\<close> significant bits are represented exactly.\<close>

lemma rnd_exact:
  assumes "0 \<le> m" and "m < 2 ^ p" and q: "q = of_int m * pow2 e"
  shows "rnd p q = q"
proof (cases "m = 0")
  case False
  with assms have qp: "0 < q" by simp
  let ?f = "ilog2 q - int p + 1"
  have "q < pow2 (int p) * pow2 e"
  proof -
    have "(of_int m :: rat) < of_int (2 ^ p)" using assms(2) by (simp only: of_int_less_iff)
    also have "(of_int (2 ^ p) :: rat) = pow2 (int p)" by (simp add: pow2_def)
    finally show ?thesis unfolding q by (rule mult_strict_right_mono) simp
  qed
  then have "pow2 (ilog2 q) < pow2 (int p + e)"
    using ilog2_bounds [OF qp] by (simp add: pow2_add)
  then have "ilog2 q < int p + e" using pow2_mono [of "int p + e" "ilog2 q"] by linarith
  then have fe: "?f \<le> e" by simp
  have "q / pow2 ?f = of_int m * pow2 (e - ?f)"
    by (simp add: q pow2_powi power_int_diff)
  also have "\<dots> = of_int (m * 2 ^ nat (e - ?f))" using fe by (simp add: pow2_def)
  finally have i: "q / pow2 ?f = of_int (m * 2 ^ nat (e - ?f))" .
  have "rnd_pos p q = of_int (m * 2 ^ nat (e - ?f)) * pow2 ?f"
    by (simp only: rnd_pos_def Let_def i round_half_even_of_int)
  also have "\<dots> = q" using pow2_pos [of ?f] by (simp only: i [symmetric]) (simp add: less_imp_neq [symmetric])
  finally show ?thesis using qp by (simp add: rnd_def)
qed (simp add: q)

lemma rnd_of_nat: "n < 2 ^ p \<Longrightarrow> rnd p (of_nat n) = of_nat n"
  using rnd_exact [of "int n" p "of_nat n" 0] by (simp add: pow2_def)

text \<open>One rounding to \<open>p\<close> digits is off by at most half a unit in the last place, a fraction of
  \<open>2 ^ - p\<close> of the number.\<close>

lemma round_half_even_near: "x - 1 / 2 \<le> of_int (round_half_even x)" "of_int (round_half_even x) \<le> x + 1 / 2"
  by (auto simp: round_half_even_def Let_def) linarith+

lemma rnd_near:
  assumes "0 < q" and "0 < p"
  shows "q * (1 - pow2 (- int p)) \<le> rnd p q \<and> rnd p q \<le> q * (1 + pow2 (- int p))"
proof -
  let ?u = "pow2 (ilog2 q - int p + 1)"
  have u: "0 < ?u" by simp
  have "pow2 (ilog2 q - int p + 1) = 2 * (pow2 (ilog2 q) * pow2 (- int p))"
    by (simp add: pow2_powi power_int_add power_int_diff power_int_minus field_simps)
  moreover have "pow2 (ilog2 q) * pow2 (- int p) \<le> q * pow2 (- int p)"
    using ilog2_bounds [OF assms(1)] by (simp add: mult_right_mono less_imp_le)
  ultimately have ule: "?u / 2 \<le> q * pow2 (- int p)" by simp
  have "of_int (round_half_even (q / ?u)) * ?u \<le> (q / ?u + 1 / 2) * ?u"
    "(q / ?u - 1 / 2) * ?u \<le> of_int (round_half_even (q / ?u)) * ?u"
    using round_half_even_near u by (simp_all only: mult_right_mono less_imp_le)
  moreover have "q / ?u * ?u = q" using u by (simp add: less_imp_neq [symmetric])
  ultimately have "rnd p q \<le> q + ?u / 2" "q - ?u / 2 \<le> rnd p q"
    using assms by (simp_all add: rnd_def rnd_pos_def Let_def algebra_simps)
  with ule show ?thesis by (simp add: algebra_simps)
qed

end
