(* ===== verification/Gates.thy ===== *)
theory Gates
  imports Merge Ieee_Float
begin

text \<open>
  \<open>packages/domain-blocklist/src/gates.rs\<close>: the publish gates. A \<open>Fail\<close> carries the reason
  and the evidence as data (the source formats them into a message). Thresholds and rates
  are \<open>f64\<close>: the quotient of two counts is rounded to 53 bits before it is compared, and a
  comparison with \<open>NaN\<close> is false.
\<close>

datatype fail_reason =
  BadThreshold fp
| BelowFloor u64 u64
| Dropped u64 u64 fp
| Grown nat nat fp
| ControlTooSmall nat nat
| TooManyFalsePositives fp nat nat "string list"
| TooLarge u64 u64
| DuplicateSnapshots "source_id list"
| MissingSnapshots "source_id list"
| DisallowedLicenses "(source_id \<times> license_id) list"

datatype gate_result = Pass | Fail fail_reason

definition is_pass :: "gate_result \<Rightarrow> bool" where
  "is_pass r \<longleftrightarrow> r = Pass"

definition valid_fraction :: "fp \<Rightarrow> bool" where
  "valid_fraction v \<longleftrightarrow> fp_is_finite v \<and> fp_le (Fin 0) v \<and> fp_le v (Fin 1)"

definition f64_ratio :: "nat \<Rightarrow> nat \<Rightarrow> fp" where
  "f64_ratio a b = fp_div 53 (fp_of_nat 53 a) (fp_of_nat 53 b)"

datatype 'a previous_build = NoPrevious | Existing 'a

definition shrinkage_gate :: "u64 previous_build \<Rightarrow> u64 \<Rightarrow> fp \<Rightarrow> u64 \<Rightarrow> gate_result" where
  "shrinkage_gate prev new_count max_drop_pct absolute_floor =
     (if \<not> valid_fraction max_drop_pct then Fail (BadThreshold max_drop_pct)
      else if new_count < absolute_floor then Fail (BelowFloor new_count absolute_floor)
      else case prev of
             NoPrevious \<Rightarrow> Pass
           | Existing prev_count \<Rightarrow>
               if prev_count = 0 \<or> prev_count \<le> new_count then Pass
               else
                 (let dropped = prev_count - new_count;
                      drop_pct = f64_ratio (unat dropped) (unat prev_count)
                  in if fp_less max_drop_pct drop_pct then Fail (Dropped dropped prev_count drop_pct)
                     else Pass))"

text \<open>The key sets are \<open>BTreeSet\<close>s: sorted lists without repetition.\<close>

definition growth_gate :: "string list previous_build \<Rightarrow> string list \<Rightarrow> fp \<Rightarrow> gate_result" where
  "growth_gate prev new_keys max_add_pct =
     (if \<not> valid_fraction max_add_pct then Fail (BadThreshold max_add_pct)
      else case prev of
             NoPrevious \<Rightarrow> Pass
           | Existing prev_keys \<Rightarrow>
               if prev_keys = [] then Pass
               else
                 (let added = length (filter (\<lambda>k. k \<notin> set prev_keys) new_keys);
                      add_pct = f64_ratio added (length prev_keys)
                  in if fp_less max_add_pct add_pct then Fail (Grown added (length prev_keys) add_pct)
                     else Pass))"

record false_positive_hit =
  fh_domain :: string
  fh_scope :: rule_scope
  fh_sources :: "source_id list"

definition is_corroborated :: "false_positive_hit \<Rightarrow> bool" where
  "is_corroborated hit \<longleftrightarrow> 2 \<le> length (fh_sources hit)"

definition normalized_keys :: "to_ascii \<Rightarrow> string list \<Rightarrow> string list" where
  "normalized_keys to_ascii raws =
     List.map_filter (\<lambda>raw. case normalize to_ascii raw of Inr n \<Rightarrow> Some n | Inl _ \<Rightarrow> None) raws"

text \<open>\<open>HashMap::from_iter\<close> keeps the last entry of a key.\<close>

definition false_positive_hits ::
  "to_ascii \<Rightarrow> merged_entry list \<Rightarrow> string list \<Rightarrow> false_positive_hit list" where
  "false_positive_hits to_ascii merged control_set =
     (let by_domain = map_of (rev (map (\<lambda>e. (me_domain e, e)) merged))
      in List.map_filter
           (\<lambda>domain. map_option (\<lambda>entry. \<lparr>fh_domain = domain, fh_scope = me_scope entry,
              fh_sources = me_sources entry\<rparr>) (by_domain domain))
           (normalized_keys to_ascii control_set))"

definition review_queue ::
  "to_ascii \<Rightarrow> merged_entry list \<Rightarrow> string list \<Rightarrow> string list \<Rightarrow> false_positive_hit list" where
  "review_queue to_ascii merged control_set exclusions =
     (let excluded = set (normalized_keys to_ascii exclusions)
      in filter (\<lambda>hit. \<not> is_corroborated hit \<and> fh_domain hit \<notin> excluded)
           (false_positive_hits to_ascii merged control_set))"

definition MAX_NAMED_HITS :: nat where "MAX_NAMED_HITS = 20"

definition false_positive_gate ::
  "to_ascii \<Rightarrow> merged_entry list \<Rightarrow> string list \<Rightarrow> string list \<Rightarrow> fp \<Rightarrow> nat \<Rightarrow> gate_result" where
  "false_positive_gate to_ascii merged control_set exclusions max_fp_rate min_control_size =
     (if \<not> valid_fraction max_fp_rate then Fail (BadThreshold max_fp_rate)
      else
        let checked = length (normalized_keys to_ascii control_set)
        in if checked < min_control_size then Fail (ControlTooSmall checked min_control_size)
           else
             let flagged = review_queue to_ascii merged control_set exclusions;
                 fp_rate = f64_ratio (length flagged) checked
             in if fp_less max_fp_rate fp_rate
                then Fail (TooManyFalsePositives fp_rate (length flagged) checked
                       (map fh_domain (take MAX_NAMED_HITS flagged)))
                else Pass)"

definition size_gate :: "u64 \<Rightarrow> u64 \<Rightarrow> gate_result" where
  "size_gate artifact_bytes limit =
     (if limit < artifact_bytes then Fail (TooLarge artifact_bytes limit) else Pass)"

text \<open>The first loop of \<open>license_gate\<close>: sources seen, and those seen before.\<close>

fun seen_and_duplicated ::
  "source_snapshot list \<Rightarrow> source_id list \<Rightarrow> source_id list \<Rightarrow> source_id list \<times> source_id list" where
  "seen_and_duplicated [] seen dup = (seen, dup)"
| "seen_and_duplicated (s # ss) seen dup =
     (if ss_source s \<in> set seen then seen_and_duplicated ss seen (dup @ [ss_source s])
      else seen_and_duplicated ss (seen @ [ss_source s]) dup)"

definition license_gate ::
  "merged_entry list \<Rightarrow> source_snapshot list \<Rightarrow> license_id list \<Rightarrow> gate_result" where
  "license_gate merged snapshots allowlist =
     (let (seen_sources, duplicated) = seen_and_duplicated snapshots [] []
      in if duplicated \<noteq> [] then Fail (DuplicateSnapshots duplicated)
         else
           let contributing = sort (remdups (concat (map me_sources merged)));
               missing = filter (\<lambda>s. s \<notin> set seen_sources) contributing
           in if missing \<noteq> [] then Fail (MissingSnapshots missing)
              else
                let disallowed = filter (\<lambda>s. \<not> (\<exists>a \<in> set allowlist. spdx_matches a (ss_license s))) snapshots
                in if disallowed = [] then Pass
                   else Fail (DisallowedLicenses (map (\<lambda>s. (ss_source s, ss_license s)) disallowed)))"

section \<open>Ratios and thresholds\<close>

definition representable :: "rat \<Rightarrow> bool" where
  "representable m \<longleftrightarrow> rnd 53 m = m"

lemma f64_ratio_eq:
  assumes "a < 2 ^ 53" and "b < 2 ^ 53" and "0 < b"
  shows "f64_ratio a b = Fin (rnd 53 (of_nat a / of_nat b))"
  using assms by (simp add: f64_ratio_def fp_of_nat_def rnd_of_nat)

text \<open>A ratio at or under a representable threshold is not over it after rounding.\<close>

lemma ratio_within:
  assumes "a < 2 ^ 53" and "b < 2 ^ 53" and "0 < b" and "representable m"
    and "of_nat a \<le> m * of_nat b"
  shows "\<not> fp_less (Fin m) (f64_ratio a b)"
proof -
  have "of_nat a / of_nat b \<le> m" using assms(3,5) by (simp add: pos_divide_le_eq)
  then have "rnd 53 (of_nat a / of_nat b) \<le> rnd 53 m" by (intro rnd_mono) simp_all
  with assms(4) show ?thesis by (simp add: f64_ratio_eq [OF assms(1-3)] representable_def)
qed

lemma ratio_mono:
  assumes "a \<le> a'" and "a' < 2 ^ 53" and "b < 2 ^ 53" and "0 < b" and "\<not> fp_less m (f64_ratio a' b)"
  shows "\<not> fp_less m (f64_ratio a b)"
proof -
  have "(of_nat a :: rat) / of_nat b \<le> of_nat a' / of_nat b"
    using assms(1) by (simp add: divide_right_mono)
  then have "rnd 53 (of_nat a / of_nat b) \<le> rnd 53 (of_nat a' / of_nat b)" by (intro rnd_mono) simp_all
  with assms show ?thesis
    by (cases m) (auto simp: f64_ratio_eq)
qed

lemma shrinkage_gate_Pass_iff:
  "shrinkage_gate (Existing prev) n t absolute_floor = Pass \<longleftrightarrow>
     valid_fraction t \<and> absolute_floor \<le> n \<and>
     (prev \<le> n \<or> \<not> fp_less t (f64_ratio (unat prev - unat n) (unat prev)))"
proof (cases "prev \<le> n")
  case False
  then have "unat (prev - n) = unat prev - unat n" "prev \<noteq> 0"
    by (auto simp: unat_sub not_le less_imp_le)
  with False show ?thesis by (cases "absolute_floor \<le> n") (auto simp: shrinkage_gate_def Let_def not_less not_le)
qed (auto simp: shrinkage_gate_def not_less)

text \<open>A ratio that is not over the threshold after rounding is within it but for the error of
  the one rounding, whatever the threshold.\<close>

lemma within_ratio:
  assumes "a < 2 ^ 53" and "b < 2 ^ 53" and "0 < b" and "0 \<le> m" and "\<not> fp_less (Fin m) (f64_ratio a b)"
  shows "of_nat a * (1 - 1 / 2 ^ 53) \<le> m * of_nat b"
proof (cases "a = 0")
  case False
  let ?q = "of_nat a / of_nat b :: rat"
  have q: "0 < ?q" using False assms(3) by simp
  have p: "pow2 (- int 53) = 1 / 2 ^ 53" by (simp add: pow2_def)
  have "?q * (1 - 1 / 2 ^ 53) \<le> rnd 53 ?q" using rnd_near [OF q, of 53] unfolding p by simp
  also have "rnd 53 ?q \<le> m" using assms(5) by (simp add: f64_ratio_eq [OF assms(1-3)] not_less)
  finally have "?q * (1 - 1 / 2 ^ 53) * of_nat b \<le> m * of_nat b" by (rule mult_right_mono) simp
  then show ?thesis using assms(3) by simp
qed (use assms(4) in simp)

text \<open>C40: a build passes only when the threshold is a fraction in \<open>[0, 1]\<close>, the build is not under the
  floor, and the part of the previous build it lost is within the threshold, up to the error of the one
  rounding of the quotient (a fraction of \<open>2 ^ - 53\<close>); without a previous build exactly the threshold and
  the floor are checked.  Conversely a build over the floor that really lost no more than a representable
  threshold passes, and a larger build passes whenever a smaller one does. A threshold that is
  \<open>NaN\<close> never passes.\<close>

theorem shrinkage_gate_sound:
  assumes "unat prev < 2 ^ 53" and "representable m"
  shows "(if shrinkage_gate (Existing prev) new (Fin m') absolute_floor = Pass
      then 0 \<le> m' \<and> m' \<le> 1 \<and> absolute_floor \<le> new \<and>
        of_nat (unat prev - unat new) * (1 - 1 / 2 ^ 53) \<le> m' * of_nat (unat prev)
      else True) \<and>
     (shrinkage_gate NoPrevious new t absolute_floor = Pass) = (valid_fraction t \<and> absolute_floor \<le> new) \<and>
     (if valid_fraction (Fin m) \<and> absolute_floor \<le> new \<and> of_nat (unat prev - unat new) \<le> m * of_nat (unat prev)
      then shrinkage_gate (Existing prev) new (Fin m) absolute_floor = Pass else True) \<and>
     (if new \<le> new' \<and> shrinkage_gate (Existing prev) new t absolute_floor = Pass
      then shrinkage_gate (Existing prev) new' t absolute_floor = Pass else True) \<and>
     shrinkage_gate (Existing prev) new NaN absolute_floor = Fail (BadThreshold NaN)"
proof -
  have pos: "0 < unat prev" if "\<not> prev \<le> n" for n
    using that by (metis gr0I unat_eq_0 word_zero_le)
  have less: "unat prev - unat new < 2 ^ 53" using assms(1) by linarith
  have lost: "of_nat (unat prev - unat new) * (1 - 1 / 2 ^ 53) \<le> m' * of_nat (unat prev)"
    if "0 \<le> m'" "prev \<le> new \<or> \<not> fp_less (Fin m') (f64_ratio (unat prev - unat new) (unat prev))"
  proof (cases "prev \<le> new")
    case True
    then have "unat prev - unat new = 0" by (simp add: word_le_nat_alt)
    moreover have "0 \<le> m' * of_nat (unat prev)" by (intro mult_nonneg_nonneg that(1)) (rule of_nat_0_le_iff)
    ultimately show ?thesis by (simp only: of_nat_0 mult_zero_left)
  qed (use that within_ratio [OF less assms(1) pos] in blast)
  have "\<not> fp_less (Fin m) (f64_ratio (unat prev - unat new) (unat prev))"
    if "\<not> prev \<le> new" "of_nat (unat prev - unat new) \<le> m * of_nat (unat prev)"
    by (rule ratio_within [OF less assms(1) pos [OF that(1)] assms(2) that(2)])
  moreover have "\<not> fp_less t (f64_ratio (unat prev - unat new') (unat prev))"
    if "new \<le> new'" "\<not> prev \<le> new'" "\<not> fp_less t (f64_ratio (unat prev - unat new) (unat prev))"
  proof (rule ratio_mono [OF _ less assms(1) pos [OF that(2)] that(3)])
    show "unat prev - unat new' \<le> unat prev - unat new"
      using that(1) by (simp add: word_le_nat_alt diff_le_mono2)
  qed
  ultimately have "(if valid_fraction (Fin m) \<and> absolute_floor \<le> new \<and>
        of_nat (unat prev - unat new) \<le> m * of_nat (unat prev)
      then shrinkage_gate (Existing prev) new (Fin m) absolute_floor = Pass else True)"
    "(if new \<le> new' \<and> shrinkage_gate (Existing prev) new t absolute_floor = Pass
      then shrinkage_gate (Existing prev) new' t absolute_floor = Pass else True)"
    unfolding shrinkage_gate_Pass_iff by (auto dest: order_trans)
  moreover have "(shrinkage_gate NoPrevious new t absolute_floor = Pass) = (valid_fraction t \<and> absolute_floor \<le> new)"
    "shrinkage_gate (Existing prev) new NaN absolute_floor = Fail (BadThreshold NaN)"
    by (auto simp: shrinkage_gate_def valid_fraction_def not_less)
  moreover have "if shrinkage_gate (Existing prev) new (Fin m') absolute_floor = Pass
      then 0 \<le> m' \<and> m' \<le> 1 \<and> absolute_floor \<le> new \<and>
        of_nat (unat prev - unat new) * (1 - 1 / 2 ^ 53) \<le> m' * of_nat (unat prev)
      else True"
    unfolding shrinkage_gate_Pass_iff valid_fraction_def if_bool_eq_conj using lost by simp
  ultimately show ?thesis by (intro conjI)
qed

theorem shrinkage_gate_sound_witness:
  "shrinkage_gate (Existing 100) 60 (Fin (1 / 2)) 10 = Pass \<and>
   shrinkage_gate (Existing 100) 40 (Fin (1 / 2)) 10 \<noteq> Pass"
proof -
  have u: "unat (100 :: u64) = 100" "unat (60 :: u64) = 60" "unat (40 :: u64) = 40" by simp_all
  have r: "representable (1 / 2)"
    unfolding representable_def by (rule rnd_exact [of 1 53 _ "- 1"]) (simp_all add: pow2_def)
  have le: "(of_nat (100 - 60) :: rat) \<le> 1 / 2 * of_nat 100"
    "\<not> (of_nat (100 - 40) :: rat) * (1 - 1 / 2 ^ 53) \<le> 1 / 2 * of_nat 100" by simp_all
  have v: "valid_fraction (Fin (1 / 2))" by (simp add: valid_fraction_def)
  have lt: "unat (100 :: u64) < 2 ^ 53" by simp
  have "shrinkage_gate (Existing 100) 60 (Fin (1 / 2)) 10 = Pass"
    using shrinkage_gate_sound [OF lt r, of 60 "1 / 2" 10] v le(1)
    unfolding u if_bool_eq_conj by simp
  moreover have "shrinkage_gate (Existing 100) 40 (Fin (1 / 2)) 10 \<noteq> Pass"
    using shrinkage_gate_sound [OF lt r, of 40 "1 / 2" 10] le(2) unfolding u if_bool_eq_conj by blast
  ultimately show ?thesis by blast
qed

section \<open>Licences and false positives\<close>

lemma seen_spec: "set (fst (seen_and_duplicated ss seen dup)) = set seen \<union> ss_source ` set ss"
  by (induction ss seen dup rule: seen_and_duplicated.induct) auto

lemma duplicated_spec:
  "snd (seen_and_duplicated ss seen dup) = [] \<longleftrightarrow>
     dup = [] \<and> distinct (map ss_source ss) \<and> set seen \<inter> ss_source ` set ss = {}"
  by (induction ss seen dup rule: seen_and_duplicated.induct) auto

text \<open>The licence gate passes exactly when every source has one snapshot at most, every
  source that contributed an entry has one, and every licence is on the allowlist.\<close>

theorem license_gate_correct:
  "license_gate merged snapshots allowlist = Pass \<longleftrightarrow>
     distinct (map ss_source snapshots) \<and>
     \<Union> (set ` me_sources ` set merged) \<subseteq> ss_source ` set snapshots \<and>
     list_all (\<lambda>s. list_ex (\<lambda>a. spdx_matches a (ss_license s)) allowlist) snapshots"
proof -
  obtain seen dup where sd: "seen_and_duplicated snapshots [] [] = (seen, dup)"
    by (cases "seen_and_duplicated snapshots [] []")
  have seen: "set seen = ss_source ` set snapshots" using seen_spec [of snapshots "[]" "[]"] sd by simp
  have dup: "dup = [] \<longleftrightarrow> distinct (map ss_source snapshots)"
    using duplicated_spec [of snapshots "[]" "[]"] sd by simp
  show ?thesis
    by (auto simp: license_gate_def sd dup seen filter_empty_conv list_all_iff list_ex_iff Let_def
        split: if_splits)
qed

text \<open>The false-positive gate looks at exactly the control domains the list blocks on one
  source's word that nobody has reviewed; it refuses a control set that is too small, and
  passes when those hits are within a representable rate.\<close>

theorem false_positive_gate_sound:
  assumes "representable m" and "valid_fraction (Fin m)"
    and "0 < min_size" and "length control < 2 ^ 53"
  shows "set (review_queue to_ascii merged control exclusions) =
      {hit. hit \<in> set (false_positive_hits to_ascii merged control) \<and> length (fh_sources hit) < 2 \<and>
         fh_domain hit \<notin> set (normalized_keys to_ascii exclusions)} \<and>
    (if length (normalized_keys to_ascii control) < min_size
     then false_positive_gate to_ascii merged control exclusions (Fin m) min_size \<noteq> Pass
     else if of_nat (length (review_queue to_ascii merged control exclusions)) \<le>
         m * of_nat (length (normalized_keys to_ascii control))
     then false_positive_gate to_ascii merged control exclusions (Fin m) min_size = Pass else True)"
proof -
  let ?q = "length (review_queue to_ascii merged control exclusions)"
  let ?c = "length (normalized_keys to_ascii control)"
  have mf: "length (List.map_filter f xs) \<le> length xs" for f :: "'x \<Rightarrow> 'y option" and xs
    by (induction xs) (simp_all add: List.map_filter_simps split: option.split)
  have "?q \<le> length (false_positive_hits to_ascii merged control)"
    by (simp add: review_queue_def Let_def)
  also have "\<dots> \<le> ?c" by (simp add: false_positive_hits_def Let_def mf)
  finally have q: "?q \<le> ?c" .
  have c: "?c \<le> length control" by (simp add: normalized_keys_def mf)
  have "\<not> fp_less (Fin m) (f64_ratio ?q ?c)" if "min_size \<le> ?c" "of_nat ?q \<le> m * of_nat ?c"
    using that q c assms by (intro ratio_within) linarith+
  moreover have "set (review_queue to_ascii merged control exclusions) =
      {hit. hit \<in> set (false_positive_hits to_ascii merged control) \<and> length (fh_sources hit) < 2 \<and>
         fh_domain hit \<notin> set (normalized_keys to_ascii exclusions)}"
    by (auto simp: review_queue_def is_corroborated_def Let_def)
  ultimately show ?thesis
    using assms(2) by (simp add: false_positive_gate_def Let_def not_less)
qed

theorem false_positive_gate_sound_witness:
  "false_positive_gate ascii_to_ascii [] [''a.b''] [] (Fin 0) 1 = Pass"
proof -
  have n: "normalized_keys ascii_to_ascii [''a.b''] = [''a.b'']" by code_simp
  have q: "review_queue ascii_to_ascii [] [''a.b''] [] = []"
    by (simp add: review_queue_def false_positive_hits_def n List.map_filter_simps)
  have r: "representable 0" by (simp add: representable_def)
  have v: "valid_fraction (Fin 0)" by (simp add: valid_fraction_def)
  from false_positive_gate_sound [OF r v, of 1 "[''a.b'']" ascii_to_ascii "[]" "[]"]
  show ?thesis by (simp add: n q)
qed

end
