(* ===== verification/Publish_Policy.thy ===== *)
theory Publish_Policy
  imports Gates
begin

text \<open>
  The publication policy (\<open>domain-blocklist/src/publish_policy.rs\<close>): one provenance snapshot per
  source, and the licence the whole build inherits.
\<close>

section \<open>Collapsing the snapshots of a source\<close>

type_synonym snapshot_groups = "(source_id, (category \<times> source_snapshot) list) btree"

definition push_snapshot :: "snapshot_groups \<Rightarrow> category \<times> source_snapshot \<Rightarrow> snapshot_groups" where
  "push_snapshot by_source entry =
     bt_upsert (ss_source (snd entry)) (\<lambda>grp. grp @ [entry]) [entry] by_source"

text \<open>The debug form of a category, as it appears in the composite revision.\<close>

primrec category_name :: "category \<Rightarrow> string" where
  "category_name Adult = ''Adult''"
| "category_name Gambling = ''Gambling''"
| "category_name Dating = ''Dating''"

definition composite_revision :: "(category \<times> source_snapshot) list \<Rightarrow> string" where
  "composite_revision grp =
     join_with CHR '';'' (map (\<lambda>(c, s). category_name c @ ''='' @ ss_revision s) grp)"

text \<open>The error is the source and the licences that disagree; an empty group would panic.\<close>

definition collapse_group ::
  "(category \<times> source_snapshot) list \<Rightarrow> ((source_id \<times> license_id list) + source_snapshot) exec" where
  "collapse_group grp =
     (case grp of
        [] \<Rightarrow> None
      | (c, first) # _ \<Rightarrow>
          Some (if \<exists>(c, s) \<in> set grp. \<not> spdx_matches (ss_license s) (ss_license first)
                then Inl (ss_source first, map (\<lambda>(c, s). ss_license s) grp)
                else Inr \<lparr>ss_source = ss_source first, ss_revision = composite_revision grp,
                  ss_license = ss_license first,
                  ss_fetched_at = Min ((\<lambda>(c, s). ss_fetched_at s) ` set grp)\<rparr>))"

text \<open>Collecting into a \<open>Result\<close> stops at the first error.\<close>

fun collect_results :: "('e + 'a) exec list \<Rightarrow> ('e + 'a list) exec" where
  "collect_results [] = Some (Inr [])"
| "collect_results (r # rs) = do {
     x \<leftarrow> r;
     case x of
       Inl e \<Rightarrow> Some (Inl e)
     | Inr a \<Rightarrow> do { ys \<leftarrow> collect_results rs; Some (map_sum (\<lambda>e. e) ((#) a) ys) }
   }"

definition collapse_snapshots_by_source ::
  "(category \<times> source_snapshot) list \<Rightarrow> ((source_id \<times> license_id list) + source_snapshot list) exec" where
  "collapse_snapshots_by_source snapshots =
     collect_results (map (\<lambda>(k, grp). collapse_group grp) (foldl push_snapshot [] snapshots))"

section \<open>The output licence\<close>

definition RANK :: "string list" where
  "RANK = [''CC0-1.0'', ''MIT'', ''CC-BY-SA-4.0'', ''GPL-3.0'']"

text \<open>The position of a licence in the table; \<open>None\<close> stands for \<open>usize::MAX\<close>, above all positions.\<close>

definition license_rank :: "license_id \<Rightarrow> nat option" where
  "license_rank l = (case filter (\<lambda>i. spdx_matches (LicenseId (RANK ! i)) l) [0..<length RANK] of
     [] \<Rightarrow> None | i # _ \<Rightarrow> Some i)"

definition pick_output_license :: "source_snapshot list \<Rightarrow> license_id" where
  "pick_output_license snapshots =
     (let ranks = map (\<lambda>s. license_rank (ss_license s)) snapshots
      in if ranks = [] \<or> None \<in> set ranks then LicenseId ''UNKNOWN''
         else LicenseId (RANK ! Max (the ` set ranks)))"

section \<open>What collapsing does\<close>

definition group_of :: "source_id \<Rightarrow> (category \<times> source_snapshot) list \<Rightarrow> (category \<times> source_snapshot) list" where
  "group_of k snapshots = filter (\<lambda>(c, s). ss_source s = k) snapshots"

lemma push_snapshots:
  "bt_inv (foldl push_snapshot [] snapshots) \<and>
   (\<forall>k. bt_get (foldl push_snapshot [] snapshots) k =
      (if group_of k snapshots = [] then None else Some (group_of k snapshots)))"
proof (induction snapshots rule: rev_induct)
  case Nil
  then show ?case by (simp add: bt_inv_def bt_get_def group_of_def)
next
  case (snoc x xs)
  let ?m = "foldl push_snapshot [] xs"
  from snoc have inv: "bt_inv ?m" and get: "\<And>k. bt_get ?m k = (if group_of k xs = [] then None else Some (group_of k xs))"
    by auto
  obtain c s where x: "x = (c, s)" by (cases x)
  have step: "foldl push_snapshot [] (xs @ [x]) = bt_insert (ss_source s) (group_of (ss_source s) xs @ [x]) ?m"
    by (simp add: push_snapshot_def [of ?m] bt_upsert_def get x)
  show ?case
    unfolding step bt_get_insert [OF inv]
    by (simp add: bt_inv_insert [OF inv] get group_of_def x)
qed

lemma groups_list:
  "foldl push_snapshot [] snapshots =
     map (\<lambda>k. (k, group_of k snapshots)) (sorted_list_of_set (ss_source ` snd ` set snapshots))"
proof -
  let ?m = "foldl push_snapshot [] snapshots" and ?K = "sorted_list_of_set (ss_source ` snd ` set snapshots)"
  have inv: "sorted_wrt (<) (map fst ?m)" and get: "\<And>k. map_of ?m k =
      (if group_of k snapshots = [] then None else Some (group_of k snapshots))"
    using push_snapshots [of snapshots] by (auto simp: bt_inv_def bt_get_def)
  have "set (map fst ?m) = {k. group_of k snapshots \<noteq> []}"
    using get by (auto simp: dom_map_of_conv_image_fst [symmetric] dom_def split: if_splits)
  also have "\<dots> = ss_source ` snd ` set snapshots"
    by (force simp: group_of_def filter_empty_conv)
  finally have "map fst ?m = ?K"
    using inv by (intro sorted_distinct_set_unique) (simp_all add: strict_sorted_iff)
  moreover have "snd p = group_of (fst p) snapshots" if "p \<in> set ?m" for p
  proof -
    have "distinct (map fst ?m)" using inv by (simp add: strict_sorted_iff)
    with that have "map_of ?m (fst p) = Some (snd p)" by (simp add: map_of_eq_Some_iff)
    with get show ?thesis by (auto split: if_splits)
  qed
  then have "?m = map (\<lambda>k. (k, group_of k snapshots)) (map fst ?m)"
    by (auto simp: comp_def intro!: map_idI [symmetric] prod_eqI)
  ultimately show ?thesis by metis
qed

lemma collect_results_Some:
  assumes "list_all (\<lambda>r. r \<noteq> None) rs"
  shows "\<exists>r. collect_results rs = Some r \<and>
    (case r of Inl e \<Rightarrow> Some (Inl e) \<in> set rs | Inr ys \<Rightarrow> rs = map (\<lambda>y. Some (Inr y)) ys)"
  using assms
proof (induction rs)
  case (Cons x xs)
  then obtain v where x: "x = Some v" by auto
  from Cons obtain r where r: "collect_results xs = Some r"
    "case r of Inl e \<Rightarrow> Some (Inl e) \<in> set xs | Inr ys \<Rightarrow> xs = map (\<lambda>y. Some (Inr y)) ys" by auto
  then show ?case by (cases v; cases r) (auto simp: x)
qed simp

lemma group_of_source: "(c, s) \<in> set (group_of k snapshots) \<Longrightarrow> ss_source s = k"
  by (simp add: group_of_def)

lemma collapse_group_cases:
  assumes "group_of k snapshots \<noteq> []"
  shows "case collapse_group (group_of k snapshots) of
      None \<Rightarrow> False
    | Some (Inl (src, ls)) \<Rightarrow> src = k \<and> (\<exists>a b c d. (a, b) \<in> set snapshots \<and> (c, d) \<in> set snapshots \<and>
        ss_source b = k \<and> ss_source d = k \<and> \<not> spdx_matches (ss_license b) (ss_license d))
    | Some (Inr out) \<Rightarrow> ss_source out = k \<and> list_all (\<lambda>(c, s). spdx_matches (ss_license s) (ss_license out) \<and>
        ss_fetched_at out \<le> ss_fetched_at s) (group_of k snapshots)"
proof -
  obtain c f rest where g: "group_of k snapshots = (c, f) # rest" using assms by (cases "group_of k snapshots") auto
  have mem: "(a, b) \<in> set ((c, f) # rest) \<longleftrightarrow> (a, b) \<in> set snapshots \<and> ss_source b = k" for a b
    unfolding g [symmetric] group_of_def by auto
  have f: "ss_source f = k" "(c, f) \<in> set snapshots" using mem [of c f] by auto
  let ?bad = "\<exists>(c, s) \<in> set ((c, f) # rest). \<not> spdx_matches (ss_license s) (ss_license f)"
  show ?thesis
  proof (cases ?bad)
    case True
    then obtain a b where "(a, b) \<in> set ((c, f) # rest)" "\<not> spdx_matches (ss_license b) (ss_license f)" by blast
    with mem f have "\<exists>a b c d. (a, b) \<in> set snapshots \<and> (c, d) \<in> set snapshots \<and>
        ss_source b = k \<and> ss_source d = k \<and> \<not> spdx_matches (ss_license b) (ss_license d)" by blast
    with True f(1) show ?thesis unfolding g collapse_group_def by (simp only: list.case prod.case if_True) simp
  next
    case False
    have "Min ((\<lambda>(c, s). ss_fetched_at s) ` set ((c, f) # rest)) \<le> ss_fetched_at b"
      if "(a, b) \<in> set ((c, f) # rest)" for a b
      using that by (intro Min_le) force+
    with False f(1) show ?thesis
      unfolding g collapse_group_def list_all_iff by (simp only: list.case prod.case if_False) auto
  qed
qed

text \<open>Collapsing gives exactly one snapshot per source, in source order, whose licence every
  collapsed snapshot shares and whose time none of them precedes; it fails, never panics, only when two
  snapshots of one source carry licences that do not match.\<close>

theorem collapse_snapshots_correct:
  "\<exists>r. collapse_snapshots_by_source snapshots = Some r \<and>
     (case r of
        Inl (src, ls) \<Rightarrow> \<exists>a b c d. (a, b) \<in> set snapshots \<and> (c, d) \<in> set snapshots \<and> ss_source b = src \<and>
          ss_source d = src \<and> \<not> spdx_matches (ss_license b) (ss_license d)
      | Inr out \<Rightarrow> map ss_source out = sorted_list_of_set (ss_source ` snd ` set snapshots) \<and>
          list_all (\<lambda>x. list_all (\<lambda>(c, s). spdx_matches (ss_license s) (ss_license x) \<and>
            ss_fetched_at x \<le> ss_fetched_at s) (group_of (ss_source x) snapshots)) out)"
proof -
  let ?K = "sorted_list_of_set (ss_source ` snd ` set snapshots)"
  let ?rs = "map (\<lambda>k. collapse_group (group_of k snapshots)) ?K"
  have ne: "group_of k snapshots \<noteq> []" if "k \<in> set ?K" for k
    using that by (force simp: group_of_def filter_empty_conv)
  note cg = collapse_group_cases [OF ne]
  have c: "collapse_snapshots_by_source snapshots = collect_results ?rs"
    by (simp add: collapse_snapshots_by_source_def groups_list comp_def)
  have "collapse_group (group_of k snapshots) \<noteq> None" if "k \<in> set ?K" for k
    using cg [OF that] by (cases "collapse_group (group_of k snapshots)") simp_all
  then have "list_all (\<lambda>r. r \<noteq> None) ?rs" unfolding list_all_iff by force
  from collect_results_Some [OF this] obtain r where r: "collect_results ?rs = Some r"
    and rr: "case r of Inl e \<Rightarrow> Some (Inl e) \<in> set ?rs | Inr ys \<Rightarrow> ?rs = map (\<lambda>y. Some (Inr y)) ys" by blast
  show ?thesis
  proof (cases r)
    case (Inl e)
    obtain src ls where e: "e = (src, ls)" by (cases e)
    from rr Inl e obtain k where k: "k \<in> set ?K" "collapse_group (group_of k snapshots) = Some (Inl (src, ls))"
      by (simp only: sum.case set_map image_iff) metis
    have "\<exists>a b c d. (a, b) \<in> set snapshots \<and> (c, d) \<in> set snapshots \<and> ss_source b = src \<and>
          ss_source d = src \<and> \<not> spdx_matches (ss_license b) (ss_license d)"
      using cg [OF k(1)] unfolding k(2) by simp
    then show ?thesis unfolding c r Inl e by simp
  next
    case (Inr out)
    with rr have eq: "?rs = map (\<lambda>y. Some (Inr y)) out" by simp
    then have len: "length ?K = length out" by (metis length_map)
    have at: "collapse_group (group_of (?K ! i) snapshots) = Some (Inr (out ! i))" if "i < length out" for i
      using eq that len by (metis (no_types, lifting) length_map nth_map)
    have good: "ss_source (out ! i) = ?K ! i \<and> list_all (\<lambda>(c, s). spdx_matches (ss_license s) (ss_license (out ! i)) \<and>
        ss_fetched_at (out ! i) \<le> ss_fetched_at s) (group_of (?K ! i) snapshots)" if i: "i < length out" for i
    proof -
      have "?K ! i \<in> set ?K" using i len by (metis nth_mem)
      from cg [OF this] at [OF i] show ?thesis by simp
    qed
    then have "map ss_source out = ?K" using len by (intro nth_equalityI) simp_all
    moreover have "list_all (\<lambda>x. list_all (\<lambda>(c, s). spdx_matches (ss_license s) (ss_license x) \<and>
            ss_fetched_at x \<le> ss_fetched_at s) (group_of (ss_source x) snapshots)) out"
      using good by (auto simp: list_all_length)
    ultimately show ?thesis unfolding c r Inr by simp
  qed
qed

text \<open>The inherited licence: known exactly when every input licence is in the table, and then of the
  highest rank among them.\<close>

lemma license_rank_less: "license_rank l = Some i \<Longrightarrow> i < length RANK"
proof -
  assume "license_rank l = Some i"
  then have "i \<in> set (filter (\<lambda>i. spdx_matches (LicenseId (RANK ! i)) l) [0..<length RANK])"
    unfolding license_rank_def by (cases "filter (\<lambda>i. spdx_matches (LicenseId (RANK ! i)) l) [0..<length RANK]") simp_all
  then show ?thesis by simp
qed

theorem pick_output_license_least_permissive:
  "if snapshots = [] \<or> list_ex (\<lambda>s. license_rank (ss_license s) = None) snapshots
   then pick_output_license snapshots = LicenseId ''UNKNOWN''
   else \<exists>i < length RANK. pick_output_license snapshots = LicenseId (RANK ! i) \<and>
     list_ex (\<lambda>s. license_rank (ss_license s) = Some i) snapshots \<and>
     list_all (\<lambda>s. the (license_rank (ss_license s)) \<le> i) snapshots"
proof (cases "snapshots = [] \<or> list_ex (\<lambda>s. license_rank (ss_license s) = None) snapshots")
  case True
  then show ?thesis by (auto simp: pick_output_license_def Let_def list_ex_iff image_iff eq_commute [of None])
next
  case False
  let ?R = "the ` license_rank ` ss_license ` set snapshots"
  have some: "\<exists>i. license_rank (ss_license s) = Some i" if "s \<in> set snapshots" for s
    using False that by (auto simp: list_ex_iff)
  have R: "finite ?R" "?R \<noteq> {}" using False by auto
  from Max_in [OF R] obtain s where s: "s \<in> set snapshots" "the (license_rank (ss_license s)) = Max ?R" by force
  with some have m: "license_rank (ss_license s) = Some (Max ?R)" by force
  have "pick_output_license snapshots = LicenseId (RANK ! Max ?R)"
    using False by (auto simp: pick_output_license_def Let_def list_ex_iff image_image)
  moreover have "list_all (\<lambda>s. the (license_rank (ss_license s)) \<le> Max ?R) snapshots"
    using R by (auto simp: list_all_iff intro: Max_ge)
  ultimately have "\<exists>i < length RANK. pick_output_license snapshots = LicenseId (RANK ! i) \<and>
     list_ex (\<lambda>s. license_rank (ss_license s) = Some i) snapshots \<and>
     list_all (\<lambda>s. the (license_rank (ss_license s)) \<le> i) snapshots"
    using license_rank_less [OF m] m s(1) by (intro exI [of _ "Max ?R"]) (auto simp: list_ex_iff)
  then show ?thesis using False by (simp only: if_False)
qed

end
