(* ===== verification/Sources.thy ===== *)
theory Sources
  imports Blocklist_Types Ip_Addr
begin

text \<open>
  Fetching and parsing the feeds (\<open>domain-blocklist/src/sources/\<close>): the validation of a fetched source, the
  line parser the three feeds share, and their wrappers.  A string is its UTF-8 bytes;
  \<open>String::from_utf8_lossy\<close> is a parameter.
\<close>

section \<open>White space and lines\<close>

text \<open>The UTF-8 encodings of the characters with the \<open>White_Space\<close> property, which \<open>trim\<close> and
  \<open>split_whitespace\<close> use.\<close>

definition white_space :: "string list" where
  "white_space =
     [[CHR 0x20], [CHR 0x09], [CHR 0x0A], [CHR 0x0B], [CHR 0x0C], [CHR 0x0D], [CHR 0xC2, CHR 0x85], [CHR 0xC2, CHR 0xA0],
      [CHR 0xE1, CHR 0x9A, CHR 0x80], [CHR 0xE2, CHR 0x80, CHR 0x80], [CHR 0xE2, CHR 0x80, CHR 0x81],
      [CHR 0xE2, CHR 0x80, CHR 0x82], [CHR 0xE2, CHR 0x80, CHR 0x83], [CHR 0xE2, CHR 0x80, CHR 0x84],
      [CHR 0xE2, CHR 0x80, CHR 0x85], [CHR 0xE2, CHR 0x80, CHR 0x86], [CHR 0xE2, CHR 0x80, CHR 0x87],
      [CHR 0xE2, CHR 0x80, CHR 0x88], [CHR 0xE2, CHR 0x80, CHR 0x89], [CHR 0xE2, CHR 0x80, CHR 0x8A],
      [CHR 0xE2, CHR 0x80, CHR 0xA8], [CHR 0xE2, CHR 0x80, CHR 0xA9], [CHR 0xE2, CHR 0x80, CHR 0xAF],
      [CHR 0xE2, CHR 0x81, CHR 0x9F], [CHR 0xE3, CHR 0x80, CHR 0x80]]"

definition ws_len :: "string \<Rightarrow> nat" where
  "ws_len s = (case find (\<lambda>w. prefix w s) white_space of Some w \<Rightarrow> length w | None \<Rightarrow> 0)"

definition ws_len_end :: "string \<Rightarrow> nat" where
  "ws_len_end s = (case find (\<lambda>w. suffix w s) white_space of Some w \<Rightarrow> length w | None \<Rightarrow> 0)"

lemma white_space_nonempty: "w \<in> set white_space \<Longrightarrow> w \<noteq> []"
  by (auto simp: white_space_def)

lemma ws_len_pos: "ws_len s > 0 \<longleftrightarrow> (\<exists>w \<in> set white_space. prefix w s)"
  by (auto simp: ws_len_def find_None_iff find_Some_iff dest: white_space_nonempty split: option.split)
    (metis nth_mem white_space_nonempty)

function trim_start :: "string \<Rightarrow> string" where
  "trim_start s = (if s = [] \<or> ws_len s = 0 then s else trim_start (drop (ws_len s) s))"
  by pat_completeness auto
termination by (relation "measure length") auto

function trim_end :: "string \<Rightarrow> string" where
  "trim_end s = (if s = [] \<or> ws_len_end s = 0 then s else trim_end (take (length s - ws_len_end s) s))"
  by pat_completeness auto
termination by (relation "measure length") auto

declare trim_start.simps [simp del] trim_end.simps [simp del]

definition trim_str :: "string \<Rightarrow> string" where
  "trim_str s = trim_end (trim_start s)"

fun take_word :: "string \<Rightarrow> string \<times> string" where
  "take_word [] = ([], [])"
| "take_word (c # s) =
     (if ws_len (c # s) > 0 then ([], c # s) else (let (w, rest) = take_word s in (c # w, rest)))"

lemma take_word_append: "take_word s = (w, rest) \<Longrightarrow> s = w @ rest"
  by (induction s arbitrary: w) (auto split: if_splits prod.splits)

lemma length_trim_start: "length (trim_start s) \<le> length s"
  by (induction s rule: trim_start.induct) (subst trim_start.simps, auto)

lemma trim_start_done: "trim_start s = [] \<or> ws_len (trim_start s) = 0"
  by (induction s rule: trim_start.induct) (subst (1 2) trim_start.simps, auto)

lemma take_word_pos: "s \<noteq> [] \<Longrightarrow> ws_len s = 0 \<Longrightarrow> fst (take_word s) \<noteq> []"
  by (cases s) (auto split: prod.split)

function split_whitespace :: "string \<Rightarrow> string list" where
  "split_whitespace s =
     (let s = trim_start s
      in if s = [] then [] else (let (w, rest) = take_word s in w # split_whitespace rest))"
  by pat_completeness auto
termination
proof (relation "measure length", simp)
  fix s x p w rest
  assume x: "x = trim_start s" "x \<noteq> []" and p: "p = take_word x" "(w, rest) = p"
  then have "ws_len x = 0" using trim_start_done [of s] by simp
  with x p have "w \<noteq> []" using take_word_pos [of x] by (metis fst_conv)
  moreover have "x = w @ rest" using take_word_append [of x w rest] p by simp
  ultimately have "length rest < length x" by simp
  also have "\<dots> \<le> length s" using length_trim_start x(1) by simp
  finally show "(rest, s) \<in> measure length" by simp
qed

declare split_whitespace.simps [simp del]

text \<open>\<open>str::lines\<close>: a final newline ends the last line, and a carriage return before a newline is
  dropped with it.\<close>

definition strip_cr :: "string \<Rightarrow> string" where
  "strip_cr l = (case strip_suffix [CHR 0x0D] l of Some l' \<Rightarrow> l' | None \<Rightarrow> l)"

definition str_lines :: "string \<Rightarrow> string list" where
  "str_lines text =
     (let parts = split_on (CHR 0x0A) text; full = map strip_cr (butlast parts)
      in if last parts = [] then full else full @ [last parts])"

section \<open>Fetching\<close>

record source_config =
  sc_source :: source_id
  sc_url :: string
  sc_pinned_revision :: string
  sc_expected_license :: license_id

record fetched_source =
  fs_revision :: string
  fs_license :: license_id
  fs_fetched_at :: timestamp
  fs_bytes :: bytes

datatype fetch_error =
  TransportError string
| RevisionMismatch string string
| LicenseChanged license_id license_id
| LicenseNotAllowed license_id

definition fetch_source ::
  "(source_config \<Rightarrow> fetch_error + fetched_source) \<Rightarrow> source_config \<Rightarrow> license_id list \<Rightarrow>
   fetch_error + source_snapshot \<times> bytes" where
  "fetch_source fetch config allowlist =
     (case fetch config of
        Inl e \<Rightarrow> Inl e
      | Inr fetched \<Rightarrow>
          if fs_revision fetched \<noteq> sc_pinned_revision config then
            Inl (RevisionMismatch (sc_pinned_revision config) (fs_revision fetched))
          else if \<not> spdx_matches (fs_license fetched) (sc_expected_license config) then
            Inl (LicenseChanged (sc_expected_license config) (fs_license fetched))
          else if \<not> list_ex (\<lambda>allowed. spdx_matches allowed (fs_license fetched)) allowlist then
            Inl (LicenseNotAllowed (fs_license fetched))
          else Inr (\<lparr>ss_source = sc_source config, ss_revision = fs_revision fetched,
                 ss_license = fs_license fetched, ss_fetched_at = fs_fetched_at fetched\<rparr>, fs_bytes fetched))"

section \<open>Parsing\<close>

datatype line_format = HostsFile | PlainDomain

record parse_report =
  skipped_comment_or_blank :: nat
  dropped_malformed :: nat
  pr_dropped_ip_literal :: nat
  wildcard_count :: nat

record parse_output =
  po_entries :: "raw_entry list"
  po_report :: parse_report

definition strip_comment :: "string \<Rightarrow> string" where
  "strip_comment raw_line =
     (case split_once CHR ''#'' raw_line of Some (before, _) \<Rightarrow> trim_str before | None \<Rightarrow> trim_str raw_line)"

definition domain_field :: "line_format \<Rightarrow> string list \<Rightarrow> string option" where
  "domain_field format cols =
     (case format of
        HostsFile \<Rightarrow> (case cols of _ # d # _ \<Rightarrow> Some d | _ \<Rightarrow> None)
      | PlainDomain \<Rightarrow> (case cols of d # _ \<Rightarrow> Some d | _ \<Rightarrow> None))"

definition wildcard_base :: "string \<Rightarrow> string \<times> scope_hint" where
  "wildcard_base field =
     (case strip_prefix ''*.'' field of
        Some base \<Rightarrow> if base \<noteq> [] then (base, ApexHint) else (field, NoHint)
      | None \<Rightarrow> (field, NoHint))"

text \<open>One turn of the loop of \<open>parse_document\<close>.\<close>

definition parse_line :: "source_id \<Rightarrow> category \<Rightarrow> line_format \<Rightarrow> parse_output \<Rightarrow> string \<Rightarrow> parse_output" where
  "parse_line source category format out raw_line =
     (let line = strip_comment raw_line; report = po_report out
      in if line = [] then
           out\<lparr>po_report := report\<lparr>skipped_comment_or_blank := skipped_comment_or_blank report + 1\<rparr>\<rparr>
         else case domain_field format (split_whitespace line) of
                None \<Rightarrow> out\<lparr>po_report := report\<lparr>dropped_malformed := dropped_malformed report + 1\<rparr>\<rparr>
              | Some field \<Rightarrow>
                  (let (domain, scope_hint) = wildcard_base field
                   in if parse_ip domain \<noteq> None then
                        out\<lparr>po_report := report\<lparr>pr_dropped_ip_literal := pr_dropped_ip_literal report + 1\<rparr>\<rparr>
                      else
                        \<lparr>po_entries = po_entries out @ [\<lparr>re_domain = domain, re_source = source,
                             re_category = category, re_scope_hint = scope_hint\<rparr>],
                         po_report = (if scope_hint = ApexHint
                           then report\<lparr>wildcard_count := wildcard_count report + 1\<rparr> else report)\<rparr>))"

definition parse_document ::
  "(bytes \<Rightarrow> string) \<Rightarrow> bytes \<Rightarrow> source_id \<Rightarrow> category \<Rightarrow> line_format \<Rightarrow> parse_output" where
  "parse_document from_utf8_lossy bs source category format =
     foldl (parse_line source category format)
       \<lparr>po_entries = [], po_report = \<lparr>skipped_comment_or_blank = 0, dropped_malformed = 0,
          pr_dropped_ip_literal = 0, wildcard_count = 0\<rparr>\<rparr>
       (str_lines (from_utf8_lossy bs))"

definition parse_stevenblack :: "(bytes \<Rightarrow> string) \<Rightarrow> bytes \<Rightarrow> parse_output" where
  "parse_stevenblack from_utf8_lossy bs = parse_document from_utf8_lossy bs StevenBlack Adult HostsFile"

definition parse_hagezi :: "(bytes \<Rightarrow> string) \<Rightarrow> bytes \<Rightarrow> parse_output" where
  "parse_hagezi from_utf8_lossy bs = parse_document from_utf8_lossy bs Hagezi Adult PlainDomain"

definition parse_domains :: "(bytes \<Rightarrow> string) \<Rightarrow> bytes \<Rightarrow> category \<Rightarrow> parse_output" where
  "parse_domains from_utf8_lossy bs category = parse_document from_utf8_lossy bs Ut1 category PlainDomain"

definition count_urls_entries :: "(bytes \<Rightarrow> string) \<Rightarrow> bytes \<Rightarrow> nat" where
  "count_urls_entries from_utf8_lossy bs =
     length (filter (\<lambda>line. line \<noteq> [])
       (map trim_str (map (\<lambda>line. case split_once CHR ''#'' line of Some (before, _) \<Rightarrow> before | None \<Rightarrow> line)
         (str_lines (from_utf8_lossy bs)))))"

section \<open>What a document parses to\<close>

datatype line_fate = Skipped | Malformed_line | Ip_line | Entry string scope_hint

definition line_fate :: "line_format \<Rightarrow> string \<Rightarrow> line_fate" where
  "line_fate format raw_line =
     (if strip_comment raw_line = [] then Skipped
      else case domain_field format (split_whitespace (strip_comment raw_line)) of
             None \<Rightarrow> Malformed_line
           | Some field \<Rightarrow>
               (case wildcard_base field of
                  (domain, hint) \<Rightarrow> if parse_ip domain \<noteq> None then Ip_line else Entry domain hint))"

definition entries_of :: "source_id \<Rightarrow> category \<Rightarrow> line_fate \<Rightarrow> raw_entry list" where
  "entries_of source category fate =
     (case fate of
        Entry domain hint \<Rightarrow> [\<lparr>re_domain = domain, re_source = source, re_category = category, re_scope_hint = hint\<rparr>]
      | _ \<Rightarrow> [])"

lemma parse_line_fate:
  "parse_line source category format out l =
     (let f = line_fate format l; r = po_report out in
      \<lparr>po_entries = po_entries out @ entries_of source category f,
       po_report = \<lparr>skipped_comment_or_blank = skipped_comment_or_blank r + (if f = Skipped then 1 else 0),
         dropped_malformed = dropped_malformed r + (if f = Malformed_line then 1 else 0),
         pr_dropped_ip_literal = pr_dropped_ip_literal r + (if f = Ip_line then 1 else 0),
         wildcard_count = wildcard_count r + (if \<exists>d. f = Entry d ApexHint then 1 else 0)\<rparr>\<rparr>)"
proof (cases "strip_comment l = []")
  case False
  show ?thesis
  proof (cases "domain_field format (split_whitespace (strip_comment l))")
    case (Some field)
    obtain d h where w: "wildcard_base field = (d, h)" by fastforce
    show ?thesis using False Some w
      by (cases out; cases "po_report out"; cases h; cases "parse_ip d") (simp_all add: parse_line_def line_fate_def entries_of_def)
  qed (use False in \<open>cases out; cases "po_report out"; simp add: parse_line_def line_fate_def entries_of_def\<close>)
qed (cases out; cases "po_report out"; simp add: parse_line_def line_fate_def entries_of_def)

definition count_lines :: "(line_fate \<Rightarrow> bool) \<Rightarrow> line_fate list \<Rightarrow> nat" where
  "count_lines P fates = length (filter P fates)"

lemma parse_lines_fates:
  "foldl (parse_line source category format) out ls =
     (let fs = map (line_fate format) ls; r = po_report out in
      \<lparr>po_entries = po_entries out @ concat (map (entries_of source category) fs),
       po_report = \<lparr>skipped_comment_or_blank = skipped_comment_or_blank r + count_lines (\<lambda>f. f = Skipped) fs,
         dropped_malformed = dropped_malformed r + count_lines (\<lambda>f. f = Malformed_line) fs,
         pr_dropped_ip_literal = pr_dropped_ip_literal r + count_lines (\<lambda>f. f = Ip_line) fs,
         wildcard_count = wildcard_count r + count_lines (\<lambda>f. \<exists>d. f = Entry d ApexHint) fs\<rparr>\<rparr>)"
proof (induction ls arbitrary: out)
  case Nil
  show ?case by (cases out; cases "po_report out") (simp add: count_lines_def)
next
  case (Cons l ls)
  show ?case
    unfolding foldl_Cons Cons by (simp add: parse_line_fate count_lines_def Let_def)
qed

lemma set_trim: "set (trim_str s) \<subseteq> set s"
proof -
  have "set (trim_start s) \<subseteq> set s" for s
    by (induction s rule: trim_start.induct) (subst trim_start.simps, auto dest: in_set_dropD)
  moreover have "set (trim_end s) \<subseteq> set s" for s
    by (induction s rule: trim_end.induct) (subst trim_end.simps, auto dest: in_set_takeD)
  ultimately show ?thesis by (auto simp: trim_str_def)
qed

lemma strip_comment_no_hash: "CHR ''#'' \<notin> set (strip_comment l)"
proof (cases "split_once CHR ''#'' l")
  case None
  then show ?thesis using set_trim [of l] split_once_None [of "CHR ''#''" l] by (auto simp: strip_comment_def)
next
  case (Some p)
  then obtain a b where p: "p = (a, b)" "CHR ''#'' \<notin> set a" by (cases p) (simp add: split_once_Some)
  with Some show ?thesis using set_trim [of a] by (auto simp: strip_comment_def)
qed

lemma split_whitespace_field: "w \<in> set (split_whitespace s) \<Longrightarrow> w \<noteq> [] \<and> set w \<subseteq> set s"
proof (induction s rule: split_whitespace.induct)
  case (1 s)
  let ?x = "trim_start s"
  have sub: "set ?x \<subseteq> set s"
    by (induction s rule: trim_start.induct) (subst trim_start.simps, auto dest: in_set_dropD)
  show ?case
  proof (cases "?x = []")
    case False
    obtain v rest where t: "take_word ?x = (v, rest)" by fastforce
    have v: "v \<noteq> []" using False trim_start_done [of s] take_word_pos [of ?x] by (simp add: t)
    have x: "?x = v @ rest" by (rule take_word_append [OF t])
    from 1(2) False t have "w = v \<or> w \<in> set (split_whitespace rest)"
      by (subst (asm) split_whitespace.simps) simp
    then show ?thesis
    proof
      assume "w \<in> set (split_whitespace rest)"
      from 1(1) [OF refl False t [symmetric] refl this] show ?thesis using sub x by auto
    qed (use v sub x in auto)
  qed (use 1(2) in \<open>subst (asm) split_whitespace.simps, simp\<close>)
qed

lemma line_fate_Entry:
  assumes "line_fate format l = Entry d h"
  shows "d \<noteq> [] \<and> CHR ''#'' \<notin> set d \<and> parse_ip d = None"
proof -
  obtain field where f: "domain_field format (split_whitespace (strip_comment l)) = Some field"
    "wildcard_base field = (d, h)" "parse_ip d = None"
    using assms by (auto simp: line_fate_def split: if_splits option.splits prod.splits)
  from f(1) have "field \<in> set (split_whitespace (strip_comment l))"
    by (auto simp: domain_field_def split: line_format.splits list.splits)
  from split_whitespace_field [OF this] strip_comment_no_hash [of l]
  have "field \<noteq> []" "CHR ''#'' \<notin> set field" by auto
  with f(2,3) show ?thesis
    by (auto simp: wildcard_base_def strip_prefix_Some split: option.splits if_splits)
qed

text \<open>Parsing loses no line unaccounted.  The entries are, in order, those of the lines that carry a
  domain; every other line is counted under its reason, so the counters and the entries add up to the
  number of lines; a domain is not empty, holds no comment and is no address.\<close>

theorem parse_document_accounts:
  "let ls = str_lines (from_utf8_lossy bs); out = parse_document from_utf8_lossy bs source category format;
       r = po_report out
   in po_entries out = concat (map (\<lambda>l. entries_of source category (line_fate format l)) ls) \<and>
      skipped_comment_or_blank r + dropped_malformed r + pr_dropped_ip_literal r + length (po_entries out) = length ls \<and>
      wildcard_count r = length (filter (\<lambda>e. re_scope_hint e = ApexHint) (po_entries out)) \<and>
      list_all (\<lambda>e. re_domain e \<noteq> [] \<and> CHR ''#'' \<notin> set (re_domain e) \<and> parse_ip (re_domain e) = None \<and>
        re_source e = source \<and> re_category e = category) (po_entries out)"
proof -
  let ?ls = "str_lines (from_utf8_lossy bs)"
  let ?fs = "map (line_fate format) ?ls"
  have sum_fates: "count_lines (\<lambda>f. f = Skipped) fs + count_lines (\<lambda>f. f = Malformed_line) fs +
      count_lines (\<lambda>f. f = Ip_line) fs + length (concat (map (entries_of source category) fs)) = length fs" for fs
  proof (induction fs)
    case (Cons f fs)
    then show ?case by (cases f) (simp_all add: count_lines_def entries_of_def)
  qed (simp add: count_lines_def)
  have wild: "count_lines (\<lambda>f. \<exists>d. f = Entry d ApexHint) fs =
      length (filter (\<lambda>e. re_scope_hint e = ApexHint) (concat (map (entries_of source category) fs)))" for fs
  proof (induction fs)
    case (Cons f fs)
    then show ?case by (cases f) (auto simp: count_lines_def entries_of_def)
  qed (simp add: count_lines_def)
  have wf: "list_all (\<lambda>e. re_domain e \<noteq> [] \<and> CHR ''#'' \<notin> set (re_domain e) \<and> parse_ip (re_domain e) = None \<and>
      re_source e = source \<and> re_category e = category) (concat (map (entries_of source category) ?fs))"
    by (auto simp: list_all_iff entries_of_def split: line_fate.splits dest: line_fate_Entry [OF sym])
  have doc: "parse_document from_utf8_lossy bs source category format =
      \<lparr>po_entries = concat (map (entries_of source category) ?fs),
       po_report = \<lparr>skipped_comment_or_blank = count_lines (\<lambda>f. f = Skipped) ?fs,
         dropped_malformed = count_lines (\<lambda>f. f = Malformed_line) ?fs,
         pr_dropped_ip_literal = count_lines (\<lambda>f. f = Ip_line) ?fs,
         wildcard_count = count_lines (\<lambda>f. \<exists>d. f = Entry d ApexHint) ?fs\<rparr>\<rparr>"
    by (simp add: parse_document_def parse_lines_fates Let_def del: map_map)
  show ?thesis using sum_fates [of ?fs] wild [of ?fs] wf by (simp add: doc Let_def comp_def)
qed

text \<open>A fetched source reaches its parser only when it was served at the pinned revision, under the licence
  recorded with the pin, and that licence is allowed; the snapshot says exactly what was served.  Otherwise
  the first of these checks that fails names the error.\<close>

theorem fetch_source_validates:
  "case fetch_source fetch config allowlist of
     Inr (snapshot, bs) \<Rightarrow>
       fetch config = Inr \<lparr>fs_revision = sc_pinned_revision config, fs_license = ss_license snapshot,
         fs_fetched_at = ss_fetched_at snapshot, fs_bytes = bs\<rparr> \<and>
       ss_source snapshot = sc_source config \<and> ss_revision snapshot = sc_pinned_revision config \<and>
       spdx_matches (ss_license snapshot) (sc_expected_license config) \<and>
       list_ex (\<lambda>a. spdx_matches a (ss_license snapshot)) allowlist
   | Inl e \<Rightarrow>
       (case fetch config of
          Inl e' \<Rightarrow> e = e'
        | Inr f \<Rightarrow>
            if fs_revision f \<noteq> sc_pinned_revision config
            then e = RevisionMismatch (sc_pinned_revision config) (fs_revision f)
            else if spdx_matches (fs_license f) (sc_expected_license config)
            then e = LicenseNotAllowed (fs_license f) \<and> list_all (\<lambda>a. \<not> spdx_matches a (fs_license f)) allowlist
            else e = LicenseChanged (sc_expected_license config) (fs_license f))"
proof (cases "fetch config")
  case (Inr f)
  then show ?thesis
    by (cases f) (auto simp: fetch_source_def list_ex_iff list_all_iff)
qed (simp add: fetch_source_def)

section \<open>The interface of a fetcher\<close>

text \<open>What \<open>fetch_source\<close> relies on: a fetcher that hands out a source was sent it, in the sense of \<open>sent\<close>.
  The GitHub and the UT1 fetcher are instances.\<close>

locale source_fetcher =
  fixes fetch :: "source_config \<Rightarrow> fetch_error + fetched_source"
    and sent :: "source_config \<Rightarrow> fetched_source \<Rightarrow> bool"
  assumes fetched_was_sent: "fetch config = Inr s \<Longrightarrow> sent config s"
begin

text \<open>An accepted source was sent, under the pinned revision and an allowed license.\<close>

lemma accepted_was_sent:
  assumes "fetch_source fetch config allowlist = Inr (snapshot, bs)"
  shows "ss_source snapshot = sc_source config \<and> ss_revision snapshot = sc_pinned_revision config
    \<and> spdx_matches (ss_license snapshot) (sc_expected_license config)
    \<and> list_ex (\<lambda>a. spdx_matches a (ss_license snapshot)) allowlist
    \<and> sent config \<lparr>fs_revision = sc_pinned_revision config, fs_license = ss_license snapshot,
         fs_fetched_at = ss_fetched_at snapshot, fs_bytes = bs\<rparr>"
proof -
  obtain s where s: "fetch config = Inr s" "fs_revision s = sc_pinned_revision config"
    "spdx_matches (fs_license s) (sc_expected_license config)"
    "list_ex (\<lambda>a. spdx_matches a (fs_license s)) allowlist"
    "snapshot = \<lparr>ss_source = sc_source config, ss_revision = fs_revision s, ss_license = fs_license s,
       ss_fetched_at = fs_fetched_at s\<rparr>" "bs = fs_bytes s"
    using assms by (auto simp: fetch_source_def split: sum.splits if_splits)
  show ?thesis
    using s fetched_was_sent [OF s(1)] by (cases s) simp
qed

end

end
