(* ===== verification/Publish_Run.thy ===== *)
theory Publish_Run
  imports Sweep_Safety Slots Publish_Policy Gates Merge Sources
begin

text \<open>
  A run of the pipeline (\<open>domain-blocklist/src/main.rs\<close> and \<open>cli.rs\<close>): fetching all sources, merging, the
  liveness sweep, the gates and the publication.  What the run reads from outside (files, feeds, resolvers,
  the database, the cryptography) is an environment; what it writes to the output directory is the list of its
  effects.  The clock stands still during a run, and logging is left out.
\<close>

section \<open>The command line\<close>

record cli =
  cl_dry_run :: bool
  cl_fixture_dir :: "string option"
  cl_cache :: "string option"
  cl_skip_liveness :: bool
  cl_control_set :: "string option"
  cl_exclusions :: "string option"
  cl_denylist :: "string option"
  cl_allow_license :: "string list"
  cl_signing_keys :: "string list"
  cl_trust_keys :: "string list"
  cl_build_version :: "u64 option"
  cl_resolver1 :: string
  cl_resolver2 :: string
  cl_concurrency :: nat
  cl_canary_every :: nat
  cl_checkpoint_every :: nat
  cl_ttl_seconds :: u64
  cl_quarantine_seconds :: u64
  cl_canary_alive :: "string list"
  cl_canary_dead :: "string list"
  cl_max_shrinkage_pct :: fp
  cl_shrinkage_floor :: u64
  cl_max_growth_pct :: fp
  cl_max_fp_rate :: fp
  cl_min_control_size :: nat
  cl_size_ceiling_bytes :: u64
  cl_sample :: "nat option"

datatype run_error =
  QuarantineTooShort
| NoSigningKey
| BadKeyArg string
| KeyFileUnreadable string
| KeyFileLength nat
| BadVerifyingKey string
| TextFileUnreadable string
| GithubClientFailed
| FetchFailed source_id fetch_error
| SnapshotConflict
| CacheUnreadable
| NoCachePath
| CacheOpenFailed
| NoCanaryControls
| InvalidCanary canary_config_error
| InvalidResolver
| ScratchWriteFailed store_error
| DnsClientFailed
| SweepFailed sweep_error
| CacheIterationFailed
| ScratchReadFailed store_error
| PreviousBuildUnusable load_error
| RollbackRefused u64
| NoControlSet
| BuildFailed fst_build_error
| GatesFailed "(string \<times> gate_result) list"

text \<open>\<open>2 * ttl_seconds\<close> wraps in a release build.\<close>

definition validate :: "cli \<Rightarrow> run_error option" where
  "validate cli = (if cl_quarantine_seconds cli < 2 * cl_ttl_seconds cli then Some QuarantineTooShort else None)"

definition effective_skip_liveness :: "cli \<Rightarrow> bool" where
  "effective_skip_liveness cli \<longleftrightarrow> cl_skip_liveness cli \<or> cl_fixture_dir cli \<noteq> None"

section \<open>What a run reads from outside\<close>

record ('sk, 'vk, 'db) env =
  ev_to_ascii :: to_ascii
  ev_psl_domain :: "string \<Rightarrow> string option"
  ev_from_utf8_lossy :: "bytes \<Rightarrow> string"
  ev_read_file :: "string \<Rightarrow> bytes option"
  ev_read_text :: "string \<Rightarrow> string option"
  ev_exists :: "string \<Rightarrow> bool"
  ev_github :: "(source_config \<Rightarrow> fetch_error + fetched_source) option"
  ev_ut1 :: "category \<Rightarrow> source_config \<Rightarrow> fetch_error + fetched_source"
  ev_signing_key :: "bytes \<Rightarrow> 'sk"
  ev_verifying_key :: "'sk \<Rightarrow> 'vk"
  ev_parse_verifying_key :: "bytes \<Rightarrow> 'vk option"
  ev_sign :: "'sk \<Rightarrow> bytes \<Rightarrow> bytes"
  ev_loader :: "'vk loader"
  ev_fst_keys :: "bytes \<Rightarrow> string list option"
  ev_fst_encode :: fst_encode
  ev_parse_addr :: "string \<Rightarrow> bool"
  ev_dns_ready :: bool
  ev_net :: network
  ev_sched :: scheduler
  ev_serialize_entry :: "merged_entry \<Rightarrow> bytes option"
  ev_deserialize_entry :: "bytes \<Rightarrow> merged_entry option"
  ev_redb :: "'db redb_ops"
  ev_codec :: codec
  ev_hash_iter :: "cache \<Rightarrow> (string \<times> cache_entry) list"
  ev_now :: timestamp

section \<open>Keys and text files\<close>

definition read_lines :: "('sk, 'vk, 'db) env \<Rightarrow> string \<Rightarrow> run_error + string list" where
  "read_lines env path =
     (case ev_read_text env path of
        None \<Rightarrow> Inl (TextFileUnreadable path)
      | Some text \<Rightarrow>
          Inr (filter (\<lambda>line. line \<noteq> [] \<and> \<not> prefix ''#'' line) (map trim_str (str_lines text))))"

text \<open>\<open>cli.<option>.map(read_lines).transpose()?.unwrap_or_default()\<close>.\<close>

definition read_lines_or_default :: "('sk, 'vk, 'db) env \<Rightarrow> string option \<Rightarrow> run_error + string list" where
  "read_lines_or_default env path = (case path of None \<Rightarrow> Inr [] | Some p \<Rightarrow> read_lines env p)"

definition parse_key_arg :: "('sk, 'vk, 'db) env \<Rightarrow> string \<Rightarrow> run_error + string \<times> bytes" where
  "parse_key_arg env arg =
     (case split_once CHR '':'' arg of
        None \<Rightarrow> Inl (BadKeyArg arg)
      | Some (key_id, path) \<Rightarrow>
          (case ev_read_file env path of
             None \<Rightarrow> Inl (KeyFileUnreadable path)
           | Some bs \<Rightarrow> if length bs = 32 then Inr (key_id, bs) else Inl (KeyFileLength (length bs))))"

text \<open>\<open>iter().map(f).collect::<Result<Vec<_>>>()\<close>.\<close>

fun collect_map :: "('a \<Rightarrow> 'e + 'b) \<Rightarrow> 'a list \<Rightarrow> 'e + 'b list" where
  "collect_map f [] = Inr []"
| "collect_map f (x # xs) =
     (case f x of
        Inl e \<Rightarrow> Inl e
      | Inr y \<Rightarrow> (case collect_map f xs of Inl e \<Rightarrow> Inl e | Inr ys \<Rightarrow> Inr (y # ys)))"

definition load_signing_keys :: "('sk, 'vk, 'db) env \<Rightarrow> string list \<Rightarrow> run_error + (key_id \<times> 'sk) list" where
  "load_signing_keys env args =
     (if args = [] then Inl NoSigningKey
      else collect_map (\<lambda>arg. case parse_key_arg env arg of
          Inl e \<Rightarrow> Inl e
        | Inr (key_id, bs) \<Rightarrow> Inr (key_id, ev_signing_key env bs)) args)"

definition load_trust_keys ::
  "('sk, 'vk, 'db) env \<Rightarrow> string list \<Rightarrow> (key_id \<times> 'sk) list \<Rightarrow> run_error + (key_id \<times> 'vk) list" where
  "load_trust_keys env trust_args signing_keys =
     (if trust_args = [] then Inr (map (\<lambda>(key_id, key). (key_id, ev_verifying_key env key)) signing_keys)
      else collect_map (\<lambda>arg. case parse_key_arg env arg of
          Inl e \<Rightarrow> Inl e
        | Inr (key_id, bs) \<Rightarrow>
            (case ev_parse_verifying_key env bs of None \<Rightarrow> Inl (BadVerifyingKey arg) | Some vk \<Rightarrow> Inr (key_id, vk)))
        trust_args)"

section \<open>The sources\<close>

record source_job =
  sj_fixture_name :: string
  sj_config :: source_config
  sj_category :: category
  sj_parse :: "bytes \<Rightarrow> category \<Rightarrow> parse_output"

definition default_source_jobs :: "(bytes \<Rightarrow> string) \<Rightarrow> source_job list" where
  "default_source_jobs lossy =
     [\<lparr>sj_fixture_name = ''stevenblack'',
       sj_config = \<lparr>sc_source = StevenBlack,
         sc_url = ''https://raw.githubusercontent.com/StevenBlack/hosts/35db0ae94f7552dfd18218baffe74bd720a585f7/alternates/porn-only/hosts'',
         sc_pinned_revision = ''35db0ae94f7552dfd18218baffe74bd720a585f7'',
         sc_expected_license = LicenseId ''MIT''\<rparr>,
       sj_category = Adult, sj_parse = (\<lambda>bs category. parse_stevenblack lossy bs)\<rparr>,
      \<lparr>sj_fixture_name = ''hagezi_nsfw'',
       sj_config = \<lparr>sc_source = Hagezi,
         sc_url = ''https://raw.githubusercontent.com/hagezi/dns-blocklists/3975aafcc2e4542f7b5383f69bd6b100c4fb9040/wildcard/nsfw-onlydomains.txt'',
         sc_pinned_revision = ''3975aafcc2e4542f7b5383f69bd6b100c4fb9040'',
         sc_expected_license = LicenseId ''GPL-3.0''\<rparr>,
       sj_category = Adult, sj_parse = (\<lambda>bs category. parse_hagezi lossy bs)\<rparr>,
      \<lparr>sj_fixture_name = ''ut1_adult'',
       sj_config = \<lparr>sc_source = Ut1,
         sc_url = ''https://dsi.ut-capitole.fr/blacklists/download/adult.tar.gz'',
         sc_pinned_revision = ''last-modified=Sat, 15 Aug 2026 20:50:17 GMT'',
         sc_expected_license = LicenseId ''CC-BY-SA-4.0''\<rparr>,
       sj_category = Adult, sj_parse = parse_domains lossy\<rparr>,
      \<lparr>sj_fixture_name = ''ut1_gambling'',
       sj_config = \<lparr>sc_source = Ut1,
         sc_url = ''https://dsi.ut-capitole.fr/blacklists/download/gambling.tar.gz'',
         sc_pinned_revision = ''last-modified=Sat, 15 Aug 2026 20:50:17 GMT'',
         sc_expected_license = LicenseId ''CC-BY-SA-4.0''\<rparr>,
       sj_category = Gambling, sj_parse = parse_domains lossy\<rparr>,
      \<lparr>sj_fixture_name = ''ut1_dating'',
       sj_config = \<lparr>sc_source = Ut1,
         sc_url = ''https://dsi.ut-capitole.fr/blacklists/download/dating.tar.gz'',
         sc_pinned_revision = ''last-modified=Sat, 15 Aug 2026 20:50:17 GMT'',
         sc_expected_license = LicenseId ''CC-BY-SA-4.0''\<rparr>,
       sj_category = Dating, sj_parse = parse_domains lossy\<rparr>]"

definition fetch_ut1 :: "('sk, 'vk, 'db) env \<Rightarrow> source_job \<Rightarrow> fetch_error + fetched_source" where
  "fetch_ut1 env job = ev_ut1 env (sj_category job) (sj_config job)"

definition fetch_one_source ::
  "('sk, 'vk, 'db) env \<Rightarrow> string option \<Rightarrow> license_id list \<Rightarrow> (source_config \<Rightarrow> fetch_error + fetched_source) option \<Rightarrow>
   source_job \<Rightarrow> (run_error + raw_entry list \<times> category \<times> source_snapshot) exec" where
  "fetch_one_source env fixture_dir allowlist github_fetcher job = do {
     fetched_result \<leftarrow>
       (case fixture_dir of
          Some dir \<Rightarrow>
            (let path = dir @ ''/'' @ sj_fixture_name job @ ''.txt''
             in Some (case ev_read_file env path of
                        Some bs \<Rightarrow> Inr \<lparr>fs_revision = sc_pinned_revision (sj_config job),
                          fs_license = sc_expected_license (sj_config job), fs_fetched_at = ev_now env, fs_bytes = bs\<rparr>
                      | None \<Rightarrow> Inl (TransportError path)))
        | None \<Rightarrow>
            (case sc_source (sj_config job) of
               Ut1 \<Rightarrow> Some (fetch_ut1 env job)
             | _ \<Rightarrow> map_option (\<lambda>fetch. fetch (sj_config job)) github_fetcher));
     Some (case fetch_source (\<lambda>c. fetched_result) (sj_config job) allowlist of
             Inl e \<Rightarrow> Inl (FetchFailed (sc_source (sj_config job)) e)
           | Inr (snapshot, bs) \<Rightarrow>
               Inr (po_entries (sj_parse job bs (sj_category job)), sj_category job, snapshot))
   }"

text \<open>\<open>try_join_all\<close>: all succeed, or some error is returned; of several, the first in job order here.\<close>

fun fetch_jobs ::
  "(source_job \<Rightarrow> (run_error + raw_entry list \<times> category \<times> source_snapshot) exec) \<Rightarrow> source_job list \<Rightarrow>
   (run_error + (raw_entry list \<times> category \<times> source_snapshot) list) exec" where
  "fetch_jobs fetch [] = Some (Inr [])"
| "fetch_jobs fetch (job # jobs) = do {
     r \<leftarrow> fetch job;
     case r of
       Inl e \<Rightarrow> Some (Inl e)
     | Inr x \<Rightarrow> do {
         rest \<leftarrow> fetch_jobs fetch jobs;
         Some (case rest of Inl e \<Rightarrow> Inl e | Inr xs \<Rightarrow> Inr (x # xs))
       }
   }"

definition fetch_all_sources ::
  "('sk, 'vk, 'db) env \<Rightarrow> source_job list \<Rightarrow> string option \<Rightarrow> license_id list \<Rightarrow>
   (run_error + raw_entry list \<times> (category \<times> source_snapshot) list) exec" where
  "fetch_all_sources env jobs fixture_dir allowlist =
     (if fixture_dir = None \<and> ev_github env = None then Some (Inl GithubClientFailed)
      else do {
        results \<leftarrow> fetch_jobs (fetch_one_source env fixture_dir allowlist
          (if fixture_dir = None then ev_github env else None)) jobs;
        Some (case results of
                Inl e \<Rightarrow> Inl e
              | Inr rs \<Rightarrow> Inr (concat (map fst rs), map snd rs))
      })"

section \<open>The liveness sweep of a run\<close>

datatype 'db liveness_cache = Redb "'db cache_store" | Memory cache

definition liveness_backend :: "'db redb_ops \<Rightarrow> codec \<Rightarrow> 'db liveness_cache cache_backend" where
  "liveness_backend rd cd = \<lparr>
     cb_get = (\<lambda>domain c. case c of
         Redb store \<Rightarrow> (case store_get rd cd domain store of (e, store) \<Rightarrow> (e, Redb store))
       | Memory m \<Rightarrow> (case cb_get hash_map_backend domain m of (e, m) \<Rightarrow> (e, Memory m))),
     cb_set = (\<lambda>domain entry c. case c of
         Redb store \<Rightarrow> Redb (store_set domain entry store)
       | Memory m \<Rightarrow> Memory (cb_set hash_map_backend domain entry m)),
     cb_flush = (\<lambda>c. case c of
         Redb store \<Rightarrow> (case store_flush rd cd store of (r, store) \<Rightarrow> (r, Redb store))
       | Memory m \<Rightarrow> (case cb_flush hash_map_backend m of (r, m) \<Rightarrow> (r, Memory m)))\<rparr>"

text \<open>\<open>for_each\<close>; the iteration order of the in-memory map is a parameter.\<close>

definition liveness_for_each ::
  "'db redb_ops \<Rightarrow> codec \<Rightarrow> (cache \<Rightarrow> (string \<times> cache_entry) list) \<Rightarrow> 'db liveness_cache \<Rightarrow>
   (string \<times> cache_entry) list option \<times> 'db liveness_cache" where
  "liveness_for_each rd cd hash_iter c =
     (case c of
        Redb store \<Rightarrow> (case store_for_each rd cd store of (es, store) \<Rightarrow> (es, Redb store))
      | Memory m \<Rightarrow> (Some (hash_iter m), Memory m))"

definition sweep_config_of :: "cli \<Rightarrow> sweep_config" where
  "sweep_config_of cli = \<lparr>sc_concurrency = cl_concurrency cli, sc_canary_every = cl_canary_every cli,
     sc_ttl_seconds = cl_ttl_seconds cli, sc_quarantine_seconds = cl_quarantine_seconds cli,
     sc_checkpoint_every = (if cl_dry_run cli \<or> cl_cache cli = None then 0 else cl_checkpoint_every cli)\<rparr>"

definition open_liveness_cache :: "('sk, 'vk, 'db) env \<Rightarrow> cli \<Rightarrow> run_error + 'db liveness_cache" where
  "open_liveness_cache env cli =
     (if cl_dry_run cli then
        (case cl_cache cli of
           None \<Rightarrow> Inr (Memory Map.empty)
         | Some path \<Rightarrow>
             (case read_snapshot (ev_redb env) (ev_codec env) (ev_exists env path) path of
                None \<Rightarrow> Inl CacheUnreadable | Some m \<Rightarrow> Inr (Memory m)))
      else
        (case cl_cache cli of
           None \<Rightarrow> Inl NoCachePath
         | Some path \<Rightarrow>
             (case store_open (ev_redb env) path of None \<Rightarrow> Inl CacheOpenFailed | Some store \<Rightarrow> Inr (Redb store))))"

text \<open>The part of \<open>run_liveness\<close> after the sweep: the breakdown that is logged walks the cache once, the
  scratch file is read again, and the report walks the cache a second time.\<close>

definition liveness_results ::
  "('sk, 'vk, 'db) env \<Rightarrow> bytes \<Rightarrow> 'db liveness_cache sweep_outcome \<Rightarrow>
   run_error + merged_entry list \<times> negative_outcome_report" where
  "liveness_results env scratch outcome =
     (let (breakdown, cache) = liveness_for_each (ev_redb env) (ev_codec env) (ev_hash_iter env) (so_cache outcome)
      in case breakdown of
           None \<Rightarrow> Inl CacheIterationFailed
         | Some _ \<Rightarrow>
             (case read_entries (ev_deserialize_entry env) scratch of
                Inl e \<Rightarrow> Inl (ScratchReadFailed e)
              | Inr entries \<Rightarrow>
                  (let kept = filter (\<lambda>entry. me_domain entry \<notin> so_pruned_domains outcome) entries;
                       (listed, cache) = liveness_for_each (ev_redb env) (ev_codec env) (ev_hash_iter env) cache
                   in case listed of
                        None \<Rightarrow> Inl CacheIterationFailed
                      | Some es \<Rightarrow> Inr (kept, negative_outcome_report es))))"

definition run_liveness ::
  "('sk, 'vk, 'db) env \<Rightarrow> cli \<Rightarrow> merged_entry list \<Rightarrow> run_error + merged_entry list \<times> negative_outcome_report" where
  "run_liveness env cli entries =
     (case open_liveness_cache env cli of
        Inl e \<Rightarrow> Inl e
      | Inr cache \<Rightarrow>
          if cl_canary_alive cli = [] \<or> cl_canary_dead cli = [] then Inl NoCanaryControls
          else (case canary_config_new (cl_canary_alive cli) (cl_canary_dead cli) of
                  Inl e \<Rightarrow> Inl (InvalidCanary e)
                | Inr canary \<Rightarrow>
                    if \<not> ev_parse_addr env (cl_resolver1 cli) \<or> \<not> ev_parse_addr env (cl_resolver2 cli)
                    then Inl InvalidResolver
                    else (case write_entries (ev_serialize_entry env) entries of
                            Inl e \<Rightarrow> Inl (ScratchWriteFailed e)
                          | Inr scratch \<Rightarrow>
                              if \<not> ev_dns_ready env then Inl DnsClientFailed
                              else (case run_sweep_streaming (ev_net env) (ev_sched env) (ev_deserialize_entry env)
                                       (liveness_backend (ev_redb env) (ev_codec env)) (Some scratch) cache canary
                                       (sweep_config_of cli) (ev_now env) [] of
                                      (Inl e, _) \<Rightarrow> Inl (SweepFailed e)
                                    | (Inr outcome, _) \<Rightarrow> liveness_results env scratch outcome))))"

section \<open>The run\<close>

definition try_run :: "('e + 'a) exec \<Rightarrow> ('a \<Rightarrow> ('e + 'b) exec) \<Rightarrow> ('e + 'b) exec" where
  "try_run r k = (case r of None \<Rightarrow> None | Some (Inl e) \<Rightarrow> Some (Inl e) | Some (Inr x) \<Rightarrow> k x)"

definition allowlist_of :: "cli \<Rightarrow> license_id list" where
  "allowlist_of cli =
     map LicenseId (if cl_allow_license cli = [] then [''MIT'', ''CC0-1.0'', ''GPL-3.0'', ''CC-BY-SA-4.0'']
       else cl_allow_license cli)"

definition personal_names :: "merged_entry list \<Rightarrow> string list" where
  "personal_names entries =
     map me_domain (filter (\<lambda>e. flag_personal_name (hd (split_on CHR ''.'' (me_domain e)))) entries)"

text \<open>The first half of \<open>run\<close>: what there is to publish.\<close>

record 'sk gathered =
  ga_signing_keys :: "(key_id \<times> 'sk) list"
  ga_allowlist :: "license_id list"
  ga_snapshots :: "source_snapshot list"
  ga_personal_names :: "string list"
  ga_entries :: "merged_entry list"
  ga_negative_report :: "negative_outcome_report option"

definition gather :: "('sk, 'vk, 'db) env \<Rightarrow> cli \<Rightarrow> (run_error + 'sk gathered \<times> (key_id \<times> 'vk) list) exec" where
  "gather env cli =
     (case validate cli of
        Some e \<Rightarrow> Some (Inl e)
      | None \<Rightarrow>
          try_run (Some (load_signing_keys env (cl_signing_keys cli))) (\<lambda>signing_keys.
          try_run (Some (load_trust_keys env (cl_trust_keys cli) signing_keys)) (\<lambda>trust_keys.
          let allowlist = allowlist_of cli in
          try_run (Some (read_lines_or_default env (cl_denylist cli))) (\<lambda>denylist.
          try_run (fetch_all_sources env (default_source_jobs (ev_from_utf8_lossy env)) (cl_fixture_dir cli) allowlist)
            (\<lambda>(raw_entries, snapshots).
          try_run (map_option (map_sum (\<lambda>_. SnapshotConflict) (\<lambda>ss. ss)) (collapse_snapshots_by_source snapshots))
            (\<lambda>snapshots.
          let merged = mo_entries (merge (ev_to_ascii env) (ev_psl_domain env) raw_entries denylist);
              entries = (case cl_sample cli of None \<Rightarrow> merged | Some n \<Rightarrow> take n merged) in
          try_run (if effective_skip_liveness cli then Some (Inr (entries, None))
                   else Some (map_sum (\<lambda>e. e) (\<lambda>(kept, report). (kept, Some report)) (run_liveness env cli entries)))
            (\<lambda>(entries, negative_report).
          Some (Inr (\<lparr>ga_signing_keys = signing_keys, ga_allowlist = allowlist, ga_snapshots = snapshots,
            ga_personal_names = personal_names merged, ga_entries = entries,
            ga_negative_report = negative_report\<rparr>, trust_keys)))))))))"

text \<open>The second half: the previous build, the gates and the artifact.\<close>

record candidate =
  ca_gates :: "(string \<times> gate_result) list"
  ca_review :: "false_positive_hit list"
  ca_artifact :: fst_artifact

definition previous_version :: "previous_load \<Rightarrow> u64 option" where
  "previous_version prev = (case prev of NoPreviousBuild \<Rightarrow> None | Existing_build mf domains \<Rightarrow> Some (mf_version mf))"

definition early_gates ::
  "('sk, 'vk, 'db) env \<Rightarrow> cli \<Rightarrow> previous_load \<Rightarrow> 'sk gathered \<Rightarrow> string list \<Rightarrow> string list \<Rightarrow>
   (string \<times> gate_result) list" where
  "early_gates env cli prev g control_set exclusions =
     (let entries = ga_entries g;
          new_keys = sorted_list_of_set (me_domain ` set entries);
          prev_count = (case prev of NoPreviousBuild \<Rightarrow> NoPrevious | Existing_build mf ds \<Rightarrow> Existing (mf_entry_count mf));
          prev_keys = (case prev of NoPreviousBuild \<Rightarrow> NoPrevious | Existing_build mf ds \<Rightarrow> Existing ds)
      in [(''shrinkage'', shrinkage_gate prev_count (of_nat (length entries)) (cl_max_shrinkage_pct cli)
             (cl_shrinkage_floor cli)),
          (''growth'', growth_gate prev_keys new_keys (cl_max_growth_pct cli)),
          (''license'', license_gate entries (ga_snapshots g) (ga_allowlist g)),
          (''false_positive'', false_positive_gate (ev_to_ascii env) entries control_set exclusions
             (cl_max_fp_rate cli) (cl_min_control_size cli))])"

definition judge ::
  "('sk, 'vk, 'db) env \<Rightarrow> file_system \<Rightarrow> cli \<Rightarrow> 'sk gathered \<Rightarrow> (key_id \<times> 'vk) list \<Rightarrow> (run_error + candidate) exec" where
  "judge env store cli g trust_keys =
     try_run (Some (map_sum PreviousBuildUnusable (\<lambda>p. p)
       (load_previous ((ev_loader env)\<lparr>ld_trusted := trust_keys\<rparr>) (ev_fst_keys env) store))) (\<lambda>previous.
     let next_version = (case previous_version previous of None \<Rightarrow> 1 | Some v \<Rightarrow> v + 1);
         version = (case cl_build_version cli of None \<Rightarrow> next_version | Some v \<Rightarrow> v) in
     if (case previous_version previous of None \<Rightarrow> False | Some v \<Rightarrow> version \<le> v)
     then Some (Inl (RollbackRefused version))
     else
       try_run (Some (read_lines_or_default env (cl_control_set cli))) (\<lambda>control_set.
       try_run (Some (read_lines_or_default env (cl_exclusions cli))) (\<lambda>exclusions.
       if control_set = [] \<and> \<not> cl_dry_run cli then Some (Inl NoControlSet)
       else
         try_run (map_option (map_sum BuildFailed (\<lambda>a. a))
             (build (ev_fst_encode env) (ld_sha256 (ev_loader env)) (ld_serialize (ev_loader env)) (ev_sign env)
                (ga_entries g) (pick_output_license (ga_snapshots g)) (ga_snapshots g) version (ev_now env)
                (ga_signing_keys g)))
           (\<lambda>artifact.
         Some (Inr \<lparr>
           ca_gates = early_gates env cli previous g control_set exclusions @
             [(''size'', size_gate (fa_fst_len artifact) (cl_size_ceiling_bytes cli))],
           ca_review = review_queue (ev_to_ascii env) (ga_entries g) control_set exclusions,
           ca_artifact = artifact\<rparr>)))))"

text \<open>What a run writes to the output directory, in order.\<close>

datatype run_effect = WriteOutput string string | PublishArtifact fst_artifact

fun scope_name :: "rule_scope \<Rightarrow> string" where
  "scope_name Apex = ''Apex''" | "scope_name ExactHost = ''ExactHost''"

fun source_name :: "source_id \<Rightarrow> string" where
  "source_name StevenBlack = ''StevenBlack''" | "source_name Hagezi = ''Hagezi''" | "source_name Ut1 = ''Ut1''"

fun comma_separated :: "string list \<Rightarrow> string" where
  "comma_separated [] = []"
| "comma_separated [x] = x"
| "comma_separated (x # y # xs) = x @ '', '' @ comma_separated (y # xs)"

definition write_review_queue :: "string list \<Rightarrow> false_positive_hit list \<Rightarrow> run_effect list" where
  "write_review_queue names false_positives =
     [WriteOutput ''review-queue-personal-names.txt'' (concat (map (\<lambda>d. d @ [CHR 0x0A]) names)),
      WriteOutput ''review-queue-false-positives.txt''
        (concat (map (\<lambda>hit. fh_domain hit @ [CHR 0x09] @ scope_name (fh_scope hit) @ [CHR 0x09] @ ''['' @
           comma_separated (map source_name (fh_sources hit)) @ '']'' @ [CHR 0x0A]) false_positives))]"

definition write_negative_outcome_report :: "negative_outcome_report option \<Rightarrow> run_effect list" where
  "write_negative_outcome_report report =
     (case report of
        None \<Rightarrow> []
      | Some r \<Rightarrow>
          [WriteOutput ''liveness-negative-outcomes.txt''
            (concat (map (\<lambda>d. ''dead'' @ [CHR 0x09] @ d @ [CHR 0x0A]) (nr_dead r)) @
             concat (map (\<lambda>(reason, ds). concat (map (\<lambda>d. ''unknown:'' @ reason @ [CHR 0x09] @ d @ [CHR 0x0A]) ds))
               (unknown_by_reason r)))])"

definition finish_run :: "cli \<Rightarrow> 'sk gathered \<Rightarrow> candidate \<Rightarrow> (run_error + unit) \<times> run_effect list" where
  "finish_run cli g c =
     (let reports = write_review_queue (ga_personal_names g) (ca_review c) @
            write_negative_outcome_report (ga_negative_report g)
      in if \<exists>(name, result) \<in> set (ca_gates c). \<not> is_pass result then (Inl (GatesFailed (ca_gates c)), reports)
         else if cl_dry_run cli then (Inr (), [])
         else (Inr (), reports @ [PublishArtifact (ca_artifact c)]))"

definition run :: "('sk, 'vk, 'db) env \<Rightarrow> file_system \<Rightarrow> cli \<Rightarrow> ((run_error + unit) \<times> run_effect list) exec" where
  "run env store cli =
     (case gather env cli of
        None \<Rightarrow> None
      | Some (Inl e) \<Rightarrow> Some (Inl e, [])
      | Some (Inr (g, trust_keys)) \<Rightarrow>
          (case judge env store cli g trust_keys of
             None \<Rightarrow> None
           | Some (Inl e) \<Rightarrow> Some (Inl e, [])
           | Some (Inr c) \<Rightarrow> Some (finish_run cli g c)))"

end
