(* ===== verification/Publish_Safety.thy ===== *)
theory Publish_Safety
  imports Publish_Run
begin

text \<open>
  What a run of the pipeline guarantees: an artifact is published only through every gate, a dry run
  publishes nothing, the liveness step drops exactly the domains the resident sweep prunes, and a pruned
  domain was seen dead twice, a time to live apart.
\<close>

section \<open>Publication\<close>

lemma try_run_Inr:
  "try_run r k = Some (Inr y) \<longleftrightarrow> (\<exists>x. r = Some (Inr x) \<and> k x = Some (Inr y))"
  by (auto simp: try_run_def split: option.split sum.split)

lemma map_err_Inr: "map_option (map_sum f (\<lambda>a. a)) r = Some (Inr x) \<longleftrightarrow> r = Some (Inr x)"
proof (cases r)
  case (Some y)
  then show ?thesis by (cases y) auto
qed simp

lemma not_in_reports:
  "PublishArtifact art \<notin> set (write_review_queue names hits @ write_negative_outcome_report report)"
  by (auto simp: write_review_queue_def write_negative_outcome_report_def split: option.split)

lemma judge_Inr:
  assumes "judge env store cli g trust_keys = Some (Inr c)"
  obtains previous control_set exclusions version where
    "load_previous ((ev_loader env)\<lparr>ld_trusted := trust_keys\<rparr>) (ev_fst_keys env) store = Inr previous"
    "read_lines_or_default env (cl_control_set cli) = Inr control_set"
    "read_lines_or_default env (cl_exclusions cli) = Inr exclusions"
    "control_set \<noteq> [] \<or> cl_dry_run cli"
    "ca_gates c = early_gates env cli previous g control_set exclusions @
       [(''size'', size_gate (fa_fst_len (ca_artifact c)) (cl_size_ceiling_bytes cli))]"
    "ca_review c = review_queue (ev_to_ascii env) (ga_entries g) control_set exclusions"
    "build (ev_fst_encode env) (ld_sha256 (ev_loader env)) (ld_serialize (ev_loader env)) (ev_sign env)
       (ga_entries g) (pick_output_license (ga_snapshots g)) (ga_snapshots g) version (ev_now env)
       (ga_signing_keys g) = Some (Inr (ca_artifact c))"
    "case previous_version previous of None \<Rightarrow> True | Some v \<Rightarrow> v < version"
proof -
  from assms obtain previous where p:
    "load_previous ((ev_loader env)\<lparr>ld_trusted := trust_keys\<rparr>) (ev_fst_keys env) store = Inr previous"
    by (cases "load_previous ((ev_loader env)\<lparr>ld_trusted := trust_keys\<rparr>) (ev_fst_keys env) store")
      (simp_all add: judge_def try_run_def)
  let ?version = "case cl_build_version cli of
      None \<Rightarrow> (case previous_version previous of None \<Rightarrow> 1 | Some v \<Rightarrow> v + 1) | Some v \<Rightarrow> v"
  let ?stale = "case previous_version previous of None \<Rightarrow> False | Some v \<Rightarrow> ?version \<le> v"
  from assms have stale: "\<not> ?stale" by (simp add: judge_def p try_run_def [of "Some (Inr previous)"] Let_def split: if_splits)
  from assms obtain control_set exclusions artifact where r:
    "read_lines_or_default env (cl_control_set cli) = Inr control_set"
    "read_lines_or_default env (cl_exclusions cli) = Inr exclusions"
    "control_set \<noteq> [] \<or> cl_dry_run cli"
    "map_option (map_sum BuildFailed (\<lambda>a. a))
       (build (ev_fst_encode env) (ld_sha256 (ev_loader env)) (ld_serialize (ev_loader env)) (ev_sign env)
         (ga_entries g) (pick_output_license (ga_snapshots g)) (ga_snapshots g) ?version (ev_now env)
         (ga_signing_keys g)) = Some (Inr artifact)"
    "c = \<lparr>ca_gates = early_gates env cli previous g control_set exclusions @
         [(''size'', size_gate (fa_fst_len artifact) (cl_size_ceiling_bytes cli))],
       ca_review = review_queue (ev_to_ascii env) (ga_entries g) control_set exclusions, ca_artifact = artifact\<rparr>"
    unfolding judge_def p map_sum.simps try_run_Inr Let_def
    by (auto simp: stale try_run_Inr split: if_splits)
  from r(4) have "build (ev_fst_encode env) (ld_sha256 (ev_loader env)) (ld_serialize (ev_loader env)) (ev_sign env)
      (ga_entries g) (pick_output_license (ga_snapshots g)) (ga_snapshots g) ?version (ev_now env)
      (ga_signing_keys g) = Some (Inr artifact)"
    by (simp only: map_err_Inr)
  moreover from stale have "case previous_version previous of None \<Rightarrow> True | Some v \<Rightarrow> v < ?version"
    by (cases "previous_version previous") (simp_all add: not_le)
  ultimately show thesis using p r(1-3,5) by (intro that [of previous control_set exclusions ?version]) simp_all
qed

text \<open>A build without signing keys fails, so what is built is signed; a run that publishes has
  passed its gates, and the publication is its last effect.\<close>

lemma build_signed:
  assumes "build fst_encode sha256 serialize ed_sign entries lic sources version time sks = Some (Inr art)"
  shows "mf_signatures (fa_manifest art) \<noteq> []"
proof -
  have "sks \<noteq> []" using assms by (auto simp: build_def)
  moreover obtain signable where "mf_signatures (fa_manifest art) = sign_all ed_sign signable sks"
    by (rule build_InrD [OF assms])
  ultimately show ?thesis by (simp add: sign_all_def)
qed

lemma finish_run_publishes:
  assumes f: "finish_run cli g c = (r, effects)"
    and publishes: "\<not> list_all (\<lambda>e. case e of PublishArtifact art \<Rightarrow> False | _ \<Rightarrow> True) effects"
  shows "list_all (\<lambda>(name, gate). is_pass gate) (ca_gates c) \<and> \<not> cl_dry_run cli \<and> r = Inr () \<and>
    effects = write_review_queue (ga_personal_names g) (ca_review c) @
      write_negative_outcome_report (ga_negative_report g) @ [PublishArtifact (ca_artifact c)]"
proof -
  let ?reports = "write_review_queue (ga_personal_names g) (ca_review c) @
    write_negative_outcome_report (ga_negative_report g)"
  have "list_all (\<lambda>e. case e of PublishArtifact art \<Rightarrow> False | _ \<Rightarrow> True) ?reports"
    using not_in_reports by (auto simp: list_all_iff split: run_effect.split)
  with f publishes show ?thesis
    by (auto simp: finish_run_def Let_def list_all_iff [of "\<lambda>(name, gate). is_pass gate"]
        simp del: list_all_append split: if_splits)
qed

lemma gather_allowlist: "gather env cli = Some (Inr (g, trust_keys)) \<Longrightarrow> ga_allowlist g = allowlist_of cli"
  by (auto simp: gather_def try_run_Inr Let_def split: option.splits)

text \<open>What the two counting gates compare with: the entry count and the domains of the build that
  is published now.\<close>

abbreviation previous_count :: "previous_load \<Rightarrow> u64 previous_build" where
  "previous_count previous \<equiv>
     case previous of NoPreviousBuild \<Rightarrow> NoPrevious | Existing_build mf ds \<Rightarrow> Existing (mf_entry_count mf)"

abbreviation previous_keys :: "previous_load \<Rightarrow> string list previous_build" where
  "previous_keys previous \<equiv>
     case previous of NoPreviousBuild \<Rightarrow> NoPrevious | Existing_build mf ds \<Rightarrow> Existing ds"

text \<open>Everything that holds when a run publishes, of what it gathered.\<close>

lemma published_details:
  assumes run: "run env store cli = Some (r, effects)"
    and publishes: "\<not> list_all (\<lambda>e. case e of PublishArtifact art \<Rightarrow> False | _ \<Rightarrow> True) effects"
  shows "r = Inr () \<and> \<not> cl_dry_run cli \<and>
    (\<exists>g trust_keys previous control_set exclusions art.
       gather env cli = Some (Inr (g, trust_keys)) \<and>
       load_previous ((ev_loader env)\<lparr>ld_trusted := trust_keys\<rparr>) (ev_fst_keys env) store = Inr previous \<and>
       read_lines_or_default env (cl_control_set cli) = Inr control_set \<and> control_set \<noteq> [] \<and>
       read_lines_or_default env (cl_exclusions cli) = Inr exclusions \<and>
       build (ev_fst_encode env) (ld_sha256 (ev_loader env)) (ld_serialize (ev_loader env)) (ev_sign env)
         (ga_entries g) (pick_output_license (ga_snapshots g)) (ga_snapshots g)
         (mf_version (fa_manifest art)) (ev_now env) (ga_signing_keys g) = Some (Inr art) \<and>
       (case previous_version previous of None \<Rightarrow> True | Some v \<Rightarrow> v < mf_version (fa_manifest art)) \<and>
       mf_signatures (fa_manifest art) \<noteq> [] \<and>
       is_pass (shrinkage_gate (previous_count previous) (of_nat (length (ga_entries g)))
         (cl_max_shrinkage_pct cli) (cl_shrinkage_floor cli)) \<and>
       is_pass (growth_gate (previous_keys previous) (sorted_list_of_set (me_domain ` set (ga_entries g)))
         (cl_max_growth_pct cli)) \<and>
       is_pass (license_gate (ga_entries g) (ga_snapshots g) (allowlist_of cli)) \<and>
       is_pass (false_positive_gate (ev_to_ascii env) (ga_entries g) control_set exclusions
         (cl_max_fp_rate cli) (cl_min_control_size cli)) \<and>
       is_pass (size_gate (fa_fst_len art) (cl_size_ceiling_bytes cli)) \<and>
       effects = write_review_queue (ga_personal_names g)
           (review_queue (ev_to_ascii env) (ga_entries g) control_set exclusions) @
         write_negative_outcome_report (ga_negative_report g) @ [PublishArtifact art])"
proof -
  from run publishes obtain g tk c where g: "gather env cli = Some (Inr (g, tk))"
    and j: "judge env store cli g tk = Some (Inr c)" and f: "finish_run cli g c = (r, effects)"
    by (auto simp: run_def split: option.splits sum.splits)
  note fin = finish_run_publishes [OF f publishes]
  obtain previous control_set exclusions version where ju:
    "load_previous ((ev_loader env)\<lparr>ld_trusted := tk\<rparr>) (ev_fst_keys env) store = Inr previous"
    "read_lines_or_default env (cl_control_set cli) = Inr control_set"
    "read_lines_or_default env (cl_exclusions cli) = Inr exclusions"
    "control_set \<noteq> [] \<or> cl_dry_run cli"
    "ca_gates c = early_gates env cli previous g control_set exclusions @
       [(''size'', size_gate (fa_fst_len (ca_artifact c)) (cl_size_ceiling_bytes cli))]"
    "ca_review c = review_queue (ev_to_ascii env) (ga_entries g) control_set exclusions"
    "build (ev_fst_encode env) (ld_sha256 (ev_loader env)) (ld_serialize (ev_loader env)) (ev_sign env)
       (ga_entries g) (pick_output_license (ga_snapshots g)) (ga_snapshots g) version (ev_now env)
       (ga_signing_keys g) = Some (Inr (ca_artifact c))"
    "case previous_version previous of None \<Rightarrow> True | Some v \<Rightarrow> v < version"
    by (rule judge_Inr [OF j])
  have v: "mf_version (fa_manifest (ca_artifact c)) = version" by (rule build_InrD [OF ju(7)])
  have s: "mf_signatures (fa_manifest (ca_artifact c)) \<noteq> []" by (rule build_signed [OF ju(7)])
  have gates: "list_all (\<lambda>(name, gate). is_pass gate) (ca_gates c)" using fin by blast
  show ?thesis
  proof (intro conjI exI)
    show "effects = write_review_queue (ga_personal_names g)
        (review_queue (ev_to_ascii env) (ga_entries g) control_set exclusions) @
      write_negative_outcome_report (ga_negative_report g) @ [PublishArtifact (ca_artifact c)]"
      using fin unfolding ju(6) by blast
  qed (use fin g ju(1-4,8) ju(7) s gates in \<open>simp_all only: v, simp_all add: ju(5) early_gates_def Let_def
      gather_allowlist [OF g]\<close>)
qed

text \<open>C1: an artifact is published only by a real run in which everything was in order: every key and source
  was read, the previous build is either absent or verified, the control set and the exclusions were read from
  the files the command line names and the control set is not empty, the artifact was built from the gathered
  entries under a version above the previous one, it is signed, and each of the five gates passed on exactly
  these entries, this control set with these exclusions, and this artifact.  The run writes the review queue
  and the report of negative outcomes first, and publishing is the last thing it does.\<close>

theorem published_only_through_gates:
  "case run env store cli of
     None \<Rightarrow> True
   | Some (r, effects) \<Rightarrow>
       (if list_all (\<lambda>e. case e of PublishArtifact art \<Rightarrow> False | _ \<Rightarrow> True) effects then True
        else r = Inr () \<and> \<not> cl_dry_run cli \<and>
          (\<exists>g trust_keys previous control_set exclusions art.
             gather env cli = Some (Inr (g, trust_keys)) \<and>
             load_previous ((ev_loader env)\<lparr>ld_trusted := trust_keys\<rparr>) (ev_fst_keys env) store = Inr previous \<and>
             read_lines_or_default env (cl_control_set cli) = Inr control_set \<and> control_set \<noteq> [] \<and>
             read_lines_or_default env (cl_exclusions cli) = Inr exclusions \<and>
             build (ev_fst_encode env) (ld_sha256 (ev_loader env)) (ld_serialize (ev_loader env)) (ev_sign env)
               (ga_entries g) (pick_output_license (ga_snapshots g)) (ga_snapshots g)
               (mf_version (fa_manifest art)) (ev_now env) (ga_signing_keys g) = Some (Inr art) \<and>
             (case previous_version previous of None \<Rightarrow> True | Some v \<Rightarrow> v < mf_version (fa_manifest art)) \<and>
             mf_signatures (fa_manifest art) \<noteq> [] \<and>
             is_pass (shrinkage_gate (previous_count previous) (of_nat (length (ga_entries g)))
               (cl_max_shrinkage_pct cli) (cl_shrinkage_floor cli)) \<and>
             is_pass (growth_gate (previous_keys previous) (sorted_list_of_set (me_domain ` set (ga_entries g)))
               (cl_max_growth_pct cli)) \<and>
             is_pass (license_gate (ga_entries g) (ga_snapshots g) (allowlist_of cli)) \<and>
             is_pass (false_positive_gate (ev_to_ascii env) (ga_entries g) control_set exclusions
               (cl_max_fp_rate cli) (cl_min_control_size cli)) \<and>
             is_pass (size_gate (fa_fst_len art) (cl_size_ceiling_bytes cli)) \<and>
             effects = write_review_queue (ga_personal_names g)
                 (review_queue (ev_to_ascii env) (ga_entries g) control_set exclusions) @
               write_negative_outcome_report (ga_negative_report g) @ [PublishArtifact art]))"
proof (cases "run env store cli")
  case (Some p)
  obtain r effects where p: "p = (r, effects)" by fastforce
  show ?thesis
  proof (cases "list_all (\<lambda>e. case e of PublishArtifact art \<Rightarrow> False | _ \<Rightarrow> True) effects")
    case False
    show ?thesis
      unfolding Some p option.case prod.case if_not_P [OF False]
      by (rule published_details [OF Some [unfolded p] False])
  qed (simp add: Some p)
qed simp

text \<open>Only the gates fail a run with \<open>GatesFailed\<close>.\<close>

fun before_gates :: "run_error \<Rightarrow> bool" where
  "before_gates (GatesFailed gates) = False" | "before_gates e = True"

lemma before_gates_read: "read_lines_or_default env path = Inl e \<Longrightarrow> before_gates e"
  by (auto simp: read_lines_or_default_def read_lines_def split: option.splits)

lemma collect_map_error: "collect_map f xs = Inl e \<Longrightarrow> \<exists>x. f x = Inl e"
  by (induction xs) (auto split: sum.splits)

lemma before_gates_key: "parse_key_arg env arg = Inl e \<Longrightarrow> before_gates e"
  by (auto simp: parse_key_arg_def split: option.splits if_splits)

lemma before_gates_signing: "load_signing_keys env args = Inl e \<Longrightarrow> before_gates e"
  by (auto simp: load_signing_keys_def dest!: collect_map_error
      intro: before_gates_key split: if_splits sum.splits)

lemma before_gates_trust: "load_trust_keys env trust_args keys = Inl e \<Longrightarrow> before_gates e"
proof -
  have "before_gates e" if "(case parse_key_arg env arg of Inl e \<Rightarrow> Inl e
      | Inr (key_id, bs) \<Rightarrow> (case ev_parse_verifying_key env bs of None \<Rightarrow> Inl (BadVerifyingKey arg)
        | Some vk \<Rightarrow> Inr (key_id, vk))) = Inl e" for arg
    using that before_gates_key [of env arg e] by (auto split: sum.splits option.splits)
  moreover assume "load_trust_keys env trust_args keys = Inl e"
  ultimately show ?thesis by (auto simp: load_trust_keys_def dest!: collect_map_error split: if_splits)
qed

lemmas before_gates_keys = before_gates_signing before_gates_trust

lemma fetch_jobs_error: "fetch_jobs fetch jobs = Some (Inl e) \<Longrightarrow> \<exists>job. fetch job = Some (Inl e)"
  by (induction jobs) (auto split: Option.bind_splits sum.splits)

lemma before_gates_fetch: "fetch_all_sources env jobs dir allowlist = Some (Inl e) \<Longrightarrow> before_gates e"
  by (auto simp: fetch_all_sources_def fetch_one_source_def dest!: fetch_jobs_error
      split: if_splits sum.splits Option.bind_splits)

lemma before_gates_liveness: "run_liveness env cli entries = Inl e \<Longrightarrow> before_gates e"
  by (auto simp: run_liveness_def open_liveness_cache_def liveness_results_def Let_def
      split: if_splits sum.splits option.splits prod.splits)

lemma try_run_Inl:
  "try_run r k = Some (Inl e) \<longleftrightarrow> r = Some (Inl e) \<or> (\<exists>x. r = Some (Inr x) \<and> k x = Some (Inl e))"
  by (auto simp: try_run_def split: option.split sum.split)

lemma map_err_Inl: "map_option (map_sum f h) r = Some (Inl e) \<longleftrightarrow> (\<exists>x. r = Some (Inl x) \<and> e = f x)"
  by (cases r; auto simp: map_sum_def split: sum.splits)

lemma map_sum_Inl: "map_sum f h r = Inl e \<longleftrightarrow> (\<exists>x. r = Inl x \<and> e = f x)"
  by (cases r) auto

lemma before_gates_gather: "gather env cli = Some (Inl e) \<Longrightarrow> before_gates e"
  unfolding gather_def
  by (auto simp: try_run_Inl validate_def Let_def map_err_Inl map_sum_Inl
      dest: before_gates_keys before_gates_read before_gates_fetch before_gates_liveness
      split: option.splits if_splits prod.splits)

lemma before_gates_judge: "judge env store cli g tk = Some (Inl e) \<Longrightarrow> before_gates e"
  unfolding judge_def Let_def
  by (auto simp: try_run_Inl map_err_Inl map_sum_Inl dest: before_gates_read split: if_splits)

lemma early_errors_write_nothing:
  assumes "before_gates e"
  shows "case (Inl e :: run_error + unit) of Inl (GatesFailed gates) \<Rightarrow> P gates
    | Inl _ \<Rightarrow> ([] :: run_effect list) = [] | Inr u \<Rightarrow> Q u"
  using assms by (cases e) simp_all

lemma judged_gate_names:
  assumes "judge env store cli g trust_keys = Some (Inr c)"
  shows "map fst (ca_gates c) = [''shrinkage'', ''growth'', ''license'', ''false_positive'', ''size'']"
  by (rule judge_Inr [OF assms]) (simp add: early_gates_def Let_def)

text \<open>C34: a dry run never publishes.  It succeeds exactly when all five gates of what it judged pass, and then
  it has written nothing; it fails with \<open>GatesFailed\<close> only when one of them fails, and then it writes the review
  queue and the report of negative outcomes to the output directory like a real run, although \<open>--dry-run\<close> is
  documented not to write anything to \<open>--output\<close>; any other failure writes nothing.\<close>

theorem dry_run_writes_on_gate_failure:
  "let dry = cli\<lparr>cl_dry_run := True\<rparr> in
   case run env store dry of
     None \<Rightarrow> True
   | Some (r, effects) \<Rightarrow>
       list_all (\<lambda>e. case e of PublishArtifact art \<Rightarrow> False | _ \<Rightarrow> True) effects \<and>
       (case r of
          Inr u \<Rightarrow> effects = [] \<and>
            (\<exists>g trust_keys c. gather env dry = Some (Inr (g, trust_keys)) \<and>
               judge env store dry g trust_keys = Some (Inr c) \<and>
               map fst (ca_gates c) = [''shrinkage'', ''growth'', ''license'', ''false_positive'', ''size''] \<and>
               list_all (\<lambda>(name, gate). is_pass gate) (ca_gates c))
        | Inl (GatesFailed gates) \<Rightarrow>
            (\<exists>g trust_keys c. gather env dry = Some (Inr (g, trust_keys)) \<and>
               judge env store dry g trust_keys = Some (Inr c) \<and> gates = ca_gates c \<and>
               map fst gates = [''shrinkage'', ''growth'', ''license'', ''false_positive'', ''size''] \<and>
               \<not> list_all (\<lambda>(name, gate). is_pass gate) gates \<and>
               effects = write_review_queue (ga_personal_names g) (ca_review c) @
                 write_negative_outcome_report (ga_negative_report g) \<and>
               effects \<noteq> [])
        | Inl _ \<Rightarrow> effects = [])"
proof -
  let ?cli = "cli\<lparr>cl_dry_run := True\<rparr>"
  have reports: "list_all (\<lambda>e. case e of PublishArtifact art \<Rightarrow> False | _ \<Rightarrow> True)
      (write_review_queue names hits @ write_negative_outcome_report report)" for names hits report
    using not_in_reports by (auto simp: list_all_iff split: run_effect.split)
  have nonempty: "write_review_queue names hits \<noteq> []" for names hits
    by (simp add: write_review_queue_def)
  have pass: "(\<exists>(name, result) \<in> set gates. \<not> is_pass result) \<longleftrightarrow> \<not> list_all (\<lambda>(name, gate). is_pass gate) gates"
    for gates :: "(string \<times> gate_result) list" by (auto simp: list_all_iff)
  note [simp] = Let_def
  show ?thesis
  proof (cases "gather env ?cli")
    case (Some r)
    note g = Some
    show ?thesis
    proof (cases r)
      case (Inl e)
      from early_errors_write_nothing [OF before_gates_gather [OF g [unfolded Inl]]] show ?thesis
        by (simp add: run_def g Inl)
    next
      case (Inr x)
      obtain gd tk where x: "x = (gd, tk)" by fastforce
      show ?thesis
      proof (cases "judge env store ?cli gd tk")
        case (Some j)
        show ?thesis
        proof (cases j)
          case (Inl e)
          from early_errors_write_nothing [OF before_gates_judge [OF Some [unfolded Inl]]] show ?thesis
            by (simp add: run_def g \<open>r = Inr x\<close> x Some Inl)
        next
          case (Inr c)
          show ?thesis
            using judged_gate_names [OF Some [unfolded Inr]]
            by (auto simp: run_def g \<open>r = Inr x\<close> x Some Inr finish_run_def pass reports nonempty
                simp del: list_all_append)
        qed
      qed (simp add: run_def g \<open>r = Inr x\<close> x)
    qed
  qed (simp add: run_def)
qed

section \<open>What the quarantine guarantees\<close>

lemma twice_ttl:
  fixes ttl q now first last :: u64
  assumes "\<not> q < 2 * ttl" "unat ttl < 2 ^ 63" "0 < ttl" "q \<le> saturating_sub now first"
    and "saturating_sub now last < ttl \<or> last = now"
  shows "unat first + unat ttl \<le> unat last"
proof -
  have "unat (2 * ttl) = 2 * unat ttl" using assms(2) by (simp add: unat_word_ariths)
  then have q: "2 * unat ttl \<le> unat q" using assms(1) by (simp add: word_less_nat_alt not_less)
  have sub: "unat (saturating_sub a b) = unat a - unat b" for a b :: u64
    by (auto simp: saturating_sub_def unat_sub word_le_nat_alt)
  show ?thesis using assms(3,4,5) q by (auto simp: word_le_nat_alt word_less_nat_alt sub)
qed

text \<open>With a configuration the command line accepts, a pruned domain was seen dead at least twice: the
  check its verdict comes from is at least a whole time to live later than the check that started its streak
  of \<open>Dead\<close> verdicts.\<close>

theorem pruned_confirmed_twice:
  assumes "validate cli = None" and "unat (cl_ttl_seconds cli) < 2 ^ 63" and "0 < cl_ttl_seconds cli"
  shows "case run_sweep_with_resolvers net sched checkpoint entries cache0 canary (sweep_config_of cli) now [] st of
     (Inl e, _) \<Rightarrow> True
   | (Inr out, _) \<Rightarrow>
       so_pruned_domains out \<subseteq> {d. \<exists>e first. so_cache out d = Some e \<and> ce_verdict e = Dead \<and>
         ce_first_dead_at e = Some first \<and> unat first + unat (cl_ttl_seconds cli) \<le> unat (ce_last_checked e)}"
proof -
  obtain r log st' where run: "run_sweep_with_resolvers net sched checkpoint entries cache0 canary
      (sweep_config_of cli) now [] st = (r, log, st')" by (metis prod_cases3)
  have cfg: "sc_ttl_seconds (sweep_config_of cli) = cl_ttl_seconds cli"
    "sc_quarantine_seconds (sweep_config_of cli) = cl_quarantine_seconds cli" by (simp_all add: sweep_config_of_def)
  have q: "\<not> cl_quarantine_seconds cli < 2 * cl_ttl_seconds cli"
    using assms(1) by (auto simp: validate_def split: if_splits)
  show ?thesis
  proof (cases r)
    case (Inr out)
    have "\<exists>e first. so_cache out d = Some e \<and> ce_verdict e = Dead \<and> ce_first_dead_at e = Some first \<and>
        unat first + unat (cl_ttl_seconds cli) \<le> unat (ce_last_checked e)" if "d \<in> so_pruned_domains out" for d
      using sweep_pruned [OF run [unfolded Inr] that, unfolded cfg] twice_ttl [OF q assms(2,3)] by blast
    then show ?thesis unfolding run Inr prod.case sum.case by (intro subsetI) (simp only: mem_Collect_eq)
  qed (simp add: run)
qed

definition toy_cli :: cli where
  "toy_cli = \<lparr>cl_dry_run = False, cl_fixture_dir = None, cl_cache = Some ''cache'', cl_skip_liveness = False,
     cl_control_set = None, cl_exclusions = None, cl_denylist = None, cl_allow_license = [], cl_signing_keys = [],
     cl_trust_keys = [], cl_build_version = None, cl_resolver1 = ''1.1.1.1:53'', cl_resolver2 = ''8.8.8.8:53'',
     cl_concurrency = 2, cl_canary_every = 1, cl_checkpoint_every = 1, cl_ttl_seconds = 10,
     cl_quarantine_seconds = 20, cl_canary_alive = [''a.ok''], cl_canary_dead = [''b.bad''],
     cl_max_shrinkage_pct = Fin 0, cl_shrinkage_floor = 0, cl_max_growth_pct = Fin 1, cl_max_fp_rate = Fin 0,
     cl_min_control_size = 1, cl_size_ceiling_bytes = 1000, cl_sample = None\<rparr>"

theorem pruned_confirmed_twice_witness:
  "case run_sweep_with_resolvers toy_net (\<lambda>log. length log) no_checkpoint [toy_entry ''x.y'', toy_entry ''z.y'']
      toy_cache toy_canary (sweep_config_of toy_cli) 100 [] () of
     (Inl e, _) \<Rightarrow> True
   | (Inr out, _) \<Rightarrow>
       so_pruned_domains out \<subseteq> {d. \<exists>e first. so_cache out d = Some e \<and> ce_verdict e = Dead \<and>
         ce_first_dead_at e = Some first \<and> unat first + unat (cl_ttl_seconds toy_cli) \<le> unat (ce_last_checked e)}"
  by (rule pruned_confirmed_twice) (simp_all add: validate_def toy_cli_def)

section \<open>A run that publishes\<close>

text \<open>A run on fixtures: one feed names one domain, the output directory is empty.\<close>

definition toy_publish_cli :: cli where
  "toy_publish_cli = toy_cli\<lparr>cl_fixture_dir := Some ''d'', cl_control_set := Some ''control'',
     cl_exclusions := Some ''reviewed'', cl_signing_keys := [''k:key''], cl_quarantine_seconds := 20,
     cl_max_shrinkage_pct := Fin 1, cl_max_growth_pct := Fin 1\<rparr>"

definition toy_env :: "(u8, u8, (string, bytes) btree) env" where
  "toy_env = \<lparr>ev_to_ascii = ascii_to_ascii, ev_psl_domain = (\<lambda>d. Some d), ev_from_utf8_lossy = map (\<lambda>b. char_of (unat b)),
     ev_read_file = (\<lambda>path. if path = ''key'' then Some (replicate 32 0)
       else if path = ''d/hagezi_nsfw.txt'' then Some [0x61, 0x2E, 0x62] else Some []),
     ev_read_text = (\<lambda>path. Some (if path = ''control'' then ''c.d'' else ''e.f'')), ev_exists = (\<lambda>path. False),
     ev_github = None, ev_ut1 = (\<lambda>category config. Inl (TransportError [])),
     ev_signing_key = hd, ev_verifying_key = (\<lambda>k. k), ev_parse_verifying_key = (\<lambda>bs. None), ev_sign = (\<lambda>k b. k # b),
     ev_loader = \<lparr>ld_deserialize = (\<lambda>b. None), ld_serialize = toy_serialize, ld_verify = (\<lambda>vk m sig. True),
       ld_sha256 = (\<lambda>b. b), ld_fst_open = one_key_open, ld_trusted = []\<rparr>,
     ev_fst_keys = (\<lambda>b. None), ev_fst_encode = one_key_encode, ev_parse_addr = (\<lambda>a. True), ev_dns_ready = True,
     ev_net = toy_net, ev_sched = (\<lambda>log. length log), ev_serialize_entry = toy_write, ev_deserialize_entry = toy_read,
     ev_redb = toy_redb, ev_codec = toy_codec, ev_hash_iter = (\<lambda>c. []), ev_now = 100\<rparr>"

definition empty_output :: file_system where
  "empty_output = \<lparr>fs_dirs = {}, fs_files = Map.empty\<rparr>"

lemma toy_run:
  "(case run toy_env empty_output toy_publish_cli of
      Some (Inr u, [WriteOutput n1 t1, WriteOutput n2 t2, PublishArtifact art]) \<Rightarrow> mf_version (fa_manifest art) = 1
    | _ \<Rightarrow> False)"
  by code_simp

lemma toy_reads:
  "read_lines_or_default toy_env (cl_control_set toy_publish_cli) = Inr [''c.d'']"
  "read_lines_or_default toy_env (cl_exclusions toy_publish_cli) = Inr [''e.f'']"
  by code_simp+

theorem published_only_through_gates_witness:
  "\<exists>g trust_keys art reports.
     run toy_env empty_output toy_publish_cli = Some (Inr (), reports @ [PublishArtifact art]) \<and>
     gather toy_env toy_publish_cli = Some (Inr (g, trust_keys)) \<and>
     is_pass (false_positive_gate ascii_to_ascii (ga_entries g) [''c.d''] [''e.f''] (Fin 0) 1) \<and>
     is_pass (license_gate (ga_entries g) (ga_snapshots g) (allowlist_of toy_publish_cli)) \<and>
     mf_signatures (fa_manifest art) \<noteq> []"
proof -
  have nil: "l = []" if "\<forall>x xs. l \<noteq> x # xs" for l :: "run_effect list" using that by (cases l) auto
  obtain n1 t1 n2 t2 art where r: "run toy_env empty_output toy_publish_cli =
      Some (Inr (), [WriteOutput n1 t1, WriteOutput n2 t2, PublishArtifact art])"
    using toy_run nil by (auto split: option.splits prod.splits sum.splits list.splits run_effect.splits)
  have cli: "cl_max_fp_rate toy_publish_cli = Fin 0" "cl_min_control_size toy_publish_cli = 1"
    "ev_to_ascii toy_env = ascii_to_ascii"
    by (simp_all add: toy_publish_cli_def toy_cli_def toy_env_def)
  have publishes: "\<not> list_all (\<lambda>e. case e of PublishArtifact art \<Rightarrow> False | _ \<Rightarrow> True)
      [WriteOutput n1 t1, WriteOutput n2 t2, PublishArtifact art]" by simp
  from published_only_through_gates [where env = toy_env and store = empty_output and cli = toy_publish_cli]
  obtain g tk art' reports where "gather toy_env toy_publish_cli = Some (Inr (g, tk))"
    "is_pass (license_gate (ga_entries g) (ga_snapshots g) (allowlist_of toy_publish_cli))"
    "is_pass (false_positive_gate ascii_to_ascii (ga_entries g) [''c.d''] [''e.f''] (Fin 0) 1)"
    "mf_signatures (fa_manifest art') \<noteq> []"
    "[WriteOutput n1 t1, WriteOutput n2 t2, PublishArtifact art] = reports @ [PublishArtifact art']"
    unfolding r option.case prod.case if_not_P [OF publishes] toy_reads cli by auto
  with r show ?thesis by metis
qed

end
