(* ===== verification/Github_Fetcher.thy ===== *)
theory Github_Fetcher
  imports Sources
begin

text \<open>
  The GitHub fetcher (\<open>domain-blocklist/src/fetchers/github.rs\<close>): repository coordinates, the
  retry policy and the classification of responses, the bounded retry loop, and the three
  requests (revision, license, content) that make a fetched source.

  The network is a parameter \<open>gh_env\<close> acting on a state \<open>'w\<close>: one GET, the sleep between
  attempts, and the clock. Deserialising the three JSON shapes is \<open>gh_json\<close> (a reason, or the
  field the code reads), \<open>String::from_utf8_lossy\<close> a parameter as in \<open>Sources\<close>. Durations are
  nanoseconds.
\<close>

section \<open>Requests and responses\<close>

text \<open>Header names compare without case in a \<open>HeaderMap\<close>; the list holds them in lower case,
  the first entry of a name is the one \<open>get\<close> returns.\<close>

record gh_response =
  gr_status :: u16
  gr_headers :: "(string \<times> string) list"
  gr_body :: bytes

datatype gh_http_error = GhConnect string | GhTimeout string

fun gh_http_error_string :: "gh_http_error \<Rightarrow> string" where
  "gh_http_error_string (GhConnect msg) = ''github transport error: '' @ msg"
| "gh_http_error_string (GhTimeout msg) = ''github request timed out: '' @ msg"

record 'w gh_env =
  gh_get :: "string \<Rightarrow> 'w \<Rightarrow> (gh_http_error + gh_response) \<times> 'w"
  gh_delay :: "nat \<Rightarrow> 'w \<Rightarrow> 'w"
  gh_now :: "'w \<Rightarrow> timestamp"

record gh_json =
  js_default_branch :: "bytes \<Rightarrow> string + string option"
  js_commit_sha :: "bytes \<Rightarrow> string + string option"
  js_license_spdx :: "bytes \<Rightarrow> string + string option option"

section \<open>Repositories\<close>

record github_repo =
  gh_owner :: string
  gh_repo :: string
  gh_raw_path :: string

definition repo_stevenblack :: github_repo where
  "repo_stevenblack = \<lparr>gh_owner = ''StevenBlack'', gh_repo = ''hosts'',
     gh_raw_path = ''alternates/porn-only/hosts''\<rparr>"

definition repo_hagezi_nsfw :: github_repo where
  "repo_hagezi_nsfw = \<lparr>gh_owner = ''hagezi'', gh_repo = ''dns-blocklists'',
     gh_raw_path = ''wildcard/nsfw-onlydomains.txt''\<rparr>"

type_synonym github_repos = "(source_id \<times> github_repo) list"

definition repos_with :: "github_repos \<Rightarrow> source_id \<Rightarrow> github_repo \<Rightarrow> github_repos" where
  "repos_with rs source repo = rs @ [(source, repo)]"

definition the_two_github_sources :: github_repos where
  "the_two_github_sources = [(StevenBlack, repo_stevenblack), (Hagezi, repo_hagezi_nsfw)]"

definition repo_for :: "github_repos \<Rightarrow> source_id \<Rightarrow> github_repo option" where
  "repo_for rs source = map_option snd (find (\<lambda>(s, _). s = source) rs)"

section \<open>Errors\<close>

datatype gh_fetch_error =
  GhTransport string
| GhRateLimit timestamp
| GhHttp u16 string string
| GhJson string string
| GhUnconfiguredSource source_id

fun dec_string :: "nat \<Rightarrow> string" where
  "dec_string n = (if n < 10 then [char_of (48 + n)] else dec_string (n div 10) @ [char_of (48 + n mod 10)])"

declare dec_string.simps [simp del]

fun source_debug :: "source_id \<Rightarrow> string" where
  "source_debug StevenBlack = ''StevenBlack''"
| "source_debug Hagezi = ''Hagezi''"
| "source_debug Ut1 = ''Ut1''"

fun gh_fetch_error_string :: "gh_fetch_error \<Rightarrow> string" where
  "gh_fetch_error_string (GhTransport msg) = ''github fetch transport failure: '' @ msg"
| "gh_fetch_error_string (GhRateLimit reset_at) =
     ''github API rate limit exhausted (unauthenticated REST quota, 60/hr, observed live 2026-08-15); reset at epoch seconds ''
     @ dec_string (unat reset_at) @ (if reset_at = 0 then '' (reset header absent)'' else [])"
| "gh_fetch_error_string (GhHttp status url preview) =
     ''GET '' @ url @ '' -> HTTP '' @ dec_string (unat status) @ (if preview = [] then [] else '': '' @ preview)"
| "gh_fetch_error_string (GhJson url reason) =
     ''GET '' @ url @ '': response was not the documented JSON shape: '' @ reason"
| "gh_fetch_error_string (GhUnconfiguredSource source) =
     ''no GitHub repo coordinates registered for source '' @ source_debug source"

definition gh_error_to_fetch :: "gh_fetch_error \<Rightarrow> fetch_error" where
  "gh_error_to_fetch e = TransportError (gh_fetch_error_string e)"

definition NOASSERTION :: string where "NOASSERTION = ''NOASSERTION''"

definition is_noassertion :: "license_id \<Rightarrow> bool" where
  "is_noassertion l = spdx_matches l (LicenseId NOASSERTION)"

section \<open>Retry policy\<close>

record retry_policy =
  rp_max_attempts :: nat
  rp_base_backoff :: nat
  rp_max_backoff :: nat

definition SECOND :: nat where "SECOND = 1000000000"
definition DURATION_MAX :: nat where "DURATION_MAX = (2 ^ 64 - 1) * SECOND + 999999999"

definition retry_policy_default :: retry_policy where
  "retry_policy_default = \<lparr>rp_max_attempts = 4, rp_base_backoff = 500000000, rp_max_backoff = 8 * SECOND\<rparr>"

definition gh_backoff_for :: "retry_policy \<Rightarrow> nat \<Rightarrow> nat" where
  "gh_backoff_for p attempt =
     min (min (rp_base_backoff p * 2 ^ min attempt 10) DURATION_MAX) (rp_max_backoff p)"

datatype remote_outcome =
  OutOk | OutRetry | OutRetryAfter nat timestamp | OutQuotaExhausted timestamp | OutFail gh_fetch_error

text \<open>\<open>HeaderValue::to_str\<close> takes visible ASCII and tab only; \<open>str::parse::<u64>\<close> takes an optional
  plus sign and decimal digits up to \<open>u64::MAX\<close>.\<close>

definition header_str :: "string \<Rightarrow> string option" where
  "header_str v = (if list_all (\<lambda>c. c = CHR 0x09 \<or> (32 \<le> (of_char c :: nat) \<and> (of_char c :: nat) < 127)) v
     then Some v else None)"

definition parse_u64 :: "string \<Rightarrow> u64 option" where
  "parse_u64 s =
     (let ds = (case strip_prefix ''+'' s of Some r \<Rightarrow> r | None \<Rightarrow> s)
      in if ds = [] \<or> \<not> list_all (is_digit 10) ds \<or> 2 ^ 64 \<le> digits_value 10 ds then None
         else Some (word_of_nat (digits_value 10 ds)))"

definition header_u64 :: "string \<Rightarrow> gh_response \<Rightarrow> u64 option" where
  "header_u64 name resp = do {
     v \<leftarrow> map_of (gr_headers resp) name;
     s \<leftarrow> header_str v;
     parse_u64 s
   }"

definition rate_limit_remaining :: "gh_response \<Rightarrow> u64 option" where
  "rate_limit_remaining resp = header_u64 ''x-ratelimit-remaining'' resp"

definition rate_limit_reset :: "gh_response \<Rightarrow> timestamp option" where
  "rate_limit_reset resp = header_u64 ''x-ratelimit-reset'' resp"

definition body_preview :: "(bytes \<Rightarrow> string) \<Rightarrow> gh_response \<Rightarrow> string" where
  "body_preview lossy resp = lossy (take 240 (gr_body resp))"

definition u64_saturating_sub :: "u64 \<Rightarrow> u64 \<Rightarrow> u64" where
  "u64_saturating_sub a b = (if b \<le> a then a - b else 0)"

definition classify_outcome :: "(bytes \<Rightarrow> string) \<Rightarrow> retry_policy \<Rightarrow> timestamp \<Rightarrow> string \<Rightarrow> gh_response
    \<Rightarrow> remote_outcome" where
  "classify_outcome lossy p now url resp =
     (let status = gr_status resp; fail = OutFail (GhHttp status url (body_preview lossy resp)) in
      if 200 \<le> status \<and> status \<le> 299 then OutOk
      else if status \<in> {429, 500, 502, 503, 504} then OutRetry
      else if status = 403 then
        (if rate_limit_remaining resp = Some 0 then
           let reset_at = (case rate_limit_reset resp of Some r \<Rightarrow> r | None \<Rightarrow> 0);
               wait = u64_saturating_sub reset_at now
           in if reset_at \<noteq> 0 \<and> unat wait \<le> rp_max_backoff p div SECOND
              then OutRetryAfter ((unat wait + 1) * SECOND) reset_at
              else OutQuotaExhausted reset_at
         else fail)
      else fail)"

section \<open>The retry loop\<close>

text \<open>\<open>last_detail\<close> is carried through the loop; \<open>pending_reset\<close> and \<open>next_delay\<close> are set or
  cleared in every round before they are read, so they are local to it. Running out of the
  range without a return is the \<open>unreachable!\<close> of the code, a panic.\<close>

fun gh_attempts :: "(bytes \<Rightarrow> string) \<Rightarrow> 'w gh_env \<Rightarrow> retry_policy \<Rightarrow> string \<Rightarrow> nat list
    \<Rightarrow> string option \<Rightarrow> 'w \<Rightarrow> (gh_fetch_error + gh_response) exec \<times> 'w" where
  "gh_attempts lossy env p url [] last_detail w = (None, w)"
| "gh_attempts lossy env p url (attempt # rest) last_detail w =
     (let (r, w) = gh_get env url w;
          outcome = (case r of Inr resp \<Rightarrow> classify_outcome lossy p (gh_now env w) url resp
                             | Inl _ \<Rightarrow> OutRetry);
          detail = (case r of
              Inr resp \<Rightarrow>
                (case outcome of
                   OutRetry \<Rightarrow> Some (''HTTP status '' @ dec_string (unat (gr_status resp)))
                 | OutRetryAfter _ _ \<Rightarrow> Some (''HTTP status '' @ dec_string (unat (gr_status resp))
                     @ '' (rate-limited, waiting for reset)'')
                 | _ \<Rightarrow> last_detail)
            | Inl conn \<Rightarrow> Some (gh_http_error_string conn));
          continue = (\<lambda>pending next_delay.
            if rp_max_attempts p \<le> attempt + 1 then
              (case pending of
                 Some reset_at \<Rightarrow> (Some (Inl (GhRateLimit reset_at)), w)
               | None \<Rightarrow> (Some (Inl (GhTransport (''HTTP request to '' @ url @ '' failed after ''
                   @ dec_string (rp_max_attempts p) @ '' attempts; last error: ''
                   @ (case detail of Some d \<Rightarrow> d | None \<Rightarrow> ''exhausted retry budget'')))), w))
            else
              gh_attempts lossy env p url rest detail
                (gh_delay env (case next_delay of Some d \<Rightarrow> d | None \<Rightarrow> gh_backoff_for p attempt) w))
      in case outcome of
           OutOk \<Rightarrow> (case r of Inr resp \<Rightarrow> (Some (Inr resp), w) | Inl _ \<Rightarrow> (None, w))
         | OutRetry \<Rightarrow> continue None None
         | OutRetryAfter delay reset_at \<Rightarrow> continue (Some reset_at) (Some delay)
         | OutQuotaExhausted reset_at \<Rightarrow> (Some (Inl (GhRateLimit reset_at)), w)
         | OutFail e \<Rightarrow> (Some (Inl e), w))"

declare gh_attempts.simps [simp del]

definition gh_get_with_retry :: "(bytes \<Rightarrow> string) \<Rightarrow> 'w gh_env \<Rightarrow> retry_policy \<Rightarrow> string \<Rightarrow> 'w
    \<Rightarrow> (gh_fetch_error + gh_response) exec \<times> 'w" where
  "gh_get_with_retry lossy env p url w = gh_attempts lossy env p url [0..<rp_max_attempts p] None w"

section \<open>Revision, license, content\<close>

definition is_full_sha :: "string \<Rightarrow> bool" where
  "is_full_sha s \<longleftrightarrow> length s = 40 \<and> list_all (is_digit 16) s"

definition parse_commit_sha :: "gh_json \<Rightarrow> string \<Rightarrow> bytes \<Rightarrow> gh_fetch_error + string" where
  "parse_commit_sha js url body =
     (case js_commit_sha js body of
        Inl reason \<Rightarrow> Inl (GhJson url reason)
      | Inr (Some sha) \<Rightarrow> Inr sha
      | Inr None \<Rightarrow> Inl (GhJson url
          ''no top-level sha field on a commit response (docs: /repos/{o}/{r}/commits/{ref})''))"

definition parse_license_id :: "gh_json \<Rightarrow> string \<Rightarrow> bytes \<Rightarrow> gh_fetch_error + license_id" where
  "parse_license_id js url body =
     (case js_license_spdx js body of
        Inl reason \<Rightarrow> Inl (GhJson url reason)
      | Inr license \<Rightarrow>
          Inr (LicenseId (case license of Some (Some spdx) \<Rightarrow> spdx | _ \<Rightarrow> NOASSERTION)))"

definition api_url :: "github_repo \<Rightarrow> string" where
  "api_url repo = ''https://api.github.com/repos/'' @ gh_owner repo @ ''/'' @ gh_repo repo"

definition raw_url :: "github_repo \<Rightarrow> string \<Rightarrow> string" where
  "raw_url repo sha = ''https://raw.githubusercontent.com/'' @ gh_owner repo @ ''/'' @ gh_repo repo
     @ ''/'' @ sha @ ''/'' @ gh_raw_path repo"

text \<open>One GET with the loop, and what follows it: a panic or an error ends the fetch.\<close>

record 'w gh_fetcher =
  gf_env :: "'w gh_env"
  gf_json :: gh_json
  gf_lossy :: "bytes \<Rightarrow> string"
  gf_repos :: github_repos
  gf_retry :: retry_policy

type_synonym ('a, 'w) gh_result = "(gh_fetch_error + 'a) exec \<times> 'w"

definition gf_get :: "'w gh_fetcher \<Rightarrow> string \<Rightarrow> 'w \<Rightarrow> (gh_response, 'w) gh_result" where
  "gf_get f url w = gh_get_with_retry (gf_lossy f) (gf_env f) (gf_retry f) url w"

definition gh_bind :: "('a, 'w) gh_result \<Rightarrow> ('a \<Rightarrow> 'w \<Rightarrow> ('b, 'w) gh_result) \<Rightarrow> ('b, 'w) gh_result" where
  "gh_bind r k = (case r of (x, w) \<Rightarrow>
     (case x of None \<Rightarrow> (None, w) | Some (Inl e) \<Rightarrow> (Some (Inl e), w) | Some (Inr v) \<Rightarrow> k v w))"

definition resolve_commit_ref :: "'w gh_fetcher \<Rightarrow> github_repo \<Rightarrow> string \<Rightarrow> 'w \<Rightarrow> (string, 'w) gh_result" where
  "resolve_commit_ref f repo reff w =
     (let url = api_url repo @ (if is_full_sha reff then ''/git/commits/'' else ''/commits/'') @ reff
      in gh_bind (gf_get f url w) (\<lambda>resp w. (Some (parse_commit_sha (gf_json f) url (gr_body resp)), w)))"

definition resolve_default_branch_revision :: "'w gh_fetcher \<Rightarrow> github_repo \<Rightarrow> 'w \<Rightarrow> (string, 'w) gh_result" where
  "resolve_default_branch_revision f repo w =
     (let url = api_url repo
      in gh_bind (gf_get f url w) (\<lambda>resp w.
           case js_default_branch (gf_json f) (gr_body resp) of
             Inl reason \<Rightarrow> (Some (Inl (GhJson url reason)), w)
           | Inr None \<Rightarrow> (Some (Inl (GhJson url
               ''no default_branch field (docs: /repos/{owner}/{repo} returns it)'')), w)
           | Inr (Some branch) \<Rightarrow> resolve_commit_ref f repo branch w))"

definition resolve_revision :: "'w gh_fetcher \<Rightarrow> github_repo \<Rightarrow> string \<Rightarrow> 'w \<Rightarrow> (string, 'w) gh_result" where
  "resolve_revision f repo reff w =
     (if reff = [] then resolve_default_branch_revision f repo w else resolve_commit_ref f repo reff w)"

definition resolve_license :: "'w gh_fetcher \<Rightarrow> github_repo \<Rightarrow> 'w \<Rightarrow> (license_id, 'w) gh_result" where
  "resolve_license f repo w =
     (let url = api_url repo @ ''/license''; (r, w) = gf_get f url w
      in case r of
           None \<Rightarrow> (None, w)
         | Some (Inl (GhHttp status u preview)) \<Rightarrow>
             if status = 404 then (Some (Inr (LicenseId NOASSERTION)), w)
             else (Some (Inl (GhHttp status u preview)), w)
         | Some (Inl e) \<Rightarrow> (Some (Inl e), w)
         | Some (Inr resp) \<Rightarrow> (Some (parse_license_id (gf_json f) url (gr_body resp)), w))"

definition fetch_content :: "'w gh_fetcher \<Rightarrow> github_repo \<Rightarrow> string \<Rightarrow> 'w \<Rightarrow> (bytes, 'w) gh_result" where
  "fetch_content f repo sha w =
     gh_bind (gf_get f (raw_url repo sha) w) (\<lambda>resp w. (Some (Inr (gr_body resp)), w))"

definition gh_fetch_async :: "'w gh_fetcher \<Rightarrow> source_config \<Rightarrow> 'w \<Rightarrow> (fetched_source, 'w) gh_result" where
  "gh_fetch_async f config w =
     (case repo_for (gf_repos f) (sc_source config) of
        None \<Rightarrow> (Some (Inl (GhUnconfiguredSource (sc_source config))), w)
      | Some repo \<Rightarrow>
          gh_bind (resolve_revision f repo (sc_pinned_revision config) w) (\<lambda>revision w.
          gh_bind (resolve_license f repo w) (\<lambda>license w.
          gh_bind (fetch_content f repo (sc_pinned_revision config) w) (\<lambda>bs w.
            (Some (Inr \<lparr>fs_revision = revision, fs_license = license,
               fs_fetched_at = gh_now (gf_env f) w, fs_bytes = bs\<rparr>), w)))))"

text \<open>The synchronous \<open>SourceFetcher::fetch\<close>.\<close>

definition gh_fetch :: "'w gh_fetcher \<Rightarrow> 'w \<Rightarrow> source_config \<Rightarrow> (fetch_error + fetched_source) exec" where
  "gh_fetch f w config =
     (case fst (gh_fetch_async f config w) of
        None \<Rightarrow> None
      | Some (Inl e) \<Rightarrow> Some (Inl (gh_error_to_fetch e))
      | Some (Inr s) \<Rightarrow> Some (Inr s))"


section \<open>The loop returns, and what it returns\<close>

text \<open>One round: it returns, or sleeps and goes on; it goes on only when attempts are left.\<close>

definition gh_round :: "(bytes \<Rightarrow> string) \<Rightarrow> 'w gh_env \<Rightarrow> retry_policy \<Rightarrow> string \<Rightarrow> nat \<Rightarrow> 'w
    \<Rightarrow> ((gh_fetch_error + gh_response) + nat \<times> string) \<Rightarrow> 'w \<Rightarrow> bool" where
  "gh_round lossy env p url attempt w out w' \<longleftrightarrow>
     (case out of
        Inl (Inr resp) \<Rightarrow> gh_get env url w = (Inr resp, w') \<and> 200 \<le> gr_status resp \<and> gr_status resp \<le> 299
      | Inl (Inl _) \<Rightarrow> w' = snd (gh_get env url w)
      | Inr (d, _) \<Rightarrow> attempt + 1 < rp_max_attempts p \<and> w' = snd (gh_get env url w)
          \<and> d \<le> max (rp_max_backoff p) (rp_max_backoff p div SECOND * SECOND + SECOND))"

lemma classify_delay:
  "classify_outcome lossy p now url resp = OutRetryAfter d reset_at
     \<Longrightarrow> d \<le> rp_max_backoff p div SECOND * SECOND + SECOND"
  unfolding classify_outcome_def Let_def by (auto split: if_splits)

lemma classify_ok:
  "classify_outcome lossy p now url resp = OutOk \<Longrightarrow> 200 \<le> gr_status resp \<and> gr_status resp \<le> 299"
  unfolding classify_outcome_def Let_def by (auto split: if_splits)

lemma gh_attempts_round:
  "\<exists>out w1. gh_round lossy env p url attempt w out w1
    \<and> gh_attempts lossy env p url (attempt # rest) ld w
      = (case out of Inl r \<Rightarrow> (Some r, w1)
         | Inr (d, detail) \<Rightarrow> gh_attempts lossy env p url rest (Some detail) (gh_delay env d w1))"
proof -
  obtain r w1 where g: "gh_get env url w = (r, w1)" by fastforce
  let ?A = "gh_attempts lossy env p url (attempt # rest) ld w"
  have backoff: "gh_backoff_for p attempt \<le> rp_max_backoff p" by (simp add: gh_backoff_for_def)
  show ?thesis
  proof (cases r)
    case (Inl conn)
    show ?thesis
    proof (cases "rp_max_attempts p \<le> attempt + 1")
      case True
      then obtain e where "?A = (Some (Inl e), w1)" using g Inl by (simp add: gh_attempts.simps)
      then show ?thesis using g by (intro exI [of _ "Inl (Inl e)"] exI [of _ w1]) (simp add: gh_round_def)
    next
      case False
      then show ?thesis
        using g Inl backoff by (intro exI [of _ "Inr (gh_backoff_for p attempt, gh_http_error_string conn)"] exI [of _ w1])
          (simp add: gh_attempts.simps gh_round_def)
    qed
  next
    case (Inr resp)
    let ?o = "classify_outcome lossy p (gh_now env w1) url resp"
    show ?thesis
    proof (cases ?o)
      case OutOk
      then show ?thesis
        using g Inr classify_ok [OF OutOk]
        by (intro exI [of _ "Inl (Inr resp)"] exI [of _ w1]) (simp add: gh_attempts.simps gh_round_def)
    next
      case OutRetry
      then show ?thesis
      proof (cases "rp_max_attempts p \<le> attempt + 1")
        case True
        then obtain e where "?A = (Some (Inl e), w1)" using g Inr OutRetry by (simp add: gh_attempts.simps)
        then show ?thesis using g by (intro exI [of _ "Inl (Inl e)"] exI [of _ w1]) (simp add: gh_round_def)
      next
        case False
        then show ?thesis
          using g Inr OutRetry backoff
          by (intro exI [of _ "Inr (gh_backoff_for p attempt, ''HTTP status '' @ dec_string (unat (gr_status resp)))"]
              exI [of _ w1]) (simp add: gh_attempts.simps gh_round_def)
      qed
    next
      case (OutRetryAfter d reset_at)
      then show ?thesis
      proof (cases "rp_max_attempts p \<le> attempt + 1")
        case True
        then have "?A = (Some (Inl (GhRateLimit reset_at)), w1)"
          using g Inr OutRetryAfter by (simp add: gh_attempts.simps)
        then show ?thesis
          using g by (intro exI [of _ "Inl (Inl (GhRateLimit reset_at))"] exI [of _ w1]) (simp add: gh_round_def)
      next
        case False
        then show ?thesis
          using g Inr OutRetryAfter classify_delay [OF OutRetryAfter]
          by (intro exI [of _ "Inr (d, ''HTTP status '' @ dec_string (unat (gr_status resp))
              @ '' (rate-limited, waiting for reset)'')"] exI [of _ w1])
            (simp add: gh_attempts.simps gh_round_def le_max_iff_disj)
      qed
    next
      case (OutQuotaExhausted reset_at)
      then show ?thesis
        using g Inr by (intro exI [of _ "Inl (Inl (GhRateLimit reset_at))"] exI [of _ w1])
          (simp add: gh_attempts.simps gh_round_def)
    next
      case (OutFail e)
      then show ?thesis
        using g Inr by (intro exI [of _ "Inl (Inl e)"] exI [of _ w1])
          (simp add: gh_attempts.simps gh_round_def)
    qed
  qed
qed

lemma gh_attempts_result:
  assumes "a < rp_max_attempts p"
  shows "\<exists>r w'. gh_attempts lossy env p url [a..<rp_max_attempts p] ld w = (Some r, w')
    \<and> (\<forall>resp. r = Inr resp \<longrightarrow> (\<exists>w1. gh_get env url w1 = (Inr resp, w')
        \<and> 200 \<le> gr_status resp \<and> gr_status resp \<le> 299))"
  using assms
proof (induction "rp_max_attempts p - a" arbitrary: a ld w rule: less_induct)
  case less
  have cons: "[a..<rp_max_attempts p] = a # [Suc a..<rp_max_attempts p]"
    using less.prems by (simp add: upt_conv_Cons)
  from gh_attempts_round [of lossy env p url a w "[Suc a..<rp_max_attempts p]" ld]
  obtain out w1 where r: "gh_round lossy env p url a w out w1"
    "gh_attempts lossy env p url [a..<rp_max_attempts p] ld w
      = (case out of Inl r \<Rightarrow> (Some r, w1)
         | Inr (d, detail) \<Rightarrow> gh_attempts lossy env p url [Suc a..<rp_max_attempts p] (Some detail) (gh_delay env d w1))"
    unfolding cons by blast
  show ?case
  proof (cases out)
    case (Inl x)
    then show ?thesis using r by (cases x) (auto simp: gh_round_def)
  next
    case (Inr dd)
    obtain d detail where dd: "dd = (d, detail)" by (cases dd)
    have "Suc a < rp_max_attempts p" using r(1) Inr dd by (simp add: gh_round_def)
    with less.hyps [of "Suc a" "Some detail" "gh_delay env d w1"] less.prems r(2) Inr dd
    show ?thesis by simp
  qed
qed


lemma gh_get_result:
  assumes "0 < rp_max_attempts p"
  shows "\<exists>r w'. gh_get_with_retry lossy env p url w = (Some r, w')
    \<and> (\<forall>resp. r = Inr resp \<longrightarrow> (\<exists>w1. gh_get env url w1 = (Inr resp, w')
        \<and> 200 \<le> gr_status resp \<and> gr_status resp \<le> 299))"
  unfolding gh_get_with_retry_def by (rule gh_attempts_result [OF assms])

lemma gh_get_Inr:
  assumes "gh_get_with_retry lossy env p url w = (Some (Inr resp), w')"
  shows "\<exists>w1. gh_get env url w1 = (Inr resp, w') \<and> 200 \<le> gr_status resp \<and> gr_status resp \<le> 299"
proof -
  have "0 < rp_max_attempts p"
    using assms by (cases "rp_max_attempts p") (simp_all add: gh_get_with_retry_def gh_attempts.simps)
  from gh_get_result [OF this, of lossy env url w] assms show ?thesis by auto
qed

text \<open>A policy of no attempts runs into the code's \<open>unreachable!\<close>.\<close>

lemma gh_get_zero_attempts:
  "rp_max_attempts p = 0 \<Longrightarrow> gh_get_with_retry lossy env p url w = (None, w)"
  by (simp add: gh_get_with_retry_def gh_attempts.simps)

text \<open>A wait for the rate limit exceeds the cap \<open>max_backoff\<close> by up to a second.\<close>

lemma rate_limit_wait_exceeds_cap:
  "classify_outcome (\<lambda>_. []) retry_policy_default 100 [] \<lparr>gr_status = 403,
     gr_headers = [(''x-ratelimit-remaining'', ''0''), (''x-ratelimit-reset'', ''108'')], gr_body = []\<rparr>
   = OutRetryAfter (9 * SECOND) 108"
  by code_simp

section \<open>What the loop does to the network\<close>

datatype gh_event = EvGet string | EvSleep nat

definition traced :: "'w gh_env \<Rightarrow> (gh_event list \<times> 'w) gh_env" where
  "traced env = \<lparr>
     gh_get = (\<lambda>url (evs, w). let (r, w) = gh_get env url w in (r, (evs @ [EvGet url], w))),
     gh_delay = (\<lambda>d (evs, w). (evs @ [EvSleep d], gh_delay env d w)),
     gh_now = (\<lambda>(evs, w). gh_now env w)\<rparr>"

fun event_ok :: "retry_policy \<Rightarrow> string \<Rightarrow> gh_event \<Rightarrow> bool" where
  "event_ok p url (EvGet u) \<longleftrightarrow> u = url"
| "event_ok p url (EvSleep d) \<longleftrightarrow> d \<le> max (rp_max_backoff p) (rp_max_backoff p div SECOND * SECOND + SECOND)"

fun is_get :: "gh_event \<Rightarrow> bool" where
  "is_get (EvGet _) = True"
| "is_get (EvSleep _) = False"

lemma gh_attempts_trace:
  assumes "a < rp_max_attempts p"
  shows "\<exists>r evs w'. gh_attempts lossy (traced env) p url [a..<rp_max_attempts p] ld (log, w) = (Some r, (log @ evs, w'))
    \<and> length (filter is_get evs) \<le> rp_max_attempts p - a
    \<and> Suc (length evs) = 2 * length (filter is_get evs) \<and> list_all (event_ok p url) evs"
  using assms
proof (induction "rp_max_attempts p - a" arbitrary: a ld log w rule: less_induct)
  case less
  have cons: "[a..<rp_max_attempts p] = a # [Suc a..<rp_max_attempts p]"
    using less.prems by (simp add: upt_conv_Cons)
  obtain g w0 where g: "gh_get env url w = (g, w0)" by fastforce
  then have snd: "snd (gh_get (traced env) url (log, w)) = (log @ [EvGet url], w0)" by (simp add: traced_def)
  from gh_attempts_round [of lossy "traced env" p url a "(log, w)" "[Suc a..<rp_max_attempts p]" ld]
  obtain out w1 where r: "gh_round lossy (traced env) p url a (log, w) out w1"
    "gh_attempts lossy (traced env) p url [a..<rp_max_attempts p] ld (log, w)
      = (case out of Inl r \<Rightarrow> (Some r, w1)
         | Inr (d, detail) \<Rightarrow> gh_attempts lossy (traced env) p url [Suc a..<rp_max_attempts p] (Some detail)
             (gh_delay (traced env) d w1))"
    unfolding cons by blast
  have w1: "w1 = (log @ [EvGet url], w0)"
    using r(1) snd by (auto simp: gh_round_def split: sum.splits)
  show ?case
  proof (cases out)
    case (Inl x)
    then show ?thesis using r(2) w1 less.prems by (intro exI [of _ x] exI [of _ "[EvGet url]"] exI [of _ w0]) simp
  next
    case (Inr dd)
    obtain d detail where dd: "dd = (d, detail)" by (cases dd)
    have d: "Suc a < rp_max_attempts p" "event_ok p url (EvSleep d)"
      using r(1) Inr dd by (simp_all add: gh_round_def)
    obtain x evs w' where IH: "gh_attempts lossy (traced env) p url [Suc a..<rp_max_attempts p] (Some detail)
        (log @ [EvGet url, EvSleep d], gh_delay env d w0) = (Some x, ((log @ [EvGet url, EvSleep d]) @ evs, w'))"
      "length (filter is_get evs) \<le> rp_max_attempts p - Suc a"
      "Suc (length evs) = 2 * length (filter is_get evs)" "list_all (event_ok p url) evs"
      using less.hyps [of "Suc a" "Some detail" "log @ [EvGet url, EvSleep d]" "gh_delay env d w0"] d(1) by force
    have "gh_attempts lossy (traced env) p url [a..<rp_max_attempts p] ld (log, w)
        = (Some x, (log @ ([EvGet url, EvSleep d] @ evs), w'))"
      using r(2) Inr dd w1 IH(1) by (simp add: traced_def)
    moreover have "length (filter is_get ([EvGet url, EvSleep d] @ evs)) \<le> rp_max_attempts p - a"
      "Suc (length ([EvGet url, EvSleep d] @ evs)) = 2 * length (filter is_get ([EvGet url, EvSleep d] @ evs))"
      "list_all (event_ok p url) ([EvGet url, EvSleep d] @ evs)"
      using IH(2-4) d by auto
    ultimately show ?thesis by blast
  qed
qed


text \<open>With at least one attempt allowed, one logical GET returns (it reaches no panic), does at
  most \<open>max_attempts\<close> HTTP requests, all to its own URL, sleeps exactly once between two
  requests, never longer than the cap rounded up to the next whole second, and hands out a
  response only when its status is 2xx.\<close>

theorem gh_get_bounded:
  assumes "0 < rp_max_attempts p"
  shows "\<exists>r evs w'. gh_get_with_retry lossy (traced env) p url ([], w) = (Some r, (evs, w'))
    \<and> length (filter is_get evs) \<le> rp_max_attempts p
    \<and> Suc (length evs) = 2 * length (filter is_get evs) \<and> list_all (event_ok p url) evs
    \<and> (case r of Inr resp \<Rightarrow> 200 \<le> gr_status resp \<and> gr_status resp \<le> 299 | Inl _ \<Rightarrow> True)"
proof -
  obtain r evs w' where t: "gh_get_with_retry lossy (traced env) p url ([], w) = (Some r, (evs, w'))"
    "length (filter is_get evs) \<le> rp_max_attempts p"
    "Suc (length evs) = 2 * length (filter is_get evs)" "list_all (event_ok p url) evs"
    using gh_attempts_trace [OF assms, of lossy env url None "[]" w] by (auto simp: gh_get_with_retry_def)
  moreover have "case r of Inr resp \<Rightarrow> 200 \<le> gr_status resp \<and> gr_status resp \<le> 299 | Inl _ \<Rightarrow> True"
    using t(1) gh_get_Inr [of lossy "traced env" p url "([], w)"] by (auto split: sum.split)
  ultimately show ?thesis by blast
qed

text \<open>A server that fails once with 503 and then answers.\<close>

definition flaky_env :: "nat gh_env" where
  "flaky_env = \<lparr>gh_get = (\<lambda>_ n. (Inr \<lparr>gr_status = (if n = 0 then 503 else 200), gr_headers = [], gr_body = [7]\<rparr>, n + 1)),
     gh_delay = (\<lambda>_ n. n), gh_now = (\<lambda>_. 5)\<rparr>"

theorem gh_get_bounded_witness:
  "(\<exists>r evs w'. gh_get_with_retry (\<lambda>_. []) (traced flaky_env) retry_policy_default ''u'' ([], 0) = (Some r, (evs, w'))
    \<and> length (filter is_get evs) \<le> 4
    \<and> Suc (length evs) = 2 * length (filter is_get evs) \<and> list_all (event_ok retry_policy_default ''u'') evs
    \<and> (case r of Inr resp \<Rightarrow> 200 \<le> gr_status resp \<and> gr_status resp \<le> 299 | Inl _ \<Rightarrow> True))
   \<and> fst (snd (gh_get_with_retry (\<lambda>_. []) (traced flaky_env) retry_policy_default ''u'' ([], 0)))
     = [EvGet ''u'', EvSleep 500000000, EvGet ''u'']"
proof
  show "\<exists>r evs w'. gh_get_with_retry (\<lambda>_. []) (traced flaky_env) retry_policy_default ''u'' ([], 0) = (Some r, (evs, w'))
    \<and> length (filter is_get evs) \<le> 4
    \<and> Suc (length evs) = 2 * length (filter is_get evs) \<and> list_all (event_ok retry_policy_default ''u'') evs
    \<and> (case r of Inr resp \<Rightarrow> 200 \<le> gr_status resp \<and> gr_status resp \<le> 299 | Inl _ \<Rightarrow> True)"
    using gh_get_bounded [of retry_policy_default "\<lambda>_. []" flaky_env "''u''" 0]
    by (simp add: retry_policy_default_def)
qed code_simp

section \<open>A source is pinned\<close>

lemma gh_bind_Inr:
  "gh_bind r k = (Some (Inr v), w') \<longleftrightarrow> (\<exists>x w. r = (Some (Inr x), w) \<and> k x w = (Some (Inr v), w'))"
  by (cases r) (auto simp: gh_bind_def split: option.splits sum.splits)

definition gh_returns :: "('a, 'w) gh_result \<Rightarrow> bool" where
  "gh_returns r \<longleftrightarrow> fst r \<noteq> None"

lemma gh_returns_Some [simp]: "gh_returns (Some x, w)"
  by (simp add: gh_returns_def)

lemma gh_returns_bind [intro]: "gh_returns r \<Longrightarrow> (\<And>x w. gh_returns (k x w)) \<Longrightarrow> gh_returns (gh_bind r k)"
  by (cases r) (auto simp: gh_bind_def gh_returns_def split: option.splits sum.splits)

lemma gh_returns_get [intro]: "0 < rp_max_attempts (gf_retry f) \<Longrightarrow> gh_returns (gf_get f url w)"
  using gh_get_result [of "gf_retry f" "gf_lossy f" "gf_env f" url w] by (auto simp: gf_get_def gh_returns_def)

lemma gh_returns_license [intro]:
  assumes "0 < rp_max_attempts (gf_retry f)"
  shows "gh_returns (resolve_license f repo w)"
  using gh_returns_get [OF assms, of "api_url repo @ ''/license''" w]
  by (auto simp: resolve_license_def Let_def gh_returns_def split: prod.split option.splits sum.splits gh_fetch_error.splits)

lemma gh_returns_commit_ref [intro]:
  "0 < rp_max_attempts (gf_retry f) \<Longrightarrow> gh_returns (resolve_commit_ref f repo reff w)"
  unfolding resolve_commit_ref_def Let_def by (intro gh_returns_bind gh_returns_get) auto

lemma gh_returns_revision [intro]:
  assumes "0 < rp_max_attempts (gf_retry f)"
  shows "gh_returns (resolve_revision f repo reff w)"
proof -
  have "gh_returns (resolve_default_branch_revision f repo w)"
    unfolding resolve_default_branch_revision_def Let_def
  proof (rule gh_returns_bind [OF gh_returns_get [OF assms]])
    fix x w
    show "gh_returns (case js_default_branch (gf_json f) (gr_body x) of
        Inl reason \<Rightarrow> (Some (Inl (GhJson (api_url repo) reason)), w)
      | Inr None \<Rightarrow> (Some (Inl (GhJson (api_url repo)
          ''no default_branch field (docs: /repos/{owner}/{repo} returns it)'')), w)
      | Inr (Some branch) \<Rightarrow> resolve_commit_ref f repo branch w)"
      using assms by (auto split: sum.split option.split)
  qed
  then show ?thesis using assms by (auto simp: resolve_revision_def)
qed

lemma gh_fetch_total:
  assumes "0 < rp_max_attempts (gf_retry f)"
  shows "gh_returns (gh_fetch_async f config w)"
proof (cases "repo_for (gf_repos f) (sc_source config)")
  case (Some repo)
  then show ?thesis
    unfolding gh_fetch_async_def fetch_content_def using assms
    by (simp, intro gh_returns_bind) auto
qed (simp add: gh_fetch_async_def)

text \<open>What a 2xx answer of the server to a URL is, in any state of the network.\<close>

definition served :: "'w gh_env \<Rightarrow> string \<Rightarrow> bytes \<Rightarrow> bool" where
  "served env url body \<longleftrightarrow> (\<exists>w1 w2 resp. gh_get env url w1 = (Inr resp, w2)
     \<and> 200 \<le> gr_status resp \<and> gr_status resp \<le> 299 \<and> body = gr_body resp)"

lemma gf_get_served: "gf_get f url w = (Some (Inr resp), w') \<Longrightarrow> served (gf_env f) url (gr_body resp)"
  using gh_get_Inr [of "gf_lossy f" "gf_env f" "gf_retry f" url w resp w']
  by (auto simp: gf_get_def served_def)

lemma fetch_content_served: "fetch_content f repo sha w = (Some (Inr bs), w') \<Longrightarrow> served (gf_env f) (raw_url repo sha) bs"
  by (auto simp: fetch_content_def gh_bind_Inr dest: gf_get_served)

lemma resolve_license_served:
  "resolve_license f repo w = (Some (Inr l), w') \<Longrightarrow> l = LicenseId NOASSERTION
    \<or> (\<exists>body. served (gf_env f) (api_url repo @ ''/license'') body
        \<and> parse_license_id (gf_json f) (api_url repo @ ''/license'') body = Inr l)"
  by (auto simp: resolve_license_def Let_def
      split: prod.splits option.splits sum.splits gh_fetch_error.splits if_splits dest!: gf_get_served)

text \<open>A fetch by this module, as the source interface sees it: a panic is no source.\<close>

definition github_fetch :: "'w gh_fetcher \<Rightarrow> (source_config \<Rightarrow> 'w) \<Rightarrow> source_config \<Rightarrow> fetch_error + fetched_source" where
  "github_fetch f w config =
     (case gh_fetch f (w config) config of Some r \<Rightarrow> r | None \<Rightarrow> Inl (TransportError []))"

definition github_sent :: "'w gh_fetcher \<Rightarrow> source_config \<Rightarrow> fetched_source \<Rightarrow> bool" where
  "github_sent f config s \<longleftrightarrow>
     (\<exists>repo. repo_for (gf_repos f) (sc_source config) = Some repo
       \<and> served (gf_env f) (raw_url repo (sc_pinned_revision config)) (fs_bytes s)
       \<and> (fs_license s = LicenseId NOASSERTION
          \<or> (\<exists>body. served (gf_env f) (api_url repo @ ''/license'') body
              \<and> parse_license_id (gf_json f) (api_url repo @ ''/license'') body = Inr (fs_license s))))"

lemma gh_fetch_sent:
  assumes "gh_fetch f w config = Some (Inr s)"
  shows "github_sent f config s"
proof -
  obtain w' where r: "gh_fetch_async f config w = (Some (Inr s), w')"
    using assms by (cases "gh_fetch_async f config w") (auto simp: gh_fetch_def split: option.splits sum.splits)
  obtain repo where repo: "repo_for (gf_repos f) (sc_source config) = Some repo"
    using r by (auto simp: gh_fetch_async_def split: option.splits)
  with r have "served (gf_env f) (raw_url repo (sc_pinned_revision config)) (fs_bytes s)"
    "fs_license s = LicenseId NOASSERTION
      \<or> (\<exists>body. served (gf_env f) (api_url repo @ ''/license'') body
          \<and> parse_license_id (gf_json f) (api_url repo @ ''/license'') body = Inr (fs_license s))"
    by (auto simp: gh_fetch_async_def gh_bind_Inr dest!: fetch_content_served resolve_license_served)
  with repo show ?thesis by (auto simp: github_sent_def)
qed

interpretation gh: source_fetcher "github_fetch f w" "github_sent f" for f w
  by unfold_locales (auto simp: github_fetch_def intro: gh_fetch_sent split: option.splits)

text \<open>C11: a GitHub fetch always returns, and a snapshot that the source validation accepts carries
  exactly the pinned revision, bytes that the server sent with a 2xx status for the raw URL of
  that very revision in the repository registered for the source, and a license that GitHub's
  license endpoint reported (or \<open>NOASSERTION\<close>), which is the expected one.\<close>

theorem github_source_pinned:
  assumes "0 < rp_max_attempts (gf_retry f)"
  shows "gh_fetch f (w config) config = Some (github_fetch f w config) \<and>
    (case fetch_source (github_fetch f w) config allowlist of
       Inl _ \<Rightarrow> True
     | Inr (snapshot, bs) \<Rightarrow>
         ss_revision snapshot = sc_pinned_revision config \<and> spdx_matches (ss_license snapshot) (sc_expected_license config) \<and>
         (\<exists>repo. repo_for (gf_repos f) (sc_source config) = Some repo \<and>
            served (gf_env f) (raw_url repo (sc_pinned_revision config)) bs \<and>
            (ss_license snapshot = LicenseId NOASSERTION \<or>
             (\<exists>body. served (gf_env f) (api_url repo @ ''/license'') body \<and>
                parse_license_id (gf_json f) (api_url repo @ ''/license'') body = Inr (ss_license snapshot)))))"
proof
  show "gh_fetch f (w config) config = Some (github_fetch f w config)"
    using gh_fetch_total [OF assms, of config "w config"]
    by (auto simp: github_fetch_def gh_fetch_def gh_returns_def split: sum.splits)
next
  show "case fetch_source (github_fetch f w) config allowlist of
       Inl _ \<Rightarrow> True
     | Inr (snapshot, bs) \<Rightarrow>
         ss_revision snapshot = sc_pinned_revision config \<and> spdx_matches (ss_license snapshot) (sc_expected_license config) \<and>
         (\<exists>repo. repo_for (gf_repos f) (sc_source config) = Some repo \<and>
            served (gf_env f) (raw_url repo (sc_pinned_revision config)) bs \<and>
            (ss_license snapshot = LicenseId NOASSERTION \<or>
             (\<exists>body. served (gf_env f) (api_url repo @ ''/license'') body \<and>
                parse_license_id (gf_json f) (api_url repo @ ''/license'') body = Inr (ss_license snapshot))))"
    by (auto simp: github_sent_def dest!: gh.accepted_was_sent split: sum.split)
qed

definition toy_fetcher :: "nat gh_fetcher" where
  "toy_fetcher = \<lparr>gf_env = flaky_env,
     gf_json = \<lparr>js_default_branch = (\<lambda>_. Inr None), js_commit_sha = (\<lambda>_. Inr (Some ''s'')),
       js_license_spdx = (\<lambda>_. Inr (Some (Some ''MIT'')))\<rparr>,
     gf_lossy = (\<lambda>_. []), gf_repos = the_two_github_sources, gf_retry = retry_policy_default\<rparr>"

definition gh_toy_config :: source_config where
  "gh_toy_config = \<lparr>sc_source = Hagezi, sc_url = ''u'', sc_pinned_revision = ''s'', sc_expected_license = LicenseId ''MIT''\<rparr>"

theorem github_source_pinned_witness:
  "gh_fetch toy_fetcher 0 gh_toy_config = Some (github_fetch toy_fetcher (\<lambda>_. 0) gh_toy_config) \<and>
    (case fetch_source (github_fetch toy_fetcher (\<lambda>_. 0)) gh_toy_config [LicenseId ''MIT''] of
       Inl _ \<Rightarrow> True
     | Inr (snapshot, bs) \<Rightarrow>
         ss_revision snapshot = sc_pinned_revision gh_toy_config
         \<and> spdx_matches (ss_license snapshot) (sc_expected_license gh_toy_config) \<and>
         (\<exists>repo. repo_for (gf_repos toy_fetcher) (sc_source gh_toy_config) = Some repo \<and>
            served (gf_env toy_fetcher) (raw_url repo (sc_pinned_revision gh_toy_config)) bs \<and>
            (ss_license snapshot = LicenseId NOASSERTION \<or>
             (\<exists>body. served (gf_env toy_fetcher) (api_url repo @ ''/license'') body \<and>
                parse_license_id (gf_json toy_fetcher) (api_url repo @ ''/license'') body = Inr (ss_license snapshot)))))
   \<and> gh_fetch toy_fetcher 0 gh_toy_config
     = Some (Inr \<lparr>fs_revision = ''s'', fs_license = LicenseId ''MIT'', fs_fetched_at = 5, fs_bytes = [7]\<rparr>)"
proof -
  have "0 < rp_max_attempts (gf_retry toy_fetcher)"
    by (simp add: toy_fetcher_def retry_policy_default_def)
  note github_source_pinned [OF this, of "\<lambda>_. 0" gh_toy_config "[LicenseId ''MIT'']"]
  moreover have "gh_fetch toy_fetcher 0 gh_toy_config
     = Some (Inr \<lparr>fs_revision = ''s'', fs_license = LicenseId ''MIT'', fs_fetched_at = 5, fs_bytes = [7]\<rparr>)"
    by code_simp
  ultimately show ?thesis by blast
qed

end
