(* ===== verification/Ut1_Fetcher.thy ===== *)
theory Ut1_Fetcher
  imports Github_Fetcher
begin

text \<open>
  The fetcher of the UT1 category lists (\<open>domain-blocklist/src/fetchers/ut1.rs\<close>): the bounded,
  size-limited GETs, the extraction of one member of the category tarball, the scrape of the
  license page, the choice of a revision, and the fetch that composes them.

  Parameters, gathered in \<open>ut1_ctx\<close>: the HTTP client (one GET on a state \<open>'w\<close>, which yields a
  transport error or a response whose body is the sequence of chunks that reading it delivers),
  the sleep and the clock; \<open>untar\<close>, the tar entries of a gzip stream; SHA-256; the replacement
  of invalid UTF-8; the text of a UTF-8 error. A string is its UTF-8 bytes.
\<close>

section \<open>Searching and replacing in strings\<close>

fun str_find :: "string \<Rightarrow> string \<Rightarrow> nat option" where
  "str_find p s = (if prefix p s then Some 0
     else (case s of [] \<Rightarrow> None | _ # s' \<Rightarrow> map_option (\<lambda>n. n + 1) (str_find p s')))"

declare str_find.simps [simp del]

lemma str_find_Some: "str_find p s = Some i \<Longrightarrow> s = take i s @ p @ drop (i + length p) s \<and> i + length p \<le> length s"
proof (induction p s arbitrary: i rule: str_find.induct)
  case (1 p s)
  show ?case
  proof (cases "prefix p s")
    case True
    with 1(2) have i: "i = 0" by (simp add: str_find.simps)
    obtain z where s: "s = p @ z" using True by (auto simp: prefix_def)
    show ?thesis unfolding i s by simp
  next
    case False
    with 1(2) obtain c s' j where s: "s = c # s'" "i = j + 1" "str_find p s' = Some j"
      by (subst (asm) str_find.simps) (auto split: list.splits)
    with 1(1) [OF False s(1), of j] show ?thesis by simp
  qed
qed

lemma str_find_first: "str_find p s = Some i \<Longrightarrow> j < i \<Longrightarrow> \<not> prefix p (drop j s)"
proof (induction p s arbitrary: i j rule: str_find.induct)
  case (1 p s)
  then have False': "\<not> prefix p s" by (subst (asm) (1) str_find.simps) (auto split: if_splits)
  with 1(2) obtain c s' k where s: "s = c # s'" "i = k + 1" "str_find p s' = Some k"
    by (subst (asm) str_find.simps) (auto split: list.splits)
  show ?case
  proof (cases j)
    case (Suc j')
    with 1(1) [OF False' s(1), of k j'] s 1(3) show ?thesis by simp
  qed (use False' in simp)
qed

lemma str_find_eqI:
  assumes "s = a @ p @ b" "\<And>j. j < length a \<Longrightarrow> \<not> prefix p (drop j s)"
  shows "str_find p s = Some (length a)"
  using assms
proof (induction a arbitrary: s)
  case Nil
  then show ?case by (simp add: str_find.simps)
next
  case (Cons c a)
  have "\<not> prefix p s" using Cons.prems(2) [of 0] by simp
  moreover have "str_find p (a @ p @ b) = Some (length a)"
    using Cons.prems(2) [of "Suc j" for j] by (intro Cons.IH) (auto simp: Cons.prems(1))
  ultimately show ?case unfolding Cons.prems(1) by (subst str_find.simps) simp
qed

lemma prefix_take_iff: "prefix p s \<longleftrightarrow> take (length p) s = p"
  by (metis append_eq_conv_conj prefix_def)

lemma str_find_extend:
  assumes "str_find p (a @ p) = Some (length a)"
  shows "str_find p (a @ p @ b) = Some (length a)"
proof (rule str_find_eqI [OF refl])
  fix j
  assume j: "j < length a"
  have "take (length p) (drop j (a @ p @ b)) = take (length p) (drop j (a @ p))" using j by simp
  then show "\<not> prefix p (drop j (a @ p @ b))"
    using str_find_first [OF assms j] by (simp only: prefix_take_iff not_False_eq_True)
qed

lemma str_find_fits: "str_find p s = Some i \<Longrightarrow> p \<noteq> [] \<Longrightarrow> length s - (i + length p) < length s"
  using str_find_Some [of p s i] by (cases p) auto

text \<open>\<open>str::split\<close> and \<open>str::replace\<close> with a pattern that is not empty.\<close>

function split_str :: "string \<Rightarrow> string \<Rightarrow> string list" where
  "split_str p s =
     (case str_find p s of
        None \<Rightarrow> [s]
      | Some i \<Rightarrow> if p = [] then [s] else take i s # split_str p (drop (i + length p) s))"
  by pat_completeness auto
termination
  by (relation "measure (length \<circ> snd)") (auto dest: str_find_fits)

function str_replace :: "string \<Rightarrow> string \<Rightarrow> string \<Rightarrow> string" where
  "str_replace p t s =
     (case str_find p s of
        None \<Rightarrow> s
      | Some i \<Rightarrow> if p = [] then s else take i s @ t @ str_replace p t (drop (i + length p) s))"
  by pat_completeness auto
termination
  by (relation "measure (length \<circ> snd \<circ> snd)") (auto dest: str_find_fits)

declare split_str.simps [simp del] str_replace.simps [simp del]

section \<open>Constants, categories and the retry policy\<close>

definition UT1_LICENSE_PAGE :: string where
  "UT1_LICENSE_PAGE = ''https://dsi.ut-capitole.fr/blacklists/''"

definition MAX_FETCHED_BYTES :: nat where "MAX_FETCHED_BYTES = 512 * 1024 * 1024"
definition MAX_MEMBER_BYTES :: nat where "MAX_MEMBER_BYTES = 256 * 1024 * 1024"

record ut1_category =
  uc_dir :: string
  uc_category :: category

definition ut1_adult :: ut1_category where
  "ut1_adult = \<lparr>uc_dir = ''adult'', uc_category = Adult\<rparr>"

definition ut1_gambling :: ut1_category where
  "ut1_gambling = \<lparr>uc_dir = ''gambling'', uc_category = Gambling\<rparr>"

definition ut1_dating :: ut1_category where
  "ut1_dating = \<lparr>uc_dir = ''dating'', uc_category = Dating\<rparr>"

record ut1_retry_policy =
  up_max_attempts :: nat
  up_base_backoff :: nat
  up_max_backoff :: nat

definition ut1_retry_policy_default :: ut1_retry_policy where
  "ut1_retry_policy_default = \<lparr>up_max_attempts = 3, up_base_backoff = 2 * SECOND, up_max_backoff = 8 * SECOND\<rparr>"

datatype attempt_failure = AfStatus u16 | AfTimeout string | AfNetworkError string | AfTransport string

definition should_retry_status :: "u16 \<Rightarrow> nat \<Rightarrow> ut1_retry_policy \<Rightarrow> bool" where
  "should_retry_status status retries_so_far p \<longleftrightarrow>
     500 \<le> status \<and> status \<le> 599 \<and> retries_so_far < up_max_attempts p - 1"

definition should_retry_transport_failure :: "attempt_failure \<Rightarrow> nat \<Rightarrow> ut1_retry_policy \<Rightarrow> bool" where
  "should_retry_transport_failure failure retries_so_far p \<longleftrightarrow>
     (case failure of AfTimeout _ \<Rightarrow> True | AfNetworkError _ \<Rightarrow> True | _ \<Rightarrow> False)
     \<and> retries_so_far < up_max_attempts p - 1"

definition backoff_for :: "nat \<Rightarrow> ut1_retry_policy \<Rightarrow> nat" where
  "backoff_for k p =
     (let e = min k 6;
          secs = min (min (up_base_backoff p div SECOND * 2 ^ e) (2 ^ 64 - 1)) (up_max_backoff p div SECOND)
      in secs * SECOND)"

section \<open>Errors\<close>

datatype ut1_extract_error =
  NotGzip
| GzipInvalid string
| TarInvalid string
| MemberNotFound string string
| MemberNotRegularFile string string
| InvalidCategoryDir string
| MemberTooLarge string string

datatype ut1_license_error = LicenseAnchorNotFound | LicenseHrefMissing | UnsupportedLicenseUrl string

definition em_dash :: string where "em_dash = [CHR 0xE2, CHR 0x80, CHR 0x94]"

fun ut1_extract_error_string :: "ut1_extract_error \<Rightarrow> string" where
  "ut1_extract_error_string NotGzip =
     ''bytes are not a gzip stream (missing 0x1f 0x8b magic) '' @ em_dash @ '' wrong URL fetched?''"
| "ut1_extract_error_string (GzipInvalid e) = ''gzip decode failed: '' @ e"
| "ut1_extract_error_string (TarInvalid e) = ''invalid tar archive: '' @ e"
| "ut1_extract_error_string (MemberNotFound dir member) =
     ''archive contains no `'' @ dir @ ''/'' @ member @ ''` entry''"
| "ut1_extract_error_string (MemberNotRegularFile dir member) =
     ''`'' @ dir @ ''/'' @ member @ ''` is not a regular file''"
| "ut1_extract_error_string (InvalidCategoryDir d) = ''invalid category directory `'' @ d @ ''`''"
| "ut1_extract_error_string (MemberTooLarge dir member) =
     ''`'' @ dir @ ''/'' @ member @ ''` exceeds the '' @ dec_string MAX_MEMBER_BYTES @ ''-byte member ceiling''"

fun ut1_license_error_string :: "ut1_license_error \<Rightarrow> string" where
  "ut1_license_error_string LicenseAnchorNotFound =
     ''no `<a rel=\"license\" href=...>` anchor on the license page (after stripping comments)''"
| "ut1_license_error_string LicenseHrefMissing = ''license anchor has no `href` attribute''"
| "ut1_license_error_string (UnsupportedLicenseUrl u) =
     ''license URL `'' @ u @ ''` is not a mapped Creative Commons license''"

definition ut1_extract_to_fetch :: "ut1_extract_error \<Rightarrow> fetch_error" where
  "ut1_extract_to_fetch e = TransportError (''UT1 archive extraction failed: '' @ ut1_extract_error_string e)"

definition ut1_license_to_fetch :: "ut1_license_error \<Rightarrow> fetch_error" where
  "ut1_license_to_fetch e = TransportError (''UT1 license scrape failed: '' @ ut1_license_error_string e)"


section \<open>Requests\<close>

record reqwest_error =
  re_timeout :: bool
  re_connect :: bool
  re_message :: string

record ut1_response =
  ur_status :: u16
  ur_content_length :: "nat option"
  ur_headers :: "(string \<times> string) list"
  ur_chunks :: "(reqwest_error + bytes) list"

text \<open>A tar entry: its path (\<open>None\<close> when it has no readable one), whether its header says regular
  file, and its content, ending in an error of the decoder when it cannot be read to its end.\<close>

record tar_entry =
  te_path :: "bytes option"
  te_regular :: bool
  te_content :: bytes
  te_error :: "string option"

record 'w ut1_ctx =
  ut_send :: "string \<Rightarrow> 'w \<Rightarrow> (reqwest_error + ut1_response) \<times> 'w"
  ut_sleep :: "nat \<Rightarrow> 'w \<Rightarrow> 'w"
  ut_clock :: "'w \<Rightarrow> timestamp option"
  ut_runtime :: "string option"
  ut_untar :: "bytes \<Rightarrow> string + (string + tar_entry) list"
  ut_sha256 :: "bytes \<Rightarrow> bytes"
  ut_lossy :: "bytes \<Rightarrow> string"
  ut_utf8_error :: "bytes \<Rightarrow> string"

definition from_reqwest :: "reqwest_error \<Rightarrow> attempt_failure" where
  "from_reqwest e = (if re_timeout e \<or> re_connect e then AfTimeout (re_message e) else AfNetworkError (re_message e))"

fun describe :: "attempt_failure \<Rightarrow> string" where
  "describe (AfStatus s) = ''HTTP '' @ dec_string (unat s)"
| "describe (AfTimeout d) = d"
| "describe (AfNetworkError d) = d"
| "describe (AfTransport d) = d"

fun read_chunks :: "bytes \<Rightarrow> (reqwest_error + bytes) list \<Rightarrow> attempt_failure + bytes" where
  "read_chunks bs [] = Inr bs"
| "read_chunks bs (Inl e # cs) = Inl (from_reqwest e)"
| "read_chunks bs (Inr chunk # cs) =
     (if MAX_FETCHED_BYTES < length bs + length chunk
      then Inl (AfTransport (''response body exceeds the '' @ dec_string MAX_FETCHED_BYTES @ ''-byte ceiling''))
      else read_chunks (bs @ chunk) cs)"

definition ut1_header :: "string \<Rightarrow> ut1_response \<Rightarrow> string option" where
  "ut1_header name resp = Option.bind (map_of (ur_headers resp) name) header_str"

type_synonym ut1_body = "bytes \<times> string option \<times> string option"

definition read_response :: "ut1_response \<Rightarrow> attempt_failure + ut1_body" where
  "read_response resp =
     (if \<not> (200 \<le> ur_status resp \<and> ur_status resp \<le> 299) then Inl (AfStatus (ur_status resp))
      else case ur_content_length resp of
        Some len \<Rightarrow>
          if MAX_FETCHED_BYTES < len
          then Inl (AfTransport (''response content-length '' @ dec_string len @ '' exceeds the ''
                 @ dec_string MAX_FETCHED_BYTES @ ''-byte ceiling''))
          else map_sum id (\<lambda>bs. (bs, ut1_header ''etag'' resp, ut1_header ''last-modified'' resp))
                 (read_chunks [] (ur_chunks resp))
      | None \<Rightarrow> map_sum id (\<lambda>bs. (bs, ut1_header ''etag'' resp, ut1_header ''last-modified'' resp))
                  (read_chunks [] (ur_chunks resp)))"

definition request_once :: "'w ut1_ctx \<Rightarrow> string \<Rightarrow> 'w \<Rightarrow> (attempt_failure + ut1_body) \<times> 'w" where
  "request_once cx url w =
     (case ut_send cx url w of
        (Inl e, w) \<Rightarrow> (Inl (from_reqwest e), w)
      | (Inr resp, w) \<Rightarrow> (read_response resp, w))"

text \<open>The retry loop, with \<open>retries\<close> the count so far; it ends because a retry needs
  \<open>retries < max_attempts - 1\<close>.\<close>

definition ut1_retryable :: "ut1_retry_policy \<Rightarrow> nat \<Rightarrow> attempt_failure \<Rightarrow> bool" where
  "ut1_retryable p retries failure \<longleftrightarrow>
     (case failure of AfStatus status \<Rightarrow> should_retry_status status retries p | _ \<Rightarrow> False)
     \<or> should_retry_transport_failure failure retries p"

lemma ut1_retryable_less: "ut1_retryable p retries failure \<Longrightarrow> retries < up_max_attempts p - 1"
  by (auto simp: ut1_retryable_def should_retry_status_def should_retry_transport_failure_def
      split: attempt_failure.splits)

function ut1_get_loop :: "'w ut1_ctx \<Rightarrow> ut1_retry_policy \<Rightarrow> string \<Rightarrow> string \<Rightarrow> nat \<Rightarrow> 'w
    \<Rightarrow> (fetch_error + ut1_body) \<times> 'w" where
  "ut1_get_loop cx p url resource retries w =
     (case request_once cx url w of
        (Inr success, w) \<Rightarrow> (Inr success, w)
      | (Inl failure, w) \<Rightarrow>
          if failure = AfStatus 404 then
            (Inl (TransportError (''UT1 returned HTTP 404 for '' @ resource @ '' at '' @ url
               @ '': no point retrying'')), w)
          else if ut1_retryable p retries failure then
            ut1_get_loop cx p url resource (retries + 1) (ut_sleep cx (backoff_for retries p) w)
          else (Inl (TransportError (''fetching '' @ url @ '' failed: '' @ describe failure)), w))"
  by pat_completeness auto
termination
  by (relation "measure (\<lambda>(_, p, _, _, retries, _). up_max_attempts p - 1 - retries)")
    (auto dest: ut1_retryable_less)

declare ut1_get_loop.simps [simp del]

definition get_bytes_with_retry :: "'w ut1_ctx \<Rightarrow> ut1_retry_policy \<Rightarrow> string \<Rightarrow> string \<Rightarrow> 'w
    \<Rightarrow> (fetch_error + ut1_body) \<times> 'w" where
  "get_bytes_with_retry cx p url resource w = ut1_get_loop cx p url resource 0 w"

definition get_text_with_retry :: "'w ut1_ctx \<Rightarrow> ut1_retry_policy \<Rightarrow> string \<Rightarrow> 'w \<Rightarrow> (fetch_error + string) \<times> 'w" where
  "get_text_with_retry cx p url w =
     (case get_bytes_with_retry cx p url
        (''the UT1 license page '' @ em_dash @ '' the only license source this module has'') w of
        (Inl e, w) \<Rightarrow> (Inl e, w)
      | (Inr (bs, _), w) \<Rightarrow>
          (case from_utf8 bs of
             Some s \<Rightarrow> (Inr s, w)
           | None \<Rightarrow> (Inl (TransportError (''license page at '' @ url @ '' is not UTF-8 '' @ em_dash
               @ '' treating as changed (actual error: '' @ ut_utf8_error cx bs @ '')'')), w)))"

section \<open>Extracting a member\<close>

definition validate_category_dir :: "string \<Rightarrow> ut1_extract_error + unit" where
  "validate_category_dir dir =
     (if dir = [] \<or> dir = ''.'' \<or> dir = ''..'' \<or> CHR ''/'' \<in> set dir \<or> CHR 0x5C \<in> set dir \<or> hd dir = CHR ''.''
      then Inl (InvalidCategoryDir dir) else Inr ())"

text \<open>\<open>Path::components\<close> of a Unix path: the non-empty parts between slashes other than \<open>.\<close> and
  \<open>..\<close> are the normal ones, the only ones kept.\<close>

definition normalize_tar_path :: "(bytes \<Rightarrow> string) \<Rightarrow> bytes \<Rightarrow> string" where
  "normalize_tar_path lossy path =
     (case map lossy (filter (\<lambda>c. c \<notin> {[], [46], [46, 46]}) (split_on 47 path)) of
        [] \<Rightarrow> []
      | cs \<Rightarrow> join_with CHR ''/'' cs)"

text \<open>\<open>take(n).read_to_end\<close>: an error behind the first \<open>n\<close> bytes is never met.\<close>

definition read_limited :: "nat \<Rightarrow> tar_entry \<Rightarrow> string + bytes" where
  "read_limited n e =
     (case te_error e of
        Some err \<Rightarrow> if length (te_content e) < n then Inl err else Inr (take n (te_content e))
      | None \<Rightarrow> Inr (take n (te_content e)))"

fun scan_tar_entries :: "(bytes \<Rightarrow> string) \<Rightarrow> string \<Rightarrow> string \<Rightarrow> (string + tar_entry) list \<Rightarrow> bytes option
    \<Rightarrow> ut1_extract_error + bytes option" where
  "scan_tar_entries lossy dir member [] found = Inr found"
| "scan_tar_entries lossy dir member (Inl err # es) found = Inl (GzipInvalid err)"
| "scan_tar_entries lossy dir member (Inr e # es) found =
     (case te_path e of
        None \<Rightarrow> scan_tar_entries lossy dir member es found
      | Some path \<Rightarrow>
          if normalize_tar_path lossy path \<noteq> dir @ ''/'' @ member then scan_tar_entries lossy dir member es found
          else if \<not> te_regular e then Inl (MemberNotRegularFile dir member)
          else (case read_limited (MAX_MEMBER_BYTES + 1) e of
                  Inl err \<Rightarrow> Inl (GzipInvalid err)
                | Inr buf \<Rightarrow>
                    if MAX_MEMBER_BYTES < length buf then Inl (MemberTooLarge dir member)
                    else scan_tar_entries lossy dir member es (Some buf)))"

definition extract_member :: "'w ut1_ctx \<Rightarrow> bytes \<Rightarrow> string \<Rightarrow> string \<Rightarrow> ut1_extract_error + bytes" where
  "extract_member cx tar_gz dir member =
     (case validate_category_dir dir of
        Inl e \<Rightarrow> Inl e
      | Inr _ \<Rightarrow>
          if length tar_gz < 2 \<or> tar_gz ! 0 \<noteq> 0x1f \<or> tar_gz ! 1 \<noteq> 0x8b then Inl NotGzip
          else (case ut_untar cx tar_gz of
                  Inl err \<Rightarrow> Inl (TarInvalid err)
                | Inr entries \<Rightarrow>
                    (case scan_tar_entries (ut_lossy cx) dir member entries None of
                       Inl e \<Rightarrow> Inl e
                     | Inr None \<Rightarrow> Inl (MemberNotFound dir member)
                     | Inr (Some bs) \<Rightarrow> Inr bs)))"

definition extract_domains_file :: "'w ut1_ctx \<Rightarrow> bytes \<Rightarrow> string \<Rightarrow> ut1_extract_error + bytes" where
  "extract_domains_file cx tar_gz dir = extract_member cx tar_gz dir ''domains''"

definition extract_urls_file :: "'w ut1_ctx \<Rightarrow> bytes \<Rightarrow> string \<Rightarrow> ut1_extract_error + bytes" where
  "extract_urls_file cx tar_gz dir = extract_member cx tar_gz dir ''urls''"


section \<open>The license page\<close>

function strip_html_comments :: "string \<Rightarrow> string" where
  "strip_html_comments html =
     (case str_find ''<!--'' html of
        None \<Rightarrow> html
      | Some start \<Rightarrow>
          let after_open = drop (start + 4) html
          in take start html @
             (case str_find ''-->'' after_open of
                Some e \<Rightarrow> strip_html_comments (drop (e + 3) after_open)
              | None \<Rightarrow> []))"
  by pat_completeness auto
termination
  by (relation "measure length") (auto dest!: str_find_Some)

fun find_tag_end :: "char option \<Rightarrow> string \<Rightarrow> nat option" where
  "find_tag_end in_quote [] = None"
| "find_tag_end in_quote (ch # body) =
     (case in_quote of
        Some q \<Rightarrow> map_option (\<lambda>n. n + 1) (find_tag_end (if ch = q then None else in_quote) body)
      | None \<Rightarrow>
          if ch = CHR 0x22 \<or> ch = CHR 0x27 then map_option (\<lambda>n. n + 1) (find_tag_end (Some ch) body)
          else if ch = CHR ''>'' then Some 0
          else map_option (\<lambda>n. n + 1) (find_tag_end None body))"

definition decode_entities :: "string \<Rightarrow> string" where
  "decode_entities s =
     str_replace ''&amp;'' ''&'' (str_replace ''&apos;'' [CHR 0x27] (str_replace ''&quot;'' [CHR 0x22]
       (str_replace ''&gt;'' ''>'' (str_replace ''&lt;'' ''<'' s))))"

definition is_ascii_whitespace :: "char \<Rightarrow> bool" where
  "is_ascii_whitespace c \<longleftrightarrow> c \<in> {CHR 0x20, CHR 0x09, CHR 0x0A, CHR 0x0C, CHR 0x0D}"

definition is_attr_name :: "char \<Rightarrow> bool" where
  "is_attr_name c \<longleftrightarrow> is_ascii_alphanumeric c \<or> c = CHR ''-'' \<or> c = CHR ''_''"

text \<open>The value after an attribute name, and what remains of the tag.\<close>

definition attr_value :: "string \<Rightarrow> string \<times> string" where
  "attr_value rest =
     (case rest of
        c # r \<Rightarrow>
          if c = CHR ''='' then
            (case dropWhile is_ascii_whitespace r of
               [] \<Rightarrow> (decode_entities [], [])
             | q # v \<Rightarrow>
                 if q = CHR 0x22 \<or> q = CHR 0x27 then
                   (decode_entities (takeWhile (\<lambda>c. c \<noteq> q) v), drop 1 (dropWhile (\<lambda>c. c \<noteq> q) v))
                 else let in_value = (\<lambda>c. \<not> is_ascii_whitespace c \<and> c \<noteq> CHR ''>'')
                   in (decode_entities (takeWhile in_value (q # v)), dropWhile in_value (q # v)))
          else ([], rest)
      | [] \<Rightarrow> ([], rest))"

lemma attr_value_rest: "length (snd (attr_value rest)) \<le> length rest"
proof (cases rest)
  case (Cons c r)
  show ?thesis
  proof (cases "dropWhile is_ascii_whitespace r")
    case (Cons q v)
    then have "length (q # v) \<le> length r" by (metis length_dropWhile_le)
    moreover have "length (drop 1 (dropWhile (\<lambda>c. c \<noteq> q) v)) \<le> length v"
      using length_dropWhile_le [of "\<lambda>c. c \<noteq> q" v] by simp
    moreover have "length (dropWhile P (q # v)) \<le> length (q # v)" for P by (rule length_dropWhile_le)
    from this [of "\<lambda>c. \<not> is_ascii_whitespace c \<and> c \<noteq> CHR ''>''"] calculation show ?thesis
      unfolding attr_value_def \<open>rest = c # r\<close> Let_def list.case Cons by (auto simp del: dropWhile.simps)
  next
    case Nil
    show ?thesis unfolding attr_value_def \<open>rest = c # r\<close> list.case Nil by simp
  qed
qed (simp add: attr_value_def)

lemma attrs_skip: "dropWhile P body = c # r \<Longrightarrow> length r < length body"
  by (metis length_dropWhile_le Suc_le_eq length_Cons)

lemma attrs_step:
  assumes "dropWhile P body = c # r" "takeWhile is_attr_name (c # r) \<noteq> []"
    "attr_value (dropWhile is_ascii_whitespace (dropWhile is_attr_name (c # r))) = (v, rest)"
  shows "length rest < length body"
proof -
  have "length (c # r) \<le> length body" by (metis assms(1) length_dropWhile_le)
  moreover have "length (dropWhile is_attr_name (c # r)) < length (c # r)"
    using assms(2) length_dropWhile_le [of is_attr_name r] by (auto split: if_splits)
  moreover have "length rest \<le> length (dropWhile is_ascii_whitespace (dropWhile is_attr_name (c # r)))"
    using attr_value_rest assms(3) by (metis snd_conv)
  ultimately show ?thesis
    using length_dropWhile_le [of is_ascii_whitespace "dropWhile is_attr_name (c # r)"] by simp
qed

function parse_tag_attributes :: "string \<Rightarrow> (string \<times> string) list" where
  "parse_tag_attributes body =
     (case dropWhile (\<lambda>c. is_ascii_whitespace c \<or> c = CHR ''/'') body of
        [] \<Rightarrow> []
      | c # r \<Rightarrow>
          let name = takeWhile is_attr_name (c # r)
          in if name = [] then parse_tag_attributes r
             else let (value, rest) = attr_value (dropWhile is_ascii_whitespace (dropWhile is_attr_name (c # r)))
                  in (to_ascii_lowercase name, value) # parse_tag_attributes rest)"
  by pat_completeness auto
termination
proof (relation "measure length", goal_cases)
  case 1
  show ?case by simp
next
  case (2 body c r x)
  then show ?case unfolding in_measure by (intro attrs_skip)
next
  case (3 body c r x xa xb y)
  then show ?case unfolding in_measure using attrs_step [of _ body c r xb y] by metis
qed

declare strip_html_comments.simps [simp del] parse_tag_attributes.simps [simp del]

definition has_license_rel :: "(string \<times> string) list \<Rightarrow> bool" where
  "has_license_rel attrs \<longleftrightarrow>
     list_ex (\<lambda>(k, v). k = ''rel'' \<and> list_ex (\<lambda>t. eq_ignore_ascii_case t ''license'') (split_whitespace v)) attrs"

text \<open>The scan from \<open>pos\<close> on, given the rest of the page from there.\<close>

function find_license_anchor_href :: "string \<Rightarrow> string option option" where
  "find_license_anchor_href html =
     (case str_find ''<a'' html of
        None \<Rightarrow> None
      | Some found \<Rightarrow>
          (case drop (found + 2) html of
             [] \<Rightarrow> None
           | next # rest \<Rightarrow>
               if \<not> (0 < ws_len (next # rest) \<or> next = CHR ''>'' \<or> next = CHR ''/'')
               then find_license_anchor_href (next # rest)
               else (case find_tag_end None (next # rest) of
                       None \<Rightarrow> find_license_anchor_href (next # rest)
                     | Some end_rel \<Rightarrow>
                         let attrs = parse_tag_attributes (take end_rel (next # rest))
                         in if has_license_rel attrs
                            then Some (map_option snd (find (\<lambda>(k, _). k = ''href'') attrs))
                            else find_license_anchor_href (drop (end_rel + 1) (next # rest)))))"
  by pat_completeness auto
termination
proof (relation "measure length", simp_all only: wf_measure in_measure)
  fix html :: string and found c r
  assume "str_find ''<a'' html = Some found" and d: "drop (found + 2) html = c # r"
  then have "length (c # r) < length html"
    using str_find_Some [of "''<a''" html found] by (metis diff_less length_drop length_greater_0_conv list.distinct(1)
        drop_Nil add_gr_0 zero_less_numeral)
  then show "length (c # r) < length html" "length (c # r) < length html"
    "length (drop (e + 1) (c # r)) < length html" for e
    by auto
qed

declare find_license_anchor_href.simps [simp del]

definition CC_SPEC_DECODES :: "(string \<times> string) list" where
  "CC_SPEC_DECODES = [(''by'', ''CC-BY-''), (''by-sa'', ''CC-BY-SA-''), (''by-nc'', ''CC-BY-NC-''),
     (''by-nc-sa'', ''CC-BY-NC-SA-''), (''by-nd'', ''CC-BY-ND-''), (''by-nc-nd'', ''CC-BY-NC-ND-'')]"

definition CC_VERSIONS :: "string list" where
  "CC_VERSIONS = [''2.0'', ''2.5'', ''3.0'', ''4.0'']"

definition map_cc_url_to_spdx :: "string \<Rightarrow> license_id option" where
  "map_cc_url_to_spdx url =
     (case split_str ''://'' url of
        _ # rest # _ \<Rightarrow>
          (case filter (\<lambda>s. s \<noteq> []) (split_on CHR ''/'' rest) of
             [] \<Rightarrow> None
           | host # remainder \<Rightarrow>
               if host \<noteq> ''creativecommons.org'' \<and> \<not> suffix ''.creativecommons.org'' host then None
               else (case (case remainder of
                        [licenses, code, version] \<Rightarrow> Some (licenses, code, version, None)
                      | [licenses, code, version, sfx] \<Rightarrow> Some (licenses, code, version, Some sfx)
                      | _ \<Rightarrow> None) of
                   None \<Rightarrow> None
                 | Some (licenses, code, version, sfx) \<Rightarrow>
                     if licenses \<noteq> ''licenses'' then None
                     else if (case sfx of Some x \<Rightarrow> x \<noteq> ''legalcode'' \<and> \<not> prefix ''deed.'' x | None \<Rightarrow> False) then None
                     else if version \<notin> set CC_VERSIONS then None
                     else map_option (\<lambda>(_, p). LicenseId (p @ version)) (find (\<lambda>(c, _). c = code) CC_SPEC_DECODES)))
      | _ \<Rightarrow> None)"

definition extract_license :: "string \<Rightarrow> ut1_license_error + license_id" where
  "extract_license html =
     (case find_license_anchor_href (strip_html_comments html) of
        None \<Rightarrow> Inl LicenseAnchorNotFound
      | Some None \<Rightarrow> Inl LicenseHrefMissing
      | Some (Some href) \<Rightarrow>
          (case map_cc_url_to_spdx href of
             None \<Rightarrow> Inl (UnsupportedLicenseUrl href)
           | Some l \<Rightarrow> Inr l))"

section \<open>The revision and the fetch\<close>

definition hex_digit :: "nat \<Rightarrow> char" where
  "hex_digit n = char_of (if n < 10 then 48 + n else 87 + n)"

definition hex_encode :: "bytes \<Rightarrow> string" where
  "hex_encode bs = concat (map (\<lambda>b. [hex_digit (unat b div 16), hex_digit (unat b mod 16)]) bs)"

definition pick_revision :: "(bytes \<Rightarrow> bytes) \<Rightarrow> string option \<Rightarrow> string option \<Rightarrow> bytes \<Rightarrow> string" where
  "pick_revision sha256 etag last_modified domains =
     (let present = (\<lambda>h. case h of Some s \<Rightarrow> if trim_str s = [] then None else Some s | None \<Rightarrow> None)
      in case present etag of
           Some e \<Rightarrow> ''etag='' @ e
         | None \<Rightarrow>
             (case present last_modified of
                Some lm \<Rightarrow> ''last-modified='' @ lm
              | None \<Rightarrow> ''sha256='' @ hex_encode (sha256 domains)))"

definition now_timestamp :: "'w ut1_ctx \<Rightarrow> 'w \<Rightarrow> timestamp" where
  "now_timestamp cx w = (case ut_clock cx w of Some d \<Rightarrow> d | None \<Rightarrow> 0)"

record ut1_fetched =
  uf_fetched :: fetched_source
  uf_urls_bytes :: bytes
  uf_urls_entry_count :: nat

definition verify_config_category :: "ut1_category \<Rightarrow> source_config \<Rightarrow> fetch_error + unit" where
  "verify_config_category c config =
     (if sc_source config \<noteq> Ut1 then
        Inl (TransportError (''Ut1SourceFetcher<'' @ uc_dir c @ ''> called with a config for ''
          @ source_debug (sc_source config)))
      else
        let path = last (split_on CHR ''/'' (map (\<lambda>ch. if ch = CHR 0x5C then CHR ''/'' else ch) (sc_url config)));
            expected = uc_dir c @ ''.tar.gz''
        in if path \<noteq> expected then
             Inl (TransportError (''UT1 config URL ends in `'' @ path @ ''`, expected `'' @ expected
               @ ''` (category/fetcher mismatch)''))
           else Inr ())"

definition fetch_files :: "'w ut1_ctx \<Rightarrow> ut1_category \<Rightarrow> ut1_retry_policy \<Rightarrow> source_config \<Rightarrow> 'w
    \<Rightarrow> (fetch_error + ut1_fetched) \<times> 'w" where
  "fetch_files cx c p config w =
     (case verify_config_category c config of
        Inl e \<Rightarrow> (Inl e, w)
      | Inr _ \<Rightarrow>
     (case get_bytes_with_retry cx p (sc_url config) ''the category tarball (renamed upstream?)'' w of
        (Inl e, w) \<Rightarrow> (Inl e, w)
      | (Inr (tarball, etag, last_modified), w) \<Rightarrow>
     (case get_text_with_retry cx p UT1_LICENSE_PAGE w of
        (Inl e, w) \<Rightarrow> (Inl e, w)
      | (Inr license_page, w) \<Rightarrow>
     (case extract_license license_page of
        Inl e \<Rightarrow> (Inl (ut1_license_to_fetch e), w)
      | Inr license \<Rightarrow>
     (case extract_domains_file cx tarball (uc_dir c) of
        Inl e \<Rightarrow> (Inl (ut1_extract_to_fetch e), w)
      | Inr domains \<Rightarrow>
     (case extract_urls_file cx tarball (uc_dir c) of
        Inl e \<Rightarrow> (Inl (ut1_extract_to_fetch e), w)
      | Inr urls \<Rightarrow>
          (Inr \<lparr>uf_fetched = \<lparr>fs_revision = pick_revision (ut_sha256 cx) etag last_modified domains,
                 fs_license = license, fs_fetched_at = now_timestamp cx w, fs_bytes = domains\<rparr>,
               uf_urls_bytes = urls,
               uf_urls_entry_count = count_urls_entries (ut_lossy cx) urls\<rparr>, w)))))))"

text \<open>The synchronous \<open>SourceFetcher::fetch\<close>; the runtime may fail to start.\<close>

definition ut1_fetch :: "'w ut1_ctx \<Rightarrow> ut1_category \<Rightarrow> ut1_retry_policy \<Rightarrow> 'w \<Rightarrow> source_config
    \<Rightarrow> fetch_error + fetched_source" where
  "ut1_fetch cx c p w config =
     (case ut_runtime cx of
        Some e \<Rightarrow> Inl (TransportError (''failed to start tokio runtime: '' @ e))
      | None \<Rightarrow> map_sum id uf_fetched (fst (fetch_files cx c p config w)))"


section \<open>What license is accepted\<close>

lemma strip_comment_span:
  assumes "str_find ''<!--'' (a @ ''<!--'') = Some (length a)" "str_find ''-->'' (c @ ''-->'') = Some (length c)"
  shows "strip_html_comments (a @ ''<!--'' @ c @ ''-->'' @ b) = a @ strip_html_comments b"
proof -
  have len: "length ''<!--'' = 4" "length ''-->'' = 3" by simp_all
  have d: "drop (length a + 4) (a @ ''<!--'' @ c @ ''-->'' @ b) = c @ ''-->'' @ b"
    "drop (length c + 3) (c @ ''-->'' @ b) = b" by simp_all
  show ?thesis
    unfolding strip_html_comments.simps [of "a @ ''<!--'' @ c @ ''-->'' @ b"]
    by (simp only: str_find_extend [OF assms(1)] str_find_extend [OF assms(2)] option.case Let_def d) simp
qed

lemma find_tag_end_gt: "find_tag_end q s = Some e \<Longrightarrow> s = take e s @ CHR ''>'' # drop (e + 1) s"
  by (induction q s arbitrary: e rule: find_tag_end.induct) (auto split: option.splits if_splits)

definition license_anchor :: "string \<Rightarrow> string option \<Rightarrow> bool" where
  "license_anchor html href \<longleftrightarrow>
     (\<exists>pre tag post. html = pre @ ''<a'' @ tag @ ''>'' @ post \<and> has_license_rel (parse_tag_attributes tag)
       \<and> href = map_option snd (find (\<lambda>(k, _). k = ''href'') (parse_tag_attributes tag)))"

lemma license_anchor_append: "license_anchor html href \<Longrightarrow> license_anchor (z @ html) href"
  unfolding license_anchor_def by (metis append.assoc)

lemma find_license_anchor_step:
  assumes "str_find ''<a'' html = Some found" "drop (found + 2) html = next' # rest"
  shows "find_license_anchor_href html =
    (if 0 < ws_len (next' # rest) \<or> next' = CHR ''>'' \<or> next' = CHR ''/'' then
       (case find_tag_end None (next' # rest) of
          None \<Rightarrow> find_license_anchor_href (next' # rest)
        | Some e \<Rightarrow>
            if has_license_rel (parse_tag_attributes (take e (next' # rest)))
            then Some (map_option snd (find (\<lambda>(k, _). k = ''href'') (parse_tag_attributes (take e (next' # rest)))))
            else find_license_anchor_href (drop (e + 1) (next' # rest)))
     else find_license_anchor_href (next' # rest))"
  unfolding find_license_anchor_href.simps [of html] assms option.case list.case Let_def
  by (cases "0 < ws_len (next' # rest) \<or> next' = CHR ''>'' \<or> next' = CHR ''/''")
    (simp_all only: not_True_eq_False not_False_eq_True if_True if_False)

lemma license_anchor_sound:
  "find_license_anchor_href html = Some href \<Longrightarrow> license_anchor html href"
proof (induction html rule: measure_induct_rule [where f = length])
  case (less html)
  from less.prems obtain found next' rest where f: "str_find ''<a'' html = Some found"
    "drop (found + 2) html = next' # rest"
    by (subst (asm) find_license_anchor_href.simps) (auto split: option.splits list.splits)
  have html: "html = take found html @ ''<a'' @ next' # rest"
    using str_find_Some [OF f(1)] f(2) by simp
  have skip: "license_anchor html href" if "find_license_anchor_href (drop k (next' # rest)) = Some href" for k
  proof -
    have "length (drop k (next' # rest)) < length html" by (subst html) simp
    from license_anchor_append [OF less.IH [OF this that]] html show ?thesis
      by (metis append.assoc append_take_drop_id)
  qed
  have hit: "license_anchor html (map_option snd (find (\<lambda>(k, _). k = ''href'') (parse_tag_attributes (take e (next' # rest)))))"
    if "find_tag_end None (next' # rest) = Some e" "has_license_rel (parse_tag_attributes (take e (next' # rest)))" for e
  proof -
    have "html = take found html @ ''<a'' @ take e (next' # rest) @ ''>'' @ drop (e + 1) (next' # rest)"
      using find_tag_end_gt [OF that(1)] html by simp
    with that(2) show ?thesis unfolding license_anchor_def by blast
  qed
  note step = less.prems [unfolded find_license_anchor_step [OF f]]
  show ?case
  proof (cases "find_license_anchor_href (next' # rest) = Some href")
    case True
    with skip [of 0] show ?thesis by (simp only: drop_0)
  next
    case False
    with step obtain e where e: "find_tag_end None (next' # rest) = Some e"
      by (cases "find_tag_end None (next' # rest)") (auto simp del: find_tag_end.simps split: if_splits)
    with step False have "if has_license_rel (parse_tag_attributes (take e (next' # rest)))
      then Some (map_option snd (find (\<lambda>(k, _). k = ''href'') (parse_tag_attributes (take e (next' # rest))))) = Some href
      else find_license_anchor_href (drop (e + 1) (next' # rest)) = Some href"
      by (simp only: option.case option.inject simp_thms if_True if_False split: if_splits)
    with hit [OF e] skip [of "e + 1"] show ?thesis
      by (simp only: option.inject simp_thms if_True if_False split: if_splits)
  qed
qed

definition license_url :: "string \<Rightarrow> string \<Rightarrow> string \<Rightarrow> bool" where
  "license_url code version url \<longleftrightarrow>
     (\<exists>scheme rest more host tail. split_str ''://'' url = scheme # rest # more
       \<and> filter (\<lambda>s. s \<noteq> []) (split_on CHR ''/'' rest) = host # ''licenses'' # code # version # tail
       \<and> (host = ''creativecommons.org'' \<or> suffix ''.creativecommons.org'' host)
       \<and> (tail = [] \<or> tail = [''legalcode''] \<or> (\<exists>x. tail = [''deed.'' @ x])))"

lemma map_cc_sound:
  assumes "map_cc_url_to_spdx url = Some l"
  shows "\<exists>code pre version. (code, pre) \<in> set CC_SPEC_DECODES \<and> version \<in> set CC_VERSIONS
    \<and> l = LicenseId (pre @ version) \<and> license_url code version url"
proof -
  obtain scheme rest more where sp: "split_str ''://'' url = scheme # rest # more"
    using assms by (auto simp: map_cc_url_to_spdx_def split: list.splits)
  obtain host remainder where h: "filter (\<lambda>s. s \<noteq> []) (split_on CHR ''/'' rest) = host # remainder"
    using assms sp by (auto simp: map_cc_url_to_spdx_def split: list.splits)
  have host: "host = ''creativecommons.org'' \<or> suffix ''.creativecommons.org'' host"
    using assms sp h by (auto simp: map_cc_url_to_spdx_def split: if_splits)
  obtain licenses code version sfx where r:
    "(case remainder of [licenses, code, version] \<Rightarrow> Some (licenses, code, version, None)
      | [licenses, code, version, sfx] \<Rightarrow> Some (licenses, code, version, Some sfx)
      | _ \<Rightarrow> None) = Some (licenses, code, version, sfx)"
    using assms sp h host unfolding map_cc_url_to_spdx_def
    by (cases "(case remainder of [licenses, code, version] \<Rightarrow> Some (licenses, code, version, None)
      | [licenses, code, version, sfx] \<Rightarrow> Some (licenses, code, version, Some sfx)
      | _ \<Rightarrow> None)") auto
  then have rem: "remainder = licenses # code # version # (case sfx of None \<Rightarrow> [] | Some x \<Rightarrow> [x])"
    by (auto split: list.splits)
  from assms have l: "licenses = ''licenses''" "\<And>x. sfx = Some x \<Longrightarrow> x = ''legalcode'' \<or> prefix ''deed.'' x"
    "version \<in> set CC_VERSIONS"
    "map_option (\<lambda>(_, p). LicenseId (p @ version)) (find (\<lambda>(c, _). c = code) CC_SPEC_DECODES) = Some l"
    using host unfolding map_cc_url_to_spdx_def by (simp_all only: sp h r list.case option.case prod.case split: if_splits) auto
  obtain pre where p: "(code, pre) \<in> set CC_SPEC_DECODES" "l = LicenseId (pre @ version)"
    using l(4) by (auto simp: find_Some_iff) (metis nth_mem)
  have "license_url code version url"
    unfolding license_url_def sp
    using h host l(1,2) rem by (cases sfx) (auto simp: prefix_def)
  with p l(3) show ?thesis by blast
qed


text \<open>A license the scrape accepts is one of the 24 combinations of a listed code and version.
  It is named by the \<open>href\<close> of an anchor whose \<open>rel\<close> contains \<open>license\<close>, standing in the page
  with its comments removed, and the URL there has the host \<open>creativecommons.org\<close> or a subdomain,
  the path \<open>licenses/<code>/<version>\<close>, and no further path than \<open>legalcode\<close> or \<open>deed.*\<close>.\<close>

theorem ut1_license_sound:
  "case extract_license html of
     Inr l \<Rightarrow> \<exists>code pre version href. (code, pre) \<in> set CC_SPEC_DECODES \<and> version \<in> set CC_VERSIONS
       \<and> l = LicenseId (pre @ version) \<and> license_url code version href
       \<and> license_anchor (strip_html_comments html) (Some href)
   | Inl _ \<Rightarrow> True"
proof (cases "extract_license html")
  case (Inr l)
  then obtain href where "license_anchor (strip_html_comments html) (Some href)" "map_cc_url_to_spdx href = Some l"
    by (auto simp: extract_license_def split: option.splits intro: license_anchor_sound)
  with map_cc_sound [of href l] Inr show ?thesis by auto
qed simp

text \<open>What a comment of the license page says does not change the outcome: with any other
  comment in its place the scrape returns the same license, or the same error.\<close>

theorem ut1_license_ignores_comments:
  assumes "str_find ''<!--'' (a @ ''<!--'') = Some (length a)"
    "str_find ''-->'' (c @ ''-->'') = Some (length c)" "str_find ''-->'' (d @ ''-->'') = Some (length d)"
  shows "extract_license (a @ ''<!--'' @ c @ ''-->'' @ b) = extract_license (a @ ''<!--'' @ d @ ''-->'' @ b)"
  unfolding extract_license_def strip_comment_span [OF assms(1,2)] strip_comment_span [OF assms(1,3)] ..

definition page_badge :: string where
  "page_badge = ''<a rel=\"license\" href=\"http://creativecommons.org/licenses/by-nc-sa/4.0/\">x</a>''"

definition page_live :: string where
  "page_live = ''<p><a href=\"https://creativecommons.org/licenses/by-sa/4.0/deed.fr\" rel=\"license\">y</a></p>''"

theorem ut1_license_ignores_comments_witness:
  "extract_license (''<html> '' @ ''<!--'' @ page_badge @ ''-->'' @ page_live)
     = extract_license (''<html> '' @ ''<!--'' @ [] @ ''-->'' @ page_live)
   \<and> extract_license (''<html> '' @ ''<!--'' @ page_badge @ ''-->'' @ page_live) = Inr (LicenseId ''CC-BY-SA-4.0'')
   \<and> extract_license page_badge = Inr (LicenseId ''CC-BY-NC-SA-4.0'')"
proof (intro conjI)
  have "str_find ''<!--'' (''<html> '' @ ''<!--'') = Some (length ''<html> '')" by code_simp
  moreover have "str_find ''-->'' (page_badge @ ''-->'') = Some (length page_badge)" by code_simp
  moreover have "str_find ''-->'' ([] @ ''-->'') = Some (length [])" by code_simp
  ultimately show "extract_license (''<html> '' @ ''<!--'' @ page_badge @ ''-->'' @ page_live)
     = extract_license (''<html> '' @ ''<!--'' @ [] @ ''-->'' @ page_live)"
    by (rule ut1_license_ignores_comments)
qed code_simp+

text \<open>Any scheme is taken, and a path of \<open>..\<close> components still names the member.\<close>

lemma any_scheme_accepted:
  "map_cc_url_to_spdx ''gopher://creativecommons.org/licenses/by/4.0'' = Some (LicenseId ''CC-BY-4.0'')"
  by code_simp

lemma parent_components_match:
  "normalize_tar_path string_of_bytes (bytes_of_string ''../x/../adult/./domains'') = ''x/adult/domains''"
  "normalize_tar_path string_of_bytes (bytes_of_string ''/../adult/domains'') = ''adult/domains''"
  by code_simp+

text \<open>A base backoff below a second is no backoff at all.\<close>

lemma backoff_subsecond: "up_base_backoff p < SECOND \<Longrightarrow> backoff_for k p = 0"
  by (simp add: backoff_for_def Let_def)

section \<open>What a fetch returns\<close>

lemma read_chunks_bound:
  "read_chunks bs cs = Inr r \<Longrightarrow> length bs \<le> MAX_FETCHED_BYTES \<Longrightarrow> length r \<le> MAX_FETCHED_BYTES"
  by (induction bs cs rule: read_chunks.induct) (auto split: if_splits)

lemma read_chunks_bytes:
  "read_chunks bs cs = Inr r \<Longrightarrow> r = bs @ concat (map projr cs) \<and> list_all (Not \<circ> isl) cs"
  by (induction bs cs rule: read_chunks.induct) (auto split: if_splits)

text \<open>The server has sent this body, with these headers, to a GET of the URL, with a 2xx status.\<close>

definition ut1_served :: "'w ut1_ctx \<Rightarrow> string \<Rightarrow> ut1_body \<Rightarrow> bool" where
  "ut1_served cx url body \<longleftrightarrow>
     (\<exists>w w' resp. ut_send cx url w = (Inr resp, w') \<and> 200 \<le> ur_status resp \<and> ur_status resp \<le> 299
       \<and> list_all (Not \<circ> isl) (ur_chunks resp) \<and> body = (concat (map projr (ur_chunks resp)),
           ut1_header ''etag'' resp, ut1_header ''last-modified'' resp))
     \<and> length (fst body) \<le> MAX_FETCHED_BYTES"

lemma read_response_Inr:
  assumes "read_response resp = Inr body"
  shows "200 \<le> ur_status resp \<and> ur_status resp \<le> 299 \<and> list_all (Not \<circ> isl) (ur_chunks resp)
    \<and> body = (concat (map projr (ur_chunks resp)), ut1_header ''etag'' resp, ut1_header ''last-modified'' resp)
    \<and> length (fst body) \<le> MAX_FETCHED_BYTES"
proof -
  have "200 \<le> ur_status resp \<and> ur_status resp \<le> 299" using assms by (auto simp: read_response_def split: if_splits)
  moreover obtain bs where bs: "read_chunks [] (ur_chunks resp) = Inr bs"
    "body = (bs, ut1_header ''etag'' resp, ut1_header ''last-modified'' resp)"
    using assms
    by (cases "read_chunks [] (ur_chunks resp)") (auto simp: read_response_def split: if_splits option.splits)
  ultimately show ?thesis
    using read_chunks_bytes [OF bs(1)] read_chunks_bound [OF bs(1)] by simp
qed

lemma ut1_get_served:
  "ut1_get_loop cx p url resource retries w = (Inr body, w') \<Longrightarrow> ut1_served cx url body"
proof (induction cx p url resource retries w rule: ut1_get_loop.induct)
  case (1 cx p url resource retries w)
  show ?case
  proof (cases "request_once cx url w")
    case (Pair r w1)
    show ?thesis
    proof (cases r)
      case (Inr success)
      then have "body = success" using "1.prems" Pair by (subst (asm) ut1_get_loop.simps) simp
      obtain resp where "ut_send cx url w = (Inr resp, w1)" "read_response resp = Inr body"
        using Pair Inr \<open>body = success\<close> by (auto simp: request_once_def split: prod.splits sum.splits)
      with read_response_Inr [of resp body] show ?thesis unfolding ut1_served_def by blast
    next
      case (Inl failure)
      then show ?thesis
        using "1.prems" "1.IH" [OF Pair [symmetric] Inl]
        by (subst (asm) (1) ut1_get_loop.simps) (simp add: Pair split: if_splits)
    qed
  qed
qed


lemma ut1_get_bytes_served: "get_bytes_with_retry cx p url resource w = (Inr body, w') \<Longrightarrow> ut1_served cx url body"
  by (simp add: get_bytes_with_retry_def ut1_get_served)

lemma ut1_get_text_served:
  "get_text_with_retry cx p url w = (Inr s, w') \<Longrightarrow> \<exists>bs h. ut1_served cx url (bs, h) \<and> from_utf8 bs = Some s"
  by (auto simp: get_text_with_retry_def split: prod.splits sum.splits option.splits dest!: ut1_get_bytes_served)

text \<open>A regular file under the given path, read to its end within the ceiling.\<close>

definition tar_member :: "(bytes \<Rightarrow> string) \<Rightarrow> string \<Rightarrow> tar_entry \<Rightarrow> bytes \<Rightarrow> bool" where
  "tar_member lossy target e bs \<longleftrightarrow>
     (\<exists>path. te_path e = Some path \<and> normalize_tar_path lossy path = target) \<and> te_regular e \<and> te_error e = None
     \<and> te_content e = bs \<and> length bs \<le> MAX_MEMBER_BYTES"

lemma read_limited_Inr:
  "read_limited (n + 1) e = Inr buf \<Longrightarrow> length buf \<le> n \<Longrightarrow> te_error e = None \<and> te_content e = buf"
  by (auto simp: read_limited_def split: option.splits if_splits)

lemma scan_entries_sound:
  "scan_tar_entries lossy dir member es found = Inr (Some bs) \<Longrightarrow>
     found = Some bs \<or> (\<exists>e. Inr e \<in> set es \<and> tar_member lossy (dir @ ''/'' @ member) e bs)"
proof (induction lossy dir member es found rule: scan_tar_entries.induct)
  case (3 lossy dir member e es found)
  show ?case
  proof (cases "\<exists>path. te_path e = Some path \<and> normalize_tar_path lossy path = dir @ ''/'' @ member")
    case True
    then obtain path buf where p: "te_path e = Some path" "normalize_tar_path lossy path = dir @ ''/'' @ member"
      "te_regular e" "read_limited (MAX_MEMBER_BYTES + 1) e = Inr buf" "length buf \<le> MAX_MEMBER_BYTES"
      using "3.prems" by (auto split: if_splits sum.splits)
    have "tar_member lossy (dir @ ''/'' @ member) e buf"
      using p read_limited_Inr [OF p(4,5)] by (simp add: tar_member_def)
    with "3.IH"(3) [OF p(1) _ _ p(4)] p "3.prems" show ?thesis by auto
  next
    case False
    then have "scan_tar_entries lossy dir member es found = Inr (Some bs)"
      using "3.prems" by (auto split: option.splits if_splits)
    with "3.IH"(1,2) False show ?thesis by (cases "te_path e") auto
  qed
qed simp_all

lemma extract_member_sound:
  assumes "extract_member cx tar_gz dir member = Inr bs"
  shows "\<exists>es e. ut_untar cx tar_gz = Inr es \<and> Inr e \<in> set es \<and> tar_member (ut_lossy cx) (dir @ ''/'' @ member) e bs"
  using assms scan_entries_sound [of "ut_lossy cx" dir member _ None bs]
  by (auto simp: extract_member_def split: sum.splits if_splits option.splits)

subsection \<open>Requests of a fetch\<close>

definition ut1_traced :: "'w ut1_ctx \<Rightarrow> (gh_event list \<times> 'w) ut1_ctx" where
  "ut1_traced cx = \<lparr>
     ut_send = (\<lambda>url (evs, w). let (r, w) = ut_send cx url w in (r, (evs @ [EvGet url], w))),
     ut_sleep = (\<lambda>d (evs, w). (evs @ [EvSleep d], ut_sleep cx d w)),
     ut_clock = (\<lambda>(evs, w). ut_clock cx w),
     ut_runtime = ut_runtime cx, ut_untar = ut_untar cx, ut_sha256 = ut_sha256 cx,
     ut_lossy = ut_lossy cx, ut_utf8_error = ut_utf8_error cx\<rparr>"

lemma ut1_traced_simps [simp]:
  "ut_untar (ut1_traced cx) = ut_untar cx" "ut_sha256 (ut1_traced cx) = ut_sha256 cx"
  "ut_lossy (ut1_traced cx) = ut_lossy cx" "ut_utf8_error (ut1_traced cx) = ut_utf8_error cx"
  "ut_sleep (ut1_traced cx) d (evs, w) = (evs @ [EvSleep d], ut_sleep cx d w)"
  by (simp_all add: ut1_traced_def)

lemma ut_send_traced: "ut_send (ut1_traced cx) url w = (r, w') \<Longrightarrow> \<exists>w0 w1. ut_send cx url w0 = (r, w1)"
  by (cases "ut_send cx url (snd w)") (auto simp: ut1_traced_def split: prod.splits)

lemma ut1_served_traced: "ut1_served (ut1_traced cx) url body \<Longrightarrow> ut1_served cx url body"
  unfolding ut1_served_def by (blast dest: ut_send_traced)

lemma request_once_traced:
  "request_once (ut1_traced cx) url (evs, w)
     = (fst (request_once cx url w), (evs @ [EvGet url], snd (request_once cx url w)))"
  by (auto simp: request_once_def ut1_traced_def split: prod.split sum.split)

fun ut1_event_ok :: "ut1_retry_policy \<Rightarrow> string \<Rightarrow> gh_event \<Rightarrow> bool" where
  "ut1_event_ok p url (EvGet u) \<longleftrightarrow> u = url"
| "ut1_event_ok p url (EvSleep d) \<longleftrightarrow> d \<le> up_max_backoff p"

definition ut1_tries :: "ut1_retry_policy \<Rightarrow> string \<Rightarrow> nat \<Rightarrow> gh_event list \<Rightarrow> bool" where
  "ut1_tries p url n evs \<longleftrightarrow>
     length (filter is_get evs) \<le> max 1 n \<and> list_all (ut1_event_ok p url) evs"

lemma backoff_for_cap: "backoff_for k p \<le> up_max_backoff p"
proof -
  have "backoff_for k p \<le> up_max_backoff p div SECOND * SECOND"
    unfolding backoff_for_def Let_def by (rule mult_le_mono1) simp
  also have "\<dots> \<le> up_max_backoff p" by simp
  finally show ?thesis .
qed

lemma ut1_loop_trace:
  "\<exists>evs. fst (snd (ut1_get_loop (ut1_traced cx) p url resource retries (log, w))) = log @ evs
     \<and> ut1_tries p url (up_max_attempts p - retries) evs"
proof (induction "up_max_attempts p - retries" arbitrary: retries log w rule: less_induct)
  case less
  obtain r w1 where r: "request_once cx url w = (r, w1)" by fastforce
  let ?L = "ut1_get_loop (ut1_traced cx) p url resource"
  show ?case
  proof (cases "\<exists>failure. r = Inl failure \<and> failure \<noteq> AfStatus 404 \<and> ut1_retryable p retries failure")
    case True
    then obtain failure where f: "r = Inl failure" "failure \<noteq> AfStatus 404" "ut1_retryable p retries failure" by blast
    let ?d = "backoff_for retries p"
    have "?L retries (log, w) = ?L (retries + 1) ((log @ [EvGet url]) @ [EvSleep ?d], ut_sleep cx ?d w1)"
      by (subst ut1_get_loop.simps) (simp add: request_once_traced r f)
    moreover have lt: "up_max_attempts p - (retries + 1) < up_max_attempts p - retries"
      "1 \<le> up_max_attempts p - (retries + 1)"
      using ut1_retryable_less [OF f(3)] by auto
    moreover obtain evs where "fst (snd (?L (retries + 1) ((log @ [EvGet url]) @ [EvSleep ?d], ut_sleep cx ?d w1)))
        = ((log @ [EvGet url]) @ [EvSleep ?d]) @ evs" "ut1_tries p url (up_max_attempts p - (retries + 1)) evs"
      using less.hyps [OF lt(1), of "(log @ [EvGet url]) @ [EvSleep ?d]" "ut_sleep cx ?d w1"] by blast
    ultimately show ?thesis
      by (intro exI [of _ "EvGet url # EvSleep ?d # evs"]) (auto simp: ut1_tries_def backoff_for_cap)
  next
    case False
    then have "fst (snd (?L retries (log, w))) = log @ [EvGet url]"
      by (subst ut1_get_loop.simps) (auto simp: request_once_traced r split: sum.split)
    then show ?thesis by (intro exI [of _ "[EvGet url]"]) (simp add: ut1_tries_def)
  qed
qed

lemma get_bytes_trace:
  "\<exists>evs. fst (snd (get_bytes_with_retry (ut1_traced cx) p url resource (log, w))) = log @ evs
     \<and> ut1_tries p url (up_max_attempts p) evs"
  using ut1_loop_trace [of cx p url resource 0 log w] by (simp add: get_bytes_with_retry_def)

lemma get_text_trace:
  "\<exists>evs. fst (snd (get_text_with_retry (ut1_traced cx) p url (log, w))) = log @ evs
     \<and> ut1_tries p url (up_max_attempts p) evs"
  using get_bytes_trace [of cx p url "''the UT1 license page '' @ em_dash @ '' the only license source this module has''" log w]
  by (auto simp: get_text_with_retry_def split: prod.split sum.split option.split)

text \<open>A fetch that ends before, between or after the two GETs.\<close>

lemma fetch_files_trace:
  "\<exists>tar page. fst (snd (fetch_files (ut1_traced cx) c p config ([], w))) = tar @ page
     \<and> (tar = [] \<or> ut1_tries p (sc_url config) (up_max_attempts p) tar)
     \<and> (page = [] \<or> ut1_tries p UT1_LICENSE_PAGE (up_max_attempts p) page)"
proof (cases "verify_config_category c config")
  case (Inl e)
  then show ?thesis by (simp add: fetch_files_def)
next
  case (Inr u)
  let ?g = "get_bytes_with_retry (ut1_traced cx) p (sc_url config) ''the category tarball (renamed upstream?)'' ([], w)"
  obtain r1 tar w1 where g: "?g = (r1, (tar, w1))" by (metis surj_pair)
  then have tar: "ut1_tries p (sc_url config) (up_max_attempts p) tar"
    using get_bytes_trace [of cx p "sc_url config" "''the category tarball (renamed upstream?)''" "[]" w] by auto
  obtain r2 log w2 where t: "get_text_with_retry (ut1_traced cx) p UT1_LICENSE_PAGE (tar, w1) = (r2, (log, w2))"
    by (metis surj_pair)
  then obtain page where page: "log = tar @ page" "ut1_tries p UT1_LICENSE_PAGE (up_max_attempts p) page"
    using get_text_trace [of cx p UT1_LICENSE_PAGE tar w1] by auto
  have "fst (snd (fetch_files (ut1_traced cx) c p config ([], w))) = (case r1 of Inl _ \<Rightarrow> tar | Inr _ \<Rightarrow> tar @ page)"
    by (simp add: fetch_files_def Inr g t page(1) split: sum.split prod.split)
  with tar page(2) show ?thesis
    by (cases r1) (auto intro: exI [of _ tar] exI [of _ "[]"] exI [of _ page])
qed


lemma verify_config_suffix:
  assumes "verify_config_category c config = Inr u" "CHR 0x5C \<notin> set (sc_url config)"
  shows "last (split_on CHR ''/'' (sc_url config)) = uc_dir c @ ''.tar.gz''"
proof -
  have "map (\<lambda>ch. if ch = CHR 0x5C then CHR ''/'' else ch) (sc_url config) = sc_url config"
    using assms(2) by (induction "sc_url config" rule: list.induct) (auto intro!: map_idI)
  then show ?thesis using assms(1) by (simp add: verify_config_category_def Let_def split: if_splits)
qed

text \<open>What a successful fetch is made of.\<close>

definition ut1_provenance :: "'w ut1_ctx \<Rightarrow> ut1_category \<Rightarrow> source_config \<Rightarrow> ut1_fetched \<Rightarrow> bool" where
  "ut1_provenance cx c config f \<longleftrightarrow>
     sc_source config = Ut1 \<and> verify_config_category c config = Inr () \<and>
     (\<exists>tarball etag last_modified entries page h html.
        ut1_served cx (sc_url config) (tarball, etag, last_modified) \<and>
        ut_untar cx tarball = Inr entries \<and>
        (\<exists>e. Inr e \<in> set entries \<and> tar_member (ut_lossy cx) (uc_dir c @ ''/'' @ ''domains'') e (fs_bytes (uf_fetched f))) \<and>
        (\<exists>e. Inr e \<in> set entries \<and> tar_member (ut_lossy cx) (uc_dir c @ ''/'' @ ''urls'') e (uf_urls_bytes f)) \<and>
        ut1_served cx UT1_LICENSE_PAGE (page, h) \<and> from_utf8 page = Some html \<and>
        extract_license html = Inr (fs_license (uf_fetched f)) \<and>
        fs_revision (uf_fetched f) = pick_revision (ut_sha256 cx) etag last_modified (fs_bytes (uf_fetched f)) \<and>
        uf_urls_entry_count f = count_urls_entries (ut_lossy cx) (uf_urls_bytes f))"

lemma fetch_files_provenance:
  assumes "fetch_files cx c p config w = (Inr f, w')"
  shows "ut1_provenance cx c config f"
proof -
  obtain tarball etag lm w1 where t: "verify_config_category c config = Inr ()"
    "get_bytes_with_retry cx p (sc_url config) ''the category tarball (renamed upstream?)'' w = (Inr (tarball, etag, lm), w1)"
    using assms by (auto simp: fetch_files_def split: sum.splits prod.splits)
  obtain html w2 where h: "get_text_with_retry cx p UT1_LICENSE_PAGE w1 = (Inr html, w2)"
    using assms t by (auto simp: fetch_files_def split: sum.splits prod.splits)
  obtain license domains urls where d: "extract_license html = Inr license"
    "extract_domains_file cx tarball (uc_dir c) = Inr domains" "extract_urls_file cx tarball (uc_dir c) = Inr urls"
    using assms t h by (auto simp: fetch_files_def split: sum.splits)
  have f: "f = \<lparr>uf_fetched = \<lparr>fs_revision = pick_revision (ut_sha256 cx) etag lm domains,
                 fs_license = license, fs_fetched_at = now_timestamp cx w2, fs_bytes = domains\<rparr>,
               uf_urls_bytes = urls, uf_urls_entry_count = count_urls_entries (ut_lossy cx) urls\<rparr>"
    using assms t h d by (auto simp: fetch_files_def)
  have "sc_source config = Ut1" using t(1) by (simp add: verify_config_category_def split: if_splits)
  moreover obtain es e where es: "ut_untar cx tarball = Inr es" "Inr e \<in> set es"
      "tar_member (ut_lossy cx) (uc_dir c @ ''/'' @ ''domains'') e domains"
    using extract_member_sound [OF d(2) [unfolded extract_domains_file_def]] by blast
  moreover obtain e' where "Inr e' \<in> set es" "tar_member (ut_lossy cx) (uc_dir c @ ''/'' @ ''urls'') e' urls"
    using extract_member_sound [OF d(3) [unfolded extract_urls_file_def]] es(1) by auto
  moreover obtain page hd where "ut1_served cx UT1_LICENSE_PAGE (page, hd)" "from_utf8 page = Some html"
    using ut1_get_text_served [OF h] by blast
  ultimately show ?thesis
    unfolding ut1_provenance_def f fetched_source.simps ut1_fetched.simps
    using t(1) d(1) ut1_get_bytes_served [OF t(2)] by blast
qed

lemma ut1_provenance_traced: "ut1_provenance (ut1_traced cx) c config f \<Longrightarrow> ut1_provenance cx c config f"
  unfolding ut1_provenance_def ut1_traced_simps by (blast dest: ut1_served_traced)

definition ut1_sent :: "'w ut1_ctx \<Rightarrow> ut1_category \<Rightarrow> source_config \<Rightarrow> fetched_source \<Rightarrow> bool" where
  "ut1_sent cx c config s \<longleftrightarrow> (\<exists>f. uf_fetched f = s \<and> ut1_provenance cx c config f)"

interpretation ut1: source_fetcher "ut1_fetch cx c p w" "ut1_sent cx c" for cx c p w
proof
  fix config s
  assume "ut1_fetch cx c p w config = Inr s"
  then obtain f w' where "fetch_files cx c p config w = (Inr f, w')" "uf_fetched f = s"
    by (cases "fetch_files cx c p config w"; cases "fst (fetch_files cx c p config w)")
      (auto simp: ut1_fetch_def split: option.splits)
  then show "ut1_sent cx c config s" unfolding ut1_sent_def by (blast intro: fetch_files_provenance)
qed

text \<open>C23: a UT1 fetch does at most \<open>max(1, max_attempts)\<close> GETs of the tarball followed by as many of
  the license page, of no other URL, with no sleep above \<open>max_backoff\<close>. When it succeeds, the bytes
  and the urls are the whole contents of regular files \<open><dir>/domains\<close> and \<open><dir>/urls\<close> of that
  tarball, within the member ceiling; the tarball is within the fetch ceiling and its URL ends in
  the category's name; the license is the one the served page names, and the revision is made from
  the tarball's headers or the bytes.\<close>

theorem ut1_fetch_sound:
  "case fetch_files (ut1_traced cx) c p config ([], w) of (r, (evs, w')) \<Rightarrow>
     (\<exists>tar page. evs = tar @ page
        \<and> (tar = [] \<or> ut1_tries p (sc_url config) (up_max_attempts p) tar)
        \<and> (page = [] \<or> ut1_tries p UT1_LICENSE_PAGE (up_max_attempts p) page))
     \<and> (case r of Inl _ \<Rightarrow> True | Inr f \<Rightarrow> ut1_provenance cx c config f)"
proof -
  obtain r evs w' where r: "fetch_files (ut1_traced cx) c p config ([], w) = (r, (evs, w'))" by (metis surj_pair)
  have "case r of Inl _ \<Rightarrow> True | Inr f \<Rightarrow> ut1_provenance cx c config f"
    using fetch_files_provenance [of "ut1_traced cx" c p config "([], w)"] r
    by (auto split: sum.split intro: ut1_provenance_traced)
  with fetch_files_trace [of cx c p config w] r show ?thesis by auto
qed

end
