(* ===== verification/Feed_Provenance.thy ===== *)
theory Feed_Provenance
  imports Publish_Safety Github_Fetcher Ut1_Fetcher
begin

text \<open>
  The fetchers in the run (\<open>domain-blocklist/src/main.rs\<close>): how a run sets up the GitHub and the
  UT1 fetcher, and what the feeds of a published artifact are then made of.
\<close>

section \<open>The fetchers of a run\<close>

text \<open>\<open>GithubSourceFetcher::new\<close> with the two repositories, and the fetcher chosen by the category
  of a UT1 job. Fetches run concurrently, each from some state of the network.\<close>

definition github_fetcher_new :: "'w gh_env \<Rightarrow> gh_json \<Rightarrow> (bytes \<Rightarrow> string) \<Rightarrow> 'w gh_fetcher" where
  "github_fetcher_new http js lossy = \<lparr>gf_env = http, gf_json = js, gf_lossy = lossy,
     gf_repos = the_two_github_sources, gf_retry = retry_policy_default\<rparr>"

fun ut1_category_of :: "category \<Rightarrow> ut1_category" where
  "ut1_category_of Adult = ut1_adult"
| "ut1_category_of Gambling = ut1_gambling"
| "ut1_category_of Dating = ut1_dating"

definition fetch_ut1_category ::
  "'w ut1_ctx \<Rightarrow> (source_config \<Rightarrow> 'w) \<Rightarrow> category \<Rightarrow> source_config \<Rightarrow> fetch_error + fetched_source" where
  "fetch_ut1_category cx w category config =
     map_sum id uf_fetched
       (fst (fetch_files cx (ut1_category_of category) ut1_retry_policy_default config (w config)))"

definition with_fetchers ::
  "'g gh_env \<Rightarrow> gh_json \<Rightarrow> (source_config \<Rightarrow> 'g) \<Rightarrow> 'u ut1_ctx \<Rightarrow> (source_config \<Rightarrow> 'u) \<Rightarrow> ('sk, 'vk, 'db) env
    \<Rightarrow> ('sk, 'vk, 'db) env" where
  "with_fetchers http js wg cx wu env =
     env\<lparr>ev_github := Some (github_fetch (github_fetcher_new http js (ev_from_utf8_lossy env)) wg),
       ev_ut1 := fetch_ut1_category cx wu\<rparr>"

lemma with_fetchers_lossy: "ev_from_utf8_lossy (with_fetchers http js wg cx wu env) = ev_from_utf8_lossy env"
  by (simp add: with_fetchers_def)

interpretation ut1_category: source_fetcher "fetch_ut1_category cx w category" "ut1_sent cx (ut1_category_of category)"
  for cx w category
proof
  fix config s
  assume "fetch_ut1_category cx w category config = Inr s"
  then obtain f w' where "fetch_files cx (ut1_category_of category) ut1_retry_policy_default config (w config) = (Inr f, w')"
    "uf_fetched f = s"
    by (cases "fetch_files cx (ut1_category_of category) ut1_retry_policy_default config (w config)";
        cases "fst (fetch_files cx (ut1_category_of category) ut1_retry_policy_default config (w config))")
      (auto simp: fetch_ut1_category_def)
  then show "ut1_sent cx (ut1_category_of category) config s"
    unfolding ut1_sent_def by (blast intro: fetch_files_provenance)
qed

section \<open>Where a feed comes from\<close>

text \<open>The bytes of a job's feed, under its snapshot: served for the pinned revision of the source's
  repository, or a member of the served category tarball.\<close>

definition feed_sent :: "'g gh_fetcher \<Rightarrow> 'u ut1_ctx \<Rightarrow> source_job \<Rightarrow> fetched_source \<Rightarrow> bool" where
  "feed_sent f cx job s \<longleftrightarrow>
     (if sc_source (sj_config job) = Ut1 then ut1_sent cx (ut1_category_of (sj_category job)) (sj_config job) s
      else github_sent f (sj_config job) s)"

definition feed_of ::
  "'g gh_fetcher \<Rightarrow> 'u ut1_ctx \<Rightarrow> license_id list \<Rightarrow> source_job \<Rightarrow> raw_entry list \<times> category \<times> source_snapshot \<Rightarrow> bool" where
  "feed_of f cx allowlist job feed \<longleftrightarrow>
     (case feed of (entries, category, snapshot) \<Rightarrow>
        category = sj_category job \<and> ss_source snapshot = sc_source (sj_config job)
        \<and> ss_revision snapshot = sc_pinned_revision (sj_config job)
        \<and> spdx_matches (ss_license snapshot) (sc_expected_license (sj_config job))
        \<and> list_ex (\<lambda>a. spdx_matches a (ss_license snapshot)) allowlist
        \<and> (\<exists>s. feed_sent f cx job s \<and> fs_revision s = ss_revision snapshot \<and> fs_license s = ss_license snapshot
            \<and> entries = po_entries (sj_parse job (fs_bytes s) (sj_category job))))"

lemma accepted_feed:
  assumes "source_fetcher fetch (\<lambda>c. feed_sent f cx job)"
    and "fetch_source fetch (sj_config job) allowlist = Inr (snapshot, bs)"
  shows "feed_of f cx allowlist job
    (po_entries (sj_parse job bs (sj_category job)), sj_category job, snapshot)"
  using source_fetcher.accepted_was_sent [OF assms] unfolding feed_of_def by fastforce


text \<open>What the run fetches for a job is such a fetcher.\<close>

lemma job_fetcher:
  "source_fetcher
     (\<lambda>_. if sc_source (sj_config job) = Ut1 then fetch_ut1_category cx wu (sj_category job) (sj_config job)
          else github_fetch f wg (sj_config job))
     (\<lambda>_. feed_sent f cx job)"
  by unfold_locales
    (auto simp: feed_sent_def dest: gh.fetched_was_sent ut1_category.fetched_was_sent split: if_splits)

lemma fetch_one_source_feed:
  assumes "fetch_one_source (with_fetchers http js wg cx wu env) None allowlist
      (ev_github (with_fetchers http js wg cx wu env)) job = Some (Inr feed)"
  shows "feed_of (github_fetcher_new http js (ev_from_utf8_lossy env)) cx allowlist job feed"
proof -
  let ?r = "if sc_source (sj_config job) = Ut1 then fetch_ut1_category cx wu (sj_category job) (sj_config job)
    else github_fetch (github_fetcher_new http js (ev_from_utf8_lossy env)) wg (sj_config job)"
  have "(case fetch_source (\<lambda>_. ?r) (sj_config job) allowlist of
           Inl e \<Rightarrow> Inl (FetchFailed (sc_source (sj_config job)) e)
         | Inr (snapshot, bs) \<Rightarrow>
             Inr (po_entries (sj_parse job bs (sj_category job)), sj_category job, snapshot)) = Inr feed"
    using assms by (cases "sc_source (sj_config job)")
      (simp_all add: fetch_one_source_def with_fetchers_def fetch_ut1_def)
  then show ?thesis using accepted_feed [OF job_fetcher] by (auto split: sum.splits)
qed

lemma fetch_jobs_all2: "fetch_jobs fetch jobs = Some (Inr feeds) \<Longrightarrow> list_all2 (\<lambda>job feed. fetch job = Some (Inr feed)) jobs feeds"
  by (induction jobs arbitrary: feeds) (auto split: Option.bind_splits sum.splits)

lemma fetch_all_sources_feeds:
  assumes "fetch_all_sources (with_fetchers http js wg cx wu env) jobs None allowlist = Some (Inr (raw, snapshots))"
  shows "\<exists>feeds. list_all2 (feed_of (github_fetcher_new http js (ev_from_utf8_lossy env)) cx allowlist) jobs feeds \<and> raw = concat (map fst feeds) \<and> snapshots = map snd feeds"
proof -
  have some: "ev_github (with_fetchers http js wg cx wu env) \<noteq> None" by (simp add: with_fetchers_def)
  obtain feeds where f: "fetch_jobs (fetch_one_source (with_fetchers http js wg cx wu env) None allowlist
      (ev_github (with_fetchers http js wg cx wu env))) jobs = Some (Inr feeds)"
    "raw = concat (map fst feeds)" "snapshots = map snd feeds"
    using assms some by (auto simp: fetch_all_sources_def split: Option.bind_splits sum.splits)
  have "list_all2 (feed_of (github_fetcher_new http js (ev_from_utf8_lossy env)) cx allowlist) jobs feeds"
    using fetch_jobs_all2 [OF f(1)] by (rule list_all2_mono) (rule fetch_one_source_feed)
  with f(2,3) show ?thesis by blast
qed

lemma map_sum_right: "map_sum h (\<lambda>a. a) z = Inr x \<longleftrightarrow> z = Inr x"
  by (cases z) auto

text \<open>What a run merges, and what is left of it after the optional sample and the liveness sweep.\<close>

definition sampled_merge ::
  "('sk, 'vk, 'db) env \<Rightarrow> cli \<Rightarrow> raw_entry list \<Rightarrow> string list \<Rightarrow> merged_entry list" where
  "sampled_merge env cli raw denylist =
     (let merged = mo_entries (merge (ev_to_ascii env) (ev_psl_domain env) raw denylist)
      in case cl_sample cli of None \<Rightarrow> merged | Some n \<Rightarrow> take n merged)"

lemma gather_entries:
  assumes "gather env cli = Some (Inr (g, trust_keys))"
  obtains raw snapshots denylist where
    "fetch_all_sources env (default_source_jobs (ev_from_utf8_lossy env)) (cl_fixture_dir cli) (allowlist_of cli)
       = Some (Inr (raw, snapshots))"
    "collapse_snapshots_by_source snapshots = Some (Inr (ga_snapshots g))"
    "read_lines_or_default env (cl_denylist cli) = Inr denylist"
    "if effective_skip_liveness cli then ga_entries g = sampled_merge env cli raw denylist
     else (\<exists>report. run_liveness env cli (sampled_merge env cli raw denylist) = Inr (ga_entries g, report))"
proof -
  have v: "validate cli = None" using assms by (cases "validate cli") (simp_all add: gather_def)
  have liveness: "\<exists>report. run_liveness env cli es = Inr (kept, report)"
    if "map_sum (\<lambda>e. e) (\<lambda>(kept, report). (kept, Some report)) (run_liveness env cli es) = Inr (kept, r)" for es kept r
    using that by (cases "run_liveness env cli es") auto
  from assms obtain raw snapshots denylist r where
    "fetch_all_sources env (default_source_jobs (ev_from_utf8_lossy env)) (cl_fixture_dir cli) (allowlist_of cli)
       = Some (Inr (raw, snapshots))"
    "collapse_snapshots_by_source snapshots = Some (Inr (ga_snapshots g))"
    "read_lines_or_default env (cl_denylist cli) = Inr denylist"
    "(if effective_skip_liveness cli then Some (Inr (sampled_merge env cli raw denylist, None))
      else Some (map_sum (\<lambda>e. e) (\<lambda>(kept, report). (kept, Some report))
        (run_liveness env cli (sampled_merge env cli raw denylist)))) = Some (Inr (ga_entries g, r))"
    unfolding gather_def v option.case try_run_Inr Let_def sampled_merge_def
    by (clarsimp simp: map_sum_right try_run_Inr)
  with that [of raw snapshots denylist] liveness show thesis by (simp split: if_splits) 
qed

text \<open>The sweep only drops entries, given that the scratch file reads back what was written to it.\<close>

lemma run_liveness_keeps:
  assumes "codec_ok (ev_serialize_entry env) (ev_deserialize_entry env)"
    and "run_liveness env cli entries = Inr (kept, report)"
  shows "set kept \<subseteq> set entries"
proof -
  have "read_entries (ev_deserialize_entry env) scratch = Inr entries"
    if "write_entries (ev_serialize_entry env) entries = Inr scratch" for scratch
    using read_written [OF assms(1) that, of "[]"] by (simp add: read_end)
  with assms(2) show ?thesis
    by (auto simp: run_liveness_def liveness_results_def Let_def
        split: sum.splits if_splits option.splits prod.splits)
qed

lemma sampled_merge_keys:
  "me_domain ` set (sampled_merge env cli raw denylist) \<subseteq>
     {k. \<exists>e scope. e \<in> set raw \<and>
        resolved (ev_to_ascii env) (ev_psl_domain env) (normalized_denylist (ev_to_ascii env) denylist) e = Some (k, scope)}"
proof -
  let ?res = "resolved (ev_to_ascii env) (ev_psl_domain env) (normalized_denylist (ev_to_ascii env) denylist)"
  have "me_domain ` set (merged_spec ?res raw) = (\<lambda>e. fst (the (?res e))) ` {e \<in> set raw. ?res e \<noteq> None}"
    by (simp add: merged_spec_def image_image)
  moreover have "set (sampled_merge env cli raw denylist) \<subseteq> set (merged_spec ?res raw)"
    by (auto simp: sampled_merge_def merge_entries_spec Let_def split: option.splits dest: in_set_takeD)
  ultimately show ?thesis by (auto 0 3)
qed

text \<open>C5: whatever the command line (but for reading fixtures instead of fetching), the network and the
  rest of the environment: when a run publishes, each of the five jobs has a feed. Each feed was parsed from
  bytes that GitHub served, with a 2xx status, for the raw file of the revision pinned in the code, or that
  are a member of the category tarball UT1 served; its license is the expected one and an allowed one. The
  published snapshots are these feeds' snapshots collapsed by source. The published artifact is built from
  the merge of exactly these feeds' entries, less the denylist, cut to the sample if one is asked for and, unless
  it is skipped, put through the liveness sweep, which drops entries and adds none (given that the scratch
  file reads back what was written); so every published domain is the normalized name of an entry of a feed.\<close>

theorem published_feeds_pinned:
  "let env = with_fetchers http js wg cx wu env0; cli = cli0\<lparr>cl_fixture_dir := None\<rparr> in
   case run env store cli of
     None \<Rightarrow> True
   | Some (r, effects) \<Rightarrow>
       (if list_all (\<lambda>e. case e of PublishArtifact art \<Rightarrow> False | _ \<Rightarrow> True) effects then True
        else \<exists>g trust_keys feeds denylist art reports.
          gather env cli = Some (Inr (g, trust_keys)) \<and>
          list_all2 (feed_of (github_fetcher_new http js (ev_from_utf8_lossy env)) cx (allowlist_of cli)) (default_source_jobs (ev_from_utf8_lossy env)) feeds \<and>
          fetch_all_sources env (default_source_jobs (ev_from_utf8_lossy env)) None (allowlist_of cli)
            = Some (Inr (concat (map fst feeds), map snd feeds)) \<and>
          collapse_snapshots_by_source (map snd feeds) = Some (Inr (ga_snapshots g)) \<and>
          read_lines_or_default env (cl_denylist cli) = Inr denylist \<and>
          (if cl_skip_liveness cli then ga_entries g = sampled_merge env cli (concat (map fst feeds)) denylist
           else \<exists>report. run_liveness env cli (sampled_merge env cli (concat (map fst feeds)) denylist)
                  = Inr (ga_entries g, report)) \<and>
          (if cl_skip_liveness cli \<or> codec_ok (ev_serialize_entry env) (ev_deserialize_entry env)
           then set (ga_entries g) \<subseteq> set (sampled_merge env cli (concat (map fst feeds)) denylist) \<and>
             me_domain ` set (ga_entries g) \<subseteq> {k. \<exists>e scope. e \<in> set (concat (map fst feeds)) \<and>
               resolved (ev_to_ascii env) (ev_psl_domain env) (normalized_denylist (ev_to_ascii env) denylist) e
                 = Some (k, scope)}
           else True) \<and>
          build (ev_fst_encode env) (ld_sha256 (ev_loader env)) (ld_serialize (ev_loader env)) (ev_sign env)
            (ga_entries g) (pick_output_license (ga_snapshots g)) (ga_snapshots g)
            (mf_version (fa_manifest art)) (ev_now env) (ga_signing_keys g) = Some (Inr art) \<and>
          effects = reports @ [PublishArtifact art])"
proof -
  let ?env = "with_fetchers http js wg cx wu env0" and ?cli = "cli0\<lparr>cl_fixture_dir := None\<rparr>"
  show ?thesis
  proof (cases "run ?env store ?cli")
    case (Some p)
    obtain r effects where p: "p = (r, effects)" by fastforce
    show ?thesis
    proof (cases "list_all (\<lambda>e. case e of PublishArtifact art \<Rightarrow> False | _ \<Rightarrow> True) effects")
      case False
      from published_details [OF Some [unfolded p] False] obtain g tk art reports where
        g: "gather ?env ?cli = Some (Inr (g, tk))" and art:
        "build (ev_fst_encode ?env) (ld_sha256 (ev_loader ?env)) (ld_serialize (ev_loader ?env)) (ev_sign ?env)
          (ga_entries g) (pick_output_license (ga_snapshots g)) (ga_snapshots g)
          (mf_version (fa_manifest art)) (ev_now ?env) (ga_signing_keys g) = Some (Inr art)"
        "effects = reports @ [PublishArtifact art]" by (metis append_assoc)
      obtain raw snapshots denylist where ga: "fetch_all_sources ?env (default_source_jobs (ev_from_utf8_lossy ?env)) None
          (allowlist_of ?cli) = Some (Inr (raw, snapshots))"
        "collapse_snapshots_by_source snapshots = Some (Inr (ga_snapshots g))"
        "read_lines_or_default ?env (cl_denylist ?cli) = Inr denylist"
        "if cl_skip_liveness ?cli then ga_entries g = sampled_merge ?env ?cli raw denylist
         else (\<exists>report. run_liveness ?env ?cli (sampled_merge ?env ?cli raw denylist) = Inr (ga_entries g, report))"
        by (rule gather_entries [OF g]) (simp_all add: effective_skip_liveness_def)
      obtain feeds where feeds: "list_all2 (feed_of (github_fetcher_new http js (ev_from_utf8_lossy ?env)) cx (allowlist_of ?cli))
          (default_source_jobs (ev_from_utf8_lossy ?env)) feeds"
        and raw: "raw = concat (map fst feeds)" "snapshots = map snd feeds"
        using fetch_all_sources_feeds [OF ga(1)] unfolding with_fetchers_lossy by blast
      have sub: "set (ga_entries g) \<subseteq> set (sampled_merge ?env ?cli raw denylist)"
        if "cl_skip_liveness ?cli \<or> codec_ok (ev_serialize_entry ?env) (ev_deserialize_entry ?env)"
        using ga(4) that run_liveness_keeps [of ?env ?cli] by (auto split: if_splits)
      note keys = order_trans [OF image_mono [OF sub] sampled_merge_keys]
      show ?thesis
        unfolding Let_def Some p option.case prod.case if_not_P [OF False]
      proof (intro exI conjI)
        show "if cl_skip_liveness ?cli \<or> codec_ok (ev_serialize_entry ?env) (ev_deserialize_entry ?env)
           then set (ga_entries g) \<subseteq> set (sampled_merge ?env ?cli (concat (map fst feeds)) denylist) \<and>
             me_domain ` set (ga_entries g) \<subseteq> {k. \<exists>e scope. e \<in> set (concat (map fst feeds)) \<and>
               resolved (ev_to_ascii ?env) (ev_psl_domain ?env) (normalized_denylist (ev_to_ascii ?env) denylist) e
                 = Some (k, scope)}
           else True"
          using sub [unfolded raw] keys [unfolded raw] unfolding if_bool_eq_conj by blast
      qed (fact g feeds art ga [unfolded raw])+
    qed (simp add: Some p)
  qed simp
qed

end
