(* ===== verification/Dns_Client.thy ===== *)
theory Dns_Client
  imports Liveness
begin

text \<open>
  The DNS client behind the liveness check (\<open>domain-blocklist/src/liveness/net.rs\<close>): building
  a query, the UDP leg with its retries, the TCP retry of a truncated answer, the check that a
  response echoes the request, and its interpretation (CNAME chain, response code, extended
  error).

  \<open>hickory-proto\<close> is not under \<open>src/\<close>. Its names are a type \<open>'n\<close> whose equality is the
  crate's; \<open>Message\<close> is the record \<open>dns_message\<close> of the fields the client reads and writes;
  parsing names and converting messages from and to bytes are parameters (\<open>dns_codec\<close>). The
  sockets are parameters too (\<open>dns_net\<close>), each acting on a network state \<open>'w\<close>. Every operation
  that is awaited ends in one of four ways (\<open>awaited\<close>): a value, an I/O error, the per-step
  timeout, or the deadline of the whole lookup, which cancels it at that point.
\<close>

section \<open>Messages\<close>

datatype rr_type = T_A | T_AAAA | T_CNAME | T_Other u16

datatype rcode = C_NoError | C_FormErr | C_ServFail | C_NXDomain | C_NotImp | C_Refused | C_YXDomain
  | C_Other u16

text \<open>Record data: addresses, a chain hop, or anything else with its type (an update record has
  the type of an address record and no address).\<close>

datatype 'n rdata = D_A ip_addr | D_AAAA ip_addr | D_CNAME 'n | D_Other rr_type

fun rdata_type :: "'n rdata \<Rightarrow> rr_type" where
  "rdata_type (D_A _) = T_A"
| "rdata_type (D_AAAA _) = T_AAAA"
| "rdata_type (D_CNAME _) = T_CNAME"
| "rdata_type (D_Other t) = t"

record 'n dns_record =
  rr_name :: 'n
  rr_data :: "'n rdata"

datatype edns_option = O_Unknown u16 bytes | O_Other

record edns =
  en_dnssec_ok :: bool
  en_max_payload :: u16
  en_options :: "(u16 \<times> edns_option) list"

record 'n dns_message =
  dm_id :: u16
  dm_recursion_desired :: bool
  dm_truncation :: bool
  dm_authentic_data :: bool
  dm_rcode :: rcode
  dm_queries :: "('n \<times> rr_type) list"
  dm_answers :: "'n dns_record list"
  dm_edns :: "edns option"

section \<open>Constants and configuration\<close>

definition EDNS_UDP_PAYLOAD :: u16 where "EDNS_UDP_PAYLOAD = 4096"
definition UDP_RECV_BUF :: nat where "UDP_RECV_BUF = 4096"
definition TCP_LENGTH_PREFIX_BYTES :: nat where "TCP_LENGTH_PREFIX_BYTES = 2"
definition MAX_CHAIN_HOPS :: nat where "MAX_CHAIN_HOPS = 16"
definition UDP_RETRY_ATTEMPTS :: nat where "UDP_RETRY_ATTEMPTS = 3"
definition UDP_RETRY_BACKOFF_ms :: nat where "UDP_RETRY_BACKOFF_ms = 100"

fun to_hickory_record_type :: "record_type \<Rightarrow> rr_type" where
  "to_hickory_record_type A = T_A"
| "to_hickory_record_type Aaaa = T_AAAA"

datatype query_failure = Q_Timeout | Q_Transport | Q_Decode | Q_Mismatch

record 'n dns_codec =
  name_from_ascii :: "string \<Rightarrow> 'n option"
  name_set_fqdn :: "'n \<Rightarrow> 'n"
  message_to_vec :: "'n dns_message \<Rightarrow> bytes option"
  message_from_vec :: "bytes \<Rightarrow> 'n dns_message option"

datatype 'a awaited = Ready 'a | Io_Error | Step_Timeout | Deadline

record 'w dns_net =
  random_id :: "'w \<Rightarrow> u16 \<times> 'w"
  udp_open :: "'w \<Rightarrow> unit awaited \<times> 'w"
  udp_send :: "bytes \<Rightarrow> 'w \<Rightarrow> unit awaited \<times> 'w"
  udp_recv :: "nat \<Rightarrow> 'w \<Rightarrow> bytes awaited \<times> 'w"
  tcp_open :: "'w \<Rightarrow> unit awaited \<times> 'w"
  tcp_write_all :: "bytes \<Rightarrow> 'w \<Rightarrow> unit awaited \<times> 'w"
  tcp_read_exact :: "nat \<Rightarrow> 'w \<Rightarrow> bytes awaited \<times> 'w"
  sleep_ms :: "nat \<Rightarrow> 'w \<Rightarrow> unit awaited \<times> 'w"

text \<open>The result of a piece of the lookup: a value, a failure, or cancelled by the deadline.\<close>

datatype 'a outcome = Got 'a | Fails query_failure | Cancelled

text \<open>\<open>timeout(..).await.map_err(Timeout)?.map_err(Transport)?\<close>.\<close>

definition step :: "'a awaited \<times> 'w \<Rightarrow> ('a \<Rightarrow> 'w \<Rightarrow> 'b outcome \<times> 'w) \<Rightarrow> 'b outcome \<times> 'w" where
  "step r k = (case r of (a, w) \<Rightarrow>
     (case a of
        Ready x \<Rightarrow> k x w
      | Io_Error \<Rightarrow> (Fails Q_Transport, w)
      | Step_Timeout \<Rightarrow> (Fails Q_Timeout, w)
      | Deadline \<Rightarrow> (Cancelled, w)))"

section \<open>Building the query\<close>

definition build_query :: "u16 \<Rightarrow> 'n \<Rightarrow> rr_type \<Rightarrow> 'n dns_message" where
  "build_query ident name qtype = \<lparr>dm_id = ident, dm_recursion_desired = True, dm_truncation = False,
     dm_authentic_data = False, dm_rcode = C_NoError, dm_queries = [(name, qtype)], dm_answers = [],
     dm_edns = Some \<lparr>en_dnssec_ok = True, en_max_payload = EDNS_UDP_PAYLOAD, en_options = []\<rparr>\<rparr>"

section \<open>One round trip\<close>

definition decode_response :: "'n dns_codec \<Rightarrow> bytes \<Rightarrow> 'n dns_message outcome" where
  "decode_response cd bs =
     (case message_from_vec cd bs of Some m \<Rightarrow> Got m | None \<Rightarrow> Fails Q_Decode)"

definition query_udp :: "'n dns_codec \<Rightarrow> 'w dns_net \<Rightarrow> bytes \<Rightarrow> 'w \<Rightarrow> 'n dns_message outcome \<times> 'w" where
  "query_udp cd net req w =
     step (udp_open net w) (\<lambda>_ w.
     step (udp_send net req w) (\<lambda>_ w.
     step (udp_recv net UDP_RECV_BUF w) (\<lambda>bs w. (decode_response cd bs, w))))"

definition query_tcp :: "'n dns_codec \<Rightarrow> 'w dns_net \<Rightarrow> bytes \<Rightarrow> 'w \<Rightarrow> 'n dns_message outcome \<times> 'w" where
  "query_tcp cd net req w =
     step (tcp_open net w) (\<lambda>_ w.
     step (tcp_write_all net (to_be16 (word_of_nat (length req)) @ req) w) (\<lambda>_ w.
     step (tcp_read_exact net TCP_LENGTH_PREFIX_BYTES w) (\<lambda>len_buf w.
     step (tcp_read_exact net (unat (be16 (len_buf ! 0) (len_buf ! 1))) w) (\<lambda>bs w.
       (decode_response cd bs, w)))))"

section \<open>Retries\<close>

fun is_retryable_udp_failure :: "query_failure \<Rightarrow> bool" where
  "is_retryable_udp_failure Q_Timeout = True"
| "is_retryable_udp_failure Q_Transport = True"
| "is_retryable_udp_failure _ = False"

definition udp_retry_schedule :: "nat \<Rightarrow> nat option" where
  "udp_retry_schedule attempt =
     (if attempt + 1 < UDP_RETRY_ATTEMPTS then Some UDP_RETRY_BACKOFF_ms else None)"

text \<open>The loop \<open>for attempt in ..\<close> with the \<open>expect\<close> behind it, a panic when no failure was
  recorded. A sleep that the deadline interrupts cancels the lookup.\<close>

fun udp_attempts :: "'n dns_codec \<Rightarrow> 'w dns_net \<Rightarrow> bytes \<Rightarrow> nat list \<Rightarrow> query_failure option \<Rightarrow> 'w
    \<Rightarrow> ('n dns_message outcome) exec \<times> 'w" where
  "udp_attempts cd net req [] last_failure w = (map_option Fails last_failure, w)"
| "udp_attempts cd net req (attempt # rest) last_failure w =
     (let (r, w) = query_udp cd net req w in
      case r of
        Got m \<Rightarrow> (Some (Got m), w)
      | Cancelled \<Rightarrow> (Some Cancelled, w)
      | Fails f \<Rightarrow>
          if is_retryable_udp_failure f then
            (case udp_retry_schedule attempt of
               None \<Rightarrow> udp_attempts cd net req rest (Some f) w
             | Some backoff \<Rightarrow>
                 (let (s, w) = sleep_ms net backoff w in
                  case s of Deadline \<Rightarrow> (Some Cancelled, w)
                          | _ \<Rightarrow> udp_attempts cd net req rest (Some f) w))
          else (Some (Fails f), w))"

definition query_udp_with_retry :: "'n dns_codec \<Rightarrow> 'w dns_net \<Rightarrow> bytes \<Rightarrow> 'w
    \<Rightarrow> ('n dns_message outcome) exec \<times> 'w" where
  "query_udp_with_retry cd net req w = udp_attempts cd net req [0..<UDP_RETRY_ATTEMPTS] None w"

section \<open>Accepting and interpreting a response\<close>

definition check_response_echo :: "u16 \<Rightarrow> 'n \<Rightarrow> rr_type \<Rightarrow> 'n dns_message \<Rightarrow> unit outcome" where
  "check_response_echo ident name qtype response =
     (if dm_id response \<noteq> ident then Fails Q_Mismatch
      else case dm_queries response of
        [] \<Rightarrow> Fails Q_Mismatch
      | (n, t) # _ \<Rightarrow>
          if n \<noteq> name then Fails Q_Mismatch
          else if t \<noteq> qtype then Fails Q_Mismatch
          else Got ())"

definition accept_echo :: "u16 \<Rightarrow> 'n \<Rightarrow> rr_type \<Rightarrow> 'n dns_message \<Rightarrow> 'n dns_message outcome" where
  "accept_echo ident name qtype response =
     (case check_response_echo ident name qtype response of
        Got _ \<Rightarrow> Got response | Fails f \<Rightarrow> Fails f | Cancelled \<Rightarrow> Cancelled)"

definition query_with_tcp_fallback_inner :: "'n dns_codec \<Rightarrow> 'w dns_net \<Rightarrow> 'n \<Rightarrow> rr_type \<Rightarrow> 'w
    \<Rightarrow> ('n dns_message outcome) exec \<times> 'w" where
  "query_with_tcp_fallback_inner cd net name qtype w =
     (let (ident, w) = random_id net w; request = build_query ident name qtype in
      case message_to_vec cd request of
        None \<Rightarrow> (Some (Fails Q_Transport), w)
      | Some req \<Rightarrow>
          (let (r, w) = query_udp_with_retry cd net req w in
           case r of
             Some (Got response) \<Rightarrow>
               if \<not> dm_truncation response then (Some (accept_echo ident name qtype response), w)
               else
                 (let (r, w) = query_tcp cd net req w in
                  case r of
                    Got response \<Rightarrow> (Some (accept_echo ident name qtype response), w)
                  | r \<Rightarrow> (Some r, w))
           | r \<Rightarrow> (r, w)))"

text \<open>The deadline turns into a timeout of the whole query.\<close>

definition query_with_tcp_fallback :: "'n dns_codec \<Rightarrow> 'w dns_net \<Rightarrow> 'n \<Rightarrow> rr_type \<Rightarrow> 'w
    \<Rightarrow> ('n dns_message outcome) exec \<times> 'w" where
  "query_with_tcp_fallback cd net name qtype w =
     (let (r, w) = query_with_tcp_fallback_inner cd net name qtype w in
      (if r = Some Cancelled then Some (Fails Q_Timeout) else r, w))"

definition addresses_at :: "'n dns_record list \<Rightarrow> 'n \<Rightarrow> rr_type \<Rightarrow> ip_addr list" where
  "addresses_at answers name qtype =
     List.map_filter (\<lambda>r. case rr_data r of D_A a \<Rightarrow> Some a | D_AAAA a \<Rightarrow> Some a | _ \<Rightarrow> None)
       (filter (\<lambda>r. rr_name r = name \<and> rdata_type (rr_data r) = qtype) answers)"

fun cname_target_at :: "'n dns_record list \<Rightarrow> 'n \<Rightarrow> 'n option" where
  "cname_target_at [] name = None"
| "cname_target_at (r # rs) name =
     (if rr_name r \<noteq> name \<or> rdata_type (rr_data r) \<noteq> T_CNAME then cname_target_at rs name
      else case rr_data r of D_CNAME t \<Rightarrow> Some t | _ \<Rightarrow> cname_target_at rs name)"

definition decode_ede :: "edns option \<Rightarrow> u16 option" where
  "decode_ede e = do {
     e \<leftarrow> e;
     opt \<leftarrow> map_of (en_options e) 15;
     (case opt of
        O_Unknown code raw \<Rightarrow>
          if code = 15 \<and> 2 \<le> length raw then Some (be16 (raw ! 0) (raw ! 1)) else None
      | O_Other \<Rightarrow> None)
   }"

text \<open>The walk: \<open>Inl\<close> is an early return, \<open>Inr\<close> says whether a hop was followed.\<close>

fun chain_walk :: "nat \<Rightarrow> 'n dns_record list \<Rightarrow> rr_type \<Rightarrow> 'n \<Rightarrow> 'n set \<Rightarrow> bool \<Rightarrow> lookup_result + bool"
where
  "chain_walk n answers qtype current visited followed =
     (if n = 0 then Inr followed
      else if current \<in> visited then Inl (LookupUnknown Malformed)
      else
        let addrs = addresses_at answers current qtype in
        if addrs \<noteq> [] then Inl (Resolved addrs)
        else case cname_target_at answers current of
          Some target \<Rightarrow> chain_walk (n - 1) answers qtype target (insert current visited) True
        | None \<Rightarrow> Inr followed)"

declare chain_walk.simps [simp del]

definition interpret_response :: "'n \<Rightarrow> rr_type \<Rightarrow> 'n dns_message \<Rightarrow> lookup_result" where
  "interpret_response query_name qtype response =
     (case chain_walk MAX_CHAIN_HOPS (dm_answers response) qtype query_name {} False of
        Inl r \<Rightarrow> r
      | Inr followed_chain \<Rightarrow>
          (case dm_rcode response of
             C_NoError \<Rightarrow> LookupUnknown NoData
           | C_NXDomain \<Rightarrow>
               if followed_chain then NxDomainViaChain
               else NxDomain (dm_authentic_data response) (decode_ede (dm_edns response))
           | C_YXDomain \<Rightarrow> NxDomainViaChain
           | C_ServFail \<Rightarrow> LookupUnknown ServFail
           | C_Refused \<Rightarrow> LookupUnknown Refused
           | C_FormErr \<Rightarrow> LookupUnknown FormErr
           | C_NotImp \<Rightarrow> LookupUnknown NotImp
           | C_Other _ \<Rightarrow> LookupUnknown Malformed))"

definition hickory_lookup_async :: "'n dns_codec \<Rightarrow> 'w dns_net \<Rightarrow> string \<Rightarrow> record_type \<Rightarrow> 'w
    \<Rightarrow> lookup_result exec \<times> 'w" where
  "hickory_lookup_async cd net domain rec w =
     (case name_from_ascii cd domain of
        None \<Rightarrow> (Some (LookupUnknown Malformed), w)
      | Some name0 \<Rightarrow>
          (let name = name_set_fqdn cd name0; qtype = to_hickory_record_type rec;
               (r, w) = query_with_tcp_fallback cd net name qtype w
           in (map_option (\<lambda>r. case r of
                 Got response \<Rightarrow> interpret_response name qtype response
               | Fails Q_Timeout \<Rightarrow> LookupUnknown Timeout
               | Fails Q_Transport \<Rightarrow> LookupUnknown Transport
               | Fails Q_Decode \<Rightarrow> LookupUnknown Malformed
               | Fails Q_Mismatch \<Rightarrow> LookupUnknown Malformed
               | Cancelled \<Rightarrow> LookupUnknown Timeout) r, w)))"


section \<open>The lookup always answers\<close>

lemma udp_attempts_some:
  "rest \<noteq> [] \<or> last_failure \<noteq> None \<Longrightarrow> fst (udp_attempts cd net req rest last_failure w) \<noteq> None"
  by (induction cd net req rest last_failure w rule: udp_attempts.induct)
     (auto split: prod.splits outcome.splits option.splits awaited.splits)

lemma query_udp_with_retry_some: "query_udp_with_retry cd net req w \<noteq> (None, w')"
  using udp_attempts_some [of "[0..<UDP_RETRY_ATTEMPTS]" None cd net req w]
  by (auto simp: query_udp_with_retry_def UDP_RETRY_ATTEMPTS_def)

lemma query_inner_some: "query_with_tcp_fallback_inner cd net name qtype w \<noteq> (None, w')"
  by (auto simp: query_with_tcp_fallback_inner_def query_udp_with_retry_some Let_def
      split: prod.splits option.splits outcome.splits)

lemma query_fallback_some: "query_with_tcp_fallback cd net name qtype w \<noteq> (None, w')"
  by (auto simp: query_with_tcp_fallback_def query_inner_some split: prod.splits)

lemma hickory_lookup_async_some: "hickory_lookup_async cd net domain rec w \<noteq> (None, w')"
  by (auto simp: hickory_lookup_async_def query_fallback_some Let_def split: option.splits prod.splits)

text \<open>The synchronous \<open>DnsLookup::lookup\<close>: the resolver the liveness check is built on.\<close>

definition dns_resolver :: "'n dns_codec \<Rightarrow> 'w dns_net \<Rightarrow> 'w resolver" where
  "dns_resolver cd net domain rec w =
     (case hickory_lookup_async cd net domain rec w of (r, w) \<Rightarrow> (the r, w))"

section \<open>Accepted responses\<close>

lemma accept_echo_Got:
  "accept_echo ident name qtype r = Got r' \<longleftrightarrow>
     r' = r \<and> dm_id r = ident \<and> (\<exists>qs. dm_queries r = (name, qtype) # qs)"
  by (auto simp: accept_echo_def check_response_echo_def split: list.splits prod.splits if_splits)

text \<open>Whichever transport delivered it, a response is returned only if it has the request's
  fresh identifier and echoes its question.\<close>

lemma query_fallback_Got:
  assumes "query_with_tcp_fallback cd net name qtype w = (Some (Got r), w')"
  shows "dm_id r = fst (random_id net w) \<and> (\<exists>qs. dm_queries r = (name, qtype) # qs)"
proof -
  have "query_with_tcp_fallback_inner cd net name qtype w = (Some (Got r), w')"
    using assms by (auto simp: query_with_tcp_fallback_def split: prod.splits if_splits)
  then show ?thesis
    by (auto simp: query_with_tcp_fallback_inner_def accept_echo_Got Let_def
        split: prod.splits option.splits outcome.splits if_splits)
qed

section \<open>Interpretation\<close>

lemma chain_walk_followed: "chain_walk n answers qtype current visited True \<noteq> Inr False"
proof (induction n arbitrary: current visited)
  case (Suc n)
  then show ?case by (subst chain_walk.simps) (auto simp: Let_def split: option.splits)
qed (simp add: chain_walk.simps)

text \<open>\<open>NxDomain\<close>, the only result that counts towards a dead verdict, means the response code
  is NXDOMAIN and the response has neither an address nor a chain hop for the queried name.\<close>

lemma interpret_NxDomain:
  "interpret_response q t r = NxDomain au ede \<longleftrightarrow>
     dm_rcode r = C_NXDomain \<and> addresses_at (dm_answers r) q t = [] \<and> cname_target_at (dm_answers r) q = None
     \<and> au = dm_authentic_data r \<and> ede = decode_ede (dm_edns r)"
proof -
  let ?w = "chain_walk MAX_CHAIN_HOPS (dm_answers r) t q {} False"
  have no: "x \<noteq> Inl (NxDomain au ede)" if "x = chain_walk n as t c v f" for x n as c v f
    unfolding that
  proof (induction n arbitrary: c v f)
    case (Suc n)
    then show ?case by (subst chain_walk.simps) (auto simp: Let_def split: option.splits)
  qed (simp add: chain_walk.simps)
  have "?w = Inr False \<longleftrightarrow> addresses_at (dm_answers r) q t = [] \<and> cname_target_at (dm_answers r) q = None"
    by (subst chain_walk.simps)
       (auto simp: MAX_CHAIN_HOPS_def Let_def chain_walk_followed split: option.splits)
  then show ?thesis
    using no [OF refl, of MAX_CHAIN_HOPS "dm_answers r" q "{}" False]
    by (auto simp: interpret_response_def split: sum.splits rcode.splits if_splits)
qed

text \<open>The names of the CNAME chain that starts at \<open>q\<close>.\<close>

fun chain_name :: "'n dns_record list \<Rightarrow> 'n \<Rightarrow> nat \<Rightarrow> 'n option" where
  "chain_name answers q 0 = Some q"
| "chain_name answers q (Suc k) =
     (case cname_target_at answers q of None \<Rightarrow> None | Some t \<Rightarrow> chain_name answers t k)"

definition chain_resolves :: "'n dns_record list \<Rightarrow> rr_type \<Rightarrow> 'n \<Rightarrow> nat \<Rightarrow> ip_addr list \<Rightarrow> bool" where
  "chain_resolves answers t q k addrs \<longleftrightarrow>
     (\<exists>ns. length ns = Suc k \<and> distinct ns \<and> (\<forall>i \<le> k. chain_name answers q i = Some (ns ! i))
        \<and> (\<forall>i < k. addresses_at answers (ns ! i) t = []) \<and> addresses_at answers (ns ! k) t = addrs)"

lemma chain_walk_resolved:
  "chain_walk n answers t q V f = Inl (Resolved addrs) \<longleftrightarrow> addrs \<noteq> [] \<and>
     (\<exists>k < n. \<exists>ns. length ns = Suc k \<and> distinct ns \<and> set ns \<inter> V = {}
        \<and> (\<forall>i \<le> k. chain_name answers q i = Some (ns ! i))
        \<and> (\<forall>i < k. addresses_at answers (ns ! i) t = []) \<and> addresses_at answers (ns ! k) t = addrs)"
proof (induction n arbitrary: q V f)
  case 0
  then show ?case by (simp add: chain_walk.simps)
next
  case (Suc n)
  let ?P = "\<lambda>q V k ns. length ns = Suc k \<and> distinct ns \<and> set ns \<inter> V = {}
        \<and> (\<forall>i \<le> k. chain_name answers q i = Some (ns ! i))
        \<and> (\<forall>i < k. addresses_at answers (ns ! i) t = []) \<and> addresses_at answers (ns ! k) t = addrs"
  have hd: "ns ! 0 = q" if "?P q V k ns" for k ns V using that by (metis chain_name.simps(1) le0 option.inject)
  show ?case
  proof (cases "q \<in> V \<or> addresses_at answers q t \<noteq> [] \<or> cname_target_at answers q = None")
    case True
    have zero: "?P q V 0 [q] \<longleftrightarrow> q \<notin> V \<and> addresses_at answers q t = addrs" by auto
    have "k = 0 \<and> ns = [q]" if "?P q V k ns" "addrs \<noteq> []" for k ns
    proof -
      have q: "ns ! 0 = q" using hd that(1) by blast
      then have "q \<notin> V" using that(1) by (metis disjoint_iff length_greater_0_conv nth_mem zero_less_Suc)
      have "k = 0"
      proof (rule ccontr)
        assume "k \<noteq> 0"
        then have "addresses_at answers q t = []" "chain_name answers q (Suc 0) = Some (ns ! Suc 0)"
          using that(1) q Suc_leI [of 0 k] by (metis neq0_conv)+
        then show False using True \<open>q \<notin> V\<close> by (auto split: option.splits)
      qed
      then show ?thesis using that(1) q by (cases ns) auto
    qed
    then have "(addrs \<noteq> [] \<and> (\<exists>k < Suc n. \<exists>ns. ?P q V k ns)) \<longleftrightarrow> addrs \<noteq> [] \<and> q \<notin> V \<and> addresses_at answers q t = addrs"
      using zero by (metis zero_less_Suc)
    then show ?thesis
      using True by (subst chain_walk.simps) (auto simp: Let_def split: option.splits)
  next
    case False
    then obtain c where c: "cname_target_at answers q = Some c" by auto
    have "chain_walk (Suc n) answers t q V f = chain_walk n answers t c (insert q V) True"
      using False c by (subst chain_walk.simps) simp
    moreover have "(\<exists>k < Suc n. \<exists>ns. ?P q V k ns) \<longleftrightarrow> (\<exists>k < n. \<exists>ns. ?P c (insert q V) k ns)" if "addrs \<noteq> []"
    proof
      assume "\<exists>k < Suc n. \<exists>ns. ?P q V k ns"
      then obtain k ns where k: "k < Suc n" and P: "?P q V k ns" by blast
      have q: "ns ! 0 = q" using hd P by blast
      have "k \<noteq> 0" using P False q that by auto
      then obtain k' where k': "k = Suc k'" by (cases k) auto
      obtain ms where ns: "ns = q # ms" using P q by (cases ns) auto
      have "?P c (insert q V) k' ms"
        using P c unfolding k' ns by (auto dest: spec [where x = "Suc _"])
      then show "\<exists>k < n. \<exists>ns. ?P c (insert q V) k ns" using k k' by auto
    next
      assume "\<exists>k < n. \<exists>ns. ?P c (insert q V) k ns"
      then obtain k ns where k: "k < n" and P: "?P c (insert q V) k ns" by blast
      have "?P q V (Suc k) (q # ns)"
        using P c False by (auto simp: nth_Cons split: nat.splits)
      then show "\<exists>k < Suc n. \<exists>ns. ?P q V k ns" using k by blast
    qed
    ultimately show ?thesis using Suc.IH [of c "insert q V" True] by auto
  qed
qed


lemma interpret_Resolved:
  "interpret_response q t r = Resolved addrs
     \<longleftrightarrow> chain_walk MAX_CHAIN_HOPS (dm_answers r) t q {} False = Inl (Resolved addrs)"
  by (auto simp: interpret_response_def split: sum.splits rcode.splits if_splits)

text \<open>C24: a response resolves a name exactly when some name of its CNAME chain, fewer than 16
  hops away and with no name met twice on the way, is the first with an address of the queried
  type; the answer is that name's addresses. A loop and a longer chain never resolve.\<close>

theorem resolved_iff_chain:
  "interpret_response q t r = Resolved addrs
     \<longleftrightarrow> addrs \<noteq> [] \<and> (\<exists>k. k < 16 \<and> chain_resolves (dm_answers r) t q k addrs)"
  unfolding interpret_Resolved chain_walk_resolved chain_resolves_def MAX_CHAIN_HOPS_def by simp

text \<open>A response that denies a name itself: NXDOMAIN for a query with this identifier and this
  question, no address and no chain hop for the name, and no extended error of a filter.\<close>

definition direct_denial :: "u16 \<Rightarrow> 'n \<Rightarrow> rr_type \<Rightarrow> 'n dns_message \<Rightarrow> bool" where
  "direct_denial ident name t r \<longleftrightarrow> dm_id r = ident \<and> (\<exists>qs. dm_queries r = (name, t) # qs)
     \<and> dm_rcode r = C_NXDomain \<and> addresses_at (dm_answers r) name t = []
     \<and> cname_target_at (dm_answers r) name = None \<and> \<not> is_filtering_ede (decode_ede (dm_edns r))"

lemma hickory_lookup_async_NxDomain:
  assumes "hickory_lookup_async cd net domain rec w = (Some (NxDomain au ede), w')"
  shows "\<exists>name r. map_option (name_set_fqdn cd) (name_from_ascii cd domain) = Some name
    \<and> query_with_tcp_fallback cd net name (to_hickory_record_type rec) w = (Some (Got r), w')
    \<and> ede = decode_ede (dm_edns r)
    \<and> (is_filtering_ede ede
       \<or> direct_denial (fst (random_id net w)) name (to_hickory_record_type rec) r)"
proof -
  from assms obtain name0 where n: "name_from_ascii cd domain = Some name0"
    by (auto simp: hickory_lookup_async_def split: option.splits)
  let ?name = "name_set_fqdn cd name0" and ?t = "to_hickory_record_type rec"
  from assms n obtain r where r: "query_with_tcp_fallback cd net ?name ?t w = (Some (Got r), w')"
    "interpret_response ?name ?t r = NxDomain au ede"
  proof -
    obtain o1 w1 where o1: "query_with_tcp_fallback cd net ?name ?t w = (Some o1, w1)"
      using query_fallback_some by (metis option.exhaust surj_pair)
    show thesis
    proof (cases o1)
      case (Got r)
      then show thesis using that [of r] assms n o1 by (simp add: hickory_lookup_async_def Let_def)
    next
      case (Fails f)
      then show thesis using assms n o1 by (cases f) (simp_all add: hickory_lookup_async_def Let_def)
    next
      case Cancelled
      then show thesis using assms n o1 by (simp add: hickory_lookup_async_def Let_def)
    qed
  qed
  with query_fallback_Got [OF r(1)] n show ?thesis
    by (auto simp: interpret_NxDomain direct_denial_def)
qed

text \<open>C9: the liveness check calls a domain dead only after two responses, one to its A and
  one to its AAAA query, each of which has the identifier of that query, echoes its question,
  has the code NXDOMAIN with no address and no chain hop for the domain, and carries no
  extended error that marks a filtered or stale answer.\<close>

theorem dead_needs_two_denials:
  "if fst (check (dns_resolver cd net) domain w) = Dead
   then \<exists>name ra w1 rb w2.
     map_option (name_set_fqdn cd) (name_from_ascii cd domain) = Some name
     \<and> query_with_tcp_fallback cd net name T_A w = (Some (Got ra), w1)
     \<and> direct_denial (fst (random_id net w)) name T_A ra
     \<and> query_with_tcp_fallback cd net name T_AAAA w1 = (Some (Got rb), w2)
     \<and> direct_denial (fst (random_id net w1)) name T_AAAA rb
   else True"
proof (cases "fst (check (dns_resolver cd net) domain w) = Dead")
  case True
  obtain a w1 where a: "hickory_lookup_async cd net domain A w = (Some a, w1)"
    using hickory_lookup_async_some by (metis option.exhaust surj_pair)
  obtain b w2 where b: "hickory_lookup_async cd net domain Aaaa w1 = (Some b, w2)"
    using hickory_lookup_async_some by (metis option.exhaust surj_pair)
  have "combine a b = Dead"
    using True a b by (auto simp: check_def dns_resolver_def split: lookup_result.splits)
  then obtain au ede au' ede' where ab: "a = NxDomain au ede" "b = NxDomain au' ede'"
    "\<not> is_filtering_ede ede" "\<not> is_filtering_ede ede'"
    by (cases "(a, b)" rule: combine.cases) (auto split: if_splits)
  from hickory_lookup_async_NxDomain [OF a [unfolded ab]] hickory_lookup_async_NxDomain [OF b [unfolded ab]] ab(3,4)
  show ?thesis by (simp only: True if_True to_hickory_record_type.simps) (metis option.inject)
qed simp

text \<open>A lookup sends at most three UDP queries and one TCP query: with sockets that count
  themselves, the count grows by at most four.\<close>

definition counting :: "'w dns_net \<Rightarrow> (nat \<times> 'w) dns_net" where
  "counting net =
     \<lparr>random_id = (\<lambda>(n, w). (let (r, w) = random_id net w in (r, (n, w)))),
      udp_open = (\<lambda>(n, w). (let (r, w) = udp_open net w in (r, (n + 1, w)))),
      udp_send = (\<lambda>b (n, w). (let (r, w) = udp_send net b w in (r, (n, w)))),
      udp_recv = (\<lambda>k (n, w). (let (r, w) = udp_recv net k w in (r, (n, w)))),
      tcp_open = (\<lambda>(n, w). (let (r, w) = tcp_open net w in (r, (n + 1, w)))),
      tcp_write_all = (\<lambda>b (n, w). (let (r, w) = tcp_write_all net b w in (r, (n, w)))),
      tcp_read_exact = (\<lambda>k (n, w). (let (r, w) = tcp_read_exact net k w in (r, (n, w)))),
      sleep_ms = (\<lambda>k (n, w). (let (r, w) = sleep_ms net k w in (r, (n, w))))\<rparr>"

lemma query_udp_count:
  "query_udp cd (counting net) req (n, w) = (r, (n', w')) \<Longrightarrow> n' = n + 1"
  by (auto simp: query_udp_def step_def counting_def Let_def split: prod.splits awaited.splits)

lemma query_tcp_count:
  "query_tcp cd (counting net) req (n, w) = (r, (n', w')) \<Longrightarrow> n' = n + 1"
  by (auto simp: query_tcp_def step_def counting_def Let_def split: prod.splits awaited.splits)

lemma udp_attempts_count:
  "udp_attempts cd (counting net) req as lf (n, w) = (r, (n', w')) \<Longrightarrow> n' \<le> n + length as"
proof (induction as arbitrary: lf n w)
  case (Cons a as)
  obtain q n1 w1 where q: "query_udp cd (counting net) req (n, w) = (q, (n1, w1))" by (metis prod_cases3)
  note n1 = query_udp_count [OF q]
  obtain s w2 where s: "sleep_ms net UDP_RETRY_BACKOFF_ms w1 = (s, w2)" by fastforce
  then have s': "sleep_ms (counting net) UDP_RETRY_BACKOFF_ms (n1, w1) = (s, (n1, w2))"
    by (simp add: counting_def Let_def)
  have IH: "n' \<le> n1 + length as" if "udp_attempts cd (counting net) req as lf' (n1, v) = (r, (n', w'))" for lf' v
    using Cons.IH [OF that] .
  show ?case
  proof (cases q)
    case (Got m)
    then show ?thesis using Cons.prems q n1 by simp
  next
    case Cancelled
    then show ?thesis using Cons.prems q n1 by simp
  next
    case (Fails f)
    show ?thesis
    proof (cases "is_retryable_udp_failure f")
      case True
      then show ?thesis
        using Cons.prems q n1 Fails s' IH
        by (cases s) (force simp: udp_retry_schedule_def split: if_splits)+
    next
      case False
      then show ?thesis using Cons.prems q n1 Fails by simp
    qed
  qed
qed simp

lemma lookup_bounded:
  "fst (snd (hickory_lookup_async cd (counting net) domain rec (n, w))) \<le> n + 4"
proof -
  have inner: "fst (snd (query_with_tcp_fallback_inner cd (counting net) name qtype (n, w))) \<le> n + 4" for name qtype
  proof -
    obtain ident w0 where "random_id net w = (ident, w0)" by fastforce
    then have i: "random_id (counting net) (n, w) = (ident, (n, w0))" by (simp add: counting_def)
    have u: "n1 \<le> n + 3" if "query_udp_with_retry cd (counting net) req (n, w0) = (r, (n1, w1))" for r req n1 w1
      using udp_attempts_count [OF that [unfolded query_udp_with_retry_def]] by (simp add: UDP_RETRY_ATTEMPTS_def)
    show ?thesis
      by (auto simp: query_with_tcp_fallback_inner_def i Let_def dest!: u query_tcp_count
          split: option.splits prod.splits outcome.splits if_splits)
  qed
  show ?thesis
  proof (cases "name_from_ascii cd domain")
    case (Some name0)
    from inner [of "name_set_fqdn cd name0" "to_hickory_record_type rec"] show ?thesis
      by (auto simp: Some hickory_lookup_async_def query_with_tcp_fallback_def Let_def split: prod.splits)
  qed (simp add: hickory_lookup_async_def)
qed

end
