(* ===== verification/Text_Normalize.thy ===== *)
theory Text_Normalize
  imports Prelude
begin

text \<open>
  Text normalization of \<open>packages/text-policy/src/normalize\<close>: the steps, the pipelines per
  language and the views of a text (normalized, separator tokens, compact, leet-compact), and
  the UTF-8 encoding through which the byte matcher sees a text.

  A Rust \<open>char\<close> is its scalar value, a \<open>nat\<close>; a \<open>String\<close> that is processed by
  characters is a list of them (\<open>ustr\<close>). The white-space property is written out. The three
  Unicode tables that are too large to write down (\<open>char::is_alphanumeric\<close>,
  \<open>str::to_lowercase\<close> and the NFKC of the \<open>unicode-normalization\<close> crate) are the fields of
  the parameter record \<open>unicode\<close>.
\<close>

section \<open>Characters and their encoding\<close>

type_synonym uchar = nat
type_synonym ustr = "uchar list"

record unicode =
  u_alnum :: "uchar \<Rightarrow> bool"
  u_lower :: "ustr \<Rightarrow> ustr"
  u_nfkc :: "ustr \<Rightarrow> ustr"

text \<open>Scalar values: code points that are not surrogates.\<close>

definition scalar :: "uchar \<Rightarrow> bool" where
  "scalar c \<longleftrightarrow> c < 0xD800 \<or> (0xE000 \<le> c \<and> c < 0x110000)"

definition utf8_char :: "uchar \<Rightarrow> nat list" where
  "utf8_char c =
     (if c < 0x80 then [c]
      else if c < 0x800 then [0xC0 + c div 0x40, 0x80 + c mod 0x40]
      else if c < 0x10000 then [0xE0 + c div 0x1000, 0x80 + c div 0x40 mod 0x40, 0x80 + c mod 0x40]
      else [0xF0 + c div 0x40000, 0x80 + c div 0x1000 mod 0x40, 0x80 + c div 0x40 mod 0x40,
            0x80 + c mod 0x40])"

definition utf8 :: "ustr \<Rightarrow> nat list" where
  "utf8 s = concat (map utf8_char s)"

definition cont_byte :: "nat \<Rightarrow> bool" where
  "cont_byte b \<longleftrightarrow> 0x80 \<le> b \<and> b < 0xC0"

text \<open>\<open>&s[..n]\<close> and \<open>&s[n..]\<close>: a panic when byte \<open>n\<close> is not a character boundary.\<close>

fun split_bytes :: "ustr \<Rightarrow> nat \<Rightarrow> (ustr \<times> ustr) exec" where
  "split_bytes [] n = (if n = 0 then Some ([], []) else None)"
| "split_bytes (c # cs) n =
     (if n = 0 then Some ([], c # cs)
      else if n < length (utf8_char c) then None
      else map_option (\<lambda>(a, b). (c # a, b)) (split_bytes cs (n - length (utf8_char c))))"

lemma utf8_simps [simp]:
  "utf8 [] = []" "utf8 (c # s) = utf8_char c @ utf8 s" "utf8 (s @ t) = utf8 s @ utf8 t"
  by (simp_all add: utf8_def)

lemma utf8_char_shape:
  assumes "scalar c"
  shows "\<exists>b bs. utf8_char c = b # bs \<and> \<not> cont_byte b \<and> (\<forall>x \<in> set bs. cont_byte x)"
  using assms by (auto simp: utf8_char_def scalar_def cont_byte_def)

lemma utf8_char_ne [simp]: "utf8_char c \<noteq> []"
  by (simp add: utf8_char_def)

lemma utf8_eq_Nil [simp]: "utf8 s = [] \<longleftrightarrow> s = []"
  by (cases s) simp_all

text \<open>The code is prefix-free: the first character can be read back.\<close>

fun utf8_first :: "nat list \<Rightarrow> uchar \<times> nat list" where
  "utf8_first [] = (0, [])"
| "utf8_first (b # bs) =
     (if b < 0x80 then (b, bs)
      else if b < 0xE0 then ((b - 0xC0) * 0x40 + (bs ! 0 - 0x80), drop 1 bs)
      else if b < 0xF0 then
        (((b - 0xE0) * 0x40 + (bs ! 0 - 0x80)) * 0x40 + (bs ! 1 - 0x80), drop 2 bs)
      else
        ((((b - 0xF0) * 0x40 + (bs ! 0 - 0x80)) * 0x40 + (bs ! 1 - 0x80)) * 0x40 + (bs ! 2 - 0x80),
         drop 3 bs))"

lemma utf8_first: "scalar c \<Longrightarrow> utf8_first (utf8_char c @ xs) = (c, xs)"
proof -
  assume "scalar c"
  then have c: "c < 0x110000" by (auto simp: scalar_def)
  have 1: "n div 0x40 * 0x40 + n mod 0x40 = n" for n :: nat by simp
  have 2: "c div 0x1000 = c div 0x40 div 0x40" "c div 0x40000 = c div 0x40 div 0x40 div 0x40"
    by (simp_all add: div_mult2_eq [symmetric])
  consider "c < 0x80" | "0x80 \<le> c" "c < 0x800" | "0x800 \<le> c" "c < 0x10000" | "0x10000 \<le> c"
    by linarith
  then show ?thesis
  proof cases
    case 1 then show ?thesis by (simp add: utf8_char_def)
  next
    case 2
    then have "c div 0x40 < 0x20" by (simp add: div_less_iff_less_mult)
    then show ?thesis using 2 1 [of c] by (simp add: utf8_char_def)
  next
    case 3
    then have "c div 0x1000 < 0x10" by (simp add: div_less_iff_less_mult)
    then show ?thesis using 3 1 [of c] 1 [of "c div 0x40"] 2(1) by (simp add: utf8_char_def)
  next
    case 4
    then show ?thesis using 4 1 [of c] 1 [of "c div 0x40"] 1 [of "c div 0x40 div 0x40"] 2
      by (simp add: utf8_char_def)
  qed
qed

lemma utf8_char_prefix_free:
  assumes "scalar c" "scalar d" "utf8_char c @ xs = utf8_char d @ ys"
  shows "c = d \<and> xs = ys"
proof -
  have "(c, xs) = utf8_first (utf8_char c @ xs)" by (rule utf8_first [OF assms(1), symmetric])
  also have "\<dots> = (d, ys)" unfolding assms(3) by (rule utf8_first [OF assms(2)])
  finally show ?thesis by simp
qed

text \<open>Self-synchronisation: an encoded string that occurs in an encoded text occurs there as a
  string, so its byte offsets are character boundaries.\<close>

definition scalars :: "ustr \<Rightarrow> bool" where
  "scalars s \<longleftrightarrow> list_all scalar s"

lemma scalars_simps [simp]:
  "scalars []" "scalars (c # s) \<longleftrightarrow> scalar c \<and> scalars s"
  "scalars (s @ t) \<longleftrightarrow> scalars s \<and> scalars t"
  by (simp_all add: scalars_def)

lemma utf8_prefix:
  "scalars p \<Longrightarrow> scalars t \<Longrightarrow> utf8 t = utf8 p @ b \<Longrightarrow> \<exists>y. t = p @ y \<and> b = utf8 y"
proof (induction p arbitrary: t)
  case (Cons c p)
  then obtain d t' where t: "t = d # t'" by (cases t) auto
  with Cons.prems have "utf8_char d @ utf8 t' = utf8_char c @ utf8 p @ b" by simp
  moreover have "scalar d" "scalar c" "scalars t'" "scalars p" using Cons.prems t by simp_all
  ultimately have "d = c" "utf8 t' = utf8 p @ b" using utf8_char_prefix_free by blast+
  with Cons.IH [OF \<open>scalars p\<close> \<open>scalars t'\<close>] t show ?case by simp
qed simp

lemma utf8_boundary:
  assumes "scalars t" "utf8 t = a @ r" "r = [] \<or> \<not> cont_byte (hd r)"
  shows "\<exists>x y. t = x @ y \<and> a = utf8 x \<and> r = utf8 y"
  using assms
proof (induction t arbitrary: a)
  case Nil
  then show ?case by auto
next
  case (Cons c t)
  show ?case
  proof (cases "a = []")
    case True
    then show ?thesis using Cons.prems by (intro exI [of _ "[]"] exI [of _ "c # t"]) simp
  next
    case False
    obtain b bs where b: "utf8_char c = b # bs" "\<forall>x \<in> set bs. cont_byte x"
      using utf8_char_shape [of c] Cons.prems by auto
    have eq: "b # bs @ utf8 t = a @ r" using Cons.prems b by simp
    then obtain a' where a: "a = b # a'" "bs @ utf8 t = a' @ r" using False by (cases a) auto
    from a(2) obtain us where "bs = a' @ us \<and> us @ utf8 t = r \<or> a' = bs @ us \<and> utf8 t = us @ r"
      by (auto simp: append_eq_append_conv2)
    then consider "bs = a' @ us" "us \<noteq> []" "us @ utf8 t = r" | "a' = bs @ us" "utf8 t = us @ r"
      by (cases "us = []") auto
    then show ?thesis
    proof cases
      case 1
      then have "r \<noteq> []" "hd r \<in> set bs" by (cases us; auto)+
      with b(2) Cons.prems(3) show ?thesis by blast
    next
      case 2
      with Cons.IH [of us] Cons.prems obtain x y where "t = x @ y" "us = utf8 x" "r = utf8 y" by auto
      with 2(1) a(1) b(1) show ?thesis by (intro exI [of _ "c # x"] exI [of _ y]) simp
    qed
  qed
qed

lemma utf8_hd_not_cont: "scalars y \<Longrightarrow> utf8 y = [] \<or> \<not> cont_byte (hd (utf8 y))"
  using utf8_char_shape by (cases y) fastforce+

lemma utf8_infix:
  assumes "scalars t" "scalars p" "p \<noteq> []" "utf8 t = a @ utf8 p @ b"
  shows "\<exists>x y. t = x @ p @ y \<and> a = utf8 x \<and> b = utf8 y"
proof -
  have "utf8 p @ b = [] \<or> \<not> cont_byte (hd (utf8 p @ b))"
    using utf8_hd_not_cont [OF assms(2)] assms(3) by simp
  from utf8_boundary [OF assms(1,4) this] obtain x y where
    xy: "t = x @ y" "a = utf8 x" "utf8 p @ b = utf8 y" by blast
  with utf8_prefix [OF assms(2), of y b] assms(1) obtain z where "y = p @ z" "b = utf8 z" by auto
  with xy show ?thesis by blast
qed

lemma split_bytes_append: "split_bytes (x @ y) (length (utf8 x)) = Some (x, y)"
proof (induction x)
  case Nil
  then show ?case by (cases y) simp_all
next
  case (Cons c x)
  have "length (utf8_char c) \<noteq> 0" by simp
  with Cons show ?case by simp
qed

section \<open>The string library on characters\<close>

definition is_ws :: "uchar \<Rightarrow> bool" where
  "is_ws c \<longleftrightarrow> (9 \<le> c \<and> c \<le> 13) \<or> c = 0x20 \<or> c = 0x85 \<or> c = 0xA0 \<or> c = 0x1680
     \<or> (0x2000 \<le> c \<and> c \<le> 0x200A) \<or> c = 0x2028 \<or> c = 0x2029 \<or> c = 0x202F \<or> c = 0x205F
     \<or> c = 0x3000"

text \<open>\<open>split(|ch| p(ch))\<close>, \<open>trim_matches\<close>, \<open>trim\<close>, \<open>unicode_split_whitespace\<close>,
  \<open>join\<close>.\<close>

fun split_pred :: "('a \<Rightarrow> bool) \<Rightarrow> 'a list \<Rightarrow> 'a list list" where
  "split_pred P [] = [[]]"
| "split_pred P (x # xs) =
     (if P x then [] # split_pred P xs
      else (case split_pred P xs of [] \<Rightarrow> [[x]] | l # ls \<Rightarrow> (x # l) # ls))"

definition trim_matches :: "('a \<Rightarrow> bool) \<Rightarrow> 'a list \<Rightarrow> 'a list" where
  "trim_matches P s = rev (dropWhile P (rev (dropWhile P s)))"

definition words :: "('a \<Rightarrow> bool) \<Rightarrow> 'a list \<Rightarrow> 'a list list" where
  "words P s = filter (\<lambda>w. w \<noteq> []) (split_pred P s)"

definition utrim :: "ustr \<Rightarrow> ustr" where
  "utrim s = trim_matches is_ws s"

definition unicode_split_whitespace :: "ustr \<Rightarrow> ustr list" where
  "unicode_split_whitespace s = words is_ws s"

section \<open>Steps\<close>

datatype language = English | Ukrainian | UnknownLang

definition normalize_nfkc :: "unicode \<Rightarrow> ustr \<Rightarrow> ustr" where
  "normalize_nfkc u s = u_nfkc u s"

definition trim_text :: "ustr \<Rightarrow> ustr" where
  "trim_text s = utrim s"

fun join_sp :: "ustr list \<Rightarrow> ustr" where
  "join_sp [] = []"
| "join_sp [w] = w"
| "join_sp (w # v # ws) = w @ 0x20 # join_sp (v # ws)"

definition collapse_whitespace :: "ustr \<Rightarrow> ustr" where
  "collapse_whitespace s = join_sp (unicode_split_whitespace s)"

definition separator_tokens :: "unicode \<Rightarrow> ustr \<Rightarrow> ustr list" where
  "separator_tokens u s = filter (\<lambda>t. t \<noteq> []) (split_pred (\<lambda>c. \<not> u_alnum u c) s)"

definition compact_text :: "unicode \<Rightarrow> ustr \<Rightarrow> ustr" where
  "compact_text u s = filter (u_alnum u) s"

definition lowercase :: "unicode \<Rightarrow> ustr \<Rightarrow> ustr" where
  "lowercase u s = u_lower u s"

definition normalize_leet_char :: "uchar \<Rightarrow> uchar" where
  "normalize_leet_char c =
     (if c = 0x30 then 0x6F else if c = 0x31 then 0x69 else if c = 0x33 then 0x65
      else if c = 0x34 then 0x61 else if c = 0x35 then 0x73 else if c = 0x37 then 0x74 else c)"

definition leet_compact :: "unicode \<Rightarrow> ustr \<Rightarrow> ustr" where
  "leet_compact u s = map normalize_leet_char (compact_text u s)"

section \<open>Pipelines\<close>

record norm_pipeline =
  np_language :: language
  np_steps :: "(ustr \<Rightarrow> ustr) list"

record normalized_text =
  nt_raw :: ustr
  nt_normalized :: ustr
  nt_separator_tokens :: "ustr list"
  nt_compact :: ustr
  nt_leet_compact :: ustr

definition english_pipeline :: "unicode \<Rightarrow> norm_pipeline" where
  "english_pipeline u = \<lparr>np_language = English,
     np_steps = [normalize_nfkc u, trim_text, collapse_whitespace, lowercase u]\<rparr>"

definition ukrainian_pipeline :: "unicode \<Rightarrow> norm_pipeline" where
  "ukrainian_pipeline u = \<lparr>np_language = Ukrainian,
     np_steps = [normalize_nfkc u, trim_text, collapse_whitespace]\<rparr>"

definition unknown_pipeline :: "unicode \<Rightarrow> norm_pipeline" where
  "unknown_pipeline u = \<lparr>np_language = UnknownLang,
     np_steps = [normalize_nfkc u, trim_text, collapse_whitespace]\<rparr>"

fun for_language :: "unicode \<Rightarrow> language \<Rightarrow> norm_pipeline" where
  "for_language u English = english_pipeline u"
| "for_language u Ukrainian = ukrainian_pipeline u"
| "for_language u UnknownLang = unknown_pipeline u"

definition pipeline_normalize :: "norm_pipeline \<Rightarrow> ustr \<Rightarrow> ustr" where
  "pipeline_normalize p s = fold (\<lambda>step current. step current) (np_steps p) s"

definition normalize_views :: "unicode \<Rightarrow> norm_pipeline \<Rightarrow> ustr \<Rightarrow> normalized_text" where
  "normalize_views u p s =
     (let normalized = pipeline_normalize p s;
          cmp = compact_text u normalized;
          leet = (case np_language p of English \<Rightarrow> leet_compact u normalized | _ \<Rightarrow> cmp)
      in \<lparr>nt_raw = s, nt_normalized = normalized, nt_separator_tokens = separator_tokens u normalized,
          nt_compact = cmp, nt_leet_compact = leet\<rparr>)"

definition norm_pipelines :: "unicode \<Rightarrow> norm_pipeline list" where
  "norm_pipelines u = [english_pipeline u, ukrainian_pipeline u, unknown_pipeline u]"

definition pipeline_for :: "norm_pipeline list \<Rightarrow> language \<Rightarrow> norm_pipeline option" where
  "pipeline_for ps l = find (\<lambda>p. np_language p = l) ps"

definition pipelines_normalize :: "norm_pipeline list \<Rightarrow> language \<Rightarrow> ustr \<Rightarrow> ustr option" where
  "pipelines_normalize ps l s = map_option (\<lambda>p. pipeline_normalize p s) (pipeline_for ps l)"

definition pipelines_normalize_views ::
    "unicode \<Rightarrow> norm_pipeline list \<Rightarrow> language \<Rightarrow> ustr \<Rightarrow> normalized_text option" where
  "pipelines_normalize_views u ps l s = map_option (\<lambda>p. normalize_views u p s) (pipeline_for ps l)"


section \<open>Lemmas\<close>

lemma split_pred_ne [simp]: "split_pred P s \<noteq> []"
  by (induction s) (auto split: list.splits)

lemma split_pred_free: "w \<in> set (split_pred P s) \<Longrightarrow> \<forall>x \<in> set w. \<not> P x"
  by (induction s arbitrary: w) (force split: if_splits list.splits)+

lemma concat_split_pred: "concat (split_pred P s) = filter (\<lambda>x. \<not> P x) s"
  by (induction s) (auto split: list.splits)

lemma concat_words: "concat (filter (\<lambda>w. w \<noteq> []) ws) = concat ws"
  by (induction ws) auto

lemma split_pred_id: "(\<And>x. x \<in> set w \<Longrightarrow> \<not> P x) \<Longrightarrow> split_pred P w = [w]"
  by (induction w) auto

lemma split_pred_append: "P c \<Longrightarrow> split_pred P (a @ c # b) = split_pred P a @ split_pred P b"
  by (induction a) (auto split: list.splits)

lemma wordsD: "w \<in> set (words P s) \<Longrightarrow> w \<noteq> [] \<and> (\<forall>x \<in> set w. \<not> P x)"
  by (auto simp: words_def dest: split_pred_free)

lemma separator_tokens_words: "separator_tokens u s = words (\<lambda>c. \<not> u_alnum u c) s"
  by (simp add: separator_tokens_def words_def)

lemma separator_tokensD:
  "t \<in> set (separator_tokens u s) \<Longrightarrow> t \<noteq> [] \<and> (\<forall>c \<in> set t. u_alnum u c)"
  unfolding separator_tokens_words by (drule wordsD) simp

text \<open>The compact view is the separator tokens run together: what the two views keep of a
  text is the same characters in the same order.\<close>

lemma compact_separator_tokens: "concat (separator_tokens u s) = compact_text u s"
  unfolding separator_tokens_def compact_text_def concat_words concat_split_pred by simp

lemma words_join_sp:
  assumes "\<And>w. w \<in> set ws \<Longrightarrow> w \<noteq> [] \<and> (\<forall>x \<in> set w. \<not> P x)" and "P 0x20"
  shows "words P (join_sp ws) = ws"
  using assms(1)
proof (induction ws rule: join_sp.induct)
  case (2 w)
  then show ?case by (simp add: words_def split_pred_id)
next
  case (3 w v ws)
  from 3(1) have "words P (join_sp (v # ws)) = v # ws" using 3(2) by force
  moreover have "split_pred P w = [w]" "w \<noteq> []" using 3(2) [of w] by (simp_all add: split_pred_id)
  ultimately show ?case
    using assms(2) by (simp add: words_def split_pred_append)
qed (simp add: words_def)

lemma split_collapse: "unicode_split_whitespace (collapse_whitespace s) = unicode_split_whitespace s"
  unfolding collapse_whitespace_def unicode_split_whitespace_def
  by (rule words_join_sp) (simp_all add: wordsD, simp add: is_ws_def)

lemma collapse_whitespace_idem [simp]:
  "collapse_whitespace (collapse_whitespace s) = collapse_whitespace s"
  by (simp only: collapse_whitespace_def [of "collapse_whitespace s"] split_collapse)
     (simp add: collapse_whitespace_def)

text \<open>Trimming before collapsing changes nothing.\<close>

lemma words_dropWhile: "words P (dropWhile P s) = words P s"
  by (induction s) (auto simp: words_def)

lemma words_snoc: "P c \<Longrightarrow> words P (s @ [c]) = words P s"
  using split_pred_append [of P c s "[]"] by (simp add: words_def)

lemma words_dropWhile_end: "words P (rev (dropWhile P (rev s))) = words P s"
  by (induction s rule: rev_induct) (auto simp: words_snoc)

lemma collapse_trim: "collapse_whitespace (trim_text s) = collapse_whitespace s"
  by (simp add: collapse_whitespace_def unicode_split_whitespace_def trim_text_def utrim_def
      trim_matches_def words_dropWhile words_dropWhile_end)

lemma pipeline_normalize_lang:
  "pipeline_normalize (for_language u l) s =
     (let t = collapse_whitespace (u_nfkc u s) in if l = English then u_lower u t else t)"
  by (cases l) (simp_all add: pipeline_normalize_def english_pipeline_def ukrainian_pipeline_def
      unknown_pipeline_def normalize_nfkc_def lowercase_def collapse_trim Let_def)

lemma np_language_for [simp]: "np_language (for_language u l) = l"
  by (cases l) (simp_all add: english_pipeline_def ukrainian_pipeline_def unknown_pipeline_def)

text \<open>The table of pipelines has one for every language, the language's own.\<close>

lemma pipeline_for_total: "pipeline_for (norm_pipelines u) l = Some (for_language u l)"
  by (cases l) (simp_all add: pipeline_for_def norm_pipelines_def english_pipeline_def
      ukrainian_pipeline_def unknown_pipeline_def)

lemma pipelines_normalize_views_eq:
  "pipelines_normalize_views u (norm_pipelines u) l s = Some (normalize_views u (for_language u l) s)"
  "pipelines_normalize (norm_pipelines u) l s = Some (pipeline_normalize (for_language u l) s)"
  by (simp_all add: pipelines_normalize_views_def pipelines_normalize_def pipeline_for_total)

subsection \<open>The views are strings of scalar values\<close>

text \<open>What is assumed of the Unicode tables: they take strings to strings.\<close>

definition unicode_ok :: "unicode \<Rightarrow> bool" where
  "unicode_ok u \<longleftrightarrow> (\<forall>s. scalars s \<longrightarrow> scalars (u_lower u s) \<and> scalars (u_nfkc u s))"

lemma scalars_iff: "scalars s \<longleftrightarrow> (\<forall>c \<in> set s. scalar c)"
  by (simp add: scalars_def list_all_iff)

lemma set_split_pred: "w \<in> set (split_pred P s) \<Longrightarrow> set w \<subseteq> set s"
  by (induction s arbitrary: w) (auto split: if_splits list.splits, blast+)

lemma set_join_sp: "set (join_sp ws) \<subseteq> insert 0x20 (\<Union> (set ` set ws))"
  by (induction ws rule: join_sp.induct) auto

lemma scalars_collapse: "scalars s \<Longrightarrow> scalars (collapse_whitespace s)"
proof -
  assume s: "scalars s"
  have "set (collapse_whitespace s) \<subseteq> insert 0x20 (set s)"
  proof -
    have "(\<Union> (set ` set (unicode_split_whitespace s))) \<subseteq> set s"
      unfolding unicode_split_whitespace_def words_def using set_split_pred [of _ is_ws s] by auto
    with set_join_sp [of "unicode_split_whitespace s"] show ?thesis
      unfolding collapse_whitespace_def by blast
  qed
  moreover have "scalar 0x20" by (simp add: scalar_def)
  ultimately show ?thesis using s by (auto simp: scalars_iff)
qed

lemma scalars_normalize:
  "unicode_ok u \<Longrightarrow> scalars s \<Longrightarrow> scalars (pipeline_normalize (for_language u l) s)"
  by (simp add: pipeline_normalize_lang Let_def unicode_ok_def scalars_collapse)

lemma scalars_compact: "scalars s \<Longrightarrow> scalars (compact_text u s)"
  by (auto simp: scalars_iff compact_text_def)

lemma scalars_leet: "scalars s \<Longrightarrow> scalars (leet_compact u s)"
  by (auto simp: scalars_iff leet_compact_def compact_text_def normalize_leet_char_def scalar_def)

lemma normalize_views_scalars:
  assumes "unicode_ok u" "scalars s"
  shows "scalars (nt_normalized (normalize_views u (for_language u l) s))"
    "scalars (nt_leet_compact (normalize_views u (for_language u l) s))"
proof -
  note n = scalars_normalize [OF assms, of l]
  then show "scalars (nt_normalized (normalize_views u (for_language u l) s))"
    by (simp add: normalize_views_def Let_def)
  show "scalars (nt_leet_compact (normalize_views u (for_language u l) s))"
    using scalars_compact [OF n] scalars_leet [OF n]
    by (cases l) (simp_all add: normalize_views_def Let_def del: for_language.simps)
qed

end
