(* ===== verification/Text_Automaton.thy ===== *)
theory Text_Automaton
  imports Prelude "HOL-Library.Multiset"
begin

text \<open>
  The two multi-pattern matchers of \<open>packages/text-policy/src/lexicon/automaton.rs\<close>.
  \<open>ByteAhoCorasick\<close> and \<open>TokenAhoCorasick\<close> are the same code over bytes and over tokens:
  a trie built by insertion, failure links set by a breadth-first walk, and a scan. The
  definitions here are that code over an arbitrary symbol type \<open>'c\<close>; \<open>Text_Lexicon\<close> has
  the two pattern types.

  A node's \<open>HashMap\<close> is an association list with distinct keys. The order in which Rust
  iterates over it is not specified: it is the parameter \<open>iter\<close>, of which only
  \<open>mset (iter xs) = mset xs\<close> is assumed. Indexing out of range and a loop that does not end
  are both \<open>None\<close>, so the equations to \<open>Some\<close> below contain the absence of panics and
  termination. The theorem at the end of the theory says that construction and scan report,
  in order, what a triple loop over end, start and pattern reports.
\<close>

section \<open>The code\<close>

record 'c ac_node =
  nd_next :: "('c \<times> nat) list"
  nd_fail :: nat
  nd_outputs :: "nat list"

definition ac_empty_node :: "'c ac_node" where
  "ac_empty_node = \<lparr>nd_next = [], nd_fail = 0, nd_outputs = []\<rparr>"

subsection \<open>Inserting the patterns\<close>

definition ac_child :: "'c ac_node list \<Rightarrow> nat \<Rightarrow> 'c \<Rightarrow> ('c ac_node list \<times> nat) exec" where
  "ac_child nodes i c = do {
     nd \<leftarrow> idx nodes i;
     (case map_of (nd_next nd) c of
        Some j \<Rightarrow> Some (nodes, j)
      | None \<Rightarrow>
          let j = length nodes in
          Some ((nodes @ [ac_empty_node])[i := nd\<lparr>nd_next := nd_next nd @ [(c, j)]\<rparr>], j))
   }"

fun ac_walk :: "'c ac_node list \<Rightarrow> nat \<Rightarrow> 'c list \<Rightarrow> ('c ac_node list \<times> nat) exec" where
  "ac_walk nodes i [] = Some (nodes, i)"
| "ac_walk nodes i (c # cs) = do {
     (nodes', j) \<leftarrow> ac_child nodes i c;
     ac_walk nodes' j cs
   }"

definition ac_insert :: "nat \<Rightarrow> 'c list \<Rightarrow> 'c ac_node list \<Rightarrow> 'c ac_node list exec" where
  "ac_insert k pat nodes = do {
     (nodes', i) \<leftarrow> ac_walk nodes 0 pat;
     nd \<leftarrow> idx nodes' i;
     Some (nodes'[i := nd\<lparr>nd_outputs := nd_outputs nd @ [k]\<rparr>])
   }"

fun ac_insert_all :: "nat \<Rightarrow> 'c list list \<Rightarrow> 'c ac_node list \<Rightarrow> 'c ac_node list exec" where
  "ac_insert_all k [] nodes = Some nodes"
| "ac_insert_all k (p # ps) nodes = do {
     nodes' \<leftarrow> ac_insert k p nodes;
     ac_insert_all (Suc k) ps nodes'
   }"

subsection \<open>Failure links\<close>

partial_function (option) ac_fallback :: "'c ac_node list \<Rightarrow> 'c \<Rightarrow> nat \<Rightarrow> nat option" where
  "ac_fallback nodes c i =
     (if i = 0 then Some 0
      else do {
        nd \<leftarrow> idx nodes i;
        (if map_of (nd_next nd) c \<noteq> None then Some i else ac_fallback nodes c (nd_fail nd))
      })"

definition ac_goto :: "'c ac_node list \<Rightarrow> 'c \<Rightarrow> nat \<Rightarrow> nat exec" where
  "ac_goto nodes c i = do {
     nd \<leftarrow> idx nodes i;
     Some (case map_of (nd_next nd) c of Some j \<Rightarrow> j | None \<Rightarrow> 0)
   }"

text \<open>The fallback loop followed by the lookup, as both the construction and the scan have it.\<close>

definition ac_delta :: "'c ac_node list \<Rightarrow> 'c \<Rightarrow> nat \<Rightarrow> nat exec" where
  "ac_delta nodes c i = do { f \<leftarrow> ac_fallback nodes c i; ac_goto nodes c f }"

definition ac_link :: "'c ac_node list \<Rightarrow> nat \<Rightarrow> 'c \<times> nat \<Rightarrow> 'c ac_node list exec" where
  "ac_link nodes i t = (case t of (c, j) \<Rightarrow> do {
     nd \<leftarrow> idx nodes i;
     f \<leftarrow> ac_delta nodes c (nd_fail nd);
     child \<leftarrow> idx nodes j;
     target \<leftarrow> idx nodes f;
     Some (nodes[j := child\<lparr>nd_fail := f, nd_outputs := nd_outputs child @ nd_outputs target\<rparr>])
   })"

fun ac_links :: "'c ac_node list \<Rightarrow> nat list \<Rightarrow> nat \<Rightarrow> ('c \<times> nat) list
    \<Rightarrow> ('c ac_node list \<times> nat list) exec" where
  "ac_links nodes queue i [] = Some (nodes, queue)"
| "ac_links nodes queue i (t # ts) = do {
     nodes' \<leftarrow> ac_link nodes i t;
     ac_links nodes' (queue @ [snd t]) i ts
   }"

partial_function (option) ac_bfs ::
  "(('c \<times> nat) list \<Rightarrow> ('c \<times> nat) list) \<Rightarrow> 'c ac_node list \<Rightarrow> nat list \<Rightarrow> 'c ac_node list option"
where
  "ac_bfs iter nodes queue =
     (case queue of
        [] \<Rightarrow> Some nodes
      | i # rest \<Rightarrow> do {
          nd \<leftarrow> idx nodes i;
          (nodes', queue') \<leftarrow> ac_links nodes rest i (iter (nd_next nd));
          ac_bfs iter nodes' queue'
        })"

declare ac_fallback.simps [code] ac_bfs.simps [code]

definition ac_new :: "(('c \<times> nat) list \<Rightarrow> ('c \<times> nat) list) \<Rightarrow> 'c list list \<Rightarrow> 'c ac_node list exec" where
  "ac_new iter pats = do {
     nodes \<leftarrow> ac_insert_all 0 pats [ac_empty_node];
     root \<leftarrow> idx nodes 0;
     ac_bfs iter nodes (map snd (iter (nd_next root)))
   }"

subsection \<open>The scan\<close>

text \<open>\<open>keep k start end\<close> is the test a candidate must pass: the token-boundary test of the
  byte matcher, which itself can panic, and the constant true of the token matcher.
  \<open>end - pattern.len()\<close> is a subtraction of \<open>usize\<close> values: below zero it is a panic.\<close>

fun ac_report :: "(nat \<Rightarrow> nat \<Rightarrow> nat \<Rightarrow> bool exec) \<Rightarrow> 'c list list \<Rightarrow> nat \<Rightarrow> nat list
    \<Rightarrow> (nat \<times> nat \<times> nat) list exec" where
  "ac_report keep pats e [] = Some []"
| "ac_report keep pats e (k # ks) = do {
     p \<leftarrow> idx pats k;
     if e < length p then None
     else do {
       ok \<leftarrow> keep k (e - length p) e;
       rest \<leftarrow> ac_report keep pats e ks;
       Some (if ok then (k, e - length p, e) # rest else rest)
     }
   }"

fun ac_scan :: "'c ac_node list \<Rightarrow> (nat \<Rightarrow> nat \<Rightarrow> nat \<Rightarrow> bool exec) \<Rightarrow> 'c list list
    \<Rightarrow> nat \<Rightarrow> nat \<Rightarrow> 'c list \<Rightarrow> (nat \<times> nat \<times> nat) list exec" where
  "ac_scan nodes keep pats i pos [] = Some []"
| "ac_scan nodes keep pats i pos (c # cs) = do {
     j \<leftarrow> ac_delta nodes c i;
     nd \<leftarrow> idx nodes j;
     here \<leftarrow> ac_report keep pats (pos + 1) (nd_outputs nd);
     rest \<leftarrow> ac_scan nodes keep pats j (pos + 1) cs;
     Some (here @ rest)
   }"

definition ac_find :: "(nat \<Rightarrow> nat \<Rightarrow> nat \<Rightarrow> bool exec) \<Rightarrow> 'c list list \<Rightarrow> 'c ac_node list
    \<Rightarrow> 'c list \<Rightarrow> (nat \<times> nat \<times> nat) list exec" where
  "ac_find keep pats nodes xs = ac_scan nodes keep pats 0 0 xs"

section \<open>The reference: three nested loops\<close>

definition ac_own :: "'c list list \<Rightarrow> 'c list \<Rightarrow> nat list" where
  "ac_own pats s = filter (\<lambda>k. pats ! k = s) [0..<length pats]"

definition naive_at :: "'c list list \<Rightarrow> 'c list \<Rightarrow> nat \<Rightarrow> (nat \<times> nat \<times> nat) list" where
  "naive_at pats xs e =
     concat (map (\<lambda>d. map (\<lambda>k. (k, d, e)) (ac_own pats (take (e - d) (drop d xs)))) [0..<e])"

definition naive_find :: "'c list list \<Rightarrow> 'c list \<Rightarrow> (nat \<times> nat \<times> nat) list" where
  "naive_find pats xs = concat (map (naive_at pats xs) [1..<Suc (length xs)])"

section \<open>Longest suffixes in a set of labels\<close>

fun lsl :: "'c list set \<Rightarrow> 'c list \<Rightarrow> 'c list" where
  "lsl P [] = []"
| "lsl P (x # xs) = (if x # xs \<in> P then x # xs else lsl P xs)"

definition prefix_closed :: "'c list set \<Rightarrow> bool" where
  "prefix_closed P \<longleftrightarrow> [] \<in> P \<and> (\<forall>q c. q @ [c] \<in> P \<longrightarrow> q \<in> P)"

lemma lsl_in [simp]: "[] \<in> P \<Longrightarrow> lsl P q \<in> P"
  by (induction q) auto

lemma lsl_id [simp]: "q \<in> P \<Longrightarrow> lsl P q = q"
  by (cases q) auto

lemma length_lsl: "length (lsl P q) \<le> length q"
  by (induction q) auto

lemma length_lsl_tl: "q \<noteq> [] \<Longrightarrow> length (lsl P (tl q)) < length q"
  using length_lsl [of P "tl q"] by (cases q) auto

lemma lsl_snoc_lsl:
  "prefix_closed P \<Longrightarrow> lsl P (lsl P q @ [c]) = lsl P (q @ [c])"
proof (induction q)
  case (Cons x q)
  then have "x # q \<in> P" if "x # q @ [c] \<in> P"
    using that unfolding prefix_closed_def by (metis append_Cons)
  with Cons show ?case by auto
qed simp

lemma lsl_snoc:
  assumes "prefix_closed P"
  shows "lsl P (q @ [c]) =
    (if q @ [c] \<in> P then q @ [c] else if q = [] then [] else lsl P (lsl P (tl q) @ [c]))"
  using assms by (cases q) (auto simp: lsl_snoc_lsl)

text \<open>The patterns that end where \<open>q\<close> ends, longest first.\<close>

fun suffix_outputs :: "('c list \<Rightarrow> nat list) \<Rightarrow> 'c list \<Rightarrow> nat list" where
  "suffix_outputs own [] = own []"
| "suffix_outputs own (x # xs) = own (x # xs) @ suffix_outputs own xs"

lemma suffix_outputs_lsl:
  assumes "\<And>q. own q \<noteq> [] \<Longrightarrow> q \<in> P"
  shows "suffix_outputs own (lsl P q) = suffix_outputs own q"
  using assms by (induction q) force+

section \<open>The trie of the inserted patterns\<close>

text \<open>\<open>labs\<close> names every node by the string that leads to it.\<close>

definition ac_trie :: "('c list \<Rightarrow> nat list) \<Rightarrow> 'c ac_node list \<Rightarrow> 'c list list \<Rightarrow> bool" where
  "ac_trie own nodes labs \<longleftrightarrow>
     length nodes = length labs \<and> distinct labs \<and> labs \<noteq> [] \<and> labs ! 0 = []
     \<and> prefix_closed (set labs)
     \<and> (\<forall>q. own q \<noteq> [] \<longrightarrow> q \<in> set labs)
     \<and> (\<forall>i < length labs. nd_fail (nodes ! i) = 0 \<and> nd_outputs (nodes ! i) = own (labs ! i)
          \<and> distinct (map fst (nd_next (nodes ! i)))
          \<and> (\<forall>c j. (c, j) \<in> set (nd_next (nodes ! i)) \<longleftrightarrow> j < length labs \<and> labs ! j = labs ! i @ [c]))"

lemma ac_trieD:
  assumes "ac_trie own nodes labs"
  shows "length nodes = length labs" "distinct labs" "0 < length labs" "labs ! 0 = []"
    "prefix_closed (set labs)" "\<And>q. own q \<noteq> [] \<Longrightarrow> q \<in> set labs"
    "\<And>i. i < length labs \<Longrightarrow> nd_fail (nodes ! i) = 0"
    "\<And>i. i < length labs \<Longrightarrow> nd_outputs (nodes ! i) = own (labs ! i)"
    "\<And>i. i < length labs \<Longrightarrow> distinct (map fst (nd_next (nodes ! i)))"
    "\<And>i c j. i < length labs \<Longrightarrow>
       (c, j) \<in> set (nd_next (nodes ! i)) \<longleftrightarrow> j < length labs \<and> labs ! j = labs ! i @ [c]"
  using assms by (simp_all add: ac_trie_def)

lemma ac_trie_empty: "ac_trie (\<lambda>_. []) [ac_empty_node] [[]]"
  by (auto simp: ac_trie_def ac_empty_node_def prefix_closed_def)

lemma ac_trie_map_of:
  assumes "ac_trie own nodes labs" "i < length labs"
  shows "map_of (nd_next (nodes ! i)) c = Some j \<longleftrightarrow> j < length labs \<and> labs ! j = labs ! i @ [c]"
  using ac_trieD(9,10) [OF assms] by (metis map_of_eq_Some_iff)

lemma ac_trie_map_of_None:
  assumes "ac_trie own nodes labs" "i < length labs"
  shows "map_of (nd_next (nodes ! i)) c = None \<longleftrightarrow> labs ! i @ [c] \<notin> set labs"
  using ac_trie_map_of [OF assms] by (metis in_set_conv_nth not_Some_eq)

lemma ac_child_trie:
  assumes t: "ac_trie own nodes labs" and i: "i < length labs"
  shows "\<exists>nodes' labs' j. ac_child nodes i c = Some (nodes', j) \<and> ac_trie own nodes' labs'
    \<and> j < length labs' \<and> labs' ! j = labs ! i @ [c]"
proof (cases "map_of (nd_next (nodes ! i)) c")
  case (Some j)
  then show ?thesis
    using ac_trie_map_of [OF t i, of c j] ac_trieD(1) [OF t] t i
    by (simp add: ac_child_def idx_def) blast
next
  case None
  define q where "q = labs ! i @ [c]"
  let ?nodes = "(nodes @ [ac_empty_node])
    [i := (nodes ! i)\<lparr>nd_next := nd_next (nodes ! i) @ [(c, length nodes)]\<rparr>]"
  have q: "q \<notin> set labs"
    using None ac_trie_map_of_None [OF t i] by (simp add: q_def)
  have own_q: "own q = []" using ac_trieD(6) [OF t] q by blast
  have no_child: "q @ [d] \<notin> set labs" for d
    using ac_trieD(5) [OF t] q by (auto simp: prefix_closed_def)
  note D = ac_trieD [OF t]
  have closed: "prefix_closed (set (labs @ [q]))"
    using D(5) i by (auto simp: prefix_closed_def q_def)
  have edges: "(d, j) \<in> set (nd_next (?nodes ! k)) \<longleftrightarrow>
      j < Suc (length labs) \<and> (labs @ [q]) ! j = (labs @ [q]) ! k @ [d]"
    if k: "k < Suc (length labs)" for k d j
  proof (cases "k = length labs")
    case True
    have "(labs @ [q]) ! j \<noteq> q @ [d]" if "j < Suc (length labs)"
    proof (cases "j = length labs")
      case False
      then have "labs ! j \<in> set labs" using that by simp
      with no_child [of d] have "labs ! j \<noteq> q @ [d]" by metis
      with False that show ?thesis by (simp add: nth_append)
    qed simp
    then show ?thesis
      using True i D(1) by (simp add: nth_append ac_empty_node_def nth_list_update)
  next
    case False
    then have k': "k < length labs" using k by simp
    have "nd_next (?nodes ! k) = nd_next (nodes ! k) @ (if k = i then [(c, length labs)] else [])"
      using k' D(1) i by (auto simp: nth_append nth_list_update)
    moreover have "(labs @ [q]) ! length labs = labs ! k @ [d] \<longleftrightarrow> k = i \<and> d = c"
      using k' i D(2) by (auto simp: q_def nth_eq_iff_index_eq)
    ultimately show ?thesis
      using D(10) [OF k'] k' by (auto simp: nth_append less_Suc_eq split: if_splits)
  qed
  have keys: "distinct (map fst (nd_next (?nodes ! k)))" if k: "k < Suc (length labs)" for k
    using k D(1,9) i None
    by (cases "k = length labs")
       (auto simp: nth_append nth_list_update ac_empty_node_def map_of_eq_None_iff)
  have "ac_trie own ?nodes (labs @ [q])"
    unfolding ac_trie_def
    using D closed edges keys q own_q i
    by (auto simp: nth_append nth_list_update less_Suc_eq ac_empty_node_def)
  moreover have "ac_child nodes i c = Some (?nodes, length labs)"
    using None i D(1) by (simp add: ac_child_def idx_def Let_def)
  ultimately show ?thesis
    by (intro exI [of _ ?nodes] exI [of _ "labs @ [q]"] exI [of _ "length labs"])
       (simp add: q_def)
qed

lemma ac_walk_trie:
  assumes "ac_trie own nodes labs" "i < length labs"
  shows "\<exists>nodes' labs' j. ac_walk nodes i cs = Some (nodes', j) \<and> ac_trie own nodes' labs'
    \<and> j < length labs' \<and> labs' ! j = labs ! i @ cs"
  using assms
proof (induction cs arbitrary: nodes labs i)
  case Nil
  then show ?case by auto
next
  case (Cons c cs)
  from ac_child_trie [OF Cons.prems, of c] obtain nodes1 labs1 j where
    1: "ac_child nodes i c = Some (nodes1, j)" "ac_trie own nodes1 labs1"
      "j < length labs1" "labs1 ! j = labs ! i @ [c]" by blast
  from Cons.IH [OF 1(2,3)] 1 show ?case by auto
qed

lemma ac_insert_trie:
  assumes "ac_trie own nodes labs"
  shows "\<exists>nodes' labs'. ac_insert k p nodes = Some nodes'
    \<and> ac_trie (own(p := own p @ [k])) nodes' labs'"
proof -
  from ac_walk_trie [OF assms ac_trieD(3) [OF assms], of p] ac_trieD(4) [OF assms]
  obtain nodes1 labs1 i where
    w: "ac_walk nodes 0 p = Some (nodes1, i)" and t: "ac_trie own nodes1 labs1"
    and i: "i < length labs1" and lab: "labs1 ! i = p" by auto
  let ?nodes = "nodes1[i := (nodes1 ! i)\<lparr>nd_outputs := nd_outputs (nodes1 ! i) @ [k]\<rparr>]"
  have "labs1 ! j = p \<longleftrightarrow> j = i" if "j < length labs1" for j
    using that i lab ac_trieD(2) [OF t] by (metis nth_eq_iff_index_eq)
  then have "ac_trie (own(p := own p @ [k])) ?nodes labs1"
    using t i nth_mem [OF i] lab unfolding ac_trie_def by (auto simp: nth_list_update)
  moreover have "ac_insert k p nodes = Some ?nodes"
    using w i ac_trieD(1) [OF t] by (simp add: ac_insert_def idx_def)
  ultimately show ?thesis by blast
qed

lemma ac_own_snoc: "ac_own (ps @ [p]) = (ac_own ps)(p := ac_own ps p @ [length ps])"
  by (rule ext) (auto simp: ac_own_def nth_append intro!: filter_cong)

lemma ac_insert_all_trie:
  assumes "ac_trie (ac_own done_ps) nodes labs"
  shows "\<exists>nodes' labs'. ac_insert_all (length done_ps) ps nodes = Some nodes'
    \<and> ac_trie (ac_own (done_ps @ ps)) nodes' labs'"
  using assms
proof (induction ps arbitrary: done_ps nodes labs)
  case Nil
  then show ?case by auto
next
  case (Cons p ps)
  from ac_insert_trie [OF Cons.prems, of "length done_ps" p] obtain nodes1 labs1 where
    1: "ac_insert (length done_ps) p nodes = Some nodes1"
      "ac_trie (ac_own (done_ps @ [p])) nodes1 labs1" by (auto simp: ac_own_snoc)
  from Cons.IH [OF 1(2)] 1(1) show ?case by auto
qed

lemma ac_own_nil: "[] \<notin> set pats \<Longrightarrow> ac_own pats [] = []"
  by (auto simp: ac_own_def filter_empty_conv) (metis nth_mem)

lemma in_ac_own: "k \<in> set (ac_own pats s) \<longleftrightarrow> k < length pats \<and> pats ! k = s"
  by (auto simp: ac_own_def)

lemma ac_own_Nil [simp]: "ac_own [] = (\<lambda>_. [])"
  by (rule ext) (simp add: ac_own_def)

lemma ac_insert_all_new:
  "\<exists>nodes labs. ac_insert_all 0 ps [ac_empty_node] = Some nodes \<and> ac_trie (ac_own ps) nodes labs"
  using ac_insert_all_trie [of "[]" "[ac_empty_node]" "[[]]" ps] ac_trie_empty by simp


section \<open>Failure links\<close>

text \<open>\<open>ac_index labs q\<close> is the node of the label \<open>q\<close>; \<open>ac_final\<close> is the node the
  breadth-first walk makes of the trie's node, and \<open>ac_at S\<close> the automaton in which exactly
  the nodes of \<open>S\<close> have been linked.\<close>

definition ac_index :: "'c list list \<Rightarrow> 'c list \<Rightarrow> nat" where
  "ac_index labs q = length (takeWhile (\<lambda>s. s \<noteq> q) labs)"

definition ac_final :: "('c list \<Rightarrow> nat list) \<Rightarrow> 'c ac_node list \<Rightarrow> 'c list list \<Rightarrow> nat \<Rightarrow> 'c ac_node"
where
  "ac_final own nodes labs j = (nodes ! j)
     \<lparr>nd_fail := ac_index labs (lsl (set labs) (tl (labs ! j))),
      nd_outputs := suffix_outputs own (labs ! j)\<rparr>"

definition ac_at :: "('c list \<Rightarrow> nat list) \<Rightarrow> 'c ac_node list \<Rightarrow> 'c list list \<Rightarrow> nat set
    \<Rightarrow> 'c ac_node list" where
  "ac_at own nodes labs S =
     map (\<lambda>j. if j \<in> S then ac_final own nodes labs j else nodes ! j) [0..<length labs]"

lemma ac_index:
  assumes "q \<in> set labs"
  shows "ac_index labs q < length labs" "labs ! ac_index labs q = q"
  using assms unfolding ac_index_def
  by (induction labs) (auto split: if_splits)

lemma ac_index_nth [simp]:
  "distinct labs \<Longrightarrow> j < length labs \<Longrightarrow> ac_index labs (labs ! j) = j"
  using ac_index [of "labs ! j" labs] by (simp add: nth_eq_iff_index_eq)

lemma ac_index_iff:
  "distinct labs \<Longrightarrow> q \<in> set labs \<Longrightarrow> j < length labs \<Longrightarrow> ac_index labs q = j \<longleftrightarrow> labs ! j = q"
  using ac_index [of q labs] by (auto simp: nth_eq_iff_index_eq)

lemma ac_at_next [simp]:
  "j < length labs \<Longrightarrow> nd_next (ac_at own nodes labs S ! j) = nd_next (nodes ! j)"
  by (simp add: ac_at_def ac_final_def)

lemma length_ac_at [simp]: "length (ac_at own nodes labs S) = length labs"
  by (simp add: ac_at_def)

lemma ac_at_idx:
  "j < length labs \<Longrightarrow> idx (ac_at own nodes labs S) j = Some (ac_at own nodes labs S ! j)"
  by (simp add: idx_def)

lemma ac_goto_at:
  assumes t: "ac_trie own nodes labs" and q: "q \<in> set labs"
  shows "ac_goto (ac_at own nodes labs S) c (ac_index labs q)
    = Some (if q @ [c] \<in> set labs then ac_index labs (q @ [c]) else 0)"
proof -
  note i = ac_index [OF q]
  have "map_of (nd_next (nodes ! ac_index labs q)) c =
      (if q @ [c] \<in> set labs then Some (ac_index labs (q @ [c])) else None)"
    using ac_trie_map_of [OF t i(1), of c "ac_index labs (q @ [c])"]
      ac_trie_map_of_None [OF t i(1), of c] i(2) ac_index [of "q @ [c]" labs] by auto
  then show ?thesis using i by (simp add: ac_goto_def ac_at_idx)
qed

text \<open>The fallback loop and the lookup find the longest suffix that continues with \<open>c\<close>, as
  long as the nodes it can visit are linked.\<close>

lemma ac_delta_at:
  assumes t: "ac_trie own nodes labs" and q: "q \<in> set labs"
    and S: "\<And>j. j < length labs \<Longrightarrow> length (labs ! j) \<le> length q \<Longrightarrow> j \<in> S"
  shows "ac_delta (ac_at own nodes labs S) c (ac_index labs q)
    = Some (ac_index labs (lsl (set labs) (q @ [c])))"
  using q S
proof (induction "length q" arbitrary: q rule: less_induct)
  case less
  let ?P = "set labs" and ?A = "ac_at own nodes labs S"
  note D = ac_trieD [OF t] and i = ac_index [OF less.prems(1)]
  have nil: "[] \<in> ?P" using D(5) by (simp add: prefix_closed_def)
  have ix0: "ac_index labs q = 0 \<longleftrightarrow> q = []"
    using ac_index_iff [OF D(2) less.prems(1) D(3)] D(4) by auto
  have ixnil: "ac_index labs [] = 0" using ac_index_iff [OF D(2) nil D(3)] D(4) by simp
  have key: "map_of (nd_next (?A ! ac_index labs q)) c \<noteq> None \<longleftrightarrow> q @ [c] \<in> ?P"
    using ac_trie_map_of_None [OF t i(1), of c] i by auto
  show ?case
  proof (cases "q = [] \<or> q @ [c] \<in> ?P")
    case True
    then have "ac_fallback ?A c (ac_index labs q) = Some (ac_index labs q)"
      using key i ix0 by (subst ac_fallback.simps) (auto simp: ac_at_idx)
    moreover have "lsl ?P (q @ [c]) = (if q @ [c] \<in> ?P then q @ [c] else [])"
      using True by (subst lsl_snoc [OF D(5)]) auto
    ultimately show ?thesis
      using ac_goto_at [OF t less.prems(1), where S = S and c = c] ixnil
      by (simp add: ac_delta_def)
  next
    case False
    let ?r = "lsl ?P (tl q)"
    have r: "?r \<in> ?P" "length ?r < length q"
      using nil False length_lsl_tl [of q ?P] by auto
    have "nd_fail (?A ! ac_index labs q) = ac_index labs ?r"
      using i less.prems(2) [OF i(1)] by (simp add: ac_at_def ac_final_def)
    then have "ac_delta ?A c (ac_index labs q) = ac_delta ?A c (ac_index labs ?r)"
      using False key i ix0 unfolding ac_delta_def
      by (subst ac_fallback.simps) (auto simp: ac_at_idx)
    also have "\<dots> = Some (ac_index labs (lsl ?P (?r @ [c])))"
      using less.hyps [OF r(2,1)] r(2) less.prems(2) by auto
    finally show ?thesis using False by (subst lsl_snoc [OF D(5)]) simp
  qed
qed

text \<open>One transition links one child.\<close>

lemma ac_link_at:
  assumes t: "ac_trie own nodes labs" and i: "i < length labs" "labs ! i \<noteq> []"
    and j: "j < length labs" "labs ! j = labs ! i @ [c]" "j \<notin> S"
    and S: "\<And>k. k < length labs \<Longrightarrow> length (labs ! k) \<le> length (labs ! i) \<Longrightarrow> k \<in> S"
  shows "ac_link (ac_at own nodes labs S) i (c, j) = Some (ac_at own nodes labs (insert j S))"
proof -
  let ?P = "set labs" and ?A = "ac_at own nodes labs S"
  note D = ac_trieD [OF t]
  have nil: "[] \<in> ?P" using D(5) by (simp add: prefix_closed_def)
  define r where "r = lsl ?P (tl (labs ! i))"
  have r: "r \<in> ?P" "length r < length (labs ! i)"
    using nil length_lsl_tl [OF i(2), of ?P] by (simp_all add: r_def)
  define f where "f = lsl ?P (tl (labs ! j))"
  have f: "f \<in> ?P" "length f \<le> length (labs ! i)"
    using nil length_lsl [of ?P "tl (labs ! j)"] j(2) by (auto simp: f_def)
  note fi = ac_index [OF f(1)]
  have fS: "ac_index labs f \<in> S" using S fi f(2) by simp
  have fail: "nd_fail (?A ! i) = ac_index labs r"
    using i S [OF i(1)] by (simp add: ac_at_def ac_final_def r_def)
  have "ac_delta ?A c (ac_index labs r) = Some (ac_index labs (lsl ?P (r @ [c])))"
    using ac_delta_at [OF t r(1)] S r(2) by fastforce
  also have "lsl ?P (r @ [c]) = f"
    using i(2) j(2) by (cases "labs ! i") (simp_all add: r_def f_def lsl_snoc_lsl [OF D(5)])
  finally have delta: "ac_delta ?A c (nd_fail (?A ! i)) = Some (ac_index labs f)"
    by (simp add: fail)
  have out: "nd_outputs (?A ! ac_index labs f) = suffix_outputs own (tl (labs ! j))"
    using fi fS suffix_outputs_lsl [of own ?P, OF D(6)]
    by (simp add: ac_at_def ac_final_def f_def)
  have raw: "?A ! j = nodes ! j" using j by (simp add: ac_at_def)
  have "labs ! j \<noteq> []" using j(2) by simp
  then have "ac_final own nodes labs j = (nodes ! j)\<lparr>nd_fail := ac_index labs f,
      nd_outputs := nd_outputs (nodes ! j) @ suffix_outputs own (tl (labs ! j))\<rparr>"
    using D(8) [OF j(1)] by (cases "labs ! j") (simp_all add: ac_final_def f_def)
  moreover have "?A[j := ac_final own nodes labs j] = ac_at own nodes labs (insert j S)"
    using j(1) by (intro nth_equalityI) (auto simp: ac_at_def nth_list_update)
  ultimately show ?thesis
    using delta i j fi out raw by (simp add: ac_link_def ac_at_idx)
qed


lemma ac_links_at:
  assumes t: "ac_trie own nodes labs" and i: "i < length labs" "labs ! i \<noteq> []"
    and S: "\<And>k. k < length labs \<Longrightarrow> length (labs ! k) \<le> length (labs ! i) \<Longrightarrow> k \<in> S"
    and ts: "distinct (map snd ts)"
      "\<And>c j. (c, j) \<in> set ts \<Longrightarrow> j < length labs \<and> labs ! j = labs ! i @ [c] \<and> j \<notin> S"
  shows "ac_links (ac_at own nodes labs S) queue i ts
    = Some (ac_at own nodes labs (S \<union> snd ` set ts), queue @ map snd ts)"
  using S ts
proof (induction ts arbitrary: S queue)
  case (Cons ct ts)
  obtain c j where ct: "ct = (c, j)" by (cases ct)
  have "ac_link (ac_at own nodes labs S) i ct = Some (ac_at own nodes labs (insert j S))"
    unfolding ct using Cons.prems(3) [of c j]
    by (intro ac_link_at [OF t i]) (auto simp: ct Cons.prems(1))
  moreover have "ac_links (ac_at own nodes labs (insert j S)) (queue @ [j]) i ts
      = Some (ac_at own nodes labs (insert j S \<union> snd ` set ts), (queue @ [j]) @ map snd ts)"
    using Cons.prems by (intro Cons.IH) (force simp: ct)+
  ultimately show ?case by (simp add: ct insert_commute)
qed simp

section \<open>The breadth-first walk\<close>

text \<open>The nodes of a level, and the nodes linked when the walk has popped all of level \<open>l\<close>
  except the nodes of \<open>A\<close>.\<close>

definition ac_level :: "'c list list \<Rightarrow> nat \<Rightarrow> nat set" where
  "ac_level labs l = {j. j < length labs \<and> length (labs ! j) = l}"

definition ac_pending :: "'c list list \<Rightarrow> nat \<Rightarrow> nat set \<Rightarrow> nat set" where
  "ac_pending labs l A = {j \<in> ac_level labs (Suc l). butlast (labs ! j) \<notin> (!) labs ` A}"

definition ac_linked :: "'c list list \<Rightarrow> nat \<Rightarrow> nat set \<Rightarrow> nat set" where
  "ac_linked labs l A = {j. j < length labs \<and> length (labs ! j) \<le> l} \<union> ac_pending labs l A"

lemma ac_children_set:
  assumes "ac_trie own nodes labs" "i < length labs"
  shows "snd ` set (nd_next (nodes ! i))
    = {j. j < length labs \<and> labs ! j \<noteq> [] \<and> butlast (labs ! j) = labs ! i}"
proof -
  have "j \<in> snd ` set (nd_next (nodes ! i)) \<longleftrightarrow> (\<exists>c. (c, j) \<in> set (nd_next (nodes ! i)))" for j
    by force
  also have "\<dots> j \<longleftrightarrow> j < length labs \<and> (\<exists>c. labs ! j = labs ! i @ [c])" for j
    using ac_trieD(10) [OF assms] by auto
  also have "\<dots> j \<longleftrightarrow> j < length labs \<and> labs ! j \<noteq> [] \<and> butlast (labs ! j) = labs ! i" for j
    by (metis append_butlast_last_id butlast_snoc snoc_eq_iff_butlast)
  finally show ?thesis by blast
qed

lemma ac_children_distinct:
  assumes "ac_trie own nodes labs" "i < length labs"
  shows "distinct (map snd (nd_next (nodes ! i)))"
proof -
  have "distinct (nd_next (nodes ! i))"
    using ac_trieD(9) [OF assms] by (simp add: distinct_map)
  moreover have "inj_on snd (set (nd_next (nodes ! i)))"
  proof (rule inj_onI)
    fix x y assume "x \<in> set (nd_next (nodes ! i))" "y \<in> set (nd_next (nodes ! i))" "snd x = snd y"
    then have "labs ! i @ [fst x] = labs ! i @ [fst y]"
      using ac_trieD(10) [OF assms, of "fst x" "snd x"] ac_trieD(10) [OF assms, of "fst y" "snd y"]
      by (metis prod.collapse)
    with \<open>snd x = snd y\<close> show "x = y" by (simp add: prod_eq_iff)
  qed
  ultimately show ?thesis by (simp add: distinct_map)
qed

lemma ac_pending_pop:
  assumes t: "ac_trie own nodes labs" and i: "i \<in> ac_level labs l" "i \<notin> A" "A \<subseteq> ac_level labs l"
  shows "ac_pending labs l A
      = ac_pending labs l (insert i A) \<union> snd ` set (nd_next (nodes ! i))"
    "ac_pending labs l (insert i A) \<inter> snd ` set (nd_next (nodes ! i)) = {}"
proof -
  note D = ac_trieD [OF t]
  have il: "i < length labs" using i by (simp add: ac_level_def)
  have li: "length (labs ! i) = l" using i(1) by (simp add: ac_level_def)
  have "labs ! k \<noteq> labs ! i" if "k \<in> A" for k
  proof
    assume eq: "labs ! k = labs ! i"
    have "k < length labs" using i(3) that by (auto simp: ac_level_def)
    then have "i = k" using eq il nth_eq_iff_index_eq [OF D(2)] by metis
    then show False using that i(2) by simp
  qed
  moreover have "snd ` set (nd_next (nodes ! i))
      = {j \<in> ac_level labs (Suc l). butlast (labs ! j) = labs ! i}" (is "?C = _")
  proof -
    have "labs ! j \<noteq> [] \<and> butlast (labs ! j) = labs ! i
        \<longleftrightarrow> length (labs ! j) = Suc l \<and> butlast (labs ! j) = labs ! i" for j
      unfolding li [symmetric] by (cases "labs ! j" rule: rev_cases) auto
    then show ?thesis
      unfolding ac_children_set [OF t il] by (auto simp: ac_level_def)
  qed
  ultimately show "ac_pending labs l A = ac_pending labs l (insert i A) \<union> ?C"
    "ac_pending labs l (insert i A) \<inter> ?C = {}"
    by (auto simp: ac_pending_def)
qed

lemma perm_facts:
  assumes "\<And>xs. mset (iter xs) = mset xs"
  shows "set (iter xs) = set xs" "distinct (map snd (iter xs)) = distinct (map snd xs)"
proof -
  show "set (iter xs) = set xs" using assms by (rule mset_eq_setD)
  have "mset (map snd (iter xs)) = mset (map snd xs)" using assms by simp
  then show "distinct (map snd (iter xs)) = distinct (map snd xs)"
    by (rule mset_eq_imp_distinct_iff)
qed

text \<open>Popping one node, then one level, then all of them.\<close>

lemma ac_bfs_pop:
  assumes t: "ac_trie own nodes labs" and iter: "\<And>xs. mset (iter xs) = mset xs"
    and A: "set (i # as) \<subseteq> ac_level labs l" "distinct (i # as)" and l: "0 < l"
    and B: "set bs = ac_pending labs l (set (i # as))" "distinct bs"
  shows "\<exists>bs'. ac_bfs iter (ac_at own nodes labs (ac_linked labs l (set (i # as)))) ((i # as) @ bs)
      = ac_bfs iter (ac_at own nodes labs (ac_linked labs l (set as))) (as @ bs')
    \<and> set bs' = ac_pending labs l (set as) \<and> distinct bs'"
proof -
  let ?S = "ac_linked labs l (set (i # as))" and ?ts = "iter (nd_next (nodes ! i))"
  note D = ac_trieD [OF t]
  have il: "i < length labs" and li: "length (labs ! i) = l"
    using A by (simp_all add: ac_level_def)
  note pop = ac_pending_pop [OF t, of i l "set as"]
  have fresh: "j \<notin> ?S" if "(c, j) \<in> set ?ts" for c j
  proof -
    have "j \<in> snd ` set (nd_next (nodes ! i))" using that perm_facts(1) [OF iter] by force
    moreover have "length (labs ! j) = Suc l"
      using that D(10) [OF il, of c j] li perm_facts(1) [OF iter] by auto
    ultimately show ?thesis using pop(2) A by (auto simp: ac_linked_def)
  qed
  have "ac_links (ac_at own nodes labs ?S) (as @ bs) i ?ts
      = Some (ac_at own nodes labs (?S \<union> snd ` set ?ts), (as @ bs) @ map snd ?ts)"
  proof (rule ac_links_at [OF t il])
    show "labs ! i \<noteq> []" using li l by auto
    show "k \<in> ?S" if "k < length labs" "length (labs ! k) \<le> length (labs ! i)" for k
      using that li by (simp add: ac_linked_def)
    show "distinct (map snd ?ts)"
      using ac_children_distinct [OF t il] perm_facts(2) [OF iter] by simp
    show "j < length labs \<and> labs ! j = labs ! i @ [c] \<and> j \<notin> ?S" if "(c, j) \<in> set ?ts" for c j
      using that fresh D(10) [OF il, of c j] perm_facts(1) [OF iter] by auto
  qed
  moreover have "?S \<union> snd ` set ?ts = ac_linked labs l (set as)"
    using pop(1) A perm_facts(1) [OF iter] by (auto simp: ac_linked_def)
  ultimately have step: "ac_bfs iter (ac_at own nodes labs ?S) ((i # as) @ bs)
      = ac_bfs iter (ac_at own nodes labs (ac_linked labs l (set as))) (as @ bs @ map snd ?ts)"
    using il by (subst ac_bfs.simps) (simp add: ac_at_idx)
  moreover have "set (bs @ map snd ?ts) = ac_pending labs l (set as)"
    using pop(1) A B perm_facts(1) [OF iter] by auto
  moreover have "distinct (bs @ map snd ?ts)"
    using pop(2) A B ac_children_distinct [OF t il] perm_facts [OF iter] by auto
  ultimately show ?thesis by blast
qed

lemma ac_bfs_level:
  assumes t: "ac_trie own nodes labs" and iter: "\<And>xs. mset (iter xs) = mset xs" and l: "0 < l"
    and A: "set as \<subseteq> ac_level labs l" "distinct as"
    and B: "set bs = ac_pending labs l (set as)" "distinct bs"
  shows "\<exists>bs'. ac_bfs iter (ac_at own nodes labs (ac_linked labs l (set as))) (as @ bs)
      = ac_bfs iter (ac_at own nodes labs (ac_linked labs l {})) bs'
    \<and> set bs' = ac_level labs (Suc l) \<and> distinct bs'"
  using A B
proof (induction as arbitrary: bs)
  case Nil
  then show ?case by (auto simp: ac_pending_def intro!: exI [of _ bs])
next
  case (Cons i as)
  from ac_bfs_pop [OF t iter Cons.prems(1,2) l Cons.prems(3,4)] obtain bs1 where
    1: "ac_bfs iter (ac_at own nodes labs (ac_linked labs l (set (i # as)))) ((i # as) @ bs)
      = ac_bfs iter (ac_at own nodes labs (ac_linked labs l (set as))) (as @ bs1)"
      "set bs1 = ac_pending labs l (set as)" "distinct bs1" by blast
  from Cons.IH [OF _ _ 1(2,3)] Cons.prems 1(1) show ?case by auto
qed


text \<open>Levels have no gaps: below a node of a deeper level there is one of every level.\<close>

lemma ac_level_gap:
  assumes t: "ac_trie own nodes labs" and "j < length labs" "l \<le> length (labs ! j)"
  shows "ac_level labs l \<noteq> {}"
proof -
  have "take l (labs ! j) \<in> set labs"
    using assms(2,3)
  proof (induction "length (labs ! j) - l" arbitrary: l)
    case 0
    then show ?case by simp
  next
    case (Suc d)
    then have "take (Suc l) (labs ! j) \<in> set labs" by simp
    moreover have "take (Suc l) (labs ! j) = take l (labs ! j) @ [labs ! j ! l]"
      using Suc.hyps(2) by (simp add: take_Suc_conv_app_nth)
    ultimately show ?case using ac_trieD(5) [OF t] by (metis prefix_closed_def)
  qed
  then obtain k where "k < length labs" "labs ! k = take l (labs ! j)"
    by (auto simp: in_set_conv_nth)
  then have "k \<in> ac_level labs l" using assms(3) by (simp add: ac_level_def)
  then show ?thesis by blast
qed

lemma ac_bfs_from_level:
  assumes t: "ac_trie own nodes labs" and iter: "\<And>xs. mset (iter xs) = mset xs" and l: "0 < l"
    and A: "set as = ac_level labs l" "distinct as"
  shows "ac_bfs iter (ac_at own nodes labs {j. j < length labs \<and> length (labs ! j) \<le> l}) as
    = Some (ac_at own nodes labs {..<length labs})"
  using l A
proof (induction "card {j. j < length labs \<and> l \<le> length (labs ! j)}" arbitrary: l as
    rule: less_induct)
  case less
  let ?upto = "\<lambda>l. {j. j < length labs \<and> length (labs ! j) \<le> l}"
  have none: "ac_pending labs l (set as) = {}"
  proof -
    show "ac_pending labs l (set as) = {}"
    proof (rule equals0I)
      fix j assume "j \<in> ac_pending labs l (set as)"
      then have j: "j < length labs" "length (labs ! j) = Suc l"
        and no: "butlast (labs ! j) \<notin> (!) labs ` ac_level labs l"
        using less.prems(2) by (auto simp: ac_pending_def ac_level_def)
      obtain q c where qc: "labs ! j = q @ [c]" using j(2) by (cases "labs ! j" rule: rev_cases) auto
      then have "q \<in> set labs"
        using j(1) ac_trieD(5) [OF t] nth_mem [OF j(1)] by (auto simp: prefix_closed_def)
      then show False using no qc j(2) by (auto simp: ac_level_def in_set_conv_nth)
    qed
  qed
  then have start: "ac_linked labs l (set as) = ?upto l" by (simp add: ac_linked_def)
  show ?case
  proof (cases as)
    case Nil
    have "length (labs ! j) \<le> l" if "j < length labs" for j
      using ac_level_gap [OF t that, of l] Nil less.prems(2) by (metis empty_set linorder_le_cases)
    then have "?upto l = {..<length labs}" by auto
    then show ?thesis using Nil by (subst ac_bfs.simps) simp
  next
    case (Cons i rest)
    have B: "set [] = ac_pending labs l (set as)"
      using none by simp
    from ac_bfs_level [where as = as and bs = "[]", OF t iter less.prems(1) _ less.prems(3) B]
    obtain bs where bs: "ac_bfs iter (ac_at own nodes labs (ac_linked labs l (set as))) (as @ [])
      = ac_bfs iter (ac_at own nodes labs (ac_linked labs l {})) bs"
      "set bs = ac_level labs (Suc l)" "distinct bs" using less.prems(2) by auto
    have "i \<in> ac_level labs l" using Cons less.prems(2) by (metis list.set_intros(1))
    then have "card {j. j < length labs \<and> Suc l \<le> length (labs ! j)}
        < card {j. j < length labs \<and> l \<le> length (labs ! j)}"
      by (intro psubset_card_mono psubsetI subsetI notI)
         (simp, simp add: Suc_le_eq, simp add: ac_level_def set_eq_iff, metis not_less_eq_eq order_refl)
    from less.hyps [OF this _ bs(2,3)]
    have "ac_bfs iter (ac_at own nodes labs (?upto (Suc l))) bs
      = Some (ac_at own nodes labs {..<length labs})" by simp
    moreover have "ac_linked labs l {} = ?upto (Suc l)"
      by (auto simp: ac_linked_def ac_pending_def ac_level_def)
    ultimately show ?thesis using bs(1) start by simp
  qed
qed


lemma ac_new_at:
  assumes iter: "\<And>xs. mset (iter xs) = mset xs" and pats: "[] \<notin> set pats"
  shows "\<exists>nodes labs. ac_trie (ac_own pats) nodes labs
    \<and> ac_new iter pats = Some (ac_at (ac_own pats) nodes labs {..<length labs})"
proof -
  from ac_insert_all_new [of pats] obtain nodes labs where
    ins: "ac_insert_all 0 pats [ac_empty_node] = Some nodes" and t: "ac_trie (ac_own pats) nodes labs"
    by blast
  note D = ac_trieD [OF t]
  let ?own = "ac_own pats" and ?queue = "map snd (iter (nd_next (nodes ! 0)))"
  note own_nil = ac_own_nil [OF pats]
  have short: "ac_final ?own nodes labs j = nodes ! j"
    if j: "j < length labs" "length (labs ! j) \<le> 1" for j
  proof -
    have "lsl (set labs) (tl (labs ! j)) = []" using j(2) by (cases "labs ! j") auto
    moreover have "ac_index labs [] = 0"
      using ac_index_iff [OF D(2) _ D(3), of "[]"] D(4,5) by (auto simp: prefix_closed_def)
    moreover have "suffix_outputs ?own (labs ! j) = ?own (labs ! j)"
      using j(2) own_nil by (cases "labs ! j") auto
    ultimately show ?thesis using D(7,8) [OF j(1)] by (simp add: ac_final_def)
  qed
  have raw: "nodes = ac_at ?own nodes labs {j. j < length labs \<and> length (labs ! j) \<le> 1}"
    using D(1) short by (intro nth_equalityI) (auto simp: ac_at_def)
  have "set ?queue = ac_level labs 1"
  proof -
    have "labs ! j \<noteq> [] \<and> butlast (labs ! j) = [] \<longleftrightarrow> length (labs ! j) = 1" for j
      by (cases "labs ! j" rule: rev_cases) auto
    then show ?thesis
      using ac_children_set [OF t D(3)] D(4) perm_facts(1) [of iter, OF iter]
      by (auto simp: ac_level_def)
  qed
  moreover have "distinct ?queue"
    using ac_children_distinct [OF t D(3)] perm_facts(2) [of iter, OF iter] by simp
  ultimately have "ac_bfs iter nodes ?queue = Some (ac_at ?own nodes labs {..<length labs})"
    using ac_bfs_from_level [OF t iter, of 1 ?queue] raw by simp
  then show ?thesis
    using ins t D(1,3) by (auto simp: ac_new_def idx_def)
qed

section \<open>The scan reports what the three loops report\<close>

definition keep_all :: "nat \<Rightarrow> nat \<Rightarrow> nat \<Rightarrow> bool exec" where
  "keep_all k s e = Some True"

definition naive_filter :: "(nat \<Rightarrow> nat \<Rightarrow> nat \<Rightarrow> bool) \<Rightarrow> (nat \<times> nat \<times> nat) list \<Rightarrow> (nat \<times> nat \<times> nat) list"
where
  "naive_filter ok ms = filter (\<lambda>(k, s, e). ok k s e) ms"

lemma naive_filter_simps [simp]:
  "naive_filter ok [] = []"
  "naive_filter ok (xs @ ys) = naive_filter ok xs @ naive_filter ok ys"
  by (simp_all add: naive_filter_def)

lemma ac_report_filter:
  assumes "\<And>k. k \<in> set ks \<Longrightarrow> k < length pats \<and> length (pats ! k) \<le> e
      \<and> keep k (e - length (pats ! k)) e = Some (ok k (e - length (pats ! k)) e)"
  shows "ac_report keep pats e ks
    = Some (naive_filter ok (map (\<lambda>k. (k, e - length (pats ! k), e)) ks))"
  using assms
proof (induction ks)
  case (Cons k ks)
  from Cons.IH [OF Cons.prems] Cons.prems [of k] show ?case
    by (simp add: idx_def naive_filter_def not_less)
qed (simp add: naive_filter_def)

text \<open>The outputs of a node, with start and end, are the inner two loops.\<close>

lemma suffix_outputs_range:
  assumes "[] \<notin> set pats"
  shows "suffix_outputs (ac_own pats) w
    = concat (map (\<lambda>d. ac_own pats (drop d w)) [0..<length w])"
proof (induction w)
  case Nil
  then show ?case using ac_own_nil [OF assms] by simp
next
  case (Cons x w)
  have "map (\<lambda>d. ac_own pats (drop d (x # w))) [0..<length (x # w)]
    = ac_own pats (x # w) # map (\<lambda>d. ac_own pats (drop d w)) [0..<length w]"
    by (simp add: upt_conv_Cons map_Suc_upt [symmetric] del: upt_Suc)
  with Cons show ?case by simp
qed

lemma naive_at_outputs:
  assumes "[] \<notin> set pats" "e \<le> length xs"
  shows "naive_at pats xs e
    = map (\<lambda>k. (k, e - length (pats ! k), e)) (suffix_outputs (ac_own pats) (take e xs))"
proof -
  have "map (\<lambda>k. (k, d, e)) (ac_own pats (take (e - d) (drop d xs)))
      = map (\<lambda>k. (k, e - length (pats ! k), e)) (ac_own pats (drop d (take e xs)))"
    if "d < e" for d
    using that assms(2) by (auto simp: ac_own_def drop_take)
  then have eq: "map (\<lambda>d. map (\<lambda>k. (k, d, e)) (ac_own pats (take (e - d) (drop d xs)))) [0..<e]
      = map (\<lambda>d. map (\<lambda>k. (k, e - length (pats ! k), e)) (ac_own pats (drop d (take e xs)))) [0..<e]"
    by (simp only: map_eq_conv set_upt atLeastLessThan_iff Ball_def) blast
  show ?thesis
    unfolding naive_at_def eq suffix_outputs_range [OF assms(1)] map_concat map_map comp_def
    using assms(2) by (simp add: min_def)
qed


lemma ac_scan_at:
  assumes t: "ac_trie (ac_own pats) nodes labs" and pats: "[] \<notin> set pats"
    and keep: "\<And>k s e. k < length pats \<Longrightarrow> s + length (pats ! k) = e \<Longrightarrow> e \<le> length txs
      \<Longrightarrow> take (length (pats ! k)) (drop s txs) = pats ! k \<Longrightarrow> keep k s e = Some (ok k s e)"
    and txs: "txs = w @ cs"
  shows "ac_scan (ac_at (ac_own pats) nodes labs {..<length labs}) keep pats
      (ac_index labs (lsl (set labs) w)) (length w) cs
    = Some (naive_filter ok (concat (map (naive_at pats txs) [Suc (length w)..<Suc (length txs)])))"
  using txs
proof (induction cs arbitrary: w)
  case Nil
  then show ?case by simp
next
  case (Cons c cs)
  let ?P = "set labs" and ?A = "ac_at (ac_own pats) nodes labs {..<length labs}"
  let ?e = "Suc (length w)" and ?q = "lsl (set labs) (w @ [c])"
  note D = ac_trieD [OF t]
  have nil: "[] \<in> ?P" using D(5) by (simp add: prefix_closed_def)
  have pre: "take ?e txs = w @ [c]" "?e \<le> length txs" using Cons.prems by simp_all
  have delta: "ac_delta ?A c (ac_index labs (lsl ?P w)) = Some (ac_index labs ?q)"
    using ac_delta_at [OF t lsl_in [OF nil], of w "{..<length labs}" c] lsl_snoc_lsl [OF D(5)]
    by simp
  note i = ac_index [OF lsl_in [OF nil, of "w @ [c]"]]
  have out: "nd_outputs (?A ! ac_index labs ?q) = suffix_outputs (ac_own pats) (w @ [c])"
    using i suffix_outputs_lsl [of "ac_own pats" ?P, OF D(6)]
    by (simp add: ac_at_def ac_final_def)
  have "ac_report keep pats ?e (suffix_outputs (ac_own pats) (w @ [c]))
    = Some (naive_filter ok (naive_at pats txs ?e))"
    unfolding naive_at_outputs [OF pats pre(2)] pre(1)
  proof (rule ac_report_filter)
    fix k assume "k \<in> set (suffix_outputs (ac_own pats) (w @ [c]))"
    then have "\<exists>d \<in> {0..<?e}. k \<in> set (ac_own pats (drop d (w @ [c])))"
      unfolding suffix_outputs_range [OF pats] by (simp del: drop_append upt_Suc)
    then obtain d where d: "d < ?e" "k < length pats" "pats ! k = drop d (w @ [c])"
      unfolding in_ac_own by (meson atLeastLessThan_iff)
    then have len: "length (pats ! k) = ?e - d" by simp
    have "take (?e - d) (drop d txs) = pats ! k"
      unfolding d(3) pre(1) [symmetric] by (simp only: drop_take)
    then have "keep k d ?e = Some (ok k d ?e)"
      using keep [OF d(2), of d ?e] d(1) pre(2) len by simp
    with d(1,2) len show "k < length pats \<and> length (pats ! k) \<le> ?e
        \<and> keep k (?e - length (pats ! k)) ?e = Some (ok k (?e - length (pats ! k)) ?e)"
      by simp
  qed
  moreover have "ac_scan ?A keep pats (ac_index labs ?q) ?e cs
    = Some (naive_filter ok (concat (map (naive_at pats txs) [Suc ?e..<Suc (length txs)])))"
    using Cons.IH [of "w @ [c]"] Cons.prems by simp
  moreover have "[?e..<Suc (length txs)] = ?e # [Suc ?e..<Suc (length txs)]"
    using pre(2) by (simp add: upt_conv_Cons)
  ultimately show ?case
    using delta out i by (simp add: ac_at_idx del: upt_Suc)
qed

text \<open>Construction and scan return, whatever order the hash maps are iterated in, and the
  candidates are those of the three loops that pass the test, in the loops' order.\<close>

lemma ac_find_naive:
  assumes "\<And>xs. mset (iter xs) = mset xs" and "[] \<notin> set pats"
    and "\<And>k s e. k < length pats \<Longrightarrow> s + length (pats ! k) = e \<Longrightarrow> e \<le> length txs
      \<Longrightarrow> take (length (pats ! k)) (drop s txs) = pats ! k \<Longrightarrow> keep k s e = Some (ok k s e)"
  shows "Option.bind (ac_new iter pats) (\<lambda>nodes. ac_find keep pats nodes txs)
    = Some (naive_filter ok (naive_find pats txs))"
proof -
  from ac_new_at [OF assms(1,2)] obtain nodes labs where
    t: "ac_trie (ac_own pats) nodes labs"
    and new: "ac_new iter pats = Some (ac_at (ac_own pats) nodes labs {..<length labs})" by blast
  note D = ac_trieD [OF t]
  have "ac_index labs [] = 0"
    using ac_index_iff [OF D(2) _ D(3), of "[]"] D(4,5) by (auto simp: prefix_closed_def)
  then have "ac_scan (ac_at (ac_own pats) nodes labs {..<length labs}) keep pats 0 0 txs
      = Some (naive_filter ok (concat (map (naive_at pats txs) [Suc 0..<Suc (length txs)])))"
    using ac_scan_at [where w = "[]" and cs = txs and txs = txs, OF t assms(2,3)]
    by (simp del: upt_Suc)
  then show ?thesis
    unfolding new ac_find_def naive_find_def by simp
qed

lemma ac_new_total:
  "(\<And>xs. mset (iter xs) = mset xs) \<Longrightarrow> [] \<notin> set pats \<Longrightarrow> \<exists>nodes. ac_new iter pats = Some nodes"
  using ac_new_at by blast

lemma ac_find_all:
  assumes "\<And>xs. mset (iter xs) = mset xs" and "[] \<notin> set pats"
  shows "Option.bind (ac_new iter pats) (\<lambda>nodes. ac_find keep_all pats nodes txs)
    = Some (naive_find pats txs)"
  using ac_find_naive [OF assms, where keep = keep_all and ok = "\<lambda>_ _ _. True"]
  by (simp add: keep_all_def naive_filter_def)

lemma naive_find_iff:
  "(k, s, e) \<in> set (naive_find pats txs) \<longleftrightarrow>
     s < e \<and> e \<le> length txs \<and> k < length pats \<and> pats ! k = take (e - s) (drop s txs)"
proof -
  have "(k, s, e) \<in> set (naive_at pats txs e')
      \<longleftrightarrow> e' = e \<and> s < e \<and> k < length pats \<and> pats ! k = take (e - s) (drop s txs)" for e'
    by (auto simp: naive_at_def in_ac_own image_iff)
  then show ?thesis by (auto simp: naive_find_def less_Suc_eq_le simp del: upt_Suc)
qed


text \<open>C22: for patterns none of which is empty, constructing the automaton returns (no index out
  of range, no endless fallback loop), whatever order the hash maps are iterated in, and
  scanning any input with it reports what three nested loops over end, start and pattern
  report, in that order: every occurrence of every pattern, longest first at each end.\<close>

theorem aho_corasick_finds_all:
  assumes "\<And>xs. mset (iter xs) = mset xs" and "[] \<notin> set pats"
  shows "\<exists>nodes. ac_new iter pats = Some nodes
    \<and> (\<forall>txs. ac_find keep_all pats nodes txs = Some (naive_find pats txs))"
proof -
  from ac_new_total [where iter = iter, OF assms] obtain nodes where "ac_new iter pats = Some nodes"
    by blast
  with ac_find_all [where iter = iter, OF assms] show ?thesis by simp
qed

theorem aho_corasick_finds_all_witness:
  "\<exists>nodes. ac_new rev [[1, 2], [2 :: nat], [1, 2, 3]] = Some nodes
    \<and> (\<forall>txs. ac_find keep_all [[1, 2], [2], [1, 2, 3]] nodes txs
        = Some (naive_find [[1, 2], [2], [1, 2, 3]] txs))"
  by (rule aho_corasick_finds_all) simp_all

lemma naive_find_example:
  "naive_find [[1, 2], [2 :: nat], [1, 2, 3]] [1, 2, 3] = [(0, 0, 2), (1, 1, 2), (2, 0, 3)]"
  by code_simp

end
