(* ===== verification/Text_Lexicon.thy ===== *)
theory Text_Lexicon
  imports Text_Normalize Text_Automaton
begin

text \<open>
  The lexicon of \<open>packages/text-policy/src/lexicon\<close>: \<open>types.rs\<close>, the pattern types and
  the boundary test of \<open>automaton.rs\<close>, \<open>builder.rs\<close>, \<open>matcher.rs\<close> and \<open>url.rs\<close>. A
  dictionary is compiled into four automata over the normalized text, its leet-compact form,
  its tokens and the tokens of the URLs in it; matching collects the candidates of all four,
  sorts them and drops repetitions.

  \<open>matches_spec\<close> says which matches a text has without mentioning automata: for every
  compiled term, surface and mode the occurrences of the surface in the view of that mode.
  The theory shows that building and matching never panic and return exactly these.
\<close>

section \<open>Types\<close>

datatype text_category = ExplicitAct | AdultPlatform | CommercialAdult | Nudity | AnatomyAmbiguous
  | EducationException | MedicalException | SafetyException

datatype severity = Low | Medium | High

datatype match_mode = ExactPhrase | TokenSequence | Compact | UrlTokenSequence

record dictionary_term =
  dt_phrase :: ustr
  dt_category :: text_category
  dt_severity :: severity
  dt_match_modes :: "match_mode list"
  dt_surfaces :: "ustr list"

definition dictionary_term_new :: "ustr \<Rightarrow> text_category \<Rightarrow> severity \<Rightarrow> match_mode list \<Rightarrow> dictionary_term"
where
  "dictionary_term_new phrase cat sev modes = \<lparr>dt_phrase = phrase, dt_category = cat,
     dt_severity = sev, dt_match_modes = modes, dt_surfaces = []\<rparr>"

definition with_surfaces :: "dictionary_term \<Rightarrow> ustr list \<Rightarrow> dictionary_term" where
  "with_surfaces t ss = t\<lparr>dt_surfaces := ss\<rparr>"

record dictionary =
  di_name :: ustr
  di_terms :: "dictionary_term list"

record compiled_term =
  ct_dictionary :: ustr
  ct_phrase :: ustr
  ct_category :: text_category
  ct_severity :: severity
  ct_match_modes :: "match_mode list"
  ct_surfaces :: "ustr list"

datatype match_span = Bytes nat nat | Tokens nat nat

record lexicon_match =
  lm_term_id :: nat
  lm_dictionary :: ustr
  lm_phrase :: ustr
  lm_category :: text_category
  lm_severity :: severity
  lm_mode :: match_mode
  lm_surface :: ustr
  lm_span :: match_span

section \<open>The two automata\<close>

record byte_pattern =
  bp_term_id :: nat
  bp_mode :: match_mode
  bp_surface :: ustr
  bp_bytes :: "nat list"
  bp_boundary :: bool

record token_pattern =
  tp_term_id :: nat
  tp_mode :: match_mode
  tp_surface :: ustr
  tp_tokens :: "ustr list"

record byte_ac =
  ba_patterns :: "byte_pattern list"
  ba_nodes :: "nat ac_node list"

record token_ac =
  ta_patterns :: "token_pattern list"
  ta_nodes :: "ustr ac_node list"

text \<open>The iteration orders of the two kinds of hash map.\<close>

record hash_order =
  ho_byte :: "(nat \<times> nat) list \<Rightarrow> (nat \<times> nat) list"
  ho_token :: "(ustr \<times> nat) list \<Rightarrow> (ustr \<times> nat) list"

definition hash_order_ok :: "hash_order \<Rightarrow> bool" where
  "hash_order_ok h \<longleftrightarrow> (\<forall>xs. mset (ho_byte h xs) = mset xs) \<and> (\<forall>xs. mset (ho_token h xs) = mset xs)"

text \<open>\<open>text[..start]\<close> and \<open>text[end..]\<close> panic off a character boundary.\<close>

definition has_token_boundaries :: "unicode \<Rightarrow> ustr \<Rightarrow> nat \<Rightarrow> nat \<Rightarrow> bool exec" where
  "has_token_boundaries u txt s e = do {
     (before, _) \<leftarrow> split_bytes txt s;
     (_, after) \<leftarrow> split_bytes txt e;
     Some ((before = [] \<or> \<not> u_alnum u (last before)) \<and> (after = [] \<or> \<not> u_alnum u (hd after)))
   }"

definition byte_ac_new :: "hash_order \<Rightarrow> byte_pattern list \<Rightarrow> byte_ac exec" where
  "byte_ac_new h pats = do {
     nodes \<leftarrow> ac_new (ho_byte h) (map bp_bytes pats);
     Some \<lparr>ba_patterns = pats, ba_nodes = nodes\<rparr>
   }"

definition byte_keep :: "unicode \<Rightarrow> byte_pattern list \<Rightarrow> ustr \<Rightarrow> nat \<Rightarrow> nat \<Rightarrow> nat \<Rightarrow> bool exec" where
  "byte_keep u pats txt k s e = do {
     p \<leftarrow> idx pats k;
     (if bp_boundary p then has_token_boundaries u txt s e else Some True)
   }"

definition byte_find_iter :: "unicode \<Rightarrow> byte_ac \<Rightarrow> ustr \<Rightarrow> (byte_pattern \<times> nat \<times> nat) list exec" where
  "byte_find_iter u ac txt = do {
     ms \<leftarrow> ac_find (byte_keep u (ba_patterns ac) txt) (map bp_bytes (ba_patterns ac)) (ba_nodes ac)
       (utf8 txt);
     Some (map (\<lambda>(k, s, e). (ba_patterns ac ! k, s, e)) ms)
   }"

definition token_ac_new :: "hash_order \<Rightarrow> token_pattern list \<Rightarrow> token_ac exec" where
  "token_ac_new h pats = do {
     nodes \<leftarrow> ac_new (ho_token h) (map tp_tokens pats);
     Some \<lparr>ta_patterns = pats, ta_nodes = nodes\<rparr>
   }"

definition token_find_iter :: "token_ac \<Rightarrow> ustr list \<Rightarrow> (token_pattern \<times> nat \<times> nat) list exec" where
  "token_find_iter ac tokens = do {
     ms \<leftarrow> ac_find keep_all (map tp_tokens (ta_patterns ac)) (ta_nodes ac) tokens;
     Some (map (\<lambda>(k, s, e). (ta_patterns ac ! k, s, e)) ms)
   }"

section \<open>URLs in a text\<close>

fun split_once_str :: "ustr \<Rightarrow> ustr \<Rightarrow> (ustr \<times> ustr) option" where
  "split_once_str pat [] = (if pat = [] then Some ([], []) else None)"
| "split_once_str pat (c # cs) =
     (if prefix pat (c # cs) then Some ([], drop (length pat) (c # cs))
      else map_option (\<lambda>(a, b). (c # a, b)) (split_once_str pat cs))"

definition scheme_sep :: ustr where
  "scheme_sep = [0x3A, 0x2F, 0x2F]"

definition looks_url_like :: "unicode \<Rightarrow> ustr \<Rightarrow> bool" where
  "looks_url_like u s \<longleftrightarrow>
     split_once_str scheme_sep s \<noteq> None
     \<or> 0x2F \<in> set s
     \<or> 2 \<le> length (filter (\<lambda>part. list_ex (u_alnum u) part) (split_pred (\<lambda>c. c = 0x2E) s))"

definition url_chunk_tokens :: "unicode \<Rightarrow> ustr \<Rightarrow> ustr list option" where
  "url_chunk_tokens u chunk0 =
     (let chunk = trim_matches
            (\<lambda>c. \<not> u_alnum u c \<and> c \<noteq> 0x2E \<and> c \<noteq> 0x2F \<and> c \<noteq> 0x3A \<and> c \<noteq> 0x2D) chunk0
      in if \<not> looks_url_like u chunk then None
         else
           let without_scheme =
                 (case split_once_str scheme_sep chunk of Some (_, rest) \<Rightarrow> rest | None \<Rightarrow> chunk);
               tokens = map (u_lower u)
                 (filter (\<lambda>t. t \<noteq> []) (split_pred (\<lambda>c. \<not> u_alnum u c) without_scheme))
           in if tokens = [] then None else Some tokens)"

definition url_token_streams :: "unicode \<Rightarrow> ustr \<Rightarrow> ustr list list" where
  "url_token_streams u txt = List.map_filter (url_chunk_tokens u) (unicode_split_whitespace txt)"

section \<open>The builder\<close>

datatype lexicon_build_error =
    EmptyDictionaryName
  | EmptyPhrase ustr
  | EmptyMatchModes ustr ustr
  | EmptySurface ustr ustr

record lexicon_builder =
  lb_language :: language
  lb_dictionaries :: "dictionary list"

definition lexicon_builder_new :: "language \<Rightarrow> lexicon_builder" where
  "lexicon_builder_new l = \<lparr>lb_language = l, lb_dictionaries = []\<rparr>"

definition add_dictionary :: "lexicon_builder \<Rightarrow> dictionary \<Rightarrow> lexicon_builder" where
  "add_dictionary b d = b\<lparr>lb_dictionaries := lb_dictionaries b @ [d]\<rparr>"

record lexicon_matcher =
  lx_language :: language
  lx_terms :: "compiled_term list"
  lx_exact :: byte_ac
  lx_compact :: byte_ac
  lx_token :: token_ac
  lx_url_token :: token_ac

definition dedup_modes :: "match_mode list \<Rightarrow> match_mode list" where
  "dedup_modes modes = foldl (\<lambda>acc m. if m \<in> set acc then acc else acc @ [m]) [] modes"

definition dedup_strings :: "ustr list \<Rightarrow> ustr list" where
  "dedup_strings ss = foldl (\<lambda>acc s. if s \<in> set acc then acc else acc @ [s]) [] ss"

definition surfaces_for_term :: "dictionary_term \<Rightarrow> ustr \<Rightarrow> lexicon_build_error + ustr list" where
  "surfaces_for_term t dict =
     (let surfaces = dt_phrase t # dt_surfaces t
      in if list_ex (\<lambda>s. utrim s = []) surfaces then Inl (EmptySurface dict (dt_phrase t))
         else Inr (dedup_strings surfaces))"

text \<open>The vectors \<open>build\<close> fills.\<close>

record build_state =
  bs_terms :: "compiled_term list"
  bs_exact :: "byte_pattern list"
  bs_compact :: "byte_pattern list"
  bs_token :: "token_pattern list"
  bs_url_token :: "token_pattern list"

definition push_pattern :: "unicode \<Rightarrow> nat \<Rightarrow> normalized_text \<Rightarrow> match_mode \<Rightarrow> build_state \<Rightarrow> build_state"
where
  "push_pattern u tid views mode st =
     (let surface = nt_normalized views; leet = nt_leet_compact views in
      case mode of
        ExactPhrase \<Rightarrow>
          if surface \<noteq> [] then
            st\<lparr>bs_exact := bs_exact st @ [\<lparr>bp_term_id = tid, bp_mode = mode, bp_surface = surface,
                 bp_bytes = utf8 surface, bp_boundary = True\<rparr>]\<rparr>
          else st
      | Compact \<Rightarrow>
          if leet \<noteq> [] then
            st\<lparr>bs_compact := bs_compact st @ [\<lparr>bp_term_id = tid, bp_mode = mode, bp_surface = leet,
                 bp_bytes = utf8 leet, bp_boundary = False\<rparr>]\<rparr>
          else st
      | TokenSequence \<Rightarrow>
          if nt_separator_tokens views \<noteq> [] then
            st\<lparr>bs_token := bs_token st @ [\<lparr>tp_term_id = tid, tp_mode = mode, tp_surface = surface,
                 tp_tokens = nt_separator_tokens views\<rparr>]\<rparr>
          else st
      | UrlTokenSequence \<Rightarrow>
          let tokens = separator_tokens u surface in
          if tokens \<noteq> [] then
            st\<lparr>bs_url_token := bs_url_token st @ [\<lparr>tp_term_id = tid, tp_mode = mode,
                 tp_surface = surface, tp_tokens = tokens\<rparr>]\<rparr>
          else st)"

definition push_surface :: "unicode \<Rightarrow> norm_pipeline \<Rightarrow> nat \<Rightarrow> match_mode list \<Rightarrow> ustr
    \<Rightarrow> build_state \<times> ustr list \<Rightarrow> build_state \<times> ustr list" where
  "push_surface u p tid modes raw acc =
     (case acc of (st, compiled) \<Rightarrow>
        let views = normalize_views u p raw in
        (fold (push_pattern u tid views) (dedup_modes modes) st, compiled @ [nt_normalized views]))"

definition build_term :: "unicode \<Rightarrow> norm_pipeline \<Rightarrow> ustr \<Rightarrow> dictionary_term \<Rightarrow> build_state
    \<Rightarrow> lexicon_build_error + build_state" where
  "build_term u p dict t st =
     (if utrim (dt_phrase t) = [] then Inl (EmptyPhrase dict)
      else if dt_match_modes t = [] then Inl (EmptyMatchModes dict (dt_phrase t))
      else case surfaces_for_term t dict of
        Inl e \<Rightarrow> Inl e
      | Inr raw_surfaces \<Rightarrow>
          let (st', compiled) =
            fold (push_surface u p (length (bs_terms st)) (dt_match_modes t)) raw_surfaces (st, [])
          in Inr (st'\<lparr>bs_terms := bs_terms st' @ [\<lparr>ct_dictionary = dict, ct_phrase = dt_phrase t,
               ct_category = dt_category t, ct_severity = dt_severity t,
               ct_match_modes = dedup_modes (dt_match_modes t),
               ct_surfaces = dedup_strings compiled\<rparr>]\<rparr>))"

fun build_terms :: "unicode \<Rightarrow> norm_pipeline \<Rightarrow> ustr \<Rightarrow> dictionary_term list \<Rightarrow> build_state
    \<Rightarrow> lexicon_build_error + build_state" where
  "build_terms u p dict [] st = Inr st"
| "build_terms u p dict (t # ts) st =
     (case build_term u p dict t st of Inl e \<Rightarrow> Inl e | Inr st' \<Rightarrow> build_terms u p dict ts st')"

fun build_dictionaries :: "unicode \<Rightarrow> norm_pipeline \<Rightarrow> dictionary list \<Rightarrow> build_state
    \<Rightarrow> lexicon_build_error + build_state" where
  "build_dictionaries u p [] st = Inr st"
| "build_dictionaries u p (d # ds) st =
     (if utrim (di_name d) = [] then Inl EmptyDictionaryName
      else case build_terms u p (di_name d) (di_terms d) st of
        Inl e \<Rightarrow> Inl e
      | Inr st' \<Rightarrow> build_dictionaries u p ds st')"

definition build_empty :: build_state where
  "build_empty = \<lparr>bs_terms = [], bs_exact = [], bs_compact = [], bs_token = [], bs_url_token = []\<rparr>"

definition lexicon_build :: "unicode \<Rightarrow> hash_order \<Rightarrow> lexicon_builder
    \<Rightarrow> (lexicon_build_error + lexicon_matcher) exec" where
  "lexicon_build u h b =
     (case build_dictionaries u (for_language u (lb_language b)) (lb_dictionaries b) build_empty of
        Inl e \<Rightarrow> Some (Inl e)
      | Inr st \<Rightarrow> do {
          exact \<leftarrow> byte_ac_new h (bs_exact st);
          cmp \<leftarrow> byte_ac_new h (bs_compact st);
          token \<leftarrow> token_ac_new h (bs_token st);
          url \<leftarrow> token_ac_new h (bs_url_token st);
          Some (Inr \<lparr>lx_language = lb_language b, lx_terms = bs_terms st, lx_exact = exact,
            lx_compact = cmp, lx_token = token, lx_url_token = url\<rparr>)
        })"

section \<open>The matcher\<close>

definition match_from_byte_candidate :: "lexicon_matcher \<Rightarrow> byte_pattern \<times> nat \<times> nat
    \<Rightarrow> lexicon_match exec" where
  "match_from_byte_candidate m cand = (case cand of (p, s, e) \<Rightarrow> do {
     t \<leftarrow> idx (lx_terms m) (bp_term_id p);
     Some \<lparr>lm_term_id = bp_term_id p, lm_dictionary = ct_dictionary t, lm_phrase = ct_phrase t,
       lm_category = ct_category t, lm_severity = ct_severity t, lm_mode = bp_mode p,
       lm_surface = bp_surface p, lm_span = Bytes s e\<rparr>
   })"

definition match_from_token_candidate :: "lexicon_matcher \<Rightarrow> token_pattern \<times> nat \<times> nat
    \<Rightarrow> lexicon_match exec" where
  "match_from_token_candidate m cand = (case cand of (p, s, e) \<Rightarrow> do {
     t \<leftarrow> idx (lx_terms m) (tp_term_id p);
     Some \<lparr>lm_term_id = tp_term_id p, lm_dictionary = ct_dictionary t, lm_phrase = ct_phrase t,
       lm_category = ct_category t, lm_severity = ct_severity t, lm_mode = tp_mode p,
       lm_surface = tp_surface p, lm_span = Tokens s e\<rparr>
   })"

fun span_start :: "match_span \<Rightarrow> nat" where
  "span_start (Bytes s e) = s"
| "span_start (Tokens s e) = s"

fun span_end :: "match_span \<Rightarrow> nat" where
  "span_end (Bytes s e) = e"
| "span_end (Tokens s e) = e"

fun mode_u8 :: "match_mode \<Rightarrow> nat" where
  "mode_u8 ExactPhrase = 0"
| "mode_u8 TokenSequence = 1"
| "mode_u8 Compact = 2"
| "mode_u8 UrlTokenSequence = 3"

text \<open>The sort key is a tuple; lists of one length compare like tuples.\<close>

definition match_key :: "lexicon_match \<Rightarrow> nat list" where
  "match_key m = [lm_term_id m, mode_u8 (lm_mode m), span_start (lm_span m), span_end (lm_span m)]"

definition same_match :: "lexicon_match \<Rightarrow> lexicon_match \<Rightarrow> bool" where
  "same_match a b \<longleftrightarrow> lm_term_id a = lm_term_id b \<and> lm_mode a = lm_mode b
     \<and> lm_surface a = lm_surface b \<and> lm_span a = lm_span b"

text \<open>\<open>Vec::dedup_by\<close>: an element equal to the last one kept is dropped.\<close>

fun dedup_by :: "('a \<Rightarrow> 'a \<Rightarrow> bool) \<Rightarrow> 'a list \<Rightarrow> 'a list" where
  "dedup_by eq [] = []"
| "dedup_by eq [x] = [x]"
| "dedup_by eq (x # y # zs) = (if eq y x then dedup_by eq (x # zs) else x # dedup_by eq (y # zs))"

fun url_candidates :: "token_ac \<Rightarrow> ustr list list \<Rightarrow> (token_pattern \<times> nat \<times> nat) list exec" where
  "url_candidates ac [] = Some []"
| "url_candidates ac (ts # tss) = do {
     here \<leftarrow> token_find_iter ac ts;
     rest \<leftarrow> url_candidates ac tss;
     Some (here @ rest)
   }"

definition matches_normalized :: "unicode \<Rightarrow> lexicon_matcher \<Rightarrow> normalized_text
    \<Rightarrow> lexicon_match list exec" where
  "matches_normalized u m views = do {
     c1 \<leftarrow> byte_find_iter u (lx_exact m) (nt_normalized views);
     m1 \<leftarrow> those (map (match_from_byte_candidate m) c1);
     c2 \<leftarrow> byte_find_iter u (lx_compact m) (nt_leet_compact views);
     m2 \<leftarrow> those (map (match_from_byte_candidate m) c2);
     c3 \<leftarrow> token_find_iter (lx_token m) (nt_separator_tokens views);
     m3 \<leftarrow> those (map (match_from_token_candidate m) c3);
     c4 \<leftarrow> url_candidates (lx_url_token m) (url_token_streams u (nt_raw views));
     m4 \<leftarrow> those (map (match_from_token_candidate m) c4);
     Some (dedup_by same_match (sort_key match_key (m1 @ m2 @ m3 @ m4)))
   }"

definition lexicon_matches :: "unicode \<Rightarrow> lexicon_matcher \<Rightarrow> ustr \<Rightarrow> lexicon_match list exec" where
  "lexicon_matches u m txt =
     matches_normalized u m (normalize_views u (for_language u (lx_language m)) txt)"


section \<open>What a text matches\<close>

text \<open>The compact view of a string in a language.\<close>

definition leet_view :: "unicode \<Rightarrow> language \<Rightarrow> ustr \<Rightarrow> ustr" where
  "leet_view u l s = (if l = English then leet_compact u s else compact_text u s)"

text \<open>\<open>p\<close> occurs in \<open>t\<close> at bytes \<open>s\<close> to \<open>e\<close>; as a phrase, when no alphanumeric
  character stands before or after it.\<close>

definition occurs_at :: "ustr \<Rightarrow> ustr \<Rightarrow> nat \<Rightarrow> nat \<Rightarrow> bool" where
  "occurs_at p t s e \<longleftrightarrow>
     (\<exists>x y. t = x @ p @ y \<and> s = length (utf8 x) \<and> e = length (utf8 x) + length (utf8 p))"

definition phrase_at :: "unicode \<Rightarrow> ustr \<Rightarrow> ustr \<Rightarrow> nat \<Rightarrow> nat \<Rightarrow> bool" where
  "phrase_at u p t s e \<longleftrightarrow>
     (\<exists>x y. t = x @ p @ y \<and> s = length (utf8 x) \<and> e = length (utf8 x) + length (utf8 p)
       \<and> (x = [] \<or> \<not> u_alnum u (last x)) \<and> (y = [] \<or> \<not> u_alnum u (hd y)))"

definition tokens_at :: "ustr list \<Rightarrow> ustr list \<Rightarrow> nat \<Rightarrow> nat \<Rightarrow> bool" where
  "tokens_at p ts s e \<longleftrightarrow> s < e \<and> e \<le> length ts \<and> p = take (e - s) (drop s ts)"

text \<open>A surface of term \<open>t\<close> seen in the view of its mode.\<close>

fun surface_seen :: "unicode \<Rightarrow> language \<Rightarrow> normalized_text \<Rightarrow> match_mode \<Rightarrow> ustr \<Rightarrow> ustr \<Rightarrow> match_span \<Rightarrow> bool"
where
  "surface_seen u l v ExactPhrase p q (Bytes s e) \<longleftrightarrow>
     p \<noteq> [] \<and> q = p \<and> phrase_at u p (nt_normalized v) s e"
| "surface_seen u l v Compact p q (Bytes s e) \<longleftrightarrow>
     leet_view u l p \<noteq> [] \<and> q = leet_view u l p \<and> occurs_at q (nt_leet_compact v) s e"
| "surface_seen u l v TokenSequence p q (Tokens s e) \<longleftrightarrow>
     q = p \<and> tokens_at (separator_tokens u p) (nt_separator_tokens v) s e"
| "surface_seen u l v UrlTokenSequence p q (Tokens s e) \<longleftrightarrow>
     q = p \<and> (\<exists>ts \<in> set (url_token_streams u (nt_raw v)). tokens_at (separator_tokens u p) ts s e)"
| "surface_seen u l v _ p q _ \<longleftrightarrow> False"

definition match_of :: "compiled_term list \<Rightarrow> nat \<Rightarrow> match_mode \<Rightarrow> ustr \<Rightarrow> match_span \<Rightarrow> lexicon_match"
where
  "match_of terms tid mode q span =
     \<lparr>lm_term_id = tid, lm_dictionary = ct_dictionary (terms ! tid),
      lm_phrase = ct_phrase (terms ! tid), lm_category = ct_category (terms ! tid),
      lm_severity = ct_severity (terms ! tid), lm_mode = mode, lm_surface = q, lm_span = span\<rparr>"

definition matches_spec :: "unicode \<Rightarrow> language \<Rightarrow> compiled_term list \<Rightarrow> normalized_text \<Rightarrow> lexicon_match set"
where
  "matches_spec u l terms v = {match_of terms tid mode q span | tid mode p q span.
     tid < length terms \<and> mode \<in> set (ct_match_modes (terms ! tid))
     \<and> p \<in> set (ct_surfaces (terms ! tid)) \<and> surface_seen u l v mode p q span}"

section \<open>The automata find the occurrences\<close>

lemma occurs_at_naive:
  assumes "scalars t" "scalars p" "p \<noteq> []"
  shows "occurs_at p t s e \<longleftrightarrow> s < e \<and> e \<le> length (utf8 t) \<and> utf8 p = take (e - s) (drop s (utf8 t))"
proof
  assume "occurs_at p t s e"
  then show "s < e \<and> e \<le> length (utf8 t) \<and> utf8 p = take (e - s) (drop s (utf8 t))"
    using assms(3) by (auto simp: occurs_at_def)
next
  assume h: "s < e \<and> e \<le> length (utf8 t) \<and> utf8 p = take (e - s) (drop s (utf8 t))"
  let ?b = "drop e (utf8 t)"
  have "take (e - s) (drop s (utf8 t)) @ ?b = drop s (utf8 t)"
    using h append_take_drop_id [of "e - s" "drop s (utf8 t)"] by simp
  then have "utf8 t = take s (utf8 t) @ utf8 p @ ?b" using h by simp
  from utf8_infix [OF assms this] obtain x y where
    xy: "t = x @ p @ y" "take s (utf8 t) = utf8 x" "?b = utf8 y" by blast
  have "length (take s (utf8 t)) = s" "length (utf8 p) = e - s" using h by auto
  then have "s = length (utf8 x)" "e = length (utf8 x) + length (utf8 p)"
    using h unfolding xy(2) by simp_all
  with xy(1) show "occurs_at p t s e" unfolding occurs_at_def by blast
qed

lemma boundaries_at:
  "t = x @ p @ y \<Longrightarrow> has_token_boundaries u t (length (utf8 x)) (length (utf8 x) + length (utf8 p))
     = Some ((x = [] \<or> \<not> u_alnum u (last x)) \<and> (y = [] \<or> \<not> u_alnum u (hd y)))"
  using split_bytes_append [of x "p @ y"] split_bytes_append [of "x @ p" y]
  by (simp add: has_token_boundaries_def)

lemma phrase_at_boundaries:
  "phrase_at u p t s e \<longleftrightarrow> occurs_at p t s e \<and> has_token_boundaries u t s e = Some True"
proof
  assume "phrase_at u p t s e"
  then obtain x y where "t = x @ p @ y" "s = length (utf8 x)" "e = length (utf8 x) + length (utf8 p)"
    "x = [] \<or> \<not> u_alnum u (last x)" "y = [] \<or> \<not> u_alnum u (hd y)"
    by (auto simp: phrase_at_def)
  moreover from this have "has_token_boundaries u t s e = Some True"
    using boundaries_at [of t x p y u] by simp
  ultimately show "occurs_at p t s e \<and> has_token_boundaries u t s e = Some True"
    unfolding occurs_at_def by blast
next
  assume h: "occurs_at p t s e \<and> has_token_boundaries u t s e = Some True"
  then obtain x y where "t = x @ p @ y" "s = length (utf8 x)" "e = length (utf8 x) + length (utf8 p)"
    by (auto simp: occurs_at_def)
  moreover from this have "(x = [] \<or> \<not> u_alnum u (last x)) \<and> (y = [] \<or> \<not> u_alnum u (hd y))"
    using boundaries_at [of t x p y u] h by simp
  ultimately show "phrase_at u p t s e"
    unfolding phrase_at_def by blast
qed

lemma occurs_boundaries_total:
  "occurs_at p t s e \<Longrightarrow> \<exists>b. has_token_boundaries u t s e = Some b"
  unfolding occurs_at_def using boundaries_at by blast

text \<open>Well-formed patterns, as the builder makes them.\<close>

definition byte_pattern_ok :: "byte_pattern \<Rightarrow> bool" where
  "byte_pattern_ok p \<longleftrightarrow> scalars (bp_surface p) \<and> bp_surface p \<noteq> [] \<and> bp_bytes p = utf8 (bp_surface p)"

lemma byte_find_iter_spec:
  assumes h: "hash_order_ok h" and ps: "\<And>p. p \<in> set ps \<Longrightarrow> byte_pattern_ok p" and t: "scalars txt"
  shows "\<exists>ms. Option.bind (byte_ac_new h ps) (\<lambda>ac. byte_find_iter u ac txt) = Some ms
    \<and> (\<forall>p s e. (p, s, e) \<in> set ms \<longleftrightarrow> p \<in> set ps
        \<and> (if bp_boundary p then phrase_at u (bp_surface p) txt s e else occurs_at (bp_surface p) txt s e))"
proof -
  let ?keys = "map bp_bytes ps" and ?keep = "byte_keep u ps txt"
  define ok where "ok = (\<lambda>k s e. ?keep k s e = Some True)"
  have "bp_bytes p \<noteq> []" if "p \<in> set ps" for p using ps [OF that] by (simp add: byte_pattern_ok_def)
  then have ne: "[] \<notin> set ?keys" unfolding set_map by (metis imageE)
  have occ: "occurs_at (bp_surface (ps ! k)) txt s e
      \<longleftrightarrow> s < e \<and> e \<le> length (utf8 txt) \<and> bp_bytes (ps ! k) = take (e - s) (drop s (utf8 txt))"
    if "k < length ps" for k s e
    using occurs_at_naive [OF t, of "bp_surface (ps ! k)" s e] ps [OF nth_mem [OF that]]
    by (simp add: byte_pattern_ok_def)
  have keep: "?keep k s e = Some (ok k s e)"
    if k: "k < length ?keys" and "s + length (?keys ! k) = e" "e \<le> length (utf8 txt)"
      "take (length (?keys ! k)) (drop s (utf8 txt)) = ?keys ! k" for k s e
  proof -
    have "bp_bytes (ps ! k) \<noteq> []" using ne k by (metis length_map nth_map nth_mem)
    then have "occurs_at (bp_surface (ps ! k)) txt s e" using that occ [of k s e] by auto
    from occurs_boundaries_total [OF this, of u] show ?thesis
      using k by (auto simp: byte_keep_def ok_def idx_def)
  qed
  have perm: "\<And>xs. mset (ho_byte h xs) = mset xs" using h by (simp add: hash_order_ok_def)
  have "Option.bind (ac_new (ho_byte h) ?keys) (\<lambda>nodes. ac_find ?keep ?keys nodes (utf8 txt))
      = Some (naive_filter ok (naive_find ?keys (utf8 txt)))"
    by (rule ac_find_naive [where ok = ok, OF perm ne keep])
  then obtain nodes where n: "ac_new (ho_byte h) ?keys = Some nodes"
    "ac_find ?keep ?keys nodes (utf8 txt) = Some (naive_filter ok (naive_find ?keys (utf8 txt)))"
    unfolding bind_eq_Some_conv by blast
  let ?ms = "map (\<lambda>(k, s, e). (ps ! k, s, e)) (naive_filter ok (naive_find ?keys (utf8 txt)))"
  have "(p, s, e) \<in> set ?ms \<longleftrightarrow> p \<in> set ps
      \<and> (if bp_boundary p then phrase_at u (bp_surface p) txt s e else occurs_at (bp_surface p) txt s e)"
    for p s e
  proof -
    have "(p, s, e) \<in> set ?ms \<longleftrightarrow> (\<exists>k < length ps. p = ps ! k \<and> ok k s e
        \<and> occurs_at (bp_surface (ps ! k)) txt s e)"
      using occ by (auto simp: naive_filter_def naive_find_iff image_iff Bex_def)
    also have "\<dots> \<longleftrightarrow> (\<exists>k < length ps. p = ps ! k \<and> (if bp_boundary p
        then phrase_at u (bp_surface p) txt s e else occurs_at (bp_surface p) txt s e))"
      by (auto simp: ok_def byte_keep_def idx_def phrase_at_boundaries)
    finally show ?thesis by (auto simp: in_set_conv_nth)
  qed
  moreover have "Option.bind (byte_ac_new h ps) (\<lambda>ac. byte_find_iter u ac txt) = Some ?ms"
    using n by (simp add: byte_ac_new_def byte_find_iter_def)
  ultimately show ?thesis by blast
qed

lemma token_find_iter_spec:
  assumes h: "hash_order_ok h" and ps: "\<And>p. p \<in> set ps \<Longrightarrow> tp_tokens p \<noteq> []"
  shows "\<exists>ac. token_ac_new h ps = Some ac \<and> (\<forall>ts. \<exists>ms. token_find_iter ac ts = Some ms
    \<and> (\<forall>p s e. (p, s, e) \<in> set ms \<longleftrightarrow> p \<in> set ps \<and> tokens_at (tp_tokens p) ts s e))"
proof -
  let ?keys = "map tp_tokens ps"
  have ne: "[] \<notin> set ?keys" unfolding set_map using ps by (metis imageE)
  have perm: "\<And>xs. mset (ho_token h xs) = mset xs" using h by (simp add: hash_order_ok_def)
  from ac_new_total [OF perm ne] obtain nodes where n: "ac_new (ho_token h) ?keys = Some nodes"
    by blast
  then have f: "ac_find keep_all ?keys nodes ts = Some (naive_find ?keys ts)" for ts
    using ac_find_all [OF perm ne, of ts] by simp
  let ?ac = "\<lparr>ta_patterns = ps, ta_nodes = nodes\<rparr>"
  have "token_find_iter ?ac ts = Some (map (\<lambda>(k, s, e). (ps ! k, s, e)) (naive_find ?keys ts))" for ts
    using f by (simp add: token_find_iter_def)
  moreover have "(p, s, e) \<in> set (map (\<lambda>(k, s, e). (ps ! k, s, e)) (naive_find ?keys ts))
      \<longleftrightarrow> p \<in> set ps \<and> tokens_at (tp_tokens p) ts s e" for p s e ts
  proof -
    have "(p, s, e) \<in> set (map (\<lambda>(k, s, e). (ps ! k, s, e)) (naive_find ?keys ts))
      \<longleftrightarrow> (\<exists>k < length ps. p = ps ! k \<and> tokens_at (tp_tokens (ps ! k)) ts s e)"
      by (auto simp: naive_find_iff image_iff Bex_def tokens_at_def)
    then show ?thesis by (auto simp: in_set_conv_nth)
  qed
  ultimately show ?thesis using n by (intro exI [of _ ?ac]) (auto simp: token_ac_new_def)
qed


section \<open>The patterns the builder makes\<close>

lemma set_dedup: "set (foldl (\<lambda>acc m. if m \<in> set acc then acc else acc @ [m]) acc xs) = set acc \<union> set xs"
  by (induction xs arbitrary: acc) auto

lemma set_dedup_modes [simp]: "set (dedup_modes ms) = set ms"
  by (simp add: dedup_modes_def set_dedup)

lemma set_dedup_strings [simp]: "set (dedup_strings ss) = set ss"
  by (simp add: dedup_strings_def set_dedup)

text \<open>The patterns of one surface \<open>p\<close> (normalized) in one mode, as sets.\<close>

fun surface_bytes :: "unicode \<Rightarrow> language \<Rightarrow> nat \<Rightarrow> match_mode \<Rightarrow> ustr \<Rightarrow> byte_pattern set" where
  "surface_bytes u l tid ExactPhrase p = (if p = [] then {} else
     {\<lparr>bp_term_id = tid, bp_mode = ExactPhrase, bp_surface = p, bp_bytes = utf8 p, bp_boundary = True\<rparr>})"
| "surface_bytes u l tid Compact p = (if leet_view u l p = [] then {} else
     {\<lparr>bp_term_id = tid, bp_mode = Compact, bp_surface = leet_view u l p,
       bp_bytes = utf8 (leet_view u l p), bp_boundary = False\<rparr>})"
| "surface_bytes u l tid _ p = {}"

definition surface_tokens :: "unicode \<Rightarrow> nat \<Rightarrow> match_mode \<Rightarrow> ustr \<Rightarrow> token_pattern set" where
  "surface_tokens u tid mode p = (if separator_tokens u p = [] then {} else
     {\<lparr>tp_term_id = tid, tp_mode = mode, tp_surface = p, tp_tokens = separator_tokens u p\<rparr>})"

text \<open>The patterns of a list of compiled terms.\<close>

definition term_modes :: "compiled_term list \<Rightarrow> match_mode \<Rightarrow> (nat \<times> ustr) set" where
  "term_modes terms mode = {(tid, p). tid < length terms
     \<and> mode \<in> set (ct_match_modes (terms ! tid)) \<and> p \<in> set (ct_surfaces (terms ! tid))}"

definition build_ok :: "unicode \<Rightarrow> language \<Rightarrow> build_state \<Rightarrow> bool" where
  "build_ok u l st \<longleftrightarrow>
     set (bs_exact st) = (\<Union>(tid, p) \<in> term_modes (bs_terms st) ExactPhrase. surface_bytes u l tid ExactPhrase p)
     \<and> set (bs_compact st) = (\<Union>(tid, p) \<in> term_modes (bs_terms st) Compact. surface_bytes u l tid Compact p)
     \<and> set (bs_token st) = (\<Union>(tid, p) \<in> term_modes (bs_terms st) TokenSequence. surface_tokens u tid TokenSequence p)
     \<and> set (bs_url_token st)
         = (\<Union>(tid, p) \<in> term_modes (bs_terms st) UrlTokenSequence. surface_tokens u tid UrlTokenSequence p)
     \<and> (\<forall>t \<in> set (bs_terms st). \<forall>p \<in> set (ct_surfaces t). scalars p)"

text \<open>\<open>st'\<close> is \<open>st\<close> with the patterns of some surfaces in some modes added.\<close>

definition grown :: "unicode \<Rightarrow> language \<Rightarrow> nat \<Rightarrow> match_mode set \<Rightarrow> ustr set \<Rightarrow> build_state \<Rightarrow> build_state \<Rightarrow> bool"
where
  "grown u l tid M P st st' \<longleftrightarrow> bs_terms st' = bs_terms st
     \<and> set (bs_exact st') = set (bs_exact st)
         \<union> (if ExactPhrase \<in> M then \<Union>p \<in> P. surface_bytes u l tid ExactPhrase p else {})
     \<and> set (bs_compact st') = set (bs_compact st)
         \<union> (if Compact \<in> M then \<Union>p \<in> P. surface_bytes u l tid Compact p else {})
     \<and> set (bs_token st') = set (bs_token st)
         \<union> (if TokenSequence \<in> M then \<Union>p \<in> P. surface_tokens u tid TokenSequence p else {})
     \<and> set (bs_url_token st') = set (bs_url_token st)
         \<union> (if UrlTokenSequence \<in> M then \<Union>p \<in> P. surface_tokens u tid UrlTokenSequence p else {})"

lemma views_of_surface:
  "nt_leet_compact (normalize_views u (for_language u l) s)
     = leet_view u l (nt_normalized (normalize_views u (for_language u l) s))"
  "nt_separator_tokens (normalize_views u (for_language u l) s)
     = separator_tokens u (nt_normalized (normalize_views u (for_language u l) s))"
  by (cases l; simp add: normalize_views_def leet_view_def Let_def del: for_language.simps)+

lemma push_pattern_grown:
  "grown u l tid {mode} {nt_normalized (normalize_views u (for_language u l) s)} st
     (push_pattern u tid (normalize_views u (for_language u l) s) mode st)"
  by (cases mode) (simp_all add: push_pattern_def grown_def views_of_surface surface_tokens_def Let_def)

lemma grown_refl [simp]: "grown u l tid {} P st st" "grown u l tid M {} st st"
  by (simp_all add: grown_def)

lemma grown_modes:
  "grown u l tid M P st st' \<Longrightarrow> grown u l tid M' P st' st'' \<Longrightarrow> grown u l tid (M \<union> M') P st st''"
  by (auto simp: grown_def)

lemma grown_surfaces:
  "grown u l tid M P st st' \<Longrightarrow> grown u l tid M P' st' st'' \<Longrightarrow> grown u l tid M (P \<union> P') st st''"
  by (auto simp: grown_def)

lemma push_modes_grown:
  "grown u l tid (set modes) {nt_normalized (normalize_views u (for_language u l) s)} st
     (fold (push_pattern u tid (normalize_views u (for_language u l) s)) modes st)"
proof (induction modes arbitrary: st)
  case (Cons m ms)
  from grown_modes [OF push_pattern_grown Cons.IH] show ?case by simp
qed simp

lemma push_surface_pair:
  "push_surface u p tid modes raw (st, compiled) =
     (fold (push_pattern u tid (normalize_views u p raw)) (dedup_modes modes) st,
      compiled @ [nt_normalized (normalize_views u p raw)])"
  by (simp add: push_surface_def Let_def)

lemma push_surfaces_grown:
  "\<exists>st' compiled'. fold (push_surface u (for_language u l) tid modes) raws (st, compiled)
       = (st', compiled')
     \<and> set compiled' = set compiled \<union> (pipeline_normalize (for_language u l) ` set raws)
     \<and> grown u l tid (set modes) (pipeline_normalize (for_language u l) ` set raws) st st'"
proof (induction raws arbitrary: st compiled)
  case (Cons raw raws)
  let ?p = "for_language u l"
  let ?v = "normalize_views u ?p raw"
  have n: "nt_normalized ?v = pipeline_normalize ?p raw" by (simp add: normalize_views_def Let_def)
  let ?st = "fold (push_pattern u tid ?v) (dedup_modes modes) st"
  from Cons.IH [of ?st "compiled @ [nt_normalized ?v]"] obtain st' compiled' where
    IH: "fold (push_surface u ?p tid modes) raws (?st, compiled @ [nt_normalized ?v]) = (st', compiled')"
    "set compiled' = insert (pipeline_normalize ?p raw) (set compiled) \<union> pipeline_normalize ?p ` set raws"
    "grown u l tid (set modes) (pipeline_normalize ?p ` set raws) ?st st'"
    by (auto simp: n)
  have "grown u l tid (set modes) {pipeline_normalize ?p raw} st ?st"
    using push_modes_grown [of u l tid "dedup_modes modes" raw st] by (simp add: n)
  from grown_surfaces [OF this IH(3)] have "grown u l tid (set modes)
      (pipeline_normalize ?p ` set (raw # raws)) st st'" by simp
  with IH(1,2) show ?case
    by (intro exI [of _ st'] exI [of _ compiled']) (simp add: push_surface_pair)
qed simp


definition dictionary_scalars :: "dictionary \<Rightarrow> bool" where
  "dictionary_scalars d \<longleftrightarrow>
     (\<forall>t \<in> set (di_terms d). scalars (dt_phrase t) \<and> (\<forall>p \<in> set (dt_surfaces t). scalars p))"

lemma term_modes_snoc:
  "term_modes (terms @ [t]) mode = term_modes terms mode
     \<union> (if mode \<in> set (ct_match_modes t) then {length terms} \<times> set (ct_surfaces t) else {})"
  by (auto simp: term_modes_def nth_append less_Suc_eq)

lemma build_term_ok:
  assumes u: "unicode_ok u" and st: "build_ok u l st"
    and t: "scalars (dt_phrase t)" "\<And>p. p \<in> set (dt_surfaces t) \<Longrightarrow> scalars p"
    and b: "build_term u (for_language u l) dict t st = Inr st'"
  shows "build_ok u l st'"
proof -
  let ?p = "for_language u l" and ?tid = "length (bs_terms st)"
  obtain raws where raws: "surfaces_for_term t dict = Inr raws"
    using b by (auto simp: build_term_def split: if_splits sum.splits)
  have sub: "set raws \<subseteq> insert (dt_phrase t) (set (dt_surfaces t))"
    using raws by (auto simp: surfaces_for_term_def Let_def split: if_splits)
  from push_surfaces_grown [of u l ?tid "dt_match_modes t" raws st "[]"] obtain st1 compiled where
    1: "fold (push_surface u ?p ?tid (dt_match_modes t)) raws (st, []) = (st1, compiled)"
      "set compiled = pipeline_normalize ?p ` set raws"
      "grown u l ?tid (set (dt_match_modes t)) (set compiled) st st1" by auto
  let ?ct = "\<lparr>ct_dictionary = dict, ct_phrase = dt_phrase t, ct_category = dt_category t,
    ct_severity = dt_severity t, ct_match_modes = dedup_modes (dt_match_modes t),
    ct_surfaces = dedup_strings compiled\<rparr>"
  have st': "st' = st1\<lparr>bs_terms := bs_terms st1 @ [?ct]\<rparr>"
    using b raws 1(1) by (auto simp: build_term_def split: if_splits)
  have sc: "scalars p" if "p \<in> set compiled" for p
  proof -
    from that 1(2) obtain r where r: "r \<in> set raws" "p = pipeline_normalize ?p r" by blast
    then have "scalars r" using sub t by blast
    with scalars_normalize [OF u this, of l] r show ?thesis by simp
  qed
  have terms: "bs_terms st1 = bs_terms st" using 1(3) by (simp add: grown_def)
  have UN: "(\<Union>(tid, p) \<in> {n} \<times> P. f tid p) = (\<Union>p \<in> P. f n p)" for n P and f :: "nat \<Rightarrow> ustr \<Rightarrow> 'c set"
    by auto
  have "set (bs_exact st') = (\<Union>(tid, p) \<in> term_modes (bs_terms st') ExactPhrase. surface_bytes u l tid ExactPhrase p)"
    "set (bs_compact st') = (\<Union>(tid, p) \<in> term_modes (bs_terms st') Compact. surface_bytes u l tid Compact p)"
    "set (bs_token st') = (\<Union>(tid, p) \<in> term_modes (bs_terms st') TokenSequence. surface_tokens u tid TokenSequence p)"
    "set (bs_url_token st')
      = (\<Union>(tid, p) \<in> term_modes (bs_terms st') UrlTokenSequence. surface_tokens u tid UrlTokenSequence p)"
    using st 1(3) unfolding build_ok_def grown_def st' terms
    by (simp_all add: term_modes_snoc UN terms del: surface_bytes.simps)
  moreover have "\<forall>t \<in> set (bs_terms st'). \<forall>p \<in> set (ct_surfaces t). scalars p"
    using st sc terms by (auto simp: st' build_ok_def)
  ultimately show ?thesis unfolding build_ok_def by blast
qed

lemma build_terms_ok:
  assumes "unicode_ok u" "build_ok u l st"
    "\<And>t. t \<in> set ts \<Longrightarrow> scalars (dt_phrase t) \<and> (\<forall>p \<in> set (dt_surfaces t). scalars p)"
    "build_terms u (for_language u l) dict ts st = Inr st'"
  shows "build_ok u l st'"
  using assms(2-)
proof (induction ts arbitrary: st)
  case (Cons t ts)
  then obtain st1 where "build_term u (for_language u l) dict t st = Inr st1"
    "build_terms u (for_language u l) dict ts st1 = Inr st'" by (auto split: sum.splits)
  with Cons build_term_ok [OF assms(1) Cons.prems(1), of t dict st1] show ?case by auto
qed simp

lemma build_dictionaries_ok:
  assumes "unicode_ok u" "build_ok u l st" "\<And>d. d \<in> set ds \<Longrightarrow> dictionary_scalars d"
    "build_dictionaries u (for_language u l) ds st = Inr st'"
  shows "build_ok u l st'"
  using assms(2-)
proof (induction ds arbitrary: st)
  case (Cons d ds)
  then obtain st1 where 1: "build_terms u (for_language u l) (di_name d) (di_terms d) st = Inr st1"
    "build_dictionaries u (for_language u l) ds st1 = Inr st'"
    by (auto split: sum.splits if_splits)
  have "build_ok u l st1"
    using build_terms_ok [OF assms(1) Cons.prems(1) _ 1(1)] Cons.prems(2) [of d]
    by (simp add: dictionary_scalars_def)
  with Cons 1(2) show ?case by auto
qed simp

lemma build_empty_ok: "build_ok u l build_empty"
  by (simp add: build_ok_def build_empty_def term_modes_def)

text \<open>Every pattern is well formed, so the four constructions succeed.\<close>

lemma build_ok_patterns:
  assumes u: "build_ok u l st"
  shows "\<And>p. p \<in> set (bs_exact st) \<Longrightarrow> byte_pattern_ok p \<and> bp_boundary p"
    "\<And>p. p \<in> set (bs_compact st) \<Longrightarrow> byte_pattern_ok p \<and> \<not> bp_boundary p"
    "\<And>p. p \<in> set (bs_token st) \<Longrightarrow> tp_tokens p \<noteq> []"
    "\<And>p. p \<in> set (bs_url_token st) \<Longrightarrow> tp_tokens p \<noteq> []"
proof -
  have sc: "scalars q" if "(tid, q) \<in> term_modes (bs_terms st) mode" for tid q mode
    using that u by (auto simp: term_modes_def build_ok_def)
  have sl: "scalars (leet_view u l q)" if "scalars q" for q
    using that by (simp add: leet_view_def scalars_leet scalars_compact)
  show "byte_pattern_ok p \<and> bp_boundary p" if "p \<in> set (bs_exact st)" for p
    using that u sc by (auto simp: build_ok_def byte_pattern_ok_def split: if_splits)
  show "byte_pattern_ok p \<and> \<not> bp_boundary p" if "p \<in> set (bs_compact st)" for p
    using that u sc sl by (auto simp: build_ok_def byte_pattern_ok_def split: if_splits)
  show "tp_tokens p \<noteq> []" if "p \<in> set (bs_token st)" for p
    using that u by (auto simp: build_ok_def surface_tokens_def split: if_splits)
  show "tp_tokens p \<noteq> []" if "p \<in> set (bs_url_token st)" for p
    using that u by (auto simp: build_ok_def surface_tokens_def split: if_splits)
qed


section \<open>Matching\<close>

lemma dedup_by_set:
  assumes "\<And>x y. x \<in> set xs \<Longrightarrow> y \<in> set xs \<Longrightarrow> eq y x \<Longrightarrow> y = x"
  shows "set (dedup_by eq xs) = set xs"
  using assms
proof (induction eq xs rule: dedup_by.induct)
  case (3 eq x y zs)
  show ?case
  proof (cases "eq y x")
    case True
    then have "y = x" by (intro 3(3)) simp_all
    moreover have "set (dedup_by eq (x # zs)) = set (x # zs)"
      by (rule 3(1) [OF True], rule 3(3)) auto
    ultimately show ?thesis using True by simp
  next
    case False
    have "set (dedup_by eq (y # zs)) = set (y # zs)"
      by (rule 3(2) [OF False], rule 3(3)) auto
    then show ?thesis using False by simp
  qed
qed simp_all

lemma dedup_by_subset: "set (dedup_by eq xs) \<subseteq> set xs"
  by (induction eq xs rule: dedup_by.induct) auto

lemma dedup_by_sorted: "sorted (map f xs) \<Longrightarrow> sorted (map f (dedup_by eq xs))"
proof (induction eq xs rule: dedup_by.induct)
  case (3 eq x y zs)
  have "f x \<le> f z" if "z \<in> set (dedup_by eq (y # zs))" for z
  proof -
    have "z \<in> set (y # zs)" using that dedup_by_subset by fast
    with 3(3) show ?thesis by (simp only: list.map sorted_simps) force
  qed
  moreover have "sorted (map f (x # zs))" "sorted (map f (y # zs))" using 3(3) by simp_all
  ultimately show ?case using 3(1,2) by (cases "eq y x") simp_all
qed simp_all

lemma those_map_Some: "(\<And>x. x \<in> set xs \<Longrightarrow> f x = Some (g x)) \<Longrightarrow> those (map f xs) = Some (map g xs)"
  by (induction xs) auto

lemma match_of_byte:
  "bp_term_id p < length (lx_terms m) \<Longrightarrow> match_from_byte_candidate m (p, s, e)
     = Some (match_of (lx_terms m) (bp_term_id p) (bp_mode p) (bp_surface p) (Bytes s e))"
  by (simp add: match_from_byte_candidate_def match_of_def idx_def)

lemma match_of_token:
  "tp_term_id p < length (lx_terms m) \<Longrightarrow> match_from_token_candidate m (p, s, e)
     = Some (match_of (lx_terms m) (tp_term_id p) (tp_mode p) (tp_surface p) (Tokens s e))"
  by (simp add: match_from_token_candidate_def match_of_def idx_def)

text \<open>The matches of one byte automaton and of one token automaton.\<close>

lemma byte_matches:
  assumes h: "hash_order_ok h" and ps: "\<And>p. p \<in> set ps \<Longrightarrow> byte_pattern_ok p \<and> bp_term_id p < length (lx_terms m)"
    and t: "scalars txt" and ac: "byte_ac_new h ps = Some ac"
  shows "\<exists>cs ms. byte_find_iter u ac txt = Some cs \<and> those (map (match_from_byte_candidate m) cs) = Some ms
    \<and> set ms = {match_of (lx_terms m) (bp_term_id p) (bp_mode p) (bp_surface p) (Bytes s e) | p s e. p \<in> set ps
        \<and> (if bp_boundary p then phrase_at u (bp_surface p) txt s e else occurs_at (bp_surface p) txt s e)}"
proof -
  from byte_find_iter_spec [OF h _ t, of ps u] ps ac obtain cs where
    cs: "byte_find_iter u ac txt = Some cs" "\<And>p s e. (p, s, e) \<in> set cs \<longleftrightarrow> p \<in> set ps
        \<and> (if bp_boundary p then phrase_at u (bp_surface p) txt s e else occurs_at (bp_surface p) txt s e)"
    by auto
  define g where "g = (\<lambda>(p :: byte_pattern, s, e). match_of (lx_terms m) (bp_term_id p) (bp_mode p) (bp_surface p) (Bytes s e))"
  have "those (map (match_from_byte_candidate m) cs) = Some (map g cs)"
  proof (rule those_map_Some)
    fix x assume x: "x \<in> set cs"
    obtain p s e where pse: "x = (p, s, e)" by (cases x)
    with x cs(2) [of p s e] ps [of p] show "match_from_byte_candidate m x = Some (g x)"
      by (simp add: g_def match_of_byte)
  qed
  moreover have "set (map g cs) = {match_of (lx_terms m) (bp_term_id p) (bp_mode p) (bp_surface p) (Bytes s e)
      | p s e. (p, s, e) \<in> set cs}"
    unfolding set_map g_def by (auto simp: image_iff split: prod.splits) blast
  ultimately show ?thesis using cs by (intro exI [of _ cs] exI [of _ "map g cs"]) simp
qed

lemma token_matches:
  assumes h: "hash_order_ok h" and ps: "\<And>p. p \<in> set ps \<Longrightarrow> tp_tokens p \<noteq> [] \<and> tp_term_id p < length (lx_terms m)"
    and ac: "token_ac_new h ps = Some ac"
  shows "\<exists>cs ms. token_find_iter ac ts = Some cs \<and> those (map (match_from_token_candidate m) cs) = Some ms
    \<and> set ms = {match_of (lx_terms m) (tp_term_id p) (tp_mode p) (tp_surface p) (Tokens s e) | p s e.
        p \<in> set ps \<and> tokens_at (tp_tokens p) ts s e}"
proof -
  from token_find_iter_spec [OF h, of ps] ps ac obtain cs where
    cs: "token_find_iter ac ts = Some cs"
      "\<And>p s e. (p, s, e) \<in> set cs \<longleftrightarrow> p \<in> set ps \<and> tokens_at (tp_tokens p) ts s e" by auto blast
  define g where "g = (\<lambda>(p :: token_pattern, s, e). match_of (lx_terms m) (tp_term_id p) (tp_mode p) (tp_surface p) (Tokens s e))"
  have "those (map (match_from_token_candidate m) cs) = Some (map g cs)"
  proof (rule those_map_Some)
    fix x assume x: "x \<in> set cs"
    obtain p s e where pse: "x = (p, s, e)" by (cases x)
    with x cs(2) [of p s e] ps [of p] show "match_from_token_candidate m x = Some (g x)"
      by (simp add: g_def match_of_token)
  qed
  moreover have "set (map g cs) = {match_of (lx_terms m) (tp_term_id p) (tp_mode p) (tp_surface p) (Tokens s e)
      | p s e. (p, s, e) \<in> set cs}"
    unfolding set_map g_def by (auto simp: image_iff split: prod.splits) blast
  ultimately show ?thesis using cs by (intro exI [of _ cs] exI [of _ "map g cs"]) simp
qed

lemma those_append: "those xs = Some a \<Longrightarrow> those ys = Some b \<Longrightarrow> those (xs @ ys) = Some (a @ b)"
  by (induction xs arbitrary: a) (auto split: option.splits)

lemma url_matches:
  assumes h: "hash_order_ok h" and ps: "\<And>p. p \<in> set ps \<Longrightarrow> tp_tokens p \<noteq> [] \<and> tp_term_id p < length (lx_terms m)"
    and ac: "token_ac_new h ps = Some ac"
  shows "\<exists>cs ms. url_candidates ac tss = Some cs \<and> those (map (match_from_token_candidate m) cs) = Some ms
    \<and> set ms = {match_of (lx_terms m) (tp_term_id p) (tp_mode p) (tp_surface p) (Tokens s e) | p s e.
        p \<in> set ps \<and> (\<exists>ts \<in> set tss. tokens_at (tp_tokens p) ts s e)}"
proof (induction tss)
  case Nil
  then show ?case by simp
next
  case (Cons ts tss)
  then obtain cs ms where IH: "url_candidates ac tss = Some cs"
    "those (map (match_from_token_candidate m) cs) = Some ms"
    "set ms = {match_of (lx_terms m) (tp_term_id p) (tp_mode p) (tp_surface p) (Tokens s e) | p s e.
        p \<in> set ps \<and> (\<exists>ts \<in> set tss. tokens_at (tp_tokens p) ts s e)}" by blast
  from token_matches [OF h ps ac, of ts] obtain cs' ms' where 1: "token_find_iter ac ts = Some cs'"
    "those (map (match_from_token_candidate m) cs') = Some ms'"
    "set ms' = {match_of (lx_terms m) (tp_term_id p) (tp_mode p) (tp_surface p) (Tokens s e) | p s e.
        p \<in> set ps \<and> tokens_at (tp_tokens p) ts s e}" by blast
  have "set (ms' @ ms) = {match_of (lx_terms m) (tp_term_id p) (tp_mode p) (tp_surface p) (Tokens s e) | p s e.
        p \<in> set ps \<and> (\<exists>ts \<in> set (ts # tss). tokens_at (tp_tokens p) ts s e)}"
    unfolding set_append IH(3) 1(3) by auto
  moreover have "those (map (match_from_token_candidate m) (cs' @ cs)) = Some (ms' @ ms)"
    unfolding map_append by (rule those_append [OF 1(2) IH(2)])
  ultimately show ?case using IH(1) 1(1)
    by (intro exI [of _ "cs' @ cs"] exI [of _ "ms' @ ms"]) simp
qed


text \<open>The specification, mode by mode.\<close>

definition mode_spec :: "unicode \<Rightarrow> language \<Rightarrow> compiled_term list \<Rightarrow> normalized_text \<Rightarrow> match_mode
    \<Rightarrow> lexicon_match set" where
  "mode_spec u l terms v mode = {match_of terms tid mode q span | tid p q span.
     (tid, p) \<in> term_modes terms mode \<and> surface_seen u l v mode p q span}"

lemma matches_spec_modes:
  "matches_spec u l terms v = mode_spec u l terms v ExactPhrase \<union> mode_spec u l terms v Compact
     \<union> mode_spec u l terms v TokenSequence \<union> mode_spec u l terms v UrlTokenSequence"
proof -
  have "m \<in> matches_spec u l terms v \<longleftrightarrow> (\<exists>mode. m \<in> mode_spec u l terms v mode)" for m
    unfolding matches_spec_def mode_spec_def term_modes_def by blast
  moreover have "(\<exists>mode. P mode) \<longleftrightarrow> P ExactPhrase \<or> P Compact \<or> P TokenSequence \<or> P UrlTokenSequence"
    for P
  proof
    assume "\<exists>mode. P mode"
    then obtain mode where "P mode" ..
    then show "P ExactPhrase \<or> P Compact \<or> P TokenSequence \<or> P UrlTokenSequence"
      by (cases mode) simp_all
  qed blast
  ultimately show ?thesis by (intro set_eqI) (simp only: Un_iff disj_assoc)
qed

lemma surface_seen_bytes:
  "surface_seen u l v ExactPhrase p q span \<longleftrightarrow>
     (\<exists>s e. span = Bytes s e \<and> p \<noteq> [] \<and> q = p \<and> phrase_at u p (nt_normalized v) s e)"
  "surface_seen u l v Compact p q span \<longleftrightarrow>
     (\<exists>s e. span = Bytes s e \<and> leet_view u l p \<noteq> [] \<and> q = leet_view u l p
        \<and> occurs_at q (nt_leet_compact v) s e)"
  "surface_seen u l v TokenSequence p q span \<longleftrightarrow>
     (\<exists>s e. span = Tokens s e \<and> q = p \<and> tokens_at (separator_tokens u p) (nt_separator_tokens v) s e)"
  "surface_seen u l v UrlTokenSequence p q span \<longleftrightarrow>
     (\<exists>s e. span = Tokens s e \<and> q = p
        \<and> (\<exists>ts \<in> set (url_token_streams u (nt_raw v)). tokens_at (separator_tokens u p) ts s e))"
  by (cases span; simp)+

lemma mode_spec_pairs:
  assumes "\<And>p q span. surface_seen u l v mode p q span \<longleftrightarrow>
      (\<exists>s e. span = sp s e \<and> ok p \<and> q = f p \<and> C p s e)"
  shows "mode_spec u l T v mode = {match_of T tid mode (f p) (sp s e) | tid p s e.
      (tid, p) \<in> term_modes T mode \<and> ok p \<and> C p s e}"
  unfolding mode_spec_def assms by blast

lemma pattern_reindex:
  assumes "\<And>x. x \<in> S \<longleftrightarrow> (\<exists>tid p. (tid, p) \<in> I \<and> ok p \<and> x = g tid p)"
    and "\<And>tid p s e. (B (g tid p) s e \<longleftrightarrow> C p s e) \<and> F (g tid p) s e = F' tid p s e"
  shows "{F x s e | x s e. x \<in> S \<and> B x s e} = {F' tid p s e | tid p s e. (tid, p) \<in> I \<and> ok p \<and> C p s e}"
proof (rule set_eqI)
  fix y
  have "(\<exists>x s e. y = F x s e \<and> x \<in> S \<and> B x s e)
      \<longleftrightarrow> (\<exists>tid p s e. y = F (g tid p) s e \<and> (tid, p) \<in> I \<and> ok p \<and> B (g tid p) s e)"
    unfolding assms(1) by blast
  also have "\<dots> \<longleftrightarrow> (\<exists>tid p s e. y = F' tid p s e \<and> (tid, p) \<in> I \<and> ok p \<and> C p s e)"
    using assms(2) by simp
  finally show "y \<in> {F x s e | x s e. x \<in> S \<and> B x s e}
      \<longleftrightarrow> y \<in> {F' tid p s e | tid p s e. (tid, p) \<in> I \<and> ok p \<and> C p s e}"
    by simp
qed

lemma surface_bytes_iff:
  "x \<in> (\<Union>(tid, p) \<in> I. surface_bytes u l tid ExactPhrase p) \<longleftrightarrow> (\<exists>tid p. (tid, p) \<in> I \<and> p \<noteq> []
     \<and> x = \<lparr>bp_term_id = tid, bp_mode = ExactPhrase, bp_surface = p, bp_bytes = utf8 p, bp_boundary = True\<rparr>)"
  "x \<in> (\<Union>(tid, p) \<in> I. surface_bytes u l tid Compact p) \<longleftrightarrow> (\<exists>tid p. (tid, p) \<in> I \<and> leet_view u l p \<noteq> []
     \<and> x = \<lparr>bp_term_id = tid, bp_mode = Compact, bp_surface = leet_view u l p,
         bp_bytes = utf8 (leet_view u l p), bp_boundary = False\<rparr>)"
proof -
  show "x \<in> (\<Union>(tid, p) \<in> I. surface_bytes u l tid ExactPhrase p) \<longleftrightarrow> (\<exists>tid p. (tid, p) \<in> I \<and> p \<noteq> []
     \<and> x = \<lparr>bp_term_id = tid, bp_mode = ExactPhrase, bp_surface = p, bp_bytes = utf8 p, bp_boundary = True\<rparr>)"
    by (force split: if_splits)
  show "x \<in> (\<Union>(tid, p) \<in> I. surface_bytes u l tid Compact p) \<longleftrightarrow> (\<exists>tid p. (tid, p) \<in> I \<and> leet_view u l p \<noteq> []
     \<and> x = \<lparr>bp_term_id = tid, bp_mode = Compact, bp_surface = leet_view u l p,
         bp_bytes = utf8 (leet_view u l p), bp_boundary = False\<rparr>)"
    by (force split: if_splits)
qed

lemma surface_tokens_iff:
  "x \<in> (\<Union>(tid, p) \<in> I. surface_tokens u tid mode p) \<longleftrightarrow> (\<exists>tid p. (tid, p) \<in> I \<and> separator_tokens u p \<noteq> []
     \<and> x = \<lparr>tp_term_id = tid, tp_mode = mode, tp_surface = p, tp_tokens = separator_tokens u p\<rparr>)"
  by (force simp: surface_tokens_def split: if_splits)

lemma exact_spec:
  assumes "set ps = (\<Union>(tid, p) \<in> term_modes T ExactPhrase. surface_bytes u l tid ExactPhrase p)"
  shows "{match_of T (bp_term_id p) (bp_mode p) (bp_surface p) (Bytes s e) | p s e. p \<in> set ps
      \<and> (if bp_boundary p then phrase_at u (bp_surface p) (nt_normalized v) s e
         else occurs_at (bp_surface p) (nt_normalized v) s e)}
    = mode_spec u l T v ExactPhrase"
  unfolding mode_spec_pairs [OF surface_seen_bytes(1)] assms
  by (rule pattern_reindex [OF surface_bytes_iff(1)]) simp

lemma compact_spec:
  assumes "set ps = (\<Union>(tid, p) \<in> term_modes T Compact. surface_bytes u l tid Compact p)"
  shows "{match_of T (bp_term_id p) (bp_mode p) (bp_surface p) (Bytes s e) | p s e. p \<in> set ps
      \<and> (if bp_boundary p then phrase_at u (bp_surface p) (nt_leet_compact v) s e
         else occurs_at (bp_surface p) (nt_leet_compact v) s e)}
    = mode_spec u l T v Compact"
proof -
  have "surface_seen u l v Compact p q span \<longleftrightarrow> (\<exists>s e. span = Bytes s e \<and> leet_view u l p \<noteq> []
      \<and> q = leet_view u l p \<and> occurs_at (leet_view u l p) (nt_leet_compact v) s e)" for p q span
    unfolding surface_seen_bytes(2) by blast
  from mode_spec_pairs [OF this] show ?thesis
    unfolding assms by (simp only:) (rule pattern_reindex [OF surface_bytes_iff(2)], simp)
qed

lemma tokens_at_ne: "tokens_at p ts s e \<Longrightarrow> p \<noteq> []"
  by (auto simp: tokens_at_def)

lemma token_spec:
  assumes "set ps = (\<Union>(tid, p) \<in> term_modes T TokenSequence. surface_tokens u tid TokenSequence p)"
  shows "{match_of T (tp_term_id p) (tp_mode p) (tp_surface p) (Tokens s e) | p s e. p \<in> set ps
      \<and> tokens_at (tp_tokens p) (nt_separator_tokens v) s e}
    = mode_spec u l T v TokenSequence"
proof -
  have "surface_seen u l v TokenSequence p q span \<longleftrightarrow> (\<exists>s e. span = Tokens s e
      \<and> separator_tokens u p \<noteq> [] \<and> q = p
      \<and> tokens_at (separator_tokens u p) (nt_separator_tokens v) s e)" for p q span
    unfolding surface_seen_bytes(3) by (metis tokens_at_ne)
  from mode_spec_pairs [where f = "\<lambda>p. p", OF this] show ?thesis
    unfolding assms by (simp only:) (rule pattern_reindex [OF surface_tokens_iff], simp)
qed

lemma url_spec:
  assumes "set ps = (\<Union>(tid, p) \<in> term_modes T UrlTokenSequence. surface_tokens u tid UrlTokenSequence p)"
  shows "{match_of T (tp_term_id p) (tp_mode p) (tp_surface p) (Tokens s e) | p s e. p \<in> set ps
      \<and> (\<exists>ts \<in> set (url_token_streams u (nt_raw v)). tokens_at (tp_tokens p) ts s e)}
    = mode_spec u l T v UrlTokenSequence"
proof -
  have "surface_seen u l v UrlTokenSequence p q span \<longleftrightarrow> (\<exists>s e. span = Tokens s e
      \<and> separator_tokens u p \<noteq> [] \<and> q = p
      \<and> (\<exists>ts \<in> set (url_token_streams u (nt_raw v)). tokens_at (separator_tokens u p) ts s e))"
    for p q span
    unfolding surface_seen_bytes(4) by (metis tokens_at_ne)
  from mode_spec_pairs [where f = "\<lambda>p. p", OF this] show ?thesis
    unfolding assms by (simp only:) (rule pattern_reindex [OF surface_tokens_iff], simp)
qed

lemma same_match_eq:
  "a \<in> matches_spec u l terms v \<Longrightarrow> b \<in> matches_spec u l terms v \<Longrightarrow> same_match b a \<Longrightarrow> b = a"
  by (auto simp: matches_spec_def same_match_def match_of_def)


lemma build_ok_term_ids:
  assumes "build_ok u l st"
  shows "\<And>p. p \<in> set (bs_exact st) \<union> set (bs_compact st) \<Longrightarrow> bp_term_id p < length (bs_terms st)"
    "\<And>p. p \<in> set (bs_token st) \<union> set (bs_url_token st) \<Longrightarrow> tp_term_id p < length (bs_terms st)"
proof -
  have "tid < length (bs_terms st)" if "(tid, q) \<in> term_modes (bs_terms st) mode" for tid q mode
    using that by (simp add: term_modes_def)
  then show "\<And>p. p \<in> set (bs_exact st) \<union> set (bs_compact st) \<Longrightarrow> bp_term_id p < length (bs_terms st)"
    "\<And>p. p \<in> set (bs_token st) \<union> set (bs_url_token st) \<Longrightarrow> tp_term_id p < length (bs_terms st)"
    using assms unfolding build_ok_def by (force simp: surface_tokens_def split: if_splits)+
qed

lemma byte_ac_new_total:
  assumes "hash_order_ok h" "\<And>p. p \<in> set ps \<Longrightarrow> byte_pattern_ok p"
  shows "\<exists>ac. byte_ac_new h ps = Some ac"
  using byte_find_iter_spec [of h ps "[]" undefined, OF assms] unfolding bind_eq_Some_conv by auto

lemma matches_normalized_spec:
  assumes h: "hash_order_ok h" and st: "build_ok u l st"
    and m: "byte_ac_new h (bs_exact st) = Some (lx_exact m)"
      "byte_ac_new h (bs_compact st) = Some (lx_compact m)"
      "token_ac_new h (bs_token st) = Some (lx_token m)"
      "token_ac_new h (bs_url_token st) = Some (lx_url_token m)" "lx_terms m = bs_terms st"
    and v: "scalars (nt_normalized v)" "scalars (nt_leet_compact v)"
  shows "\<exists>ms. matches_normalized u m v = Some ms \<and> set ms = matches_spec u l (lx_terms m) v
    \<and> sorted (map match_key ms)"
proof -
  note ids = build_ok_term_ids [OF st, folded m(5)] and pats = build_ok_patterns [OF st]
  have sets: "set (bs_exact st) = (\<Union>(tid, p) \<in> term_modes (lx_terms m) ExactPhrase. surface_bytes u l tid ExactPhrase p)"
    "set (bs_compact st) = (\<Union>(tid, p) \<in> term_modes (lx_terms m) Compact. surface_bytes u l tid Compact p)"
    "set (bs_token st) = (\<Union>(tid, p) \<in> term_modes (lx_terms m) TokenSequence. surface_tokens u tid TokenSequence p)"
    "set (bs_url_token st)
      = (\<Union>(tid, p) \<in> term_modes (lx_terms m) UrlTokenSequence. surface_tokens u tid UrlTokenSequence p)"
    using st unfolding build_ok_def m(5) by (simp_all only:)
  have "\<And>p. p \<in> set (bs_exact st) \<Longrightarrow> byte_pattern_ok p \<and> bp_term_id p < length (lx_terms m)"
    using pats(1) ids(1) by blast
  from byte_matches [OF h this v(1) m(1), of u, unfolded exact_spec [OF sets(1)]]
  obtain c1 m1 where 1: "byte_find_iter u (lx_exact m) (nt_normalized v) = Some c1"
    "those (map (match_from_byte_candidate m) c1) = Some m1"
    "set m1 = mode_spec u l (lx_terms m) v ExactPhrase" by blast
  have "\<And>p. p \<in> set (bs_compact st) \<Longrightarrow> byte_pattern_ok p \<and> bp_term_id p < length (lx_terms m)"
    using pats(2) ids(1) by blast
  from byte_matches [OF h this v(2) m(2), of u, unfolded compact_spec [OF sets(2)]]
  obtain c2 m2 where 2: "byte_find_iter u (lx_compact m) (nt_leet_compact v) = Some c2"
    "those (map (match_from_byte_candidate m) c2) = Some m2"
    "set m2 = mode_spec u l (lx_terms m) v Compact" by blast
  have "\<And>p. p \<in> set (bs_token st) \<Longrightarrow> tp_tokens p \<noteq> [] \<and> tp_term_id p < length (lx_terms m)"
    using pats(3) ids(2) by blast
  from token_matches [OF h this m(3), of "nt_separator_tokens v",
    unfolded token_spec [where u = u and l = l, OF sets(3)]]
  obtain c3 m3 where 3: "token_find_iter (lx_token m) (nt_separator_tokens v) = Some c3"
    "those (map (match_from_token_candidate m) c3) = Some m3"
    "set m3 = mode_spec u l (lx_terms m) v TokenSequence" by blast
  have "\<And>p. p \<in> set (bs_url_token st) \<Longrightarrow> tp_tokens p \<noteq> [] \<and> tp_term_id p < length (lx_terms m)"
    using pats(4) ids(2) by blast
  from url_matches [OF h this m(4), of "url_token_streams u (nt_raw v)",
    unfolded url_spec [where u = u and l = l, OF sets(4)]]
  obtain c4 m4 where 4: "url_candidates (lx_url_token m) (url_token_streams u (nt_raw v)) = Some c4"
    "those (map (match_from_token_candidate m) c4) = Some m4"
    "set m4 = mode_spec u l (lx_terms m) v UrlTokenSequence" by blast
  let ?ms = "sort_key match_key (m1 @ m2 @ m3 @ m4)"
  have all: "set ?ms = matches_spec u l (lx_terms m) v"
    unfolding matches_spec_modes set_sort set_append 1(3) 2(3) 3(3) 4(3) by blast
  have "matches_normalized u m v = Some (dedup_by same_match ?ms)"
    unfolding matches_normalized_def 1(1) 2(1) 3(1) 4(1) Option.bind.simps 1(2) 2(2) 3(2) 4(2) ..
  moreover have "set (dedup_by same_match ?ms) = matches_spec u l (lx_terms m) v"
    unfolding all [symmetric] by (rule dedup_by_set) (simp only: all same_match_eq)
  moreover have "sorted (map match_key (dedup_by same_match ?ms))"
    by (rule dedup_by_sorted) simp
  ultimately show ?thesis by blast
qed

lemma lexicon_build_total:
  assumes u: "unicode_ok u" and h: "hash_order_ok h"
    and b: "\<And>d. d \<in> set (lb_dictionaries b) \<Longrightarrow> dictionary_scalars d"
    and v: "scalars txt"
  shows "\<exists>r. lexicon_build u h b = Some r \<and>
    (case r of Inl _ \<Rightarrow> True
     | Inr m \<Rightarrow> \<exists>ms. lexicon_matches u m txt = Some ms \<and> sorted (map match_key ms)
         \<and> set ms = matches_spec u (lb_language b) (lx_terms m)
             (normalize_views u (for_language u (lb_language b)) txt))"
proof (cases "build_dictionaries u (for_language u (lb_language b)) (lb_dictionaries b) build_empty")
  case (Inl e)
  then show ?thesis by (simp add: lexicon_build_def)
next
  case (Inr st)
  have st: "build_ok u (lb_language b) st"
    by (rule build_dictionaries_ok [OF u build_empty_ok b Inr])
  note pats = build_ok_patterns [OF st]
  obtain a1 a2 a3 a4 where ac: "byte_ac_new h (bs_exact st) = Some a1"
    "byte_ac_new h (bs_compact st) = Some a2"
    "token_ac_new h (bs_token st) = Some a3" "token_ac_new h (bs_url_token st) = Some a4"
    using byte_ac_new_total [OF h, of "bs_exact st"] byte_ac_new_total [OF h, of "bs_compact st"]
      token_find_iter_spec [OF h, of "bs_token st"] token_find_iter_spec [OF h, of "bs_url_token st"]
      pats by blast
  let ?m = "\<lparr>lx_language = lb_language b, lx_terms = bs_terms st, lx_exact = a1, lx_compact = a2,
    lx_token = a3, lx_url_token = a4\<rparr>"
  have "lexicon_build u h b = Some (Inr ?m)" using Inr ac by (simp add: lexicon_build_def)
  moreover have "\<exists>ms. matches_normalized u ?m (normalize_views u (for_language u (lb_language b)) txt)
      = Some ms \<and> set ms = matches_spec u (lb_language b) (lx_terms ?m)
          (normalize_views u (for_language u (lb_language b)) txt) \<and> sorted (map match_key ms)"
    by (rule matches_normalized_spec [OF h st]) (simp_all add: ac normalize_views_scalars [OF u v])
  ultimately show ?thesis by (auto simp: lexicon_matches_def)
qed

text \<open>Which dictionaries build: exactly those with no blank name, phrase or surface and no
  term without a mode.\<close>

definition term_valid :: "dictionary_term \<Rightarrow> bool" where
  "term_valid t \<longleftrightarrow> utrim (dt_phrase t) \<noteq> [] \<and> dt_match_modes t \<noteq> []
     \<and> list_all (\<lambda>s. utrim s \<noteq> []) (dt_surfaces t)"

definition dictionary_valid :: "dictionary \<Rightarrow> bool" where
  "dictionary_valid d \<longleftrightarrow> utrim (di_name d) \<noteq> [] \<and> list_all term_valid (di_terms d)"

lemma build_term_Inr: "(\<exists>st'. build_term u p dict t st = Inr st') \<longleftrightarrow> term_valid t"
  by (auto simp: build_term_def term_valid_def surfaces_for_term_def Let_def list_all_iff list_ex_iff
      split: prod.splits)

lemma build_terms_Inr: "(\<exists>st'. build_terms u p dict ts st = Inr st') \<longleftrightarrow> list_all term_valid ts"
proof (induction ts arbitrary: st)
  case (Cons t ts)
  show ?case
  proof (cases "build_term u p dict t st")
    case (Inl e)
    then have "\<not> term_valid t" using build_term_Inr [of u p dict t st] by auto
    then show ?thesis using Inl by simp
  next
    case (Inr st1)
    then have "term_valid t" using build_term_Inr [of u p dict t st] by auto
    then show ?thesis using Inr Cons.IH [of st1] by simp
  qed
qed simp

lemma build_dictionaries_Inr:
  "(\<exists>st'. build_dictionaries u p ds st = Inr st') \<longleftrightarrow> list_all dictionary_valid ds"
proof (induction ds arbitrary: st)
  case (Cons d ds)
  show ?case
  proof (cases "build_terms u p (di_name d) (di_terms d) st")
    case (Inl e)
    then have "\<not> list_all term_valid (di_terms d)"
      using build_terms_Inr [of u p "di_name d" "di_terms d" st] by auto
    then show ?thesis using Inl by (simp add: dictionary_valid_def)
  next
    case (Inr st1)
    then have "list_all term_valid (di_terms d)"
      using build_terms_Inr [of u p "di_name d" "di_terms d" st] by auto
    then show ?thesis using Inr Cons.IH [of st1] by (simp add: dictionary_valid_def)
  qed
qed simp

end
