(* ===== verification/Text_Policy.thy ===== *)
theory Text_Policy
  imports Text_Lexicon Ieee_Float
begin

text \<open>
  Scoring and verdict of \<open>packages/text-policy/src\<close>: \<open>scorer.rs\<close>, \<open>evaluator.rs\<close>,
  \<open>verdict.rs\<close>, \<open>policy.rs\<close>. Scores are \<open>f32\<close> values: every product, sum and
  difference is rounded to 24 bits (\<open>Ieee_Float\<close>). Match counts (\<open>u32\<close>) are \<open>nat\<close>: a
  vector of \<open>2 ^ 32\<close> matches does not fit in memory.

  \<open>group_by_term\<close> keeps, per term, a \<open>HashMap\<close> from mode to (count, first match) and
  takes the maximum over its iteration. The iteration order is the parameter \<open>ord\<close>; the
  theory shows that the score does not depend on it and that the evidence does, in its span
  only, although the comment on \<open>group_by_term\<close> calls the evidence deterministic.
\<close>

section \<open>Single-precision arithmetic\<close>

definition f32 :: "rat \<Rightarrow> fp" where
  "f32 q = Fin (rnd 24 q)"

fun fp_sgn :: "fp \<Rightarrow> rat" where
  "fp_sgn (Fin a) = sgn a"
| "fp_sgn PInf = 1"
| "fp_sgn NInf = -1"
| "fp_sgn NaN = 0"

fun fp_add :: "nat \<Rightarrow> fp \<Rightarrow> fp \<Rightarrow> fp" where
  "fp_add p (Fin a) (Fin b) = Fin (rnd p (a + b))"
| "fp_add p NaN y = NaN"
| "fp_add p x NaN = NaN"
| "fp_add p PInf NInf = NaN"
| "fp_add p NInf PInf = NaN"
| "fp_add p PInf y = PInf"
| "fp_add p NInf y = NInf"
| "fp_add p (Fin a) y = y"

fun fp_neg :: "fp \<Rightarrow> fp" where
  "fp_neg (Fin a) = Fin (- a)"
| "fp_neg PInf = NInf"
| "fp_neg NInf = PInf"
| "fp_neg NaN = NaN"

definition fp_sub :: "nat \<Rightarrow> fp \<Rightarrow> fp \<Rightarrow> fp" where
  "fp_sub p x y = fp_add p x (fp_neg y)"

fun fp_mul :: "nat \<Rightarrow> fp \<Rightarrow> fp \<Rightarrow> fp" where
  "fp_mul p (Fin a) (Fin b) = Fin (rnd p (a * b))"
| "fp_mul p NaN y = NaN"
| "fp_mul p x NaN = NaN"
| "fp_mul p x y = (let s = fp_sgn x * fp_sgn y in if s = 0 then NaN else if 0 < s then PInf else NInf)"

text \<open>\<open>x.max(0.0)\<close>, and \<open>x.round() as u32\<close>: halves away from zero, saturating.\<close>

fun fp_max0 :: "fp \<Rightarrow> fp" where
  "fp_max0 (Fin a) = Fin (max a 0)"
| "fp_max0 PInf = PInf"
| "fp_max0 _ = Fin 0"

fun fp_round_u32 :: "fp \<Rightarrow> nat" where
  "fp_round_u32 (Fin a) =
     (let r = (if 0 \<le> a then \<lfloor>a + 1 / 2\<rfloor> else - \<lfloor>- a + 1 / 2\<rfloor>) in min (nat r) (2 ^ 32 - 1))"
| "fp_round_u32 PInf = 2 ^ 32 - 1"
| "fp_round_u32 _ = 0"

section \<open>Scorer\<close>

datatype source_kind = BrowserTitle | BrowserUrl | AccessibilityTree | OcrHigh | OcrMedium | OcrLow

record evidence_item =
  ev_rule_id :: ustr
  ev_category :: text_category
  ev_severity :: severity
  ev_span :: match_span
  ev_base_score :: nat
  ev_multiplier :: fp

record score_result =
  sr_score :: nat
  sr_evidence :: "evidence_item list"

fun base_score :: "severity \<Rightarrow> nat" where
  "base_score High = 80"
| "base_score Medium = 35"
| "base_score Low = 15"

fun match_multiplier :: "match_mode \<Rightarrow> fp" where
  "match_multiplier ExactPhrase = f32 1"
| "match_multiplier TokenSequence = f32 (80 / 100)"
| "match_multiplier Compact = f32 (75 / 100)"
| "match_multiplier UrlTokenSequence = f32 1"

fun source_multiplier :: "source_kind \<Rightarrow> fp" where
  "source_multiplier BrowserTitle = f32 1"
| "source_multiplier BrowserUrl = f32 1"
| "source_multiplier AccessibilityTree = f32 1"
| "source_multiplier OcrHigh = f32 (90 / 100)"
| "source_multiplier OcrMedium = f32 (70 / 100)"
| "source_multiplier OcrLow = f32 (40 / 100)"

definition is_exception :: "text_category \<Rightarrow> bool" where
  "is_exception c \<longleftrightarrow> c = EducationException \<or> c = MedicalException \<or> c = SafetyException"

record term_hits =
  th_best :: lexicon_match
  th_occurrences :: nat

type_synonym mode_counts = "(match_mode \<times> nat \<times> lexicon_match) list"

text \<open>The maps of \<open>group_by_term\<close>, as association lists: modes of a term, and terms in
  first-seen order (the vector \<open>order\<close>).\<close>

fun count_mode :: "lexicon_match \<Rightarrow> mode_counts \<Rightarrow> mode_counts" where
  "count_mode m [] = [(lm_mode m, 1, m)]"
| "count_mode m ((k, c, b) # r) =
     (if k = lm_mode m then (k, c + 1, b) # r else (k, c, b) # count_mode m r)"

fun count_term :: "lexicon_match \<Rightarrow> (nat \<times> mode_counts) list \<Rightarrow> (nat \<times> mode_counts) list" where
  "count_term m [] = [(lm_term_id m, count_mode m [])]"
| "count_term m ((t, ms) # r) =
     (if t = lm_term_id m then (t, count_mode m ms) # r else (t, ms) # count_term m r)"

text \<open>\<open>Iterator::max_by\<close>: the last of the maximal elements.\<close>

fun max_mode :: "mode_counts \<Rightarrow> (match_mode \<times> nat \<times> lexicon_match) option" where
  "max_mode [] = None"
| "max_mode (x # xs) = Some (foldl (\<lambda>b y.
     if fp_less (match_multiplier (fst y)) (match_multiplier (fst b)) then b else y) x xs)"

text \<open>The two \<open>expect\<close>s cannot fire: multipliers are finite and a term's map is not empty;
  the second is the \<open>None\<close> below.\<close>

definition hits_of :: "(mode_counts \<Rightarrow> mode_counts) \<Rightarrow> mode_counts \<Rightarrow> term_hits exec" where
  "hits_of ord ms = do {
     (k, c, b) \<leftarrow> max_mode (ord ms);
     Some \<lparr>th_best = b, th_occurrences = (if ms = [] then 1 else Max (set (map (\<lambda>(k, c, b). c) ms)))\<rparr>
   }"

definition group_by_term :: "(mode_counts \<Rightarrow> mode_counts) \<Rightarrow> lexicon_match list \<Rightarrow> term_hits list exec"
where
  "group_by_term ord matches =
     those (map (\<lambda>(t, ms). hits_of ord ms) (foldl (\<lambda>acc m. count_term m acc) [] matches))"

definition score_hit :: "fp \<Rightarrow> term_hits \<Rightarrow> fp \<times> fp \<times> evidence_item list \<Rightarrow> fp \<times> fp \<times> evidence_item list"
where
  "score_hit src h acc = (case acc of (positive, reduction, evidence) \<Rightarrow>
     let m = th_best h; occurrences = fp_of_nat 24 (th_occurrences h) in
     if is_exception (lm_category m) then
       (positive, fp_add 24 reduction (fp_mul 24 (f32 40) occurrences), evidence)
     else
       let base = base_score (lm_severity m);
           multiplier = fp_mul 24 (match_multiplier (lm_mode m)) src
       in (fp_add 24 positive (fp_mul 24 (fp_mul 24 (fp_of_nat 24 base) multiplier) occurrences),
           reduction,
           evidence @ [\<lparr>ev_rule_id = lm_dictionary m @ 0x3A # lm_phrase m, ev_category = lm_category m,
             ev_severity = lm_severity m, ev_span = lm_span m, ev_base_score = base,
             ev_multiplier = multiplier\<rparr>]))"

definition score :: "(mode_counts \<Rightarrow> mode_counts) \<Rightarrow> lexicon_match list \<Rightarrow> source_kind
    \<Rightarrow> score_result exec" where
  "score ord matches source = do {
     hits \<leftarrow> group_by_term ord matches;
     let (positive, reduction, evidence) =
           foldl (\<lambda>acc h. score_hit (source_multiplier source) h acc) (Fin 0, Fin 0, []) hits;
         raw = fp_max0 (fp_sub 24 positive reduction)
     in Some \<lparr>sr_score = min (fp_round_u32 raw) 100, sr_evidence = evidence\<rparr>
   }"

section \<open>Evaluator and policy engine\<close>

datatype verdict_action = BlockAction | BlurAction | WarnAction | LogAction | AllowAction

record policy_verdict =
  ve_action :: verdict_action
  ve_score :: nat
  ve_evidence :: "evidence_item list"

record thresholds =
  thr_block :: nat
  thr_warn :: nat

definition thresholds_default :: thresholds where
  "thresholds_default = \<lparr>thr_block = 80, thr_warn = 50\<rparr>"

text \<open>The classifier (\<open>MlClassifier\<close>) is a parameter of the interface; the code does not
  call it.\<close>

type_synonym ml_classifier = "normalized_text \<Rightarrow> evidence_item list \<Rightarrow> fp \<times> ustr"

definition evaluate_score :: "nat \<Rightarrow> evidence_item list \<Rightarrow> thresholds \<Rightarrow> normalized_text option
    \<Rightarrow> ml_classifier option \<Rightarrow> policy_verdict" where
  "evaluate_score sc evidence thr views ml =
     (let action = if thr_block thr \<le> sc then BlockAction
                   else if thr_warn thr \<le> sc then WarnAction else AllowAction
      in \<lparr>ve_action = action, ve_score = sc, ve_evidence = evidence\<rparr>)"

record policy_engine =
  pg_matcher :: lexicon_matcher
  pg_thresholds :: thresholds
  pg_ml :: "ml_classifier option"

definition policy_engine_new :: "lexicon_matcher \<Rightarrow> thresholds \<Rightarrow> policy_engine" where
  "policy_engine_new m thr = \<lparr>pg_matcher = m, pg_thresholds = thr, pg_ml = None\<rparr>"

definition with_ml :: "policy_engine \<Rightarrow> ml_classifier \<Rightarrow> policy_engine" where
  "with_ml e c = e\<lparr>pg_ml := Some c\<rparr>"

definition evaluate_normalized :: "unicode \<Rightarrow> (mode_counts \<Rightarrow> mode_counts) \<Rightarrow> policy_engine
    \<Rightarrow> normalized_text \<Rightarrow> source_kind \<Rightarrow> policy_verdict exec" where
  "evaluate_normalized u ord e views source = do {
     matches \<leftarrow> matches_normalized u (pg_matcher e) views;
     result \<leftarrow> score ord matches source;
     Some (evaluate_score (sr_score result) (sr_evidence result) (pg_thresholds e) (Some views) (pg_ml e))
   }"

definition policy_evaluate :: "unicode \<Rightarrow> (mode_counts \<Rightarrow> mode_counts) \<Rightarrow> policy_engine
    \<Rightarrow> ustr \<Rightarrow> source_kind \<Rightarrow> policy_verdict exec" where
  "policy_evaluate u ord e txt source =
     evaluate_normalized u ord e
       (normalize_views u (for_language u (lx_language (pg_matcher e))) txt) source"

section \<open>Grouping\<close>

definition mode_order_ok :: "(mode_counts \<Rightarrow> mode_counts) \<Rightarrow> bool" where
  "mode_order_ok ord \<longleftrightarrow> (\<forall>ms. mset (ord ms) = mset ms)"

text \<open>Keys in first-seen order, and the two maps in closed form.\<close>

definition first_seen :: "'a list \<Rightarrow> 'a list" where
  "first_seen xs = foldl (\<lambda>acc x. if x \<in> set acc then acc else acc @ [x]) [] xs"

lemma first_seen_snoc:
  "first_seen (xs @ [x]) = (if x \<in> set (first_seen xs) then first_seen xs else first_seen xs @ [x])"
  by (simp add: first_seen_def)

lemma set_first_seen [simp]: "set (first_seen xs) = set xs"
  by (induction xs rule: rev_induct) (auto simp: first_seen_snoc, simp add: first_seen_def)

lemma distinct_first_seen [simp]: "distinct (first_seen xs)"
  by (induction xs rule: rev_induct) (auto simp: first_seen_snoc, simp add: first_seen_def)

definition modes_of :: "lexicon_match list \<Rightarrow> mode_counts" where
  "modes_of ms = foldl (\<lambda>acc m. count_mode m acc) [] ms"

definition of_mode :: "match_mode \<Rightarrow> lexicon_match list \<Rightarrow> lexicon_match list" where
  "of_mode k ms = filter (\<lambda>m. lm_mode m = k) ms"

definition of_term :: "nat \<Rightarrow> lexicon_match list \<Rightarrow> lexicon_match list" where
  "of_term t ms = filter (\<lambda>m. lm_term_id m = t) ms"

lemma of_mode_empty: "of_mode k ms = [] \<longleftrightarrow> k \<notin> lm_mode ` set ms"
  unfolding of_mode_def filter_empty_conv image_iff by metis

lemma of_term_empty: "of_term t ms = [] \<longleftrightarrow> t \<notin> lm_term_id ` set ms"
  unfolding of_term_def filter_empty_conv image_iff by metis

lemma count_mode_map:
  "distinct ks \<Longrightarrow> count_mode m (map (\<lambda>k. (k, C k, B k)) ks) =
     (if lm_mode m \<in> set ks
      then map (\<lambda>k. (k, if k = lm_mode m then C k + 1 else C k, B k)) ks
      else map (\<lambda>k. (k, C k, B k)) ks @ [(lm_mode m, 1, m)])"
  by (induction ks) auto

lemma modes_of_closed:
  "modes_of ms = map (\<lambda>k. (k, length (of_mode k ms), hd (of_mode k ms))) (first_seen (map lm_mode ms))"
proof (induction ms rule: rev_induct)
  case Nil
  then show ?case by (simp add: modes_of_def first_seen_def)
next
  case (snoc m ms)
  have ne: "of_mode k ms \<noteq> []" if "k \<in> lm_mode ` set ms" for k
    using that by (simp add: of_mode_empty)
  have "of_mode (lm_mode m) ms = []" if "lm_mode m \<notin> lm_mode ` set ms"
    using that by (simp add: of_mode_empty)
  moreover have "modes_of (ms @ [m]) = count_mode m (modes_of ms)" by (simp add: modes_of_def)
  ultimately show ?case
    unfolding snoc count_mode_map [OF distinct_first_seen]
    using ne by (auto simp: first_seen_snoc of_mode_def hd_append)
qed

lemma count_term_map:
  "distinct ts \<Longrightarrow> count_term m (map (\<lambda>t. (t, F t)) ts) =
     (if lm_term_id m \<in> set ts
      then map (\<lambda>t. (t, if t = lm_term_id m then count_mode m (F t) else F t)) ts
      else map (\<lambda>t. (t, F t)) ts @ [(lm_term_id m, count_mode m [])])"
  by (induction ts) auto

lemma terms_closed:
  "foldl (\<lambda>acc m. count_term m acc) [] ms
     = map (\<lambda>t. (t, modes_of (of_term t ms))) (first_seen (map lm_term_id ms))"
proof (induction ms rule: rev_induct)
  case Nil
  then show ?case by (simp add: first_seen_def)
next
  case (snoc m ms)
  have "of_term (lm_term_id m) ms = []" if "lm_term_id m \<notin> lm_term_id ` set ms"
    using that by (simp add: of_term_empty)
  then show ?case
    using count_term_map [OF distinct_first_seen, of m "\<lambda>t. modes_of (of_term t ms)" "map lm_term_id ms"] snoc
    by (auto simp: first_seen_snoc of_term_def modes_of_def)
qed

text \<open>The rank of a mode, a rational.\<close>

fun fin_val :: "fp \<Rightarrow> rat" where
  "fin_val (Fin q) = q"
| "fin_val _ = 0"

definition mode_rank :: "match_mode \<Rightarrow> rat" where
  "mode_rank k = fin_val (match_multiplier k)"

lemma match_multiplier_Fin: "match_multiplier k = Fin (mode_rank k)"
  by (cases k) (simp_all add: mode_rank_def f32_def)

definition hit_of :: "(mode_counts \<Rightarrow> mode_counts) \<Rightarrow> mode_counts \<Rightarrow> term_hits" where
  "hit_of ord ms = the (hits_of ord ms)"

lemma foldl_last_max:
  "\<exists>y \<in> set (x # xs). foldl (\<lambda>b y. if fp_less (match_multiplier (fst y)) (match_multiplier (fst b)) then b else y) x xs = y
    \<and> (\<forall>z \<in> set (x # xs). mode_rank (fst z) \<le> mode_rank (fst y))"
proof (induction xs arbitrary: x)
  case (Cons a xs)
  let ?b = "if fp_less (match_multiplier (fst a)) (match_multiplier (fst x)) then x else a"
  from Cons.IH [of ?b] obtain y where y: "y \<in> set (?b # xs)"
    "foldl (\<lambda>b y. if fp_less (match_multiplier (fst y)) (match_multiplier (fst b)) then b else y) ?b xs = y"
    "\<forall>z \<in> set (?b # xs). mode_rank (fst z) \<le> mode_rank (fst y)" by blast
  then have "mode_rank (fst x) \<le> mode_rank (fst y)" "mode_rank (fst a) \<le> mode_rank (fst y)"
    by (auto simp: match_multiplier_Fin split: if_splits)
  with y show ?case by (intro bexI [of _ y]) (auto split: if_splits)
qed simp

lemma max_mode_some:
  assumes "xs \<noteq> []"
  shows "\<exists>y \<in> set xs. max_mode xs = Some y \<and> (\<forall>z \<in> set xs. mode_rank (fst z) \<le> mode_rank (fst y))"
proof (cases xs)
  case (Cons x xs')
  from foldl_last_max [of x xs'] obtain y where "y \<in> set xs" "max_mode xs = Some y"
    "\<forall>z \<in> set xs. mode_rank (fst z) \<le> mode_rank (fst y)" unfolding Cons max_mode.simps by blast
  then show ?thesis by blast
qed (use assms in simp)

text \<open>A term's hits: the best match is one of the term's, in a mode of maximal rank, and the
  number of occurrences is the largest count of any mode.\<close>

lemma hits_of_modes:
  assumes "mode_order_ok ord" "ms \<noteq> []"
  shows "\<exists>h. hits_of ord (modes_of ms) = Some h \<and> th_best h \<in> set ms
    \<and> (\<forall>m \<in> set ms. mode_rank (lm_mode m) \<le> mode_rank (lm_mode (th_best h)))
    \<and> th_occurrences h = Max ((\<lambda>k. length (of_mode k ms)) ` lm_mode ` set ms)"
proof -
  let ?mc = "modes_of ms"
  have keys: "fst ` set ?mc = lm_mode ` set ms" by (simp add: modes_of_closed image_comp comp_def)
  have same: "set (ord ?mc) = set ?mc"
    using assms(1) by (intro mset_eq_setD) (simp add: mode_order_ok_def)
  have ne: "?mc \<noteq> []" "ord ?mc \<noteq> []" using keys same assms(2) by auto
  from max_mode_some [OF ne(2)] obtain y where y: "y \<in> set ?mc" "max_mode (ord ?mc) = Some y"
    "\<forall>z \<in> set ?mc. mode_rank (fst z) \<le> mode_rank (fst y)" unfolding same by blast
  obtain k c b where kcb: "y = (k, c, b)" by (cases y)
  have "k \<in> lm_mode ` set ms \<and> b = hd (of_mode k ms)"
    using y(1) by (auto simp: kcb modes_of_closed)
  moreover from this have "of_mode k ms \<noteq> []" by (simp add: of_mode_empty)
  ultimately have b: "b \<in> set ms" "lm_mode b = k"
    using hd_in_set [of "of_mode k ms"] by (auto simp: of_mode_def)
  have max: "mode_rank (lm_mode m) \<le> mode_rank k" if "m \<in> set ms" for m
  proof -
    have "lm_mode m \<in> fst ` set ?mc" using that keys by blast
    with y(3) kcb show ?thesis by force
  qed
  have "(\<lambda>(k, c, b). c) ` set ?mc = (\<lambda>k. length (of_mode k ms)) ` lm_mode ` set ms"
    by (simp add: modes_of_closed image_comp comp_def)
  then show ?thesis using y(2) kcb b max ne(1) by (simp add: hits_of_def)
qed


lemma group_by_term_eq:
  assumes "mode_order_ok ord"
  shows "group_by_term ord ms
    = Some (map (\<lambda>t. hit_of ord (modes_of (of_term t ms))) (first_seen (map lm_term_id ms)))"
proof -
  have "hits_of ord (modes_of (of_term t ms)) = Some (hit_of ord (modes_of (of_term t ms)))"
    if "t \<in> set (first_seen (map lm_term_id ms))" for t
    using hits_of_modes [OF assms, of "of_term t ms"] that by (auto simp: hit_of_def of_term_empty)
  then show ?thesis
    unfolding group_by_term_def terms_closed map_map comp_def
    by (simp only: split_conv) (rule those_map_Some, simp)
qed

lemma hit_of_modes:
  assumes "mode_order_ok ord" "t \<in> lm_term_id ` set ms" and h: "h = hit_of ord (modes_of (of_term t ms))"
  shows "th_best h \<in> set ms" "lm_term_id (th_best h) = t"
    "\<And>m. m \<in> set ms \<Longrightarrow> lm_term_id m = t \<Longrightarrow> mode_rank (lm_mode m) \<le> mode_rank (lm_mode (th_best h))"
    "th_occurrences h = Max ((\<lambda>k. length (of_mode k (of_term t ms))) ` lm_mode ` set (of_term t ms))"
  using hits_of_modes [OF assms(1), of "of_term t ms"] assms(2)
  by (auto simp: h hit_of_def of_term_empty) (auto simp: of_term_def)

lemma occurrences_pos:
  assumes "ms \<noteq> []"
  shows "1 \<le> Max ((\<lambda>k. length (of_mode k ms)) ` lm_mode ` set ms)"
proof -
  obtain m where m: "m \<in> set ms" using assms by (cases ms) auto
  then have "1 \<le> length (of_mode (lm_mode m) ms)"
    using of_mode_empty [of "lm_mode m" ms] by (cases "of_mode (lm_mode m) ms") auto
  also have "\<dots> \<le> Max ((\<lambda>k. length (of_mode k ms)) ` lm_mode ` set ms)"
    using m by (intro Max_ge) auto
  finally show ?thesis .
qed

section \<open>The score does not depend on the iteration order\<close>

text \<open>Matches of one term share its metadata, as the matcher makes them.\<close>

definition coherent :: "lexicon_match list \<Rightarrow> bool" where
  "coherent ms \<longleftrightarrow> (\<forall>a \<in> set ms. \<forall>b \<in> set ms. lm_term_id a = lm_term_id b \<longrightarrow>
     lm_dictionary a = lm_dictionary b \<and> lm_phrase a = lm_phrase b
     \<and> lm_category a = lm_category b \<and> lm_severity a = lm_severity b)"

lemma coherent_spec: "set ms = matches_spec u l terms v \<Longrightarrow> coherent ms"
  by (auto simp: coherent_def matches_spec_def match_of_def)

definition erase_span :: "evidence_item \<Rightarrow> evidence_item" where
  "erase_span e = e\<lparr>ev_span := Bytes 0 0\<rparr>"

lemma erase_span_item [simp]:
  "erase_span \<lparr>ev_rule_id = i, ev_category = c, ev_severity = sv, ev_span = sp, ev_base_score = b,
     ev_multiplier = m\<rparr> = \<lparr>ev_rule_id = i, ev_category = c, ev_severity = sv, ev_span = Bytes 0 0,
     ev_base_score = b, ev_multiplier = m\<rparr>"
  by (simp add: erase_span_def)

definition same_hit :: "term_hits \<Rightarrow> term_hits \<Rightarrow> bool" where
  "same_hit h h' \<longleftrightarrow> th_occurrences h = th_occurrences h'
     \<and> lm_dictionary (th_best h) = lm_dictionary (th_best h') \<and> lm_phrase (th_best h) = lm_phrase (th_best h')
     \<and> lm_category (th_best h) = lm_category (th_best h') \<and> lm_severity (th_best h) = lm_severity (th_best h')
     \<and> match_multiplier (lm_mode (th_best h)) = match_multiplier (lm_mode (th_best h'))"

lemma score_hits_same:
  assumes "list_all2 same_hit hs hs'"
    and "p = p'" "r = r'" "map erase_span ev = map erase_span ev'"
  shows "case foldl (\<lambda>acc h. score_hit src h acc) (p, r, ev) hs of (p1, r1, ev1) \<Rightarrow>
    case foldl (\<lambda>acc h. score_hit src h acc) (p', r', ev') hs' of (p2, r2, ev2) \<Rightarrow>
      p1 = p2 \<and> r1 = r2 \<and> map erase_span ev1 = map erase_span ev2"
  using assms
proof (induction hs hs' arbitrary: p r ev p' r' ev' rule: list_all2_induct)
  case Nil
  then show ?case by simp
next
  case (Cons h hs h' hs')
  obtain p1 r1 ev1 where 1: "score_hit src h (p, r, ev) = (p1, r1, ev1)" by (metis prod_cases3)
  obtain p2 r2 ev2 where 2: "score_hit src h' (p', r', ev') = (p2, r2, ev2)" by (metis prod_cases3)
  have "p1 = p2 \<and> r1 = r2 \<and> map erase_span ev1 = map erase_span ev2"
    using 1 2 Cons.hyps(1) Cons.prems
    by (cases "is_exception (lm_category (th_best h))")
       (auto simp: score_hit_def same_hit_def Let_def)
  with Cons.IH [of p1 p2 r1 r2 ev1 ev2] 1 2 show ?case by simp
qed

lemma same_hit_orders:
  assumes o: "mode_order_ok ord1" "mode_order_ok ord2" and t: "t \<in> lm_term_id ` set ms"
    and c: "coherent ms"
  shows "same_hit (hit_of ord1 (modes_of (of_term t ms))) (hit_of ord2 (modes_of (of_term t ms)))"
proof -
  note 1 = hit_of_modes [OF o(1) t refl] and 2 = hit_of_modes [OF o(2) t refl]
  have "mode_rank (lm_mode (th_best (hit_of ord1 (modes_of (of_term t ms)))))
      = mode_rank (lm_mode (th_best (hit_of ord2 (modes_of (of_term t ms)))))"
    using 1(3) [OF 2(1,2)] 2(3) [OF 1(1,2)] by (rule antisym [rotated])
  then show ?thesis
    using c 1(1,2,4) 2(1,2,4) unfolding same_hit_def coherent_def match_multiplier_Fin by metis
qed

lemma score_orders:
  assumes "mode_order_ok ord1" "mode_order_ok ord2" "coherent ms"
  shows "\<exists>r1 r2. score ord1 ms src = Some r1 \<and> score ord2 ms src = Some r2
    \<and> sr_score r1 = sr_score r2 \<and> map erase_span (sr_evidence r1) = map erase_span (sr_evidence r2)"
proof -
  let ?hs = "\<lambda>ord. map (\<lambda>t. hit_of ord (modes_of (of_term t ms))) (first_seen (map lm_term_id ms))"
  have "list_all2 same_hit (?hs ord1) (?hs ord2)"
    using same_hit_orders [OF assms(1,2) _ assms(3)] by (simp add: list_all2_conv_all_nth) (metis nth_mem set_first_seen list.set_map)
  from score_hits_same [OF this refl refl refl, of "source_multiplier src" "Fin 0" "Fin 0" "[]"]
  show ?thesis
    unfolding score_def group_by_term_eq [OF assms(1)] group_by_term_eq [OF assms(2)]
    by (auto simp: Let_def split: prod.splits)
qed

section \<open>Bounds on the score\<close>

lemma rnd24: "rnd 24 1 = 1" "rnd 24 80 = 80" "rnd 24 40 = 40"
  using rnd_of_nat [of 1 24] rnd_of_nat [of 80 24] rnd_of_nat [of 40 24] by simp_all

lemma mode_rank_bounds: "0 \<le> mode_rank k" "mode_rank k \<le> 1"
proof -
  have "rnd 24 q \<le> 1 \<and> 0 \<le> rnd 24 q" if "0 \<le> q" "q \<le> 1" for q
    using rnd_mono [of q 1 24] rnd_nonneg [of q 24] that by (simp add: rnd24)
  then show "0 \<le> mode_rank k" "mode_rank k \<le> 1"
    by (cases k; simp add: mode_rank_def f32_def)+
qed

lemma source_multiplier_Fin: "\<exists>q. source_multiplier s = Fin q \<and> 0 \<le> q"
  by (cases s) (auto simp: f32_def intro!: rnd_nonneg)

text \<open>The contribution of a positive hit is not negative; a high-severity hit in a mode and
  from a source of full confidence contributes at least 80.\<close>

lemma score_hit_positive:
  assumes "\<not> is_exception (lm_category (th_best h))" "0 \<le> x"
  shows "\<exists>y ev'. score_hit (source_multiplier s) h (Fin x, r, ev) = (Fin y, r, ev')
    \<and> 0 \<le> y \<and> (80 \<le> x \<longrightarrow> 80 \<le> y)
    \<and> (lm_severity (th_best h) = High \<and> mode_rank (lm_mode (th_best h)) = 1 \<and> source_multiplier s = f32 1
        \<and> 1 \<le> th_occurrences h \<longrightarrow> 80 \<le> y)"
proof -
  obtain q where q: "source_multiplier s = Fin q" "0 \<le> q" using source_multiplier_Fin by blast
  let ?m = "rnd 24 (mode_rank (lm_mode (th_best h)) * q)" and ?n = "rnd 24 (of_nat (th_occurrences h))"
  let ?b = "rnd 24 (of_nat (base_score (lm_severity (th_best h))))"
  let ?c = "rnd 24 (rnd 24 (?b * ?m) * ?n)"
  have n: "0 \<le> ?n" by (simp add: rnd_nonneg)
  have c: "0 \<le> ?c" using mode_rank_bounds q(2) n by (intro rnd_nonneg mult_nonneg_nonneg) simp_all
  have eq: "\<exists>ev'. score_hit (source_multiplier s) h (Fin x, r, ev) = (Fin (rnd 24 (x + ?c)), r, ev')"
    using assms(1) by (simp add: score_hit_def Let_def q match_multiplier_Fin fp_of_nat_def)
  have up: "80 \<le> rnd 24 (x + ?c)" if "80 \<le> x \<or> 80 \<le> ?c"
    using that c assms(2) rnd_mono [of 80 "x + ?c" 24] by (auto simp: rnd24)
  have "80 \<le> ?c" if "lm_severity (th_best h) = High" "mode_rank (lm_mode (th_best h)) = 1"
    "source_multiplier s = f32 1" "1 \<le> th_occurrences h"
  proof -
    have "q = 1" using that(3) q by (simp add: f32_def rnd24)
    moreover have "1 \<le> ?n" using that(4) rnd_mono [of 1 "of_nat (th_occurrences h)" 24] by (simp add: rnd24)
    ultimately have "80 \<le> rnd 24 (?b * ?m) * ?n" using that(1,2) by (simp add: rnd24)
    then show ?thesis using rnd_mono [of 80 _ 24] by (simp add: rnd24)
  qed
  then show ?thesis
    using eq up c assms(2) by (auto intro!: rnd_nonneg)
qed

lemma score_hits_positive:
  assumes "\<And>h. h \<in> set hs \<Longrightarrow> \<not> is_exception (lm_category (th_best h))" "0 \<le> x"
  shows "\<exists>y ev'. foldl (\<lambda>acc h. score_hit (source_multiplier s) h acc) (Fin x, Fin 0, ev) hs = (Fin y, Fin 0, ev')
    \<and> 0 \<le> y \<and> (80 \<le> x \<longrightarrow> 80 \<le> y)
    \<and> ((\<exists>h \<in> set hs. lm_severity (th_best h) = High \<and> mode_rank (lm_mode (th_best h)) = 1
        \<and> source_multiplier s = f32 1 \<and> 1 \<le> th_occurrences h) \<longrightarrow> 80 \<le> y)"
  using assms
proof (induction hs arbitrary: x ev)
  case (Cons h hs)
  from score_hit_positive [of h x s "Fin 0" ev] Cons.prems obtain y ev' where
    1: "score_hit (source_multiplier s) h (Fin x, Fin 0, ev) = (Fin y, Fin 0, ev')" "0 \<le> y"
      "80 \<le> x \<longrightarrow> 80 \<le> y"
      "lm_severity (th_best h) = High \<and> mode_rank (lm_mode (th_best h)) = 1 \<and> source_multiplier s = f32 1
        \<and> 1 \<le> th_occurrences h \<longrightarrow> 80 \<le> y" by auto
  from Cons.IH [of y ev'] Cons.prems 1(2) obtain z ev'' where
    "foldl (\<lambda>acc h. score_hit (source_multiplier s) h acc) (Fin y, Fin 0, ev') hs = (Fin z, Fin 0, ev'')"
    "0 \<le> z" "80 \<le> y \<longrightarrow> 80 \<le> z"
    "(\<exists>h \<in> set hs. lm_severity (th_best h) = High \<and> mode_rank (lm_mode (th_best h)) = 1
        \<and> source_multiplier s = f32 1 \<and> 1 \<le> th_occurrences h) \<longrightarrow> 80 \<le> z" by auto
  with 1 show ?case by auto
qed simp


lemma score_total: "mode_order_ok ord \<Longrightarrow> \<exists>r. score ord ms s = Some r \<and> sr_score r \<le> 100"
  unfolding score_def by (simp add: group_by_term_eq Let_def split: prod.splits)

lemma score_high:
  assumes o: "mode_order_ok ord" and c: "coherent ms"
    and no: "\<And>m. m \<in> set ms \<Longrightarrow> \<not> is_exception (lm_category m)"
    and m: "m \<in> set ms" "lm_severity m = High" "mode_rank (lm_mode m) = 1"
    and s: "source_multiplier s = f32 1"
  shows "\<exists>r. score ord ms s = Some r \<and> 80 \<le> sr_score r"
proof -
  let ?H = "\<lambda>t. hit_of ord (modes_of (of_term t ms))"
  let ?hs = "map ?H (first_seen (map lm_term_id ms))" and ?t = "lm_term_id m"
  have t: "?t \<in> lm_term_id ` set ms" using m(1) by simp
  note hit = hit_of_modes [OF o t refl]
  have "mode_rank (lm_mode (th_best (?H ?t))) = 1"
    using hit(3) [OF m(1) refl] m(3) mode_rank_bounds(2) [of "lm_mode (th_best (?H ?t))"] by simp
  moreover have "lm_severity (th_best (?H ?t)) = High"
    using c hit(1,2) m(1,2) unfolding coherent_def by metis
  moreover have "1 \<le> th_occurrences (?H ?t)"
    unfolding hit(4) by (rule occurrences_pos) (use t in \<open>simp add: of_term_empty\<close>)
  moreover have "?H ?t \<in> set ?hs" using t by simp
  ultimately have ex: "\<exists>h \<in> set ?hs. lm_severity (th_best h) = High \<and> mode_rank (lm_mode (th_best h)) = 1
      \<and> source_multiplier s = f32 1 \<and> 1 \<le> th_occurrences h"
    using s by blast
  have "\<not> is_exception (lm_category (th_best h))" if "h \<in> set ?hs" for h
    using that hit_of_modes(1) [OF o] no by force
  from score_hits_positive [of ?hs 0 s "[]", OF this] ex obtain y ev where
    y: "foldl (\<lambda>acc h. score_hit (source_multiplier s) h acc) (Fin 0, Fin 0, []) ?hs = (Fin y, Fin 0, ev)"
    "80 \<le> y" by auto
  have "80 \<le> rnd 24 y" using rnd_mono [of 80 y 24] y(2) by (simp add: rnd24)
  then have "80 \<le> \<lfloor>rnd 24 y + 1 / 2\<rfloor>" by (simp add: le_floor_iff)
  then have "80 \<le> min (fp_round_u32 (fp_max0 (fp_sub 24 (Fin y) (Fin 0)))) 100"
    using \<open>80 \<le> rnd 24 y\<close> by (simp add: fp_sub_def Let_def max_def nat_le_iff le_nat_iff)
  then show ?thesis
    unfolding score_def group_by_term_eq [OF o] by (simp add: y(1))
qed

text \<open>Only exceptions: no score and no evidence.\<close>

lemma score_hits_exceptions:
  "(\<And>h. h \<in> set hs \<Longrightarrow> is_exception (lm_category (th_best h))) \<Longrightarrow> 0 \<le> x \<Longrightarrow>
   \<exists>y. foldl (\<lambda>acc h. score_hit src h acc) (Fin 0, Fin x, []) hs = (Fin 0, Fin y, []) \<and> 0 \<le> y"
proof (induction hs arbitrary: x)
  case (Cons h hs)
  let ?y = "rnd 24 (x + rnd 24 (rnd 24 40 * rnd 24 (of_nat (th_occurrences h))))"
  have "0 \<le> ?y" using Cons.prems(2) by (intro rnd_nonneg add_nonneg_nonneg mult_nonneg_nonneg) simp_all
  moreover have "score_hit src h (Fin 0, Fin x, []) = (Fin 0, Fin ?y, [])"
    using Cons.prems(1) [of h] by (simp add: score_hit_def Let_def f32_def fp_of_nat_def)
  ultimately show ?case using Cons.IH [of ?y] Cons.prems(1) by simp
qed simp

lemma rnd_neg: "x \<le> 0 \<Longrightarrow> rnd p x = - rnd p (- x)"
  by (cases "x = 0") (auto simp: rnd_def)

lemma score_exceptions:
  assumes o: "mode_order_ok ord" and ex: "\<And>m. m \<in> set ms \<Longrightarrow> is_exception (lm_category m)"
  shows "score ord ms s = Some \<lparr>sr_score = 0, sr_evidence = []\<rparr>"
proof -
  let ?hs = "map (\<lambda>t. hit_of ord (modes_of (of_term t ms))) (first_seen (map lm_term_id ms))"
  have "is_exception (lm_category (th_best h))" if "h \<in> set ?hs" for h
    using that hit_of_modes(1) [OF o] ex by force
  from score_hits_exceptions [of ?hs 0, OF this] obtain y where
    y: "foldl (\<lambda>acc h. score_hit (source_multiplier s) h acc) (Fin 0, Fin 0, []) ?hs = (Fin 0, Fin y, [])" "0 \<le> y"
    by auto
  have "rnd 24 (- y) \<le> 0" using y(2) rnd_neg [of "- y" 24] rnd_nonneg [of y 24] by simp
  then have "fp_max0 (fp_sub 24 (Fin 0) (Fin y)) = Fin 0" by (simp add: fp_sub_def max_def)
  then show ?thesis unfolding score_def group_by_term_eq [OF o] by (simp add: y(1))
qed

section \<open>The engine\<close>

text \<open>The matches a text has under a built lexicon.\<close>

definition text_matches :: "unicode \<Rightarrow> lexicon_builder \<Rightarrow> lexicon_matcher \<Rightarrow> ustr \<Rightarrow> lexicon_match set" where
  "text_matches u b m txt = matches_spec u (lb_language b) (lx_terms m)
     (normalize_views u (for_language u (lb_language b)) txt)"

lemma lexicon_build_language: "lexicon_build u h b = Some (Inr m) \<Longrightarrow> lx_language m = lb_language b"
  by (auto simp: lexicon_build_def bind_eq_Some_conv split: sum.splits)

lemma policy_evaluate_matches:
  assumes "unicode_ok u" "hash_order_ok h" "\<And>d. d \<in> set (lb_dictionaries b) \<Longrightarrow> dictionary_scalars d"
    "scalars txt" "lexicon_build u h b = Some (Inr m)"
  shows "\<exists>ms. set ms = text_matches u b m txt \<and> coherent ms
    \<and> (\<forall>ord. policy_evaluate u ord (policy_engine_new m thr) txt src
      = map_option (\<lambda>r. evaluate_score (sr_score r) (sr_evidence r) thr None None) (score ord ms src))"
proof -
  from lexicon_build_total [where b = b, OF assms(1-4)] assms(5) obtain ms where
    ms: "lexicon_matches u m txt = Some ms" "set ms = text_matches u b m txt"
    by (auto simp: text_matches_def)
  moreover have "coherent ms" using ms(2) unfolding text_matches_def by (rule coherent_spec)
  moreover have "policy_evaluate u ord (policy_engine_new m thr) txt src
      = map_option (\<lambda>r. evaluate_score (sr_score r) (sr_evidence r) thr None None) (score ord ms src)" for ord
    using ms(1) by (simp add: policy_evaluate_def evaluate_normalized_def policy_engine_new_def
        lexicon_matches_def evaluate_score_def map_option_case split: option.splits)
  ultimately show ?thesis by blast
qed


section \<open>A lexicon for the instances\<close>

text \<open>The Unicode tables restricted to ASCII, and a lexicon of one term.\<close>

definition ascii_unicode :: unicode where
  "ascii_unicode = \<lparr>
     u_alnum = (\<lambda>c. (0x30 \<le> c \<and> c \<le> 0x39) \<or> (0x41 \<le> c \<and> c \<le> 0x5A) \<or> (0x61 \<le> c \<and> c \<le> 0x7A)),
     u_lower = map (\<lambda>c. if 0x41 \<le> c \<and> c \<le> 0x5A then c + 0x20 else c),
     u_nfkc = (\<lambda>s. s)\<rparr>"

definition id_order :: hash_order where
  "id_order = \<lparr>ho_byte = (\<lambda>xs. xs), ho_token = (\<lambda>xs. xs)\<rparr>"

definition one_term :: "text_category \<Rightarrow> severity \<Rightarrow> match_mode list \<Rightarrow> lexicon_builder" where
  "one_term c sv modes = add_dictionary (lexicon_builder_new English)
     \<lparr>di_name = [99, 111, 114, 101], di_terms = [dictionary_term_new ([98, 97, 100]) c sv modes]\<rparr>"

definition one_matcher :: "text_category \<Rightarrow> severity \<Rightarrow> match_mode list \<Rightarrow> lexicon_matcher" where
  "one_matcher c sv modes = projr (the (lexicon_build ascii_unicode id_order (one_term c sv modes)))"

lemma ascii_unicode_ok: "unicode_ok ascii_unicode"
  by (auto simp: unicode_ok_def ascii_unicode_def scalars_iff scalar_def)

lemma id_order_ok: "hash_order_ok id_order" "mode_order_ok (\<lambda>xs. xs)"
  by (simp_all add: hash_order_ok_def id_order_def mode_order_ok_def)

lemma toy_scalars: "scalars [97, 32, 98, 97, 100, 32, 100, 97, 121]"
  by (simp add: scalar_def)

lemma one_term_scalars: "d \<in> set (lb_dictionaries (one_term c sv modes)) \<Longrightarrow> dictionary_scalars d"
  by (simp add: one_term_def add_dictionary_def lexicon_builder_new_def dictionary_scalars_def
      dictionary_term_new_def scalar_def)

lemma one_matcher_high:
  "lexicon_build ascii_unicode id_order (one_term ExplicitAct High [ExactPhrase])
     = Some (Inr (one_matcher ExplicitAct High [ExactPhrase]))"
  "lx_terms (one_matcher ExplicitAct High [ExactPhrase])
     = [\<lparr>ct_dictionary = [99, 111, 114, 101], ct_phrase = [98, 97, 100], ct_category = ExplicitAct,
         ct_severity = High, ct_match_modes = [ExactPhrase], ct_surfaces = [[98, 97, 100]]\<rparr>]"
proof -
  have "(case lexicon_build ascii_unicode id_order (one_term ExplicitAct High [ExactPhrase]) of
      Some (Inr m) \<Rightarrow> lx_terms m = [\<lparr>ct_dictionary = [99, 111, 114, 101], ct_phrase = [98, 97, 100], ct_category = ExplicitAct,
         ct_severity = High, ct_match_modes = [ExactPhrase], ct_surfaces = [[98, 97, 100]]\<rparr>] | _ \<Rightarrow> False)"
    by code_simp
  then show "lexicon_build ascii_unicode id_order (one_term ExplicitAct High [ExactPhrase])
     = Some (Inr (one_matcher ExplicitAct High [ExactPhrase]))"
    "lx_terms (one_matcher ExplicitAct High [ExactPhrase])
     = [\<lparr>ct_dictionary = [99, 111, 114, 101], ct_phrase = [98, 97, 100], ct_category = ExplicitAct,
         ct_severity = High, ct_match_modes = [ExactPhrase], ct_surfaces = [[98, 97, 100]]\<rparr>]"
    by (auto simp: one_matcher_def split: option.splits sum.splits)
qed

section \<open>Properties\<close>

text \<open>C8: building a lexicon from dictionaries and matching a text never panic, whatever the
  hash maps' iteration order. When the dictionaries have no blank name, phrase or surface and
  no term without modes, and only then, the result is a matcher; its matches are sorted by
  term, mode and position, and they are exactly the occurrences of the terms' surfaces in the
  views of their modes (for exact phrases: between characters that are not alphanumeric).\<close>

theorem lexicon_matches_exactly:
  assumes "unicode_ok u" and "hash_order_ok h"
    and "\<And>d. d \<in> set (lb_dictionaries b) \<Longrightarrow> dictionary_scalars d"
    and "scalars txt"
  shows "\<exists>r. lexicon_build u h b = Some r
    \<and> (isl r \<longleftrightarrow> \<not> list_all dictionary_valid (lb_dictionaries b))
    \<and> (case r of Inl _ \<Rightarrow> True
       | Inr m \<Rightarrow> \<exists>ms. lexicon_matches u m txt = Some ms \<and> sorted (map match_key ms)
           \<and> set ms = text_matches u b m txt)"
proof -
  from lexicon_build_total [where b = b, OF assms] obtain r where r: "lexicon_build u h b = Some r"
    "case r of Inl _ \<Rightarrow> True | Inr m \<Rightarrow> \<exists>ms. lexicon_matches u m txt = Some ms
       \<and> sorted (map match_key ms) \<and> set ms = text_matches u b m txt"
    unfolding text_matches_def by blast
  moreover have "isl r \<longleftrightarrow> \<not> list_all dictionary_valid (lb_dictionaries b)"
    using r(1) build_dictionaries_Inr [of u "for_language u (lb_language b)" "lb_dictionaries b" build_empty]
    by (auto simp: lexicon_build_def bind_eq_Some_conv split: sum.splits)
  ultimately show ?thesis by blast
qed

theorem lexicon_matches_exactly_witness:
  "\<exists>r. lexicon_build ascii_unicode id_order (one_term ExplicitAct High [ExactPhrase]) = Some r
    \<and> (isl r \<longleftrightarrow> \<not> list_all dictionary_valid (lb_dictionaries (one_term ExplicitAct High [ExactPhrase])))
    \<and> (case r of Inl _ \<Rightarrow> True
       | Inr m \<Rightarrow> \<exists>ms. lexicon_matches ascii_unicode m ([97, 32, 98, 97, 100, 32, 100, 97, 121]) = Some ms
           \<and> sorted (map match_key ms)
           \<and> set ms = text_matches ascii_unicode (one_term ExplicitAct High [ExactPhrase]) m ([97, 32, 98, 97, 100, 32, 100, 97, 121]))"
  by (rule lexicon_matches_exactly [OF ascii_unicode_ok id_order_ok(1) one_term_scalars toy_scalars])

lemma high_term_verdict:
  assumes "unicode_ok u" and "hash_order_ok h" and "mode_order_ok ord"
    and "\<And>d. d \<in> set (lb_dictionaries b) \<Longrightarrow> dictionary_scalars d" and "scalars txt"
    and "lexicon_build u h b = Some (Inr m)"
    and "x \<in> text_matches u b m txt" and "lm_severity x = High"
    and "lm_mode x = ExactPhrase \<or> lm_mode x = UrlTokenSequence"
    and "\<And>y. y \<in> text_matches u b m txt \<Longrightarrow> \<not> is_exception (lm_category y)"
    and "src = BrowserTitle \<or> src = BrowserUrl \<or> src = AccessibilityTree"
    and "thr_block thr \<le> 80"
  shows "\<exists>v. policy_evaluate u ord (policy_engine_new m thr) txt src = Some v \<and> ve_action v = BlockAction"
proof -
  from policy_evaluate_matches [where b = b and thr = thr and src = src, OF assms(1,2,4,5,6)]
  obtain ms where ms: "set ms = text_matches u b m txt" "coherent ms"
    "policy_evaluate u ord (policy_engine_new m thr) txt src
      = map_option (\<lambda>r. evaluate_score (sr_score r) (sr_evidence r) thr None None) (score ord ms src)"
    by blast
  have "mode_rank (lm_mode x) = 1" using assms(9) by (auto simp: mode_rank_def f32_def rnd24)
  moreover have "source_multiplier src = f32 1" using assms(11) by auto
  ultimately obtain r where "score ord ms src = Some r" "80 \<le> sr_score r"
    using score_high [OF assms(3) ms(2)] assms(7,8,10) ms(1) by metis
  with assms(12) ms(3) show ?thesis by (simp add: evaluate_score_def)
qed

text \<open>A text that contains a high-severity term as a phrase or in a URL, read from the
  browser and with no exception term in it, is blocked at the default threshold, whatever else
  it contains and whatever the hash maps' iteration order.\<close>

theorem high_term_blocks:
  assumes "unicode_ok u" and "hash_order_ok h" and "mode_order_ok ord"
    and "\<And>d. d \<in> set (lb_dictionaries b) \<Longrightarrow> dictionary_scalars d" and "scalars txt"
    and "lexicon_build u h b = Some (Inr m)"
    and "x \<in> text_matches u b m txt" and "lm_severity x = High"
    and "lm_mode x = ExactPhrase \<or> lm_mode x = UrlTokenSequence"
    and "\<And>y. y \<in> text_matches u b m txt \<Longrightarrow> \<not> is_exception (lm_category y)"
    and "src = BrowserTitle \<or> src = BrowserUrl \<or> src = AccessibilityTree"
    and "thr_block thr \<le> 80"
  shows "\<exists>v. policy_evaluate u ord (policy_engine_new m thr) txt src = Some v \<and> ve_action v = BlockAction"
  by (rule high_term_verdict [OF assms])

theorem high_term_blocks_witness:
  "\<exists>v. policy_evaluate ascii_unicode (\<lambda>xs. xs)
      (policy_engine_new (one_matcher ExplicitAct High [ExactPhrase]) thresholds_default)
      ([97, 32, 98, 97, 100, 32, 100, 97, 121]) BrowserTitle = Some v \<and> ve_action v = BlockAction"
proof (rule high_term_blocks [OF ascii_unicode_ok id_order_ok one_term_scalars toy_scalars one_matcher_high(1),
      where x = "match_of (lx_terms (one_matcher ExplicitAct High [ExactPhrase])) 0 ExactPhrase ([98, 97, 100]) (Bytes 2 5)"])
  have norm: "nt_normalized (normalize_views ascii_unicode (for_language ascii_unicode English) ([97, 32, 98, 97, 100, 32, 100, 97, 121]))
      = [97, 32] @ [98, 97, 100] @ [32, 100, 97, 121]" by code_simp
  have lang: "lb_language (one_term ExplicitAct High [ExactPhrase]) = English"
    by (simp add: one_term_def add_dictionary_def lexicon_builder_new_def)
  have "phrase_at ascii_unicode ([98, 97, 100]) ([97, 32] @ [98, 97, 100] @ [32, 100, 97, 121]) 2 5"
    unfolding phrase_at_def
    by (intro exI [of _ "[97, 32]"] exI [of _ "[32, 100, 97, 121]"]) code_simp
  then show "match_of (lx_terms (one_matcher ExplicitAct High [ExactPhrase])) 0 ExactPhrase ([98, 97, 100]) (Bytes 2 5)
      \<in> text_matches ascii_unicode (one_term ExplicitAct High [ExactPhrase])
          (one_matcher ExplicitAct High [ExactPhrase]) ([97, 32, 98, 97, 100, 32, 100, 97, 121])"
    unfolding text_matches_def matches_spec_def lang one_matcher_high(2)
    by (intro CollectI exI [of _ 0] exI [of _ ExactPhrase] exI [of _ "[98, 97, 100]"] exI [of _ "Bytes 2 5"])
       (simp add: norm del: for_language.simps)
  show "\<not> is_exception (lm_category y)" if "y \<in> text_matches ascii_unicode
      (one_term ExplicitAct High [ExactPhrase]) (one_matcher ExplicitAct High [ExactPhrase]) ([97, 32, 98, 97, 100, 32, 100, 97, 121])" for y
    using that by (auto simp: text_matches_def matches_spec_def one_matcher_high(2) match_of_def is_exception_def)
qed (simp_all add: match_of_def one_matcher_high(2) thresholds_default_def)


text \<open>C25: the score of a text, the action taken and the evidence except for its spans do not
  depend on the order in which the hash maps of modes are iterated.\<close>

theorem verdict_order_independent:
  assumes "unicode_ok u" and "hash_order_ok h" and "mode_order_ok ord1" and "mode_order_ok ord2"
    and "\<And>d. d \<in> set (lb_dictionaries b) \<Longrightarrow> dictionary_scalars d" and "scalars txt"
    and "lexicon_build u h b = Some (Inr m)"
  shows "\<exists>v1 v2. policy_evaluate u ord1 (policy_engine_new m thr) txt src = Some v1
    \<and> policy_evaluate u ord2 (policy_engine_new m thr) txt src = Some v2
    \<and> ve_action v1 = ve_action v2 \<and> ve_score v1 = ve_score v2 \<and> ve_score v1 \<le> 100
    \<and> map erase_span (ve_evidence v1) = map erase_span (ve_evidence v2)"
proof -
  from policy_evaluate_matches [where b = b and thr = thr and src = src, OF assms(1,2,5,6,7)]
  obtain ms where coh: "coherent ms"
    and "\<And>ord. policy_evaluate u ord (policy_engine_new m thr) txt src
      = map_option (\<lambda>r. evaluate_score (sr_score r) (sr_evidence r) thr None None) (score ord ms src)"
    by blast
  moreover obtain r1 r2 where r: "score ord1 ms src = Some r1" "score ord2 ms src = Some r2"
    "sr_score r1 = sr_score r2" "map erase_span (sr_evidence r1) = map erase_span (sr_evidence r2)"
    using score_orders [OF assms(3,4) coh, of src] by blast
  moreover have "sr_score r2 \<le> 100" using score_total [OF assms(4), of ms src] r(2) by auto
  ultimately show ?thesis by (simp add: evaluate_score_def)
qed

theorem verdict_order_independent_witness:
  "\<exists>v1 v2. policy_evaluate ascii_unicode (\<lambda>xs. xs)
      (policy_engine_new (one_matcher ExplicitAct High [ExactPhrase]) thresholds_default)
      [97, 32, 98, 97, 100, 32, 100, 97, 121] OcrLow = Some v1
    \<and> policy_evaluate ascii_unicode rev
      (policy_engine_new (one_matcher ExplicitAct High [ExactPhrase]) thresholds_default)
      [97, 32, 98, 97, 100, 32, 100, 97, 121] OcrLow = Some v2
    \<and> ve_action v1 = ve_action v2 \<and> ve_score v1 = ve_score v2 \<and> ve_score v1 \<le> 100
    \<and> map erase_span (ve_evidence v1) = map erase_span (ve_evidence v2)"
  by (rule verdict_order_independent [OF ascii_unicode_ok id_order_ok(1) id_order_ok(2) _
        one_term_scalars toy_scalars one_matcher_high(1)])
     (simp add: mode_order_ok_def)

text \<open>A text whose only matches are of exception categories, or that has none, is allowed
  with score 0 and no evidence.\<close>

lemma exceptions_allow:
  assumes "unicode_ok u" and "hash_order_ok h" and "mode_order_ok ord"
    and "\<And>d. d \<in> set (lb_dictionaries b) \<Longrightarrow> dictionary_scalars d" and "scalars txt"
    and "lexicon_build u h b = Some (Inr m)"
    and "\<And>y. y \<in> text_matches u b m txt \<Longrightarrow> is_exception (lm_category y)"
    and "0 < thr_warn thr" and "0 < thr_block thr"
  shows "policy_evaluate u ord (policy_engine_new m thr) txt src
    = Some \<lparr>ve_action = AllowAction, ve_score = 0, ve_evidence = []\<rparr>"
proof -
  from policy_evaluate_matches [where b = b and thr = thr and src = src, OF assms(1,2,4,5,6)]
  obtain ms where ms: "set ms = text_matches u b m txt"
    "policy_evaluate u ord (policy_engine_new m thr) txt src
      = map_option (\<lambda>r. evaluate_score (sr_score r) (sr_evidence r) thr None None) (score ord ms src)"
    by blast
  with score_exceptions [OF assms(3), of ms src] assms(7-9) show ?thesis
    by (simp add: evaluate_score_def)
qed

section \<open>Observations\<close>

definition toy_match :: "match_mode \<Rightarrow> severity \<Rightarrow> match_span \<Rightarrow> lexicon_match" where
  "toy_match mode sv sp = \<lparr>lm_term_id = 0, lm_dictionary = [], lm_phrase = [], lm_category = Nudity,
     lm_severity = sv, lm_mode = mode, lm_surface = [], lm_span = sp\<rparr>"

text \<open>Three occurrences of a medium term reach the block threshold, although a comment in
  \<open>policy.rs\<close> says repetition alone must not take a medium term there.\<close>

lemma medium_repetition_blocks:
  "map_option (\<lambda>r. ve_action (evaluate_score (sr_score r) (sr_evidence r) thresholds_default None None))
     (score (\<lambda>xs. xs) [toy_match ExactPhrase Medium (Bytes 0 3), toy_match ExactPhrase Medium (Bytes 4 7),
        toy_match ExactPhrase Medium (Bytes 8 11)] BrowserTitle) = Some BlockAction"
  by code_simp

text \<open>A term matched both as a phrase and in a URL has two modes of the same multiplier: the
  evidence's span is the one the hash map happens to yield last.\<close>

lemma evidence_span_order:
  "map_option (\<lambda>r. map ev_span (sr_evidence r)) (score (\<lambda>xs. xs) [toy_match ExactPhrase High (Bytes 0 3),
      toy_match UrlTokenSequence High (Tokens 1 2)] BrowserTitle) = Some [Tokens 1 2]"
  "map_option (\<lambda>r. map ev_span (sr_evidence r)) (score rev [toy_match ExactPhrase High (Bytes 0 3),
      toy_match UrlTokenSequence High (Tokens 1 2)] BrowserTitle) = Some [Bytes 0 3]"
  by code_simp+


text \<open>Token spans are relative to one URL, and equal matches are dropped: a term at the same
  place of two URLs (a.bad.io b.bad.io) is one match, although the scorer takes matches for
  the distinct occurrences of the term in the text.\<close>

lemma url_occurrences_merge:
  "map_option (\<lambda>r. case r of Inl _ \<Rightarrow> None | Inr m \<Rightarrow>
       map_option (map lm_span) (lexicon_matches ascii_unicode m [97, 46, 98, 97, 100, 46, 105, 111, 32, 98, 46, 98, 97, 100, 46, 105, 111]))
     (lexicon_build ascii_unicode id_order (one_term Nudity Medium [UrlTokenSequence]))
   = Some (Some [Tokens 1 2])"
  by code_simp

text \<open>URL tokens are lower-cased, the surfaces of a Ukrainian or unknown-language lexicon are
  not: a surface with a capital letter (Bad) never matches, not even the URL a.Bad.io.\<close>

lemma capital_url_surface_never:
  "map_option (\<lambda>r. case r of Inl _ \<Rightarrow> None | Inr m \<Rightarrow> lexicon_matches ascii_unicode m [97, 46, 66, 97, 100, 46, 105, 111])
     (lexicon_build ascii_unicode id_order (add_dictionary (lexicon_builder_new Ukrainian)
        \<lparr>di_name = [99, 111, 114, 101], di_terms = [dictionary_term_new [66, 97, 100] Nudity Medium [UrlTokenSequence]]\<rparr>))
   = Some (Some [])"
  by code_simp

end
