(* ===== verification/Mitm_Hosts.thy ===== *)
theory Mitm_Hosts
  imports Artifact Ip_Addr Sources Text_Policy
begin

text \<open>
  The host rules and the command line of \<open>packages/mitm-proxy/src\<close>: the signed list and the
  trusted keys (\<open>blocklist.rs\<close>), the hooks' host check and keyword rules (\<open>tunnel.rs\<close>),
  \<open>Options::from_args\<close> (\<open>cli.rs\<close>) and \<open>read_keyword_file\<close> (\<open>main.rs\<close>).

  Parameters: \<open>to_ascii\<close> (UTS #46) and the public suffix list as in the other components,
  \<open>VerifyingKey::from_bytes\<close>, and the parsers of socket addresses and of \<open>f32\<close> literals.
\<close>

section \<open>The host list\<close>

datatype host_verdict = HostAllow | HostBlock

definition trim_brackets :: "string \<Rightarrow> string" where
  "trim_brackets host =
     rev (dropWhile (\<lambda>c. c = CHR '']'') (rev (dropWhile (\<lambda>c. c = CHR ''['') host)))"

definition is_ip_host :: "string \<Rightarrow> bool" where
  "is_ip_host host \<longleftrightarrow> parse_ip (trim_brackets host) \<noteq> None"

definition host_list_verdict :: "to_ascii \<Rightarrow> artifact \<Rightarrow> string \<Rightarrow> host_verdict" where
  "host_list_verdict to_ascii art host =
     (if is_ip_host host then HostAllow
      else case normalize to_ascii host of
        Inl _ \<Rightarrow> HostBlock
      | Inr normalized \<Rightarrow>
          (case artifact_lookup art (reverse_key normalized) of
             Some Block \<Rightarrow> HostBlock
           | _ \<Rightarrow> HostAllow))"

section \<open>Trusted keys\<close>

datatype key_error = NoKeyId | EmptyKeyId | KeyNotHex string | KeyNotLength string | KeyNotValid string

text \<open>\<open>u8::from_str_radix\<close> on two characters: a leading plus sign is accepted.\<close>

definition hex_pair :: "char \<Rightarrow> char \<Rightarrow> u8 option" where
  "hex_pair a b =
     (if a = CHR ''+'' then (if is_digit 16 b then Some (word_of_nat (digits_value 16 [b])) else None)
      else if is_digit 16 a \<and> is_digit 16 b then Some (word_of_nat (digits_value 16 [a, b]))
      else None)"

fun hex_pairs :: "string \<Rightarrow> bytes option" where
  "hex_pairs (a # b # rest) =
     (case hex_pair a b of
        None \<Rightarrow> None
      | Some v \<Rightarrow> map_option (\<lambda>vs. v # vs) (hex_pairs rest))"
| "hex_pairs _ = Some []"

definition decode_hex :: "string \<Rightarrow> bytes option" where
  "decode_hex hex =
     (if odd (length hex) \<or> \<not> list_all (\<lambda>c. (of_char c :: nat) < 128) hex then None else hex_pairs hex)"

definition parse_trusted_key :: "(bytes \<Rightarrow> 'vk option) \<Rightarrow> string \<Rightarrow> key_error + key_id \<times> 'vk" where
  "parse_trusted_key vk_from_bytes spec =
     (case split_once CHR '':'' spec of
        None \<Rightarrow> Inl NoKeyId
      | Some (kid, hex) \<Rightarrow>
          if kid = [] then Inl EmptyKeyId
          else case decode_hex hex of
            None \<Rightarrow> Inl (KeyNotHex kid)
          | Some bs \<Rightarrow>
              if length bs \<noteq> 32 then Inl (KeyNotLength kid)
              else case vk_from_bytes bs of
                None \<Rightarrow> Inl (KeyNotValid kid)
              | Some key \<Rightarrow> Inr (kid, key))"

section \<open>The hooks' host check\<close>

record host_rules =
  hr_blocklist :: "artifact option"
  hr_keywords :: keyword_rules

definition host_rules_default :: host_rules where
  "host_rules_default = \<lparr>hr_blocklist = None, hr_keywords = \<lparr>tokens = []\<rparr>\<rparr>"

definition set_host_keywords :: "host_rules \<Rightarrow> string list \<Rightarrow> host_rules" where
  "set_host_keywords hr ts = hr\<lparr>hr_keywords := keyword_rules_new ts\<rparr>"

definition host_keyword_matches :: "to_ascii \<Rightarrow> psl_suffix \<Rightarrow> psl_domain \<Rightarrow> host_rules \<Rightarrow> string \<Rightarrow> bool" where
  "host_keyword_matches to_ascii psl_suffix psl_domain hr host =
     (if keywords_is_empty (hr_keywords hr) \<or> is_ip_host host then False
      else case normalize to_ascii host of
        Inr normalized \<Rightarrow> keyword_matches psl_suffix psl_domain (hr_keywords hr) normalized \<noteq> None
      | Inl _ \<Rightarrow> True)"

definition host_is_blocked :: "to_ascii \<Rightarrow> psl_suffix \<Rightarrow> psl_domain \<Rightarrow> host_rules \<Rightarrow> string \<Rightarrow> bool" where
  "host_is_blocked to_ascii psl_suffix psl_domain hr host \<longleftrightarrow>
     (case hr_blocklist hr of
        Some art \<Rightarrow> host_list_verdict to_ascii art host = HostBlock
      | None \<Rightarrow> False) \<or>
     host_keyword_matches to_ascii psl_suffix psl_domain hr host"

section \<open>Command line\<close>

record ('addr, 'vk) proxy_options =
  po_listen :: 'addr
  po_ca_dir :: string
  po_image_model :: "string option"
  po_image_threshold :: "fp option"
  po_image_sexy_threshold :: "fp option"
  po_blocklist_dir :: "string option"
  po_blocklist_keys :: "(key_id \<times> 'vk) list"
  po_keyword_file :: "string option"

record ('addr, 'vk) arg_parsers =
  ap_socket :: "string \<Rightarrow> 'addr option"
  ap_f32 :: "string \<Rightarrow> fp option"
  ap_key :: "bytes \<Rightarrow> 'vk option"

datatype arg_error =
  MissingValue string
| InvalidListen string
| InvalidThreshold string string
| ThresholdRange string fp
| BadTrustedKey key_error
| UnknownOption string
| ThresholdRequired
| SexyThresholdRequired
| DirNeedsKey
| KeyNeedsDir

text \<open>\<open>--help\<close> prints the usage and leaves the process.\<close>

datatype ('addr, 'vk) args_result =
  ArgsOk "('addr, 'vk) proxy_options"
| ArgsErr arg_error
| ArgsHelp

definition options_default :: "'addr \<Rightarrow> ('addr, 'vk) proxy_options" where
  "options_default local_8080 =
     \<lparr>po_listen = local_8080, po_ca_dir = ''data/ca'', po_image_model = None, po_image_threshold = None,
      po_image_sexy_threshold = None, po_blocklist_dir = None, po_blocklist_keys = [], po_keyword_file = None\<rparr>"

definition parse_threshold :: "('addr, 'vk) arg_parsers \<Rightarrow> string \<Rightarrow> string \<Rightarrow> arg_error + fp" where
  "parse_threshold ap flag raw =
     (case ap_f32 ap raw of
        None \<Rightarrow> Inl (InvalidThreshold flag raw)
      | Some parsed \<Rightarrow>
          if fp_le (Fin 0) parsed \<and> fp_le parsed (Fin 1) then Inr parsed else Inl (ThresholdRange flag parsed))"

text \<open>One option with its value: \<open>None\<close> for a name that is not an option with a value.\<close>

definition set_option ::
  "('addr, 'vk) arg_parsers \<Rightarrow> ('addr, 'vk) proxy_options \<Rightarrow> string \<Rightarrow>
   (string \<Rightarrow> arg_error + ('addr, 'vk) proxy_options) option" where
  "set_option ap opts flag =
     (if flag = ''--listen'' then Some (\<lambda>raw.
        case ap_socket ap raw of None \<Rightarrow> Inl (InvalidListen raw) | Some a \<Rightarrow> Inr (opts\<lparr>po_listen := a\<rparr>))
      else if flag = ''--ca-dir'' then Some (\<lambda>v. Inr (opts\<lparr>po_ca_dir := v\<rparr>))
      else if flag = ''--image-model'' then Some (\<lambda>v. Inr (opts\<lparr>po_image_model := Some v\<rparr>))
      else if flag = ''--image-threshold'' then Some (\<lambda>raw.
        case parse_threshold ap flag raw of Inl e \<Rightarrow> Inl e | Inr t \<Rightarrow> Inr (opts\<lparr>po_image_threshold := Some t\<rparr>))
      else if flag = ''--image-sexy-threshold'' then Some (\<lambda>raw.
        case parse_threshold ap flag raw of Inl e \<Rightarrow> Inl e | Inr t \<Rightarrow> Inr (opts\<lparr>po_image_sexy_threshold := Some t\<rparr>))
      else if flag = ''--blocklist-dir'' then Some (\<lambda>v. Inr (opts\<lparr>po_blocklist_dir := Some v\<rparr>))
      else if flag = ''--blocklist-key'' then Some (\<lambda>v.
        case parse_trusted_key (ap_key ap) v of
          Inl e \<Rightarrow> Inl (BadTrustedKey e)
        | Inr k \<Rightarrow> Inr (opts\<lparr>po_blocklist_keys := po_blocklist_keys opts @ [k]\<rparr>))
      else if flag = ''--keyword-file'' then Some (\<lambda>v. Inr (opts\<lparr>po_keyword_file := Some v\<rparr>))
      else None)"

definition final_checks :: "('addr, 'vk) proxy_options \<Rightarrow> ('addr, 'vk) args_result" where
  "final_checks opts =
     (if po_image_model opts \<noteq> None \<and> po_image_threshold opts = None then ArgsErr ThresholdRequired
      else if po_image_model opts \<noteq> None \<and> po_image_sexy_threshold opts = None then ArgsErr SexyThresholdRequired
      else if po_blocklist_dir opts \<noteq> None \<and> po_blocklist_keys opts = [] then ArgsErr DirNeedsKey
      else if po_blocklist_dir opts = None \<and> po_blocklist_keys opts \<noteq> [] then ArgsErr KeyNeedsDir
      else ArgsOk opts)"

fun read_args :: "('addr, 'vk) arg_parsers \<Rightarrow> ('addr, 'vk) proxy_options \<Rightarrow> string list \<Rightarrow> ('addr, 'vk) args_result" where
  "read_args ap opts [] = final_checks opts"
| "read_args ap opts [flag] =
     (if flag = ''-h'' \<or> flag = ''--help'' then ArgsHelp
      else case set_option ap opts flag of
        None \<Rightarrow> ArgsErr (UnknownOption flag)
      | Some _ \<Rightarrow> ArgsErr (MissingValue flag))"
| "read_args ap opts (flag # v # rest) =
     (if flag = ''-h'' \<or> flag = ''--help'' then ArgsHelp
      else case set_option ap opts flag of
        None \<Rightarrow> ArgsErr (UnknownOption flag)
      | Some set_value \<Rightarrow>
          (case set_value v of Inl e \<Rightarrow> ArgsErr e | Inr opts' \<Rightarrow> read_args ap opts' rest))"

definition from_args :: "('addr, 'vk) arg_parsers \<Rightarrow> 'addr \<Rightarrow> string list \<Rightarrow> ('addr, 'vk) args_result" where
  "from_args ap local_8080 args = read_args ap (options_default local_8080) args"

section \<open>The keyword file\<close>

definition MAX_KEYWORD_FILE_BYTES :: nat where "MAX_KEYWORD_FILE_BYTES = 64 * 1024"

datatype keyword_file_error = KeywordFileRead | KeywordFileTooLong

definition read_keyword_file :: "bytes option \<Rightarrow> keyword_file_error + string list" where
  "read_keyword_file content =
     (case content of
        None \<Rightarrow> Inl KeywordFileRead
      | Some bs \<Rightarrow>
          (case from_utf8 (take (MAX_KEYWORD_FILE_BYTES + 1) bs) of
             None \<Rightarrow> Inl KeywordFileRead
           | Some contents \<Rightarrow>
               if MAX_KEYWORD_FILE_BYTES < length contents then Inl KeywordFileTooLong
               else Inr (str_lines contents)))"

section \<open>Hosts\<close>

lemma host_is_blocked_iff:
  "host_is_blocked to_ascii psls psld hr host \<longleftrightarrow> \<not> is_ip_host host \<and>
     (case normalize to_ascii host of
        Inl _ \<Rightarrow> hr_blocklist hr \<noteq> None \<or> tokens (hr_keywords hr) \<noteq> []
      | Inr k \<Rightarrow> (\<exists>art. hr_blocklist hr = Some art \<and> artifact_lookup art (reverse_key k) = Some Block) \<or>
          keyword_matches psls psld (hr_keywords hr) k \<noteq> None)"
  by (auto simp: host_is_blocked_def host_list_verdict_def host_keyword_matches_def keywords_is_empty_def
      keyword_matches_def split: option.splits sum.splits filter_action.splits)

lemma host_rules_default_allow: "\<not> host_is_blocked to_ascii psls psld host_rules_default host"
  by (simp add: host_is_blocked_def host_rules_default_def host_keyword_matches_def keywords_is_empty_def)

section \<open>Options\<close>

definition unit_threshold :: "fp option \<Rightarrow> bool" where
  "unit_threshold t \<longleftrightarrow> (case t of None \<Rightarrow> True | Some x \<Rightarrow> fp_le (Fin 0) x \<and> fp_le x (Fin 1))"

definition options_inv :: "('addr, 'vk) proxy_options \<Rightarrow> bool" where
  "options_inv opts \<longleftrightarrow> unit_threshold (po_image_threshold opts) \<and> unit_threshold (po_image_sexy_threshold opts) \<and>
     list_all (\<lambda>k. fst k \<noteq> []) (po_blocklist_keys opts)"

lemma options_inv_default: "options_inv (options_default a)"
  by (simp add: options_inv_def options_default_def unit_threshold_def)

lemma parse_threshold_unit: "parse_threshold ap flag raw = Inr t \<Longrightarrow> unit_threshold (Some t)"
  by (auto simp: parse_threshold_def unit_threshold_def split: option.splits if_splits)

lemma parse_trusted_key_id: "parse_trusted_key f spec = Inr k \<Longrightarrow> fst k \<noteq> []"
  by (auto simp: parse_trusted_key_def split: option.splits if_splits)

lemma set_option_inv:
  "set_option ap opts flag = Some f \<Longrightarrow> options_inv opts \<Longrightarrow> f v = Inr opts' \<Longrightarrow> options_inv opts'"
  unfolding set_option_def options_inv_def
  by (auto dest!: parse_threshold_unit parse_trusted_key_id split: if_splits option.splits sum.splits)

lemma read_args_inv: "options_inv opts \<Longrightarrow> read_args ap opts args = ArgsOk r \<Longrightarrow> options_inv r \<and> final_checks r = ArgsOk r"
proof (induction ap opts args rule: read_args.induct)
  case (3 ap opts flag v rest)
  then show ?case by (auto split: if_splits option.splits sum.splits dest: set_option_inv)
qed (auto simp: final_checks_def split: if_splits option.splits)

lemma unit_threshold_Fin: "unit_threshold (Some x) \<Longrightarrow> \<exists>t. x = Fin t \<and> 0 \<le> t \<and> t \<le> 1"
  by (cases x) (auto simp: unit_threshold_def)

text \<open>\<open>Options::from_args\<close> accepts only configurations the proxy can run: a classifier comes
  with both thresholds, each a number in [0, 1], and a list directory comes with at least one
  trusted key, each with a nonempty kid, and never a key without a directory.\<close>

theorem accepted_options:
  assumes "from_args ap local_8080 args = ArgsOk opts"
  shows "(if po_image_model opts = None then True
       else \<exists>t s. po_image_threshold opts = Some (Fin t) \<and> 0 \<le> t \<and> t \<le> 1 \<and>
         po_image_sexy_threshold opts = Some (Fin s) \<and> 0 \<le> s \<and> s \<le> 1) \<and>
     (po_blocklist_dir opts = None) = (po_blocklist_keys opts = []) \<and>
     [] \<notin> fst ` set (po_blocklist_keys opts)"
proof -
  have inv: "options_inv opts" and checks: "final_checks opts = ArgsOk opts"
    using read_args_inv [OF options_inv_default assms [unfolded from_args_def]] by auto
  from checks have given: "po_image_model opts = None \<or>
      (po_image_threshold opts \<noteq> None \<and> po_image_sexy_threshold opts \<noteq> None)"
    "(po_blocklist_dir opts = None) = (po_blocklist_keys opts = [])"
    by (auto simp: final_checks_def split: if_splits)
  then show ?thesis using inv by (auto simp: options_inv_def list_all_iff dest!: unit_threshold_Fin)
qed

definition toy_parsers :: "(unit, unit) arg_parsers" where
  "toy_parsers = \<lparr>ap_socket = (\<lambda>_. None), ap_f32 = (\<lambda>s. if s = ''0.5'' then Some (Fin (1 / 2)) else None),
     ap_key = (\<lambda>_. None)\<rparr>"

theorem accepted_options_witness:
  "\<exists>opts. from_args toy_parsers () [''--image-model'', ''m.onnx'', ''--image-threshold'', ''0.5'',
      ''--image-sexy-threshold'', ''0.5''] = ArgsOk opts \<and>
     (\<exists>t s. po_image_threshold opts = Some (Fin t) \<and> t \<le> 1 \<and> po_image_sexy_threshold opts = Some (Fin s) \<and> s \<le> 1)"
proof -
  let ?args = "[''--image-model'', ''m.onnx'', ''--image-threshold'', ''0.5'', ''--image-sexy-threshold'', ''0.5'']"
  have "case from_args toy_parsers () ?args of ArgsOk opts \<Rightarrow> po_image_model opts \<noteq> None | _ \<Rightarrow> False" by code_simp
  then obtain opts where "from_args toy_parsers () ?args = ArgsOk opts" "po_image_model opts \<noteq> None"
    by (auto split: args_result.splits)
  with accepted_options [OF this(1)] show ?thesis by auto
qed

section \<open>Keys\<close>

definition hex_digit_char :: "nat \<Rightarrow> char" where
  "hex_digit_char n = (if n < 10 then char_of (48 + n) else char_of (87 + n))"

definition encode_hex :: "bytes \<Rightarrow> string" where
  "encode_hex bs = concat (map (\<lambda>b. [hex_digit_char (unat b div 16), hex_digit_char (unat b mod 16)]) bs)"

lemma hex_digit_ok:
  assumes "n < 16"
  shows "digit_val (hex_digit_char n) = Some n" "hex_digit_char n \<noteq> CHR ''+''" "is_digit 16 (hex_digit_char n)"
proof -
  have "\<forall>n \<in> set [0..<16]. digit_val (hex_digit_char n) = Some n \<and> hex_digit_char n \<noteq> CHR ''+'' \<and> is_digit 16 (hex_digit_char n)"
    by code_simp
  with assms show "digit_val (hex_digit_char n) = Some n" "hex_digit_char n \<noteq> CHR ''+''" "is_digit 16 (hex_digit_char n)" by auto
qed

lemma hex_pair_digits: "hex_pair (hex_digit_char (unat b div 16)) (hex_digit_char (unat b mod 16)) = Some b"
proof -
  have "unat b div 16 < 16" "unat b mod 16 < 16" using unat_u8_bound [of b] by auto
  then show ?thesis by (simp add: hex_pair_def hex_digit_ok digits_value_def)
qed

lemma hex_digit_ascii: "n < 16 \<Longrightarrow> (of_char (hex_digit_char n) :: nat) < 128"
  by (simp add: hex_digit_char_def)

lemma decode_encode_hex: "decode_hex (encode_hex bs) = Some bs"
proof -
  have "hex_pairs (encode_hex bs) = Some bs"
    by (induction bs) (simp_all add: encode_hex_def hex_pair_digits)
  moreover have "even (length (encode_hex bs))" by (induction bs) (simp_all add: encode_hex_def)
  moreover have "list_all (\<lambda>c. (of_char c :: nat) < 128) (encode_hex bs)"
    using unat_u8_bound by (induction bs) (auto simp: encode_hex_def hex_digit_ascii less_mult_imp_div_less)
  ultimately show ?thesis by (simp add: decode_hex_def)
qed

text \<open>A key written as its id, a colon and 64 hexadecimal digits is read back, provided the
  kid has no colon and is not empty.\<close>

lemma trusted_key_round_trip:
  assumes "kid \<noteq> []" "CHR '':'' \<notin> set kid" "length bs = 32" "vk_from_bytes bs = Some key"
  shows "parse_trusted_key vk_from_bytes (kid @ CHR '':'' # encode_hex bs) = Inr (kid, key)"
proof -
  have "split_once CHR '':'' (kid @ CHR '':'' # encode_hex bs) = Some (kid, encode_hex bs)"
    using assms(2) by (induction kid) auto
  then show ?thesis using assms by (simp add: parse_trusted_key_def decode_encode_hex)
qed

text \<open>A plus sign counts as a digit of value zero, so 64 characters that are not all
  hexadecimal digits can be a key.\<close>

lemma plus_sign_accepted: "decode_hex ''+f+0'' = Some [15, 0]"
  by code_simp

section \<open>The keyword file\<close>

lemma keyword_file_bounded:
  "read_keyword_file content = Inr ts \<Longrightarrow> \<exists>bs s. content = Some bs \<and> length bs \<le> MAX_KEYWORD_FILE_BYTES \<and>
     from_utf8 bs = Some s \<and> ts = str_lines s"
  by (auto simp: read_keyword_file_def from_utf8_def string_of_bytes_def split: option.splits if_splits)

end
