(* ===== verification/Image_Preprocess.thy ===== *)
theory Image_Preprocess
  imports Text_Policy
begin

text \<open>
  \<open>packages/image-sandbox/src/preprocess.rs\<close>: which images are classified, how they are
  resized, cropped and tiled, and the tensor each window becomes.

  The \<open>image\<close> crate is the parameter record \<open>image_lib\<close> over a type \<open>'img\<close> of decoded
  images (\<open>DynamicImage\<close>): its decoder, its dimensions, \<open>resize_exact\<close> with the triangle
  filter, \<open>crop_imm\<close>, \<open>to_rgb8\<close> and \<open>RgbImage::from_raw\<close>. Dimensions (\<open>u32\<close>) are
  \<open>nat\<close>; a float conversion back to \<open>u32\<close> saturates as Rust's \<open>as\<close> does.
\<close>

section \<open>The image crate\<close>

record rgb_image =
  ri_width :: nat
  ri_height :: nat
  ri_pixels :: "u8 list list"

record 'img image_lib =
  load_from_memory :: "bytes \<Rightarrow> 'img option"
  img_width :: "'img \<Rightarrow> nat"
  img_height :: "'img \<Rightarrow> nat"
  resize_exact :: "'img \<Rightarrow> nat \<Rightarrow> nat \<Rightarrow> 'img"
  crop_imm :: "'img \<Rightarrow> nat \<Rightarrow> nat \<Rightarrow> nat \<Rightarrow> nat \<Rightarrow> 'img"
  to_rgb8 :: "'img \<Rightarrow> rgb_image"
  from_raw :: "nat \<Rightarrow> nat \<Rightarrow> bytes \<Rightarrow> 'img option"

text \<open>The documented behaviour of those functions: a resized image has the size asked for, a
  crop is clamped to its image, an \<open>RgbImage\<close> holds three bytes for each of its pixels,
  and \<open>from_raw\<close> accepts every buffer that is long enough.\<close>

fun chunks3 :: "bytes \<Rightarrow> u8 list list" where
  "chunks3 (a # b # c # rest) = [a, b, c] # chunks3 rest"
| "chunks3 _ = []"

definition image_lib_ok :: "'img image_lib \<Rightarrow> bool" where
  "image_lib_ok lib \<longleftrightarrow>
     (\<forall>i w h. img_width lib (resize_exact lib i w h) = w \<and> img_height lib (resize_exact lib i w h) = h) \<and>
     (\<forall>i x y w h. img_width lib (crop_imm lib i x y w h) = min w (img_width lib i - x) \<and>
        img_height lib (crop_imm lib i x y w h) = min h (img_height lib i - y)) \<and>
     (\<forall>i. ri_width (to_rgb8 lib i) = img_width lib i \<and> ri_height (to_rgb8 lib i) = img_height lib i) \<and>
     (\<forall>i. length (ri_pixels (to_rgb8 lib i)) = img_width lib i * img_height lib i) \<and>
     (\<forall>i. \<forall>p \<in> set (ri_pixels (to_rgb8 lib i)). length p = 3) \<and>
     (\<forall>w h buf. from_raw lib w h buf = None \<longleftrightarrow> length buf < w * h * 3) \<and>
     (\<forall>w h buf i. from_raw lib w h buf = Some i \<longrightarrow>
        img_width lib i = w \<and> img_height lib i = h \<and>
        ri_pixels (to_rgb8 lib i) = take (w * h) (chunks3 buf))"

lemma image_lib_laws:
  assumes "image_lib_ok lib"
  shows "img_width lib (resize_exact lib i w h) = w" "img_height lib (resize_exact lib i w h) = h"
    "img_width lib (crop_imm lib i x y w h) = min w (img_width lib i - x)"
    "img_height lib (crop_imm lib i x y w h) = min h (img_height lib i - y)"
    "ri_width (to_rgb8 lib i) = img_width lib i" "ri_height (to_rgb8 lib i) = img_height lib i"
    "length (ri_pixels (to_rgb8 lib i)) = img_width lib i * img_height lib i"
    "from_raw lib w h buf = None \<longleftrightarrow> length buf < w * h * 3"
    "from_raw lib w h buf = Some i \<Longrightarrow> img_width lib i = w \<and> img_height lib i = h \<and>
       ri_pixels (to_rgb8 lib i) = take (w * h) (chunks3 buf)"
  using assms unfolding image_lib_ok_def by blast+

section \<open>Configuration and admission\<close>

definition INPUT_SIZE :: nat where "INPUT_SIZE = 224"
definition RESIZE_RATIO :: fp where "RESIZE_RATIO = f32 (114 / 100)"
definition IMAGENET_MEAN :: "fp list" where
  "IMAGENET_MEAN = [f32 (485 / 1000), f32 (456 / 1000), f32 (406 / 1000)]"
definition IMAGENET_STD :: "fp list" where
  "IMAGENET_STD = [f32 (229 / 1000), f32 (224 / 1000), f32 (225 / 1000)]"
definition MIN_DIMENSION :: nat where "MIN_DIMENSION = 96"
definition TILE_STRIDE_FRACTION :: fp where "TILE_STRIDE_FRACTION = f32 (1 / 2)"
definition MAX_ASPECT_RATIO :: fp where "MAX_ASPECT_RATIO = f32 8"

datatype preprocess_error = TooSmall nat nat | ExtremeAspect nat nat | EmptyImage

record preprocess_config =
  input_size :: nat
  resize_ratio :: fp
  min_dimension :: nat
  max_aspect_ratio :: fp

definition preprocess_default :: preprocess_config where
  "preprocess_default =
     \<lparr>input_size = INPUT_SIZE, resize_ratio = RESIZE_RATIO, min_dimension = MIN_DIMENSION,
      max_aspect_ratio = MAX_ASPECT_RATIO\<rparr>"

definition admissible :: "nat \<Rightarrow> nat \<Rightarrow> preprocess_config \<Rightarrow> preprocess_error + unit" where
  "admissible width height config =
     (if width = 0 \<or> height = 0 then Inl EmptyImage
      else if width < min_dimension config \<or> height < min_dimension config then Inl (TooSmall width height)
      else
        let long = fp_of_nat 24 (max width height); short = fp_of_nat 24 (min width height)
        in if fp_less (max_aspect_ratio config) (fp_div 24 long short) then Inl (ExtremeAspect width height)
           else Inr ())"

section \<open>Geometry\<close>

text \<open>\<open>x as u32\<close>: truncation towards zero, saturating, \<open>NaN\<close> is 0.\<close>

fun fp_trunc_u32 :: "fp \<Rightarrow> nat" where
  "fp_trunc_u32 (Fin a) = min (nat \<lfloor>a\<rfloor>) (2 ^ 32 - 1)"
| "fp_trunc_u32 PInf = 2 ^ 32 - 1"
| "fp_trunc_u32 _ = 0"

definition scaled_side :: "nat \<Rightarrow> nat \<Rightarrow> nat \<Rightarrow> nat" where
  "scaled_side target long short =
     fp_round_u32 (fp_div 24 (fp_mul 24 (fp_of_nat 24 target) (fp_of_nat 24 long)) (fp_of_nat 24 short))"

definition resize_dims :: "nat \<Rightarrow> nat \<Rightarrow> nat \<Rightarrow> nat \<times> nat" where
  "resize_dims width height target =
     (if width \<le> height then (target, scaled_side target height width)
      else (scaled_side target width height, target))"

definition resize_shorter_side :: "'img image_lib \<Rightarrow> 'img \<Rightarrow> nat \<Rightarrow> 'img" where
  "resize_shorter_side lib picture target =
     (let (new_width, new_height) = resize_dims (img_width lib picture) (img_height lib picture) target
      in resize_exact lib picture (max new_width 1) (max new_height 1))"

definition centre_offset :: "nat \<Rightarrow> nat \<Rightarrow> nat" where
  "centre_offset extent crop =
     (if extent \<le> crop then 0
      else fp_round_u32 (fp_div 53 (fp_of_nat 53 (extent - crop)) (Fin 2)))"

definition step_by :: "nat \<Rightarrow> nat \<Rightarrow> nat list" where
  "step_by final step = map (\<lambda>i. i * step) [0..<final div step + 1]"

definition tile_starts :: "nat \<Rightarrow> nat \<Rightarrow> nat \<Rightarrow> nat list" where
  "tile_starts extent tile stride =
     (if extent \<le> tile then [0]
      else
        let last_start = extent - tile; starts = step_by last_start (max stride 1)
        in if last starts \<noteq> last_start then starts @ [last_start] else starts)"

section \<open>Tensors\<close>

definition normalise_channel :: "nat \<Rightarrow> u8 \<Rightarrow> fp" where
  "normalise_channel channel v =
     (let scaled = fp_div 24 (fp_of_nat 24 (unat v)) (f32 255)
      in fp_div 24 (fp_sub 24 scaled (IMAGENET_MEAN ! channel)) (IMAGENET_STD ! channel))"

text \<open>The indices written are below \<open>3 * pixel_count\<close>, since an \<open>RgbImage\<close> has
  \<open>width * height\<close> pixels.\<close>

definition write_pixel :: "nat \<Rightarrow> nat \<times> u8 list \<Rightarrow> fp list \<Rightarrow> fp list" where
  "write_pixel pixel_count ip tensor =
     (case ip of (index, pixel) \<Rightarrow>
        fold (\<lambda>channel t. t[channel * pixel_count + index := normalise_channel channel (pixel ! channel)])
          [0..<3] tensor)"

definition to_tensor :: "'img image_lib \<Rightarrow> 'img \<Rightarrow> fp list" where
  "to_tensor lib view =
     (let rgb = to_rgb8 lib view; pixel_count = ri_width rgb * ri_height rgb
      in fold (write_pixel pixel_count) (enumerate 0 (ri_pixels rgb)) (replicate (3 * pixel_count) (Fin 0)))"

definition preprocess :: "'img image_lib \<Rightarrow> 'img \<Rightarrow> preprocess_config \<Rightarrow> preprocess_error + fp list" where
  "preprocess lib picture config =
     (case admissible (img_width lib picture) (img_height lib picture) config of
        Inl e \<Rightarrow> Inl e
      | Inr _ \<Rightarrow>
          let target = fp_trunc_u32 (fp_mul 24 (fp_of_nat 24 (input_size config)) (resize_ratio config));
              resized = resize_shorter_side lib picture target;
              tile = input_size config;
              left = centre_offset (img_width lib resized) tile;
              top = centre_offset (img_height lib resized) tile
          in Inr (to_tensor lib (crop_imm lib resized left top tile tile)))"

definition tile_boxes :: "nat \<Rightarrow> nat \<Rightarrow> nat \<Rightarrow> nat \<Rightarrow> (nat \<times> nat) list" where
  "tile_boxes width height tile stride =
     (if width \<ge> height then map (\<lambda>x. (x, 0)) (tile_starts width tile stride)
      else map (\<lambda>y. (0, y)) (tile_starts height tile stride))"

definition preprocess_tiles ::
  "'img image_lib \<Rightarrow> 'img \<Rightarrow> preprocess_config \<Rightarrow> preprocess_error + fp list list" where
  "preprocess_tiles lib picture config =
     (case admissible (img_width lib picture) (img_height lib picture) config of
        Inl e \<Rightarrow> Inl e
      | Inr _ \<Rightarrow>
          let tile = input_size config;
              resized = resize_shorter_side lib picture tile;
              stride = max (fp_trunc_u32 (fp_mul 24 (fp_of_nat 24 tile) TILE_STRIDE_FRACTION)) 1
          in Inr (map (\<lambda>(x, y). to_tensor lib (crop_imm lib resized x y tile tile))
                    (tile_boxes (img_width lib resized) (img_height lib resized) tile stride)))"

section \<open>Windows\<close>

lemma step_by_nonempty [simp]: "step_by l s \<noteq> []"
  by (simp add: step_by_def)

lemma length_step_by: "length (step_by l s) = l div s + 1"
  by (simp add: step_by_def)

lemma set_step_by: "set (step_by l s) = {i * s | i. i \<le> l div s}"
  by (auto simp: step_by_def)

lemma last_step_by: "last (step_by l s) = l div s * s"
  by (simp add: step_by_def)

lemma sorted_step_by: "0 < s \<Longrightarrow> sorted_wrt (<) (step_by l s)"
  by (simp add: step_by_def sorted_wrt_map del: upt_Suc)

lemma step_by_le: "a \<in> set (step_by l s) \<Longrightarrow> a \<le> l"
  by (auto simp: set_step_by) (meson div_times_less_eq_dividend le_trans mult_le_mono1)

lemma hd_tile_starts: "hd (tile_starts extent tile stride) = 0"
  by (simp add: tile_starts_def step_by_def Let_def upt_conv_Cons del: upt_Suc)

lemma tile_starts_nonempty [simp]: "tile_starts extent tile stride \<noteq> []"
  by (simp add: tile_starts_def Let_def)

lemma last_tile_starts: "last (tile_starts extent tile stride) = extent - tile"
  by (simp add: tile_starts_def Let_def)

lemma tile_start_le: "s \<in> set (tile_starts extent tile stride) \<Longrightarrow> s \<le> extent - tile"
  by (auto simp: tile_starts_def Let_def step_by_le split: if_splits)

lemma sorted_tile_starts: "0 < stride \<Longrightarrow> sorted_wrt (<) (tile_starts extent tile stride)"
proof -
  assume st: "0 < stride"
  let ?l = "extent - tile"
  have "a < ?l" if "a \<in> set (step_by ?l stride)" "?l div stride * stride \<noteq> ?l" for a
  proof -
    from that(1) obtain i where i: "a = i * stride" "i \<le> ?l div stride" by (auto simp: set_step_by)
    then have "a \<le> ?l div stride * stride" by simp
    with that(2) div_times_less_eq_dividend [of ?l stride] show ?thesis by linarith
  qed
  with st show ?thesis
    by (auto simp: tile_starts_def Let_def max_def sorted_step_by sorted_wrt_append last_step_by)
qed

lemma div_round_up: "0 < d \<Longrightarrow> l div d * d \<noteq> (l :: nat) \<Longrightarrow> l div d + 1 \<le> (l + d - 1) div d"
proof -
  assume d: "0 < d" and "l div d * d \<noteq> l"
  then have "l div d * d + 1 \<le> l" using div_times_less_eq_dividend [of l d] by linarith
  then have "(l div d + 1) * d \<le> l + d - 1" using d by (simp add: add_mult_distrib)
  then show ?thesis using d by (simp only: less_eq_div_iff_mult_less_eq)
qed

lemma length_with_last:
  assumes "0 < d"
  shows "length (if last (step_by l d) \<noteq> l then step_by l d @ [l] else step_by l d) \<le> (l + d - 1) div d + 1"
proof -
  have "l div d \<le> (l + d - 1) div d" using assms by (intro div_le_mono) simp
  then show ?thesis using div_round_up [OF assms, of l] by (simp add: last_step_by length_step_by)
qed

lemma length_tile_starts:
  "length (tile_starts extent tile stride) \<le> (extent - tile + max stride 1 - 1) div max stride 1 + 1"
proof (cases "extent \<le> tile")
  case False
  have "0 < max stride 1" by simp
  then show ?thesis using False by (simp only: tile_starts_def Let_def if_False length_with_last)
qed (simp add: tile_starts_def)

lemma tile_covers:
  assumes "0 < stride" "stride \<le> tile" "p < extent"
  obtains s where "s \<in> set (tile_starts extent tile stride)" "s \<le> p" "p < s + tile"
proof (cases "extent \<le> tile \<or> extent - tile \<le> p")
  case True
  have "extent - tile \<in> set (tile_starts extent tile stride)"
    by (metis last_in_set last_tile_starts tile_starts_nonempty)
  then show ?thesis by (rule that) (use True assms in auto)
next
  case False
  then have "p div stride * stride \<in> set (tile_starts extent tile stride)"
    using assms by (auto simp: tile_starts_def Let_def set_step_by max_def intro!: exI [of _ "p div stride"] div_le_mono)
  moreover have "p < p div stride * stride + tile"
    using assms div_mult_mod_eq [of p stride] mod_less_divisor [of stride p] by linarith
  ultimately show ?thesis
    using that [of "p div stride * stride"] div_times_less_eq_dividend [of p stride] by blast
qed

section \<open>The scaled side\<close>

lemma f32_constants:
  "rnd 24 8 = 8" "8 < rnd 24 (8001 / 1000)" "rnd 24 (17925 / 10 - 9 / 100) < 17925 / 10"
  "2235 / 10 \<le> rnd 24 (2239 / 10)" "pow2 (- int 24) = 1 / 16777216"
  by code_simp+

lemma scaled_side_bounds:
  assumes ok: "admissible w h preprocess_default = Inr ()"
  shows "224 \<le> scaled_side 224 (max w h) (min w h) \<and> scaled_side 224 (max w h) (min w h) \<le> 1792"
proof -
  define L S where "L = rnd 24 (of_nat (max w h))" and "S = rnd 24 (of_nat (min w h))"
  define M where "M = rnd 24 (224 * L)"
  have pos: "0 < w" "0 < h" using ok by (auto simp: admissible_def split: if_splits)
  have "rnd 24 1 \<le> S" unfolding S_def using pos by (intro rnd_mono) auto
  then have S: "0 < S" using rnd_of_nat [of 1 24] by simp
  have LS: "S \<le> L" unfolding L_def S_def by (intro rnd_mono) auto
  have "rnd 24 (L / S) \<le> 8"
    using ok S by (auto simp: admissible_def preprocess_default_def MAX_ASPECT_RATIO_def f32_def fp_of_nat_def
      Let_def L_def S_def f32_constants(1) split: if_splits)
  then have "L / S \<le> 8001 / 1000"
    using rnd_mono [of "8001 / 1000" "L / S" 24] f32_constants(2) by linarith
  then have L8: "L \<le> 8001 / 1000 * S" using S by (simp add: pos_divide_le_eq)
  have M: "224 * L * (1 - 1 / 16777216) \<le> M \<and> M \<le> 224 * L * (1 + 1 / 16777216)"
    using rnd_near [of "224 * L" 24] S LS by (simp add: M_def pow2_def)
  have up: "M / S \<le> 17925 / 10 - 9 / 100" and low: "2239 / 10 \<le> M / S"
    using M L8 LS S by (simp_all add: pos_divide_le_eq pos_le_divide_eq field_simps)
  have "0 \<le> M / S" using low by linarith
  then have "rnd 24 (M / S) \<le> rnd 24 (17925 / 10 - 9 / 100)" "rnd 24 (2239 / 10) \<le> rnd 24 (M / S)"
    using up low by (intro rnd_mono; simp)+
  then have r: "rnd 24 (M / S) < 17925 / 10" "2235 / 10 \<le> rnd 24 (M / S)"
    using f32_constants(3,4) by linarith+
  then have "\<lfloor>rnd 24 (M / S) + 1 / 2\<rfloor> \<le> 1792" "224 \<le> \<lfloor>rnd 24 (M / S) + 1 / 2\<rfloor>" by linarith+
  moreover have "scaled_side 224 (max w h) (min w h) = min (nat \<lfloor>rnd 24 (M / S) + 1 / 2\<rfloor>) (2 ^ 32 - 1)"
    using S r(2) rnd_of_nat [of 224 24]
    by (simp add: scaled_side_def fp_of_nat_def L_def [symmetric] S_def [symmetric] M_def [symmetric] Let_def)
  ultimately show ?thesis by simp linarith
qed

section \<open>Tensors are planes\<close>

lemma upt_3: "[0..<3] = [0, 1, 2 :: nat]"
  by (simp add: upt_rec)

lemma length_write_pixel [simp]: "length (write_pixel n ip t) = length t"
  by (cases ip) (simp add: write_pixel_def upt_3)

lemma length_fold_write [simp]: "length (fold (write_pixel n) ips t) = length t"
  by (induction ips arbitrary: t) simp_all

lemma length_to_tensor: "length (to_tensor lib v) = 3 * (ri_width (to_rgb8 lib v) * ri_height (to_rgb8 lib v))"
  by (simp add: to_tensor_def Let_def)

lemma write_pixel_nth:
  assumes "c < 3" "i < n" "j < n" "length t = 3 * n"
  shows "write_pixel n (i, p) t ! (c * n + j) = (if i = j then normalise_channel c (p ! c) else t ! (c * n + j))"
proof -
  from assms(1) consider "c = 0" | "c = 1" | "c = 2" by linarith
  then show ?thesis by cases (use assms in \<open>auto simp: write_pixel_def upt_3 nth_list_update\<close>)
qed

lemma fold_write_nth:
  assumes "c < 3" "k + length ps \<le> n" "j < n" "length t = 3 * n"
  shows "fold (write_pixel n) (enumerate k ps) t ! (c * n + j) =
    (if k \<le> j \<and> j < k + length ps then normalise_channel c (ps ! (j - k) ! c) else t ! (c * n + j))"
  using assms
proof (induction ps arbitrary: k t)
  case (Cons p ps)
  then show ?case
    by (auto simp: write_pixel_nth nth_Cons' Suc_diff_Suc)
qed auto

text \<open>The tensor is NCHW: entry \<open>c * n + j\<close> is channel \<open>c\<close> of pixel \<open>j\<close>.\<close>

lemma to_tensor_planes:
  assumes "image_lib_ok lib" and c: "c < 3" and j: "j < img_width lib v * img_height lib v"
  shows "to_tensor lib v ! (c * (img_width lib v * img_height lib v) + j) =
    normalise_channel c (ri_pixels (to_rgb8 lib v) ! j ! c)"
  using c j fold_write_nth [of c 0 "ri_pixels (to_rgb8 lib v)" "img_width lib v * img_height lib v" j]
  by (simp add: to_tensor_def image_lib_laws [OF assms(1)] Let_def)

section \<open>Properties\<close>

lemma default_stride: "max (fp_trunc_u32 (fp_mul 24 (fp_of_nat 24 224) TILE_STRIDE_FRACTION)) 1 = 112"
  by code_simp

lemma resized_dims:
  assumes "image_lib_ok lib" and "admissible (img_width lib p) (img_height lib p) preprocess_default = Inr ()"
    and "r = resize_shorter_side lib p 224"
  shows "min (img_width lib r) (img_height lib r) = 224 \<and> max (img_width lib r) (img_height lib r) \<le> 1792"
  using assms(3) scaled_side_bounds [OF assms(2)]
  by (auto simp: resize_shorter_side_def resize_dims_def image_lib_laws [OF assms(1)] Let_def max_def min_def
    split: if_splits)

lemma box_covers:
  assumes "min w h = 224" "a < w" "b < h"
  shows "\<exists>(x, y) \<in> set (tile_boxes w h 224 112). x \<le> a \<and> a < x + 224 \<and> y \<le> b \<and> b < y + 224"
proof (cases "h \<le> w")
  case True
  obtain s where "s \<in> set (tile_starts w 224 112)" "s \<le> a" "a < s + 224"
    using tile_covers [of 112 224 a w] assms by auto
  then show ?thesis using True assms by (intro bexI [of _ "(s, 0)"]) (auto simp: tile_boxes_def)
next
  case False
  obtain s where "s \<in> set (tile_starts h 224 112)" "s \<le> b" "b < s + 224"
    using tile_covers [of 112 224 b h] assms by auto
  then show ?thesis using False assms by (intro bexI [of _ "(0, s)"]) (auto simp: tile_boxes_def)
qed

lemma default_tile_count: "extent \<le> 1792 \<Longrightarrow> length (tile_starts extent 224 112) \<le> 15"
proof -
  assume "extent \<le> 1792"
  then have "(extent - 224 + 112 - 1) div 112 \<le> (1568 + 112 - 1) div 112" by (intro div_le_mono) simp
  with length_tile_starts [of extent 224 112] show ?thesis by simp
qed

text \<open>C20: The deployed geometry loses nothing and is bounded: for an admissible picture and the
  default configuration, \<open>preprocess_tiles\<close> returns the tensors of at least one and at most 15
  windows of the resized picture, each window lies inside it and gives \<open>3 * 224 * 224\<close>
  floats, and every pixel of the resized picture lies in one of the windows.\<close>

theorem preprocess_tiles_cover:
  assumes lib: "image_lib_ok lib"
    and ok: "admissible (img_width lib p) (img_height lib p) preprocess_default = Inr ()"
    and r: "r = resize_shorter_side lib p 224"
  shows "\<exists>boxes. preprocess_tiles lib p preprocess_default =
      Inr (map (\<lambda>(x, y). to_tensor lib (crop_imm lib r x y 224 224)) boxes) \<and>
    1 \<le> length boxes \<and> length boxes \<le> 15 \<and>
    (\<forall>(x, y) \<in> set boxes. x + 224 \<le> img_width lib r \<and> y + 224 \<le> img_height lib r \<and>
       length (to_tensor lib (crop_imm lib r x y 224 224)) = 3 * 224 * 224) \<and>
    (\<forall>a < img_width lib r. \<forall>b < img_height lib r.
       \<exists>(x, y) \<in> set boxes. x \<le> a \<and> a < x + 224 \<and> y \<le> b \<and> b < y + 224)"
proof -
  let ?w = "img_width lib r" and ?h = "img_height lib r"
  define boxes where "boxes = tile_boxes ?w ?h 224 112"
  note d = resized_dims [OF lib ok r]
  have "preprocess_tiles lib p preprocess_default =
      Inr (map (\<lambda>(x, y). to_tensor lib (crop_imm lib r x y 224 224)) boxes)"
    using ok r default_stride
    by (simp add: preprocess_tiles_def boxes_def Let_def preprocess_default_def INPUT_SIZE_def)
  moreover have "1 \<le> length boxes \<and> length boxes \<le> 15"
    using d default_tile_count by (auto simp: boxes_def tile_boxes_def Suc_le_eq)
  moreover have inside: "x + 224 \<le> ?w \<and> y + 224 \<le> ?h" if "(x, y) \<in> set boxes" for x y
    using that d by (auto simp: boxes_def tile_boxes_def min_def dest!: tile_start_le split: if_splits)
  moreover have "length (to_tensor lib (crop_imm lib r x y 224 224)) = 3 * 224 * 224" if "(x, y) \<in> set boxes" for x y
  proof -
    have "min 224 (?w - x) = 224" "min 224 (?h - y) = 224" using inside [OF that] by auto
    then show ?thesis by (simp add: length_to_tensor image_lib_laws [OF lib])
  qed
  moreover have "\<exists>(x, y) \<in> set boxes. x \<le> a \<and> a < x + 224 \<and> y \<le> b \<and> b < y + 224"
    if "a < ?w" "b < ?h" for a b
    unfolding boxes_def using that d by (intro box_covers) auto
  ultimately show ?thesis by blast
qed

text \<open>An implementation of the parameters: pictures are their own pixel lists, and resizing
  paints the target in the first pixel.\<close>

definition pixel_or_black :: "u8 list list \<Rightarrow> nat \<Rightarrow> u8 list" where
  "pixel_or_black ps k = (if k < length ps \<and> length (ps ! k) = 3 then ps ! k else [0, 0, 0])"

definition pixel_lib :: "rgb_image image_lib" where
  "pixel_lib =
     \<lparr>load_from_memory = (\<lambda>b. if b = [] then None else Some \<lparr>ri_width = 800, ri_height = 100, ri_pixels = [b]\<rparr>),
      img_width = ri_width, img_height = ri_height,
      resize_exact = (\<lambda>i w h. \<lparr>ri_width = w, ri_height = h, ri_pixels = replicate (w * h) (pixel_or_black (ri_pixels i) 0)\<rparr>),
      crop_imm = (\<lambda>i x y w h.
        let w' = min w (ri_width i - x); h' = min h (ri_height i - y)
        in \<lparr>ri_width = w', ri_height = h',
            ri_pixels = map (\<lambda>k. pixel_or_black (ri_pixels i) ((y + k div w') * ri_width i + x + k mod w')) [0..<w' * h']\<rparr>),
      to_rgb8 = (\<lambda>i. i\<lparr>ri_pixels := map (pixel_or_black (ri_pixels i)) [0..<ri_width i * ri_height i]\<rparr>),
      from_raw = (\<lambda>w h buf. if length buf < w * h * 3 then None
        else Some \<lparr>ri_width = w, ri_height = h, ri_pixels = take (w * h) (chunks3 buf)\<rparr>)\<rparr>"

lemma length_pixel_or_black: "length (pixel_or_black ps k) = 3"
  by (simp add: pixel_or_black_def)

lemma length_chunks3: "length (chunks3 b) = length b div 3"
  by (induction b rule: chunks3.induct) auto

lemma chunks3_three: "p \<in> set (chunks3 b) \<Longrightarrow> length p = 3"
  by (induction b rule: chunks3.induct) auto

lemma map_pixel_or_black:
  assumes "n * 3 \<le> length b"
  shows "map (pixel_or_black (take n (chunks3 b))) [0..<n] = take n (chunks3 b)"
proof (rule nth_equalityI)
  have n: "n \<le> length (chunks3 b)" using assms by (simp add: length_chunks3 less_eq_div_iff_mult_less_eq)
  then show "length (map (pixel_or_black (take n (chunks3 b))) [0..<n]) = length (take n (chunks3 b))" by simp
  show "map (pixel_or_black (take n (chunks3 b))) [0..<n] ! i = take n (chunks3 b) ! i"
    if "i < length (map (pixel_or_black (take n (chunks3 b))) [0..<n])" for i
    using that n chunks3_three [OF nth_mem [of i "chunks3 b"]] by (auto simp: pixel_or_black_def)
qed

lemma pixel_lib_rgb8:
  "ri_width (to_rgb8 pixel_lib i) = ri_width i" "ri_height (to_rgb8 pixel_lib i) = ri_height i"
  "ri_pixels (to_rgb8 pixel_lib i) = map (pixel_or_black (ri_pixels i)) [0..<ri_width i * ri_height i]"
  "img_width pixel_lib = ri_width" "img_height pixel_lib = ri_height"
  by (simp_all add: pixel_lib_def)

lemma pixel_lib_from_raw:
  "from_raw pixel_lib w h buf = (if length buf < w * h * 3 then None
     else Some \<lparr>ri_width = w, ri_height = h, ri_pixels = take (w * h) (chunks3 buf)\<rparr>)"
  by (simp add: pixel_lib_def)

lemma pixel_lib_sizes:
  "ri_width (resize_exact pixel_lib i w h) = w" "ri_height (resize_exact pixel_lib i w h) = h"
  "ri_width (crop_imm pixel_lib i x y w h) = min w (ri_width i - x)"
  "ri_height (crop_imm pixel_lib i x y w h) = min h (ri_height i - y)"
  by (simp_all add: pixel_lib_def Let_def)

lemma pixel_lib_ok: "image_lib_ok pixel_lib"
  unfolding image_lib_ok_def pixel_lib_rgb8 pixel_lib_sizes
  by (auto simp: pixel_lib_from_raw length_pixel_or_black map_pixel_or_black split: if_splits)

definition banner :: rgb_image where
  "banner = \<lparr>ri_width = 800, ri_height = 100, ri_pixels = []\<rparr>"

lemma banner_admissible:
  "admissible (img_width pixel_lib banner) (img_height pixel_lib banner) preprocess_default = Inr ()"
  by code_simp

theorem preprocess_tiles_cover_witness:
  "\<exists>boxes. preprocess_tiles pixel_lib banner preprocess_default =
      Inr (map (\<lambda>(x, y). to_tensor pixel_lib
        (crop_imm pixel_lib (resize_shorter_side pixel_lib banner 224) x y 224 224)) boxes) \<and>
    length boxes \<le> 15"
  using preprocess_tiles_cover [OF pixel_lib_ok banner_admissible refl] by blast

section \<open>The centre crop\<close>

text \<open>\<open>torchvision\<close> computes \<open>int(round((extent - crop) / 2.0))\<close>, and Python's \<open>round\<close> takes
  halves to the even integer.\<close>

definition python_offset :: "nat \<Rightarrow> nat \<Rightarrow> nat" where
  "python_offset extent crop = nat (round_half_even (of_nat (extent - crop) / 2))"

lemma floor_half: "\<lfloor>of_nat d / (2 :: rat)\<rfloor> = int (d div 2)"
  using floor_divide_of_nat_eq [of d 2, where 'a = rat] by simp

lemma floor_half_up: "\<lfloor>of_nat d / 2 + 1 / (2 :: rat)\<rfloor> = int ((d + 1) div 2)"
proof -
  have "of_nat d / 2 + 1 / (2 :: rat) = of_nat (d + 1) / 2" by (simp add: field_simps)
  then show ?thesis by (simp only: floor_half)
qed

lemma centre_offset_eq:
  assumes "extent < 2 ^ 32"
  shows "centre_offset extent crop = (extent - crop + 1) div 2"
proof (cases "extent \<le> crop")
  case False
  let ?d = "extent - crop"
  have d: "?d < 2 ^ 53" using assms by simp
  have half: "rnd 53 (of_nat ?d / 2) = of_nat ?d / 2"
    using d by (intro rnd_exact [of "int ?d" 53 _ "- 1"]) (simp_all add: pow2_def)
  have "centre_offset extent crop = min (nat \<lfloor>of_nat ?d / 2 + 1 / (2 :: rat)\<rfloor>) (2 ^ 32 - 1)"
    using False rnd_of_nat [OF d]
    by (simp add: half centre_offset_def fp_of_nat_def Let_def del: of_nat_diff)
  also have "\<dots> = (?d + 1) div 2" using assms by (simp only: floor_half_up nat_int)
  finally show ?thesis .
qed (simp add: centre_offset_def)

lemma python_offset_eq:
  "python_offset extent crop =
     (if (extent - crop) mod 4 = 1 then (extent - crop) div 2 else (extent - crop + 1) div 2)"
proof -
  define d where "d = extent - crop"
  have half: "of_nat d / (2 :: rat) - of_int (int (d div 2)) = of_nat (d mod 2) / 2"
  proof -
    have "(of_nat d :: rat) = of_nat (d div 2) * 2 + of_nat (d mod 2)"
      by (metis div_mult_mod_eq of_nat_add of_nat_mult of_nat_numeral)
    then show ?thesis unfolding of_int_of_nat_eq by linarith
  qed
  show ?thesis
  proof (cases "d mod 2 = 0")
    case True
    then have "d mod 4 \<noteq> 1" "(d + 1) div 2 = d div 2" by presburger+
    then show ?thesis using True
      by (simp only: python_offset_def d_def [symmetric] round_half_even_def Let_def floor_half half) simp
  next
    case False
    then have "(d + 1) div 2 = d div 2 + 1" "d mod 2 = 1" "even (d div 2) \<longleftrightarrow> d mod 4 = 1" by presburger+
    then show ?thesis
      by (simp only: python_offset_def d_def [symmetric] round_half_even_def Let_def floor_half half)
        (simp add: nat_add_distrib)
  qed
qed

text \<open>The Rust offset is the Python one except when the remainder is 1 modulo 4, where it is
  one pixel larger.\<close>

lemma centre_offset_vs_python:
  assumes "extent < 2 ^ 32"
  shows "centre_offset extent crop = python_offset extent crop + (if (extent - crop) mod 4 = 1 then 1 else 0)"
proof -
  have "(d + 1) div 2 = d div 2 + 1" if "d mod 4 = 1" for d :: nat using that by presburger
  then show ?thesis using assms by (simp add: centre_offset_eq python_offset_eq)
qed

end
