(* ===== verification/Image_Sandbox.thy ===== *)
theory Image_Sandbox
  imports Image_Preprocess
begin

text \<open>
  \<open>packages/image-sandbox/src\<close>: raw framebuffers (\<open>raw.rs\<close>), the class scores of one
  tile (\<open>classifier.rs\<close>), the verdict on an image (\<open>sandbox.rs\<close>), and the handle of
  \<open>packages/image-sandbox-ffi\<close>.

  The ONNX session and \<open>f32::exp\<close> are parameters of a classifier. \<open>image_from_raw\<close>
  multiplies \<open>usize\<close> values that a caller chooses, so here the products wrap at \<open>2 ^ 64\<close>
  as in a release build, and the panics of \<open>Vec::with_capacity\<close> and \<open>expect\<close> are \<open>None\<close>.
  Logits are arbitrary \<open>f32\<close> values; quotients below \<open>2 ^ -126\<close> are not made subnormal.
\<close>

section \<open>Raw frames\<close>

datatype pixel_layout = Bgra | Rgba

fun channel_offsets :: "pixel_layout \<Rightarrow> nat \<times> nat \<times> nat" where
  "channel_offsets Bgra = (2, 1, 0)"
| "channel_offsets Rgba = (0, 1, 2)"

datatype raw_frame_error = EmptyFrame | BufferTooSmall nat nat

definition BYTES_PER_PIXEL :: nat where "BYTES_PER_PIXEL = 4"

fun chunks4 :: "bytes \<Rightarrow> u8 list list" where
  "chunks4 (a # b # c # d # rest) = [a, b, c, d] # chunks4 rest"
| "chunks4 _ = []"

definition usize_mul :: "nat \<Rightarrow> nat \<Rightarrow> nat" where
  "usize_mul a b = a * b mod 2 ^ 64"

definition ISIZE_MAX :: nat where "ISIZE_MAX = 2 ^ 63 - 1"

definition image_from_raw ::
  "'img image_lib \<Rightarrow> bytes \<Rightarrow> nat \<Rightarrow> nat \<Rightarrow> pixel_layout \<Rightarrow> (raw_frame_error + 'img) exec" where
  "image_from_raw lib pixels width height layout =
     (if width = 0 \<or> height = 0 then Some (Inl EmptyFrame)
      else
        let expected = usize_mul (usize_mul width height) BYTES_PER_PIXEL
        in if length pixels < expected then Some (Inl (BufferTooSmall expected (length pixels)))
           else if ISIZE_MAX < usize_mul (usize_mul width height) 3 then None
           else
             let (red, green, blue) = channel_offsets layout;
                 rgb = concat (map (\<lambda>p. [p ! red, p ! green, p ! blue]) (chunks4 (take expected pixels)))
             in (case from_raw lib width height rgb of None \<Rightarrow> None | Some buffer \<Rightarrow> Some (Inr buffer)))"

section \<open>Class scores\<close>

text \<open>\<open>f32::max\<close> ignores a \<open>NaN\<close> operand.\<close>

fun fp_max :: "fp \<Rightarrow> fp \<Rightarrow> fp" where
  "fp_max NaN y = y"
| "fp_max x NaN = x"
| "fp_max x y = (if fp_less x y then y else x)"

record classify_result =
  safe_score :: fp
  sexy_score :: fp
  explicit_score :: fp

definition SAFE_INDEX :: nat where "SAFE_INDEX = 0"
definition SEXY_INDEX :: nat where "SEXY_INDEX = 1"
definition EXPLICIT_INDEX :: nat where "EXPLICIT_INDEX = 2"
definition CLASS_COUNT :: nat where "CLASS_COUNT = 3"

definition class_scores :: "(fp \<Rightarrow> fp) \<Rightarrow> fp list \<Rightarrow> classify_result" where
  "class_scores expf logits =
     (let largest = foldl fp_max NInf logits;
          exponentiated = map (\<lambda>v. expf (fp_sub 24 v largest)) logits;
          total = foldl (fp_add 24) (Fin 0) exponentiated
      in \<lparr>safe_score = fp_div 24 (exponentiated ! SAFE_INDEX) total,
          sexy_score = fp_div 24 (exponentiated ! SEXY_INDEX) total,
          explicit_score = fp_div 24 (exponentiated ! EXPLICIT_INDEX) total\<rparr>)"

datatype classifier_error = SessionError | UnexpectedInput nat nat | UnexpectedOutput nat | Unavailable

record image_classifier =
  cl_input_size :: nat
  cl_run :: "fp list \<Rightarrow> fp list option"
  cl_exp :: "fp \<Rightarrow> fp"

definition classify :: "image_classifier \<Rightarrow> fp list \<Rightarrow> classifier_error + classify_result" where
  "classify cl tensor =
     (let expected = 3 * (cl_input_size cl * cl_input_size cl)
      in if length tensor \<noteq> expected then Inl (UnexpectedInput (length tensor) expected)
         else case cl_run cl tensor of
           None \<Rightarrow> Inl SessionError
         | Some logits \<Rightarrow>
             if length logits < CLASS_COUNT then Inl (UnexpectedOutput (length logits))
             else Inr (class_scores (cl_exp cl) (take CLASS_COUNT logits)))"

section \<open>The sandbox\<close>

datatype image_verdict = ImageAllow | ImageWarn fp | ImageBlock fp

definition reduce_tile_scores :: "fp list \<Rightarrow> fp" where
  "reduce_tile_scores scores = foldl fp_max (Fin 0) scores"

record scored_verdict =
  sv_verdict :: image_verdict
  sv_score :: "fp option"

definition unscored_allow :: scored_verdict where
  "unscored_allow = \<lparr>sv_verdict = ImageAllow, sv_score = None\<rparr>"

record sandbox_config =
  explicit_threshold :: fp
  sexy_threshold :: fp
  sb_preprocess :: preprocess_config

record image_sandbox =
  sb_classifier :: "image_classifier option"
  sb_config :: sandbox_config

definition sandbox_disabled :: image_sandbox where
  "sandbox_disabled =
     \<lparr>sb_classifier = None,
      sb_config = \<lparr>explicit_threshold = Fin 0, sexy_threshold = Fin 0, sb_preprocess = preprocess_default\<rparr>\<rparr>"

definition sandbox_new :: "image_classifier \<Rightarrow> sandbox_config \<Rightarrow> image_sandbox" where
  "sandbox_new cl config = \<lparr>sb_classifier = Some cl, sb_config = config\<rparr>"

fun score_tiles :: "image_classifier \<Rightarrow> fp list list \<Rightarrow> fp list \<Rightarrow> fp list \<Rightarrow> (fp list \<times> fp list) option" where
  "score_tiles cl [] sexy explicit = Some (sexy, explicit)"
| "score_tiles cl (tile # tiles) sexy explicit =
     (case classify cl tile of
        Inl _ \<Rightarrow> None
      | Inr r \<Rightarrow> score_tiles cl tiles (sexy @ [sexy_score r]) (explicit @ [explicit_score r]))"

definition decide_scores :: "sandbox_config \<Rightarrow> fp list \<Rightarrow> fp list \<Rightarrow> scored_verdict" where
  "decide_scores config sexy_scores explicit_scores =
     (let explicit = reduce_tile_scores explicit_scores; sexy = reduce_tile_scores sexy_scores
      in if fp_le (explicit_threshold config) explicit
         then \<lparr>sv_verdict = ImageBlock explicit, sv_score = Some explicit\<rparr>
         else if fp_le (sexy_threshold config) sexy
         then \<lparr>sv_verdict = ImageWarn sexy, sv_score = Some sexy\<rparr>
         else \<lparr>sv_verdict = ImageAllow, sv_score = Some (fp_max explicit sexy)\<rparr>)"

definition check_image :: "'img image_lib \<Rightarrow> image_sandbox \<Rightarrow> 'img \<Rightarrow> scored_verdict" where
  "check_image lib sb picture =
     (case sb_classifier sb of
        None \<Rightarrow> unscored_allow
      | Some cl \<Rightarrow>
          (case preprocess_tiles lib picture (sb_preprocess (sb_config sb)) of
             Inl _ \<Rightarrow> unscored_allow
           | Inr tiles \<Rightarrow>
               (case score_tiles cl tiles [] [] of
                  None \<Rightarrow> unscored_allow
                | Some (sexy, explicit) \<Rightarrow> decide_scores (sb_config sb) sexy explicit)))"

definition sandbox_check :: "'img image_lib \<Rightarrow> image_sandbox \<Rightarrow> bytes \<Rightarrow> image_verdict" where
  "sandbox_check lib sb bs =
     (if sb_classifier sb = None then ImageAllow
      else case load_from_memory lib bs of
        None \<Rightarrow> ImageAllow
      | Some picture \<Rightarrow> sv_verdict (check_image lib sb picture))"

definition check_raw ::
  "'img image_lib \<Rightarrow> image_sandbox \<Rightarrow> bytes \<Rightarrow> nat \<Rightarrow> nat \<Rightarrow> pixel_layout \<Rightarrow> scored_verdict exec" where
  "check_raw lib sb pixels width height layout =
     (if sb_classifier sb = None then Some unscored_allow
      else do {
        r \<leftarrow> image_from_raw lib pixels width height layout;
        Some (case r of Inl _ \<Rightarrow> unscored_allow | Inr picture \<Rightarrow> check_image lib sb picture)
      })"

section \<open>The handle of image-sandbox-ffi\<close>

datatype frame_pixel_layout = FrameBgra | FrameRgba

fun layout_of_frame :: "frame_pixel_layout \<Rightarrow> pixel_layout" where
  "layout_of_frame FrameBgra = Bgra"
| "layout_of_frame FrameRgba = Rgba"

datatype image_outcome = OutcomeAllow "fp option" | OutcomeWarn fp | OutcomeBlock fp

definition outcome_of :: "scored_verdict \<Rightarrow> image_outcome" where
  "outcome_of v =
     (case sv_verdict v of
        ImageAllow \<Rightarrow> OutcomeAllow (sv_score v)
      | ImageWarn s \<Rightarrow> OutcomeWarn s
      | ImageBlock s \<Rightarrow> OutcomeBlock s)"

text \<open>\<open>ImageClassifier::load\<close> is the parameter \<open>load_model\<close>.\<close>

definition guard_with_model ::
  "('path \<Rightarrow> nat \<Rightarrow> classifier_error + image_classifier) \<Rightarrow> 'path \<Rightarrow> fp \<Rightarrow> fp \<Rightarrow> classifier_error + image_sandbox" where
  "guard_with_model load_model path sexy explicit =
     (case load_model path (input_size preprocess_default) of
        Inl e \<Rightarrow> Inl e
      | Inr cl \<Rightarrow> Inr (sandbox_new cl
          \<lparr>explicit_threshold = explicit, sexy_threshold = sexy, sb_preprocess = preprocess_default\<rparr>))"

definition classify_frame ::
  "'img image_lib \<Rightarrow> image_sandbox \<Rightarrow> bytes \<Rightarrow> nat \<Rightarrow> nat \<Rightarrow> frame_pixel_layout \<Rightarrow> image_outcome exec" where
  "classify_frame lib sb pixels width height layout =
     map_option outcome_of (check_raw lib sb pixels width height (layout_of_frame layout))"

section \<open>Raw frames read correctly\<close>

lemma chunks4_nth:
  assumes "4 * n \<le> length px"
  shows "chunks4 (take (4 * n) px) = map (\<lambda>k. [px ! (4 * k), px ! (4 * k + 1), px ! (4 * k + 2), px ! (4 * k + 3)]) [0..<n]"
  using assms
proof (induction n arbitrary: px)
  case (Suc n)
  then obtain a b c d rest where px: "px = a # b # c # d # rest"
    by (cases px rule: chunks4.cases) auto
  with Suc have "chunks4 (take (4 * n) rest) =
      map (\<lambda>k. [rest ! (4 * k), rest ! (4 * k + 1), rest ! (4 * k + 2), rest ! (4 * k + 3)]) [0..<n]" by simp
  then show ?case by (simp add: px map_upt_Suc numeral_eq_Suc del: upt_Suc)
qed simp

lemma chunks3_concat: "(\<And>x. x \<in> set xs \<Longrightarrow> length (f x) = 3) \<Longrightarrow> chunks3 (concat (map f xs)) = map f xs"
proof (induction xs)
  case (Cons x xs)
  from Cons.prems have "length (f x) = 3" by simp
  then obtain a b c where "f x = [a, b, c]" by (auto simp: length_Suc_conv numeral_eq_Suc)
  with Cons show ?case by simp
qed simp

lemma frame_sizes:
  assumes "w * h < 2 ^ 62"
  shows "usize_mul (usize_mul w h) BYTES_PER_PIXEL = 4 * (w * h)"
    "4 * (w * h) < 2 ^ 63 \<Longrightarrow> usize_mul (usize_mul w h) 3 = 3 * (w * h)"
  using assms by (simp_all add: usize_mul_def BYTES_PER_PIXEL_def mult.commute)

lemma length_concat_3: "length (concat (map (\<lambda>x. [f x, g x, h x]) xs)) = 3 * length xs"
  by (induction xs) simp_all

text \<open>A raw frame is read as the image it is: when \<open>4 * width * height\<close> does not overflow
  (and the slice is one Rust can hold), a buffer that is too short is reported with the length
  needed, and any longer one gives an image of the declared size whose pixel \<open>k\<close> is the red,
  green and blue byte of the \<open>k\<close>-th four bytes, in the order the layout names; trailing bytes
  are ignored.\<close>

theorem raw_frame_pixels:
  assumes lib: "image_lib_ok lib" and dims: "0 < w" "0 < h" "w * h < 2 ^ 62" and len: "length px < 2 ^ 63"
  shows "if length px < 4 * (w * h)
    then image_from_raw lib px w h layout = Some (Inl (BufferTooSmall (4 * (w * h)) (length px)))
    else \<exists>picture. image_from_raw lib px w h layout = Some (Inr picture) \<and>
      img_width lib picture = w \<and> img_height lib picture = h \<and>
      ri_pixels (to_rgb8 lib picture) =
        map (\<lambda>k. case layout of
             Bgra \<Rightarrow> [px ! (4 * k + 2), px ! (4 * k + 1), px ! (4 * k)]
           | Rgba \<Rightarrow> [px ! (4 * k), px ! (4 * k + 1), px ! (4 * k + 2)]) [0..<w * h]"
proof (cases "length px < 4 * (w * h)")
  case True
  then show ?thesis using dims by (simp add: image_from_raw_def frame_sizes)
next
  case False
  obtain r g b where rgb: "channel_offsets layout = (r, g, b)" by (cases "channel_offsets layout")
  let ?ps = "chunks4 (take (4 * (w * h)) px)"
  let ?f = "\<lambda>p. [p ! r, p ! g, p ! b]"
  let ?buf = "concat (map ?f ?ps)"
  have ps: "length ?ps = w * h" using False by (simp add: chunks4_nth)
  then have "from_raw lib w h ?buf \<noteq> None"
    using image_lib_laws(8) [OF lib, of w h ?buf] by (simp add: length_concat_3)
  then obtain picture where picture: "from_raw lib w h ?buf = Some picture" by blast
  have small: "4 * (w * h) < 2 ^ 63" using False len by linarith
  then have fits: "\<not> ISIZE_MAX < 3 * (w * h)" unfolding ISIZE_MAX_def by linarith
  have "image_from_raw lib px w h layout = Some (Inr picture)"
    using dims False picture fits
    by (simp add: image_from_raw_def frame_sizes(1) frame_sizes(2) [OF dims(3) small] rgb Let_def del: not_less)
  moreover have "img_width lib picture = w \<and> img_height lib picture = h \<and>
      ri_pixels (to_rgb8 lib picture) = map ?f ?ps"
    using image_lib_laws(9) [OF lib picture] ps by (simp add: chunks3_concat)
  ultimately show ?thesis
    using False rgb by (cases layout) (auto simp: chunks4_nth)
qed

text \<open>The guard's promise never to fail does not cover sizes whose product overflows: a frame
  declared \<open>2 ^ 31\<close> pixels wide and high panics for every buffer, even an empty one.\<close>

lemma raw_frame_overflow_panics: "image_from_raw lib px (2 ^ 31) (2 ^ 31) layout = None"
  by (simp add: image_from_raw_def usize_mul_def BYTES_PER_PIXEL_def ISIZE_MAX_def)

lemma classify_frame_overflow_panics:
  "classify_frame lib (sandbox_new cl config) px (2 ^ 31) (2 ^ 31) layout = None"
  by (simp only: classify_frame_def check_raw_def sandbox_new_def raw_frame_overflow_panics) simp

section \<open>Any tile decides\<close>

lemma fp_le_max: "fp_le (Fin t) (fp_max x y) \<longleftrightarrow> fp_le (Fin t) x \<or> fp_le (Fin t) y"
  by (cases x; cases y) auto

lemma fp_le_fold_max: "fp_le (Fin t) (foldl fp_max x ys) \<longleftrightarrow> fp_le (Fin t) x \<or> (\<exists>y \<in> set ys. fp_le (Fin t) y)"
  by (induction ys arbitrary: x) (auto simp: fp_le_max)

text \<open>For a positive threshold the reduced score reaches it exactly when some tile does.\<close>

lemma reduce_reaches: "0 < t \<Longrightarrow> fp_le (Fin t) (reduce_tile_scores ys) \<longleftrightarrow> (\<exists>y \<in> set ys. fp_le (Fin t) y)"
  by (simp add: reduce_tile_scores_def fp_le_fold_max)

lemma score_tiles_eq:
  "score_tiles cl tiles sexy explicit =
     (if \<exists>t \<in> set tiles. \<exists>e. classify cl t = Inl e then None
      else Some (sexy @ map (sexy_score \<circ> projr \<circ> classify cl) tiles,
                 explicit @ map (explicit_score \<circ> projr \<circ> classify cl) tiles))"
  by (induction tiles arbitrary: sexy explicit) (auto split: sum.splits)

lemma some_projr:
  assumes "\<And>t. t \<in> set ts \<Longrightarrow> g t = Inr (projr (g t))"
  shows "(\<exists>y \<in> set (map (f \<circ> projr \<circ> g) ts). P y) \<longleftrightarrow> (\<exists>t \<in> set ts. \<exists>r. g t = Inr r \<and> P (f r))"
proof
  assume "\<exists>y \<in> set (map (f \<circ> projr \<circ> g) ts). P y"
  then obtain t where "t \<in> set ts" "P (f (projr (g t)))" by auto
  with assms show "\<exists>t \<in> set ts. \<exists>r. g t = Inr r \<and> P (f r)" by blast
next
  assume "\<exists>t \<in> set ts. \<exists>r. g t = Inr r \<and> P (f r)"
  then obtain t r where "t \<in> set ts" "g t = Inr r" "P (f r)" by blast
  then show "\<exists>y \<in> set (map (f \<circ> projr \<circ> g) ts). P y" by (auto intro!: bexI [of _ t])
qed

text \<open>C15: The verdict on an image is decided by its strongest tile, class by class, and every fault
  allows: with positive thresholds, an image that is not admissible or has a tile the model fails
  on is allowed with no score; otherwise it is blocked exactly when some tile's explicit score
  reaches the explicit threshold, else warned about exactly when some tile's sexy score reaches
  its threshold, else allowed with a score.\<close>

theorem image_any_tile_decides:
  assumes cl: "sb_classifier sb = Some cl"
    and te: "explicit_threshold (sb_config sb) = Fin te" "0 < te"
    and ts: "sexy_threshold (sb_config sb) = Fin ts" "0 < ts"
  shows "case preprocess_tiles lib picture (sb_preprocess (sb_config sb)) of
      Inl _ \<Rightarrow> check_image lib sb picture = unscored_allow
    | Inr tiles \<Rightarrow>
        if \<exists>t \<in> set tiles. \<exists>e. classify cl t = Inl e then check_image lib sb picture = unscored_allow
        else if \<exists>t \<in> set tiles. \<exists>r. classify cl t = Inr r \<and> fp_le (Fin te) (explicit_score r)
        then \<exists>s. check_image lib sb picture = \<lparr>sv_verdict = ImageBlock s, sv_score = Some s\<rparr> \<and> fp_le (Fin te) s
        else if \<exists>t \<in> set tiles. \<exists>r. classify cl t = Inr r \<and> fp_le (Fin ts) (sexy_score r)
        then \<exists>s. check_image lib sb picture = \<lparr>sv_verdict = ImageWarn s, sv_score = Some s\<rparr> \<and> fp_le (Fin ts) s
        else \<exists>s. check_image lib sb picture = \<lparr>sv_verdict = ImageAllow, sv_score = Some s\<rparr>"
proof (cases "preprocess_tiles lib picture (sb_preprocess (sb_config sb))")
  case (Inr tiles)
  show ?thesis
  proof (cases "\<exists>t \<in> set tiles. \<exists>e. classify cl t = Inl e")
    case False
    then have ok: "classify cl t = Inr (projr (classify cl t))" if "t \<in> set tiles" for t
      using that by (cases "classify cl t") auto
    have some: "(\<exists>y \<in> set (map (f \<circ> projr \<circ> classify cl) tiles). fp_le (Fin \<theta>) y) \<longleftrightarrow>
        (\<exists>t \<in> set tiles. \<exists>r. classify cl t = Inr r \<and> fp_le (Fin \<theta>) (f r))" for f \<theta>
      using ok by (intro some_projr)
    show ?thesis
      using False by (simp add: Inr check_image_def cl score_tiles_eq decide_scores_def Let_def te ts
          reduce_reaches some del: set_map)
  qed (simp add: Inr check_image_def cl score_tiles_eq)
qed (simp add: check_image_def cl)

definition tiny_preprocess :: preprocess_config where
  "tiny_preprocess = \<lparr>input_size = 1, resize_ratio = Fin 1, min_dimension = 1, max_aspect_ratio = Fin 8\<rparr>"

definition tiny_classifier :: image_classifier where
  "tiny_classifier =
     \<lparr>cl_input_size = 1, cl_run = (\<lambda>t. Some [Fin 0, Fin 0, Fin 2]),
      cl_exp = (\<lambda>x. if x = Fin 0 then Fin 1 else Fin 0)\<rparr>"

definition tiny_sandbox :: image_sandbox where
  "tiny_sandbox = sandbox_new tiny_classifier
     \<lparr>explicit_threshold = Fin (3 / 4), sexy_threshold = Fin (1 / 2), sb_preprocess = tiny_preprocess\<rparr>"

definition two_pixels :: rgb_image where
  "two_pixels = \<lparr>ri_width = 2, ri_height = 1, ri_pixels = [[0, 0, 0], [255, 0, 0]]\<rparr>"

lemma tiny_scores:
  "classify tiny_classifier [a, b, c] = Inr \<lparr>safe_score = Fin 0, sexy_score = Fin 0, explicit_score = Fin 1\<rparr>"
  by code_simp

lemma tiny_tiles:
  "\<exists>tiles. preprocess_tiles pixel_lib two_pixels tiny_preprocess = Inr tiles \<and> length tiles = 2 \<and>
     (\<forall>t \<in> set tiles. length t = 3)"
proof -
  have "case preprocess_tiles pixel_lib two_pixels tiny_preprocess of Inl _ \<Rightarrow> False
    | Inr tiles \<Rightarrow> length tiles = 2 \<and> list_all (\<lambda>t. length t = 3) tiles" by code_simp
  then show ?thesis by (auto simp: list_all_iff split: sum.splits)
qed

lemma nan_logits_look_clean:
  assumes "expf NaN = NaN" "NaN \<in> {a, b, c}"
  shows "class_scores expf [a, b, c] = \<lparr>safe_score = NaN, sexy_score = NaN, explicit_score = NaN\<rparr>"
    and "0 < te \<Longrightarrow> 0 < ts \<Longrightarrow>
      decide_scores \<lparr>explicit_threshold = Fin te, sexy_threshold = Fin ts, sb_preprocess = pp\<rparr> [NaN] [NaN] =
        \<lparr>sv_verdict = ImageAllow, sv_score = Some (Fin 0)\<rparr>"
proof -
  have nan: "fp_add 24 x NaN = NaN" "fp_add 24 NaN x = NaN" "fp_div 24 x NaN = NaN" for x by (cases x; simp)+
  show "class_scores expf [a, b, c] = \<lparr>safe_score = NaN, sexy_score = NaN, explicit_score = NaN\<rparr>"
    using assms by (auto simp: class_scores_def Let_def nan fp_sub_def SAFE_INDEX_def SEXY_INDEX_def EXPLICIT_INDEX_def)
  show "0 < te \<Longrightarrow> 0 < ts \<Longrightarrow>
      decide_scores \<lparr>explicit_threshold = Fin te, sexy_threshold = Fin ts, sb_preprocess = pp\<rparr> [NaN] [NaN] =
        \<lparr>sv_verdict = ImageAllow, sv_score = Some (Fin 0)\<rparr>"
    by (simp add: decide_scores_def reduce_tile_scores_def Let_def)
qed

theorem image_any_tile_decides_witness:
  "\<exists>s. check_image pixel_lib tiny_sandbox two_pixels = \<lparr>sv_verdict = ImageBlock s, sv_score = Some s\<rparr>"
proof -
  obtain tiles where tiles: "preprocess_tiles pixel_lib two_pixels tiny_preprocess = Inr tiles"
    "length tiles = 2" "\<forall>t \<in> set tiles. length t = 3" using tiny_tiles by blast
  have scores: "classify tiny_classifier t = Inr \<lparr>safe_score = Fin 0, sexy_score = Fin 0, explicit_score = Fin 1\<rparr>"
    if "t \<in> set tiles" for t
    using that tiles(3) tiny_scores by (auto simp: length_Suc_conv numeral_eq_Suc)
  from tiles(2) obtain t where "t \<in> set tiles" by (cases tiles) auto
  then show ?thesis
    using image_any_tile_decides [of tiny_sandbox tiny_classifier "3 / 4" "1 / 2" pixel_lib two_pixels] tiles(1) scores
    by (auto simp: tiny_sandbox_def sandbox_new_def split: if_splits)
qed

theorem raw_frame_pixels_witness:
  "\<exists>picture. image_from_raw pixel_lib [1, 2, 3, 4, 5, 6, 7, 8, 9] 2 1 Bgra = Some (Inr picture) \<and>
     ri_pixels (to_rgb8 pixel_lib picture) = [[3, 2, 1], [7, 6, 5]]"
  using raw_frame_pixels [OF pixel_lib_ok, of 2 1 "[1, 2, 3, 4, 5, 6, 7, 8, 9]" Bgra] by (auto simp: upt_rec)

text \<open>The encoded path and the raw path agree on the same picture.\<close>

lemma check_raw_agrees:
  assumes "load_from_memory lib bs = Some picture" "image_from_raw lib px w h layout = Some (Inr picture)"
  shows "map_option sv_verdict (check_raw lib sb px w h layout) = Some (sandbox_check lib sb bs)"
  using assms by (simp add: check_raw_def sandbox_check_def unscored_allow_def)

end
