(* ===== verification/Mitm_Scan.thy ===== *)
theory Mitm_Scan
  imports Mitm_Hosts Image_Sandbox
begin

text \<open>
  \<open>packages/mitm-proxy/src/scan.rs\<close>: the protection mode and its atomic cell, the built-in
  policy engine, and the URL, body and image scans that the tunnel's hooks call. The engine is
  \<open>Text_Policy\<close>, the image check \<open>Image_Sandbox\<close>. The same dictionary and the entry points of
  \<open>packages/text-policy-ffi\<close> are here too.
\<close>

section \<open>Text\<close>

text \<open>A Rust \<open>str\<close> is its UTF-8 bytes here; the engine reads its characters.\<close>

fun decode_chars :: "nat list \<Rightarrow> ustr" where
  "decode_chars [] = []"
| "decode_chars (b0 # bs) =
     (if b0 < 0x80 then b0 # decode_chars bs
      else if b0 < 0xE0 then (case bs of
        b1 # r \<Rightarrow> ((b0 mod 0x20) * 0x40 + b1 mod 0x40) # decode_chars r | _ \<Rightarrow> [])
      else if b0 < 0xF0 then (case bs of
        b1 # b2 # r \<Rightarrow> ((b0 mod 0x10) * 0x1000 + (b1 mod 0x40) * 0x40 + b2 mod 0x40) # decode_chars r | _ \<Rightarrow> [])
      else (case bs of
        b1 # b2 # b3 # r \<Rightarrow>
          ((b0 mod 0x08) * 0x40000 + (b1 mod 0x40) * 0x1000 + (b2 mod 0x40) * 0x40 + b3 mod 0x40) # decode_chars r
      | _ \<Rightarrow> []))"

definition chars_of :: "string \<Rightarrow> ustr" where
  "chars_of s = decode_chars (map of_char s)"

lemma sextets:
  fixes c :: nat
  shows "c div 64 * 64 + c mod 64 = c"
    "c div 4096 * 4096 + c div 64 mod 64 * 64 + c mod 64 = c"
    "c div 262144 * 262144 + c div 4096 mod 64 * 4096 + c div 64 mod 64 * 64 + c mod 64 = c"
proof -
  have "c div 4096 = c div 64 div 64" "c div 262144 = c div 4096 div 64" by (simp_all add: div_mult2_eq [symmetric])
  then show "c div 64 * 64 + c mod 64 = c"
    "c div 4096 * 4096 + c div 64 mod 64 * 64 + c mod 64 = c"
    "c div 262144 * 262144 + c div 4096 mod 64 * 4096 + c div 64 mod 64 * 64 + c mod 64 = c"
    using div_mult_mod_eq [of c 64] div_mult_mod_eq [of "c div 64" 64] div_mult_mod_eq [of "c div 4096" 64]
    by linarith+
qed

lemma utf8_bits_cont: "(128 + m mod 64) mod 64 = (m :: nat) mod 64"
  using mod_mult_self2 [of "m mod 64" 64 2] by (simp add: add.commute)
lemma utf8_bits_2: "(d :: nat) < 32 \<Longrightarrow> (192 + d) mod 32 = d"
  using mod_mult_self2 [of d 32 6] by (simp add: add.commute)
lemma utf8_bits_3: "(d :: nat) < 16 \<Longrightarrow> (224 + d) mod 16 = d"
  using mod_mult_self2 [of d 16 14] by (simp add: add.commute)
lemma utf8_bits_4: "(d :: nat) < 8 \<Longrightarrow> (240 + d) mod 8 = d"
  using mod_mult_self2 [of d 8 30] by (simp add: add.commute)
lemmas utf8_bits = utf8_bits_cont utf8_bits_2 utf8_bits_3 utf8_bits_4

lemma decode_chars_char:
  assumes "scalar c"
  shows "decode_chars (utf8_char c @ rest) = c # decode_chars rest"
proof -
  consider "c < 0x80" | "0x80 \<le> c" "c < 0x800" | "0x800 \<le> c" "c < 0x10000" | "0x10000 \<le> c" "c < 0x110000"
    using assms unfolding scalar_def by linarith
  then show ?thesis
  proof cases
    case 2
    then have "c div 64 < 32" by simp
    with 2 show ?thesis by (simp add: utf8_char_def utf8_bits sextets)
  next
    case 3
    then have "c div 4096 < 16" by simp
    with 3 show ?thesis by (simp add: utf8_char_def utf8_bits sextets)
  next
    case 4
    then have "c div 262144 < 8" by simp
    with 4 show ?thesis by (simp add: utf8_char_def utf8_bits sextets)
  qed (simp add: utf8_char_def)
qed

lemma decode_chars_utf8: "scalars s \<Longrightarrow> decode_chars (utf8 s) = s"
  by (induction s) (simp_all add: decode_chars_char)

section \<open>Protection mode\<close>

datatype scan_result = ScanAllow | ScanWarn nat | ScanBlock nat

datatype protection_mode = Full | WarnOnly | Off

definition MODE_FULL :: u8 where "MODE_FULL = 0"
definition MODE_WARN_ONLY :: u8 where "MODE_WARN_ONLY = 1"
definition MODE_OFF :: u8 where "MODE_OFF = 2"

fun as_u8 :: "protection_mode \<Rightarrow> u8" where
  "as_u8 Full = MODE_FULL"
| "as_u8 WarnOnly = MODE_WARN_ONLY"
| "as_u8 Off = MODE_OFF"

definition from_atomic :: "u8 \<Rightarrow> protection_mode" where
  "from_atomic cell = (if cell = MODE_WARN_ONLY then WarnOnly else if cell = MODE_OFF then Off else Full)"

definition store_mode :: "u8 \<Rightarrow> protection_mode \<Rightarrow> u8" where
  "store_mode cell mode = as_u8 mode"

lemma from_atomic_as_u8 [simp]: "from_atomic (as_u8 m) = m"
  by (cases m) (simp_all add: from_atomic_def MODE_FULL_def MODE_WARN_ONLY_def MODE_OFF_def)

fun apply_mode :: "protection_mode \<Rightarrow> verdict_action \<Rightarrow> nat \<Rightarrow> scan_result" where
  "apply_mode Full BlockAction n = ScanBlock n"
| "apply_mode _ _ n = ScanAllow"

section \<open>The built-in engine\<close>

abbreviation ascii_term :: "string \<Rightarrow> text_category \<Rightarrow> severity \<Rightarrow> match_mode list \<Rightarrow> dictionary_term" where
  "ascii_term phrase \<equiv> dictionary_term_new (map of_char phrase)"

definition default_builder :: lexicon_builder where
  "default_builder =
     add_dictionary
       (add_dictionary (lexicon_builder_new English)
         \<lparr>di_name = map of_char ''adult-platforms'',
          di_terms =
            [ascii_term ''adult platform'' AdultPlatform High [ExactPhrase, TokenSequence, UrlTokenSequence],
             ascii_term ''explicit act'' ExplicitAct High [ExactPhrase, TokenSequence],
             ascii_term ''nudity'' Nudity Medium [ExactPhrase, Compact]]\<rparr>)
       \<lparr>di_name = map of_char ''exceptions'',
        di_terms = [ascii_term ''medical anatomy'' MedicalException Low [ExactPhrase]]\<rparr>"

text \<open>\<open>expect\<close> panics when the dictionary does not build.\<close>

definition build_default_engine :: "unicode \<Rightarrow> hash_order \<Rightarrow> policy_engine exec" where
  "build_default_engine u h =
     (case lexicon_build u h default_builder of
        Some (Inr matcher) \<Rightarrow> Some (policy_engine_new matcher thresholds_default)
      | _ \<Rightarrow> None)"

section \<open>Scans\<close>

definition scan_text ::
  "source_kind \<Rightarrow> unicode \<Rightarrow> (mode_counts \<Rightarrow> mode_counts) \<Rightarrow> policy_engine \<Rightarrow> ustr \<Rightarrow> protection_mode \<Rightarrow> scan_result exec" where
  "scan_text src u ord engine txt mode =
     (if mode = Off then Some ScanAllow
      else do {
        verdict \<leftarrow> policy_evaluate u ord engine txt src;
        Some (apply_mode mode (ve_action verdict) (ve_score verdict))
      })"

definition scan_url ::
  "unicode \<Rightarrow> (mode_counts \<Rightarrow> mode_counts) \<Rightarrow> policy_engine \<Rightarrow> ustr \<Rightarrow> protection_mode \<Rightarrow> scan_result exec" where
  "scan_url = scan_text BrowserUrl"

definition scan_body ::
  "unicode \<Rightarrow> (mode_counts \<Rightarrow> mode_counts) \<Rightarrow> policy_engine \<Rightarrow> ustr \<Rightarrow> protection_mode \<Rightarrow> scan_result exec" where
  "scan_body = scan_text BrowserTitle"

definition scan_image :: "'img image_lib \<Rightarrow> image_sandbox \<Rightarrow> bytes \<Rightarrow> scan_result" where
  "scan_image lib sandbox bs =
     (case sandbox_check lib sandbox bs of
        ImageBlock s \<Rightarrow> ScanBlock (fp_trunc_u32 (fp_mul 24 s (f32 100)))
      | ImageWarn s \<Rightarrow> ScanWarn (fp_trunc_u32 (fp_mul 24 s (f32 100)))
      | ImageAllow \<Rightarrow> ScanAllow)"

definition build_image_sandbox ::
  "('path \<Rightarrow> nat \<Rightarrow> classifier_error + image_classifier) \<Rightarrow> 'path option \<Rightarrow> fp \<Rightarrow> fp \<Rightarrow> image_sandbox" where
  "build_image_sandbox load_model model_path sexy explicit =
     (case model_path of
        None \<Rightarrow> sandbox_disabled
      | Some path \<Rightarrow>
          (case load_model path INPUT_SIZE of
             Inl _ \<Rightarrow> sandbox_disabled
           | Inr cl \<Rightarrow> sandbox_new cl
               \<lparr>explicit_threshold = explicit, sexy_threshold = sexy, sb_preprocess = preprocess_default\<rparr>))"

section \<open>What the scans decide\<close>

lemma scan_off: "scan_text src u ord engine txt Off = Some ScanAllow"
  by (simp add: scan_text_def)

lemma apply_mode_block: "apply_mode mode a s = ScanBlock n \<longleftrightarrow> mode = Full \<and> a = BlockAction \<and> n = s"
  by (cases mode; cases a) auto

lemma apply_mode_cases: "apply_mode mode a s = (if mode = Full \<and> a = BlockAction then ScanBlock s else ScanAllow)"
  by (cases mode; cases a) auto

lemma default_builder_scalars: "d \<in> set (lb_dictionaries default_builder) \<Longrightarrow> dictionary_scalars d"
  by (auto simp: default_builder_def add_dictionary_def lexicon_builder_new_def dictionary_scalars_def
      dictionary_term_new_def scalar_def)


section \<open>An instance\<close>

definition default_terms :: "compiled_term list" where
  "default_terms =
     (let compiled = (\<lambda>dict phrase cat sev modes. \<lparr>ct_dictionary = map of_char dict, ct_phrase = map of_char phrase,
        ct_category = cat, ct_severity = sev, ct_match_modes = modes, ct_surfaces = [map of_char phrase]\<rparr>)
      in [compiled ''adult-platforms'' ''adult platform'' AdultPlatform High [ExactPhrase, TokenSequence, UrlTokenSequence],
          compiled ''adult-platforms'' ''explicit act'' ExplicitAct High [ExactPhrase, TokenSequence],
          compiled ''adult-platforms'' ''nudity'' Nudity Medium [ExactPhrase, Compact],
          compiled ''exceptions'' ''medical anatomy'' MedicalException Low [ExactPhrase]])"

definition default_matcher :: lexicon_matcher where
  "default_matcher = projr (the (lexicon_build ascii_unicode id_order default_builder))"

lemma default_matcher:
  "lexicon_build ascii_unicode id_order default_builder = Some (Inr default_matcher)"
  "lx_terms default_matcher = default_terms"
proof -
  have "(case lexicon_build ascii_unicode id_order default_builder of
      Some (Inr m) \<Rightarrow> lx_terms m = default_terms | _ \<Rightarrow> False)"
    by code_simp
  then show "lexicon_build ascii_unicode id_order default_builder = Some (Inr default_matcher)"
    "lx_terms default_matcher = default_terms"
    by (auto simp: default_matcher_def split: option.splits sum.splits)
qed

abbreviation explicit_chars :: ustr where
  "explicit_chars \<equiv> [101, 120, 112, 108, 105, 99, 105, 116, 32, 97, 99, 116]"

lemma explicit_views:
  "nt_normalized (normalize_views ascii_unicode (for_language ascii_unicode English) explicit_chars) = explicit_chars"
  by code_simp

lemma explicit_match:
  "match_of default_terms 1 ExactPhrase explicit_chars (Bytes 0 12)
     \<in> text_matches ascii_unicode default_builder default_matcher explicit_chars"
proof -
  have lang: "lb_language default_builder = English"
    by (simp add: default_builder_def add_dictionary_def lexicon_builder_new_def)
  have "phrase_at ascii_unicode explicit_chars explicit_chars 0 12"
    unfolding phrase_at_def by (intro exI [of _ "[]"]) code_simp
  then show ?thesis
    unfolding text_matches_def matches_spec_def lang default_matcher(2)
    by (intro CollectI exI [of _ 1] exI [of _ ExactPhrase] exI [of _ explicit_chars] exI [of _ "Bytes 0 12"])
       (simp add: explicit_views default_terms_def Let_def del: for_language.simps)
qed

text \<open>The only exception term is longer than the text.\<close>

lemma no_exception:
  assumes "y \<in> text_matches ascii_unicode default_builder default_matcher explicit_chars"
  shows "\<not> is_exception (lm_category y)"
proof
  assume ex: "is_exception (lm_category y)"
  have lang: "lb_language default_builder = English"
    by (simp add: default_builder_def add_dictionary_def lexicon_builder_new_def)
  from assms obtain tid mode p q sp where y: "y = match_of default_terms tid mode q sp" "tid < 4"
    "mode \<in> set (ct_match_modes (default_terms ! tid))" "p \<in> set (ct_surfaces (default_terms ! tid))"
    "surface_seen ascii_unicode English (normalize_views ascii_unicode (for_language ascii_unicode English) explicit_chars) mode p q sp"
    unfolding text_matches_def matches_spec_def lang default_matcher(2)
    by (auto simp: default_terms_def Let_def simp del: for_language.simps)
  have "tid = 0 \<or> tid = 1 \<or> tid = 2 \<or> tid = 3" using y(2) by linarith
  then have "tid = 3" using ex y(1)
    by (auto simp: match_of_def default_terms_def Let_def is_exception_def)
  then have "mode = ExactPhrase" "p = map of_char ''medical anatomy''"
    using y(3,4) by (auto simp: default_terms_def Let_def)
  with y(5) obtain s e where "phrase_at ascii_unicode (map of_char ''medical anatomy'') explicit_chars s e"
    by (cases sp) (auto simp: explicit_views simp del: for_language.simps)
  then obtain a b where "explicit_chars = a @ map of_char ''medical anatomy'' @ b" unfolding phrase_at_def by blast
  then have "length explicit_chars = length (a @ map (of_char :: char \<Rightarrow> nat) ''medical anatomy'' @ b)" by (rule arg_cong)
  then show False by simp
qed

lemma explicit_scalars: "scalars explicit_chars"
  by (simp add: scalar_def)

text \<open>A single high-severity term matched as a token sequence of a page.\<close>

lemma token_sequence_passes:
  "map_option (\<lambda>r. (sr_score r,
       apply_mode Full (ve_action (evaluate_score (sr_score r) [] thresholds_default None None)) (sr_score r)))
     (score (\<lambda>xs. xs) [toy_match TokenSequence High (Bytes 0 3)] BrowserTitle) = Some (64, ScanAllow)"
  by code_simp


end
