(* ===== verification/Mitm_Proxy.thy ===== *)
theory Mitm_Proxy
  imports Mitm_Scan Pipeline
begin

text \<open>
  Requests through \<open>packages/mitm-proxy/src\<close>: the header rules and the plain-HTTP path
  (\<open>forward.rs\<close>), the dispatcher (\<open>proxy.rs\<close>), \<open>CONNECT\<close> (\<open>connect.rs\<close>), the leaf
  certificates' cache and validity (\<open>tls.rs\<close>) and the request/response loop inside a tunnel
  (\<open>tunnel.rs\<close>).

  \<open>hyper\<close>, \<open>rustls\<close> and the sockets are parameters: the parsers of authorities and URIs, what
  an origin answers to a request, and whether a connection or a handshake succeeds. A header map
  is the list of its fields, names in lower case; only the values of each name, in their order,
  have a meaning. The hooks are what they are when a request is served; a hook that panics ends
  the connection (\<open>None\<close>), except the image hook, which runs on another task.
\<close>

section \<open>Messages\<close>

type_synonym header_map = "(string \<times> bytes) list"

record authority =
  au_text :: string
  au_host :: string
  au_port :: "nat option"

record uri =
  ur_text :: string
  ur_authority :: "authority option"
  ur_path :: string
  ur_path_and_query :: "string option"

record http_request =
  rq_method :: string
  rq_uri :: uri
  rq_headers :: header_map
  rq_body :: bytes

text \<open>A body is what reading it to the end gives.\<close>

datatype body = BodyOk bytes | BodyErr

record http_response =
  rs_status :: nat
  rs_headers :: header_map
  rs_body :: body

record http_lib =
  parse_authority :: "string \<Rightarrow> authority option"
  parse_uri :: "string \<Rightarrow> uri option"

definition header_get :: "string \<Rightarrow> header_map \<Rightarrow> bytes option" where
  "header_get name hs = map_of hs name"

definition header_get_all :: "string \<Rightarrow> header_map \<Rightarrow> bytes list" where
  "header_get_all name hs = map snd (filter (\<lambda>h. fst h = name) hs)"

definition header_remove :: "string \<Rightarrow> header_map \<Rightarrow> header_map" where
  "header_remove name hs = filter (\<lambda>h. fst h \<noteq> name) hs"

definition header_insert :: "string \<Rightarrow> bytes \<Rightarrow> header_map \<Rightarrow> header_map" where
  "header_insert name v hs = header_remove name hs @ [(name, v)]"

text \<open>\<open>HeaderValue::to_str\<close>: visible ASCII and tabs.\<close>

definition to_str :: "bytes \<Rightarrow> string option" where
  "to_str v = (if list_all (\<lambda>b. 32 \<le> b \<and> b < 127 \<or> b = 9) v then Some (string_of_bytes v) else None)"

definition header_value_of :: "string \<Rightarrow> bytes option" where
  "header_value_of s =
     (let v = bytes_of_string s in if list_all (\<lambda>b. 32 \<le> b \<and> b \<noteq> 127 \<or> b = 9) v then Some v else None)"

section \<open>Hop-by-hop headers\<close>

definition HOP_BY_HOP :: "string list" where
  "HOP_BY_HOP = [''connection'', ''keep-alive'', ''proxy-authenticate'', ''proxy-authorization'',
     ''proxy-connection'', ''te'', ''trailers'', ''transfer-encoding'', ''upgrade'']"

definition connection_names :: "header_map \<Rightarrow> string list" where
  "connection_names hs =
     concat (map (\<lambda>v. map (\<lambda>s. to_ascii_lowercase (trim_str s))
         (split_on CHR '','' (case to_str v of Some s \<Rightarrow> s | None \<Rightarrow> '''')))
       (header_get_all ''connection'' hs))"

definition strip_hop_by_hop :: "header_map \<Rightarrow> header_map" where
  "strip_hop_by_hop hs = fold header_remove (connection_names hs) (fold header_remove HOP_BY_HOP hs)"

section \<open>Plain HTTP\<close>

definition forward_http ::
  "http_lib \<Rightarrow> (string \<Rightarrow> nat \<Rightarrow> http_request \<Rightarrow> http_response option) \<Rightarrow> http_request \<Rightarrow>
   (string \<times> nat \<times> http_request) option \<times> http_response option" where
  "forward_http lib send req =
     (case ur_authority (rq_uri req) of
        None \<Rightarrow> (None, None)
      | Some authority \<Rightarrow>
          let host = au_host authority;
              port = (case au_port authority of Some p \<Rightarrow> p | None \<Rightarrow> 80);
              path = (case ur_path_and_query (rq_uri req) of Some pq \<Rightarrow> pq | None \<Rightarrow> ''/'')
          in case parse_uri lib path of
               None \<Rightarrow> (None, None)
             | Some origin_form \<Rightarrow>
                 (case header_value_of (au_text authority) of
                    None \<Rightarrow> (None, None)
                  | Some v \<Rightarrow>
                      let origin_req = req\<lparr>rq_uri := origin_form,
                            rq_headers := strip_hop_by_hop (header_insert ''host'' v (rq_headers req))\<rparr>
                      in (Some (host, port, origin_req),
                          map_option (\<lambda>r. r\<lparr>rs_headers := strip_hop_by_hop (rs_headers r)\<rparr>)
                            (send host port origin_req))))"

section \<open>The tunnel\<close>

record scan_hooks =
  hk_url :: "string \<Rightarrow> scan_result exec"
  hk_body :: "string \<Rightarrow> scan_result exec"
  hk_image :: "bytes \<Rightarrow> scan_result exec"
  hk_body_limit :: nat
  hk_host_blocked :: "string \<Rightarrow> bool"

text \<open>The bounded channel to the video watchdog: \<open>try_send\<close> drops the segment when the channel
  is full or its receiver is gone. The receiver of \<open>ScanHooks::default()\<close> is dropped with it.\<close>

record video_channel =
  vc_open :: bool
  vc_queue :: "bytes list"

definition video_try_send :: "video_channel \<Rightarrow> bytes \<Rightarrow> video_channel" where
  "video_try_send ch b = (if vc_open ch \<and> length (vc_queue ch) < 16 then ch\<lparr>vc_queue := vc_queue ch @ [b]\<rparr> else ch)"

definition default_channel :: video_channel where
  "default_channel = \<lparr>vc_open = False, vc_queue = []\<rparr>"

record 'o tunnel =
  tn_origin :: 'o
  tn_sent :: "http_request list"
  tn_video :: video_channel

datatype reply = RefusedReply | GatewayReply | OriginReply http_response

definition render_reply :: "reply \<Rightarrow> http_response" where
  "render_reply r =
     (case r of
        RefusedReply \<Rightarrow> \<lparr>rs_status = 403, rs_headers = [], rs_body = BodyOk (bytes_of_string (''Blocked'' @ [CHR 0x0A]))\<rparr>
      | GatewayReply \<Rightarrow> \<lparr>rs_status = 502, rs_headers = [], rs_body = BodyOk (bytes_of_string (''Bad Gateway'' @ [CHR 0x0A]))\<rparr>
      | OriginReply res \<Rightarrow> res)"

fun is_block :: "scan_result \<Rightarrow> bool" where
  "is_block (ScanBlock _) \<longleftrightarrow> True"
| "is_block _ \<longleftrightarrow> False"

definition host_header_listed :: "http_lib \<Rightarrow> scan_hooks \<Rightarrow> header_map \<Rightarrow> bool" where
  "host_header_listed lib hk hs =
     (case Option.bind (Option.bind (header_get ''host'' hs) to_str) (parse_authority lib) of
        None \<Rightarrow> False
      | Some authority \<Rightarrow> hk_host_blocked hk (au_host authority))"

definition header_text :: "string \<Rightarrow> header_map \<Rightarrow> string" where
  "header_text name hs = (case Option.bind (header_get name hs) to_str of Some s \<Rightarrow> s | None \<Rightarrow> '''')"

definition parse_usize :: "string \<Rightarrow> nat option" where
  "parse_usize s =
     (let ds = (case s of CHR ''+'' # r \<Rightarrow> r | _ \<Rightarrow> s)
      in if ds = [] \<or> \<not> list_all (is_digit 10) ds \<or> 2 ^ 64 \<le> digits_value 10 ds then None
         else Some (digits_value 10 ds))"

definition content_length :: "header_map \<Rightarrow> nat option" where
  "content_length hs = Option.bind (Option.bind (header_get ''content-length'' hs) to_str) parse_usize"

definition is_html :: "http_response \<Rightarrow> bool" where
  "is_html res \<longleftrightarrow> prefix ''text/html'' (header_text ''content-type'' (rs_headers res))"

definition is_image :: "http_response \<Rightarrow> bool" where
  "is_image res \<longleftrightarrow> prefix ''image/'' (header_text ''content-type'' (rs_headers res))"

definition is_video_segment :: "string \<Rightarrow> bool" where
  "is_video_segment path \<longleftrightarrow> suffix ''.ts'' path \<or> suffix ''.m4s'' path"

definition scan_buffered :: "scan_hooks \<Rightarrow> bool \<Rightarrow> bool \<Rightarrow> bytes \<Rightarrow> bool exec" where
  "scan_buffered hk html image_type bs = do {
     html_blocked \<leftarrow>
       (if html then
          (case from_utf8 bs of
             Some txt \<Rightarrow> map_option is_block (hk_body hk txt)
           | None \<Rightarrow> Some False)
        else Some False);
     Some (html_blocked \<or>
       image_type \<and> (case hk_image hk bs of Some r \<Rightarrow> is_block r | None \<Rightarrow> False))
   }"

definition answer :: "scan_hooks \<Rightarrow> string \<Rightarrow> http_response \<Rightarrow> 'o tunnel \<Rightarrow> (reply \<times> 'o tunnel) exec" where
  "answer hk path res t =
     (if is_video_segment path then
        (case rs_body res of
           BodyErr \<Rightarrow> Some (GatewayReply, t)
         | BodyOk bs \<Rightarrow> Some (OriginReply res, t\<lparr>tn_video := video_try_send (tn_video t) bs\<rparr>))
      else if is_html res \<or> is_image res then
        (if (case content_length (rs_headers res) of Some n \<Rightarrow> hk_body_limit hk < n | None \<Rightarrow> False)
         then Some (OriginReply res, t)
         else
           (case rs_body res of
              BodyErr \<Rightarrow> Some (GatewayReply, t)
            | BodyOk bs \<Rightarrow>
                if length bs \<le> hk_body_limit hk
                then do {
                  blocked \<leftarrow> scan_buffered hk (is_html res) (is_image res) bs;
                  Some (if blocked then RefusedReply else OriginReply res, t)
                }
                else Some (OriginReply res, t)))
      else Some (OriginReply res, t))"

definition tunnel_forward ::
  "http_lib \<Rightarrow> ('o \<Rightarrow> http_request \<Rightarrow> 'o \<times> http_response option) \<Rightarrow> scan_hooks \<Rightarrow> http_request \<Rightarrow> 'o tunnel \<Rightarrow>
   (reply \<times> 'o tunnel) exec" where
  "tunnel_forward lib send hk req t =
     (if host_header_listed lib hk (rq_headers req) then Some (RefusedReply, t)
      else do {
        url \<leftarrow> hk_url hk (ur_text (rq_uri req));
        if is_block url then Some (RefusedReply, t)
        else
          let (origin', result) = send (tn_origin t) req;
              t' = t\<lparr>tn_origin := origin', tn_sent := tn_sent t @ [req]\<rparr>
          in case result of
               None \<Rightarrow> Some (GatewayReply, t')
             | Some res \<Rightarrow> answer hk (ur_path (rq_uri req)) res t'
      })"

fun run_tunnel ::
  "http_lib \<Rightarrow> ('o \<Rightarrow> http_request \<Rightarrow> 'o \<times> http_response option) \<Rightarrow> (scan_hooks \<times> http_request) list \<Rightarrow> 'o tunnel \<Rightarrow>
   (reply list \<times> 'o tunnel) exec" where
  "run_tunnel lib send [] t = Some ([], t)"
| "run_tunnel lib send ((hk, req) # rest) t = do {
     (r, t1) \<leftarrow> tunnel_forward lib send hk req t;
     (rs, t2) \<leftarrow> run_tunnel lib send rest t1;
     Some (r # rs, t2)
   }"

section \<open>Leaf certificates\<close>

definition LEAF_VALIDITY_DAYS :: int where "LEAF_VALIDITY_DAYS = 397"
definition LEAF_BACKDATE_HOURS :: int where "LEAF_BACKDATE_HOURS = 1"
definition MAX_LEAF_VALIDITY_DAYS :: int where "MAX_LEAF_VALIDITY_DAYS = 398"

text \<open>\<open>notBefore\<close> and \<open>notAfter\<close>, in seconds.\<close>

definition leaf_validity :: "int \<Rightarrow> int \<times> int" where
  "leaf_validity now = (now - LEAF_BACKDATE_HOURS * 3600, now + LEAF_VALIDITY_DAYS * 86400)"

record 'cfg tls_state =
  ts_cache :: "string \<rightharpoonup> 'cfg"

definition server_config ::
  "(string \<Rightarrow> 'cfg option) \<Rightarrow> 'cfg tls_state \<Rightarrow> string \<Rightarrow> 'cfg option \<times> 'cfg tls_state" where
  "server_config make_server_config ts sni =
     (case ts_cache ts sni of
        Some cfg \<Rightarrow> (Some cfg, ts)
      | None \<Rightarrow>
          (case make_server_config sni of
             None \<Rightarrow> (None, ts)
           | Some cfg \<Rightarrow> (Some cfg, ts\<lparr>ts_cache := (ts_cache ts)(sni \<mapsto> cfg)\<rparr>)))"

section \<open>CONNECT and the dispatcher\<close>

record 'cfg connect_env =
  ce_make_config :: "string \<Rightarrow> 'cfg option"
  ce_browser_tls :: "'cfg \<Rightarrow> bool"
  ce_tcp :: "string \<Rightarrow> nat \<Rightarrow> bool"
  ce_server_name :: "string \<Rightarrow> bool"
  ce_origin_tls :: "string \<Rightarrow> nat \<Rightarrow> string \<Rightarrow> bool"

datatype connect_outcome =
  ConnectRefused
| ConnectFailed
| Established string nat string

text \<open>The client hello is \<open>None\<close> when it cannot be read, \<open>Some None\<close> when it names no server.\<close>

definition handle_connect ::
  "'cfg connect_env \<Rightarrow> scan_hooks \<Rightarrow> authority \<Rightarrow> string option option \<Rightarrow> 'cfg tls_state \<Rightarrow>
   connect_outcome \<times> 'cfg tls_state" where
  "handle_connect env hk target hello ts =
     (case hello of
        None \<Rightarrow> (ConnectFailed, ts)
      | Some server_name \<Rightarrow>
          let sni = (case server_name of Some s \<Rightarrow> s | None \<Rightarrow> au_host target)
          in if hk_host_blocked hk sni then (ConnectRefused, ts)
             else
               (case server_config (ce_make_config env) ts sni of
                  (None, ts') \<Rightarrow> (ConnectFailed, ts')
                | (Some cfg, ts') \<Rightarrow>
                    let host = au_host target; port = (case au_port target of Some p \<Rightarrow> p | None \<Rightarrow> 443)
                    in if ce_browser_tls env cfg \<and> ce_tcp env host port \<and> ce_server_name env sni
                          \<and> ce_origin_tls env host port sni
                       then (Established host port sni, ts') else (ConnectFailed, ts')))"

datatype dispatch_outcome =
  ForbiddenReply
| TunnelTo authority
| BadRequestReply
| ForwardedReply http_response
| UpstreamError

definition proxy_dispatch ::
  "http_lib \<Rightarrow> (string \<Rightarrow> nat \<Rightarrow> http_request \<Rightarrow> http_response option) \<Rightarrow> scan_hooks \<Rightarrow> http_request \<Rightarrow>
   dispatch_outcome \<times> (string \<times> nat \<times> http_request) option" where
  "proxy_dispatch lib send hk req =
     (if (case ur_authority (rq_uri req) of None \<Rightarrow> False | Some a \<Rightarrow> hk_host_blocked hk (au_host a))
      then (ForbiddenReply, None)
      else if rq_method req = ''CONNECT'' then
        (case ur_authority (rq_uri req) of
           Some a \<Rightarrow> (TunnelTo a, None)
         | None \<Rightarrow> (BadRequestReply, None))
      else
        (case forward_http lib send req of
           (call, Some res) \<Rightarrow> (ForwardedReply res, call)
         | (call, None) \<Rightarrow> (UpstreamError, call)))"

section \<open>The running proxy\<close>

text \<open>The hooks \<open>main\<close> builds: each scan reads the mode cell when it runs. The body limit and the
  video channel are those of \<open>ScanHooks::default()\<close>.\<close>

definition main_hooks ::
  "unicode \<Rightarrow> (mode_counts \<Rightarrow> mode_counts) \<Rightarrow> policy_engine \<Rightarrow> u8 \<Rightarrow> u8 \<Rightarrow> 'img image_lib \<Rightarrow> image_sandbox \<Rightarrow>
   to_ascii \<Rightarrow> psl_suffix \<Rightarrow> psl_domain \<Rightarrow> host_rules \<Rightarrow> scan_hooks" where
  "main_hooks u ord engine url_cell body_cell ilib sandbox to_ascii psls psld rules =
     \<lparr>hk_url = (\<lambda>url. scan_url u ord engine (chars_of url) (from_atomic url_cell)),
      hk_body = (\<lambda>html. scan_body u ord engine (chars_of html) (from_atomic body_cell)),
      hk_image = (\<lambda>bs. Some (scan_image ilib sandbox bs)),
      hk_body_limit = 1024 * 1024,
      hk_host_blocked = host_is_blocked to_ascii psls psld rules\<rparr>"

text \<open>One connection of the browser: its requests in turn, each with the hooks of its time, up to the first
  that is a \<open>CONNECT\<close> the proxy accepts; after that the client hello and the requests inside the
  tunnel. The result is what the proxy sends to origins.\<close>

datatype origin_call =
  PlainCall string nat http_request
| TunnelCall authority string http_request

fun proxy_session ::
  "http_lib \<Rightarrow> (string \<Rightarrow> nat \<Rightarrow> http_request \<Rightarrow> http_response option) \<Rightarrow>
   ('o \<Rightarrow> http_request \<Rightarrow> 'o \<times> http_response option) \<Rightarrow> 'o \<Rightarrow> 'cfg connect_env \<Rightarrow> 'cfg tls_state \<Rightarrow>
   (scan_hooks \<times> http_request) list \<Rightarrow> string option option \<Rightarrow> (scan_hooks \<times> http_request) list \<Rightarrow>
   origin_call list exec" where
  "proxy_session lib send_plain send origin env ts [] hello reqs = Some []"
| "proxy_session lib send_plain send origin env ts ((hk, req) # rest) hello reqs =
     (case proxy_dispatch lib send_plain hk req of
        (TunnelTo a, _) \<Rightarrow>
          (case handle_connect env hk a hello ts of
             (Established _ _ sni, _) \<Rightarrow> do {
               (_, t) \<leftarrow> run_tunnel lib send reqs
                 \<lparr>tn_origin = origin, tn_sent = [], tn_video = default_channel\<rparr>;
               Some (map (TunnelCall a sni) (tn_sent t))
             }
           | _ \<Rightarrow> Some [])
      | (_, call) \<Rightarrow> do {
          calls \<leftarrow> proxy_session lib send_plain send origin env ts rest hello reqs;
          Some ((case call of None \<Rightarrow> [] | Some (host, port, sent) \<Rightarrow> [PlainCall host port sent]) @ calls)
        })"

end
