(* ===== verification/Mitm_Safety.thy ===== *)
theory Mitm_Safety
  imports Mitm_Proxy
begin

text \<open>
  What the proxy guarantees: which headers cross a hop, which requests reach an origin, what
  comes back to the browser, and that its host rules are those of the device.
\<close>

section \<open>Headers\<close>

lemma get_all_remove: "header_get_all n (header_remove m hs) = (if n = m then [] else header_get_all n hs)"
  by (induction hs) (auto simp: header_get_all_def header_remove_def)

lemma get_all_removes: "header_get_all n (fold header_remove ns hs) = (if n \<in> set ns then [] else header_get_all n hs)"
  by (induction ns arbitrary: hs) (auto simp: get_all_remove)

lemma get_all_insert: "header_get_all n (header_insert m v hs) = (if n = m then [v] else header_get_all n hs)"
  using get_all_remove [of n m hs] by (auto simp: header_insert_def header_get_all_def)

lemma get_all_strip:
  "header_get_all n (strip_hop_by_hop hs) =
     (if n \<in> set HOP_BY_HOP \<or> n \<in> set (connection_names hs) then [] else header_get_all n hs)"
  by (simp add: strip_hop_by_hop_def get_all_removes)

lemma connection_names_insert: "m \<noteq> ''connection'' \<Longrightarrow> connection_names (header_insert m v hs) = connection_names hs"
  by (simp add: connection_names_def get_all_insert)

text \<open>C28: a plain-HTTP request leaves for the authority of its URI, on its port or 80, with its
  method and body unchanged and in origin form. For every header name, the values sent are none
  for a hop-by-hop name or one the \<open>Connection\<close> header lists, the authority alone for
  \<open>host\<close>, and the request's own values, in order, otherwise; the response handed back has lost its
  hop-by-hop headers in the same way.\<close>

theorem plain_request_as_sent:
  assumes "forward_http lib send req = (Some (host, port, sent), res)"
  shows "\<exists>a. ur_authority (rq_uri req) = Some a \<and> host = au_host a \<and>
      port = (case au_port a of Some p \<Rightarrow> p | None \<Rightarrow> 80) \<and>
      rq_method sent = rq_method req \<and> rq_body sent = rq_body req \<and>
      parse_uri lib (case ur_path_and_query (rq_uri req) of Some pq \<Rightarrow> pq | None \<Rightarrow> ''/'') = Some (rq_uri sent) \<and>
      (\<forall>n. header_get_all n (rq_headers sent) =
        (if n \<in> set HOP_BY_HOP \<or> n \<in> set (connection_names (rq_headers req)) then []
         else if n = ''host'' then [bytes_of_string (au_text a)] else header_get_all n (rq_headers req))) \<and>
      (case send host port sent of
         None \<Rightarrow> res = None
       | Some r \<Rightarrow> \<exists>r'. res = Some r' \<and> rs_status r' = rs_status r \<and> rs_body r' = rs_body r \<and>
           (\<forall>n. header_get_all n (rs_headers r') =
             (if n \<in> set HOP_BY_HOP \<or> n \<in> set (connection_names (rs_headers r)) then []
              else header_get_all n (rs_headers r))))"
proof -
  from assms obtain a u v where a: "ur_authority (rq_uri req) = Some a"
    "parse_uri lib (case ur_path_and_query (rq_uri req) of Some pq \<Rightarrow> pq | None \<Rightarrow> ''/'') = Some u"
    "header_value_of (au_text a) = Some v"
    and sent: "host = au_host a" "port = (case au_port a of Some p \<Rightarrow> p | None \<Rightarrow> 80)"
      "sent = req\<lparr>rq_uri := u, rq_headers := strip_hop_by_hop (header_insert ''host'' v (rq_headers req))\<rparr>"
    and res: "res = map_option (\<lambda>r. r\<lparr>rs_headers := strip_hop_by_hop (rs_headers r)\<rparr>) (send host port sent)"
    by (auto simp: forward_http_def Let_def split: option.splits)
  have "v = bytes_of_string (au_text a)" using a(3) by (auto simp: header_value_of_def Let_def split: if_splits)
  then show ?thesis
    using a sent res
    by (auto simp: get_all_strip connection_names_insert get_all_insert split: option.splits)
qed

text \<open>A \<open>Connection\<close> header that lists \<open>host\<close> removes the host header that was just set.\<close>

lemma host_header_can_be_stripped:
  "header_get_all ''host'' (strip_hop_by_hop (header_insert ''host'' v [(''connection'', bytes_of_string ''Host'')])) = []"
  unfolding get_all_strip by code_simp

section \<open>Certificates\<close>

lemma leaf_window:
  "fst (leaf_validity now) < now \<and> now < snd (leaf_validity now) \<and>
   snd (leaf_validity now) - fst (leaf_validity now) \<le> MAX_LEAF_VALIDITY_DAYS * 86400"
  by (simp add: leaf_validity_def LEAF_VALIDITY_DAYS_def LEAF_BACKDATE_HOURS_def MAX_LEAF_VALIDITY_DAYS_def)

lemma server_config_stable:
  "server_config mk ts sni = (Some cfg, ts') \<Longrightarrow> server_config mk' ts' sni = (Some cfg, ts')"
  by (auto simp: server_config_def split: option.splits)

section \<open>Inside a tunnel\<close>

text \<open>The requests that pass the checks made before the origin is contacted.\<close>

definition passes_request_checks :: "http_lib \<Rightarrow> scan_hooks \<Rightarrow> http_request \<Rightarrow> bool" where
  "passes_request_checks lib hk req \<longleftrightarrow>
     \<not> host_header_listed lib hk (rq_headers req) \<and>
     (\<exists>r. hk_url hk (ur_text (rq_uri req)) = Some r \<and> \<not> is_block r)"

text \<open>What may be handed to the browser: a page or an image that the hooks could look at was not
  blocked by them.\<close>

definition passes_response_checks :: "scan_hooks \<Rightarrow> string \<Rightarrow> http_response \<Rightarrow> bool" where
  "passes_response_checks hk path res \<longleftrightarrow>
     (\<forall>bs. rs_body res = BodyOk bs \<and> \<not> is_video_segment path \<and> length bs \<le> hk_body_limit hk \<and>
        (\<forall>n. content_length (rs_headers res) = Some n \<longrightarrow> n \<le> hk_body_limit hk) \<longrightarrow>
        (is_html res \<longrightarrow> (\<forall>txt. from_utf8 bs = Some txt \<longrightarrow> (\<exists>r. hk_body hk txt = Some r \<and> \<not> is_block r))) \<and>
        (is_image res \<longrightarrow> (\<forall>r. hk_image hk bs = Some r \<longrightarrow> \<not> is_block r)))"

lemma scan_buffered_passes:
  "scan_buffered hk html img bs = Some False \<Longrightarrow>
     (html \<longrightarrow> (\<forall>txt. from_utf8 bs = Some txt \<longrightarrow> (\<exists>r. hk_body hk txt = Some r \<and> \<not> is_block r))) \<and>
     (img \<longrightarrow> (\<forall>r. hk_image hk bs = Some r \<longrightarrow> \<not> is_block r))"
  by (auto simp: scan_buffered_def bind_eq_Some_conv split: if_splits option.splits)

lemma answer_origin:
  assumes "answer hk path res t = Some (r, t')"
  shows "tn_sent t' = tn_sent t" "tn_origin t' = tn_origin t"
    and "r = OriginReply res' \<Longrightarrow> res' = res \<and> passes_response_checks hk path res"
proof -
  show "tn_sent t' = tn_sent t" "tn_origin t' = tn_origin t"
    using assms by (auto simp: answer_def bind_eq_Some_conv split: if_splits body.splits option.splits)
  assume "r = OriginReply res'"
  with assms show "res' = res \<and> passes_response_checks hk path res"
    by (auto simp: answer_def bind_eq_Some_conv passes_response_checks_def
        dest: scan_buffered_passes split: if_splits body.splits option.splits)
qed

definition after_send :: "('o \<Rightarrow> http_request \<Rightarrow> 'o \<times> http_response option) \<Rightarrow> http_request \<Rightarrow> 'o tunnel \<Rightarrow> 'o tunnel" where
  "after_send send req t = t\<lparr>tn_origin := fst (send (tn_origin t) req), tn_sent := tn_sent t @ [req]\<rparr>"

lemma tunnel_forward_cases:
  assumes "tunnel_forward lib send hk req t = Some (r, t')"
  obtains (refused) "\<not> passes_request_checks lib hk req" "r = RefusedReply" "t' = t"
  | (failed) "passes_request_checks lib hk req" "snd (send (tn_origin t) req) = None"
      "r = GatewayReply" "t' = after_send send req t"
  | (answered) res where "passes_request_checks lib hk req" "snd (send (tn_origin t) req) = Some res"
      "answer hk (ur_path (rq_uri req)) res (after_send send req t) = Some (r, t')"
proof (cases "passes_request_checks lib hk req")
  case True
  then obtain u where u: "\<not> host_header_listed lib hk (rq_headers req)"
    "hk_url hk (ur_text (rq_uri req)) = Some u" "\<not> is_block u" by (auto simp: passes_request_checks_def)
  show ?thesis
  proof (cases "snd (send (tn_origin t) req)")
    case None
    with assms u True show ?thesis
      by (intro failed) (auto simp: tunnel_forward_def after_send_def Let_def split_beta)
  next
    case (Some res)
    with assms u True show ?thesis
      by (intro answered [of res]) (auto simp: tunnel_forward_def after_send_def Let_def split_beta)
  qed
next
  case False
  with assms show ?thesis
    by (intro refused) (auto simp: tunnel_forward_def passes_request_checks_def bind_eq_Some_conv split: if_splits)
qed

lemma tunnel_forward_sent:
  assumes "tunnel_forward lib send hk req t = Some (r, t')"
  shows "tn_sent t' = tn_sent t @ (if passes_request_checks lib hk req then [req] else [])"
  using assms by (cases rule: tunnel_forward_cases) (auto simp: after_send_def dest: answer_origin(1))

lemma tunnel_forward_origin:
  assumes "tunnel_forward lib send hk req t = Some (OriginReply res, t')"
  shows "passes_request_checks lib hk req \<and> snd (send (tn_origin t) req) = Some res \<and>
    passes_response_checks hk (ur_path (rq_uri req)) res"
  using assms by (cases rule: tunnel_forward_cases) (auto dest: answer_origin(3) [OF _ refl])

lemma tunnel_forward_refused:
  "tunnel_forward lib send hk req t = Some (r, t') \<Longrightarrow> \<not> passes_request_checks lib hk req \<Longrightarrow> r = RefusedReply"
  by (erule tunnel_forward_cases) auto

lemma tunnel_sent:
  "run_tunnel lib send reqs t = Some (replies, t') \<Longrightarrow>
     tn_sent t' = tn_sent t @ map snd (filter (\<lambda>(hk, req). passes_request_checks lib hk req) reqs)"
proof (induction reqs arbitrary: t replies)
  case (Cons p reqs)
  then show ?case by (cases p) (force simp: bind_eq_Some_conv dest!: tunnel_forward_sent)
qed simp

text \<open>C7: over a whole tunnel connection, whatever the hooks are at each request: the origin sees
  exactly the requests whose \<open>Host\<close> header is not listed and whose URL the scanner lets pass, in
  order and unchanged; and each answer passed to the browser was given by the origin for such a
  request, and is not a page or an image within the limits that the body or image scanner
  blocks.\<close>

theorem tunnel_connection_safe:
  assumes "run_tunnel lib send reqs t = Some (replies, t')"
  shows "tn_sent t' = tn_sent t @ map snd (filter (\<lambda>(hk, req). passes_request_checks lib hk req) reqs) \<and>
    list_all2 (\<lambda>(hk, req) r. (passes_request_checks lib hk req \<or> r = RefusedReply) \<and> (case r of
        OriginReply res \<Rightarrow> passes_request_checks lib hk req \<and> (\<exists>origin. snd (send origin req) = Some res) \<and>
          passes_response_checks hk (ur_path (rq_uri req)) res
      | _ \<Rightarrow> True)) reqs replies"
proof -
  have "list_all2 (\<lambda>(hk, req) r. (passes_request_checks lib hk req \<or> r = RefusedReply) \<and> (case r of
        OriginReply res \<Rightarrow> passes_request_checks lib hk req \<and> (\<exists>origin. snd (send origin req) = Some res) \<and>
          passes_response_checks hk (ur_path (rq_uri req)) res
      | _ \<Rightarrow> True)) reqs replies"
    using assms
  proof (induction reqs arbitrary: t replies)
    case (Cons p reqs)
    obtain hk req where p: "p = (hk, req)" by (cases p)
    from Cons.prems obtain r t1 rs where step: "tunnel_forward lib send hk req t = Some (r, t1)"
      and rest: "run_tunnel lib send reqs t1 = Some (rs, t')" and replies: "replies = r # rs"
      by (auto simp: p bind_eq_Some_conv)
    from Cons.IH [OF rest] tunnel_forward_refused [OF step] tunnel_forward_origin [of lib send hk req t _ t1] step
    show ?case by (cases r) (auto simp: p replies)
  qed simp
  then show ?thesis using tunnel_sent [OF assms] by simp
qed

section \<open>What is not looked at\<close>

text \<open>A path that ends like a video segment, and a content type in other letter case, pass
  whatever the body is; the segments go nowhere, since the default channel has no receiver.\<close>

lemma video_path_unscanned: "is_video_segment path \<Longrightarrow> answer hk path res t = Some (r, t') \<Longrightarrow> r \<noteq> RefusedReply"
  by (auto simp: answer_def split: body.splits)

lemma content_type_case_sensitive:
  "answer hk ''/'' \<lparr>rs_status = 200, rs_headers = [(''content-type'', bytes_of_string ''Text/HTML'')], rs_body = BodyOk bs\<rparr> t
     = Some (OriginReply \<lparr>rs_status = 200, rs_headers = [(''content-type'', bytes_of_string ''Text/HTML'')], rs_body = BodyOk bs\<rparr>, t)"
proof -
  have ct: "header_text ''content-type'' [(''content-type'', bytes_of_string ''Text/HTML'')] = ''Text/HTML''"
    "\<not> is_video_segment ''/''" by code_simp+
  then show ?thesis by (simp add: answer_def is_html_def is_image_def)
qed

lemma default_channel_drops: "video_try_send default_channel b = default_channel"
  by (simp add: video_try_send_def default_channel_def)

section \<open>The whole proxy\<close>

lemma dispatched_host:
  assumes "proxy_dispatch lib send hk req = (out, call)"
  shows "out = TunnelTo a \<Longrightarrow> \<not> hk_host_blocked hk (au_host a)"
    and "call = Some (host, port, sent) \<Longrightarrow> \<not> hk_host_blocked hk host"
  using assms by (auto simp: proxy_dispatch_def forward_http_def Let_def split: option.splits if_splits)

lemma established_unlisted:
  "handle_connect env hk a hello ts = (Established host port sni, ts') \<Longrightarrow> \<not> hk_host_blocked hk sni"
  by (auto simp: handle_connect_def Let_def split: option.splits if_splits prod.splits)

text \<open>A host the lists let through: an IP literal, or a name whose key no feed entry covers.\<close>

definition unlisted_host :: "to_ascii \<Rightarrow> (string \<Rightarrow> string option) \<Rightarrow> raw_entry list \<Rightarrow> string list \<Rightarrow> string \<Rightarrow> bool" where
  "unlisted_host to_ascii psl raws deny host \<longleftrightarrow> is_ip_host host \<or>
     (\<exists>k. normalize to_ascii host = Inr k \<and>
        \<not> (\<exists>raw \<in> set raws. raw_covers (resolved to_ascii psl (normalized_denylist to_ascii deny)) k raw))"

lemma unblocked_unlisted:
  assumes b: "build fst_encode sha256 serialize ed_sign (mo_entries (merge to_ascii psl raws deny)) lic sources version
      time sks = Some (Inr art)"
    and "fst_contract fst_encode fst_open" and "fst_open (fa_fst_bytes art) = Some m"
    and "length (mo_entries (merge to_ascii psl raws deny)) < 2 ^ 32"
    and rules: "hr_blocklist rules = Some \<lparr>ba_map = m, ba_provenance = mf_provenance_table (fa_manifest art),
      ba_version = version\<rparr>"
    and free: "\<not> host_is_blocked to_ascii psls psld rules host"
  shows "unlisted_host to_ascii psl raws deny host"
proof (cases "is_ip_host host")
  case False
  let ?ba = "\<lparr>ba_map = m, ba_provenance = mf_provenance_table (fa_manifest art), ba_version = version\<rparr>"
  obtain k where k: "normalize to_ascii host = Inr k" and "artifact_lookup ?ba (reverse_key k) \<noteq> Some Block"
    using free False rules by (auto simp: host_is_blocked_iff split: sum.splits)
  moreover have "artifact_lookup ?ba (reverse_key k) =
      (if blocks (mo_entries (merge to_ascii psl raws deny)) k then Some Block else None)"
    by (rule built_lookup [OF assms(1-4)]) simp_all
  ultimately have "\<not> blocks (mo_entries (merge to_ascii psl raws deny)) k" by auto
  then show ?thesis using k by (simp add: unlisted_host_def merge_entries_spec blocks_merged)
qed (simp add: unlisted_host_def)

lemma main_hooks_host: "hk_host_blocked (main_hooks u ord engine c1 c2 il sb to_ascii psls psld rules) = host_is_blocked to_ascii psls psld rules"
  by (simp add: main_hooks_def)

lemma session_calls:
  "proxy_session lib send_plain send origin env ts plain hello reqs = Some calls \<Longrightarrow> c \<in> set calls \<Longrightarrow>
    case c of
      PlainCall host port sent \<Rightarrow> \<exists>hk req. (hk, req) \<in> set plain \<and> \<not> hk_host_blocked hk host
    | TunnelCall a sni sent \<Rightarrow>
        (\<exists>hk req. (hk, req) \<in> set plain \<and> \<not> hk_host_blocked hk (au_host a) \<and> \<not> hk_host_blocked hk sni) \<and>
        (\<exists>hk'. (hk', sent) \<in> set reqs \<and> passes_request_checks lib hk' sent)"
proof (induction plain arbitrary: calls)
  case (Cons p rest)
  obtain hk req where p: "p = (hk, req)" by (cases p)
  obtain out call where d: "proxy_dispatch lib send_plain hk req = (out, call)" by (cases "proxy_dispatch lib send_plain hk req")
  show ?case
  proof (cases "\<exists>a. out = TunnelTo a")
    case True
    then obtain a where a: "out = TunnelTo a" by blast
    obtain res ts' where h: "handle_connect env hk a hello ts = (res, ts')" by (cases "handle_connect env hk a hello ts")
    from Cons.prems d a h obtain host port sni replies t where res: "res = Established host port sni"
      and run: "run_tunnel lib send reqs \<lparr>tn_origin = origin, tn_sent = [], tn_video = default_channel\<rparr> = Some (replies, t)"
      and calls: "calls = map (TunnelCall a sni) (tn_sent t)"
      by (auto simp: p bind_eq_Some_conv split: connect_outcome.splits)
    from calls Cons.prems(2) obtain sent where c: "c = TunnelCall a sni sent" and "sent \<in> set (tn_sent t)" by auto
    with tunnel_sent [OF run] have "\<exists>hk'. (hk', sent) \<in> set reqs \<and> passes_request_checks lib hk' sent" by auto
    then show ?thesis
      using dispatched_host(1) [OF d a] established_unlisted [of env hk a hello ts host port sni ts'] h res by (auto simp: c p)
  next
    case False
    from Cons.prems(1) d False obtain calls' where later: "proxy_session lib send_plain send origin env ts rest hello reqs = Some calls'"
      and calls: "calls = (case call of None \<Rightarrow> [] | Some (host, port, sent) \<Rightarrow> [PlainCall host port sent]) @ calls'"
      by (cases out) (auto simp: p bind_eq_Some_conv)
    show ?thesis
    proof (cases "c \<in> set calls'")
      case True
      from Cons.IH [OF later True] show ?thesis by (cases c) auto
    next
      case False
      with calls Cons.prems(2) obtain host port sent where "c = PlainCall host port sent" "call = Some (host, port, sent)"
        by (auto split: option.splits)
      then show ?thesis using dispatched_host(2) [of lib send_plain hk req out call] d by (auto simp: p)
    qed
  qed
qed simp

text \<open>C3: end to end, the names the proxy looks at are not contacted when the feeds list them. With the hooks
  \<open>main\<close> builds, in any protection mode and with any keywords, over an artifact built from the merged raw
  entries, and whatever the browser sends on a connection: every plain request that leaves for an origin leaves for
  a host, and every tunnelled request is sent in a tunnel whose \<open>CONNECT\<close> target and TLS server name, and
  with a first \<open>Host\<close> header, that are IP literals or names no surviving feed entry covers (a \<open>Host\<close>
  header that is not an authority is not looked up); a name that cannot be normalized gets no request through.
  The host of an absolute request target and a second \<open>Host\<close> header inside a tunnel are not looked up
  (lemma \<open>tunnelled_target_unchecked\<close>).\<close>

theorem proxy_contacts_nothing_listed:
  assumes b: "build fst_encode sha256 serialize ed_sign (mo_entries (merge to_ascii psl raws deny)) lic sources version
      time sks = Some (Inr art)"
    and fst: "fst_contract fst_encode fst_open" and m: "fst_open (fa_fst_bytes art) = Some m"
    and n: "length (mo_entries (merge to_ascii psl raws deny)) < 2 ^ 32"
    and rules: "hr_blocklist rules = Some \<lparr>ba_map = m, ba_provenance = mf_provenance_table (fa_manifest art),
      ba_version = version\<rparr>"
    and hooks: "\<forall>(hk, r) \<in> set (plain @ reqs). \<exists>c1 c2. hk = main_hooks u ord engine c1 c2 il sb to_ascii psls psld rules"
    and session: "proxy_session lib send_plain send origin env ts plain hello reqs = Some calls"
    and c: "c \<in> set calls"
  shows "case c of
      PlainCall host port sent \<Rightarrow> unlisted_host to_ascii psl raws deny host
    | TunnelCall a sni sent \<Rightarrow> unlisted_host to_ascii psl raws deny (au_host a) \<and> unlisted_host to_ascii psl raws deny sni \<and>
        (\<forall>h. Option.bind (Option.bind (header_get ''host'' (rq_headers sent)) to_str) (parse_authority lib) = Some h \<longrightarrow>
           unlisted_host to_ascii psl raws deny (au_host h))"
proof -
  note free = unblocked_unlisted [OF b fst m n rules]
  have hk: "hk_host_blocked hk = host_is_blocked to_ascii psls psld rules"
    if "(hk, r) \<in> set plain \<or> (hk, r) \<in> set reqs" for hk r
  proof -
    have "(hk, r) \<in> set (plain @ reqs)" using that by simp
    from bspec [OF hooks this] obtain c1 c2 where "hk = main_hooks u ord engine c1 c2 il sb to_ascii psls psld rules"
      by (simp only: prod.case) blast
    then show ?thesis by (simp only: main_hooks_host)
  qed
  have unlisted: "unlisted_host to_ascii psl raws deny host"
    if "(hk, r) \<in> set plain \<or> (hk, r) \<in> set reqs" "\<not> hk_host_blocked hk host" for hk r host
    using that(2) unfolding hk [OF that(1)] by (rule free)
  show ?thesis
  proof (cases c)
    case (PlainCall host port sent)
    then show ?thesis using session_calls [OF session c] unlisted by auto
  next
    case (TunnelCall a sni sent)
    with session_calls [OF session c] obtain hk' where hk': "(hk', sent) \<in> set reqs" "passes_request_checks lib hk' sent"
      by auto
    have "unlisted_host to_ascii psl raws deny (au_host h)"
      if "Option.bind (Option.bind (header_get ''host'' (rq_headers sent)) to_str) (parse_authority lib) = Some h" for h
      using hk'(2) that unlisted [OF disjI2 [OF hk'(1)], of "au_host h"]
      by (auto simp: passes_request_checks_def host_header_listed_def)
    then show ?thesis using session_calls [OF session c] unlisted TunnelCall by auto
  qed
qed

section \<open>Instances\<close>

text \<open>A parser that takes every text as a host or a path.\<close>

definition toy_http :: http_lib where
  "toy_http = \<lparr>parse_authority = (\<lambda>s. Some \<lparr>au_text = s, au_host = s, au_port = None\<rparr>),
     parse_uri = (\<lambda>s. Some \<lparr>ur_text = s, ur_authority = None, ur_path = s, ur_path_and_query = Some s\<rparr>)\<rparr>"

definition toy_get :: "string option \<Rightarrow> string \<Rightarrow> header_map \<Rightarrow> http_request" where
  "toy_get host path hs = \<lparr>rq_method = ''GET'',
     rq_uri = \<lparr>ur_text = path,
       ur_authority = map_option (\<lambda>h. \<lparr>au_text = h, au_host = h, au_port = None\<rparr>) host,
       ur_path = path, ur_path_and_query = Some path\<rparr>,
     rq_headers = hs, rq_body = []\<rparr>"

theorem plain_request_as_sent_witness:
  "\<exists>host port sent. forward_http toy_http (\<lambda>_ _ _. None)
      (toy_get (Some ''c.d'') ''/x'' [(''connection'', bytes_of_string ''X-A''), (''x-a'', [49]), (''te'', [50])])
        = (Some (host, port, sent), None) \<and>
    header_get_all ''x-a'' (rq_headers sent) = [] \<and> header_get_all ''te'' (rq_headers sent) = [] \<and>
    header_get_all ''host'' (rq_headers sent) = [bytes_of_string ''c.d'']"
proof -
  let ?req = "toy_get (Some ''c.d'') ''/x'' [(''connection'', bytes_of_string ''X-A''), (''x-a'', [49]), (''te'', [50])]"
  obtain host port sent where f: "forward_http toy_http (\<lambda>_ _ _. None) ?req = (Some (host, port, sent), None)"
  proof -
    have "case forward_http toy_http (\<lambda>_ _ _. None) ?req of (Some _, None) \<Rightarrow> True | _ \<Rightarrow> False" by code_simp
    then show ?thesis using that by (auto split: prod.splits option.splits)
  qed
  have names: "''x-a'' \<in> set (connection_names (rq_headers ?req))" "''host'' \<notin> set (connection_names (rq_headers ?req))"
    "''te'' \<in> set HOP_BY_HOP" "''host'' \<notin> set HOP_BY_HOP" by code_simp+
  have "au_text (the (ur_authority (rq_uri ?req))) = ''c.d''" by (simp add: toy_get_def)
  with plain_request_as_sent [OF f] names f show ?thesis by auto
qed

definition toy_hooks :: scan_hooks where
  "toy_hooks = \<lparr>hk_url = (\<lambda>u. Some (if u = ''/bad'' then ScanBlock 90 else ScanAllow)),
     hk_body = (\<lambda>_. Some ScanAllow), hk_image = (\<lambda>_. Some ScanAllow), hk_body_limit = 10,
     hk_host_blocked = (\<lambda>_. False)\<rparr>"

theorem tunnel_connection_safe_witness:
  "\<exists>replies t. run_tunnel toy_http (\<lambda>o' _. (o', None)) [(toy_hooks, toy_get None ''/bad'' []), (toy_hooks, toy_get None ''/ok'' [])]
      \<lparr>tn_origin = (), tn_sent = [], tn_video = default_channel\<rparr> = Some (replies, t) \<and>
    tn_sent t = [toy_get None ''/ok'' []]"
proof -
  let ?reqs = "[(toy_hooks, toy_get None ''/bad'' []), (toy_hooks, toy_get None ''/ok'' [])]"
  let ?t = "\<lparr>tn_origin = (), tn_sent = [], tn_video = default_channel\<rparr>"
  have "run_tunnel toy_http (\<lambda>o' _. (o', None)) ?reqs ?t \<noteq> None" by code_simp
  then obtain replies t where r: "run_tunnel toy_http (\<lambda>o' _. (o', None)) ?reqs ?t = Some (replies, t)" by auto
  have "\<not> passes_request_checks toy_http toy_hooks (toy_get None ''/bad'' [])"
    "passes_request_checks toy_http toy_hooks (toy_get None ''/ok'' [])"
    by (simp_all add: passes_request_checks_def toy_hooks_def toy_get_def host_header_listed_def header_get_def)
  with tunnel_connection_safe [OF r] r show ?thesis by auto
qed

text \<open>The proxy over an artifact that lists \<open>a.b\<close>: a connection with a plain request, then a tunnel.\<close>

definition toy_rules :: host_rules where
  "toy_rules = \<lparr>hr_blocklist = Some \<lparr>ba_map = map_of [(''b.a'', 0)], ba_provenance = toy_table, ba_version = 3\<rparr>,
     hr_keywords = \<lparr>tokens = []\<rparr>\<rparr>"

definition toy_main_hooks :: scan_hooks where
  "toy_main_hooks = main_hooks ascii_unicode (\<lambda>xs. xs)
     (policy_engine_new (one_matcher ExplicitAct High [ExactPhrase]) thresholds_default)
     0 0 pixel_lib sandbox_disabled ascii_to_ascii (\<lambda>d. None) (\<lambda>d. None) toy_rules"

definition toy_connect :: "string connect_env" where
  "toy_connect = \<lparr>ce_make_config = (\<lambda>s. Some s), ce_browser_tls = (\<lambda>_. True), ce_tcp = (\<lambda>_ _. True),
     ce_server_name = (\<lambda>_. True), ce_origin_tls = (\<lambda>_ _ _. True)\<rparr>"

definition toy_session :: "http_request list \<Rightarrow> origin_call list exec" where
  "toy_session reqs = proxy_session toy_http (\<lambda>_ _ _. None) (\<lambda>o' _. (o', None)) () toy_connect \<lparr>ts_cache = Map.empty\<rparr>
     [(toy_main_hooks, toy_get (Some ''c.d'') ''/x'' []), (toy_main_hooks, toy_get (Some ''a.b'') ''/x'' []),
      (toy_main_hooks, (toy_get (Some ''e.f'') [] [])\<lparr>rq_method := ''CONNECT''\<rparr>)]
     (Some (Some ''g.h'')) (map (Pair toy_main_hooks) reqs)"

text \<open>Its calls: the listed host gets none, the tunnelled request keeps its header.\<close>

definition toy_tunnelled :: http_request where
  "toy_tunnelled = toy_get None ''/y'' [(''host'', bytes_of_string ''g.h'')]"

definition toy_calls :: "origin_call list" where
  "toy_calls = [PlainCall ''c.d'' 80 (toy_get None ''/x'' [(''host'', bytes_of_string ''c.d'')]),
     TunnelCall \<lparr>au_text = ''e.f'', au_host = ''e.f'', au_port = None\<rparr> ''g.h'' toy_tunnelled]"

lemma toy_session_runs: "toy_session [toy_tunnelled] = Some toy_calls"
  by code_simp

text \<open>Inside a tunnel to a host that is not listed, a request whose absolute target and second \<open>Host\<close>
  header name a listed host is sent like any other.\<close>

definition fronted_request :: http_request where
  "fronted_request = \<lparr>rq_method = ''GET'',
     rq_uri = \<lparr>ur_text = ''http://a.b/y'', ur_authority = Some \<lparr>au_text = ''a.b'', au_host = ''a.b'', au_port = None\<rparr>,
       ur_path = ''/y'', ur_path_and_query = Some ''/y''\<rparr>,
     rq_headers = [(''host'', bytes_of_string ''g.h''), (''host'', bytes_of_string ''a.b'')], rq_body = []\<rparr>"

lemma tunnelled_target_unchecked:
  "hk_host_blocked toy_main_hooks ''a.b''"
  "map_option (\<lambda>calls. TunnelCall \<lparr>au_text = ''e.f'', au_host = ''e.f'', au_port = None\<rparr> ''g.h'' fronted_request
     \<in> set calls) (toy_session [fronted_request]) = Some True"
  by code_simp+

theorem proxy_contacts_nothing_listed_witness:
  "toy_session [toy_tunnelled] = Some toy_calls \<and>
   unlisted_host ascii_to_ascii (\<lambda>n. Some n) toy_raws [] ''c.d'' \<and>
   unlisted_host ascii_to_ascii (\<lambda>n. Some n) toy_raws [] ''e.f'' \<and>
   unlisted_host ascii_to_ascii (\<lambda>n. Some n) toy_raws [] ''g.h'' \<and>
   \<not> unlisted_host ascii_to_ascii (\<lambda>n. Some n) toy_raws [] ''a.b''"
proof -
  from toy_artifact [folded toy_merged] obtain art where
    art: "build one_key_encode (\<lambda>b. b) toy_serialize (\<lambda>k b. k # b)
        (mo_entries (merge ascii_to_ascii (\<lambda>n. Some n) toy_raws [])) (LicenseId ''MIT'') [] 3 0
        [(''k'', 5 :: u8)] = Some (Inr art)"
    and m: "one_key_open (fa_fst_bytes art) = Some (map_of [(''b.a'', 0)])"
    and t: "mf_provenance_table (fa_manifest art) = toy_table" by blast
  have n: "length (mo_entries (merge ascii_to_ascii (\<lambda>n. Some n) toy_raws [])) < 2 ^ 32"
    by (simp add: toy_merged toy_entries_def)
  have rules: "hr_blocklist toy_rules = Some \<lparr>ba_map = map_of [(''b.a'', 0)],
      ba_provenance = mf_provenance_table (fa_manifest art), ba_version = 3\<rparr>" by (simp add: t toy_rules_def)
  let ?plain = "[(toy_main_hooks, toy_get (Some ''c.d'') ''/x'' []), (toy_main_hooks, toy_get (Some ''a.b'') ''/x'' []),
      (toy_main_hooks, (toy_get (Some ''e.f'') [] [])\<lparr>rq_method := ''CONNECT''\<rparr>)]"
  have hooks: "\<forall>(hk, r) \<in> set (?plain @ map (Pair toy_main_hooks) [toy_tunnelled]). \<exists>c1 c2. hk =
      main_hooks ascii_unicode (\<lambda>xs. xs) (policy_engine_new (one_matcher ExplicitAct High [ExactPhrase]) thresholds_default)
        c1 c2 pixel_lib sandbox_disabled ascii_to_ascii (\<lambda>d. None) (\<lambda>d. None) toy_rules"
    unfolding toy_main_hooks_def by auto
  note safe = proxy_contacts_nothing_listed [OF art one_key_contract m n rules hooks
      toy_session_runs [unfolded toy_session_def]]
  have "unlisted_host ascii_to_ascii (\<lambda>n. Some n) toy_raws [] ''c.d''"
    using safe [of "PlainCall ''c.d'' 80 (toy_get None ''/x'' [(''host'', bytes_of_string ''c.d'')])"]
    by (simp add: toy_calls_def)
  moreover have "unlisted_host ascii_to_ascii (\<lambda>n. Some n) toy_raws [] ''e.f'' \<and>
      unlisted_host ascii_to_ascii (\<lambda>n. Some n) toy_raws [] ''g.h''"
    using safe [of "TunnelCall \<lparr>au_text = ''e.f'', au_host = ''e.f'', au_port = None\<rparr> ''g.h'' toy_tunnelled"]
    by (simp add: toy_calls_def)
  moreover have "\<not> unlisted_host ascii_to_ascii (\<lambda>n. Some n) toy_raws [] ''a.b''"
  proof -
    have "\<not> is_ip_host ''a.b''" "normalize ascii_to_ascii ''a.b'' = Inr ''a.b''"
      "\<exists>raw \<in> set toy_raws. raw_covers (resolved ascii_to_ascii (\<lambda>n. Some n) (normalized_denylist ascii_to_ascii [])) ''a.b'' raw"
      by code_simp+
    then show ?thesis by (simp add: unlisted_host_def)
  qed
  ultimately show ?thesis using toy_session_runs by blast
qed

end
