(* ===== verification/Mitm_Startup.thy ===== *)
theory Mitm_Startup
  imports Mitm_Proxy
begin

text \<open>
  Start-up of \<open>packages/mitm-proxy/src\<close>: the certificate authority and the two TLS
  configurations of \<open>tls.rs\<close>, and \<open>main\<close> up to its listener. \<open>rcgen\<close>, \<open>rustls\<close>, the file
  system and the clock are parameters; a time is in seconds.
\<close>

section \<open>Certificates\<close>

datatype san = DnsSan string | OtherSan

datatype key_purpose = ServerAuth | OtherPurpose

datatype key_usage = DigitalSignature | OtherUsage

record cert_params =
  cp_not_before :: int
  cp_not_after :: int
  cp_subject_alt_names :: "san list"
  cp_common_names :: "string list"
  cp_key_usages :: "key_usage list"
  cp_extended_key_usages :: "key_purpose list"

text \<open>\<open>tl_params\<close> is \<open>CertificateParams::new\<close>, \<open>tl_ia5\<close> the conversion of a string to the type of
  a DNS name, \<open>tl_native\<close> what \<open>load_native_certs\<close> found, and \<open>tl_root_ok\<close> says which
  certificates a root store takes.\<close>

record ('k, 'i, 'cl, 'cfg) tls_lib =
  tl_read :: "string \<Rightarrow> string option"
  tl_key_from_pem :: "string \<Rightarrow> 'k option"
  tl_pem_parse :: "string \<Rightarrow> bytes option"
  tl_issuer :: "bytes \<Rightarrow> 'k \<Rightarrow> 'i option"
  tl_generate_key :: "'k option"
  tl_params :: "string list \<Rightarrow> cert_params option"
  tl_ia5 :: "string \<Rightarrow> string option"
  tl_sign :: "cert_params \<Rightarrow> 'k \<Rightarrow> 'i \<Rightarrow> bytes option"
  tl_native :: "bytes list"
  tl_root_ok :: "bytes \<Rightarrow> bool"
  tl_client :: "bytes list \<Rightarrow> 'cl option"
  tl_server :: "bytes \<Rightarrow> 'k \<Rightarrow> 'cfg option"

datatype tls_error =
  ReadingCert
| ReadingKey
| ParsingKey
| ParsingPem
| ParsingIssuer
| GeneratingKey
| AddingNativeRoot
| AddingExtraRoot
| ProtocolVersions
| BuildingParams
| InvalidSan
| SigningLeaf
| BuildingServer

record ('k, 'i, 'cl, 'cfg) tls_identity =
  ti_issuer :: 'i
  ti_leaf_key :: 'k
  ti_cache :: "'cfg tls_state"
  ti_client :: 'cl

definition expect_or :: "tls_error \<Rightarrow> 'a option \<Rightarrow> tls_error + 'a" where
  "expect_or e r = (case r of None \<Rightarrow> Inl e | Some x \<Rightarrow> Inr x)"

fun add_roots :: "(bytes \<Rightarrow> bool) \<Rightarrow> tls_error \<Rightarrow> bytes list \<Rightarrow> bytes list \<Rightarrow> tls_error + bytes list" where
  "add_roots ok e [] store = Inr store"
| "add_roots ok e (c # cs) store = (if ok c then add_roots ok e cs (store @ [c]) else Inl e)"

definition build_client_config :: "('k, 'i, 'cl, 'cfg) tls_lib \<Rightarrow> tls_error + 'cl" where
  "build_client_config lib =
     (case add_roots (tl_root_ok lib) AddingNativeRoot (tl_native lib) [] of
        Inl e \<Rightarrow> Inl e
      | Inr store \<Rightarrow> expect_or ProtocolVersions (tl_client lib store))"

definition build_client_config_with_extra_roots ::
  "('k, 'i, 'cl, 'cfg) tls_lib \<Rightarrow> bytes list \<Rightarrow> tls_error + 'cl" where
  "build_client_config_with_extra_roots lib extra =
     (case add_roots (tl_root_ok lib) AddingNativeRoot (tl_native lib) [] of
        Inl e \<Rightarrow> Inl e
      | Inr store \<Rightarrow>
          (case add_roots (tl_root_ok lib) AddingExtraRoot extra store of
             Inl e \<Rightarrow> Inl e
           | Inr store' \<Rightarrow> expect_or ProtocolVersions (tl_client lib store')))"

text \<open>\<open>Path::join\<close> with a relative name, on Unix.\<close>

definition path_join :: "string \<Rightarrow> string \<Rightarrow> string" where
  "path_join dir name = (if dir = [] \<or> last dir = CHR ''/'' then dir @ name else dir @ ''/'' @ name)"

text \<open>Loading stops at the first step that fails.\<close>

definition tls_load ::
  "('k, 'i, 'cl, 'cfg) tls_lib \<Rightarrow> string \<Rightarrow> tls_error + ('k, 'i, 'cl, 'cfg) tls_identity" where
  "tls_load lib ca_dir =
     (case tl_read lib (path_join ca_dir ''ca.crt'') of
        None \<Rightarrow> Inl ReadingCert
      | Some cert_pem \<Rightarrow>
     (case tl_read lib (path_join ca_dir ''ca.key'') of
        None \<Rightarrow> Inl ReadingKey
      | Some key_pem \<Rightarrow>
     (case tl_key_from_pem lib key_pem of
        None \<Rightarrow> Inl ParsingKey
      | Some ca_key \<Rightarrow>
     (case tl_pem_parse lib cert_pem of
        None \<Rightarrow> Inl ParsingPem
      | Some der \<Rightarrow>
     (case tl_issuer lib der ca_key of
        None \<Rightarrow> Inl ParsingIssuer
      | Some issuer \<Rightarrow>
     (case tl_generate_key lib of
        None \<Rightarrow> Inl GeneratingKey
      | Some leaf_key \<Rightarrow>
     (case build_client_config lib of
        Inl e \<Rightarrow> Inl e
      | Inr client \<Rightarrow>
          Inr \<lparr>ti_issuer = issuer, ti_leaf_key = leaf_key, ti_cache = \<lparr>ts_cache = Map.empty\<rparr>,
             ti_client = client\<rparr>)))))))"

definition leaf_params :: "int \<Rightarrow> string \<Rightarrow> string \<Rightarrow> cert_params \<Rightarrow> cert_params" where
  "leaf_params now sni dns params =
     params\<lparr>cp_common_names := [sni], cp_subject_alt_names := [DnsSan dns],
       cp_not_before := fst (leaf_validity now), cp_not_after := snd (leaf_validity now),
       cp_extended_key_usages := [ServerAuth], cp_key_usages := [DigitalSignature]\<rparr>"

definition generate_leaf_cert_der ::
  "('k, 'i, 'cl, 'cfg) tls_lib \<Rightarrow> 'i \<Rightarrow> int \<Rightarrow> string \<Rightarrow> 'k \<Rightarrow> tls_error + bytes" where
  "generate_leaf_cert_der lib issuer now sni key_pair =
     (case tl_params lib [sni] of
        None \<Rightarrow> Inl BuildingParams
      | Some params \<Rightarrow>
          (case tl_ia5 lib sni of
             None \<Rightarrow> Inl InvalidSan
           | Some dns \<Rightarrow> expect_or SigningLeaf (tl_sign lib (leaf_params now sni dns params) key_pair issuer)))"

definition make_server_config ::
  "('k, 'i, 'cl, 'cfg) tls_lib \<Rightarrow> ('k, 'i, 'cl, 'cfg) tls_identity \<Rightarrow> int \<Rightarrow> string \<Rightarrow> tls_error + 'cfg" where
  "make_server_config lib tls now sni =
     (case generate_leaf_cert_der lib (ti_issuer tls) now sni (ti_leaf_key tls) of
        Inl e \<Rightarrow> Inl e
      | Inr cert \<Rightarrow> expect_or BuildingServer (tl_server lib cert (ti_leaf_key tls)))"

text \<open>\<open>server_config\<close> asked for a name at a time.\<close>

definition config_for ::
  "('k, 'i, 'cl, 'cfg) tls_lib \<Rightarrow> ('k, 'i, 'cl, 'cfg) tls_identity \<Rightarrow> int \<Rightarrow> string \<Rightarrow>
   'cfg option \<times> ('k, 'i, 'cl, 'cfg) tls_identity" where
  "config_for lib tls now sni =
     (let (cfg, cache) = server_config (\<lambda>s. case make_server_config lib tls now s of Inl _ \<Rightarrow> None | Inr c \<Rightarrow> Some c)
            (ti_cache tls) sni
      in (cfg, tls\<lparr>ti_cache := cache\<rparr>))"

fun serve_names ::
  "('k, 'i, 'cl, 'cfg) tls_lib \<Rightarrow> ('k, 'i, 'cl, 'cfg) tls_identity \<Rightarrow> (int \<times> string) list \<Rightarrow>
   ('k, 'i, 'cl, 'cfg) tls_identity" where
  "serve_names lib tls [] = tls"
| "serve_names lib tls ((now, sni) # rest) = serve_names lib (snd (config_for lib tls now sni)) rest"

section \<open>Main\<close>

text \<open>\<open>st_model\<close> loads a classifier, \<open>st_slots\<close> are the files below a list directory,
  \<open>st_keyword_file\<close> the content of a file if it opens, \<open>st_bind\<close> whether the address can be
  listened on.\<close>

record ('addr, 'vk, 'k, 'i, 'cl, 'cfg) start_env =
  st_parsers :: "('addr, 'vk) arg_parsers"
  st_local_8080 :: 'addr
  st_tls :: "('k, 'i, 'cl, 'cfg) tls_lib"
  st_unicode :: unicode
  st_hash :: hash_order
  st_model :: "string \<Rightarrow> nat \<Rightarrow> classifier_error + image_classifier"
  st_loader :: "'vk loader"
  st_slots :: "string \<Rightarrow> slot_dir \<Rightarrow> slot_files"
  st_keyword_file :: "string \<Rightarrow> bytes option"
  st_bind :: "'addr \<Rightarrow> bool"

datatype start_error =
  UsageExit arg_error
| HelpExit
| TlsFailed tls_error
| BlocklistFailed artifact_error
| KeywordFileFailed keyword_file_error
| BindFailed

text \<open>\<open>ProxyState\<close>, with the parts its hooks close over.\<close>

record ('addr, 'k, 'i, 'cl, 'cfg) proxy_state =
  ps_listen :: 'addr
  ps_tls :: "('k, 'i, 'cl, 'cfg) tls_identity"
  ps_engine :: policy_engine
  ps_sandbox :: image_sandbox
  ps_rules :: host_rules
  ps_mode :: u8
  ps_usable_keywords :: nat

definition host_blocklist_load ::
  "'vk loader \<Rightarrow> (string \<Rightarrow> slot_dir \<Rightarrow> slot_files) \<Rightarrow> string \<Rightarrow> (key_id \<times> 'vk) list \<Rightarrow> artifact_error + artifact" where
  "host_blocklist_load ld slots dir trusted_keys = load (ld\<lparr>ld_trusted := trusted_keys\<rparr>) (slots dir)"

definition start_blocklist ::
  "('addr, 'vk, 'k, 'i, 'cl, 'cfg) start_env \<Rightarrow> ('addr, 'vk) proxy_options \<Rightarrow> artifact_error + artifact option" where
  "start_blocklist env opts =
     (case po_blocklist_dir opts of
        None \<Rightarrow> Inr None
      | Some dir \<Rightarrow> map_sum (\<lambda>e. e) Some
          (host_blocklist_load (st_loader env) (st_slots env) dir (po_blocklist_keys opts)))"

definition start_keywords ::
  "('addr, 'vk, 'k, 'i, 'cl, 'cfg) start_env \<Rightarrow> ('addr, 'vk) proxy_options \<Rightarrow> keyword_file_error + string list" where
  "start_keywords env opts =
     (case po_keyword_file opts of
        None \<Rightarrow> Inr []
      | Some path \<Rightarrow> read_keyword_file (st_keyword_file env path))"

definition unwrap_or_zero :: "fp option \<Rightarrow> fp" where
  "unwrap_or_zero t = (case t of None \<Rightarrow> Fin 0 | Some x \<Rightarrow> x)"

definition usable_keywords :: "string list \<Rightarrow> nat" where
  "usable_keywords ts = length (filter (\<lambda>t. normalize_token t \<noteq> None) ts)"

definition proxy_start ::
  "('addr, 'vk, 'k, 'i, 'cl, 'cfg) start_env \<Rightarrow> string list \<Rightarrow>
   (start_error + ('addr, 'k, 'i, 'cl, 'cfg) proxy_state) exec" where
  "proxy_start env args =
     (case from_args (st_parsers env) (st_local_8080 env) args of
        ArgsErr e \<Rightarrow> Some (Inl (UsageExit e))
      | ArgsHelp \<Rightarrow> Some (Inl HelpExit)
      | ArgsOk opts \<Rightarrow>
     (case tls_load (st_tls env) (po_ca_dir opts) of
        Inl e \<Rightarrow> Some (Inl (TlsFailed e))
      | Inr tls \<Rightarrow> do {
          engine \<leftarrow> build_default_engine (st_unicode env) (st_hash env);
          let sandbox = build_image_sandbox (st_model env) (po_image_model opts)
                (unwrap_or_zero (po_image_sexy_threshold opts)) (unwrap_or_zero (po_image_threshold opts));
          Some (case start_blocklist env opts of
             Inl e \<Rightarrow> Inl (BlocklistFailed e)
           | Inr list \<Rightarrow>
          (case start_keywords env opts of
             Inl e \<Rightarrow> Inl (KeywordFileFailed e)
           | Inr keyword_tokens \<Rightarrow>
               if st_bind env (po_listen opts)
               then Inr \<lparr>ps_listen = po_listen opts, ps_tls = tls, ps_engine = engine, ps_sandbox = sandbox,
                 ps_rules = set_host_keywords (host_rules_default\<lparr>hr_blocklist := list\<rparr>) keyword_tokens,
                 ps_mode = as_u8 Full, ps_usable_keywords = usable_keywords keyword_tokens\<rparr>
               else Inl BindFailed))
        }))"

section \<open>Roots\<close>

lemma add_roots_eq:
  "add_roots ok e cs store = (if list_all ok cs then Inr (store @ cs) else Inl e)"
  by (induction cs arbitrary: store) simp_all

text \<open>Without extra certificates the two constructions agree. One native root that the store
  refuses stops the proxy.\<close>

lemma no_extra_roots: "build_client_config_with_extra_roots lib [] = build_client_config lib"
  by (simp add: build_client_config_with_extra_roots_def build_client_config_def split: sum.splits)

lemma broken_root_stops:
  assumes "c \<in> set (tl_native lib)" and "\<not> tl_root_ok lib c"
  shows "build_client_config lib = Inl AddingNativeRoot" and "\<exists>e. tls_load lib dir = Inl e"
proof -
  show r: "build_client_config lib = Inl AddingNativeRoot"
    using assms by (auto simp: build_client_config_def add_roots_eq list_all_iff)
  show "\<exists>e. tls_load lib dir = Inl e" by (auto simp: tls_load_def r split: option.splits)
qed

section \<open>Leaves\<close>

text \<open>A configuration that presents a leaf made for a name at a time, with the identity's keys.\<close>

definition presents_leaf ::
  "('k, 'i, 'cl, 'cfg) tls_lib \<Rightarrow> ('k, 'i, 'cl, 'cfg) tls_identity \<Rightarrow> int \<Rightarrow> string \<Rightarrow> 'cfg \<Rightarrow> bool" where
  "presents_leaf lib tls t sni cfg \<longleftrightarrow>
     (\<exists>p dns cert. tl_ia5 lib sni = Some dns \<and> tl_sign lib p (ti_leaf_key tls) (ti_issuer tls) = Some cert \<and>
        tl_server lib cert (ti_leaf_key tls) = Some cfg \<and>
        cp_subject_alt_names p = [DnsSan dns] \<and> cp_common_names p = [sni] \<and>
        cp_extended_key_usages p = [ServerAuth] \<and> cp_key_usages p = [DigitalSignature] \<and>
        cp_not_before p < t \<and> t < cp_not_after p \<and> cp_not_after p - cp_not_before p < MAX_LEAF_VALIDITY_DAYS * 86400)"

lemma presents_leafI:
  assumes "tl_ia5 lib sni = Some dns"
    and "tl_sign lib (leaf_params t sni dns params) (ti_leaf_key tls) (ti_issuer tls) = Some cert"
    and "tl_server lib cert (ti_leaf_key tls) = Some cfg"
  shows "presents_leaf lib tls t sni cfg"
  unfolding presents_leaf_def
  using assms
  by (intro exI [of _ "leaf_params t sni dns params"] exI [of _ dns] exI [of _ cert])
     (simp add: leaf_params_def leaf_validity_def LEAF_VALIDITY_DAYS_def LEAF_BACKDATE_HOURS_def
       MAX_LEAF_VALIDITY_DAYS_def)

lemma make_server_config_leaf:
  "make_server_config lib tls now sni = Inr cfg \<Longrightarrow> presents_leaf lib tls now sni cfg"
  by (auto simp: make_server_config_def generate_leaf_cert_der_def expect_or_def presents_leafI split: option.splits sum.splits)

lemma presents_leaf_cache [simp]: "presents_leaf lib (tls\<lparr>ti_cache := c\<rparr>) = presents_leaf lib tls"
  by (simp add: presents_leaf_def fun_eq_iff)

definition leaves_for :: "('k, 'i, 'cl, 'cfg) tls_lib \<Rightarrow> ('k, 'i, 'cl, 'cfg) tls_identity \<Rightarrow> (int \<times> string) set \<Rightarrow> bool" where
  "leaves_for lib tls queries \<longleftrightarrow>
     (\<forall>sni cfg. ts_cache (ti_cache tls) sni = Some cfg \<longrightarrow> (\<exists>t. (t, sni) \<in> queries \<and> presents_leaf lib tls t sni cfg))"

lemma leaves_for_mono: "leaves_for lib tls qs \<Longrightarrow> qs \<subseteq> qs' \<Longrightarrow> leaves_for lib tls qs'"
  unfolding leaves_for_def by blast

lemma config_for_eq:
  "config_for lib tls now sni =
     (case ts_cache (ti_cache tls) sni of
        Some c \<Rightarrow> (Some c, tls)
      | None \<Rightarrow> (case make_server_config lib tls now sni of
          Inl _ \<Rightarrow> (None, tls)
        | Inr c \<Rightarrow> (Some c, tls\<lparr>ti_cache := (ti_cache tls)\<lparr>ts_cache := (ts_cache (ti_cache tls))(sni \<mapsto> c)\<rparr>\<rparr>)))"
  by (simp add: config_for_def server_config_def split: option.split sum.split)

lemma config_for_step:
  assumes "leaves_for lib tls queries" and "config_for lib tls now sni = (cfg, tls')"
  shows "leaves_for lib tls' (insert (now, sni) queries)" and "presents_leaf lib tls' = presents_leaf lib tls"
    and "cfg = Some c \<Longrightarrow> \<exists>t. (t, sni) \<in> insert (now, sni) queries \<and> presents_leaf lib tls t sni c"
proof -
  have "leaves_for lib tls' (insert (now, sni) queries) \<and> presents_leaf lib tls' = presents_leaf lib tls \<and>
      (cfg = Some c \<longrightarrow> (\<exists>t. (t, sni) \<in> insert (now, sni) queries \<and> presents_leaf lib tls t sni c))"
  proof (cases "ts_cache (ti_cache tls) sni")
    case (Some c')
    with assms show ?thesis
      using leaves_for_mono [OF assms(1), of "insert (now, sni) queries"]
      by (auto simp: config_for_eq leaves_for_def)
  next
    case None
    then show ?thesis
      using assms make_server_config_leaf [of lib tls now sni]
      by (cases "make_server_config lib tls now sni")
        (auto simp: config_for_eq leaves_for_def split: if_split_asm)
  qed
  then show "leaves_for lib tls' (insert (now, sni) queries)" and "presents_leaf lib tls' = presents_leaf lib tls"
    and "cfg = Some c \<Longrightarrow> \<exists>t. (t, sni) \<in> insert (now, sni) queries \<and> presents_leaf lib tls t sni c"
    by blast+
qed

lemma serve_names_leaves:
  "leaves_for lib tls queries \<Longrightarrow> leaves_for lib (serve_names lib tls qs) (set qs \<union> queries) \<and>
     presents_leaf lib (serve_names lib tls qs) = presents_leaf lib tls"
proof (induction qs arbitrary: tls queries)
  case (Cons q qs)
  obtain now sni where q: "q = (now, sni)" by (cases q)
  obtain cfg tls' where c: "config_for lib tls now sni = (cfg, tls')" by fastforce
  from config_for_step(1,2) [OF Cons.prems c] Cons.IH [of tls' "insert q queries"] show ?case
    by (simp add: q c)
qed simp

text \<open>C30: the certificate presented for a name is one for that name. Whatever names the loaded proxy was
  asked for before, in any order and at any times, the configuration it returns presents a leaf
  signed by its authority whose only alternative name is the name asked for, for server
  authentication and signatures only, made at a time this name was asked, with that time inside its
  validity period, which is shorter than 398 days.\<close>

theorem leaf_for_the_name:
  assumes "tls_load lib dir = Inr tls"
    and "fst (config_for lib (serve_names lib tls queries) now sni) = Some cfg"
  shows "\<exists>t. (t, sni) \<in> set queries \<union> {(now, sni)} \<and> presents_leaf lib tls t sni cfg"
proof -
  have "leaves_for lib tls {}"
    using assms(1) by (auto simp: tls_load_def leaves_for_def split: option.splits sum.splits)
  note s = serve_names_leaves [OF this, of queries]
  obtain tls' where "config_for lib (serve_names lib tls queries) now sni = (Some cfg, tls')"
    using assms(2) by (metis prod.collapse)
  from config_for_step(3) [OF _ this refl] s show ?thesis by (auto simp: insert_commute)
qed

text \<open>The cache keeps a configuration for good: a proxy that runs for longer than a leaf is valid
  goes on presenting the expired one.\<close>

lemma leaf_never_renewed:
  assumes "config_for lib tls t sni = (Some cfg, tls')"
  shows "fst (config_for lib tls' now sni) = Some cfg"
  using assms by (cases "ts_cache (ti_cache tls) sni"; cases "make_server_config lib tls t sni") (auto simp: config_for_eq)

section \<open>A started proxy\<close>

lemma load_first_Inr: "load_first f xs e = Inr a \<Longrightarrow> \<exists>x \<in> set xs. f x = Inr a"
  by (induction f xs e rule: load_first.induct) (auto split: sum.splits artifact_error.splits)

lemma load_verified: "load ld path = Inr art \<Longrightarrow> \<exists>slot. slot_verified ld (path slot) art"
  using load_first_Inr [of "load_slot ld" "map path [Current, Previous]" None art]
  by (fastforce simp: load_def simp del: load_first.simps dest: load_slot_Inr)

lemma from_args_inv: "from_args ap a args = ArgsOk opts \<Longrightarrow> options_inv opts \<and> final_checks opts = ArgsOk opts"
  using read_args_inv [OF options_inv_default] by (simp add: from_args_def)

lemma model_has_thresholds:
  assumes "from_args ap a args = ArgsOk opts" and "po_image_model opts = Some path"
  shows "\<exists>t s. po_image_threshold opts = Some (Fin t) \<and> 0 \<le> t \<and> t \<le> 1 \<and>
    po_image_sexy_threshold opts = Some (Fin s) \<and> 0 \<le> s \<and> s \<le> 1"
  using from_args_inv [OF assms(1)] assms(2)
  by (auto simp: options_inv_def final_checks_def dest!: unit_threshold_Fin split: if_splits)

lemma start_blocklist_verified:
  assumes "start_blocklist env opts = Inr r" and "po_blocklist_dir opts = Some dir"
  shows "\<exists>art slot. r = Some art \<and>
    slot_verified ((st_loader env)\<lparr>ld_trusted := po_blocklist_keys opts\<rparr>) (st_slots env dir slot) art"
  using assms load_verified by (cases "host_blocklist_load (st_loader env) (st_slots env) dir (po_blocklist_keys opts)")
    (fastforce simp: start_blocklist_def host_blocklist_load_def)+

lemma proxy_start_Inr:
  assumes "proxy_start env args = Some (Inr ps)"
  obtains opts list keyword_tokens where
    "from_args (st_parsers env) (st_local_8080 env) args = ArgsOk opts"
    "start_blocklist env opts = Inr list" "start_keywords env opts = Inr keyword_tokens"
    "ps_sandbox ps = build_image_sandbox (st_model env) (po_image_model opts)
       (unwrap_or_zero (po_image_sexy_threshold opts)) (unwrap_or_zero (po_image_threshold opts))"
    "ps_rules ps = set_host_keywords (host_rules_default\<lparr>hr_blocklist := list\<rparr>) keyword_tokens"
    "ps_mode ps = as_u8 Full"
proof -
  from assms obtain opts where a: "from_args (st_parsers env) (st_local_8080 env) args = ArgsOk opts"
    by (auto simp: proxy_start_def split: args_result.splits)
  from assms obtain list where l: "start_blocklist env opts = Inr list"
    by (cases "start_blocklist env opts") (auto simp: proxy_start_def a bind_eq_Some_conv split: sum.splits)
  from assms obtain ts where t: "start_keywords env opts = Inr ts"
    by (cases "start_keywords env opts") (auto simp: proxy_start_def a l bind_eq_Some_conv split: sum.splits)
  from assms show thesis
    by (intro that [OF a l t])
       (auto simp: proxy_start_def a l t bind_eq_Some_conv split: sum.splits if_splits)
qed

text \<open>C29: a proxy that started enforces what its command line asks for. It starts in \<open>Full\<close> mode;
  with a list directory its hooks consult an artifact whose signature by a key of the command line
  and digest were verified, and without one no list; its keyword rules are those of the keyword
  file; with a model that loads its sandbox has the two thresholds of the command line, numbers in [0, 1], and
  otherwise it classifies nothing. There is no start that drops the list or the keywords after an error.\<close>

theorem started_proxy_enforces:
  assumes "proxy_start env args = Some (Inr ps)"
  shows "\<exists>opts. from_args (st_parsers env) (st_local_8080 env) args = ArgsOk opts \<and>
    from_atomic (ps_mode ps) = Full \<and>
    (case po_blocklist_dir opts of
       None \<Rightarrow> hr_blocklist (ps_rules ps) = None
     | Some dir \<Rightarrow> \<exists>art slot. hr_blocklist (ps_rules ps) = Some art \<and>
         slot_verified ((st_loader env)\<lparr>ld_trusted := po_blocklist_keys opts\<rparr>) (st_slots env dir slot) art) \<and>
    (case po_keyword_file opts of
       None \<Rightarrow> hr_keywords (ps_rules ps) = keyword_rules_new []
     | Some path \<Rightarrow> \<exists>lines. read_keyword_file (st_keyword_file env path) = Inr lines \<and>
         hr_keywords (ps_rules ps) = keyword_rules_new lines) \<and>
    (case Option.bind (po_image_model opts) (\<lambda>path. case st_model env path INPUT_SIZE of Inl _ \<Rightarrow> None | Inr cl \<Rightarrow> Some cl) of
       None \<Rightarrow> ps_sandbox ps = sandbox_disabled
     | Some cl \<Rightarrow> \<exists>t s. po_image_threshold opts = Some (Fin t) \<and> 0 \<le> t \<and> t \<le> 1 \<and>
         po_image_sexy_threshold opts = Some (Fin s) \<and> 0 \<le> s \<and> s \<le> 1 \<and>
         ps_sandbox ps = sandbox_new cl
           \<lparr>explicit_threshold = Fin t, sexy_threshold = Fin s, sb_preprocess = preprocess_default\<rparr>)"
proof -
  obtain opts list keyword_tokens where
    a: "from_args (st_parsers env) (st_local_8080 env) args = ArgsOk opts"
    and list: "start_blocklist env opts = Inr list"
    and kws: "start_keywords env opts = Inr keyword_tokens"
    and sandbox: "ps_sandbox ps = build_image_sandbox (st_model env) (po_image_model opts)
       (unwrap_or_zero (po_image_sexy_threshold opts)) (unwrap_or_zero (po_image_threshold opts))"
    and rules: "ps_rules ps = set_host_keywords (host_rules_default\<lparr>hr_blocklist := list\<rparr>) keyword_tokens"
    and mode: "ps_mode ps = as_u8 Full"
    by (rule proxy_start_Inr [OF assms])
  have "case po_blocklist_dir opts of
      None \<Rightarrow> hr_blocklist (ps_rules ps) = None
    | Some dir \<Rightarrow> \<exists>art slot. hr_blocklist (ps_rules ps) = Some art \<and>
        slot_verified ((st_loader env)\<lparr>ld_trusted := po_blocklist_keys opts\<rparr>) (st_slots env dir slot) art"
    using list start_blocklist_verified [OF list] by (auto simp: rules set_host_keywords_def start_blocklist_def split: option.splits)
  moreover have "case po_keyword_file opts of
      None \<Rightarrow> hr_keywords (ps_rules ps) = keyword_rules_new []
    | Some path \<Rightarrow> \<exists>lines. read_keyword_file (st_keyword_file env path) = Inr lines \<and>
        hr_keywords (ps_rules ps) = keyword_rules_new lines"
    using kws by (auto simp: rules set_host_keywords_def start_keywords_def split: option.splits)
  moreover have "case Option.bind (po_image_model opts) (\<lambda>path. case st_model env path INPUT_SIZE of Inl _ \<Rightarrow> None | Inr cl \<Rightarrow> Some cl) of
       None \<Rightarrow> ps_sandbox ps = sandbox_disabled
     | Some cl \<Rightarrow> \<exists>t s. po_image_threshold opts = Some (Fin t) \<and> 0 \<le> t \<and> t \<le> 1 \<and>
         po_image_sexy_threshold opts = Some (Fin s) \<and> 0 \<le> s \<and> s \<le> 1 \<and>
         ps_sandbox ps = sandbox_new cl
           \<lparr>explicit_threshold = Fin t, sexy_threshold = Fin s, sb_preprocess = preprocess_default\<rparr>"
    using model_has_thresholds [OF a]
    by (auto simp: sandbox build_image_sandbox_def unwrap_or_zero_def split: option.splits sum.splits)
  moreover have "from_atomic (ps_mode ps) = Full" unfolding mode by (rule from_atomic_as_u8)
  ultimately show ?thesis using a by blast
qed

section \<open>Instances\<close>

definition toy_tls :: "(unit, unit, bytes list, bytes) tls_lib" where
  "toy_tls =
     \<lparr>tl_read = (\<lambda>_. Some ''pem''), tl_key_from_pem = (\<lambda>_. Some ()), tl_pem_parse = (\<lambda>_. Some [1]),
      tl_issuer = (\<lambda>_ _. Some ()), tl_generate_key = Some (),
      tl_params = (\<lambda>_. Some \<lparr>cp_not_before = 0, cp_not_after = 1, cp_subject_alt_names = [], cp_common_names = [],
        cp_key_usages = [], cp_extended_key_usages = []\<rparr>),
      tl_ia5 = Some, tl_sign = (\<lambda>p _ _. Some (bytes_of_string (concat (cp_common_names p)))),
      tl_native = [[1]], tl_root_ok = (\<lambda>_. True), tl_client = Some, tl_server = (\<lambda>c _. Some c)\<rparr>"

definition toy_identity :: "(unit, unit, bytes list, bytes) tls_identity" where
  "toy_identity = \<lparr>ti_issuer = (), ti_leaf_key = (), ti_cache = \<lparr>ts_cache = Map.empty\<rparr>, ti_client = [[1]]\<rparr>"

lemma toy_loads: "tls_load toy_tls dir = Inr toy_identity"
  by (simp add: tls_load_def toy_tls_def toy_identity_def build_client_config_def expect_or_def)

text \<open>The name \<open>a\<close> is asked for again after \<open>b\<close>: the configuration is the first one.\<close>

theorem leaf_for_the_name_witness:
  "fst (config_for toy_tls (serve_names toy_tls toy_identity [(5, ''a''), (6, ''b'')]) 7 ''a'') = Some [97] \<and>
   (\<exists>t. (t, ''a'') \<in> {(5, ''a''), (6, ''b''), (7, ''a'')} \<and> presents_leaf toy_tls toy_identity t ''a'' [97])"
proof -
  have c: "fst (config_for toy_tls (serve_names toy_tls toy_identity [(5, ''a''), (6, ''b'')]) 7 ''a'') = Some [97]"
    by (simp add: config_for_eq make_server_config_def generate_leaf_cert_der_def expect_or_def leaf_params_def
        toy_tls_def toy_identity_def bytes_of_string_def)
  from leaf_for_the_name [OF toy_loads this] c show ?thesis by auto
qed

text \<open>A start with a verified list, a key, a keyword file and a model.\<close>

definition toy_manifest :: manifest where
  "toy_manifest = \<lparr>mf_version = 1, mf_build_time = 0, mf_entry_count = 0, mf_output_license = LicenseId ''MIT'', mf_sources = [],
     mf_provenance_table = [], mf_fst_digest = [3], mf_signatures = [\<lparr>sig_key_id = ''k'', sig_bytes = []\<rparr>]\<rparr>"

definition start_args :: "string list" where
  "start_args = [''--blocklist-dir'', ''d'', ''--blocklist-key'', ''k:'' @ concat (replicate 32 ''0a''),
     ''--keyword-file'', ''w'', ''--image-model'', ''m.onnx'', ''--image-threshold'', ''0.5'',
     ''--image-sexy-threshold'', ''0.5'']"

definition toy_start :: "(unit, unit, unit, unit, bytes list, bytes) start_env" where
  "toy_start =
     \<lparr>st_parsers = toy_parsers\<lparr>ap_key := (\<lambda>_. Some ())\<rparr>, st_local_8080 = (), st_tls = toy_tls,
      st_unicode = ascii_unicode, st_hash = id_order,
      st_model = (\<lambda>_ _. Inl Unavailable),
      st_loader = \<lparr>ld_deserialize = (\<lambda>_. Some toy_manifest), ld_serialize = (\<lambda>_. Some []), ld_verify = (\<lambda>_ _ _. True),
        ld_sha256 = (\<lambda>b. b), ld_fst_open = (\<lambda>_. Some (\<lambda>_. None)), ld_trusted = []\<rparr>,
      st_slots = (\<lambda>_ _. \<lparr>sf_artifact = Contents [3], sf_manifest = Contents [4]\<rparr>),
      st_keyword_file = (\<lambda>_. Some (bytes_of_string ''casino'')), st_bind = (\<lambda>_. True)\<rparr>"

theorem started_proxy_enforces_witness:
  "\<exists>ps. proxy_start toy_start start_args = Some (Inr ps) \<and> from_atomic (ps_mode ps) = Full \<and>
     hr_blocklist (ps_rules ps) \<noteq> None"
proof -
  define opts where "opts = (case from_args (st_parsers toy_start) () start_args of ArgsOk r \<Rightarrow> r | _ \<Rightarrow> options_default ())"
  have "case from_args (st_parsers toy_start) () start_args of
      ArgsOk r \<Rightarrow> po_blocklist_dir r = Some ''d'' \<and> po_blocklist_keys r = [(''k'', ())] \<and> po_keyword_file r = Some ''w''
    | _ \<Rightarrow> False"
    by code_simp
  then have a: "from_args (st_parsers toy_start) (st_local_8080 toy_start) start_args = ArgsOk opts"
    and dir: "po_blocklist_dir opts = Some ''d''" "po_blocklist_keys opts = [(''k'', ())]"
    and kw: "po_keyword_file opts = Some ''w''"
    by (auto simp: opts_def toy_start_def split: args_result.splits)
  have t: "tls_load (st_tls toy_start) (po_ca_dir opts) = Inr toy_identity" by (simp add: toy_start_def toy_loads)
  have l: "\<exists>art. start_blocklist toy_start opts = Inr (Some art)"
    by (simp add: start_blocklist_def host_blocklist_load_def dir toy_start_def load_def load_slot_def verify_manifest_def
        signable_bytes_def toy_manifest_def)
  have k: "\<exists>ts. start_keywords toy_start opts = Inr ts"
  proof -
    have "case read_keyword_file (st_keyword_file toy_start ''w'') of Inr ts \<Rightarrow> True | Inl _ \<Rightarrow> False" by code_simp
    then show ?thesis by (auto simp: start_keywords_def kw split: sum.splits)
  qed
  from l k have "\<exists>ps. proxy_start toy_start start_args = Some (Inr ps)"
    using a t by (auto simp: proxy_start_def build_default_engine_def default_matcher toy_start_def)
  then obtain ps where ps: "proxy_start toy_start start_args = Some (Inr ps)" by blast
  from started_proxy_enforces [OF ps] a dir ps show ?thesis by auto
qed

end
