(* ===== verification/Front_Ends.thy ===== *)
theory Front_Ends
  imports Mitm_Scan
begin

text \<open>
  What the libraries offer to their callers beside the operations the proxy uses: the policy
  engine of \<open>packages/text-policy-ffi/src/lib.rs\<close>, the guard object of
  \<open>packages/image-sandbox-ffi/src/lib.rs\<close>, and the free functions of
  \<open>packages/text-policy/src/normalize/pipeline.rs\<close>.
\<close>

section \<open>Normalization by language\<close>

definition from_steps :: "language \<Rightarrow> (ustr \<Rightarrow> ustr) list \<Rightarrow> norm_pipeline" where
  "from_steps l steps = \<lparr>np_language = l, np_steps = steps\<rparr>"

definition normalize_text :: "ustr \<Rightarrow> ustr" where
  "normalize_text txt = trim_text txt"

definition normalize_text_for_language :: "unicode \<Rightarrow> ustr \<Rightarrow> language \<Rightarrow> ustr" where
  "normalize_text_for_language u txt l = pipeline_normalize (for_language u l) txt"

definition normalize_text_views_for_language :: "unicode \<Rightarrow> ustr \<Rightarrow> language \<Rightarrow> normalized_text" where
  "normalize_text_views_for_language u txt l = normalize_views u (for_language u l) txt"

definition default_normalization_pipelines :: "unicode \<Rightarrow> norm_pipeline list" where
  "default_normalization_pipelines u = norm_pipelines u"

text \<open>The table of pipelines and the direct choice by language agree for every language; a pipeline of chosen
  steps applies them in order.\<close>

lemma default_pipelines_agree:
  "pipelines_normalize (default_normalization_pipelines u) l txt = Some (normalize_text_for_language u txt l)"
  "pipelines_normalize_views u (default_normalization_pipelines u) l txt = Some (normalize_text_views_for_language u txt l)"
  by (simp_all add: default_normalization_pipelines_def normalize_text_for_language_def
      normalize_text_views_for_language_def pipelines_normalize_views_eq)

lemma from_steps_append:
  "pipeline_normalize (from_steps l (ss @ ts)) txt =
     pipeline_normalize (from_steps l ts) (pipeline_normalize (from_steps l ss) txt)"
  by (simp add: from_steps_def pipeline_normalize_def)

section \<open>text-policy-ffi\<close>

datatype ffi_source = FfiBrowserTitle | FfiBrowserUrl | FfiAccessibilityTree | FfiOcrHigh | FfiOcrMedium | FfiOcrLow

fun source_of_ffi :: "ffi_source \<Rightarrow> source_kind" where
  "source_of_ffi FfiBrowserTitle = BrowserTitle"
| "source_of_ffi FfiBrowserUrl = BrowserUrl"
| "source_of_ffi FfiAccessibilityTree = AccessibilityTree"
| "source_of_ffi FfiOcrHigh = OcrHigh"
| "source_of_ffi FfiOcrMedium = OcrMedium"
| "source_of_ffi FfiOcrLow = OcrLow"

datatype ffi_action = FfiBlock | FfiBlur | FfiWarn | FfiLog | FfiAllow

fun action_of_verdict :: "verdict_action \<Rightarrow> ffi_action" where
  "action_of_verdict BlockAction = FfiBlock"
| "action_of_verdict BlurAction = FfiBlur"
| "action_of_verdict WarnAction = FfiWarn"
| "action_of_verdict LogAction = FfiLog"
| "action_of_verdict AllowAction = FfiAllow"

record ffi_verdict =
  fv_action :: ffi_action
  fv_score :: nat

text \<open>\<open>builtin_matcher\<close>; \<open>expect\<close> panics when the dictionary does not build.\<close>

definition builtin_builder :: lexicon_builder where
  "builtin_builder =
     add_dictionary
       (add_dictionary (lexicon_builder_new English)
         \<lparr>di_name = map of_char ''adult-platforms'',
          di_terms =
            [ascii_term ''adult platform'' AdultPlatform High [ExactPhrase, TokenSequence, UrlTokenSequence],
             ascii_term ''explicit act'' ExplicitAct High [ExactPhrase, TokenSequence],
             ascii_term ''nudity'' Nudity Medium [ExactPhrase, Compact]]\<rparr>)
       \<lparr>di_name = map of_char ''exceptions'',
        di_terms = [ascii_term ''medical anatomy'' MedicalException Low [ExactPhrase]]\<rparr>"

definition builtin_matcher :: "unicode \<Rightarrow> hash_order \<Rightarrow> lexicon_matcher exec" where
  "builtin_matcher u h = (case lexicon_build u h builtin_builder of Some (Inr matcher) \<Rightarrow> Some matcher | _ \<Rightarrow> None)"

definition with_builtin_dictionary :: "unicode \<Rightarrow> hash_order \<Rightarrow> policy_engine exec" where
  "with_builtin_dictionary u h = do {
     matcher \<leftarrow> builtin_matcher u h;
     Some (policy_engine_new matcher thresholds_default)
   }"

definition with_thresholds :: "unicode \<Rightarrow> hash_order \<Rightarrow> thresholds \<Rightarrow> policy_engine exec" where
  "with_thresholds u h thr = do {
     matcher \<leftarrow> builtin_matcher u h;
     Some (policy_engine_new matcher thr)
   }"

definition ffi_evaluate ::
  "unicode \<Rightarrow> (mode_counts \<Rightarrow> mode_counts) \<Rightarrow> policy_engine \<Rightarrow> ustr \<Rightarrow> ffi_source \<Rightarrow> ffi_verdict exec" where
  "ffi_evaluate u ord engine txt src = do {
     v \<leftarrow> policy_evaluate u ord engine txt (source_of_ffi src);
     Some \<lparr>fv_action = action_of_verdict (ve_action v), fv_score = ve_score v\<rparr>
   }"

text \<open>The engine the applications get is the proxy's: what the guard blocks is what the proxy blocks
  in \<open>Full\<close> mode, with the same score, and the two panic alike.\<close>

lemma builtin_engine_eq: "with_builtin_dictionary u h = build_default_engine u h"
  by (simp add: with_builtin_dictionary_def builtin_matcher_def build_default_engine_def builtin_builder_def
      default_builder_def split: option.split sum.split)

lemma guard_blocks_iff_proxy:
  assumes "source_of_ffi src = src'"
  shows "scan_text src' u ord engine txt Full = Some (ScanBlock n) \<longleftrightarrow>
    ffi_evaluate u ord engine txt src = Some \<lparr>fv_action = FfiBlock, fv_score = n\<rparr>"
proof -
  have "action_of_verdict a = FfiBlock \<longleftrightarrow> a = BlockAction" for a by (cases a) simp_all
  then show ?thesis
    using assms by (auto simp: scan_text_def ffi_evaluate_def apply_mode_cases bind_eq_Some_conv)
qed

section \<open>image-sandbox-ffi\<close>

definition guard_disabled :: image_sandbox where
  "guard_disabled = sandbox_disabled"

definition guard_threshold :: "image_sandbox \<Rightarrow> fp" where
  "guard_threshold g = explicit_threshold (sb_config g)"

definition guard_sexy_threshold :: "image_sandbox \<Rightarrow> fp" where
  "guard_sexy_threshold g = sexy_threshold (sb_config g)"

definition image_guard_error_string :: "string \<Rightarrow> string" where
  "image_guard_error_string reason = ''classifier unavailable: '' @ reason"

text \<open>A guard reports the thresholds it was made with, and one without a model allows every frame
  without a score, whatever its size.\<close>

lemma guard_reports_thresholds:
  assumes "guard_with_model load_model path sexy explicit = Inr g"
  shows "guard_threshold g = explicit" and "guard_sexy_threshold g = sexy"
  using assms by (auto simp: guard_with_model_def guard_threshold_def guard_sexy_threshold_def sandbox_new_def
      split: sum.splits)

lemma disabled_guard_allows: "classify_frame lib guard_disabled px w h layout = Some (outcome_of unscored_allow)"
  by (simp add: classify_frame_def check_raw_def guard_disabled_def sandbox_disabled_def)

end
