(* ===== verification/Dns_Guard.thy ===== *)
theory Dns_Guard
  imports Dns_Shield
begin

text \<open>
  \<open>packages/net-shield-ffi/src/lib.rs\<close>: the handle the Android VPN service holds over
  \<open>Dns_Shield\<close>. It checks the trusted keys, loads the artifact, and translates verdicts.
  \<open>VerifyingKey::from_bytes\<close> is a parameter. The blocklist handle is the action its \<open>lookup\<close>
  returns for each name, as in \<open>Dns_Shield\<close>; \<open>answers\<close> gives it for the artifact loaded.
\<close>

datatype dns_decision = IgnorePacket | BlockedQuery string bytes | ForwardQuery string bytes

fun decision_of :: "dns_verdict \<Rightarrow> dns_decision" where
  "decision_of Ignore = IgnorePacket"
| "decision_of (Blocked name reply) = BlockedQuery name reply"
| "decision_of (Forward name query) = ForwardQuery name query"

definition ED25519_PUBLIC_KEY_LEN :: nat where "ED25519_PUBLIC_KEY_LEN = 32"

record trusted_key =
  tk_key_id :: key_id
  tk_public_key :: bytes

datatype artifact_load_error = ArtifactMissing | BadTrustedKey | ArtifactRejected artifact_error

fun load_error_of :: "artifact_error \<Rightarrow> artifact_load_error" where
  "load_error_of SlotMissing = ArtifactMissing"
| "load_error_of e = ArtifactRejected e"

fun verifying_keys :: "(bytes \<Rightarrow> 'vk option) \<Rightarrow> trusted_key list \<Rightarrow> artifact_load_error + (key_id \<times> 'vk) list" where
  "verifying_keys from_bytes [] = Inr []"
| "verifying_keys from_bytes (k # ks) =
     (if length (tk_public_key k) \<noteq> ED25519_PUBLIC_KEY_LEN then Inl BadTrustedKey
      else case from_bytes (tk_public_key k) of
        None \<Rightarrow> Inl BadTrustedKey
      | Some vk \<Rightarrow>
          (case verifying_keys from_bytes ks of
             Inl e \<Rightarrow> Inl e
           | Inr vks \<Rightarrow> Inr ((tk_key_id k, vk) # vks)))"

definition builtin_rules :: domain_filter where
  "builtin_rules = domain_from_rules [(''blocked.example'', Block)]"

definition normalize_keyword_token :: "string \<Rightarrow> string option" where
  "normalize_keyword_token raw = normalize_token raw"

datatype keyword_confidence = HighConfidence | MediumConfidence

definition match_keyword_token ::
  "to_ascii \<Rightarrow> psl_suffix \<Rightarrow> psl_domain \<Rightarrow> string \<Rightarrow> string \<Rightarrow> keyword_confidence option" where
  "match_keyword_token to_ascii psls psld token name =
     (case normalize to_ascii name of
        Inl _ \<Rightarrow> None
      | Inr normalized \<Rightarrow>
          map_option (\<lambda>m. case m of Exact \<Rightarrow> HighConfidence | Contains \<Rightarrow> MediumConfidence)
            (keyword_matches psls psld (keyword_rules_new [token]) normalized))"

definition guard_with_builtin_rules :: dns_shield where
  "guard_with_builtin_rules = dns_shield_new builtin_rules"

definition guard_with_blocked_domains :: "string list \<Rightarrow> dns_shield" where
  "guard_with_blocked_domains domains = dns_shield_new (domain_from_rules (map (\<lambda>d. (d, Block)) domains))"

definition guard_with_artifact ::
  "'vk loader \<Rightarrow> (bytes \<Rightarrow> 'vk option) \<Rightarrow> (artifact \<Rightarrow> string \<Rightarrow> filter_action) \<Rightarrow> (slot_dir \<Rightarrow> slot_files) \<Rightarrow>
   trusted_key list \<Rightarrow> artifact_load_error + dns_shield" where
  "guard_with_artifact ld from_bytes answers path keys =
     (case verifying_keys from_bytes keys of
        Inl e \<Rightarrow> Inl e
      | Inr vks \<Rightarrow>
          (case load (ld\<lparr>ld_trusted := vks\<rparr>) path of
             Inl e \<Rightarrow> Inl (load_error_of e)
           | Inr art \<Rightarrow> Inr (with_policy (domain_from_rules []) \<lparr>al_entries = {}\<rparr> (Some (answers art)))))"

definition guard_set_keywords :: "dns_shield \<Rightarrow> string list \<Rightarrow> dns_shield" where
  "guard_set_keywords g ts = set_keywords g ts"

definition guard_inspect :: "to_ascii \<Rightarrow> psl_suffix \<Rightarrow> psl_domain \<Rightarrow> dns_shield \<Rightarrow> bytes \<Rightarrow> dns_decision exec" where
  "guard_inspect to_ascii psls psld g packet = map_option decision_of (inspect to_ascii psls psld g packet)"

definition guard_wrap_response :: "dns_shield \<Rightarrow> bytes \<Rightarrow> bytes \<Rightarrow> bytes option exec" where
  "guard_wrap_response g request_packet response = wrap_response request_packet response"

section \<open>Guards\<close>

lemma verifying_keys_Inr:
  "verifying_keys from_bytes keys = Inr vks \<longleftrightarrow>
     list_all2 (\<lambda>k (kid, vk). kid = tk_key_id k \<and> length (tk_public_key k) = 32 \<and> from_bytes (tk_public_key k) = Some vk)
       keys vks"
proof (induction keys arbitrary: vks)
  case (Cons k ks)
  then show ?case
    by (cases vks) (auto simp: ED25519_PUBLIC_KEY_LEN_def Cons.IH [symmetric] split: option.splits sum.splits)
qed (simp add: eq_commute)

text \<open>There is a guard over an artifact only when every trusted key is a key and some slot's
  artifact verifies against them.\<close>

lemma guard_over_verified_artifact:
  assumes "guard_with_artifact ld from_bytes answers path keys = Inr g"
  shows "\<exists>vks slot art. verifying_keys from_bytes keys = Inr vks \<and> slot_verified (ld\<lparr>ld_trusted := vks\<rparr>) (path slot) art \<and>
    ds_blocklist g = Some (answers art) \<and> ds_keywords g = \<lparr>tokens = []\<rparr>"
proof -
  from assms obtain vks art where vks: "verifying_keys from_bytes keys = Inr vks"
    and art: "load (ld\<lparr>ld_trusted := vks\<rparr>) path = Inr art"
    and g: "g = with_policy (domain_from_rules []) \<lparr>al_entries = {}\<rparr> (Some (answers art))"
    by (auto simp: guard_with_artifact_def split: sum.splits)
  have "\<exists>slot. load_slot (ld\<lparr>ld_trusted := vks\<rparr>) (path slot) = Inr art"
    using art by (auto simp: load_def split: sum.splits artifact_error.splits)
  then show ?thesis using vks g load_slot_Inr by (fastforce simp: with_policy_def)
qed

text \<open>A guard over a list of domains answers each name from the list alone.\<close>

lemma map_of_const: "map_of (map (\<lambda>d. (f d, c)) ds) s = (if s \<in> f ` set ds then Some c else None)"
  by (induction ds) auto

lemma deepest_const:
  "deepest (\<lambda>s. if s \<in> labels ` set ds then Some c else None) ls =
     (if \<exists>d \<in> set ds. suffix (labels d) ls then Some c else None)"
proof (induction ls)
  case (Cons l ls)
  have "l # ls \<in> labels ` set ds \<longleftrightarrow> (\<exists>d \<in> set ds. labels d = l # ls)" by (auto simp: image_iff eq_commute)
  with Cons show ?case by (auto simp: suffix_Cons)
qed simp

lemma no_allowlist [simp]: "\<not> allowlist_contains \<lparr>al_entries = {}\<rparr> k"
  by (simp add: allowlist_contains_iff)

lemma guard_blocks_subtrees:
  assumes "normalize to_ascii name = Inr k"
  shows "resolve to_ascii psls psld (guard_with_blocked_domains ds) name =
    (if \<exists>d \<in> set ds. suffix (labels d) (labels k) then Block else Proxy)"
proof -
  have "rev (map (\<lambda>(r, a). (labels r, a)) (map (\<lambda>d. (d, Block)) ds)) = map (\<lambda>d. (labels d, Block)) (rev ds)"
    by (simp add: comp_def rev_map)
  then have "rule_for (domain_from_rules (map (\<lambda>d. (d, Block)) ds)) k =
      (if \<exists>d \<in> set ds. suffix (labels d) (labels k) then Some Block else None)"
    using deepest_const [of ds Block "labels k"]
    by (simp add: domain_from_rules_def df.query_rules map_of_const [abs_def])
  then show ?thesis
    using assms by (simp add: guard_with_blocked_domains_def resolve_def resolve_action_def dns_shield_new_def
        keyword_matches_def)
qed

end
