(* ===== verification/Cache_File.thy ===== *)
theory Cache_File
  imports Cache_Store
begin

text \<open>
  The one-file form of the liveness cache (\<open>load\<close> and \<open>save\<close> of
  \<open>domain-blocklist/src/cache_store.rs\<close>). \<open>bincode\<close> is a parameter; the directory holds the
  cache file and its temporary sibling, and each file operation may fail.
\<close>

record cache_codec =
  cc_serialize :: "(string \<rightharpoonup> cache_entry_dto) \<Rightarrow> bytes option"
  cc_deserialize :: "bytes \<Rightarrow> (string \<rightharpoonup> cache_entry_dto) option"

record cache_dir =
  cf_file :: "bytes option"
  cf_tmp :: "bytes option"

datatype cache_file_error = CacheRead | CacheDecode | CacheEncode | CacheWrite | CacheRename

text \<open>\<open>readable\<close> is whether reading an existing file succeeds.\<close>

definition cache_load :: "cache_codec \<Rightarrow> bool \<Rightarrow> cache_dir \<Rightarrow> cache_file_error + cache" where
  "cache_load codec readable dir =
     (case cf_file dir of
        None \<Rightarrow> Inr Map.empty
      | Some bs \<Rightarrow>
          if \<not> readable then Inl CacheRead
          else case cc_deserialize codec bs of
            None \<Rightarrow> Inl CacheDecode
          | Some dto \<Rightarrow> Inr (\<lambda>d. map_option entry_from_dto (dto d)))"

text \<open>A failed write may leave any part of the temporary file: \<open>write_result\<close> is what it leaves when
  it fails. A rename replaces the file or does nothing.\<close>

definition cache_save ::
  "cache_codec \<Rightarrow> bytes option option \<Rightarrow> bool \<Rightarrow> cache \<Rightarrow> cache_dir \<Rightarrow> cache_file_error option \<times> cache_dir" where
  "cache_save codec failed_write renames cache dir =
     (case cc_serialize codec (\<lambda>d. map_option entry_to_dto (cache d)) of
        None \<Rightarrow> (Some CacheEncode, dir)
      | Some bs \<Rightarrow>
          (case failed_write of
             Some left \<Rightarrow> (Some CacheWrite, dir\<lparr>cf_tmp := left\<rparr>)
           | None \<Rightarrow>
               if renames then (None, \<lparr>cf_file = Some bs, cf_tmp = None\<rparr>)
               else (Some CacheRename, dir\<lparr>cf_tmp := Some bs\<rparr>)))"

text \<open>A save either replaces the whole cache or leaves the old one as it was; loading after a
  successful save gives back what was saved, and a missing file is an empty cache.\<close>

lemma cache_save_atomic:
  assumes codec: "\<And>m bs. cc_serialize codec m = Some bs \<Longrightarrow> cc_deserialize codec bs = Some m"
  shows "case cache_save codec failed_write renames c dir of
      (None, dir') \<Rightarrow> cache_load codec True dir' = Inr c
    | (Some e, dir') \<Rightarrow> cache_load codec readable dir' = cache_load codec readable dir"
proof -
  have "(\<lambda>d. map_option entry_from_dto (map_option entry_to_dto (c d))) = c"
    by (simp add: option.map_comp comp_def fun_eq_iff option.map_ident)
  then show ?thesis using codec by (auto simp: cache_save_def cache_load_def split: option.splits)
qed

lemma cache_load_corrupt:
  "cf_file dir = Some bs \<Longrightarrow> cc_deserialize codec bs = None \<Longrightarrow> isl (cache_load codec readable dir)"
  by (simp add: cache_load_def)

text \<open>\<open>compact\<close> asks \<open>redb\<close> to compact its file and reports whether it did anything.\<close>

definition store_compact :: "('db \<Rightarrow> 'db \<times> bool option) \<Rightarrow> 'db cache_store \<Rightarrow> bool option \<times> 'db cache_store" where
  "store_compact redb_compact s =
     (let (db, result) = redb_compact (cs_db s) in (result, s\<lparr>cs_db := db\<rparr>))"

end
