(* ===== verification/Wire_Formats.thy ===== *)
theory Wire_Formats
  imports Fst_Build Entries_Store
begin

text \<open>
  The hand-written (de)serialisation of the artifact builder: the serde implementation of
  \<open>Signature\<close> (\<open>domain-blocklist/src/fst_build.rs\<close>) and the DTO of the entries store
  (\<open>entries_store.rs\<close>). How a format writes a key id and a byte sequence, and how it reads the next
  element of a tuple back, are parameters (\<open>bincode\<close> in the program).
\<close>

section \<open>Signatures\<close>

record sig_format =
  sw_key_id :: "key_id \<Rightarrow> bytes option"
  sw_bytes :: "bytes \<Rightarrow> bytes option"
  sr_key_id :: "bytes \<Rightarrow> string + key_id option \<times> bytes"
  sr_bytes :: "bytes \<Rightarrow> string + bytes option \<times> bytes"

datatype sig_error =
  FormatError string
| MissingKeyId
| MissingSignatureBytes
| SignatureLength nat

definition serialize_signature :: "sig_format \<Rightarrow> signature_entry \<Rightarrow> bytes option" where
  "serialize_signature fmt s =
     (case sw_key_id fmt (sig_key_id s) of
        None \<Rightarrow> None
      | Some a \<Rightarrow> (case sw_bytes fmt (sig_bytes s) of None \<Rightarrow> None | Some b \<Rightarrow> Some (a @ b)))"

text \<open>\<open>visit_seq\<close>, with what is left of the input.\<close>

definition visit_seq :: "sig_format \<Rightarrow> bytes \<Rightarrow> sig_error + signature_entry \<times> bytes" where
  "visit_seq fmt input =
     (case sr_key_id fmt input of
        Inl e \<Rightarrow> Inl (FormatError e)
      | Inr (None, _) \<Rightarrow> Inl MissingKeyId
      | Inr (Some kid, input) \<Rightarrow>
          (case sr_bytes fmt input of
             Inl e \<Rightarrow> Inl (FormatError e)
           | Inr (None, _) \<Rightarrow> Inl MissingSignatureBytes
           | Inr (Some bs, input) \<Rightarrow>
               if length bs \<noteq> 64 then Inl (SignatureLength (length bs))
               else Inr (\<lparr>sig_key_id = kid, sig_bytes = bs\<rparr>, input)))"

text \<open>Whatever the input and the format, an accepted signature has 64 bytes.\<close>

lemma visit_seq_length: "visit_seq fmt input = Inr (s, rest) \<Longrightarrow> length (sig_bytes s) = 64"
  by (auto simp: visit_seq_def split: sum.splits prod.splits option.splits if_splits)

text \<open>A format that reads back what it wrote reads signatures back; one of another length is
  refused by its reader although its writer takes it.\<close>

definition sig_format_ok :: "sig_format \<Rightarrow> bool" where
  "sig_format_ok fmt \<longleftrightarrow>
     (\<forall>k bs rest. sw_key_id fmt k = Some bs \<longrightarrow> sr_key_id fmt (bs @ rest) = Inr (Some k, rest)) \<and>
     (\<forall>x bs rest. sw_bytes fmt x = Some bs \<longrightarrow> sr_bytes fmt (bs @ rest) = Inr (Some x, rest))"

lemma signature_round_trip:
  assumes "sig_format_ok fmt" and "serialize_signature fmt s = Some bs"
  shows "visit_seq fmt (bs @ rest) =
    (if length (sig_bytes s) = 64 then Inr (s, rest) else Inl (SignatureLength (length (sig_bytes s))))"
  using assms by (auto simp: serialize_signature_def sig_format_ok_def visit_seq_def split: option.splits)

text \<open>Both parts with their length in eight little-endian bytes, as bincode writes them.\<close>

definition write_counted :: "bytes \<Rightarrow> bytes option" where
  "write_counted x = (if length x < 2 ^ 64 then Some (le_bytes 8 (length x) @ x) else None)"

definition read_counted :: "bytes \<Rightarrow> string + bytes option \<times> bytes" where
  "read_counted input =
     (let n = le_val (take 8 input)
      in if length input < 8 + n then Inl ''unexpected end'' else Inr (Some (take n (drop 8 input)), drop (8 + n) input))"

definition counted_format :: sig_format where
  "counted_format =
     \<lparr>sw_key_id = (\<lambda>k. write_counted (bytes_of_string k)), sw_bytes = write_counted,
      sr_key_id = (\<lambda>input. map_sum (\<lambda>e. e) (apfst (map_option string_of_bytes)) (read_counted input)),
      sr_bytes = read_counted\<rparr>"

lemma read_written_counted: "write_counted x = Some bs \<Longrightarrow> read_counted (bs @ rest) = Inr (Some x, rest)"
  using le_val_le_bytes [of "length x" 8]
  by (auto simp: write_counted_def read_counted_def Let_def split: if_splits)

lemma counted_format_ok: "sig_format_ok counted_format"
  by (auto simp: sig_format_ok_def counted_format_def read_written_counted)

section \<open>Entries\<close>

record merged_entry_dto =
  md_domain :: string
  md_scope :: rule_scope
  md_sources :: "source_id list"
  md_categories :: "category list"

definition merged_to_dto :: "merged_entry \<Rightarrow> merged_entry_dto" where
  "merged_to_dto e = \<lparr>md_domain = me_domain e, md_scope = me_scope e, md_sources = me_sources e,
     md_categories = me_categories e\<rparr>"

definition merged_from_dto :: "merged_entry_dto \<Rightarrow> merged_entry" where
  "merged_from_dto d = \<lparr>me_domain = md_domain d, me_scope = md_scope d, me_sources = md_sources d,
     me_categories = md_categories d\<rparr>"

lemma merged_dto_inverse: "merged_from_dto (merged_to_dto e) = e" "merged_to_dto (merged_from_dto d) = d"
  by (simp_all add: merged_to_dto_def merged_from_dto_def)

end
