(* ===== verification/Verdict_Report.thy ===== *)
theory Verdict_Report
  imports Publish_Run
begin

text \<open>
  The tally of the verdicts in the liveness cache that a run reports
  (\<open>log_verdict_breakdown\<close> of \<open>domain-blocklist/src/main.rs\<close>), and the count of read errors of
  its two caches. The log line's percentage is left out, its numerator is \<open>unknown_total\<close>; the
  counters are natural numbers, since a cache holds fewer than \<open>2 ^ 64\<close> rows.
\<close>

definition liveness_error_count :: "'db liveness_cache \<Rightarrow> u64" where
  "liveness_error_count c = (case c of Redb store \<Rightarrow> cs_error_count store | Memory m \<Rightarrow> 0)"

record verdict_breakdown =
  vb_total :: nat
  vb_alive :: nat
  vb_dead :: nat
  vb_nodata :: nat
  vb_servfail :: nat
  vb_refused :: nat
  vb_timeout :: nat
  vb_malformed :: nat
  vb_filtered :: nat
  vb_uncorroborated_dead :: nat
  vb_other :: nat

definition breakdown_zero :: verdict_breakdown where
  "breakdown_zero = \<lparr>vb_total = 0, vb_alive = 0, vb_dead = 0, vb_nodata = 0, vb_servfail = 0, vb_refused = 0,
     vb_timeout = 0, vb_malformed = 0, vb_filtered = 0, vb_uncorroborated_dead = 0, vb_other = 0\<rparr>"

definition tally_verdict :: "verdict_breakdown \<Rightarrow> string \<times> cache_entry \<Rightarrow> verdict_breakdown" where
  "tally_verdict b row =
     (let b = b\<lparr>vb_total := vb_total b + 1\<rparr>
      in case ce_verdict (snd row) of
           Alive \<Rightarrow> b\<lparr>vb_alive := vb_alive b + 1\<rparr>
         | Dead \<Rightarrow> b\<lparr>vb_dead := vb_dead b + 1\<rparr>
         | Unknown reason \<Rightarrow>
             (case reason of
                NoData \<Rightarrow> b\<lparr>vb_nodata := vb_nodata b + 1\<rparr>
              | ServFail \<Rightarrow> b\<lparr>vb_servfail := vb_servfail b + 1\<rparr>
              | Refused \<Rightarrow> b\<lparr>vb_refused := vb_refused b + 1\<rparr>
              | Timeout \<Rightarrow> b\<lparr>vb_timeout := vb_timeout b + 1\<rparr>
              | Malformed \<Rightarrow> b\<lparr>vb_malformed := vb_malformed b + 1\<rparr>
              | FilteredByResolver \<Rightarrow> b\<lparr>vb_filtered := vb_filtered b + 1\<rparr>
              | UncorroboratedDead \<Rightarrow> b\<lparr>vb_uncorroborated_dead := vb_uncorroborated_dead b + 1\<rparr>
              | _ \<Rightarrow> b\<lparr>vb_other := vb_other b + 1\<rparr>))"

definition log_verdict_breakdown ::
  "'db redb_ops \<Rightarrow> codec \<Rightarrow> (cache \<Rightarrow> (string \<times> cache_entry) list) \<Rightarrow> 'db liveness_cache \<Rightarrow>
   verdict_breakdown option \<times> 'db liveness_cache" where
  "log_verdict_breakdown rd cd hash_iter c =
     (let (rows, c) = liveness_for_each rd cd hash_iter c
      in (map_option (foldl tally_verdict breakdown_zero) rows, c))"

definition unknown_total :: "verdict_breakdown \<Rightarrow> nat" where
  "unknown_total b = vb_total b - vb_alive b - vb_dead b"

section \<open>The counters add up\<close>

definition reasons_sum :: "verdict_breakdown \<Rightarrow> nat" where
  "reasons_sum b = vb_nodata b + vb_servfail b + vb_refused b + vb_timeout b + vb_malformed b + vb_filtered b +
     vb_uncorroborated_dead b + vb_other b"

definition counted :: "verdict_breakdown \<Rightarrow> nat" where
  "counted b = vb_alive b + vb_dead b + reasons_sum b"

lemma tally_verdict_adds:
  "vb_total (tally_verdict b row) = vb_total b + 1" "counted (tally_verdict b row) = counted b + 1"
  by (auto simp: tally_verdict_def counted_def reasons_sum_def Let_def split: verdict.split unknown_reason.split)

lemma tally_all:
  "vb_total (foldl tally_verdict b rows) = vb_total b + length rows"
  "counted (foldl tally_verdict b rows) = counted b + length rows"
  by (induction rows arbitrary: b) (simp_all add: tally_verdict_adds)

text \<open>Every row is counted once: the subtraction behind the unknown percentage never underflows, and
  what it gives is the sum of the reasons.\<close>

lemma breakdown_accounts:
  assumes "log_verdict_breakdown rd cd hash_iter c = (Some b, c')"
  shows "vb_alive b + vb_dead b \<le> vb_total b" and "unknown_total b = reasons_sum b"
proof -
  obtain rows where b: "b = foldl tally_verdict breakdown_zero rows"
    using assms by (auto simp: log_verdict_breakdown_def split: prod.splits)
  have "vb_total b = vb_alive b + vb_dead b + reasons_sum b"
    using tally_all [of breakdown_zero rows] by (simp add: b counted_def breakdown_zero_def reasons_sum_def)
  then show "vb_alive b + vb_dead b \<le> vb_total b" and "unknown_total b = reasons_sum b"
    by (simp_all add: unknown_total_def)
qed

end
