(* ===== verification/Github_Http.thy ===== *)
theory Github_Http
  imports Github_Fetcher
begin

text \<open>
  The production transport of the GitHub fetcher (\<open>ReqwestHttp\<close> of
  \<open>domain-blocklist/src/fetchers/github.rs\<close>). \<open>reqwest\<close> is a parameter on a state: sending a request
  gives the head of a response or an error, reading the body its bytes or an error.
\<close>

record reqwest_error =
  re_is_timeout :: bool
  re_text :: string

record 'w reqwest =
  rw_send :: "string \<Rightarrow> 'w \<Rightarrow> (reqwest_error + u16 \<times> (string \<times> string) list) \<times> 'w"
  rw_bytes :: "'w \<Rightarrow> (reqwest_error + bytes) \<times> 'w"

definition classify_reqwest_error :: "reqwest_error \<Rightarrow> gh_http_error" where
  "classify_reqwest_error e = (if re_is_timeout e then GhTimeout (re_text e) else GhConnect (re_text e))"

definition reqwest_get :: "'w reqwest \<Rightarrow> string \<Rightarrow> 'w \<Rightarrow> (gh_http_error + gh_response) \<times> 'w" where
  "reqwest_get rq url w =
     (let (head, w) = rw_send rq url w
      in case head of
           Inl e \<Rightarrow> (Inl (classify_reqwest_error e), w)
         | Inr (status, headers) \<Rightarrow>
             (let (body, w) = rw_bytes rq w
              in case body of
                   Inl e \<Rightarrow> (Inl (classify_reqwest_error e), w)
                 | Inr bs \<Rightarrow> (Inr \<lparr>gr_status = status, gr_headers = headers, gr_body = bs\<rparr>, w)))"

definition reqwest_env :: "'w reqwest \<Rightarrow> (nat \<Rightarrow> 'w \<Rightarrow> 'w) \<Rightarrow> ('w \<Rightarrow> timestamp) \<Rightarrow> 'w gh_env" where
  "reqwest_env rq delay now = \<lparr>gh_get = reqwest_get rq, gh_delay = delay, gh_now = now\<rparr>"

text \<open>A response is returned only with a body that was read to its end; a response whose body
  fails is a transport error, whatever its status, so it is tried again.\<close>

lemma reqwest_get_whole:
  "fst (reqwest_get rq url w) = Inr r \<longleftrightarrow>
     (\<exists>w'. rw_send rq url w = (Inr (gr_status r, gr_headers r), w') \<and> fst (rw_bytes rq w') = Inr (gr_body r))"
  by (cases r) (force simp: reqwest_get_def split: prod.splits sum.splits)

lemma broken_body_is_transport_error:
  assumes "rw_send rq url w = (Inr (status, headers), w')" and "fst (rw_bytes rq w') = Inl e"
  shows "fst (reqwest_get rq url w) = Inl (classify_reqwest_error e)"
  using assms by (cases "rw_bytes rq w'") (simp add: reqwest_get_def)

end
