(* ===== verification/Spec2Isabelle.thy ===== *)
theory Spec2Isabelle
  imports Pipeline Net_Shield Lookup_Worker Feed_Provenance Dns_Client Mitm_Safety Mitm_Startup Front_Ends
    Dns_Guard Cache_File Wire_Formats Verdict_Report Github_Http
begin

text \<open>
  Holy Blocker: a verification library for the Rust packages under \<open>src/packages/\<close>.

  The program.  \<open>domain-blocklist\<close> is a build tool: it fetches feeds of domains from GitHub and UT1, parses and
  merges them, drops the domains that a sweep over two DNS resolvers finds dead, checks the result against
  publish gates, and writes a signed artifact (a finite-state transducer and a manifest) into one of two slots.
  \<open>net-shield\<close> runs on the device: it loads the artifact from its slots, and decides DNS queries, TLS handshakes
  and IP packets.  \<open>mitm-proxy\<close> runs on the desktop: it loads the same artifact, refuses hosts it lists, terminates
  the TLS of the browser, and scans URLs, pages and images with the two engines below.  \<open>text-policy\<close> scores a text
  against a lexicon of terms, \<open>image-sandbox\<close> classifies an image tile by tile.  \<open>domain-normalize\<close> brings names to
  the key form that all sides share.  Three FFI crates export \<open>net-shield\<close>, \<open>text-policy\<close> and \<open>image-sandbox\<close> to the
  mobile applications.

  Theories and sources.

    Prelude, Rust_Str, Ip_Addr, Btree: lists, words and folds; the string functions of the Rust library the
      code uses, on UTF-8 bytes; the address parser and printer of std; the ordered map of std.
    Radix, Ip_Filter: \<open>net-shield/src/radix.rs\<close>.
    Tun, Udp, Dns, Sni: \<open>tun.rs\<close>, \<open>udp.rs\<close>, \<open>dns.rs\<close>, \<open>sni.rs\<close>, on bytes at their machine widths, where an
      out-of-range index is a value (a panic), not an unspecified element.
    Keyword: \<open>keyword.rs\<close>.
    Artifact, Decision_Cache, Lookup_Worker: \<open>blocklist.rs\<close>, in this order the verified artifact with its
      lookup and the allow list, the LRU cache, and the worker thread with its callers.
    Dns_Shield, Net_Shield: \<open>dns_shield.rs\<close> and \<open>lib.rs\<close>, the policy on a query and on a packet.
    Dns_Guard: \<open>net-shield-ffi/src/lib.rs\<close>, the guard object over the shield.
    Domain_Normalize: \<open>domain-normalize/src/\<close>.
    Blocklist_Types, Merge, Ieee_Float, Gates, Fst_Build, Slots, Entries_Store, Publish_Policy: the files of
      \<open>domain-blocklist/src/\<close> of these names (\<open>Ieee_Float\<close> is the binary64 arithmetic of the gates).
    Sources: \<open>sources/\<close>, the validation of a fetched source and the feed parser.
    Github_Fetcher, Ut1_Fetcher: \<open>fetchers/github.rs\<close> and \<open>fetchers/ut1.rs\<close>, requests, retries and what is read
      out of the responses (tar members, license page, commit and license documents).
    Liveness: \<open>liveness/\<close>, verdicts, corroboration, pruning rules, canary, report.
    Dns_Client: \<open>liveness/net.rs\<close>, the queries of one lookup over UDP and TCP and the reading of a response.
    Cache_Store, Cache_File: \<open>cache_store.rs\<close>, the persistent cache with its write buffer, and the loading, saving
      and compaction of the cache file.
    Sweep, Sweep_Streaming, Sweep_Safety: \<open>sweep.rs\<close>.
    Publish_Run, Publish_Safety, Feed_Provenance: \<open>main.rs\<close> and \<open>cli.rs\<close>, a whole run, and the run with the
      modelled fetchers in the place of the feeds.
    Pipeline: from the feeds to a decision on the device.
    Text_Normalize: \<open>text-policy/src/normalize/\<close>, pipelines and views with the positions of their tokens.
    Text_Automaton, Text_Lexicon: \<open>text-policy/src/lexicon/\<close>, the Aho-Corasick automata, the builder, the matcher
      and the URL tokens.
    Text_Policy: \<open>scorer.rs\<close>, \<open>evaluator.rs\<close>, \<open>verdict.rs\<close>, \<open>policy.rs\<close>, the score in the arithmetic of \<open>f32\<close>.
    Image_Preprocess, Image_Sandbox: \<open>image-sandbox/src/\<close> (geometry and tensors; raw frames, classifier and
      verdict) and \<open>image-sandbox-ffi/src/lib.rs\<close>.
    Mitm_Hosts: \<open>mitm-proxy/src/blocklist.rs\<close>, \<open>cli.rs\<close>, the host rules of \<open>tunnel.rs\<close> and the keyword file of
      \<open>main.rs\<close>.
    Mitm_Scan: \<open>mitm-proxy/src/scan.rs\<close> and \<open>text-policy-ffi/src/lib.rs\<close>.
    Mitm_Proxy, Mitm_Safety: \<open>proxy.rs\<close>, \<open>connect.rs\<close>, \<open>tunnel.rs\<close>, \<open>forward.rs\<close>, the cache and the validity window
      of \<open>tls.rs\<close>, the hooks of \<open>main.rs\<close>; a session is one connection of the browser, its plain requests in
      turn and, after an accepted CONNECT, the requests of its tunnel.
    Mitm_Startup: the rest of \<open>tls.rs\<close> (the authority, leaf certificates, the client configuration) and \<open>main.rs\<close>
      up to its listener.
    Wire_Formats: the serde code of signatures in \<open>fst_build.rs\<close> and the DTO of \<open>entries_store.rs\<close>.
    Verdict_Report, Github_Http: the tally of verdicts of \<open>domain-blocklist/src/main.rs\<close>; the transport
      \<open>ReqwestHttp\<close> of \<open>fetchers/github.rs\<close>.

  How state and effects are modelled.  A struct is a record, an enum a datatype, \<open>u8\<close> to \<open>u128\<close> are words
  with their wrap-around, \<open>usize\<close> counters natural numbers (with the wrap-around written out where the code can
  reach it, as in \<open>image_from_raw\<close>); a string is its UTF-8 bytes, in \<open>text-policy\<close> a list of scalar values with
  the UTF-8 encoding beside it.  Errors are values of a sum, a panic is the value \<open>None\<close> of an option.  The worker
  and its callers are a step function over events, one event per critical section; a batch of the sweep is a step
  function in which a scheduler chooses the lookup that is answered next.  The network is a function of the queries
  answered so far, or of a world it threads, so it may answer differently each time.  A publication is a list of
  file system operations that may be cut anywhere.  A tunnel is a record with the state of its origin connection,
  the requests sent on it and the channel of video segments; its hooks may differ from request to request, since
  the mode and the keywords can be changed while it runs.

  What is a parameter.  Third-party code: the public suffix list, IDNA, the FST crate, SHA-256, Ed25519,
  bincode, redb, \<open>String::from_utf8_lossy\<close>, JSON and the messages of hickory (\<open>dns_codec\<close>), the HTTP clients,
  sockets and clocks of the fetchers and of the DNS client (\<open>gh_env\<close>, the contexts of Ut1_Fetcher, \<open>dns_net\<close>), the
  Unicode tables, the iteration order of hash maps, the image crate and the ONNX session (\<open>image_lib\<close>, the session
  of a classifier and the exponential), the URI, header and connection types of hyper (\<open>http_lib\<close>, \<open>connect_env\<close>), and rcgen and
  rustls (\<open>tls_lib\<close>).
  The interfaces the components rely on are locales: an ordered map (\<open>ordered_map\<close>), a rule store (\<open>rule_store\<close>),
  a decision cache (\<open>decision_cache\<close>), a cache that behaves as a map (\<open>lawful_cache\<close>, \<open>reliable_cache\<close>), interpreted
  on the in-memory map and proved of the store, and a fetcher that sends what it returns
  (\<open>source_fetcher\<close>), interpreted on both fetchers.  Hypotheses on a parameter are named (for example \<open>codec_ok\<close>,
  \<open>redb_contract\<close>, \<open>unicode_ok\<close>, \<open>image_lib_ok\<close>) and each property that has one comes with a witness on a
  concrete instance.

  What the lemma groups show.

    Filters: the trie answers with the deepest rule and the CIDR table with a longest prefix; two address
      families share the table.
    Packets and messages: round trips of datagrams, queries and handshakes, checksums, the NXDOMAIN reply,
      and that every parser returns on every input.
    Artifact: what is loaded was verified; a lookup answers as the list of covering entries does; the LRU
      cache is the list of its entries in order of use.
    Worker: whatever the interleaving, an answer is right and a name has one request; a call that is not refused
      and does not time out gets the artifact's own answer, unless a lookup of the worker panicked.
    Build: the merged list is the set-level union of its inputs and every input is accounted for; the
      shrinkage gate bounds what was lost up to one rounding; a manifest verifies; a publication is atomic.
    Fetchers: what a fetch returns was served for the pinned revision, or is a whole member of the served tarball
      within the ceilings; the license was read from what was served; requests are bounded.
    DNS client: an answer is believed only if it echoes its query; a name resolves exactly along its CNAME chain;
      a domain is dead only after two denials of the name itself.
    Sweep: a batch ends and yields one verdict per domain; the streaming sweep equals the resident one; with
      steady resolvers the schedule does not matter; a domain is pruned only on evidence that lasted the
      quarantine; the cache stays well formed while the clock does not go back; the buffered store is a map,
      and what a failed read or flush loses; saving the cache is atomic.
    Run: publication only through each of the five gates, with the reports before it; what a dry run writes; what is
      published is the merge of what the fetchers got, sampled and swept.
    End to end: a query that no higher level of the policy decides is blocked only when a surviving feed entry
      covers it, and exactly then when the worker answers in time.
    Text: the automaton finds what a naive search finds; the matches are exactly the occurrences of the surfaces;
      a strong term blocks; the verdict does not depend on the order of the hash maps.
    Images: every pixel lies in a tile and the number of tiles is bounded; a raw frame is the image it encodes; the
      strongest tile decides, and every fault allows.
    Proxy: accepted options are runnable; a proxy that started enforces the list, keywords and thresholds it was
      given; a certificate presented for a name is one for that name; the mode and the score decide what a scan does; a tunnel forwards
      exactly the requests the checks pass and hands back no answer a scanner blocks; end to end, no plain request
      leaves for a host the feeds list, and no tunnelled one under a listed CONNECT target, TLS server name or
      first Host header.

  Bounds and fuel.  No definition runs on fuel: loops are structural or have a measure (the bytes left of a
  message or a file, the attempts left of a control, the lookups left of a batch).  Two loops of the automaton
  construction follow failure links, and end only because these lead to shallower nodes; they are partial functions
  in the option monad, and their results are proved to exist.  Recursive label walks are bounded by the message
  length.  Rounding in \<open>Ieee_Float\<close> is to nearest, ties to even, for 53 bits; exponents are unbounded, which the
  quotients of two 64-bit counts never notice.  The scores of \<open>text-policy\<close> are \<open>f32\<close>: every operation on
  them is rounded to 24 bits.

  Not modelled: logging, process exit and the argument parser \<open>clap\<close>; pacing of the sweep, which only delays
  lookups; the clock within a run, which stands still;
  failures to write the reports and the artifact to the output directory of a run, which only end it;
  the waiting for a mutex of the lookup worker (a critical section is one event); the Windows packet loop; the accept loop of
  \<open>mitm-proxy/src/main.rs\<close>, the measuring tool \<open>bin/cert_timing.rs\<close> and \<open>extract_sni\<close> of \<open>connect.rs\<close>, which only its tests call; image decoding
  and ONNX inference; the generated bindings of the FFI crates; and the applications in other languages.
\<close>

end
